(* ===== verification/Clio_Prelude.thy ===== *)
theory Clio_Prelude
  imports Main
begin

text \<open>
  Shared vocabulary of the development: results with thrown errors, the JavaScript
  operators the sources use on optional values and strings, bounded histories
  (\<open>slice(-n)\<close>), the stable \<open>Array.prototype.sort\<close>, and the generic list lemmas
  the component theories rest on.

  Strings are lists of code points over HOL's \<open>char\<close>; an absent property or an
  \<open>undefined\<close> value of an optional field is \<open>None\<close>.
\<close>

named_theorems result_simps \<open>equations of results and their sequencing\<close>
named_theorems js_ops \<open>definitions of the JavaScript operators on optional values\<close>

section \<open>Thrown errors as values\<close>

text \<open>
  A schema failure carries the messages of its issues and its own message; a plain
  \<open>throw new Error(...)\<close> carries its message; reading a property of \<open>null\<close> or
  \<open>undefined\<close> is a type error that names the property.
\<close>

datatype zod_error = ZodError (zod_issues: "string list") (zod_message: string)

datatype js_error = ZodFailure zod_error | PlainError string | TypeError string

type_synonym 'a result = "js_error + 'a"

definition bindR :: "'a result \<Rightarrow> ('a \<Rightarrow> 'b result) \<Rightarrow> 'b result" where
  "bindR r k = (case r of Inl e \<Rightarrow> Inl e | Inr x \<Rightarrow> k x)"

definition of_zod :: "zod_error + 'a \<Rightarrow> 'a result" where
  "of_zod r = (case r of Inl e \<Rightarrow> Inl (ZodFailure e) | Inr x \<Rightarrow> Inr x)"

section \<open>Operators on optional values and strings\<close>

text \<open>\<open>a ?? b\<close> with a default that is a value, and with a default that may be absent.\<close>

definition coalesce :: "'a option \<Rightarrow> 'a \<Rightarrow> 'a" where
  "coalesce a b = (case a of None \<Rightarrow> b | Some x \<Rightarrow> x)"

definition or_else :: "'a option \<Rightarrow> 'a option \<Rightarrow> 'a option" where
  "or_else a b = (case a of None \<Rightarrow> b | Some x \<Rightarrow> Some x)"

text \<open>\<open>a || b\<close> on strings, and \<open>a || undefined\<close> on an optional string.\<close>

definition str_or :: "string \<Rightarrow> string \<Rightarrow> string" where
  "str_or a b = (if a = [] then b else a)"

definition or_undefined :: "string option \<Rightarrow> string option" where
  "or_undefined a = (if a = Some [] then None else a)"

definition truthy_str :: "string option \<Rightarrow> bool" where
  "truthy_str a \<longleftrightarrow> a \<noteq> None \<and> a \<noteq> Some []"

section \<open>Bounded histories: \<open>xs.slice(-n)\<close> for a positive bound\<close>

definition take_last :: "nat \<Rightarrow> 'a list \<Rightarrow> 'a list" where
  "take_last n xs = drop (length xs - n) xs"

section \<open>Array.prototype.sort\<close>

text \<open>
  The language fixes the result for a consistent comparator: the stable sort. A
  comparator returns a negative, zero or positive number.
\<close>

fun insert_by :: "('a \<Rightarrow> 'a \<Rightarrow> int) \<Rightarrow> 'a \<Rightarrow> 'a list \<Rightarrow> 'a list" where
  "insert_by cmp x [] = [x]"
| "insert_by cmp x (y # ys) =
     (if cmp x y \<le> 0 then x # y # ys else y # insert_by cmp x ys)"

fun js_sort :: "('a \<Rightarrow> 'a \<Rightarrow> int) \<Rightarrow> 'a list \<Rightarrow> 'a list" where
  "js_sort cmp [] = []"
| "js_sort cmp (x # xs) = insert_by cmp x (js_sort cmp xs)"

text \<open>\<open>Array.prototype.at(-1)\<close> and \<open>findIndex\<close>.\<close>

definition at_last :: "'a list \<Rightarrow> 'a option" where
  "at_last xs = (if xs = [] then None else Some (last xs))"

fun find_index :: "('a \<Rightarrow> bool) \<Rightarrow> 'a list \<Rightarrow> nat option" where
  "find_index P [] = None"
| "find_index P (x # xs) = (if P x then Some 0 else map_option Suc (find_index P xs))"

text \<open>\<open>Array.prototype.join\<close>.\<close>

fun join_with :: "string \<Rightarrow> string list \<Rightarrow> string" where
  "join_with sep [] = []"
| "join_with sep [x] = x"
| "join_with sep (x # y # xs) = x @ sep @ join_with sep (y # xs)"

text \<open>\<open>String.prototype.trim\<close>.\<close>

definition js_whitespace :: "char \<Rightarrow> bool" where
  "js_whitespace c \<longleftrightarrow> (of_char c :: nat) \<in> {9, 10, 11, 12, 13, 32, 160}"

definition trim :: "string \<Rightarrow> string" where
  "trim s = rev (dropWhile js_whitespace (rev (dropWhile js_whitespace s)))"

text \<open>\<open>/\s+/gu\<close> replaced by one space.\<close>

fun collapse_spaces :: "bool \<Rightarrow> string \<Rightarrow> string" where
  "collapse_spaces inside [] = []"
| "collapse_spaces inside (c # cs) =
     (if js_whitespace c then (if inside then [] else '' '') @ collapse_spaces True cs else c # collapse_spaces False cs)"

text \<open>\<open>String.prototype.startsWith\<close>, the pattern first.\<close>

definition starts_with :: "string \<Rightarrow> string \<Rightarrow> bool" where
  "starts_with pat s \<longleftrightarrow> take (length pat) s = pat"

text \<open>\<open>String.prototype.indexOf\<close> for a text that is not empty.\<close>

fun index_of :: "string \<Rightarrow> string \<Rightarrow> nat option" where
  "index_of pat [] = None"
| "index_of pat (c # s) = (if starts_with pat (c # s) then Some 0 else map_option Suc (index_of pat s))"

text \<open>A text in double quotes, as the messages of errors show it.\<close>

definition quoted :: "string \<Rightarrow> string" where
  "quoted s = CHR 0x22 # s @ [CHR 0x22]"

section \<open>Lemmas: results and operators\<close>

lemma bindR_simps [simp, result_simps]:
  "bindR (Inl e) k = Inl e" "bindR (Inr x) k = k x"
  by (simp_all add: bindR_def)

lemma bindR_eq_Inr [result_simps]: "bindR r k = Inr y \<longleftrightarrow> (\<exists>x. r = Inr x \<and> k x = Inr y)"
  by (cases r) auto

lemma bindR_eq_Inl [result_simps]:
  "bindR r k = Inl e \<longleftrightarrow> r = Inl e \<or> (\<exists>x. r = Inr x \<and> k x = Inl e)"
  by (cases r) auto

lemma of_zod_simps [simp, result_simps]:
  "of_zod (Inl z) = Inl (ZodFailure z)" "of_zod (Inr x) = Inr x"
  by (simp_all add: of_zod_def)

lemma of_zod_eq_Inr [result_simps]: "of_zod r = Inr x \<longleftrightarrow> r = Inr x"
  by (cases r) auto

lemma coalesce_simps [simp]: "coalesce None b = b" "coalesce (Some x) b = x"
  by (simp_all add: coalesce_def)

lemma or_else_simps [simp]:
  "or_else None b = b" "or_else (Some x) b = Some x" "or_else a None = a"
  by (simp_all add: or_else_def split: option.splits)

lemma or_else_assoc: "or_else (or_else a b) c = or_else a (or_else b c)"
  by (cases a) simp_all

lemma or_else_idem [simp]: "or_else a a = a" "or_else a (or_else a b) = or_else a b"
  by (cases a; simp)+

lemma str_or_simps [simp]: "str_or [] b = b" "a \<noteq> [] \<Longrightarrow> str_or a b = a" "str_or a [] = a"
  by (simp_all add: str_or_def)

lemma str_or_idem [simp]: "str_or a a = a" "str_or a (str_or a b) = str_or a b"
  by (simp_all add: str_or_def)

lemma starts_with_simps [simp]:
  "starts_with [] s" "starts_with (p # pat) [] \<longleftrightarrow> False"
  "starts_with (p # pat) (c # s) \<longleftrightarrow> p = c \<and> starts_with pat s"
  by (auto simp: starts_with_def)

section \<open>Lemmas: bounded histories\<close>

lemma length_take_last [simp]: "length (take_last n xs) = min n (length xs)"
  by (simp add: take_last_def)

lemma length_take_last_le: "length (take_last n xs) \<le> n"
  by simp

lemma take_last_id [simp]: "length xs \<le> n \<Longrightarrow> take_last n xs = xs"
  by (simp add: take_last_def)

lemma take_last_snoc: "0 < n \<Longrightarrow> take_last n (xs @ [x]) = take_last (n - 1) xs @ [x]"
  by (simp add: take_last_def)

lemma last_in_take_last: "0 < n \<Longrightarrow> x \<in> set (take_last n (xs @ [x]))"
  by (simp add: take_last_snoc)

lemma set_take_last: "set (take_last n xs) \<subseteq> set xs"
  by (simp add: take_last_def set_drop_subset)

lemma take_last_append_take_last:
  "take_last n (take_last n xs @ ys) = take_last n (xs @ ys)"
proof (cases "length xs \<le> n")
  case True
  then show ?thesis by simp
next
  case False
  have "drop (n + length ys - n) (drop (length xs - n) xs @ ys)
      = drop (length xs + length ys - n) (xs @ ys)"
  proof (cases "length ys \<le> n")
    case True
    with False have "length xs + length ys - n = length ys + (length xs - n)" by simp
    moreover from True False have "length ys \<le> length (drop (length xs - n) xs)" by simp
    ultimately show ?thesis by (simp add: drop_append)
  next
    case ys: False
    with False show ?thesis by (simp add: drop_append)
  qed
  with False show ?thesis by (simp add: take_last_def)
qed

section \<open>Lemmas: the stable sort\<close>

lemma set_insert_by [simp]: "set (insert_by cmp x xs) = insert x (set xs)"
  by (induction xs) auto

lemma set_js_sort [simp]: "set (js_sort cmp xs) = set xs"
  by (induction xs) auto

lemma length_insert_by [simp]: "length (insert_by cmp x xs) = Suc (length xs)"
  by (induction xs) auto

lemma length_js_sort [simp]: "length (js_sort cmp xs) = length xs"
  by (induction xs) auto

lemma js_sort_Nil_iff [simp]: "js_sort cmp xs = [] \<longleftrightarrow> xs = []"
  by (metis length_0_conv length_js_sort)

text \<open>
  Sorting by a numeric key, the comparator \<open>(left, right) => left.k - right.k\<close> of the
  sources.
\<close>

definition by_key :: "('a \<Rightarrow> int) \<Rightarrow> 'a \<Rightarrow> 'a \<Rightarrow> int" where
  "by_key k x y = k x - k y"

lemma sorted_insert_by_key:
  "sorted (map k xs) \<Longrightarrow> sorted (map k (insert_by (by_key k) x xs))"
  by (induction xs) (auto simp: by_key_def)

lemma sorted_js_sort: "sorted (map k (js_sort (by_key k) xs))"
  by (induction xs) (auto simp: sorted_insert_by_key)

lemma distinct_insert_by:
  "distinct (map k (insert_by cmp x xs)) \<longleftrightarrow> k x \<notin> k ` set xs \<and> distinct (map k xs)"
  by (induction xs) auto

lemma distinct_js_sort: "distinct (map k (js_sort cmp xs)) \<longleftrightarrow> distinct (map k xs)"
  by (induction xs) (auto simp: distinct_insert_by)

lemma insert_by_head: "\<forall>y\<in>set xs. cmp x y \<le> 0 \<Longrightarrow> insert_by cmp x xs = x # xs"
  by (cases xs) auto

lemma js_sort_sorted: "sorted (map k xs) \<Longrightarrow> js_sort (by_key k) xs = xs"
  by (induction xs) (auto intro!: insert_by_head simp: by_key_def)

section \<open>Lemmas: search\<close>

lemma find_index_Some:
  "find_index P xs = Some i \<Longrightarrow> i < length xs \<and> P (xs ! i) \<and> (\<forall>j < i. \<not> P (xs ! j))"
proof (induction xs arbitrary: i)
  case (Cons x xs)
  show ?case
  proof (cases "P x")
    case False
    with Cons.prems obtain j where j: "find_index P xs = Some j" "i = Suc j" by auto
    from Cons.IH [OF j(1)] show ?thesis
      using False j(2) by (auto simp: less_Suc_eq_0_disj)
  qed (use Cons.prems in auto)
qed simp

lemma find_index_None: "find_index P xs = None \<longleftrightarrow> (\<forall>x\<in>set xs. \<not> P x)"
  by (induction xs) auto

lemma find_Some_set: "find P xs = Some x \<Longrightarrow> x \<in> set xs \<and> P x"
  by (auto simp: find_Some_iff)

lemma distinct_map_inj:
  "distinct (map f xs) \<Longrightarrow> x \<in> set xs \<Longrightarrow> y \<in> set xs \<Longrightarrow> f x = f y \<Longrightarrow> x = y"
  by (metis distinct_map inj_on_def)

lemma find_distinct_key:
  assumes "distinct (map k xs)" "x \<in> set xs"
  shows "find (\<lambda>y. k y = k x) xs = Some x"
  using assms by (induction xs) (auto simp: image_iff)

end
