(* ===== verification/Js_Object.thy ===== *)
theory Js_Object
  imports Clio_Prelude
begin

text \<open>
  The \<open>Record<string, V>\<close> objects of the sources. An object is the list of its own
  properties in the order the language enumerates them: the array-index keys in
  ascending order, then the other keys in insertion order. \<open>obj_put\<close> is the
  computed-key spread \<open>{ ...o, [k]: v }\<close>, \<open>obj_del\<close> the rest pattern that drops a
  key, \<open>obj_spread\<close> is \<open>{ ...a, ...b }\<close>, \<open>obj_of_entries\<close> is \<open>Object.fromEntries\<close>.
  Keys that name members of \<open>Object.prototype\<close> are outside the model: an own key is
  the only thing a lookup can find.

  The locale \<open>keyed_store\<close> is the interface the components use: what a lookup
  returns after a write, and the invariant that every row is stored under its own
  id. It is interpreted on the objects here.
\<close>

type_synonym 'v obj = "(string \<times> 'v) list"

section \<open>Array-index keys\<close>

definition digit_value :: "char \<Rightarrow> nat" where
  "digit_value c = of_char c - 48"

definition is_digit :: "char \<Rightarrow> bool" where
  "is_digit c \<longleftrightarrow> (48 :: nat) \<le> of_char c \<and> (of_char c :: nat) \<le> 57"

definition digits_value :: "string \<Rightarrow> nat" where
  "digits_value s = foldl (\<lambda>n c. 10 * n + digit_value c) 0 s"

definition is_array_index :: "string \<Rightarrow> bool" where
  "is_array_index s \<longleftrightarrow> s \<noteq> [] \<and> list_all is_digit s \<and> (s = ''0'' \<or> hd s \<noteq> CHR ''0'')
     \<and> digits_value s < 2 ^ 32 - 1"

text \<open>Does key \<open>k\<close>, when new, come before the existing key \<open>k'\<close>?\<close>

definition key_before :: "string \<Rightarrow> string \<Rightarrow> bool" where
  "key_before k k' \<longleftrightarrow>
     is_array_index k \<and> (\<not> is_array_index k' \<or> digits_value k < digits_value k')"

section \<open>Operations\<close>

definition obj_get :: "'v obj \<Rightarrow> string \<Rightarrow> 'v option" where
  "obj_get o1 k = map_of o1 k"

definition obj_has :: "'v obj \<Rightarrow> string \<Rightarrow> bool" where
  "obj_has o1 k \<longleftrightarrow> obj_get o1 k \<noteq> None"

fun obj_insert :: "string \<Rightarrow> 'v \<Rightarrow> 'v obj \<Rightarrow> 'v obj" where
  "obj_insert k v [] = [(k, v)]"
| "obj_insert k v ((k', v') # o1) =
     (if key_before k k' then (k, v) # (k', v') # o1 else (k', v') # obj_insert k v o1)"

fun obj_replace :: "string \<Rightarrow> 'v \<Rightarrow> 'v obj \<Rightarrow> 'v obj" where
  "obj_replace k v [] = []"
| "obj_replace k v ((k', v') # o1) =
     (if k' = k then (k, v) # o1 else (k', v') # obj_replace k v o1)"

definition obj_put :: "'v obj \<Rightarrow> string \<Rightarrow> 'v \<Rightarrow> 'v obj" where
  "obj_put o1 k v = (if obj_has o1 k then obj_replace k v o1 else obj_insert k v o1)"

definition obj_filter :: "(string \<Rightarrow> 'v \<Rightarrow> bool) \<Rightarrow> 'v obj \<Rightarrow> 'v obj" where
  "obj_filter P o1 = filter (\<lambda>(k, v). P k v) o1"

definition obj_del :: "'v obj \<Rightarrow> string \<Rightarrow> 'v obj" where
  "obj_del o1 k = obj_filter (\<lambda>k' _. k' \<noteq> k) o1"

definition obj_map :: "('v \<Rightarrow> 'w) \<Rightarrow> 'v obj \<Rightarrow> 'w obj" where
  "obj_map f o1 = map (\<lambda>(k, v). (k, f v)) o1"

definition obj_keys :: "'v obj \<Rightarrow> string list" where
  "obj_keys o1 = map fst o1"

definition obj_values :: "'v obj \<Rightarrow> 'v list" where
  "obj_values o1 = map snd o1"

definition obj_spread :: "'v obj \<Rightarrow> 'v obj \<Rightarrow> 'v obj" where
  "obj_spread a b = foldl (\<lambda>o1 (k, v). obj_put o1 k v) a b"

definition obj_of_entries :: "(string \<times> 'v) list \<Rightarrow> 'v obj" where
  "obj_of_entries ps = obj_spread [] ps"

text \<open>An object has one property per key.\<close>

definition wf_obj :: "'v obj \<Rightarrow> bool" where
  "wf_obj o1 \<longleftrightarrow> distinct (map fst o1)"

text \<open>Every row of a store is found under its own id.\<close>

definition keyed_by :: "('s \<Rightarrow> string \<Rightarrow> 'v option) \<Rightarrow> ('v \<Rightarrow> string) \<Rightarrow> 's \<Rightarrow> bool" where
  "keyed_by get idf s \<longleftrightarrow> (\<forall>k v. get s k = Some v \<longrightarrow> idf v = k)"

text \<open>A \<open>Map\<close>: entries in insertion order, a write to an existing key stays in place.\<close>

fun map_set :: "('k \<times> 'v) list \<Rightarrow> 'k \<Rightarrow> 'v \<Rightarrow> ('k \<times> 'v) list" where
  "map_set [] k v = [(k, v)]"
| "map_set ((k', v') # m) k v = (if k' = k then (k, v) # m else (k', v') # map_set m k v)"

definition map_delete :: "('k \<times> 'v) list \<Rightarrow> 'k \<Rightarrow> ('k \<times> 'v) list" where
  "map_delete m k = filter (\<lambda>(k', _). k' \<noteq> k) m"

text \<open>Decimal notation of a count, as a template literal prints it.\<close>

definition digit_char :: "nat \<Rightarrow> char" where
  "digit_char d = char_of (48 + d)"

fun show_nat :: "nat \<Rightarrow> string" where
  "show_nat n = (if n < 10 then [digit_char n] else show_nat (n div 10) @ [digit_char (n mod 10)])"

declare show_nat.simps [simp del]

section \<open>Lookup laws\<close>

lemma map_of_map_set: "map_of (map_set m k v) k' = (if k' = k then Some v else map_of m k')"
  by (induction m k v rule: map_set.induct) auto

lemma map_of_map_delete: "map_of (map_delete m k) k' = (if k' = k then None else map_of m k')"
  by (induction m) (auto simp: map_delete_def)

lemma keys_map_set:
  "map fst (map_set m k v) = (if k \<in> fst ` set m then map fst m else map fst m @ [k])"
  by (induction m k v rule: map_set.induct) auto

lemma distinct_map_set: "distinct (map fst m) \<Longrightarrow> distinct (map fst (map_set m k v))"
  by (simp add: keys_map_set)

lemma obj_get_insert:
  "obj_get o1 k = None \<Longrightarrow>
     obj_get (obj_insert k v o1) k' = (if k' = k then Some v else obj_get o1 k')"
  by (induction k v o1 rule: obj_insert.induct) (auto simp: obj_get_def split: if_splits)

lemma obj_get_replace:
  "obj_get (obj_replace k v o1) k' =
     (if k' = k then map_option (\<lambda>_. v) (obj_get o1 k) else obj_get o1 k')"
  by (induction k v o1 rule: obj_replace.induct) (auto simp: obj_get_def)

lemma obj_get_put: "obj_get (obj_put o1 k v) k' = (if k' = k then Some v else obj_get o1 k')"
  by (auto simp: obj_put_def obj_has_def obj_get_insert obj_get_replace)

lemma obj_get_put_same [simp]: "obj_get (obj_put o1 k v) k = Some v"
  by (simp add: obj_get_put)

lemma obj_get_Nil [simp]: "obj_get [] k = None"
  by (simp add: obj_get_def)

lemma obj_get_Cons: "obj_get ((k, v) # o1) k' = (if k' = k then Some v else obj_get o1 k')"
  by (simp add: obj_get_def)

lemma obj_get_filter_key:
  "obj_get (obj_filter (\<lambda>k' _. P k') o1) k = (if P k then obj_get o1 k else None)"
  by (induction o1) (auto simp: obj_get_def obj_filter_def)

lemma obj_get_del: "obj_get (obj_del o1 k) k' = (if k' = k then None else obj_get o1 k')"
  by (simp add: obj_del_def obj_get_filter_key)

lemma obj_get_map [simp]: "obj_get (obj_map f o1) k = map_option f (obj_get o1 k)"
  by (induction o1) (auto simp: obj_get_def obj_map_def)

lemma set_obj_keys: "set (obj_keys o1) = {k. obj_get o1 k \<noteq> None}"
  by (auto simp: obj_keys_def obj_get_def map_of_eq_None_iff)

lemma obj_get_entry: "obj_get o1 k = Some v \<Longrightarrow> (k, v) \<in> set o1"
  by (simp add: obj_get_def map_of_SomeD)

lemma obj_get_value: "obj_get o1 k = Some v \<Longrightarrow> v \<in> set (obj_values o1)"
  by (force dest: obj_get_entry simp: obj_values_def)

section \<open>One property per key\<close>

lemma keys_insert: "set (map fst (obj_insert k v o1)) = insert k (set (map fst o1))"
  by (induction k v o1 rule: obj_insert.induct) auto

lemma keys_replace: "map fst (obj_replace k v o1) = map fst o1"
  by (induction k v o1 rule: obj_replace.induct) auto

lemma wf_obj_Nil [simp]: "wf_obj []"
  by (simp add: wf_obj_def)

lemma distinct_obj_insert:
  "k \<notin> set (map fst o1) \<Longrightarrow> distinct (map fst o1) \<Longrightarrow> distinct (map fst (obj_insert k v o1))"
proof (induction k v o1 rule: obj_insert.induct)
  case (2 k v k' v' o1)
  then show ?case using keys_insert [of k v o1] by auto
qed simp

lemma wf_obj_put [simp]: "wf_obj o1 \<Longrightarrow> wf_obj (obj_put o1 k v)"
  unfolding wf_obj_def obj_put_def obj_has_def
  using distinct_obj_insert [of k o1 v] keys_replace [of k v o1]
  by (auto simp: obj_get_def map_of_eq_None_iff)

lemma wf_obj_filter [simp]: "wf_obj o1 \<Longrightarrow> wf_obj (obj_filter P o1)"
  by (simp add: wf_obj_def obj_filter_def distinct_map_filter)

lemma wf_obj_del [simp]: "wf_obj o1 \<Longrightarrow> wf_obj (obj_del o1 k)"
  by (simp add: obj_del_def)

lemma wf_obj_map [simp]: "wf_obj (obj_map f o1) \<longleftrightarrow> wf_obj o1"
  by (simp add: wf_obj_def obj_map_def comp_def case_prod_beta)

lemma wf_obj_spread [simp]: "wf_obj a \<Longrightarrow> wf_obj (obj_spread a b)"
  by (induction b arbitrary: a) (auto simp: obj_spread_def)

lemma wf_obj_of_entries [simp]: "wf_obj (obj_of_entries ps)"
  by (simp add: obj_of_entries_def)

lemma obj_get_iff_entry: "wf_obj o1 \<Longrightarrow> obj_get o1 k = Some v \<longleftrightarrow> (k, v) \<in> set o1"
  by (simp add: wf_obj_def obj_get_def)

lemma obj_get_filter:
  "wf_obj o1 \<Longrightarrow> obj_get (obj_filter P o1) k =
     (case obj_get o1 k of Some v \<Rightarrow> if P k v then Some v else None | None \<Rightarrow> None)"
  by (induction o1) (auto simp: wf_obj_def obj_get_def obj_filter_def split: option.splits
      dest: map_of_SomeD intro: rev_image_eqI)

lemma obj_get_spread:
  "wf_obj b \<Longrightarrow> obj_get (obj_spread a b) k = or_else (obj_get b k) (obj_get a k)"
proof (induction b arbitrary: a)
  case (Cons p b)
  obtain k1 v1 where p: "p = (k1, v1)" by (cases p)
  from Cons.prems p have wf: "wf_obj b" and new: "obj_get b k1 = None"
    by (auto simp: wf_obj_def obj_get_def map_of_eq_None_iff)
  have "obj_get (obj_spread a (p # b)) k = obj_get (obj_spread (obj_put a k1 v1) b) k"
    by (simp add: obj_spread_def p)
  also have "\<dots> = or_else (obj_get b k) (obj_get (obj_put a k1 v1) k)"
    by (rule Cons.IH [OF wf])
  also have "\<dots> = or_else (obj_get (p # b) k) (obj_get a k)"
    using new by (auto simp: p obj_get_put obj_get_Cons)
  finally show ?case .
qed (simp add: obj_spread_def)

section \<open>The store interface\<close>

text \<open>
  What the components rely on: a write is read back, touches no other key, and a
  deletion removes exactly its key.
\<close>

locale keyed_store =
  fixes empty :: "'s"
    and get :: "'s \<Rightarrow> string \<Rightarrow> 'v option"
    and put :: "'s \<Rightarrow> string \<Rightarrow> 'v \<Rightarrow> 's"
    and del :: "'s \<Rightarrow> string \<Rightarrow> 's"
  assumes get_empty: "get empty k = None"
    and get_put: "get (put s k v) k' = (if k' = k then Some v else get s k')"
    and get_del: "get (del s k) k' = (if k' = k then None else get s k')"
begin

lemma keyed_empty: "keyed_by get idf empty"
  by (simp add: keyed_by_def get_empty)

lemma keyed_put: "keyed_by get idf s \<Longrightarrow> idf v = k \<Longrightarrow> keyed_by get idf (put s k v)"
  by (simp add: keyed_by_def get_put)

lemma keyed_del: "keyed_by get idf s \<Longrightarrow> keyed_by get idf (del s k)"
  by (simp add: keyed_by_def get_del)

lemma keyed_update:
  "keyed_by get idf s \<Longrightarrow> get s k = Some v \<Longrightarrow> idf v' = idf v \<Longrightarrow>
     keyed_by get idf (put s (idf v) v')"
  by (simp add: keyed_by_def get_put)

lemma put_frame: "k' \<noteq> k \<Longrightarrow> get (put s k v) k' = get s k'"
  by (simp add: get_put)

lemma keyed_fold_del: "keyed_by get idf s \<Longrightarrow> keyed_by get idf (foldl del s ks)"
  by (induction ks arbitrary: s) (auto intro: keyed_del)

lemma get_fold_del: "get (foldl del s ks) k = (if k \<in> set ks then None else get s k)"
  by (induction ks arbitrary: s) (auto simp: get_del)

end

interpretation objs: keyed_store "[]" obj_get obj_put obj_del
  by unfold_locales (auto simp: obj_get_put obj_get_del)

abbreviation keyed :: "('v \<Rightarrow> string) \<Rightarrow> 'v obj \<Rightarrow> bool" where
  "keyed idf o1 \<equiv> keyed_by obj_get idf o1"

lemma keyed_filter_key: "keyed idf o1 \<Longrightarrow> keyed idf (obj_filter (\<lambda>k _. P k) o1)"
  by (simp add: keyed_by_def obj_get_filter_key)

lemma keyed_filter: "wf_obj o1 \<Longrightarrow> keyed idf o1 \<Longrightarrow> keyed idf (obj_filter P o1)"
  by (auto simp: keyed_by_def obj_get_filter split: option.splits if_splits)

lemma keyed_map: "keyed idf o1 \<Longrightarrow> (\<And>v. idf (f v) = idf v) \<Longrightarrow> keyed idf (obj_map f o1)"
  by (auto simp: keyed_by_def)

end
