(* ===== verification/Formula.thy ===== *)
theory Formula
  imports Js_Object
begin

text \<open>
  \<open>web/src/lib/formula-expression.ts\<close>: the formula language \<open><name> = <expression>\<close>, its
  tokenizer, its recursive-descent parser with the nesting bound, and its evaluator. The
  numbers and the operations on them (\<open>Number\<close>, \<open>Math.*\<close>, the arithmetic operators) are the
  fields of \<open>js_math\<close>, an argument.

  The parser's methods call one another and loop, so each takes a fuel; \<open>parser_fuel\<close> is
  the fuel \<open>equation\<close> starts with, ten for every token, and it never runs out
  (\<open>parse_good\<close>): a method consumes a token before it calls itself again.
\<close>

section \<open>Errors, nodes and tokens\<close>

datatype formula_error_code =
    FEmpty | FTooLong | FTooDeep | FUnexpectedCharacter | FInvalidNumber | FUnexpectedToken
  | FUnexpectedEnd | FUnknownFunction | FWrongArity | FReservedName | FNotAnEquation

record formula_error =
  fe_code :: formula_error_code
  fe_message :: string
  fe_at :: nat

datatype formula_function = FSqrt | FExp | FLog | FAbs | FMin | FMax

datatype operator = OpAdd | OpSub | OpMul | OpDiv | OpPow

datatype 'n formula_node =
    NumberNode 'n
  | NameNode string
  | PiNode
  | NegateNode "'n formula_node"
  | BinaryNode operator "'n formula_node" "'n formula_node"
  | CallNode formula_function "'n formula_node list"

record 'n formula =
  fm_target :: string
  fm_expression :: "'n formula_node"
  fm_names :: "string list"

datatype 'n token = TNumber 'n nat | TName string nat | TSymbol char nat | TEnd nat

fun token_at :: "'n token \<Rightarrow> nat" where
  "token_at (TNumber _ i) = i"
| "token_at (TName _ i) = i"
| "token_at (TSymbol _ i) = i"
| "token_at (TEnd i) = i"

fun is_end :: "'n token \<Rightarrow> bool" where
  "is_end (TEnd _) = True"
| "is_end _ = False"

record 'n js_math =
  number_of_literal :: "string \<Rightarrow> 'n"
  string_of_number :: "'n \<Rightarrow> string"
  math_nan :: 'n
  math_pi :: 'n
  math_negate :: "'n \<Rightarrow> 'n"
  math_add :: "'n \<Rightarrow> 'n \<Rightarrow> 'n"
  math_sub :: "'n \<Rightarrow> 'n \<Rightarrow> 'n"
  math_mul :: "'n \<Rightarrow> 'n \<Rightarrow> 'n"
  math_div :: "'n \<Rightarrow> 'n \<Rightarrow> 'n"
  math_pow :: "'n \<Rightarrow> 'n \<Rightarrow> 'n"
  math_sqrt :: "'n \<Rightarrow> 'n"
  math_exp :: "'n \<Rightarrow> 'n"
  math_log :: "'n \<Rightarrow> 'n"
  math_abs :: "'n \<Rightarrow> 'n"
  math_min :: "'n list \<Rightarrow> 'n"
  math_max :: "'n list \<Rightarrow> 'n"
  math_finite :: "'n \<Rightarrow> bool"

definition FORMULA_MAX_LENGTH :: nat where "FORMULA_MAX_LENGTH = 2000"
definition FORMULA_MAX_DEPTH :: nat where "FORMULA_MAX_DEPTH = 64"

definition fail :: "formula_error_code \<Rightarrow> string \<Rightarrow> nat \<Rightarrow> formula_error" where
  "fail code message i = \<lparr>fe_code = code, fe_message = message, fe_at = i\<rparr>"

definition function_of_name :: "string \<Rightarrow> formula_function option" where
  "function_of_name s =
     (if s = ''sqrt'' then Some FSqrt else if s = ''exp'' then Some FExp
      else if s = ''log'' then Some FLog else if s = ''abs'' then Some FAbs
      else if s = ''min'' then Some FMin else if s = ''max'' then Some FMax else None)"

definition isFunctionName :: "string \<Rightarrow> bool" where
  "isFunctionName s \<longleftrightarrow> function_of_name s \<noteq> None"

definition is_unary :: "formula_function \<Rightarrow> bool" where
  "is_unary f \<longleftrightarrow> f \<in> {FSqrt, FExp, FLog, FAbs}"

section \<open>The tokenizer\<close>

definition is_letter :: "char \<Rightarrow> bool" where
  "is_letter c \<longleftrightarrow> (let n = (of_char c :: nat) in (65 \<le> n \<and> n \<le> 90) \<or> (97 \<le> n \<and> n \<le> 122))"

definition name_start :: "char \<Rightarrow> bool" where
  "name_start c \<longleftrightarrow> is_letter c \<or> c = CHR ''_''"

definition name_part :: "char \<Rightarrow> bool" where
  "name_part c \<longleftrightarrow> is_letter c \<or> is_digit c \<or> c = CHR ''_''"

definition is_blank :: "char \<Rightarrow> bool" where
  "is_blank c \<longleftrightarrow> c \<in> {CHR '' '', CHR 0x09, CHR 0x0A, CHR 0x0D}"

text \<open>The longest match of the number pattern at the start of a text.\<close>

definition match_exponent :: "string \<Rightarrow> string" where
  "match_exponent cs = (case cs of
      e # rest \<Rightarrow>
        if e = CHR ''e'' \<or> e = CHR ''E'' then
          (let sign = (case rest of s # _ \<Rightarrow> if s = CHR ''+'' \<or> s = CHR ''-'' then [s] else [] | [] \<Rightarrow> []);
               digits = takeWhile is_digit (drop (length sign) rest)
           in if digits = [] then [] else e # sign @ digits)
        else []
    | [] \<Rightarrow> [])"

definition match_mantissa :: "string \<Rightarrow> string option" where
  "match_mantissa cs =
     (let whole = takeWhile is_digit cs; rest = dropWhile is_digit cs in
      if whole \<noteq> [] then
        (case rest of
           c # frac \<Rightarrow> if c = CHR ''.'' then Some (whole @ c # takeWhile is_digit frac) else Some whole
         | [] \<Rightarrow> Some whole)
      else (case cs of
          c # frac \<Rightarrow> if c = CHR ''.'' \<and> takeWhile is_digit frac \<noteq> []
                      then Some (c # takeWhile is_digit frac) else None
        | [] \<Rightarrow> None))"

definition match_number :: "string \<Rightarrow> string option" where
  "match_number cs = (case match_mantissa cs of
      None \<Rightarrow> None
    | Some m \<Rightarrow> Some (m @ match_exponent (drop (length m) cs)))"

definition push_token :: "'n token \<Rightarrow> formula_error + 'n token list \<Rightarrow> formula_error + 'n token list" where
  "push_token t r = (case r of Inl e \<Rightarrow> Inl e | Inr ts \<Rightarrow> Inr (t # ts))"

lemma match_number_nonempty: "match_number cs = Some m \<Longrightarrow> m \<noteq> []"
  by (auto simp: match_number_def match_mantissa_def Let_def split: option.splits list.splits if_splits)

function tokenize_from ::
  "'n js_math \<Rightarrow> nat \<Rightarrow> string \<Rightarrow> formula_error + 'n token list" where
  "tokenize_from math index [] = Inr [TEnd index]"
| "tokenize_from math index (c # cs) =
     (if is_blank c then tokenize_from math (index + 1) cs
      else if is_digit c \<or> c = CHR ''.'' then
        (case match_number (c # cs) of
           None \<Rightarrow> Inl (fail FInvalidNumber (quoted [c] @ '' does not start a number.'') index)
         | Some m \<Rightarrow>
             let rest = drop (length m) (c # cs) in
             if rest \<noteq> [] \<and> (name_part (hd rest) \<or> hd rest = CHR ''.'')
             then Inl (fail FInvalidNumber
                    (quoted (take (length m + 1) (c # cs)) @ '' is not a number.'') index)
             else push_token (TNumber (number_of_literal math m) index)
                    (tokenize_from math (index + length m) rest))
      else if name_start c then
        (let rest = dropWhile name_part cs; n = c # takeWhile name_part cs
         in push_token (TName n index) (tokenize_from math (index + length n) rest))
      else if c = CHR ''*'' \<and> cs \<noteq> [] \<and> hd cs = CHR ''*'' then
        push_token (TSymbol (CHR ''^'') index) (tokenize_from math (index + 2) (tl cs))
      else if c \<in> set ''+-*/^(),='' then
        push_token (TSymbol c index) (tokenize_from math (index + 1) cs)
      else Inl (fail FUnexpectedCharacter
             (quoted [c] @ '' is not part of the formula language.'') index))"
  by pat_completeness auto

termination
proof (relation "measure (\<lambda>(math, index, cs). length cs)")
  fix math :: "'n js_math" and index c cs m x
  assume "match_number (c # cs) = Some m" "x = drop (length m) (c # cs)"
  then show "((math, index + length m, x), (math, index, c # cs)) \<in> measure (\<lambda>(math, index, cs). length cs)"
    using match_number_nonempty [of "c # cs" m] by (cases m) auto
qed (auto simp: less_Suc_eq_le length_dropWhile_le)

definition tokenize :: "'n js_math \<Rightarrow> string \<Rightarrow> formula_error + 'n token list" where
  "tokenize math txt = tokenize_from math 0 txt"

definition describe :: "'n js_math \<Rightarrow> 'n token \<Rightarrow> string" where
  "describe math t = (case t of
      TEnd _ \<Rightarrow> ''the end''
    | TNumber n _ \<Rightarrow> quoted (string_of_number math n)
    | TName s _ \<Rightarrow> quoted s
    | TSymbol c _ \<Rightarrow> quoted [c])"

section \<open>The parser\<close>

text \<open>The tokens from the current position on (the last one is the end), the depth, the names.\<close>

record 'n parser =
  ps_tokens :: "'n token list"
  ps_depth :: nat
  ps_names :: "string list"

text \<open>\<open>None\<close> is a run out of fuel.\<close>

type_synonym ('n, 'a) parse_result = "(formula_error + 'a \<times> 'n parser) option"

definition bindP ::
  "('n, 'a) parse_result \<Rightarrow> ('a \<Rightarrow> 'n parser \<Rightarrow> ('n, 'b) parse_result) \<Rightarrow> ('n, 'b) parse_result" where
  "bindP r k = (case r of
      None \<Rightarrow> None
    | Some (Inl e) \<Rightarrow> Some (Inl e)
    | Some (Inr (x, s)) \<Rightarrow> k x s)"

definition peek :: "'n parser \<Rightarrow> 'n token" where
  "peek s = (case ps_tokens s of t # _ \<Rightarrow> t | [] \<Rightarrow> TEnd 0)"

definition next_token :: "'n parser \<Rightarrow> 'n token \<times> 'n parser" where
  "next_token s = (peek s, if is_end (peek s) then s else s\<lparr>ps_tokens := tl (ps_tokens s)\<rparr>)"

definition isSymbol :: "char \<Rightarrow> 'n parser \<Rightarrow> bool" where
  "isSymbol c s = (case peek s of TSymbol c' _ \<Rightarrow> c' = c | _ \<Rightarrow> False)"

definition expect :: "'n js_math \<Rightarrow> char \<Rightarrow> 'n parser \<Rightarrow> ('n, unit) parse_result" where
  "expect math c s =
     (let (token, s1) = next_token s in
      if (case token of TSymbol c' _ \<Rightarrow> c' = c | _ \<Rightarrow> False) then Some (Inr ((), s1))
      else Some (Inl (fail (if is_end token then FUnexpectedEnd else FUnexpectedToken)
             (''Expected '' @ quoted [c] @ '' but found '' @ describe math token @ ''.'')
             (token_at token))))"

definition enter :: "nat \<Rightarrow> 'n parser \<Rightarrow> ('n, unit) parse_result" where
  "enter i s =
     (let s1 = s\<lparr>ps_depth := ps_depth s + 1\<rparr> in
      if ps_depth s1 > FORMULA_MAX_DEPTH
      then Some (Inl (fail FTooDeep
             (''The formula nests deeper than '' @ show_nat FORMULA_MAX_DEPTH @ '' levels.'') i))
      else Some (Inr ((), s1)))"

definition leave :: "'n parser \<Rightarrow> 'n parser" where
  "leave s = s\<lparr>ps_depth := ps_depth s - 1\<rparr>"

definition read_name :: "string \<Rightarrow> 'n parser \<Rightarrow> 'n parser" where
  "read_name n s = (if n \<in> set (ps_names s) then s else s\<lparr>ps_names := ps_names s @ [n]\<rparr>)"

text \<open>The check of a call's arguments, after its closing parenthesis.\<close>

definition check_arity ::
  "formula_function \<Rightarrow> string \<Rightarrow> nat \<Rightarrow> 'n formula_node list \<Rightarrow> 'n parser
     \<Rightarrow> ('n, 'n formula_node) parse_result" where
  "check_arity f n i args s =
     (if (if is_unary f then length args \<noteq> 1 else length args < 2)
      then Some (Inl (fail FWrongArity
             (if is_unary f then n @ '' takes one argument, not '' @ show_nat (length args) @ ''.''
              else n @ '' takes two or more arguments, not '' @ show_nat (length args) @ ''.'') i))
      else Some (Inr (CallNode f args, s)))"

text \<open>
  The methods that call one another, as a table: a method is defined over the table of the
  methods it may call, and the table for a fuel is built from the one for the fuel below.
\<close>

record 'n methods =
  call_sum :: "'n parser \<Rightarrow> ('n, 'n formula_node) parse_result"
  call_sum_loop :: "'n formula_node \<Rightarrow> 'n parser \<Rightarrow> ('n, 'n formula_node) parse_result"
  call_product :: "'n parser \<Rightarrow> ('n, 'n formula_node) parse_result"
  call_product_loop :: "'n formula_node \<Rightarrow> 'n parser \<Rightarrow> ('n, 'n formula_node) parse_result"
  call_unary :: "'n parser \<Rightarrow> ('n, 'n formula_node) parse_result"
  call_power :: "'n parser \<Rightarrow> ('n, 'n formula_node) parse_result"
  call_primary :: "'n parser \<Rightarrow> ('n, 'n formula_node) parse_result"
  call_call :: "string \<Rightarrow> nat \<Rightarrow> 'n parser \<Rightarrow> ('n, 'n formula_node) parse_result"
  call_args :: "'n formula_node list \<Rightarrow> 'n parser \<Rightarrow> ('n, 'n formula_node list) parse_result"

definition parse_sum :: "'n methods \<Rightarrow> 'n parser \<Rightarrow> ('n, 'n formula_node) parse_result" where
  "parse_sum this s = bindP (call_product this s) (call_sum_loop this)"

definition parse_sum_loop ::
  "'n methods \<Rightarrow> 'n formula_node \<Rightarrow> 'n parser \<Rightarrow> ('n, 'n formula_node) parse_result" where
  "parse_sum_loop this left s =
     (if isSymbol (CHR ''+'') s \<or> isSymbol (CHR ''-'') s then
        (let op1 = (if isSymbol (CHR ''+'') s then OpAdd else OpSub) in
         bindP (call_product this (snd (next_token s))) (\<lambda>right s2.
           call_sum_loop this (BinaryNode op1 left right) s2))
      else Some (Inr (left, s)))"

definition parse_product :: "'n methods \<Rightarrow> 'n parser \<Rightarrow> ('n, 'n formula_node) parse_result" where
  "parse_product this s = bindP (call_unary this s) (call_product_loop this)"

definition parse_product_loop ::
  "'n methods \<Rightarrow> 'n formula_node \<Rightarrow> 'n parser \<Rightarrow> ('n, 'n formula_node) parse_result" where
  "parse_product_loop this left s =
     (if isSymbol (CHR ''*'') s \<or> isSymbol (CHR ''/'') s then
        (let op1 = (if isSymbol (CHR ''*'') s then OpMul else OpDiv) in
         bindP (call_unary this (snd (next_token s))) (\<lambda>right s2.
           call_product_loop this (BinaryNode op1 left right) s2))
      else Some (Inr (left, s)))"

definition parse_unary :: "'n methods \<Rightarrow> 'n parser \<Rightarrow> ('n, 'n formula_node) parse_result" where
  "parse_unary this s =
     (if isSymbol (CHR ''-'') s \<or> isSymbol (CHR ''+'') s then
        bindP (enter (token_at (peek s)) (snd (next_token s))) (\<lambda>_ s2.
        bindP (call_unary this s2) (\<lambda>argument s3.
          Some (Inr (if isSymbol (CHR ''-'') s then NegateNode argument else argument, leave s3))))
      else call_power this s)"

definition parse_power :: "'n methods \<Rightarrow> 'n parser \<Rightarrow> ('n, 'n formula_node) parse_result" where
  "parse_power this s =
     bindP (call_primary this s) (\<lambda>base s1.
       if \<not> isSymbol (CHR ''^'') s1 then Some (Inr (base, s1))
       else
         bindP (enter (token_at (peek s1)) (snd (next_token s1))) (\<lambda>_ s3.
         bindP (call_unary this s3) (\<lambda>exponent s4.
           Some (Inr (BinaryNode OpPow base exponent, leave s4)))))"

definition parse_primary ::
  "'n js_math \<Rightarrow> 'n methods \<Rightarrow> 'n parser \<Rightarrow> ('n, 'n formula_node) parse_result" where
  "parse_primary math this s =
     (let (token, s1) = next_token s;
          unexpected = (\<lambda>code. Some (Inl (fail code (''Expected a number, a name or '' @ quoted ''('' @
            '' but found '' @ describe math token @ ''.'') (token_at token))))
      in case token of
        TNumber v _ \<Rightarrow> Some (Inr (NumberNode v, s1))
      | TSymbol c i \<Rightarrow>
          if c = CHR ''('' then
            bindP (enter i s1) (\<lambda>_ s2.
            bindP (call_sum this s2) (\<lambda>inner s3.
            bindP (expect math (CHR '')'') s3) (\<lambda>_ s4. Some (Inr (inner, leave s4)))))
          else unexpected FUnexpectedToken
      | TName v i \<Rightarrow>
          if isSymbol (CHR ''('') s1 then call_call this v i s1
          else if v = ''pi'' then Some (Inr (PiNode, s1))
          else if isFunctionName v
          then Some (Inl (fail FReservedName
                 (quoted v @ '' is a function; call it with parentheses.'') i))
          else Some (Inr (NameNode v, read_name v s1))
      | TEnd i \<Rightarrow> unexpected FUnexpectedEnd)"

definition parse_call ::
  "'n js_math \<Rightarrow> 'n methods \<Rightarrow> string \<Rightarrow> nat \<Rightarrow> 'n parser \<Rightarrow> ('n, 'n formula_node) parse_result" where
  "parse_call math this v i s =
     (case function_of_name v of
        None \<Rightarrow> Some (Inl (fail FUnknownFunction (quoted v @ '' is not a known function.'') i))
      | Some f \<Rightarrow>
          bindP (enter i (snd (next_token s))) (\<lambda>_ s1.
          bindP (if isSymbol (CHR '')'') s1 then Some (Inr ([], s1))
                 else bindP (call_sum this s1) (\<lambda>a s2. call_args this [a] s2)) (\<lambda>args s3.
          bindP (expect math (CHR '')'') s3) (\<lambda>_ s4. check_arity f v i args (leave s4)))))"

definition parse_args ::
  "'n methods \<Rightarrow> 'n formula_node list \<Rightarrow> 'n parser \<Rightarrow> ('n, 'n formula_node list) parse_result" where
  "parse_args this args s =
     (if isSymbol (CHR '','') s then
        bindP (call_sum this (snd (next_token s))) (\<lambda>a s2. call_args this (args @ [a]) s2)
      else Some (Inr (args, s)))"

primrec parser_methods :: "'n js_math \<Rightarrow> nat \<Rightarrow> 'n methods" where
  "parser_methods math 0 = \<lparr>call_sum = \<lambda>_. None, call_sum_loop = \<lambda>_ _. None, call_product = \<lambda>_. None,
     call_product_loop = \<lambda>_ _. None, call_unary = \<lambda>_. None, call_power = \<lambda>_. None,
     call_primary = \<lambda>_. None, call_call = \<lambda>_ _ _. None, call_args = \<lambda>_ _. None\<rparr>"
| "parser_methods math (Suc n) = (let this = parser_methods math n in \<lparr>call_sum = parse_sum this,
     call_sum_loop = parse_sum_loop this, call_product = parse_product this,
     call_product_loop = parse_product_loop this, call_unary = parse_unary this,
     call_power = parse_power this, call_primary = parse_primary math this,
     call_call = parse_call math this, call_args = parse_args this\<rparr>)"

definition parser_fuel :: "'n parser \<Rightarrow> nat" where
  "parser_fuel s = 10 * length (ps_tokens s) + 10"

definition equation :: "'n js_math \<Rightarrow> 'n parser \<Rightarrow> (formula_error + 'n formula) option" where
  "equation math s =
     (let (token, s1) = next_token s in
      case (case token of TName v _ \<Rightarrow> if v = ''pi'' \<or> isFunctionName v then None else Some v | _ \<Rightarrow> None) of
        None \<Rightarrow> Some (Inl (fail FNotAnEquation
          (''A formula starts with the measured field's name, then '' @ quoted ''='' @ ''.'') 0))
      | Some target \<Rightarrow>
          if \<not> isSymbol (CHR ''='') s1
          then Some (Inl (fail FNotAnEquation
                 (''A formula is '' @ quoted ''<measured field> = <expression>'' @ ''.'') (token_at (peek s1))))
          else (case call_sum (parser_methods math (parser_fuel s)) (snd (next_token s1)) of
              None \<Rightarrow> None
            | Some (Inl e) \<Rightarrow> Some (Inl e)
            | Some (Inr (expression, s2)) \<Rightarrow>
                if \<not> is_end (peek s2)
                then Some (Inl (fail FUnexpectedToken
                       (''Unexpected '' @ describe math (peek s2) @ '' after the expression.'')
                       (token_at (peek s2))))
                else Some (Inr \<lparr>fm_target = target, fm_expression = expression,
                                fm_names = ps_names s2\<rparr>)))"

definition parseFormula :: "'n js_math \<Rightarrow> string \<Rightarrow> (formula_error + 'n formula) option" where
  "parseFormula math txt =
     (let source = trim txt in
      if source = [] then Some (Inl (fail FEmpty ''The formula is empty.'' 0))
      else if length txt > FORMULA_MAX_LENGTH
      then Some (Inl (fail FTooLong
             (''The formula is longer than '' @ show_nat FORMULA_MAX_LENGTH @ '' characters.'')
             FORMULA_MAX_LENGTH))
      else case tokenize math source of
          Inl e \<Rightarrow> Some (Inl e)
        | Inr tokens \<Rightarrow> equation math \<lparr>ps_tokens = tokens, ps_depth = 0, ps_names = []\<rparr>)"

section \<open>Evaluation\<close>

definition apply_function :: "'n js_math \<Rightarrow> formula_function \<Rightarrow> 'n list \<Rightarrow> 'n" where
  "apply_function math f args = (case f of
      FSqrt \<Rightarrow> math_sqrt math (hd args)
    | FExp \<Rightarrow> math_exp math (hd args)
    | FLog \<Rightarrow> math_log math (hd args)
    | FAbs \<Rightarrow> math_abs math (hd args)
    | FMin \<Rightarrow> math_min math args
    | FMax \<Rightarrow> math_max math args)"

fun evaluate :: "'n js_math \<Rightarrow> 'n obj \<Rightarrow> 'n formula_node \<Rightarrow> 'n" where
  "evaluate math values (NumberNode v) = v"
| "evaluate math values PiNode = math_pi math"
| "evaluate math values (NameNode n) = coalesce (obj_get values n) (math_nan math)"
| "evaluate math values (NegateNode a) = math_negate math (evaluate math values a)"
| "evaluate math values (CallNode f args) = apply_function math f (map (evaluate math values) args)"
| "evaluate math values (BinaryNode op1 l r) =
     (let left = evaluate math values l; right = evaluate math values r in
      case op1 of
        OpAdd \<Rightarrow> math_add math left right
      | OpSub \<Rightarrow> math_sub math left right
      | OpMul \<Rightarrow> math_mul math left right
      | OpDiv \<Rightarrow> math_div math left right
      | OpPow \<Rightarrow> math_pow math left right)"

definition evaluateFormula :: "'n js_math \<Rightarrow> 'n formula_node \<Rightarrow> 'n obj \<Rightarrow> 'n option" where
  "evaluateFormula math expression values =
     (let v = evaluate math values expression in if math_finite math v then Some v else None)"

section \<open>What a formula reads\<close>

text \<open>The names of an expression in the order they are read.\<close>

fun names_of :: "'n formula_node \<Rightarrow> string list" where
  "names_of (NumberNode _) = []"
| "names_of (NameNode n) = [n]"
| "names_of PiNode = []"
| "names_of (NegateNode a) = names_of a"
| "names_of (BinaryNode _ l r) = names_of l @ names_of r"
| "names_of (CallNode _ args) = concat (map names_of args)"

text \<open>First uses, in order.\<close>

definition add_names :: "string list \<Rightarrow> string list \<Rightarrow> string list" where
  "add_names ns xs = foldl (\<lambda>ns x. if x \<in> set ns then ns else ns @ [x]) ns xs"

text \<open>Every call has the arity of its function, and no name is reserved.\<close>

fun wf_node :: "'n formula_node \<Rightarrow> bool" where
  "wf_node (NumberNode _) = True"
| "wf_node (NameNode n) = (n \<noteq> ''pi'' \<and> \<not> isFunctionName n)"
| "wf_node PiNode = True"
| "wf_node (NegateNode a) = wf_node a"
| "wf_node (BinaryNode _ l r) = (wf_node l \<and> wf_node r)"
| "wf_node (CallNode f args) = (list_all wf_node args \<and>
     (if is_unary f then length args = 1 else 2 \<le> length args))"

section \<open>Lemmas: the parser never runs out of fuel\<close>

lemma add_names_append: "add_names ns (xs @ ys) = add_names (add_names ns xs) ys"
  by (simp add: add_names_def)

lemma add_names_simps [simp]: "add_names ns [] = ns"
  by (simp add: add_names_def)

lemma distinct_add_names: "distinct ns \<Longrightarrow> distinct (add_names ns xs)"
  by (induction xs arbitrary: ns) (auto simp: add_names_def)

lemma set_add_names: "set (add_names ns xs) = set ns \<union> set xs"
  by (induction xs arbitrary: ns) (auto simp: add_names_def)

text \<open>A parser whose tokens end in the end token.\<close>

definition ready :: "'n parser \<Rightarrow> bool" where
  "ready s \<longleftrightarrow> ps_tokens s \<noteq> [] \<and> is_end (last (ps_tokens s))"

abbreviation left_over :: "'n parser \<Rightarrow> nat" where
  "left_over s \<equiv> length (ps_tokens s)"

definition reads :: "'n parser \<Rightarrow> 'n parser \<Rightarrow> string list \<Rightarrow> bool" where
  "reads s s' xs \<longleftrightarrow> ready s' \<and> ps_depth s' = ps_depth s \<and> ps_names s' = add_names (ps_names s) xs"

definition good :: "'n parser \<Rightarrow> ('n, 'n formula_node) parse_result \<Rightarrow> bool" where
  "good s r \<longleftrightarrow> (\<exists>e. r = Some (Inl e)) \<or>
     (\<exists>x s'. r = Some (Inr (x, s')) \<and> wf_node x \<and> reads s s' (names_of x) \<and> left_over s' < left_over s)"

definition good_loop ::
  "'n formula_node \<Rightarrow> 'n parser \<Rightarrow> ('n, 'n formula_node) parse_result \<Rightarrow> bool" where
  "good_loop left s r \<longleftrightarrow> (\<exists>e. r = Some (Inl e)) \<or>
     (\<exists>x s' xs. r = Some (Inr (x, s')) \<and> wf_node x \<and> names_of x = names_of left @ xs \<and>
        reads s s' xs \<and> left_over s' \<le> left_over s)"

definition good_args ::
  "'n formula_node list \<Rightarrow> 'n parser \<Rightarrow> ('n, 'n formula_node list) parse_result \<Rightarrow> bool" where
  "good_args args s r \<longleftrightarrow> (\<exists>e. r = Some (Inl e)) \<or>
     (\<exists>more s'. r = Some (Inr (args @ more, s')) \<and> list_all wf_node more \<and>
        reads s s' (concat (map names_of more)) \<and> left_over s' \<le> left_over s)"

lemma bindP_simps [simp]:
  "bindP None k = None" "bindP (Some (Inl e)) k = Some (Inl e)" "bindP (Some (Inr (x, s))) k = k x s"
  by (simp_all add: bindP_def)

lemma good_error [simp]: "good s (Some (Inl e))" "good_loop l s (Some (Inl e))" "good_args as s (Some (Inl e))"
  by (simp_all add: good_def good_loop_def good_args_def)

lemma goodE:
  assumes "good s r"
  obtains e where "r = Some (Inl e)"
  | x s' where "r = Some (Inr (x, s'))" "wf_node x" "reads s s' (names_of x)" "left_over s' < left_over s"
  using assms unfolding good_def by blast

lemma reads_trans: "reads s s1 xs \<Longrightarrow> reads s1 s2 ys \<Longrightarrow> reads s s2 (xs @ ys)"
  by (simp add: reads_def add_names_append)

lemma reads_ready: "reads s s1 xs \<Longrightarrow> ready s1"
  by (simp add: reads_def)

lemma token_next:
  assumes "\<not> is_end (peek s)" "ready s"
  shows "ready (snd (next_token s))" "Suc (left_over (snd (next_token s))) = left_over s"
    "ps_depth (snd (next_token s)) = ps_depth s" "ps_names (snd (next_token s)) = ps_names s"
proof -
  from assms(2) obtain t ts where t: "ps_tokens s = t # ts" by (cases "ps_tokens s") (auto simp: ready_def)
  with assms have "\<not> is_end t" "ts \<noteq> []" by (auto simp: peek_def ready_def)
  with assms(2) t show "ready (snd (next_token s))" "Suc (left_over (snd (next_token s))) = left_over s"
    "ps_depth (snd (next_token s)) = ps_depth s" "ps_names (snd (next_token s)) = ps_names s"
    by (auto simp: next_token_def peek_def ready_def)
qed

lemma isSymbol_not_end: "isSymbol c s \<Longrightarrow> \<not> is_end (peek s)"
  by (auto simp: isSymbol_def split: token.splits)

lemmas isSymbol_next = token_next [OF isSymbol_not_end]

lemma enter_cases:
  obtains e where "enter i s = Some (Inl e)" | "enter i s = Some (Inr ((), s\<lparr>ps_depth := ps_depth s + 1\<rparr>))"
  by (cases "FORMULA_MAX_DEPTH < Suc (ps_depth s)") (auto simp: enter_def Let_def)

lemma expect_cases:
  assumes "ready s"
  obtains e where "expect math c s = Some (Inl e)"
  | s' where "expect math c s = Some (Inr ((), s'))" "ready s'" "Suc (left_over s') = left_over s"
      "ps_depth s' = ps_depth s" "ps_names s' = ps_names s"
proof (cases "\<exists>i. peek s = TSymbol c i")
  case True
  then have "\<not> is_end (peek s)" by auto
  note n = token_next [OF this assms]
  from True have "expect math c s = Some (Inr ((), snd (next_token s)))"
    by (auto simp: expect_def next_token_def)
  with n that(2) show thesis by blast
next
  case False
  then have "\<exists>e. expect math c s = Some (Inl e)"
    by (auto simp: expect_def next_token_def split: token.splits)
  with that(1) show thesis by blast
qed

lemma reads_deeper: "reads (s\<lparr>ps_depth := ps_depth s + 1\<rparr>) s' xs \<Longrightarrow> reads s (leave s') xs"
  by (simp add: reads_def leave_def ready_def)

lemma ready_upd [simp]: "ready (s\<lparr>ps_depth := d\<rparr>) = ready s" "ready (s\<lparr>ps_names := ns\<rparr>) = ready s"
  by (simp_all add: ready_def)

lemma leave_frame [simp]: "left_over (leave s) = left_over s" "ready (leave s) = ready s"
  by (simp_all add: leave_def ready_def)

definition table_good :: "'n methods \<Rightarrow> nat \<Rightarrow> bool" where
  "table_good this n \<longleftrightarrow>
     (\<forall>s. ready s \<longrightarrow> 10 * left_over s + 6 \<le> n \<longrightarrow> good s (call_sum this s)) \<and>
     (\<forall>l s. ready s \<longrightarrow> wf_node l \<longrightarrow> 10 * left_over s + 1 \<le> n \<longrightarrow> good_loop l s (call_sum_loop this l s)) \<and>
     (\<forall>s. ready s \<longrightarrow> 10 * left_over s + 5 \<le> n \<longrightarrow> good s (call_product this s)) \<and>
     (\<forall>l s. ready s \<longrightarrow> wf_node l \<longrightarrow> 10 * left_over s + 1 \<le> n \<longrightarrow> good_loop l s (call_product_loop this l s)) \<and>
     (\<forall>s. ready s \<longrightarrow> 10 * left_over s + 4 \<le> n \<longrightarrow> good s (call_unary this s)) \<and>
     (\<forall>s. ready s \<longrightarrow> 10 * left_over s + 3 \<le> n \<longrightarrow> good s (call_power this s)) \<and>
     (\<forall>s. ready s \<longrightarrow> 10 * left_over s + 2 \<le> n \<longrightarrow> good s (call_primary this s)) \<and>
     (\<forall>v i s. ready s \<longrightarrow> isSymbol (CHR ''('') s \<longrightarrow> 10 * left_over s + 1 \<le> n \<longrightarrow> good s (call_call this v i s)) \<and>
     (\<forall>as s. ready s \<longrightarrow> 10 * left_over s + 1 \<le> n \<longrightarrow> good_args as s (call_args this as s))"

lemma table_goodD:
  assumes "table_good this n" "ready s"
  shows "10 * left_over s + 6 \<le> n \<Longrightarrow> good s (call_sum this s)"
    "wf_node l \<Longrightarrow> 10 * left_over s + 1 \<le> n \<Longrightarrow> good_loop l s (call_sum_loop this l s)"
    "10 * left_over s + 5 \<le> n \<Longrightarrow> good s (call_product this s)"
    "wf_node l \<Longrightarrow> 10 * left_over s + 1 \<le> n \<Longrightarrow> good_loop l s (call_product_loop this l s)"
    "10 * left_over s + 4 \<le> n \<Longrightarrow> good s (call_unary this s)"
    "10 * left_over s + 3 \<le> n \<Longrightarrow> good s (call_power this s)"
    "10 * left_over s + 2 \<le> n \<Longrightarrow> good s (call_primary this s)"
    "isSymbol (CHR ''('') s \<Longrightarrow> 10 * left_over s + 1 \<le> n \<Longrightarrow> good s (call_call this v i s)"
    "10 * left_over s + 1 \<le> n \<Longrightarrow> good_args as s (call_args this as s)"
  using assms unfolding table_good_def by blast+

text \<open>An operand followed by its loop, and one round of a loop.\<close>

lemma good_then_loop:
  assumes "good s r" "\<And>x s'. wf_node x \<Longrightarrow> ready s' \<Longrightarrow> left_over s' < left_over s \<Longrightarrow> good_loop x s' (k x s')"
  shows "good s (bindP r k)"
  using assms(1)
proof (cases rule: goodE)
  case (2 x s1)
  from assms(2) [OF 2(2) reads_ready [OF 2(3)] 2(4)] consider e where "k x s1 = Some (Inl e)"
    | y s2 xs where "k x s1 = Some (Inr (y, s2))" "wf_node y" "names_of y = names_of x @ xs"
        "reads s1 s2 xs" "left_over s2 \<le> left_over s1"
    unfolding good_loop_def by blast
  then show ?thesis
    using 2 reads_trans [OF 2(3)] by cases (auto simp: good_def)
qed simp

lemma good_loop_round:
  assumes "wf_node l" "ready s" "isSymbol c s" "good (snd (next_token s)) r"
    and "\<And>x s'. wf_node x \<Longrightarrow> ready s' \<Longrightarrow> left_over s' < left_over s \<Longrightarrow> good_loop x s' (k x s')"
  shows "good_loop l s (bindP r (\<lambda>right s2. k (BinaryNode op1 l right) s2))"
  using assms(4)
proof (cases rule: goodE)
  case (2 x s1)
  note nxt = isSymbol_next [OF assms(3,2)]
  have r1: "reads s s1 (names_of x)" "left_over s1 < left_over s"
    using 2 nxt by (auto simp: reads_def)
  have "wf_node (BinaryNode op1 l x)" using assms(1) 2(2) by simp
  from assms(5) [OF this reads_ready [OF r1(1)] r1(2)] consider e where "k (BinaryNode op1 l x) s1 = Some (Inl e)"
    | y s2 xs where "k (BinaryNode op1 l x) s1 = Some (Inr (y, s2))" "wf_node y"
        "names_of y = names_of (BinaryNode op1 l x) @ xs" "reads s1 s2 xs" "left_over s2 \<le> left_over s1"
    unfolding good_loop_def by blast
  then show ?thesis
    using 2 r1 reads_trans [OF r1(1)] by cases (auto simp: good_loop_def)
qed simp

lemma good_loop_done: "ready s \<Longrightarrow> wf_node l \<Longrightarrow> good_loop l s (Some (Inr (l, s)))"
  by (auto simp: good_loop_def reads_def intro!: exI [of _ "[]"])

text \<open>A nested part: entered, parsed and left.\<close>

lemma good_nested:
  assumes "ready s" "\<And>s'. ready s' \<Longrightarrow> left_over s' = left_over s \<Longrightarrow> good s' (p s')"
    and "\<And>x s'. wf_node x \<Longrightarrow> reads s (leave s') (names_of x) \<Longrightarrow> left_over s' < left_over s \<Longrightarrow> good s0 (k x s')"
  shows "good s0 (bindP (enter i s) (\<lambda>_ s2. bindP (p s2) k))"
proof (cases rule: enter_cases [of i s])
  case 2
  have "good (s\<lparr>ps_depth := ps_depth s + 1\<rparr>) (p (s\<lparr>ps_depth := ps_depth s + 1\<rparr>))"
    using assms(1,2) by simp
  then show ?thesis
  proof (cases rule: goodE)
    case (2 x s')
    from assms(3) [OF 2(2) reads_deeper [OF 2(3)]] 2(1,4)
    show ?thesis using \<open>enter i s = _\<close> by simp
  qed (use 2 in simp)
qed simp

lemma good_result:
  "wf_node x \<Longrightarrow> reads s s' (names_of x) \<Longrightarrow> left_over s' < left_over s \<Longrightarrow> good s (Some (Inr (x, s')))"
  by (auto simp: good_def)

text \<open>The state after the token that opens a nested part reads like the one before it.\<close>

lemma reads_from:
  assumes "reads s1 s2 xs" "ps_depth s1 = ps_depth s" "ps_names s1 = add_names (ps_names s) ys"
  shows "reads s s2 (ys @ xs)"
  using assms by (simp add: reads_def add_names_append)

lemma table_good_sum:
  assumes "table_good this n" "ready s" "10 * left_over s + 6 \<le> Suc n"
  shows "good s (parse_sum this s)"
  unfolding parse_sum_def using assms table_goodD [OF assms(1)] by (intro good_then_loop) auto

lemma table_good_product:
  assumes "table_good this n" "ready s" "10 * left_over s + 5 \<le> Suc n"
  shows "good s (parse_product this s)"
  unfolding parse_product_def using assms table_goodD [OF assms(1)] by (intro good_then_loop) auto

lemma table_good_sum_loop:
  assumes "table_good this n" "ready s" "wf_node l" "10 * left_over s + 1 \<le> Suc n"
  shows "good_loop l s (parse_sum_loop this l s)"
proof (cases "isSymbol (CHR ''+'') s \<or> isSymbol (CHR ''-'') s")
  case True
  then obtain c where c: "isSymbol c s" by blast
  note nxt = isSymbol_next [OF c assms(2)]
  show ?thesis
    unfolding parse_sum_loop_def Let_def if_P [OF True]
    by (intro good_loop_round [OF assms(3,2) c])
      (use nxt assms(4) table_goodD [OF assms(1)] in auto)
qed (simp add: parse_sum_loop_def good_loop_done assms)

lemma table_good_product_loop:
  assumes "table_good this n" "ready s" "wf_node l" "10 * left_over s + 1 \<le> Suc n"
  shows "good_loop l s (parse_product_loop this l s)"
proof (cases "isSymbol (CHR ''*'') s \<or> isSymbol (CHR ''/'') s")
  case True
  then obtain c where c: "isSymbol c s" by blast
  note nxt = isSymbol_next [OF c assms(2)]
  show ?thesis
    unfolding parse_product_loop_def Let_def if_P [OF True]
    by (intro good_loop_round [OF assms(3,2) c])
      (use nxt assms(4) table_goodD [OF assms(1)] in auto)
qed (simp add: parse_product_loop_def good_loop_done assms)

lemma good_weaken:
  assumes "good s1 r" "ready s" "left_over s1 < left_over s" "ps_depth s1 = ps_depth s" "ps_names s1 = ps_names s"
  shows "good s r"
  using assms(1) by (cases rule: goodE) (use assms(3-5) in \<open>auto simp: good_def reads_def\<close>)

lemma table_good_unary:
  assumes "table_good this n" "ready s" "10 * left_over s + 4 \<le> Suc n"
  shows "good s (parse_unary this s)"
proof (cases "isSymbol (CHR ''-'') s \<or> isSymbol (CHR ''+'') s")
  case True
  then obtain c where "isSymbol c s" by blast
  note nxt = isSymbol_next [OF this assms(2)]
  show ?thesis unfolding parse_unary_def if_P [OF True]
  proof (rule good_nested)
    fix s' :: "'a parser"
    assume "ready s'" "left_over s' = left_over (snd (next_token s))"
    then show "good s' (call_unary this s')" using nxt assms(3) table_goodD(5) [OF assms(1)] by simp
  next
    fix x :: "'a formula_node" and s' :: "'a parser"
    assume "wf_node x" "reads (snd (next_token s)) (leave s') (names_of x)"
      "left_over s' < left_over (snd (next_token s))"
    then show "good s (Some (Inr (if isSymbol (CHR ''-'') s then NegateNode x else x, leave s')))"
      using nxt by (intro good_result) (auto simp: reads_def)
  qed (use nxt in simp)
next
  case False
  then show ?thesis using assms table_goodD(6) [OF assms(1,2)] by (simp add: parse_unary_def)
qed

lemma table_good_power:
  assumes "table_good this n" "ready s" "10 * left_over s + 3 \<le> Suc n"
  shows "good s (parse_power this s)"
proof -
  have "good s (call_primary this s)" using assms table_goodD(7) [OF assms(1,2)] by simp
  then show ?thesis
  proof (cases rule: goodE)
    case (2 x s1)
    show ?thesis
    proof (cases "isSymbol (CHR ''^'') s1")
      case True
      note nxt = isSymbol_next [OF True reads_ready [OF 2(3)]]
      have "good s (bindP (enter (token_at (peek s1)) (snd (next_token s1))) (\<lambda>_ s3.
          bindP (call_unary this s3) (\<lambda>e s4. Some (Inr (BinaryNode OpPow x e, leave s4)))))"
      proof (rule good_nested)
        fix s' :: "'a parser"
        assume "ready s'" "left_over s' = left_over (snd (next_token s1))"
        then show "good s' (call_unary this s')"
          using nxt assms(3) 2(4) table_goodD(5) [OF assms(1)] by simp
      next
        fix y :: "'a formula_node" and s' :: "'a parser"
        assume y: "wf_node y" "reads (snd (next_token s1)) (leave s') (names_of y)"
          "left_over s' < left_over (snd (next_token s1))"
        have "reads s (leave s') (names_of x @ names_of y)"
          by (rule reads_from [OF y(2)]) (use nxt 2(3) in \<open>auto simp: reads_def\<close>)
        then show "good s (Some (Inr (BinaryNode OpPow x y, leave s')))"
          using nxt 2 y by (intro good_result) auto
      qed (use nxt in simp)
      with True 2(1) show ?thesis by (simp add: parse_power_def)
    qed (use 2 in \<open>auto simp: parse_power_def good_def\<close>)
  qed (simp add: parse_power_def)
qed

lemma good_closed:
  assumes "ready s3" "wf_node x" "reads s (leave s3) (names_of x)" "left_over s3 < left_over s"
  shows "good s (bindP (expect math c s3) (\<lambda>_ s4. Some (Inr (x, leave s4))))"
proof (cases rule: expect_cases [OF assms(1), of math c])
  case (2 s')
  then show ?thesis using assms by (auto simp: good_def reads_def leave_def ready_def)
qed simp

lemma table_good_primary:
  assumes "table_good this n" "ready s" "10 * left_over s + 2 \<le> Suc n"
  shows "good s (parse_primary math this s)"
proof (cases "peek s")
  case (TEnd i)
  then show ?thesis by (simp add: parse_primary_def next_token_def Let_def)
next
  case (TNumber v i)
  then have "\<not> is_end (peek s)" by simp
  from token_next [OF this assms(2)] TNumber show ?thesis
    by (auto simp: parse_primary_def next_token_def Let_def good_def reads_def)
next
  case (TName v i)
  then have "\<not> is_end (peek s)" by simp
  note nxt = token_next [OF this assms(2)]
  have "ready (read_name v (snd (next_token s)))" "left_over (read_name v (snd (next_token s))) < left_over s"
    using nxt by (auto simp: read_name_def)
  moreover have "ps_names (read_name v (snd (next_token s))) = add_names (ps_names s) [v]"
    "ps_depth (read_name v (snd (next_token s))) = ps_depth s"
    using nxt by (auto simp: read_name_def add_names_def)
  moreover have "good s (call_call this v i (snd (next_token s)))" if "isSymbol (CHR ''('') (snd (next_token s))"
    using table_goodD(8) [OF assms(1) nxt(1) that, of v i] nxt assms by (auto intro: good_weaken)
  ultimately show ?thesis
    using nxt TName by (auto simp: parse_primary_def next_token_def Let_def good_def reads_def)
next
  case (TSymbol c i)
  then have "\<not> is_end (peek s)" by simp
  note nxt = token_next [OF this assms(2)]
  have "good (snd (next_token s)) (bindP (enter i (snd (next_token s))) (\<lambda>_ s2.
      bindP (call_sum this s2) (\<lambda>inner s3.
      bindP (expect math (CHR '')'') s3) (\<lambda>_ s4. Some (Inr (inner, leave s4))))))"
    by (intro good_nested good_closed)
      (use nxt assms(3) table_goodD [OF assms(1)] reads_ready in \<open>auto simp: reads_def\<close>)
  then have "good s (bindP (enter i (snd (next_token s))) (\<lambda>_ s2.
      bindP (call_sum this s2) (\<lambda>inner s3.
      bindP (expect math (CHR '')'') s3) (\<lambda>_ s4. Some (Inr (inner, leave s4))))))"
    by (rule good_weaken) (use nxt assms in auto)
  with TSymbol show ?thesis
    by (auto simp: parse_primary_def next_token_def Let_def)
qed

lemma table_good_args:
  assumes "table_good this n" "ready s" "10 * left_over s + 1 \<le> Suc n"
  shows "good_args args s (parse_args this args s)"
proof (cases "isSymbol (CHR '','') s")
  case True
  note nxt = isSymbol_next [OF True assms(2)]
  have "good (snd (next_token s)) (call_sum this (snd (next_token s)))"
    using nxt assms(3) table_goodD(1) [OF assms(1)] by simp
  then show ?thesis
  proof (cases rule: goodE)
    case (2 a s1)
    have r1: "reads s s1 (names_of a)" using 2(3) nxt by (simp add: reads_def)
    have "good_args (args @ [a]) s1 (call_args this (args @ [a]) s1)"
      using table_goodD(9) [OF assms(1) reads_ready [OF r1]] 2(4) nxt assms(3) by simp
    then consider e where "call_args this (args @ [a]) s1 = Some (Inl e)"
      | more s2 where "call_args this (args @ [a]) s1 = Some (Inr ((args @ [a]) @ more, s2))"
          "list_all wf_node more" "reads s1 s2 (concat (map names_of more))" "left_over s2 \<le> left_over s1"
      unfolding good_args_def by blast
    then show ?thesis
    proof cases
      case (2 more s2)
      have "reads s s2 (concat (map names_of (a # more)))" using reads_trans [OF r1 2(3)] by simp
      moreover have "left_over s2 \<le> left_over s" using 2(4) \<open>left_over s1 < _\<close> nxt by simp
      ultimately show ?thesis
        using True 2(1,2) \<open>call_sum this _ = _\<close> \<open>wf_node a\<close>
        by (auto simp: parse_args_def good_args_def intro!: exI [of _ "a # more"])
    qed (use True 2 in \<open>simp add: parse_args_def\<close>)
  qed (use True in \<open>simp add: parse_args_def\<close>)
next
  case False
  then show ?thesis using assms by (auto simp: parse_args_def good_args_def reads_def intro!: exI [of _ "[]"])
qed

text \<open>The arguments of a call, up to the closing parenthesis.\<close>

lemma good_arguments:
  assumes "table_good this n" "ready s" "10 * left_over s + 6 \<le> n"
  shows "good_args [] s (if isSymbol (CHR '')'') s then Some (Inr ([], s))
    else bindP (call_sum this s) (\<lambda>a s2. call_args this [a] s2))"
proof (cases "isSymbol (CHR '')'') s")
  case False
  from table_goodD(1) [OF assms] show ?thesis
  proof (cases rule: goodE)
    case (2 a s1)
    have "good_args [a] s1 (call_args this [a] s1)"
      using table_goodD(9) [OF assms(1) reads_ready [OF 2(3)]] 2(4) assms(3) by simp
    then consider e where "call_args this [a] s1 = Some (Inl e)"
      | more s2 where "call_args this [a] s1 = Some (Inr ([a] @ more, s2))" "list_all wf_node more"
          "reads s1 s2 (concat (map names_of more))" "left_over s2 \<le> left_over s1"
      unfolding good_args_def by blast
    then show ?thesis
    proof cases
      case (2 more s2)
      have "reads s s2 (concat (map names_of (a # more)))"
        using reads_trans [OF \<open>reads s s1 _\<close> 2(3)] by simp
      with 2 False \<open>call_sum this s = _\<close> \<open>wf_node a\<close> \<open>left_over s1 < _\<close> show ?thesis
        by (auto simp: good_args_def)
    qed (use False 2 in simp)
  qed (use False in simp)
qed (use assms in \<open>auto simp: good_args_def reads_def\<close>)

lemma good_args_cases:
  assumes "good_args [] s r"
  obtains e where "r = Some (Inl e)"
  | args s' where "r = Some (Inr (args, s'))" "list_all wf_node args"
      "reads s s' (concat (map names_of args))" "left_over s' \<le> left_over s"
  using assms unfolding good_args_def by auto

lemma good_check_arity:
  assumes "list_all wf_node args" "reads s s' (concat (map names_of args))" "left_over s' < left_over s"
  shows "good s (check_arity f v i args s')"
  using assms by (auto simp: check_arity_def good_def)

lemma table_good_call:
  assumes "table_good this n" "ready s" "isSymbol (CHR ''('') s" "10 * left_over s + 1 \<le> Suc n"
  shows "good s (parse_call math this v i s)"
proof (cases "function_of_name v")
  case (Some f)
  note nxt = isSymbol_next [OF assms(3,2)]
  let ?s1 = "(snd (next_token s))\<lparr>ps_depth := ps_depth (snd (next_token s)) + 1\<rparr>"
  let ?args = "if isSymbol (CHR '')'') ?s1 then Some (Inr ([], ?s1))
    else bindP (call_sum this ?s1) (\<lambda>a s2. call_args this [a] s2)"
  have "good s (bindP ?args (\<lambda>args s3.
      bindP (expect math (CHR '')'') s3) (\<lambda>_ s4. check_arity f v i args (leave s4))))"
  proof (cases rule: good_args_cases [OF good_arguments [OF assms(1), of ?s1]])
    case (4 args s3)
    have r: "ready s3" "reads s (leave s3) (concat (map names_of args))"
      using reads_deeper [OF 4(3)] reads_ready [OF 4(3)] nxt by (auto simp: reads_def)
    show ?thesis
    proof (cases rule: expect_cases [OF r(1), of math "CHR '')''"])
      case (2 s4)
      have "good s (check_arity f v i args (leave s4))"
        using 4 2 r nxt by (intro good_check_arity) (auto simp: reads_def leave_def)
      with 2 4 show ?thesis by simp
    qed (use 4 in simp)
  qed (use nxt assms in auto)
  then show ?thesis
    by (cases rule: enter_cases [of i "snd (next_token s)"])
      (auto simp: parse_call_def Some split: if_splits)
qed (simp add: parse_call_def)

lemma table_good_methods: "table_good (parser_methods math n) n"
proof (induction n)
  case 0
  show ?case by (simp add: table_good_def)
next
  case (Suc n)
  show ?case
    unfolding table_good_def
    using table_good_sum [OF Suc] table_good_sum_loop [OF Suc] table_good_product [OF Suc]
      table_good_product_loop [OF Suc] table_good_unary [OF Suc] table_good_power [OF Suc]
      table_good_primary [OF Suc] table_good_call [OF Suc] table_good_args [OF Suc]
    by (simp add: Let_def)
qed

section \<open>Lemmas: the whole formula\<close>

lemma push_token_Inr: "push_token t r = Inr ts \<longleftrightarrow> (\<exists>us. r = Inr us \<and> ts = t # us)"
  by (cases r) (auto simp: push_token_def)

lemma tokenize_from_ready: "tokenize_from math i cs = Inr ts \<Longrightarrow> ts \<noteq> [] \<and> is_end (last ts)"
proof (induction math i cs arbitrary: ts rule: tokenize_from.induct)
  case (2 math i c cs)
  then show ?case
    by (auto simp: push_token_Inr Let_def split: if_splits option.splits)
qed auto

lemma equation_cases:
  assumes "ready s" "equation math s = r"
  obtains e where "r = Some (Inl e)"
  | t i x s2 where "peek s = TName t i" "t \<noteq> ''pi''" "\<not> isFunctionName t" "wf_node x"
      "reads (snd (next_token s)) s2 (names_of x)"
      "r = Some (Inr \<lparr>fm_target = t, fm_expression = x, fm_names = ps_names s2\<rparr>)"
proof (cases "\<exists>t i. peek s = TName t i \<and> t \<noteq> ''pi'' \<and> \<not> isFunctionName t \<and>
    isSymbol (CHR ''='') (snd (next_token s))")
  case False
  then have "\<exists>e. r = Some (Inl e)"
    using assms(2) by (auto simp: equation_def next_token_def Let_def split: token.splits if_splits)
  with that(1) show thesis by blast
next
  case True
  then obtain t i where t: "peek s = TName t i" "t \<noteq> ''pi''" "\<not> isFunctionName t"
    "isSymbol (CHR ''='') (snd (next_token s))" by blast
  have "\<not> is_end (peek s)" using t(1) by simp
  note n1 = token_next [OF this assms(1)]
  note n2 = isSymbol_next [OF t(4) n1(1)]
  let ?s1 = "snd (next_token (snd (next_token s)))"
  have "good ?s1 (call_sum (parser_methods math (parser_fuel s)) ?s1)"
    using n1 n2 by (intro table_goodD(1) [OF table_good_methods]) (auto simp: parser_fuel_def)
  then show thesis
  proof (cases rule: goodE)
    case (1 e)
    with t assms(2) have "r = Some (Inl e)" by (auto simp: equation_def next_token_def Let_def)
    with that(1) show thesis .
  next
    case (2 x s2)
    have "reads (snd (next_token s)) s2 (names_of x)" using 2(3) n2 by (simp add: reads_def)
    moreover have "r = Some (Inr \<lparr>fm_target = t, fm_expression = x, fm_names = ps_names s2\<rparr>) \<or> (\<exists>e. r = Some (Inl e))"
      using t 2(1) assms(2)
      by (cases "is_end (peek s2)") (auto simp: equation_def next_token_def Let_def)
    ultimately show thesis using that t 2(2) by blast
  qed
qed

lemma evaluate_cong:
  "\<forall>n\<in>set (names_of e). obj_get v n = obj_get w n \<Longrightarrow> evaluate math v e = evaluate math w e"
proof (induction e)
  case (CallNode f args)
  then have "map (evaluate math v) args = map (evaluate math w) args" by auto
  then show ?case unfolding evaluate.simps by (simp only:)
qed (auto simp: Let_def)

section \<open>Properties\<close>

text \<open>
  Parsing a formula always returns: for every text the parser answers, with a formula or
  with one typed error, and never runs out of its fuel.
\<close>
lemma formula_parser_always_returns:
  "\<exists>r. parseFormula math txt = Some r"
proof -
  have "\<exists>r. equation math \<lparr>ps_tokens = ts, ps_depth = 0, ps_names = []\<rparr> = Some r"
    if "tokenize math src = Inr ts" for src ts
  proof -
    have "ready \<lparr>ps_tokens = ts, ps_depth = 0, ps_names = []\<rparr>"
      using tokenize_from_ready [of math 0 src ts] that by (simp add: tokenize_def ready_def)
    from equation_cases [OF this refl, of math] show ?thesis by metis
  qed
  then show ?thesis by (auto simp: parseFormula_def Let_def split: sum.splits)
qed

lemma parseFormula_Inr:
  assumes "parseFormula math txt = Some (Inr f)"
  shows "wf_node (fm_expression f) \<and> fm_names f = add_names [] (names_of (fm_expression f)) \<and>
    fm_target f \<noteq> ''pi'' \<and> \<not> isFunctionName (fm_target f) \<and> length txt \<le> FORMULA_MAX_LENGTH"
proof -
  from assms obtain ts where ts: "tokenize math (trim txt) = Inr ts"
    "equation math \<lparr>ps_tokens = ts, ps_depth = 0, ps_names = []\<rparr> = Some (Inr f)"
    and len: "length txt \<le> FORMULA_MAX_LENGTH"
    by (auto simp: parseFormula_def Let_def split: if_splits sum.splits)
  let ?s = "\<lparr>ps_tokens = ts, ps_depth = 0, ps_names = []\<rparr>"
  have ready: "ready ?s"
    using tokenize_from_ready [of math 0 "trim txt" ts] ts(1) by (simp add: tokenize_def ready_def)
  show ?thesis
  proof (cases rule: equation_cases [OF ready ts(2)])
    case (2 t i x s2)
    have "\<not> is_end (peek ?s)" using 2(1) by simp
    from token_next(4) [OF this ready] 2(5) have "ps_names s2 = add_names [] (names_of x)"
      by (simp add: reads_def)
    with 2 len show ?thesis by simp
  qed simp
qed

text \<open>
  C23. An accepted formula is sound: its left side is not a reserved name, every call in its
  expression has the arity of its function, the listed names are exactly the names the
  expression reads, each once, in first-use order, and its value depends on those names only.
\<close>
theorem accepted_formula_is_sound:
  assumes "parseFormula math txt = Some (Inr f)"
  shows "fm_target f \<noteq> ''pi'' \<and> \<not> isFunctionName (fm_target f) \<and> wf_node (fm_expression f)
    \<and> distinct (fm_names f) \<and> set (fm_names f) = set (names_of (fm_expression f))
    \<and> fm_names f = add_names [] (names_of (fm_expression f))
    \<and> (\<forall>v w. (\<forall>n\<in>set (fm_names f). obj_get v n = obj_get w n) \<longrightarrow>
        evaluateFormula math (fm_expression f) v = evaluateFormula math (fm_expression f) w)"
  using parseFormula_Inr [OF assms] distinct_add_names [of "[]" "names_of (fm_expression f)"]
    set_add_names [of "[]" "names_of (fm_expression f)"]
    evaluate_cong [of "fm_expression f" _ _ math]
  by (simp add: evaluateFormula_def Let_def) metis

text \<open>Numbers for the examples: an integer, or \<open>None\<close> for \<open>NaN\<close>; a zero exponent gives one.\<close>

definition ex_lift :: "(int \<Rightarrow> int \<Rightarrow> int) \<Rightarrow> int option \<Rightarrow> int option \<Rightarrow> int option" where
  "ex_lift f a b = (case (a, b) of (Some x, Some y) \<Rightarrow> Some (f x y) | _ \<Rightarrow> None)"

definition ex_math :: "int option js_math" where
  "ex_math = \<lparr>number_of_literal = \<lambda>s. Some (int (digits_value s)), string_of_number = \<lambda>_. [],
     math_nan = None, math_pi = Some 3, math_negate = map_option uminus, math_add = ex_lift (+),
     math_sub = ex_lift (-), math_mul = ex_lift (*),
     math_div = \<lambda>a b. if b = Some 0 then None else ex_lift (div) a b,
     math_pow = \<lambda>a b. if b = Some 0 then Some 1 else ex_lift (\<lambda>x y. x ^ nat y) a b,
     math_sqrt = id, math_exp = id, math_log = id, math_abs = map_option abs,
     math_min = \<lambda>xs. if None \<in> set xs then None else Some (Min (the ` set xs)),
     math_max = \<lambda>xs. if None \<in> set xs then None else Some (Max (the ` set xs)),
     math_finite = \<lambda>v. v \<noteq> None\<rparr>"

lemma parser_methods_numeral:
  "parser_methods math (numeral k) = (let this = parser_methods math (pred_numeral k) in
     \<lparr>call_sum = parse_sum this, call_sum_loop = parse_sum_loop this, call_product = parse_product this,
      call_product_loop = parse_product_loop this, call_unary = parse_unary this,
      call_power = parse_power this, call_primary = parse_primary math this,
      call_call = parse_call math this, call_args = parse_args this\<rparr>)"
  by (simp add: numeral_eq_Suc)

lemma call_methods [simp]:
  "call_sum (parser_methods math (numeral k)) = parse_sum (parser_methods math (pred_numeral k))"
  "call_sum_loop (parser_methods math (numeral k)) = parse_sum_loop (parser_methods math (pred_numeral k))"
  "call_product (parser_methods math (numeral k)) = parse_product (parser_methods math (pred_numeral k))"
  "call_product_loop (parser_methods math (numeral k)) = parse_product_loop (parser_methods math (pred_numeral k))"
  "call_unary (parser_methods math (numeral k)) = parse_unary (parser_methods math (pred_numeral k))"
  "call_power (parser_methods math (numeral k)) = parse_power (parser_methods math (pred_numeral k))"
  "call_primary (parser_methods math (numeral k)) = parse_primary math (parser_methods math (pred_numeral k))"
  "call_call (parser_methods math (numeral k)) = parse_call math (parser_methods math (pred_numeral k))"
  "call_args (parser_methods math (numeral k)) = parse_args (parser_methods math (pred_numeral k))"
  by (simp_all add: parser_methods_numeral Let_def)

lemmas parser_eval = parse_sum_def parse_sum_loop_def parse_product_def parse_product_loop_def
  parse_unary_def parse_power_def parse_primary_def peek_def next_token_def isSymbol_def enter_def
  leave_def read_name_def isFunctionName_def function_of_name_def FORMULA_MAX_DEPTH_def

lemma ex_tokens: "tokenize ex_math ''y=x^0'' =
  Inr [TName ''y'' 0, TSymbol (CHR ''='') 1, TName ''x'' 2, TSymbol (CHR ''^'') 3, TNumber (Some 0) 4, TEnd 5]"
  by (simp add: tokenize_def is_blank_def is_digit_def name_start_def name_part_def is_letter_def
      push_token_def match_number_def match_mantissa_def match_exponent_def Let_def ex_math_def
      digits_value_def digit_value_def)

lemma ex_equation: "equation ex_math \<lparr>ps_tokens = [TName ''y'' 0, TSymbol (CHR ''='') 1, TName ''x'' 2,
    TSymbol (CHR ''^'') 3, TNumber (Some 0) 4, TEnd 5], ps_depth = 0, ps_names = []\<rparr> =
  Some (Inr \<lparr>fm_target = ''y'',
    fm_expression = BinaryNode OpPow (NameNode ''x'') (NumberNode (Some 0)), fm_names = [''x'']\<rparr>)"
  by (simp add: equation_def parser_fuel_def Let_def parser_eval)

lemma ex_trim: "trim ''y=x^0'' = ''y=x^0''"
  by (simp add: trim_def js_whitespace_def)

theorem accepted_formula_is_sound_witness:
  "\<exists>f. parseFormula ex_math ''y=x^0'' = Some (Inr f) \<and> fm_names f = [''x''] \<and> distinct (fm_names f)"
proof -
  have p: "parseFormula ex_math ''y=x^0'' = Some (Inr \<lparr>fm_target = ''y'',
      fm_expression = BinaryNode OpPow (NameNode ''x'') (NumberNode (Some 0)), fm_names = [''x'']\<rparr>)"
    by (simp add: parseFormula_def ex_trim ex_tokens ex_equation [unfolded One_nat_def]
        FORMULA_MAX_LENGTH_def)
  from accepted_formula_is_sound [OF p] p show ?thesis by simp
qed

text \<open>
  The documented behaviour of \<open>NaN\<close>: it is not finite, every operation but the power returns it
  when it is an operand, and a zero exponent gives one whatever the base.
\<close>

definition nan_laws :: "'n js_math \<Rightarrow> 'n \<Rightarrow> 'n \<Rightarrow> bool" where
  "nan_laws math zero one \<longleftrightarrow>
     \<not> math_finite math (math_nan math) \<and> math_finite math one \<and>
     math_negate math (math_nan math) = math_nan math \<and>
     (\<forall>x. math_add math x (math_nan math) = math_nan math \<and> math_add math (math_nan math) x = math_nan math) \<and>
     (\<forall>x. math_sub math x (math_nan math) = math_nan math \<and> math_sub math (math_nan math) x = math_nan math) \<and>
     (\<forall>x. math_mul math x (math_nan math) = math_nan math \<and> math_mul math (math_nan math) x = math_nan math) \<and>
     (\<forall>x. math_div math x (math_nan math) = math_nan math \<and> math_div math (math_nan math) x = math_nan math) \<and>
     math_sqrt math (math_nan math) = math_nan math \<and> math_exp math (math_nan math) = math_nan math \<and>
     math_log math (math_nan math) = math_nan math \<and> math_abs math (math_nan math) = math_nan math \<and>
     (\<forall>xs. math_nan math \<in> set xs \<longrightarrow>
        math_min math xs = math_nan math \<and> math_max math xs = math_nan math) \<and>
     (\<forall>x. math_pow math x zero = one)"

fun has_power :: "'n formula_node \<Rightarrow> bool" where
  "has_power (NegateNode a) = has_power a"
| "has_power (BinaryNode op1 l r) = (op1 = OpPow \<or> has_power l \<or> has_power r)"
| "has_power (CallNode _ args) = list_ex has_power args"
| "has_power _ = False"

lemma missing_name_nan:
  assumes "nan_laws math zero one"
  shows "wf_node e \<Longrightarrow> \<not> has_power e \<Longrightarrow> n \<in> set (names_of e) \<Longrightarrow> obj_get values n = None \<Longrightarrow>
    evaluate math values e = math_nan math"
proof (induction e)
  case (BinaryNode op1 l r)
  then show ?case using assms by (auto simp: nan_laws_def Let_def split: operator.splits)
next
  case (CallNode f args)
  from CallNode.prems(3) obtain a where a: "a \<in> set args" "n \<in> set (names_of a)" by auto
  have nan: "evaluate math values a = math_nan math"
    using CallNode.IH [OF a(1)] CallNode.prems a by (auto simp: list_all_iff list_ex_iff)
  then have "math_nan math \<in> set (map (evaluate math values) args)" using a(1) by force
  moreover have "args = [a]" if "is_unary f"
    using CallNode.prems(1) a(1) that by (cases args) auto
  ultimately show ?case
    using assms nan by (cases f) (auto simp: nan_laws_def apply_function_def is_unary_def)
qed (use assms in \<open>auto simp: nan_laws_def\<close>)

text \<open>
  A missing value makes a formula undefined, except under a power: an expression without a
  power that reads a name without a value has no value; but \<open>x^0\<close> has the value one whether or
  not \<open>x\<close> has a value.
\<close>
lemma missing_name_is_undefined_except_under_power:
  assumes "nan_laws math zero one"
  shows "(\<forall>e n. wf_node e \<and> \<not> has_power e \<and> n \<in> set (names_of e) \<and> obj_get values n = None \<longrightarrow>
      evaluateFormula math e values = None)
    \<and> evaluateFormula math (BinaryNode OpPow (NameNode x) (NumberNode zero)) values = Some one"
proof (intro conjI allI impI)
  fix e :: "'a formula_node" and n
  assume "wf_node e \<and> \<not> has_power e \<and> n \<in> set (names_of e) \<and> obj_get values n = None"
  then have "evaluate math values e = math_nan math" using missing_name_nan [OF assms] by blast
  then show "evaluateFormula math e values = None"
    using assms by (simp add: evaluateFormula_def nan_laws_def)
qed (use assms in \<open>simp add: evaluateFormula_def nan_laws_def\<close>)

text \<open>
  The offset of an error counts from the first character that is not white space, not from
  the start of the text: leading blanks do not move it.
\<close>
lemma error_offset_ignores_leading_blanks:
  assumes "list_all js_whitespace blanks" "length (blanks @ txt) \<le> FORMULA_MAX_LENGTH"
  shows "parseFormula math (blanks @ txt) = parseFormula math txt"
proof -
  have "trim (blanks @ txt) = trim txt"
    using assms(1) by (simp add: trim_def dropWhile_append1 list_all_iff dropWhile_append2)
  with assms(2) show ?thesis by (simp add: parseFormula_def Let_def)
qed

end
