(* ===== verification/Domain.thy ===== *)
theory Domain
  imports Complex_Main Js_Object
begin

text \<open>
  The data of \<open>packages/core/src/v3\<close>: JSON values, the wire enumerations, the entities
  of \<open>domain.ts\<close> and the domain files it re-exports, and the normalized store
  \<open>EntityState\<close>. Fields keep their source names behind a prefix of their type. An
  enumeration ends in its \<open>unknown\<close> member where the source says \<open>WireValue\<close>.

  Where a spread merges two values of one type, whether a key is present matters even
  when its value is \<open>undefined\<close>: the optional fields of a tool invocation and of a
  subagent are therefore of type \<open>'a slot\<close>. Everywhere else an optional field is an
  \<open>option\<close>. Numbers that are counts are integers, other numbers are rationals.
\<close>

section \<open>JSON values and optional properties\<close>

datatype js_value =
    JUndef
  | JNull
  | JBool bool
  | JNum rat
  | JStr string
  | JArr "js_value list"
  | JObj "(string \<times> js_value) list"

text \<open>Reading \<open>v.k\<close>: a type error on \<open>null\<close> and \<open>undefined\<close>.\<close>

definition js_prop :: "js_value \<Rightarrow> string \<Rightarrow> js_value result" where
  "js_prop v k = (case v of
       JUndef \<Rightarrow> Inl (TypeError k)
     | JNull \<Rightarrow> Inl (TypeError k)
     | JObj o1 \<Rightarrow> Inr (case obj_get o1 k of None \<Rightarrow> JUndef | Some x \<Rightarrow> x)
     | _ \<Rightarrow> Inr JUndef)"

datatype 'a slot = Absent | Undef | Val 'a

definition slot_val :: "'a slot \<Rightarrow> 'a option" where
  "slot_val p = (case p of Val x \<Rightarrow> Some x | _ \<Rightarrow> None)"

text \<open>One key of \<open>{ ...previous, ...candidate }\<close>.\<close>

definition spread_slot :: "'a slot \<Rightarrow> 'a slot \<Rightarrow> 'a slot" where
  "spread_slot previous candidate = (case candidate of Absent \<Rightarrow> previous | _ \<Rightarrow> candidate)"

text \<open>A key written with the value of an expression, which may be \<open>undefined\<close>.\<close>

definition set_slot :: "'a option \<Rightarrow> 'a slot" where
  "set_slot v = (case v of None \<Rightarrow> Undef | Some x \<Rightarrow> Val x)"

section \<open>Wire enumerations\<close>

datatype stream_state =
  StreamConnecting | StreamLive | StreamReconnecting | StreamGapped | StreamOffline

datatype gap_code = FrameDecodeFailed | EventNameMismatch | EntityNotResident

datatype tool_state =
  ToolPending | ToolRunning | ToolSucceeded | ToolFailed | ToolDenied | ToolCancelled | ToolUnknown

datatype a2ui_state =
    A2Creating | A2Ready | A2Updating | A2PendingAction | A2Failed | A2Cancelled
  | A2Disconnected | A2Deleted | A2Unknown

datatype run_state =
    RunQueued | RunRunning | RunStopping | RunStopped | RunCancellationRequested
  | RunTaskStateUncertain | RunPauseRequested | RunPaused | RunYielded | RunRecoveryRequired
  | RunRecovering | RunWaitingPermission | RunWaitingUser | RunCompleted | RunFailed
  | RunCancelled | RunInterrupted | RunUnknown

datatype session_kind = KindConversation | KindBranch | KindAgent | KindLookup | KindUnknown
datatype session_mode = ModePlan | ModeEdit | ModeArchitect | ModeUnknown
datatype edit_mode = EditDiff | EditWhole | EditPatch | EditUnknown
datatype routing_mode = RouteAuto | RouteChat | RouteExperts | RouteReasoningOnly | RouteUnknown
datatype approval_mode =
  ApproveAsk | ApproveAutoEdits | ApproveBypass | ApproveAiReview | ApproveSpotterAi | ApproveUnknown

datatype risk = RiskLow | RiskMedium | RiskHigh | RiskUnknown
datatype approval_status =
  ApprovalPending | ApprovalApproved | ApprovalDenied | ApprovalCancelled | ApprovalUnknown
datatype approval_action =
  ActionAllow | ActionDeny | ActionAllowSession | ActionAllowWorkspace | ActionUnknown

datatype question_status =
  QuestionPending | QuestionAnswered | QuestionCancelled | QuestionExpired | QuestionUnknown
datatype question_kind =
  QuestionFreeform | QuestionChoice | QuestionConfirmation | QuestionMultiChoice | QuestionKindUnknown

datatype message_role = RoleUser | RoleAssistant | RoleSystem | RoleUnknown

section \<open>Diagnostics and connections\<close>

record transport_gap =
  gap_cursor :: string
  gap_event_name :: string
  gap_entity_id :: "string option"
  gap_code :: gap_code
  gap_reason :: string
  gap_received_at :: string

record degradation =
  dgr_code :: string
  dgr_reason :: string
  dgr_capability :: "string option"
  dgr_recoverable :: bool

datatype provenance_source =
  FromServer | FromProvider | FromConnection | FromUnavailable | FromUnknown

record provenance =
  prv_source :: provenance_source
  prv_observed_at :: string
  prv_stale :: bool
  prv_reason :: "string option"

datatype connection_kind = ConnLocal | ConnRemote | ConnSsh
datatype connection_health = HealthConnecting | HealthHealthy | HealthDegraded | HealthOffline

record connection =
  con_id :: string
  con_name :: string
  con_endpoint :: string
  con_kind :: connection_kind
  con_health :: connection_health
  con_degradations :: "degradation list"

section \<open>Workspaces, sessions and runs\<close>

record source_folder =
  fold_path :: string
  fold_name :: string
  fold_primary :: bool

record workspace =
  ws_id :: string
  ws_name :: string
  ws_display_name :: string
  ws_path :: string
  ws_connection_id :: string
  ws_pinned :: bool
  ws_source_folders :: "source_folder list option"

text \<open>\<open>cost_usd\<close> distinguishes absent, \<open>null\<close> and a number.\<close>

record session =
  ses_id :: string
  ses_workspace_id :: string
  ses_title :: string
  ses_state :: run_state
  ses_created_at :: string
  ses_updated_at :: string
  ses_last_interaction_at :: "string option"
  ses_message_count :: "int option"
  ses_tokens_input :: "int option"
  ses_tokens_output :: "int option"
  ses_cost_usd :: "rat option option"
  ses_provider_id :: "string option"
  ses_model_id :: "string option"
  ses_effort :: "string option"
  ses_branch :: "string option"
  ses_parent_session_id :: "string option"
  ses_session_kind :: "session_kind option"
  ses_agent_id :: "string option"
  ses_metadata :: "js_value obj option"
  ses_mode :: session_mode
  ses_edit_mode :: edit_mode
  ses_routing_mode :: routing_mode
  ses_approval_mode :: approval_mode
  ses_pinned :: bool
  ses_archived :: bool

record run =
  run_id :: string
  run_session_id :: string
  run_state :: run_state
  run_started_at :: "string option"
  run_completed_at :: "string option"
  run_elapsed_ms :: "rat option"
  run_summary :: "string option"

section \<open>Tool invocations\<close>

record content_ref =
  cref_session_id :: string
  cref_call_id :: string
  cref_block_id :: string
  cref_cursor :: int
  cref_total_chars :: int
  cref_result_sha256 :: "string option"

record presentation_block =
  pb_id :: string
  pb_type :: string
  pb_media_type :: "string option"
  pb_text :: "string option"
  pb_label :: "string option"
  pb_language :: "string option"
  pb_workspace_id :: "string option"
  pb_path :: "string option"
  pb_sha256 :: "string option"
  pb_pages :: "int list option"
  pb_target :: "string option"
  pb_state :: "string option"
  pb_previous_state :: "string option"
  pb_change :: "string option"
  pb_uri :: "string option"
  pb_command :: "string option"
  pb_exit_code :: "rat option option"
  pb_timed_out :: "bool option"
  pb_stream_offset :: "int option"
  pb_content_ref :: "content_ref option"
  pb_status :: "string option"
  pb_detail :: "string option"
  pb_duration_ms :: "rat option"
  pb_items :: "string list option"
  pb_action_label :: "string option"
  pb_result_kind :: "string option"
  pb_severity :: "string option"

record tool_presentation =
  tp_action :: "string option"
  tp_subject :: "string option"
  tp_status :: "string option"
  tp_summary :: string
  tp_blocks :: "presentation_block list"
  tp_diagnostic :: "string option"

record tool_submission =
  sub_state :: tool_state
  sub_output :: "js_value option"
  sub_error :: "string option"
  sub_completed_at :: "string option"
  sub_duration_ms :: "rat option option"

record execution_task =
  et_handle :: string
  et_status :: string
  et_activity :: string
  et_updated_at :: string
  et_accepted_at :: string
  et_terminal_at :: "string option"
  et_cancellation_requested_at :: "string option"
  et_result_sha256 :: "string option"

record tool_invocation =
  tool_id :: string
  tool_session_id :: string
  tool_run_id :: "string slot"
  tool_name :: string
  tool_title :: "string slot"
  tool_state :: tool_state
  tool_input :: "js_value slot"
  tool_output :: "js_value slot"
  tool_presentation :: "tool_presentation slot"
  tool_output_stream :: "string slot"
  tool_progress_message :: "string slot"
  tool_progress :: "rat slot"
  tool_progress_total :: "rat slot"
  tool_started_at :: "string slot"
  tool_completed_at :: "string slot"
  tool_duration_ms :: "rat slot"
  tool_error :: "string slot"
  tool_submission :: "tool_submission slot"
  tool_execution_task :: "execution_task slot"
  tool_execution_problem :: "string slot"

section \<open>Approvals, questions, tasks and subagents\<close>

record approval_request =
  apr_id :: string
  apr_session_id :: string
  apr_run_id :: "string option"
  apr_tool_name :: string
  apr_input :: "js_value option"
  apr_summary :: string
  apr_reason :: "string option"
  apr_risk :: "risk option"
  apr_status :: approval_status
  apr_action :: "approval_action option"
  apr_created_at :: string
  apr_resolved_at :: "string option"

record question_option =
  qo_label :: string
  qo_value :: string
  qo_description :: "string option"

record user_question =
  qst_task_handle :: "string option"
  qst_response_async :: "bool option"
  qst_id :: string
  qst_session_id :: string
  qst_prompt :: string
  qst_status :: question_status
  qst_kind :: question_kind
  qst_options :: "question_option list option"
  qst_allow_freeform :: "bool option"
  qst_answer :: "string option"
  qst_selected_options :: "string list option"
  qst_created_at :: string
  qst_updated_at :: string
  qst_expires_at :: "string option"
  qst_source :: "string option"
  qst_metadata :: "js_value obj option"

record task =
  task_id :: string
  task_session_id :: string
  task_title :: string
  task_state :: run_state
  task_detail :: "string option"

record model_choice =
  mc_asked :: string
  mc_ran_provider_id :: "string option"
  mc_ran_model_id :: "string option"
  mc_source :: string
  mc_reasons :: "string list"
  mc_effort :: string

datatype skill_mode = SkillSync | SkillAsync | SkillModeUnknown

record subagent_run =
  sa_id :: string
  sa_session_id :: string
  sa_parent_run_id :: "string slot"
  sa_child_session_id :: "string slot"
  sa_agent_id :: "string slot"
  sa_title :: string
  sa_state :: run_state
  sa_summary :: "string slot"
  sa_task :: "string slot"
  sa_result :: "string slot"
  sa_duration_ms :: "rat slot"
  sa_model_choice :: "model_choice slot"
  sa_origin :: "(string \<times> skill_mode option) slot"

record artifact =
  art_id :: string
  art_session_id :: string
  art_workspace_id :: "string option"
  art_name :: string
  art_media_type :: string
  art_uri :: string
  art_fetch_path :: "string option"
  art_custody :: "string option"
  art_sha256 :: "string option"
  art_size :: "rat option"
  art_version :: "int option"
  art_created_at :: "string option"
  art_used :: "bool option"
  art_producer :: "js_value obj option"

end
