(* ===== verification/Entity_State.thy ===== *)
theory Entity_State
  imports Domain
begin

text \<open>
  The transcript side of the data model (\<open>message-domain.ts\<close>, \<open>variant-domain.ts\<close>,
  \<open>compaction-domain.ts\<close>, \<open>usage-domain.ts\<close>, \<open>infrastructure-domain.ts\<close>,
  \<open>a2ui/lifecycle.ts\<close>), the transport frame and its envelope, and the normalized
  store \<open>EntityState\<close> with its initial value and its well-formedness invariant: every
  row of every entity map is stored under its own id, and both histories are bounded.
\<close>

section \<open>Message blocks\<close>

record action_card_action =
  aca_id :: string
  aca_label :: string
  aca_enabled :: bool
  aca_kind :: string
  aca_handle_id :: "string option"
  aca_reason :: "string option"
  aca_inspection :: "js_value option"

datatype block_body =
    TextBlock string "bool option"
  | ReasoningBlock string "bool option" "string option" "string option" "bool option"
      "string option" "string option" "rat option"
  | ToolBlock string "string option"
  | PlanBlock string "string option"
  | InjectionBlock string string "string option" "string option" "string option"
      "string option" "int option"
  | NoticeBlock string string "string option" "string option" "string option"
      "js_value obj option"
  | TaskBlock string
  | SubagentBlock string "string option" "string option"
  | AgentMessageBlock string string string "string option" "string option"
  | ArtifactBlock string
  | ResourceBlock string string string string string "js_value option"
  | ContextReferenceBlock string string string string string "js_value obj"
  | ActionCardBlock string "string option" "string option" "string option" "string option"
      "action_card_action list"
  | A2uiBlock string
  | McpAppBlock string string string string string string "int option"
  | CitationBlock string string
  | DiffBlock string string
  | ErrorBlock string string bool
  | RoutingBlock string "string option"
  | UnknownBlock string "js_value obj"

record message_block =
  blk_id :: string
  blk_agent_id :: "string option"
  blk_sequence :: "int option"
  blk_stream_source :: "string option"
  blk_channel :: "string option"
  blk_body :: block_body

fun is_text_or_reasoning :: "block_body \<Rightarrow> bool" where
  "is_text_or_reasoning (TextBlock _ _) = True"
| "is_text_or_reasoning (ReasoningBlock _ _ _ _ _ _ _ _) = True"
| "is_text_or_reasoning _ = False"

fun is_reasoning :: "block_body \<Rightarrow> bool" where
  "is_reasoning (ReasoningBlock _ _ _ _ _ _ _ _) = True"
| "is_reasoning _ = False"

fun block_tool_id :: "block_body \<Rightarrow> string option" where
  "block_tool_id (ToolBlock t _) = Some t"
| "block_tool_id _ = None"

fun block_text :: "block_body \<Rightarrow> string option" where
  "block_text (TextBlock t _) = Some t"
| "block_text (ReasoningBlock t _ _ _ _ _ _ _) = Some t"
| "block_text _ = None"

fun block_streaming :: "block_body \<Rightarrow> bool option" where
  "block_streaming (TextBlock _ s) = s"
| "block_streaming (ReasoningBlock _ s _ _ _ _ _ _) = s"
| "block_streaming _ = None"

text \<open>\<open>{ ...block, text, streaming }\<close> on a text or reasoning block, any other unchanged.\<close>

fun with_text :: "(string \<Rightarrow> string) \<Rightarrow> bool \<Rightarrow> block_body \<Rightarrow> block_body" where
  "with_text f s (TextBlock t _) = TextBlock (f t) (Some s)"
| "with_text f s (ReasoningBlock t _ a b c d e g) = ReasoningBlock (f t) (Some s) a b c d e g"
| "with_text f s b = b"

section \<open>Messages and usage\<close>

record message_usage =
  mu_input :: int
  mu_output :: int
  mu_cache_read :: int
  mu_cache_write :: int

record message =
  msg_id :: string
  msg_session_id :: string
  msg_turn_id :: "string option"
  msg_run_id :: "string option"
  msg_role :: message_role
  msg_created_at :: string
  msg_completed_at :: "string option"
  msg_blocks :: "message_block list"
  msg_model :: "(string \<times> string) option"
  msg_metadata :: "js_value obj option"
  msg_usage :: "message_usage option"
  msg_cost_usd :: "rat option"
  msg_stop_reason :: "string option"
  msg_error_info :: "js_value obj option"

record usage_snapshot =
  us_session_id :: string
  us_input_tokens :: int
  us_output_tokens :: int
  us_cost_usd :: "rat option"

record context_snapshot =
  cs_session_id :: string
  cs_fields :: "js_value obj"

record provider_state =
  ps_provider_id :: string
  ps_models :: "(string \<times> string) list"
  ps_provenance :: provenance

section \<open>A2UI surfaces and action lifecycles\<close>

record a2ui_surface =
  sf_id :: string
  sf_session_id :: string
  sf_run_id :: "string option"
  sf_message_id :: "string option"
  sf_part_id :: "string option"
  sf_catalog_id :: string
  sf_protocol_version :: string
  sf_revision :: int
  sf_state :: a2ui_state
  sf_messages :: "js_value list"
  sf_message_revisions :: "int list option"
  sf_error :: "string option"

datatype lifecycle_status =
  LcReceived | LcDelivered | LcConsumed | LcFailed | LcDuplicate | LcUnknown

record action_lifecycle =
  lc_surface_id :: string
  lc_action_name :: string
  lc_source_component_id :: "string option"
  lc_action_id :: "string option"
  lc_status :: lifecycle_status
  lc_reason :: "string option"
  lc_occurred_at :: string

section \<open>Infrastructure dependencies\<close>

datatype dep_phase = DepProvision | DepLaunch | DepConnect | DepRetry | DepPhaseUnknown
datatype dep_state = DepRunning | DepRetrying | DepReady | DepFailed | DepStateUnknown

record infrastructure_dependency =
  dep_id :: string
  dep_session_id :: string
  dep_category :: string
  dep_namespace :: string
  dep_title :: string
  dep_phase :: dep_phase
  dep_state :: dep_state
  dep_attempt :: int
  dep_max_attempts :: int
  dep_reason :: "string option"
  dep_retry_in_ms :: "int option"
  dep_tool_count :: "int option"
  dep_observed_active :: bool

section \<open>Compactions\<close>

datatype compaction_trigger = TriggerAuto | TriggerManual
datatype compaction_status = CompRunning | CompCompleting | CompFailed

record compaction_error =
  ce_code :: string
  ce_message :: string

record pending_compaction =
  pc_compaction_id :: string
  pc_session_id :: string
  pc_scope :: string
  pc_trigger :: compaction_trigger
  pc_turn_id :: string
  pc_anchor_message_id :: "string option"
  pc_status :: compaction_status
  pc_message_id :: "string option"
  pc_part_id :: "string option"
  pc_error :: "compaction_error option"
  pc_started_at :: string

section \<open>Variant runs\<close>

datatype variant_origin = OriginDraftAlternatives | OriginModuleVariant | OriginUnknown
datatype variant_strategy = StrategyBestOfN | StrategyRefine | StrategyUnknown
datatype variant_judge = JudgeLm | JudgeUser | JudgeUnknown
datatype try_state = TryRunning | TryCompleted | TryFailed | TryUnknown
datatype variant_run_status =
    VrRunning | VrAwaitingPick | VrAnswered | VrSelected | VrFailed | VrSuperseded | VrCancelled
  | VrExpired | VrUnknown

text \<open>How a user-judged run ends without a pick, a part of the run statuses.\<close>

datatype closed_status = ClosedSuperseded | ClosedCancelled | ClosedExpired | ClosedUnknown

record try_tokens =
  tt_input :: int
  tt_output :: int
  tt_total :: int

record try_activity =
  ta_event_type :: string
  ta_summary :: string
  ta_status :: string
  ta_occurred_at :: "string option"

datatype step_part =
    StepText string
  | StepThinking string
  | StepToolCall string string "js_value obj"
  | StepToolResult string string bool "step_part list"
  | StepImage string
  | StepDocument string
  | StepUnknown string

record try_step =
  ts_role :: string
  ts_parts :: "step_part list"

record variant_try =
  vt_id :: string
  vt_variants_id :: string
  vt_try_index :: nat
  vt_scope :: string
  vt_state :: try_state
  vt_text :: string
  vt_thinking :: string
  vt_run_id :: "string option"
  vt_anchor_message_id :: "string option"
  vt_score :: "rat option"
  vt_tokens :: "try_tokens option"
  vt_error :: "string option"
  vt_forked_from :: "nat option"
  vt_advice :: "string option"
  vt_activity :: "try_activity list"
  vt_steps :: "try_step list"

record variant_selection =
  vs_selected_index :: nat
  vs_selected_scope :: string
  vs_text :: string
  vs_scores :: "(nat \<times> rat) list"
  vs_winning_score :: "rat option"
  vs_pick :: "nat option"
  vs_comment :: "string option"

record variant_closure =
  vc_status :: closed_status
  vc_reason :: "string option"
  vc_closed_at :: "string option"
  vc_question_id :: "string option"
  vc_superseded_by_message_id :: "string option"

record variant_run =
  vr_variants_id :: string
  vr_session_id :: string
  vr_run_id :: "string option"
  vr_anchor_message_id :: "string option"
  vr_agent_id :: string
  vr_origin :: variant_origin
  vr_strategy :: variant_strategy
  vr_judge :: variant_judge
  vr_n :: nat
  vr_status :: "variant_run_status option"
  vr_rubric :: "string option"
  vr_tries :: "variant_try list"
  vr_selection :: "variant_selection option"
  vr_closure :: "variant_closure option"

section \<open>Frames and envelopes\<close>

record transport_frame =
  fr_cursor :: string
  fr_eventName :: string
  fr_data :: js_value
  fr_receivedAt :: string

record scope =
  sc_connection_id :: string
  sc_workspace_id :: "string option"
  sc_session_id :: "string option"
  sc_run_id :: "string option"

record event_envelope =
  ev_protocol_version :: string
  ev_type :: string
  ev_occurred_at :: string
  ev_scope :: scope
  ev_entity_id :: "string option"
  ev_entity_revision :: "int option"
  ev_payload :: js_value

section \<open>The normalized store\<close>

record entity_state =
  es_connection :: "connection option"
  es_capabilities :: "js_value option"
  es_stream :: stream_state
  es_streamGaps :: "nat option"
  es_cursor :: "string option"
  es_workspaces :: "workspace obj"
  es_sessions :: "session obj"
  es_runs :: "run obj"
  es_messages :: "message obj"
  es_tools :: "tool_invocation obj"
  es_approvals :: "approval_request obj"
  es_questions :: "user_question obj"
  es_tasks :: "task obj"
  es_subagents :: "subagent_run obj"
  es_artifacts :: "artifact obj"
  es_providers :: "provider_state obj"
  es_usage :: "usage_snapshot obj"
  es_context :: "context_snapshot obj"
  es_surfaces :: "a2ui_surface obj"
  es_lifecycles :: "action_lifecycle obj"
  es_infrastructure :: "infrastructure_dependency obj"
  es_compactions :: "pending_compaction obj"
  es_variant_runs :: "variant_run obj"
  es_active_turns :: "string obj"
  es_responded_turns :: "string obj"
  es_revisions :: "int obj"
  es_processed_cursors :: "string list"
  es_gaps :: "transport_gap list"

definition MAX_CURSOR_HISTORY :: nat where
  "MAX_CURSOR_HISTORY = 2048"

definition MAX_GAP_HISTORY :: nat where
  "MAX_GAP_HISTORY = 100"

definition createEntityState :: entity_state where
  "createEntityState = \<lparr>
     es_connection = None, es_capabilities = None, es_stream = StreamOffline,
     es_streamGaps = None, es_cursor = None, es_workspaces = [], es_sessions = [],
     es_runs = [], es_messages = [], es_tools = [], es_approvals = [], es_questions = [],
     es_tasks = [], es_subagents = [], es_artifacts = [], es_providers = [], es_usage = [],
     es_context = [], es_surfaces = [], es_lifecycles = [], es_infrastructure = [],
     es_compactions = [], es_variant_runs = [], es_active_turns = [], es_responded_turns = [],
     es_revisions = [], es_processed_cursors = [], es_gaps = []\<rparr>"

end
