(* ===== verification/A2ui_Surface.thy ===== *)
theory A2ui_Surface
  imports Entity_State
begin

text \<open>
  \<open>web/src/lib/a2ui/processor-store.ts\<close> (the surface half) and the processor table of
  \<open>web/src/lib/a2ui/registry-store.ts\<close>: how one mounted interactive surface feeds the
  server's message slots to its message processor, revision by revision.

  The processor comes from the package \<open>@a2ui/web_core\<close>: it is the argument \<open>web_core\<close>
  of the definitions, a record of the four things the hook does with it. Processing one
  message returns the processor after the call and what the call threw, if it threw.

  The refs and the state of the hook are the fields of \<open>surface_hook\<close>. Processors are
  shared with the session's table by reference: each one made gets a number, and the
  table holds numbers. The calls of \<open>onValidationFailed\<close> are kept in order.
\<close>

section \<open>Data\<close>

datatype thrown = ThrownError string | ThrownOther

record ('cat, 'p, 'm) web_core =
  wc_catalog_id :: "'cat \<Rightarrow> string"
  wc_new :: "'cat list \<Rightarrow> string \<Rightarrow> 'p"
  wc_process :: "'p \<Rightarrow> js_value \<Rightarrow> 'p \<times> thrown option"
  wc_surface :: "'p \<Rightarrow> string \<Rightarrow> 'm option"
  wc_has_component :: "'m \<Rightarrow> string \<Rightarrow> bool"

datatype processor_failure = ProcessorError (failure_message: string)

datatype 'm processor_result = EmptyResult | FailureResult processor_failure | ModelResult "'m option"

record validation_notice =
  vn_code :: string
  vn_path :: "string option"
  vn_message :: string

text \<open>
  \<open>errorUnsubscribe\<close> is either the initial function that does nothing or the one that
  ends the subscription of this entry.
\<close>

record 'p processor_entry =
  en_processor :: 'p
  en_number :: nat
  en_catalogsKey :: string
  en_appliedRevision :: int
  en_partId :: "string option"
  en_reportedFailures :: "(string \<times> js_value) list"
  en_errorSubscribed :: bool
  en_unsubscribes :: bool

type_synonym processor_table = "(string \<times> (string \<times> nat) list) list"

record ('p, 'm) surface_hook =
  hk_entry :: "'p processor_entry option"
  hk_degradedReported :: bool
  hk_result :: "'m processor_result"
  hk_made :: nat
  hk_subscriptions :: nat
  hk_table :: processor_table
  hk_notices :: "validation_notice list"

section \<open>The session's table of processors\<close>

definition registerA2uiSurfaceProcessor :: "string \<Rightarrow> string \<Rightarrow> nat \<Rightarrow> processor_table \<Rightarrow> processor_table" where
  "registerA2uiSurfaceProcessor sid surf n t =
     map_set t sid (map_set (coalesce (map_of t sid) []) surf n)"

definition unregisterA2uiSurfaceProcessor :: "string \<Rightarrow> string \<Rightarrow> processor_table \<Rightarrow> processor_table" where
  "unregisterA2uiSurfaceProcessor sid surf t = (case map_of t sid of
       None \<Rightarrow> t
     | Some ps \<Rightarrow> map_set t sid (map_delete ps surf))"

definition registered :: "processor_table \<Rightarrow> string \<Rightarrow> string \<Rightarrow> nat option" where
  "registered t sid surf = (case map_of t sid of None \<Rightarrow> None | Some ps \<Rightarrow> map_of ps surf)"

section \<open>Components and messages\<close>

definition hasRenderableRoot :: "('cat, 'p, 'm) web_core \<Rightarrow> 'm option \<Rightarrow> bool" where
  "hasRenderableRoot wc model = (case model of None \<Rightarrow> False | Some m \<Rightarrow> wc_has_component wc m ''root'')"

definition string_prop :: "js_value \<Rightarrow> string \<Rightarrow> string" where
  "string_prop v k = (case js_prop v k of Inr (JStr s) \<Rightarrow> s | _ \<Rightarrow> [])"

definition is_object :: "js_value \<Rightarrow> bool" where
  "is_object v = (case v of JObj _ \<Rightarrow> True | JArr _ \<Rightarrow> True | _ \<Rightarrow> False)"

definition componentLabel :: "js_value \<Rightarrow> string" where
  "componentLabel c =
     (let type = (if is_object c then string_prop c ''component'' else []);
          ident = (if is_object c then string_prop c ''id'' else [])
      in if type \<noteq> [] \<or> ident \<noteq> []
         then str_or type ''Component'' @ (if ident \<noteq> [] then '' ('' @ ident @ '')'' else [])
         else ''A component'')"

definition componentIdOf :: "js_value \<Rightarrow> string" where
  "componentIdOf c = (if is_object c then str_or (string_prop c ''id'') ''<no id>'' else ''<no id>'')"

text \<open>\<open>k in v\<close>: a type error when \<open>v\<close> is not an object.\<close>

definition js_in :: "string \<Rightarrow> js_value \<Rightarrow> bool result" where
  "js_in k v = (case v of
       JObj o1 \<Rightarrow> Inr (obj_has o1 k)
     | JArr _ \<Rightarrow> Inr False
     | _ \<Rightarrow> Inl (TypeError k))"

text \<open>
  \<open>JSON.stringify\<close> is only compared for equality: a text is represented by the value it
  denotes, in which an undefined property is left out and an undefined element is null.
\<close>

fun json_text :: "js_value \<Rightarrow> js_value" where
  "json_text (JArr xs) = JArr (map (\<lambda>x. if x = JUndef then JNull else json_text x) xs)"
| "json_text (JObj ps) = JObj (map (\<lambda>(k, x). (k, json_text x)) (filter (\<lambda>(k, x). x \<noteq> JUndef) ps))"
| "json_text v = v"

definition component_part :: "js_value \<Rightarrow> js_value \<Rightarrow> js_value \<Rightarrow> js_value" where
  "component_part version surfaceId c =
     JObj [(''version'', version),
           (''updateComponents'', JObj [(''surfaceId'', surfaceId), (''components'', JArr [c])])]"

definition splitForPerComponentApply :: "js_value \<Rightarrow> js_value list result" where
  "splitForPerComponentApply message =
     bindR (js_in ''updateComponents'' message) (\<lambda>present.
     if \<not> present then Inr [message]
     else bindR (js_prop message ''updateComponents'') (\<lambda>update.
          bindR (js_prop update ''surfaceId'') (\<lambda>surfaceId.
          bindR (js_prop update ''components'') (\<lambda>components.
          bindR (js_prop message ''version'') (\<lambda>version.
          case components of
            JArr cs \<Rightarrow> Inr (map (component_part version surfaceId) cs)
          | _ \<Rightarrow> Inl (TypeError ''map''))))))"

text \<open>The component of a part that was split off, read back from the part.\<close>

definition part_component :: "js_value \<Rightarrow> js_value option" where
  "part_component part = (case js_in ''updateComponents'' part of
       Inr True \<Rightarrow>
         (case bindR (js_prop part ''updateComponents'') (\<lambda>u. js_prop u ''components'') of
            Inr (JArr (c # _)) \<Rightarrow> Some c
          | _ \<Rightarrow> Some JUndef)
     | _ \<Rightarrow> None)"

section \<open>Applying pending messages\<close>

definition thrown_detail :: "thrown \<Rightarrow> string" where
  "thrown_detail t = (case t of ThrownError m \<Rightarrow> m
     | ThrownOther \<Rightarrow> ''The interactive surface could not be validated.'')"

definition skipped_message :: "js_value \<Rightarrow> string \<Rightarrow> string" where
  "skipped_message c detail =
     componentLabel c @ '' could not be validated and was skipped: '' @ detail"

definition alreadyReported :: "'p processor_entry \<Rightarrow> js_value \<Rightarrow> bool" where
  "alreadyReported e c \<longleftrightarrow>
     coalesce (map_of (en_reportedFailures e) (componentIdOf c)) JUndef = json_text c"

text \<open>What the \<open>catch\<close> block does for a part that names a component.\<close>

definition report_component :: "'p processor_entry \<Rightarrow> js_value \<Rightarrow> string \<Rightarrow> 'p processor_entry \<times> validation_notice" where
  "report_component e c detail =
     (if alreadyReported e c
      then (e, \<lparr>vn_code = ''a2ui_component_failure_unchanged'', vn_path = None,
                vn_message = skipped_message c detail\<rparr>)
      else (e\<lparr>en_reportedFailures := map_set (en_reportedFailures e) (componentIdOf c) (json_text c)\<rparr>,
            \<lparr>vn_code = ''VALIDATION_FAILED'', vn_path = None, vn_message = skipped_message c detail\<rparr>))"

definition apply_part :: "('cat, 'p, 'm) web_core \<Rightarrow> 'p processor_entry \<Rightarrow> js_value \<Rightarrow>
    'p processor_entry \<times> validation_notice list \<times> processor_failure option" where
  "apply_part wc e part =
     (let (p, outcome) = wc_process wc (en_processor e) part;
          e1 = e\<lparr>en_processor := p\<rparr>
      in case outcome of
           None \<Rightarrow> (e1, [], None)
         | Some t \<Rightarrow>
             (case part_component part of
                None \<Rightarrow> (e1, [], Some (ProcessorError (thrown_detail t)))
              | Some c \<Rightarrow>
                  (case report_component e1 c (thrown_detail t) of
                     (e2, n) \<Rightarrow> (e2, [n], Some (ProcessorError (thrown_detail t))))))"

fun apply_parts :: "('cat, 'p, 'm) web_core \<Rightarrow> 'p processor_entry \<Rightarrow> js_value list \<Rightarrow>
    'p processor_entry \<times> validation_notice list \<times> processor_failure option" where
  "apply_parts wc e [] = (e, [], None)"
| "apply_parts wc e (part # parts) =
     (case apply_part wc e part of (e1, ns, f) \<Rightarrow>
      case apply_parts wc e1 parts of (e2, ns', f') \<Rightarrow> (e2, ns @ ns', or_else f' f))"

text \<open>
  The loop over the pending messages. A message that cannot be split throws out of the
  loop: what was applied before it stays applied.
\<close>

fun applyPendingMessages :: "('cat, 'p, 'm) web_core \<Rightarrow> 'p processor_entry \<Rightarrow> js_value list \<Rightarrow>
    'p processor_entry \<times> validation_notice list \<times> processor_failure option result" where
  "applyPendingMessages wc e [] = (e, [], Inr None)"
| "applyPendingMessages wc e (message # pending) =
     (case splitForPerComponentApply message of
        Inl err \<Rightarrow> (e, [], Inl err)
      | Inr parts \<Rightarrow>
          (case apply_parts wc e parts of (e1, ns, f) \<Rightarrow>
           case applyPendingMessages wc e1 pending of (e2, ns', r) \<Rightarrow>
             (e2, ns @ ns', bindR r (\<lambda>f'. Inr (or_else f' f)))))"

section \<open>The hook\<close>

definition createProcessorEntry :: "('cat, 'p, 'm) web_core \<Rightarrow> 'cat list \<Rightarrow> string \<Rightarrow> string \<Rightarrow> nat \<Rightarrow>
    'p processor_entry" where
  "createProcessorEntry wc catalogs key version n = \<lparr>
     en_processor = wc_new wc catalogs version,
     en_number = n,
     en_catalogsKey = key,
     en_appliedRevision = -1,
     en_partId = None,
     en_reportedFailures = [],
     en_errorSubscribed = False,
     en_unsubscribes = False\<rparr>"

definition catalogIds :: "('cat, 'p, 'm) web_core \<Rightarrow> 'cat list \<Rightarrow> string" where
  "catalogIds wc catalogs = join_with '','' (map (wc_catalog_id wc) catalogs)"

definition initial_hook :: "('p, 'm) surface_hook" where
  "initial_hook = \<lparr>hk_entry = None, hk_degradedReported = False, hk_result = EmptyResult,
     hk_made = 0, hk_subscriptions = 0, hk_table = [], hk_notices = []\<rparr>"

text \<open>\<open>entryRef.current?.errorUnsubscribe()\<close>\<close>

definition error_unsubscribe :: "('p, 'm) surface_hook \<Rightarrow> ('p, 'm) surface_hook" where
  "error_unsubscribe h = (case hk_entry h of
       None \<Rightarrow> h
     | Some e \<Rightarrow> h\<lparr>hk_subscriptions := hk_subscriptions h - (if en_unsubscribes e then 1 else 0)\<rparr>)"

text \<open>End the old entry, make a new one and register its processor.\<close>

definition rebuild :: "('cat, 'p, 'm) web_core \<Rightarrow> a2ui_surface \<Rightarrow> 'cat list \<Rightarrow> bool \<Rightarrow>
    ('p, 'm) surface_hook \<Rightarrow> ('p, 'm) surface_hook" where
  "rebuild wc s catalogs register h =
     (let h1 = error_unsubscribe h;
          e = createProcessorEntry wc catalogs (catalogIds wc catalogs)
                (CHR ''v'' # sf_protocol_version s) (hk_made h1)
      in h1\<lparr>hk_entry := Some e, hk_made := Suc (hk_made h1),
            hk_table := (if register
                         then registerA2uiSurfaceProcessor (sf_session_id s) (sf_id s) (en_number e) (hk_table h1)
                         else hk_table h1)\<rparr>)"

definition update_entry :: "('p processor_entry \<Rightarrow> 'p processor_entry) \<Rightarrow> ('p, 'm) surface_hook \<Rightarrow>
    ('p, 'm) surface_hook" where
  "update_entry f h = h\<lparr>hk_entry := map_option f (hk_entry h)\<rparr>"

definition hasRevisionStamps :: "a2ui_surface \<Rightarrow> bool" where
  "hasRevisionStamps s \<longleftrightarrow> (case sf_message_revisions s of
       None \<Rightarrow> False
     | Some stamps \<Rightarrow> length stamps = length (sf_messages s)) \<and> sf_part_id s \<noteq> None"

definition isRecreate :: "'p processor_entry \<Rightarrow> a2ui_surface \<Rightarrow> bool" where
  "isRecreate e s \<longleftrightarrow> en_partId e \<noteq> None \<and> sf_part_id s \<noteq> None \<and> en_partId e \<noteq> sf_part_id s"

text \<open>\<open>incoming.filter((_, index) => stamps[index] > entry.appliedRevision)\<close>\<close>

definition pending_slots :: "a2ui_surface \<Rightarrow> int \<Rightarrow> js_value list" where
  "pending_slots s applied =
     map fst (filter (\<lambda>(_, stamp). stamp > applied) (zip (sf_messages s) (coalesce (sf_message_revisions s) [])))"

definition degraded_notice :: validation_notice where
  "degraded_notice = \<lparr>vn_code = ''a2ui_stamps_unavailable'', vn_path = None, vn_message =
     ''This surface's data is missing what incremental updates need (a per-message revision stamp or a lifecycle id), so it rebuilds fully on every change -- any input you have not submitted yet is lost each time.''\<rparr>"

definition reportDegradedProtocol :: "('p, 'm) surface_hook \<Rightarrow> ('p, 'm) surface_hook" where
  "reportDegradedProtocol h =
     (if hk_degradedReported h then h
      else h\<lparr>hk_degradedReported := True, hk_notices := hk_notices h @ [degraded_notice]\<rparr>)"

text \<open>
  Which messages are pending, and on which entry; \<open>None\<close> where the effect returns.
\<close>

definition stamped_plan :: "('cat, 'p, 'm) web_core \<Rightarrow> a2ui_surface \<Rightarrow> 'cat list \<Rightarrow> bool \<Rightarrow>
    'p processor_entry \<Rightarrow> ('p, 'm) surface_hook \<Rightarrow> ('p, 'm) surface_hook \<times> js_value list option" where
  "stamped_plan wc s catalogs register e h =
     (if isRecreate e s
      then (update_entry (\<lambda>e. e\<lparr>en_partId := sf_part_id s\<rparr>) (rebuild wc s catalogs register h),
            Some (pending_slots s (-1)))
      else if en_partId e \<noteq> None \<and> sf_revision s \<le> en_appliedRevision e then (h, None)
      else (update_entry (\<lambda>e. e\<lparr>en_partId := sf_part_id s\<rparr>) h,
            Some (pending_slots s (en_appliedRevision e))))"

definition unchangedLegacyRevision :: "'p processor_entry \<Rightarrow> a2ui_surface \<Rightarrow> bool" where
  "unchangedLegacyRevision e s \<longleftrightarrow>
     en_partId e = sf_part_id s \<and> sf_revision s = en_appliedRevision e"

definition degraded_plan :: "('cat, 'p, 'm) web_core \<Rightarrow> a2ui_surface \<Rightarrow> 'cat list \<Rightarrow> bool \<Rightarrow>
    'p processor_entry \<Rightarrow> ('p, 'm) surface_hook \<Rightarrow> ('p, 'm) surface_hook \<times> js_value list option" where
  "degraded_plan wc s catalogs register e h =
     (let h1 = reportDegradedProtocol h
      in if \<not> isRecreate e s \<and> (unchangedLegacyRevision e s
            \<or> (en_partId e \<noteq> None \<and> sf_revision s \<le> en_appliedRevision e))
         then (h1, None)
         else (update_entry (\<lambda>e. e\<lparr>en_partId := sf_part_id s\<rparr>) (rebuild wc s catalogs register h1),
               Some (sf_messages s)))"

definition reconcile_plan :: "('cat, 'p, 'm) web_core \<Rightarrow> a2ui_surface \<Rightarrow> 'cat list \<Rightarrow> bool \<Rightarrow>
    'p processor_entry \<Rightarrow> ('p, 'm) surface_hook \<Rightarrow> ('p, 'm) surface_hook \<times> js_value list option" where
  "reconcile_plan wc s catalogs register e h =
     (if hasRevisionStamps s then stamped_plan wc s catalogs register e h
      else degraded_plan wc s catalogs register e h)"

text \<open>The one subscription to the errors of the entry's model.\<close>

definition subscribe_errors :: "'p processor_entry \<Rightarrow> ('p, 'm) surface_hook \<Rightarrow> ('p, 'm) surface_hook" where
  "subscribe_errors e h =
     (if en_errorSubscribed e then h\<lparr>hk_entry := Some e\<rparr>
      else h\<lparr>hk_entry := Some (e\<lparr>en_errorSubscribed := True, en_unsubscribes := True\<rparr>),
             hk_subscriptions := Suc (hk_subscriptions h)\<rparr>)"

text \<open>The failure card or the model.\<close>

definition show_result :: "('cat, 'p, 'm) web_core \<Rightarrow> a2ui_surface \<Rightarrow> processor_failure option \<Rightarrow>
    'p processor_entry \<Rightarrow> ('p, 'm) surface_hook \<Rightarrow> ('p, 'm) surface_hook" where
  "show_result wc s failure e h =
     (let model = wc_surface wc (en_processor e) (sf_id s);
          shown = (if model \<noteq> None then subscribe_errors e h else h\<lparr>hk_entry := Some e\<rparr>)
                    \<lparr>hk_result := ModelResult model\<rparr>
      in case failure of
           None \<Rightarrow> shown
         | Some f \<Rightarrow> (if hasRenderableRoot wc model then shown
                      else h\<lparr>hk_entry := Some e, hk_result := FailureResult f\<rparr>))"

definition apply_plan :: "('cat, 'p, 'm) web_core \<Rightarrow> a2ui_surface \<Rightarrow> js_value list \<Rightarrow>
    ('p, 'm) surface_hook \<Rightarrow> ('p, 'm) surface_hook \<times> js_error option" where
  "apply_plan wc s pending h = (case hk_entry h of
       None \<Rightarrow> (h, None)
     | Some e \<Rightarrow>
         (case applyPendingMessages wc e pending of (e1, ns, r) \<Rightarrow>
          let h1 = h\<lparr>hk_entry := Some e1, hk_notices := hk_notices h @ ns\<rparr>
          in case r of
               Inl err \<Rightarrow> (h1, Some err)
             | Inr failure \<Rightarrow>
                 (show_result wc s failure (e1\<lparr>en_appliedRevision := sf_revision s\<rparr>) h1, None)))"

text \<open>The reconcile effect of \<open>useA2uiSurfaceModel\<close>: the hook after it, and what it threw.\<close>

definition ensure_entry :: "('cat, 'p, 'm) web_core \<Rightarrow> a2ui_surface \<Rightarrow> 'cat list \<Rightarrow> bool \<Rightarrow>
    ('p, 'm) surface_hook \<Rightarrow> ('p, 'm) surface_hook" where
  "ensure_entry wc s catalogs register h =
     (if (case hk_entry h of None \<Rightarrow> True | Some e \<Rightarrow> en_catalogsKey e \<noteq> catalogIds wc catalogs)
      then rebuild wc s catalogs register h else h)"

definition reconcile_effect :: "('cat, 'p, 'm) web_core \<Rightarrow> 'cat list \<Rightarrow> bool \<Rightarrow> bool \<Rightarrow> a2ui_surface \<Rightarrow>
    ('p, 'm) surface_hook \<Rightarrow> ('p, 'm) surface_hook \<times> js_error option" where
  "reconcile_effect wc catalogs catalogsLoading register s h =
     (if catalogsLoading then (h\<lparr>hk_result := EmptyResult\<rparr>, None)
      else let h1 = ensure_entry wc s catalogs register h
           in case hk_entry h1 of
                None \<Rightarrow> (h1, None)
              | Some e \<Rightarrow>
                  (case reconcile_plan wc s catalogs register e h1 of
                     (h2, None) \<Rightarrow> (h2, None)
                   | (h2, Some pending) \<Rightarrow> apply_plan wc s pending h2))"

text \<open>The cleanup of the first effect.\<close>

definition unmount_effect :: "a2ui_surface \<Rightarrow> bool \<Rightarrow> ('p, 'm) surface_hook \<Rightarrow> ('p, 'm) surface_hook" where
  "unmount_effect s register h =
     (error_unsubscribe h)\<lparr>hk_entry := None, hk_degradedReported := False,
        hk_table := (if register
                     then unregisterA2uiSurfaceProcessor (sf_session_id s) (sf_id s) (hk_table h)
                     else hk_table h)\<rparr>"

text \<open>The subscription's callback: an error a component of the model dispatched.\<close>

definition string_field :: "js_value \<Rightarrow> string \<Rightarrow> string option" where
  "string_field v k = (case js_prop v k of Inr (JStr s) \<Rightarrow> Some s | _ \<Rightarrow> None)"

definition relayed_notice :: "js_value \<Rightarrow> validation_notice" where
  "relayed_notice err = \<lparr>
     vn_code = coalesce (string_field err ''code'') ''VALIDATION_FAILED'',
     vn_path = string_field err ''path'',
     vn_message = coalesce (string_field err ''message'') ''The interactive surface reported an error.''\<rparr>"

definition model_error :: "js_value \<Rightarrow> ('p, 'm) surface_hook \<Rightarrow> ('p, 'm) surface_hook" where
  "model_error err h =
     h\<lparr>hk_notices := hk_notices h @ replicate (hk_subscriptions h) (relayed_notice err)\<rparr>"

section \<open>Notions of the specification\<close>

definition process_all :: "('cat, 'p, 'm) web_core \<Rightarrow> 'p \<Rightarrow> js_value list \<Rightarrow> 'p" where
  "process_all wc p parts = foldl (\<lambda>p part. fst (wc_process wc p part)) p parts"

fun all_parts :: "js_value list \<Rightarrow> js_value list result" where
  "all_parts [] = Inr []"
| "all_parts (message # pending) =
     bindR (splitForPerComponentApply message) (\<lambda>parts.
     bindR (all_parts pending) (\<lambda>rest. Inr (parts @ rest)))"

definition names_component :: "string \<Rightarrow> js_value \<Rightarrow> bool" where
  "names_component k part = (case part_component part of None \<Rightarrow> False | Some c \<Rightarrow> componentIdOf c = k)"

section \<open>A processor to evaluate with\<close>

text \<open>
  It keeps the parts it accepted and throws on a component of type \<open>Bad\<close>.
\<close>

definition ex_component :: "string \<Rightarrow> string \<Rightarrow> js_value" where
  "ex_component type ident = JObj [(''id'', JStr ident), (''component'', JStr type)]"

definition ex_update :: "js_value list \<Rightarrow> js_value" where
  "ex_update cs = JObj [(''version'', JStr ''v0.9''),
     (''updateComponents'', JObj [(''surfaceId'', JStr ''s1''), (''components'', JArr cs)])]"

definition ex_create :: js_value where
  "ex_create = JObj [(''createSurface'', JObj [(''surfaceId'', JStr ''s1'')])]"

definition ex_process :: "js_value list \<Rightarrow> js_value \<Rightarrow> js_value list \<times> thrown option" where
  "ex_process p part = (case part_component part of
       Some c \<Rightarrow> if string_prop c ''component'' = ''Bad'' then (p, Some (ThrownError ''bad'')) else (p @ [part], None)
     | None \<Rightarrow> (p @ [part], None))"

definition ex_wc :: "(string, js_value list, js_value list) web_core" where
  "ex_wc = \<lparr>
     wc_catalog_id = (\<lambda>c. c),
     wc_new = (\<lambda>_ _. []),
     wc_process = ex_process,
     wc_surface = (\<lambda>p _. if p = [] then None else Some p),
     wc_has_component = (\<lambda>m k. list_ex (\<lambda>part. names_component k part) m)\<rparr>"

definition ex_surface :: "string \<Rightarrow> int \<Rightarrow> js_value list \<Rightarrow> int list option \<Rightarrow> a2ui_surface" where
  "ex_surface part revision messages stamps = \<lparr>
     sf_id = ''s1'', sf_session_id = ''main'', sf_run_id = None, sf_message_id = None,
     sf_part_id = Some part, sf_catalog_id = ''basic'', sf_protocol_version = ''0.9.1'',
     sf_revision = revision, sf_state = A2Ready, sf_messages = messages,
     sf_message_revisions = stamps, sf_error = None\<rparr>"

definition ex_entry :: "int \<Rightarrow> js_value list processor_entry" where
  "ex_entry applied = \<lparr>en_processor = [ex_create], en_number = 0, en_catalogsKey = ''basic'',
     en_appliedRevision = applied, en_partId = Some ''p1'', en_reportedFailures = [],
     en_errorSubscribed = True, en_unsubscribes = True\<rparr>"

definition ex_hook :: "int \<Rightarrow> (js_value list, js_value list) surface_hook" where
  "ex_hook applied = \<lparr>hk_entry = Some (ex_entry applied), hk_degradedReported = False,
     hk_result = ModelResult (Some [ex_create]), hk_made = 1, hk_subscriptions = 1,
     hk_table = [(''main'', [(''s1'', 0)])], hk_notices = []\<rparr>"

lemmas ex_surface_defs = ex_component_def ex_update_def ex_create_def ex_process_def ex_wc_def
  ex_surface_def ex_entry_def ex_hook_def

lemmas ex_part_simps = catalogIds_def hasRevisionStamps_def pending_slots_def splitForPerComponentApply_def
  js_in_def js_prop_def obj_has_def obj_get_def component_part_def part_component_def string_prop_def
  componentIdOf_def is_object_def process_all_def

text \<open>
  The loop stops at a message slot that is not an object: the split is evaluated outside the
  \<open>try\<close>, so the type error leaves the loop and the later messages are not attempted.
\<close>

lemma non_object_slot_stops_the_loop:
  "applyPendingMessages wc e (JNull # pending) = (e, [], Inl (TypeError ''updateComponents''))"
  by (simp add: splitForPerComponentApply_def js_in_def)

section \<open>What the parts of a pending set do\<close>

text \<open>The fields of an entry that applying messages leaves alone.\<close>

definition same_identity :: "'p processor_entry \<Rightarrow> 'p processor_entry \<Rightarrow> bool" where
  "same_identity e e' \<longleftrightarrow> en_number e' = en_number e \<and> en_catalogsKey e' = en_catalogsKey e
     \<and> en_appliedRevision e' = en_appliedRevision e \<and> en_partId e' = en_partId e
     \<and> en_errorSubscribed e' = en_errorSubscribed e \<and> en_unsubscribes e' = en_unsubscribes e"

lemma same_identity_refl [simp]: "same_identity e e"
  by (simp add: same_identity_def)

lemma same_identity_trans: "same_identity e e1 \<Longrightarrow> same_identity e1 e2 \<Longrightarrow> same_identity e e2"
  by (simp add: same_identity_def)

lemma report_component_entry:
  "report_component e c d = (e', n) \<Longrightarrow> same_identity e e' \<and> en_processor e' = en_processor e"
  by (auto simp: report_component_def same_identity_def split: if_splits)

lemma apply_part_entry:
  "apply_part wc e part = (e', ns, f) \<Longrightarrow>
     same_identity e e' \<and> en_processor e' = fst (wc_process wc (en_processor e) part)"
  unfolding apply_part_def Let_def
  by (auto simp: same_identity_def split: option.splits prod.splits dest!: report_component_entry)

lemma apply_parts_entry:
  "apply_parts wc e parts = (e', ns, f) \<Longrightarrow>
     same_identity e e' \<and> en_processor e' = process_all wc (en_processor e) parts"
proof (induction wc e parts arbitrary: e' ns f rule: apply_parts.induct)
  case (2 wc e part parts)
  obtain e1 ns1 f1 where one: "apply_part wc e part = (e1, ns1, f1)" by (cases "apply_part wc e part")
  obtain e2 ns2 f2 where rest: "apply_parts wc e1 parts = (e2, ns2, f2)" by (cases "apply_parts wc e1 parts")
  from 2(2) one rest have "e' = e2" by simp
  with 2(1) [OF one [symmetric] refl rest] apply_part_entry [OF one] show ?case
    by (auto intro: same_identity_trans simp: process_all_def)
qed (simp add: process_all_def)

lemma apply_parts_append:
  "apply_parts wc e (xs @ ys) =
     (case apply_parts wc e xs of (e1, ns, f) \<Rightarrow>
      case apply_parts wc e1 ys of (e2, ns', f') \<Rightarrow> (e2, ns @ ns', or_else f' f))"
  by (induction xs arbitrary: e) (auto split: prod.splits simp: or_else_assoc)

lemma applyPendingMessages_parts:
  "all_parts pending = Inr parts \<Longrightarrow>
     applyPendingMessages wc e pending =
       (case apply_parts wc e parts of (e', ns, f) \<Rightarrow> (e', ns, Inr f))"
proof (induction pending arbitrary: e parts)
  case (Cons message pending)
  from Cons.prems obtain xs ys where
    "splitForPerComponentApply message = Inr xs" "all_parts pending = Inr ys" "parts = xs @ ys"
    by (auto simp: bindR_eq_Inr)
  with Cons.IH [of ys] show ?case
    by (auto simp: apply_parts_append split: prod.splits)
qed simp

lemma applyPendingMessages_entry:
  "applyPendingMessages wc e pending = (e', ns, r) \<Longrightarrow> same_identity e e'"
proof (induction wc e pending arbitrary: e' ns r rule: applyPendingMessages.induct)
  case (2 wc e message pending)
  show ?case
  proof (cases "splitForPerComponentApply message")
    case (Inr parts)
    obtain e1 ns1 f1 where one: "apply_parts wc e parts = (e1, ns1, f1)" by (cases "apply_parts wc e parts")
    obtain e2 ns2 r2 where rest: "applyPendingMessages wc e1 pending = (e2, ns2, r2)"
      by (cases "applyPendingMessages wc e1 pending")
    from 2(2) Inr one rest have "e' = e2" by simp
    with 2(1) [OF Inr one [symmetric] refl rest] apply_parts_entry [OF one] show ?thesis
      by (auto intro: same_identity_trans)
  qed (use 2(2) in auto)
qed simp

section \<open>What one reconcile does\<close>

text \<open>The entry a plan leaves when its pending set can be split.\<close>

definition applied_entry :: "('cat, 'p, 'm) web_core \<Rightarrow> a2ui_surface \<Rightarrow> js_value list \<Rightarrow> 'p processor_entry \<Rightarrow>
    'p processor_entry \<Rightarrow> bool" where
  "applied_entry wc s parts e e' \<longleftrightarrow> en_processor e' = process_all wc (en_processor e) parts
     \<and> en_appliedRevision e' = sf_revision s \<and> en_partId e' = en_partId e
     \<and> en_number e' = en_number e \<and> en_catalogsKey e' = en_catalogsKey e"

lemma show_result_entry:
  "\<exists>e'. hk_entry (show_result wc s f e h) = Some e' \<and> en_processor e' = en_processor e
     \<and> en_appliedRevision e' = en_appliedRevision e \<and> en_partId e' = en_partId e
     \<and> en_number e' = en_number e \<and> en_catalogsKey e' = en_catalogsKey e"
  by (auto simp: show_result_def subscribe_errors_def Let_def split: option.splits)

lemma apply_plan_applies:
  assumes "hk_entry h = Some e" "all_parts pending = Inr parts"
  shows "\<exists>h' e'. apply_plan wc s pending h = (h', None) \<and> hk_entry h' = Some e' \<and> applied_entry wc s parts e e'"
proof -
  obtain e1 ns f where parts: "apply_parts wc e parts = (e1, ns, f)" by (cases "apply_parts wc e parts")
  let ?e = "e1\<lparr>en_appliedRevision := sf_revision s\<rparr>"
  let ?h = "h\<lparr>hk_entry := Some e1, hk_notices := hk_notices h @ ns\<rparr>"
  have "apply_plan wc s pending h = (show_result wc s f ?e ?h, None)"
    using assms parts by (simp add: apply_plan_def applyPendingMessages_parts Let_def)
  with apply_parts_entry [OF parts] show_result_entry [of wc s f ?e ?h] show ?thesis
    by (auto simp: applied_entry_def same_identity_def)
qed

lemma entry_of_rebuild [simp]:
  "hk_entry (rebuild wc s catalogs register h) =
     Some (createProcessorEntry wc catalogs (catalogIds wc catalogs) (CHR ''v'' # sf_protocol_version s) (hk_made h))"
  by (simp add: rebuild_def error_unsubscribe_def Let_def split: option.splits)

lemma entry_of_update_entry [simp]: "hk_entry (update_entry f h) = map_option f (hk_entry h)"
  by (simp add: update_entry_def)

lemma reportDegradedProtocol_frame [simp]:
  "hk_entry (reportDegradedProtocol h) = hk_entry h"
  "hk_result (reportDegradedProtocol h) = hk_result h"
  "hk_made (reportDegradedProtocol h) = hk_made h"
  "hk_subscriptions (reportDegradedProtocol h) = hk_subscriptions h"
  "hk_table (reportDegradedProtocol h) = hk_table h"
  by (simp_all add: reportDegradedProtocol_def)

lemma ensure_entry_kept:
  "hk_entry h = Some e \<Longrightarrow> en_catalogsKey e = catalogIds wc catalogs \<Longrightarrow> ensure_entry wc s catalogs register h = h"
  by (simp add: ensure_entry_def)

lemma all_slots_pending:
  assumes "hasRevisionStamps s" "\<forall>stamps. sf_message_revisions s = Some stamps \<longrightarrow> (\<forall>x\<in>set stamps. n < x)"
  shows "pending_slots s n = sf_messages s"
proof -
  from assms(1) obtain stamps where st: "sf_message_revisions s = Some stamps"
    "length stamps = length (sf_messages s)"
    by (auto simp: hasRevisionStamps_def split: option.splits)
  with assms(2) have "filter (\<lambda>(_, stamp). stamp > n) (zip (sf_messages s) stamps) = zip (sf_messages s) stamps"
    by (auto simp: filter_id_conv dest: set_zip_rightD)
  with st show ?thesis by (simp add: pending_slots_def)
qed

text \<open>An entry just made for this surface.\<close>

definition fresh_entry :: "('cat, 'p, 'm) web_core \<Rightarrow> a2ui_surface \<Rightarrow> 'cat list \<Rightarrow> 'p processor_entry \<Rightarrow> bool" where
  "fresh_entry wc s catalogs e \<longleftrightarrow>
     e = createProcessorEntry wc catalogs (catalogIds wc catalogs) (CHR ''v'' # sf_protocol_version s) (en_number e)"

lemma number_of_createProcessorEntry [simp]: "en_number (createProcessorEntry wc catalogs key v n) = n"
  by (simp add: createProcessorEntry_def)

lemma fresh_createProcessorEntry [simp]:
  "fresh_entry wc s catalogs
     (createProcessorEntry wc catalogs (catalogIds wc catalogs) (CHR ''v'' # sf_protocol_version s) n)"
  by (simp add: fresh_entry_def)

lemma fresh_entry_fields:
  "fresh_entry wc s catalogs e \<Longrightarrow> en_partId e = None \<and> en_appliedRevision e = -1
     \<and> en_processor e = wc_new wc catalogs (CHR ''v'' # sf_protocol_version s)"
  unfolding fresh_entry_def createProcessorEntry_def by (cases e) simp

lemma made_of_rebuild [simp]: "hk_made (rebuild wc s catalogs register h) = Suc (hk_made h)"
  by (simp add: rebuild_def error_unsubscribe_def Let_def split: option.splits)

lemma reconcile_plan_replays:
  assumes part: "sf_part_id s = Some new"
    and stamps: "\<forall>stamps. sf_message_revisions s = Some stamps \<longrightarrow> (\<forall>x\<in>set stamps. 0 \<le> x)"
    and h: "hk_entry h = Some e"
    and e: "(\<exists>old. en_partId e = Some old \<and> old \<noteq> new) \<or> fresh_entry wc s catalogs e \<and> n \<le> en_number e"
    and n: "n \<le> hk_made h"
  shows "\<exists>h' e'. reconcile_plan wc s catalogs register e h = (h', Some (sf_messages s))
     \<and> hk_entry h' = Some e' \<and> en_partId e' = Some new \<and> n \<le> en_number e'
     \<and> en_processor e' = wc_new wc catalogs (CHR ''v'' # sf_protocol_version s)"
proof -
  have slots: "hasRevisionStamps s \<Longrightarrow> pending_slots s (-1) = sf_messages s"
    by (rule all_slots_pending) (use stamps in force)+
  from e show ?thesis
  proof
    assume "\<exists>old. en_partId e = Some old \<and> old \<noteq> new"
    with part h n slots show ?thesis
      by (auto simp: reconcile_plan_def stamped_plan_def degraded_plan_def isRecreate_def Let_def
          createProcessorEntry_def)
  next
    assume fresh: "fresh_entry wc s catalogs e \<and> n \<le> en_number e"
    with fresh_entry_fields [of wc s catalogs e] part h n slots show ?thesis
      by (auto simp: reconcile_plan_def stamped_plan_def degraded_plan_def isRecreate_def Let_def
          unchangedLegacyRevision_def createProcessorEntry_def)
  qed
qed

text \<open>
  A surface that comes back at or behind the revision already applied, in the same lifecycle,
  changes nothing: the processor with whatever the person has typed into it, its number, the
  applied revision and the shown result are kept, nothing is thrown, and with revision stamps
  not even a notice is added.
\<close>
lemma stale_surface_changes_nothing:
  assumes "hk_entry h = Some e" "en_catalogsKey e = catalogIds wc catalogs"
    and "en_partId e = Some part" "sf_part_id s = Some part"
    and "sf_revision s \<le> en_appliedRevision e"
  shows "\<exists>h'. reconcile_effect wc catalogs False register s h = (h', None)
     \<and> hk_entry h' = Some e \<and> hk_result h' = hk_result h \<and> hk_table h' = hk_table h
     \<and> (hasRevisionStamps s \<or> hk_degradedReported h \<longrightarrow> h' = h)"
  using assms
  by (simp add: reconcile_effect_def reconcile_plan_def ensure_entry_kept stamped_plan_def degraded_plan_def isRecreate_def
      reportDegradedProtocol_def Let_def)

text \<open>
  The parts a message is processed in, read off the message: an update of components is one part
  per component, in their order, each with the version and the surface of the message; any other
  message is one part by itself.
\<close>

definition field_of :: "js_value obj \<Rightarrow> string \<Rightarrow> js_value" where
  "field_of ps k = coalesce (obj_get ps k) JUndef"

definition processed_as :: "js_value \<Rightarrow> js_value list \<Rightarrow> bool" where
  "processed_as message parts \<longleftrightarrow> (case message of
       JObj ps \<Rightarrow> (case obj_get ps ''updateComponents'' of
           None \<Rightarrow> parts = [message]
         | Some (JObj u) \<Rightarrow> (\<exists>cs. obj_get u ''components'' = Some (JArr cs) \<and>
             length parts = length cs \<and> (\<forall>n<length cs. parts ! n =
               JObj [(''version'', field_of ps ''version''),
                     (''updateComponents'', JObj [(''surfaceId'', field_of u ''surfaceId''),
                                                  (''components'', JArr [cs ! n])])]))
         | Some _ \<Rightarrow> False)
     | JArr _ \<Rightarrow> parts = [message]
     | _ \<Rightarrow> False)"

lemma js_prop_field: "js_prop (JObj ps) k = Inr (field_of ps k)"
  by (simp add: js_prop_def field_of_def coalesce_def split: option.split)

lemma processed_as_split:
  assumes "processed_as message parts"
  shows "splitForPerComponentApply message = Inr parts"
proof (cases message)
  case (JObj ps)
  show ?thesis
  proof (cases "obj_get ps ''updateComponents''")
    case None
    with assms JObj show ?thesis
      by (simp add: processed_as_def splitForPerComponentApply_def js_in_def obj_has_def)
  next
    case (Some update)
    with assms JObj obtain u cs where u: "update = JObj u" "obj_get u ''components'' = Some (JArr cs)"
      "length parts = length cs" "\<forall>n<length cs. parts ! n =
         component_part (field_of ps ''version'') (field_of u ''surfaceId'') (cs ! n)"
      by (auto simp: processed_as_def component_part_def split: js_value.splits)
    then have parts: "map (component_part (field_of ps ''version'') (field_of u ''surfaceId'')) cs = parts"
      by (intro nth_equalityI) simp_all
    have "field_of ps ''updateComponents'' = JObj u" "field_of u ''components'' = JArr cs"
      using Some u by (simp_all add: field_of_def coalesce_def)
    with JObj Some parts show ?thesis
      by (simp add: splitForPerComponentApply_def js_in_def obj_has_def js_prop_field)
  qed
qed (use assms in \<open>simp_all add: processed_as_def splitForPerComponentApply_def js_in_def\<close>)

lemma processed_as_parts:
  "list_all2 processed_as messages partss \<Longrightarrow> all_parts messages = Inr (concat partss)"
  by (induction rule: list_all2_induct) (simp_all add: processed_as_split)

lemma pending_slots_indices:
  assumes "sf_message_revisions s = Some stamps" "length stamps = length (sf_messages s)"
  shows "pending_slots s n = map (\<lambda>k. sf_messages s ! k) (filter (\<lambda>k. n < stamps ! k) [0..<length (sf_messages s)])"
proof -
  have "zip (sf_messages s) stamps = map (\<lambda>k. (sf_messages s ! k, stamps ! k)) [0..<length (sf_messages s)]"
    using assms(2) by (intro nth_equalityI) simp_all
  with assms(1) show ?thesis by (simp add: pending_slots_def coalesce_def filter_map o_def)
qed

text \<open>
  C24. A newer revision of the same lifecycle is applied to the very processor the surface already
  has. Let every message of the surface have a stamp, and take the slots whose stamp is above the
  applied revision, in the order of the stream. Exactly the messages in those slots are
  processed, one after the other, an update of components in one part per component, every part
  whatever an earlier one threw; nothing is thrown, the processor is not exchanged, and the
  applied revision and the lifecycle become the surface's.
\<close>
theorem newer_revision_applies_exactly_its_slots:
  assumes "hk_entry h = Some e" "en_catalogsKey e = catalogIds wc catalogs"
    and "sf_message_revisions s = Some stamps" "length stamps = length (sf_messages s)" "sf_part_id s = Some part"
    and "en_partId e = None \<or> (en_partId e = Some part \<and> en_appliedRevision e < sf_revision s)"
    and "slots = filter (\<lambda>k. en_appliedRevision e < stamps ! k) [0..<length (sf_messages s)]"
    and "list_all2 processed_as (map (\<lambda>k. sf_messages s ! k) slots) partss"
  shows "\<exists>h' e'. reconcile_effect wc catalogs False register s h = (h', None) \<and> hk_entry h' = Some e'
     \<and> en_processor e' = foldl (\<lambda>p part. fst (wc_process wc p part)) (en_processor e) (concat partss)
     \<and> en_number e' = en_number e
     \<and> en_appliedRevision e' = sf_revision s \<and> en_partId e' = Some part"
proof -
  let ?h = "update_entry (\<lambda>e. e\<lparr>en_partId := sf_part_id s\<rparr>) h"
  let ?pending = "pending_slots s (en_appliedRevision e)"
  have "reconcile_effect wc catalogs False register s h = apply_plan wc s ?pending ?h"
    using assms(1-6)
    by (auto simp: reconcile_effect_def reconcile_plan_def hasRevisionStamps_def ensure_entry_kept stamped_plan_def
        isRecreate_def Let_def)
  moreover have "all_parts ?pending = Inr (concat partss)"
    using processed_as_parts [OF assms(8)] pending_slots_indices [OF assms(3,4)] by (simp add: assms(7))
  ultimately show ?thesis
    using apply_plan_applies [of ?h _ ?pending "concat partss" wc s] assms(1,5)
    by (fastforce simp: applied_entry_def process_all_def)
qed

theorem newer_revision_applies_exactly_its_slots_witness:
  "\<exists>h' e'. reconcile_effect ex_wc [''basic''] False True
        (ex_surface ''p1'' 4 [ex_create, ex_update [ex_component ''Card'' ''old''],
             ex_update [ex_component ''Bad'' ''b'', ex_component ''Card'' ''root'']] (Some [1, 3, 4]))
        (ex_hook 3) = (h', None)
     \<and> hk_entry h' = Some e' \<and> en_processor e' = [ex_create, ex_update [ex_component ''Card'' ''root'']]
     \<and> en_number e' = 0 \<and> en_appliedRevision e' = 4 \<and> en_partId e' = Some ''p1''"
proof -
  let ?s = "ex_surface ''p1'' 4 [ex_create, ex_update [ex_component ''Card'' ''old''],
      ex_update [ex_component ''Bad'' ''b'', ex_component ''Card'' ''root'']] (Some [1, 3, 4])"
  let ?slots = "filter (\<lambda>k. en_appliedRevision (ex_entry 3) < [1, 3, 4] ! k) [0..<length (sf_messages ?s)]"
  have slots: "?slots = [2]" by (simp add: ex_surface_def ex_entry_def upt_rec)
  have parts: "list_all2 processed_as (map (\<lambda>k. sf_messages ?s ! k) ?slots)
      [[ex_update [ex_component ''Bad'' ''b''], ex_update [ex_component ''Card'' ''root'']]]"
    unfolding slots
    by (simp add: ex_surface_def ex_update_def processed_as_def field_of_def coalesce_def obj_get_def less_Suc_eq)
  from newer_revision_applies_exactly_its_slots [OF _ _ _ _ _ _ refl parts, where h = "ex_hook 3" and wc = ex_wc
      and catalogs = "[''basic'']" and register = True and part = "''p1''"]
  show ?thesis by (simp add: ex_surface_defs ex_part_simps)
qed

text \<open>
  A surface with a new lifecycle id is authoritative whatever its revision number, with and
  without revision stamps: a fresh processor is made and the whole stream is processed into it
  from the start, and the applied revision and lifecycle become the new surface's.
\<close>
lemma recreated_surface_is_replayed:
  assumes "hk_entry h = Some e" "en_partId e = Some old" "sf_part_id s = Some new" "old \<noteq> new"
    and "\<forall>stamps. sf_message_revisions s = Some stamps \<longrightarrow> (\<forall>x\<in>set stamps. 0 \<le> x)"
    and "all_parts (sf_messages s) = Inr parts"
  shows "\<exists>h' e'. reconcile_effect wc catalogs False register s h = (h', None) \<and> hk_entry h' = Some e'
     \<and> en_processor e' = process_all wc (wc_new wc catalogs (CHR ''v'' # sf_protocol_version s)) parts
     \<and> hk_made h \<le> en_number e' \<and> en_appliedRevision e' = sf_revision s \<and> en_partId e' = Some new"
proof -
  let ?h = "ensure_entry wc s catalogs register h"
  obtain e1 where e1: "hk_entry ?h = Some e1" "hk_made h \<le> hk_made ?h"
    "(\<exists>old. en_partId e1 = Some old \<and> old \<noteq> new)
       \<or> fresh_entry wc s catalogs e1 \<and> hk_made h \<le> en_number e1"
    using assms(1-4) by (cases "en_catalogsKey e = catalogIds wc catalogs") (auto simp: ensure_entry_def)
  obtain h2 e2 where "reconcile_plan wc s catalogs register e1 ?h = (h2, Some (sf_messages s))"
    and e2: "hk_entry h2 = Some e2" "en_partId e2 = Some new" "hk_made h \<le> en_number e2"
      "en_processor e2 = wc_new wc catalogs (CHR ''v'' # sf_protocol_version s)"
    using reconcile_plan_replays [OF assms(3) assms(5) e1(1) e1(3,2), of register] by auto
  then have "reconcile_effect wc catalogs False register s h = apply_plan wc s (sf_messages s) h2"
    using e1(1) by (simp add: reconcile_effect_def Let_def)
  with apply_plan_applies [OF e2(1) assms(6), of wc s] e2 show ?thesis
    by (fastforce simp: applied_entry_def)
qed

section \<open>Reporting a bad component\<close>

text \<open>How often \<open>VALIDATION_FAILED\<close> is reported for component \<open>k\<close> while parts are applied.\<close>

fun reports :: "('cat, 'p, 'm) web_core \<Rightarrow> string \<Rightarrow> 'p processor_entry \<Rightarrow> js_value list \<Rightarrow> nat" where
  "reports wc k e [] = 0"
| "reports wc k e (part # parts) =
     (case apply_part wc e part of (e1, ns, _) \<Rightarrow>
       (if names_component k part
        then length (filter (\<lambda>n. vn_code n = ''VALIDATION_FAILED'') ns) else 0)
       + reports wc k e1 parts)"

lemma apply_part_reported:
  assumes "apply_part wc e part = (e1, ns, f)"
    and "\<And>c. part_component part = Some c \<Longrightarrow> componentIdOf c = k \<Longrightarrow> json_text c = d"
  shows "(if names_component k part
          then length (filter (\<lambda>n. vn_code n = ''VALIDATION_FAILED'') ns) else 0)
         + (if map_of (en_reportedFailures e1) k = Some d then 0 else 1)
         \<le> (if map_of (en_reportedFailures e) k = Some d then 0 else (1 :: nat))"
  using assms unfolding apply_part_def Let_def names_component_def
  by (auto simp: report_component_def alreadyReported_def map_of_map_set coalesce_def
      split: option.splits prod.splits if_splits)

lemma reports_bound:
  assumes "\<And>part c. part \<in> set parts \<Longrightarrow> part_component part = Some c \<Longrightarrow> componentIdOf c = k \<Longrightarrow> json_text c = d"
  shows "reports wc k e parts \<le> (if map_of (en_reportedFailures e) k = Some d then 0 else 1)"
  using assms
proof (induction parts arbitrary: e)
  case (Cons part parts)
  obtain e1 ns f where one: "apply_part wc e part = (e1, ns, f)" by (cases "apply_part wc e part")
  have "reports wc k e1 parts \<le> (if map_of (en_reportedFailures e1) k = Some d then 0 else 1)"
    by (rule Cons.IH) (use Cons.prems in auto)
  with apply_part_reported [OF one, of k d] Cons.prems show ?case
    using one by fastforce
qed simp

text \<open>
  Within one lifecycle a bad component is reported to the server once per definition: whatever
  else is applied before, between and after, and however often its slot is applied again, a
  component whose definition does not change has \<open>VALIDATION_FAILED\<close> reported at most once, and
  not at all when that definition was reported before.
\<close>
lemma bad_component_reported_once:
  assumes "\<forall>part\<in>set parts. \<forall>c. part_component part = Some c \<and> componentIdOf c = k \<longrightarrow> json_text c = d"
  shows "reports wc k e parts \<le> 1
     \<and> (map_of (en_reportedFailures e) k = Some d \<longrightarrow> reports wc k e parts = 0)"
  using reports_bound [of parts k d wc e] assms by (auto split: if_splits)

section \<open>The life of a mounted surface\<close>

text \<open>
  Every state a mounted surface can be in: reconciles with any surface row and catalogs,
  edits of the processor by the person, errors of the model, and unmounts.
\<close>

inductive hook_run :: "('cat, 'p, 'm) web_core \<Rightarrow> string \<Rightarrow> string \<Rightarrow> bool \<Rightarrow> ('p, 'm) surface_hook \<Rightarrow> bool"
  for wc sid surf register where
  mount: "hook_run wc sid surf register initial_hook"
| reconcile: "hook_run wc sid surf register h \<Longrightarrow> sf_session_id s = sid \<Longrightarrow> sf_id s = surf \<Longrightarrow>
    hook_run wc sid surf register (fst (reconcile_effect wc catalogs loading register s h))"
| edit: "hook_run wc sid surf register h \<Longrightarrow>
    hook_run wc sid surf register (update_entry (\<lambda>e. e\<lparr>en_processor := p\<rparr>) h)"
| dispatch: "hook_run wc sid surf register h \<Longrightarrow> hook_run wc sid surf register (model_error err h)"
| unmount: "hook_run wc sid surf register h \<Longrightarrow> sf_session_id s = sid \<Longrightarrow> sf_id s = surf \<Longrightarrow>
    hook_run wc sid surf register (unmount_effect s register h)"

definition hook_ok :: "string \<Rightarrow> string \<Rightarrow> bool \<Rightarrow> ('p, 'm) surface_hook \<Rightarrow> bool" where
  "hook_ok sid surf register h \<longleftrightarrow>
     (case hk_entry h of
        None \<Rightarrow> hk_subscriptions h = 0 \<and> registered (hk_table h) sid surf = None
      | Some e \<Rightarrow> hk_subscriptions h = (if en_errorSubscribed e then 1 else 0)
          \<and> en_unsubscribes e = en_errorSubscribed e
          \<and> registered (hk_table h) sid surf = (if register then Some (en_number e) else None))"

lemma registered_register [simp]:
  "registered (registerA2uiSurfaceProcessor sid surf n t) sid surf = Some n"
  by (simp add: registered_def registerA2uiSurfaceProcessor_def map_of_map_set)

lemma registered_unregister [simp]:
  "registered (unregisterA2uiSurfaceProcessor sid surf t) sid surf = None"
  by (cases "map_of t sid")
    (simp_all add: registered_def unregisterA2uiSurfaceProcessor_def map_of_map_set map_of_map_delete)

lemma hook_ok_rebuild:
  "hook_ok (sf_session_id s) (sf_id s) register h \<Longrightarrow>
     hook_ok (sf_session_id s) (sf_id s) register (rebuild wc s catalogs register h)"
  by (auto simp: hook_ok_def rebuild_def error_unsubscribe_def createProcessorEntry_def Let_def
      split: option.splits)

lemma hook_ok_ensure_entry:
  "hook_ok (sf_session_id s) (sf_id s) register h \<Longrightarrow>
     hook_ok (sf_session_id s) (sf_id s) register (ensure_entry wc s catalogs register h)"
  by (simp add: ensure_entry_def hook_ok_rebuild)

lemma hook_ok_same_identity:
  "hook_ok sid surf register h \<Longrightarrow> hk_entry h = Some e \<Longrightarrow> hk_entry h' = Some e' \<Longrightarrow>
     en_number e' = en_number e \<Longrightarrow> en_errorSubscribed e' = en_errorSubscribed e \<Longrightarrow>
     en_unsubscribes e' = en_unsubscribes e \<Longrightarrow> hk_subscriptions h' = hk_subscriptions h \<Longrightarrow>
     hk_table h' = hk_table h \<Longrightarrow> hook_ok sid surf register h'"
  by (simp add: hook_ok_def)

lemma hook_ok_update_entry:
  "hook_ok sid surf register h \<Longrightarrow>
     (\<And>e. en_number (f e) = en_number e \<and> en_errorSubscribed (f e) = en_errorSubscribed e
        \<and> en_unsubscribes (f e) = en_unsubscribes e) \<Longrightarrow>
     hook_ok sid surf register (update_entry f h)"
  by (auto simp: hook_ok_def update_entry_def split: option.splits)

lemma hook_ok_result: "hook_ok sid surf register (h\<lparr>hk_result := r\<rparr>) \<longleftrightarrow> hook_ok sid surf register h"
  by (simp add: hook_ok_def split: option.splits)

lemma hook_ok_model_error: "hook_ok sid surf register (model_error err h) \<longleftrightarrow> hook_ok sid surf register h"
  by (simp add: hook_ok_def model_error_def split: option.splits)

lemma hook_ok_report: "hook_ok sid surf register (reportDegradedProtocol h) \<longleftrightarrow> hook_ok sid surf register h"
  by (simp add: hook_ok_def split: option.splits)

lemma hook_ok_plan:
  "hook_ok (sf_session_id s) (sf_id s) register h \<Longrightarrow>
     hook_ok (sf_session_id s) (sf_id s) register (fst (reconcile_plan wc s catalogs register e h))"
  by (auto simp: reconcile_plan_def stamped_plan_def degraded_plan_def hook_ok_report Let_def
      intro!: hook_ok_update_entry hook_ok_rebuild)

lemma hook_ok_show_result:
  assumes "hook_ok sid surf register h" "hk_entry h = Some e0" "en_number e = en_number e0"
    and "en_errorSubscribed e = en_errorSubscribed e0" "en_unsubscribes e = en_unsubscribes e0"
  shows "hook_ok sid surf register (show_result wc s f e h)"
  using assms
  by (auto simp: hook_ok_def show_result_def subscribe_errors_def Let_def split: option.splits if_splits)

lemma hook_ok_apply_plan:
  assumes "hook_ok sid surf register h"
  shows "hook_ok sid surf register (fst (apply_plan wc s pending h))"
proof (cases "hk_entry h")
  case (Some e)
  obtain e1 ns r where applied: "applyPendingMessages wc e pending = (e1, ns, r)"
    by (cases "applyPendingMessages wc e pending")
  let ?h = "h\<lparr>hk_entry := Some e1, hk_notices := hk_notices h @ ns\<rparr>"
  note same = applyPendingMessages_entry [OF applied]
  have ok: "hook_ok sid surf register ?h"
    by (rule hook_ok_same_identity [OF assms Some, where e' = e1]) (use same in \<open>auto simp: same_identity_def\<close>)
  have "hook_ok sid surf register (show_result wc s f (e1\<lparr>en_appliedRevision := n\<rparr>) ?h)" for f n
    using hook_ok_show_result [OF ok, of e1 "e1\<lparr>en_appliedRevision := n\<rparr>"] by simp
  with ok show ?thesis
    using Some applied by (auto simp: apply_plan_def Let_def split: sum.splits)
qed (simp add: apply_plan_def assms)

lemma hook_ok_reconcile:
  assumes "hook_ok (sf_session_id s) (sf_id s) register h"
  shows "hook_ok (sf_session_id s) (sf_id s) register (fst (reconcile_effect wc catalogs loading register s h))"
proof (cases loading)
  case True
  with assms show ?thesis by (simp add: reconcile_effect_def hook_ok_result)
next
  case False
  let ?h = "ensure_entry wc s catalogs register h"
  note ensured = hook_ok_ensure_entry [OF assms, of wc catalogs]
  show ?thesis
  proof (cases "hk_entry ?h")
    case (Some e)
    obtain h2 pending where plan: "reconcile_plan wc s catalogs register e ?h = (h2, pending)"
      by (cases "reconcile_plan wc s catalogs register e ?h")
    with hook_ok_plan [OF ensured, of wc catalogs e] have "hook_ok (sf_session_id s) (sf_id s) register h2"
      by simp
    with False Some plan show ?thesis
      by (cases pending) (simp_all add: reconcile_effect_def Let_def hook_ok_apply_plan)
  qed (use False ensured in \<open>simp add: reconcile_effect_def Let_def\<close>)
qed

lemma hook_run_ok: "hook_run wc sid surf register h \<Longrightarrow> hook_ok sid surf register h"
proof (induction rule: hook_run.induct)
  case (unmount h s)
  then show ?case
    by (auto simp: hook_ok_def unmount_effect_def error_unsubscribe_def split: option.splits if_splits)
next
  case (edit h p)
  then show ?case by (simp add: hook_ok_update_entry)
next
  case (reconcile h s catalogs loading)
  then show ?case using hook_ok_reconcile by blast
next
  case mount
  show ?case by (simp add: hook_ok_def initial_hook_def registered_def)
qed (simp add: hook_ok_model_error)

text \<open>
  In every state a mounted surface can reach there is at most one subscription to the errors
  of its model, it belongs to the current entry and ends with it, so an error is relayed at
  most once; and the session's table names the processor of the current entry, or none after
  the surface is unmounted.
\<close>
lemma surface_owns_one_processor:
  assumes "hook_run wc sid surf register h"
  shows "hk_subscriptions h \<le> 1
     \<and> (hk_subscriptions h = 1 \<longleftrightarrow> (\<exists>e. hk_entry h = Some e \<and> en_errorSubscribed e \<and> en_unsubscribes e))
     \<and> registered (hk_table h) sid surf =
         (case hk_entry h of Some e \<Rightarrow> if register then Some (en_number e) else None | None \<Rightarrow> None)"
  using hook_run_ok [OF assms] by (auto simp: hook_ok_def split: option.splits if_splits)

end
