(* ===== verification/Update_Flow.thy ===== *)
theory Update_Flow
  imports Domain
begin

text \<open>
  \<open>web/src/store/update-flow-store.ts\<close>: the phases of a product update, the retained
  install log, and the marker in local storage that carries an update across the restart of
  the process.

  Local storage is its items and whether the browser lets the page read and write it; a
  refused access throws. A stored text is either JSON, represented by the value it denotes,
  or text that does not parse.
\<close>

section \<open>The store\<close>

datatype update_action = UpdateAgent | UpdateDesktop | UpdateBoth

datatype update_step =
    StepIdle | StepChecking | StepDownloading | StepInstalling | StepRestarting
  | StepReconnecting | StepVerifying | StepDone | StepFailed

record download_progress =
  dp_downloadedBytes :: rat
  dp_totalBytes :: "rat option"

definition MAX_RETAINED_INSTALL_LINES :: nat where
  "MAX_RETAINED_INSTALL_LINES = 200"

record update_flow =
  uf_step :: update_step
  uf_action :: "update_action option"
  uf_version :: "string option"
  uf_progress :: "download_progress option"
  uf_lines :: "string list"
  uf_reason :: "string option"

definition initialState :: update_flow where
  "initialState = \<lparr>uf_step = StepIdle, uf_action = None, uf_version = None, uf_progress = None,
     uf_lines = [], uf_reason = None\<rparr>"

definition update_start :: "update_action \<Rightarrow> string option \<Rightarrow> update_flow \<Rightarrow> update_flow" where
  "update_start action version u = u\<lparr>uf_step := StepChecking, uf_action := Some action,
     uf_version := version, uf_progress := None, uf_lines := [], uf_reason := None\<rparr>"

definition update_resume :: "update_action \<Rightarrow> string option \<Rightarrow> update_flow \<Rightarrow> update_flow" where
  "update_resume action version u = u\<lparr>uf_step := StepReconnecting, uf_action := Some action,
     uf_version := version, uf_progress := None, uf_lines := [], uf_reason := None\<rparr>"

definition setStep :: "update_step \<Rightarrow> update_flow \<Rightarrow> update_flow" where
  "setStep step u = u\<lparr>uf_step := step\<rparr>"

definition setProgress :: "download_progress \<Rightarrow> update_flow \<Rightarrow> update_flow" where
  "setProgress progress u = u\<lparr>uf_progress := Some progress\<rparr>"

definition appendLine :: "string \<Rightarrow> update_flow \<Rightarrow> update_flow" where
  "appendLine line u = u\<lparr>uf_lines := take_last MAX_RETAINED_INSTALL_LINES (uf_lines u @ [line])\<rparr>"

definition update_fail :: "string \<Rightarrow> update_flow \<Rightarrow> update_flow" where
  "update_fail reason u = u\<lparr>uf_step := StepFailed, uf_reason := Some reason\<rparr>"

definition update_finish :: "string option \<Rightarrow> update_flow \<Rightarrow> update_flow" where
  "update_finish version u = u\<lparr>uf_step := StepDone, uf_version := or_else version (uf_version u)\<rparr>"

definition update_reset :: "update_flow \<Rightarrow> update_flow" where
  "update_reset u = initialState"

definition UPDATE_IN_FLIGHT_STEPS :: "update_step list" where
  "UPDATE_IN_FLIGHT_STEPS =
     [StepChecking, StepDownloading, StepInstalling, StepRestarting, StepReconnecting, StepVerifying]"

definition isUpdateInFlight :: "update_step \<Rightarrow> bool" where
  "isUpdateInFlight step \<longleftrightarrow> step \<in> set UPDATE_IN_FLIGHT_STEPS"

section \<open>The marker in local storage\<close>

datatype stored_text = JsonText js_value | OtherText string

record local_storage =
  st_items :: "stored_text obj"
  st_readable :: bool
  st_writable :: bool

definition PENDING_UPDATE_MARKER_KEY :: string where
  "PENDING_UPDATE_MARKER_KEY = ''clio.pending-update''"

record pending_update_marker =
  pm_action :: update_action
  pm_version :: "string option"
  pm_startedAt :: rat

definition action_name :: "update_action \<Rightarrow> string" where
  "action_name a = (case a of UpdateAgent \<Rightarrow> ''agent'' | UpdateDesktop \<Rightarrow> ''desktop'' | UpdateBoth \<Rightarrow> ''both'')"

definition action_of :: "js_value \<Rightarrow> update_action option" where
  "action_of v = (if v = JStr ''agent'' then Some UpdateAgent
     else if v = JStr ''desktop'' then Some UpdateDesktop
     else if v = JStr ''both'' then Some UpdateBoth else None)"

definition marker_of :: "js_value \<Rightarrow> pending_update_marker option" where
  "marker_of parsed = (case parsed of
       JObj o1 \<Rightarrow>
         (case (action_of (coalesce (obj_get o1 ''action'') JUndef), obj_get o1 ''startedAt'') of
            (Some action, Some (JNum t)) \<Rightarrow>
              Some \<lparr>pm_action = action,
                pm_version = (case obj_get o1 ''version'' of Some (JStr s) \<Rightarrow> Some s | _ \<Rightarrow> None),
                pm_startedAt = t\<rparr>
          | _ \<Rightarrow> None)
     | _ \<Rightarrow> None)"

definition readPendingUpdateMarker :: "local_storage \<Rightarrow> pending_update_marker option" where
  "readPendingUpdateMarker st =
     (if \<not> st_readable st then None
      else case obj_get (st_items st) PENDING_UPDATE_MARKER_KEY of
             Some (JsonText v) \<Rightarrow> marker_of v
           | _ \<Rightarrow> None)"

text \<open>\<open>JSON.stringify(marker)\<close>: an undefined version is left out.\<close>

definition marker_json :: "pending_update_marker \<Rightarrow> js_value" where
  "marker_json m = JObj ((''action'', JStr (action_name (pm_action m)))
     # (case pm_version m of None \<Rightarrow> [] | Some v \<Rightarrow> [(''version'', JStr v)])
     @ [(''startedAt'', JNum (pm_startedAt m))])"

definition writePendingUpdateMarker :: "pending_update_marker \<Rightarrow> local_storage \<Rightarrow> local_storage result" where
  "writePendingUpdateMarker m st =
     (if st_writable st
      then Inr (st\<lparr>st_items := obj_put (st_items st) PENDING_UPDATE_MARKER_KEY (JsonText (marker_json m))\<rparr>)
      else Inl (PlainError ''The app cannot retain the update target across restart. Enable local storage before updating.''))"

definition clearPendingUpdateMarker :: "local_storage \<Rightarrow> local_storage" where
  "clearPendingUpdateMarker st =
     (if st_writable st then st\<lparr>st_items := obj_del (st_items st) PENDING_UPDATE_MARKER_KEY\<rparr> else st)"

section \<open>Runs of the store\<close>

datatype flow_action =
    Start update_action "string option"
  | Resume update_action "string option"
  | SetStep update_step
  | SetProgress download_progress
  | AppendLine string
  | Fail string
  | Finish "string option"
  | ResetFlow

fun flow_act :: "update_flow \<Rightarrow> flow_action \<Rightarrow> update_flow" where
  "flow_act u (Start a v) = update_start a v u"
| "flow_act u (Resume a v) = update_resume a v u"
| "flow_act u (SetStep s) = setStep s u"
| "flow_act u (SetProgress p) = setProgress p u"
| "flow_act u (AppendLine l) = appendLine l u"
| "flow_act u (Fail r) = update_fail r u"
| "flow_act u (Finish v) = update_finish v u"
| "flow_act u ResetFlow = update_reset u"

text \<open>The type of \<open>setStep\<close> excludes the two settled steps.\<close>

fun typed_action :: "flow_action \<Rightarrow> bool" where
  "typed_action (SetStep s) \<longleftrightarrow> s \<noteq> StepFailed \<and> s \<noteq> StepDone"
| "typed_action _ \<longleftrightarrow> True"

text \<open>The install lines of the current run, and the reason of a failure that is showing.\<close>

fun run_lines :: "string list \<Rightarrow> flow_action list \<Rightarrow> string list" where
  "run_lines ls [] = ls"
| "run_lines ls (AppendLine l # as) = run_lines (ls @ [l]) as"
| "run_lines ls (Start _ _ # as) = run_lines [] as"
| "run_lines ls (Resume _ _ # as) = run_lines [] as"
| "run_lines ls (ResetFlow # as) = run_lines [] as"
| "run_lines ls (SetStep _ # as) = run_lines ls as"
| "run_lines ls (SetProgress _ # as) = run_lines ls as"
| "run_lines ls (Fail _ # as) = run_lines ls as"
| "run_lines ls (Finish _ # as) = run_lines ls as"

lemmas flow_defs = update_start_def update_resume_def setStep_def setProgress_def appendLine_def
  update_fail_def update_finish_def update_reset_def initialState_def

lemma retained_lines:
  "uf_lines u = take_last MAX_RETAINED_INSTALL_LINES ls \<Longrightarrow>
     uf_lines (foldl flow_act u acts) = take_last MAX_RETAINED_INSTALL_LINES (run_lines ls acts)"
  by (induction ls acts arbitrary: u rule: run_lines.induct)
    (simp_all add: flow_defs take_last_append_take_last)

lemma failure_has_a_reason:
  "list_all typed_action acts \<Longrightarrow> uf_step u = StepFailed \<longrightarrow> uf_reason u \<noteq> None \<Longrightarrow>
     uf_step (foldl flow_act u acts) = StepFailed \<longrightarrow> uf_reason (foldl flow_act u acts) \<noteq> None"
proof (induction acts arbitrary: u)
  case (Cons act acts)
  show ?case unfolding foldl_Cons
    by (rule Cons.IH) (use Cons.prems in \<open>cases act; simp add: flow_defs\<close>)+
qed simp

lemma settled_steps:
  "isUpdateInFlight step \<longleftrightarrow> step \<noteq> StepIdle \<and> step \<noteq> StepDone \<and> step \<noteq> StepFailed"
  by (cases step) (simp_all add: isUpdateInFlight_def UPDATE_IN_FLIGHT_STEPS_def)

text \<open>
  C25. Whatever the sequence of well-typed actions, the log the store retains is the newest 200
  lines appended since the current run began, a failed update always carries its reason, and
  a step that is not in flight is idle, done, or failed with a reason.
\<close>
theorem update_run_is_accounted_for:
  assumes "list_all typed_action acts"
  shows "uf_lines (foldl flow_act initialState acts) = take_last 200 (run_lines [] acts)
     \<and> length (uf_lines (foldl flow_act initialState acts)) \<le> 200
     \<and> (isUpdateInFlight (uf_step (foldl flow_act initialState acts))
        \<or> uf_step (foldl flow_act initialState acts) \<in> {StepIdle, StepDone}
        \<or> (uf_step (foldl flow_act initialState acts) = StepFailed
           \<and> uf_reason (foldl flow_act initialState acts) \<noteq> None))"
proof -
  have lines: "uf_lines (foldl flow_act initialState acts) = take_last 200 (run_lines [] acts)"
    using retained_lines [of initialState "[]" acts]
    by (simp add: initialState_def MAX_RETAINED_INSTALL_LINES_def)
  have "uf_step (foldl flow_act initialState acts) = StepFailed \<longrightarrow>
      uf_reason (foldl flow_act initialState acts) \<noteq> None"
    by (rule failure_has_a_reason [OF assms]) (simp add: initialState_def)
  with lines length_take_last_le [of 200] show ?thesis
    by (auto simp: settled_steps)
qed

theorem update_run_is_accounted_for_witness:
  "uf_lines (foldl flow_act initialState
      [AppendLine ''old'', Start UpdateBoth None, SetStep StepInstalling, AppendLine ''a'', AppendLine ''b'',
       Fail ''disk full'']) = [''a'', ''b'']"
  using update_run_is_accounted_for [of "[AppendLine ''old'', Start UpdateBoth None, SetStep StepInstalling,
      AppendLine ''a'', AppendLine ''b'', Fail ''disk full'']"]
  by simp

section \<open>The marker survives the restart\<close>

lemma marker_of_json: "marker_of (marker_json m) = Some m"
  by (cases m; cases "pm_action m")
    (auto simp: marker_of_def marker_json_def action_of_def action_name_def obj_get_def split: option.splits)

text \<open>
  A marker that could be written is read back as it was after the restart, replaces an older
  one and leaves every other item of the storage alone; clearing it ends the recovery. Where
  the storage refuses the write the update is told so and the storage is not changed.
\<close>
lemma marker_survives_restart:
  assumes "st_readable st"
  shows "case writePendingUpdateMarker m st of
       Inr st' \<Rightarrow> readPendingUpdateMarker st' = Some m
          \<and> (\<forall>k. k \<noteq> PENDING_UPDATE_MARKER_KEY \<longrightarrow> obj_get (st_items st') k = obj_get (st_items st) k)
          \<and> readPendingUpdateMarker (clearPendingUpdateMarker st') = None
     | Inl err \<Rightarrow> \<not> st_writable st \<and> (\<exists>msg. err = PlainError msg)"
  using assms
  by (auto simp: writePendingUpdateMarker_def readPendingUpdateMarker_def clearPendingUpdateMarker_def
      obj_get_put obj_get_del marker_of_json)

end
