(* ===== verification/Cursor_Pages.thy ===== *)
theory Cursor_Pages
  imports Clio_Prelude
begin

text \<open>
  \<open>packages/core/src/v3/transport.ts\<close>: reading every page of a paged projection. The reader
  is an argument: what the n-th read answers for a cursor, or the error it is rejected with.
  The loop ends only if the server stops naming new cursors, so the reading is a partial
  function: \<open>None\<close> is a loop that never ends.
\<close>

record 'a cursor_page =
  pg_items :: "'a list"
  pg_cursor :: "string option"
  pg_total :: "int option"
  pg_revision :: int

type_synonym 'a page_reader = "nat \<Rightarrow> string option \<Rightarrow> 'a cursor_page result"

partial_function (option) read_pages ::
  "'a page_reader \<Rightarrow> nat \<Rightarrow> string list \<Rightarrow> 'a list \<Rightarrow> string option \<Rightarrow> 'a list result option" where
  "read_pages read n seen items cursor = (case read n cursor of
       Inl err \<Rightarrow> Some (Inl err)
     | Inr page \<Rightarrow>
         (let items = items @ pg_items page
          in case pg_cursor page of
               None \<Rightarrow> Some (Inr items)
             | Some c \<Rightarrow>
                 if c = [] then Some (Inr items)
                 else if c \<in> set seen then Some (Inl (PlainError ''The response pagination cursor did not advance''))
                 else read_pages read (Suc n) (c # seen) items (Some c)))"

definition readCursorPages :: "'a page_reader \<Rightarrow> 'a list result option" where
  "readCursorPages read = read_pages read 0 [] [] None"

section \<open>The pages a reading went through\<close>

text \<open>
  The pages from one cursor to the last page: each is the answer to the cursor the page
  before it named, no cursor is named twice, and only the last page names none.
\<close>

fun page_chain :: "'a page_reader \<Rightarrow> nat \<Rightarrow> string list \<Rightarrow> string option \<Rightarrow> 'a cursor_page list \<Rightarrow> bool" where
  "page_chain read n seen cursor [] \<longleftrightarrow> False"
| "page_chain read n seen cursor (page # pages) \<longleftrightarrow> read n cursor = Inr page
     \<and> (case pg_cursor page of
          Some c \<Rightarrow> if c = [] then pages = []
                    else c \<notin> set seen \<and> page_chain read (Suc n) (c # seen) (Some c) pages
        | None \<Rightarrow> pages = [])"

lemma read_pages_chain:
  "page_chain read n seen cursor pages \<Longrightarrow>
     read_pages read n seen items cursor = Some (Inr (items @ concat (map pg_items pages)))"
proof (induction pages arbitrary: n seen cursor items)
  case (Cons page pages)
  then show ?case
    by (subst read_pages.simps) (auto simp: Let_def split: option.splits if_splits)
qed simp

text \<open>A reading that names only cursors of a finite set ends, and how it can end.\<close>

lemma read_pages_returns:
  assumes "finite C" "\<And>n c page d. read n c = Inr page \<Longrightarrow> pg_cursor page = Some d \<Longrightarrow> d \<noteq> [] \<Longrightarrow> d \<in> C"
  shows "\<exists>r. read_pages read n seen items cursor = Some r
     \<and> (\<forall>out. r = Inr out \<longrightarrow> (\<exists>pages. page_chain read n seen cursor pages
          \<and> length pages \<le> Suc (card (C - set seen)) \<and> out = items @ concat (map pg_items pages)))"
  using assms(1)
proof (induction "card (C - set seen)" arbitrary: n seen items cursor rule: less_induct)
  case less
  show ?case
  proof (cases "\<exists>page c. read n cursor = Inr page \<and> pg_cursor page = Some c \<and> c \<noteq> [] \<and> c \<notin> set seen")
    case True
    then obtain page c where page: "read n cursor = Inr page" "pg_cursor page = Some c" "c \<noteq> []" "c \<notin> set seen"
      by blast
    with assms(2) have "c \<in> C - set seen" by blast
    then have smaller: "card (C - set (c # seen)) < card (C - set seen)"
      using less.prems by (intro psubset_card_mono) auto
    from less.hyps [OF this less.prems, of "Suc n" "items @ pg_items page" "Some c"]
    obtain r where r: "read_pages read (Suc n) (c # seen) (items @ pg_items page) (Some c) = Some r"
      "\<And>out. r = Inr out \<Longrightarrow> \<exists>pages. page_chain read (Suc n) (c # seen) (Some c) pages
         \<and> length pages \<le> Suc (card (C - set (c # seen)))
         \<and> out = (items @ pg_items page) @ concat (map pg_items pages)"
      by blast
    have "read_pages read n seen items cursor = Some r"
      using page r(1) by (subst read_pages.simps) (simp add: Let_def)
    moreover have "\<exists>pages. page_chain read n seen cursor pages
        \<and> length pages \<le> Suc (card (C - set seen)) \<and> out = items @ concat (map pg_items pages)"
      if "r = Inr out" for out
    proof -
      from r(2) [OF that] obtain pages where "page_chain read (Suc n) (c # seen) (Some c) pages"
        "length pages \<le> Suc (card (C - set (c # seen)))"
        "out = (items @ pg_items page) @ concat (map pg_items pages)" by blast
      with page smaller show ?thesis by (intro exI [of _ "page # pages"]) auto
    qed
    ultimately show ?thesis by blast
  next
    case False
    then show ?thesis
      by (subst read_pages.simps)
        (auto simp: Let_def split: sum.splits option.splits if_splits intro!: exI [of _ "[_]"])
  qed
qed

text \<open>
  C26. A reading whose server names cursors from a finite set always returns, after at most one
  page more than there are cursors. When it succeeds, the items are those of all the pages in
  order, each page the answer to the cursor the page before it named, none of them read
  twice, up to the page that names no further one; and whenever there is such a sequence of
  pages the reading succeeds with it.
\<close>
theorem cursor_pages_are_read_to_the_last:
  assumes "finite C"
    and "\<forall>n c page d. read n c = Inr page \<and> pg_cursor page = Some d \<and> d \<noteq> [] \<longrightarrow> d \<in> C"
  shows "\<exists>r. readCursorPages read = Some r
     \<and> (\<forall>items. r = Inr items \<longrightarrow> (\<exists>pages. page_chain read 0 [] None pages
          \<and> length pages \<le> Suc (card C) \<and> items = concat (map pg_items pages)))
     \<and> (\<forall>pages. page_chain read 0 [] None pages \<longrightarrow> r = Inr (concat (map pg_items pages)))"
  using read_pages_returns [of C read 0 "[]" "[]" None] assms read_pages_chain [of read 0 "[]" None _ "[]"]
  unfolding readCursorPages_def by fastforce

definition ex_reader :: "nat page_reader" where
  "ex_reader n c = (if c = None then Inr \<lparr>pg_items = [1, 2], pg_cursor = Some ''next'', pg_total = Some 3, pg_revision = 1\<rparr>
     else Inr \<lparr>pg_items = [3], pg_cursor = None, pg_total = Some 3, pg_revision = 1\<rparr>)"

theorem cursor_pages_are_read_to_the_last_witness:
  "readCursorPages ex_reader = Some (Inr [1, 2, 3])"
proof -
  let ?p1 = "\<lparr>pg_items = [1, 2], pg_cursor = Some ''next'', pg_total = Some 3, pg_revision = 1\<rparr>"
  let ?p2 = "\<lparr>pg_items = [3], pg_cursor = None, pg_total = Some 3, pg_revision = 1\<rparr>"
  have "page_chain ex_reader 0 [] None [?p1, ?p2]" by (simp add: ex_reader_def)
  with cursor_pages_are_read_to_the_last [of "{''next''}" ex_reader] show ?thesis
    by (fastforce simp: ex_reader_def split: if_splits)
qed

end
