(* ===== verification/Session_Cache.thy ===== *)
theory Session_Cache
  imports Domain
begin

text \<open>
  \<open>web/src/lib/session-cache-retention.ts\<close>: which sessions' cached reads stay in memory. The
  size estimate of cached data, the recently left sessions, and the pruning by idle time,
  count and byte budget.

  The query cache of the package \<open>@tanstack/react-query\<close> is the list of its queries; a query
  is its key, whether a component observes it, its data and whether its meta data calls it
  supplementary. The first two parts of a key are strings. Cached data lives on a heap, so
  that an object reached twice is one object. The clock does not move during one call. The
  memo table of sizes is left out: data in the cache is not mutated, so the size stored for
  an object is the size computed again.
\<close>

section \<open>The size estimate\<close>

datatype cell = CStr string | CPrim | CRef nat

type_synonym data_heap = "(nat \<times> (string \<times> cell) list) list"

text \<open>The loop over the keys of one object; \<open>None\<close> where it returns \<open>ceiling + 1\<close>.\<close>

fun push_keys :: "rat \<Rightarrow> nat \<Rightarrow> (string \<times> cell) list \<Rightarrow> rat \<Rightarrow> cell list \<Rightarrow> (rat \<times> cell list) option" where
  "push_keys cap visits [] bytes pending = Some (bytes, pending)"
| "push_keys cap visits ((key, c) # ps) bytes pending =
     (let bytes = bytes + of_nat (length key) * 2 + 8
      in if bytes > cap \<or> length pending + visits \<ge> 100000 then None
         else push_keys cap visits ps bytes (c # pending))"

function size_loop :: "rat \<Rightarrow> data_heap \<Rightarrow> cell list \<Rightarrow> nat list \<Rightarrow> rat \<Rightarrow> nat \<Rightarrow> rat" where
  "size_loop cap heap pending seen bytes visits =
     (case pending of
        [] \<Rightarrow> bytes
      | item # rest \<Rightarrow>
          if bytes \<le> cap \<and> visits < 100000
          then (case item of
                  CStr s \<Rightarrow> size_loop cap heap rest seen (bytes + of_nat (length s) * 2) (Suc visits)
                | CPrim \<Rightarrow> size_loop cap heap rest seen (bytes + 8) (Suc visits)
                | CRef r \<Rightarrow>
                    if r \<in> set seen then size_loop cap heap rest seen (bytes + 8) (Suc visits)
                    else (case push_keys cap (Suc visits) (coalesce (map_of heap r) []) (bytes + 32) rest of
                            None \<Rightarrow> cap + 1
                          | Some (b, p) \<Rightarrow> size_loop cap heap p (r # seen) b (Suc visits)))
          else cap + 1)"
  by pat_completeness auto
termination
  by (relation "measure (\<lambda>(_, _, _, _, _, visits). 100000 - visits)") auto

declare size_loop.simps [simp del]

definition sessionDataBytes :: "data_heap \<Rightarrow> cell \<Rightarrow> rat \<Rightarrow> rat" where
  "sessionDataBytes heap v cap = size_loop cap heap [v] [] 0 0"

section \<open>State\<close>

record session_cache_policy =
  pol_idleMs :: rat
  pol_maxRecent :: int
  pol_maxBytes :: rat

record query_key =
  qk_namespace :: string
  qk_scope :: string
  qk_id :: js_value
  qk_rest :: "js_value list"

record cached_query =
  cq_key :: query_key
  cq_observed :: bool
  cq_data :: cell
  cq_supplementary :: bool

text \<open>The timer is the delay it was set with; the calls of \<open>dropProjection\<close> are kept in order.\<close>

record retainer =
  rt_active :: string
  rt_recent :: "(string \<times> rat) list"
  rt_timer :: "rat option"
  rt_subscribed :: bool
  rt_queries :: "cached_query list"
  rt_dropped :: "string list"

definition SESSION_READS :: "string list" where
  "SESSION_READS = [''transcript'', ''session-artifacts'', ''session-context'', ''session-observability'',
     ''execution-provenance'', ''session-agent'', ''variant-runs'', ''task-flow'', ''response-feedback'']"

definition sessionOf :: "string list \<Rightarrow> query_key \<Rightarrow> string option" where
  "sessionOf scopes k =
     (if qk_namespace k \<in> set SESSION_READS \<and> qk_scope k \<in> set scopes
      then (case qk_id k of JStr s \<Rightarrow> Some s | _ \<Rightarrow> None) else None)"

section \<open>Operations\<close>

definition schedule :: "session_cache_policy \<Rightarrow> rat \<Rightarrow> bool \<Rightarrow> retainer \<Rightarrow> retainer" where
  "schedule pol now immediate rt = rt\<lparr>rt_timer :=
     (if rt_recent rt = [] then None
      else let next = Min (set (map snd (rt_recent rt))) + pol_idleMs pol - now
           in Some (if immediate then 0 else min 2147483647 (max 1000 next)))\<rparr>"

definition visit :: "session_cache_policy \<Rightarrow> rat \<Rightarrow> string \<Rightarrow> retainer \<Rightarrow> retainer" where
  "visit pol now sid rt =
     (let recent = (if rt_active rt \<noteq> [] \<and> rt_active rt \<noteq> sid
                    then map_set (rt_recent rt) (rt_active rt) now else rt_recent rt)
      in schedule pol now True (rt\<lparr>rt_active := sid, rt_recent := map_delete recent sid\<rparr>))"

definition leave :: "session_cache_policy \<Rightarrow> rat \<Rightarrow> string \<Rightarrow> retainer \<Rightarrow> retainer" where
  "leave pol now sid rt =
     (if rt_active rt \<noteq> sid then rt
      else schedule pol now True (rt\<lparr>rt_active := [], rt_recent := map_set (rt_recent rt) sid now\<rparr>))"

text \<open>The subscription to the query cache.\<close>

datatype query_event = QuerySucceeded | ObserverRemoved | OtherEvent

definition on_query_event :: "session_cache_policy \<Rightarrow> string list \<Rightarrow> rat \<Rightarrow> query_event \<Rightarrow> query_key \<Rightarrow>
    retainer \<Rightarrow> retainer" where
  "on_query_event pol scopes now event k rt = (case sessionOf scopes k of
       None \<Rightarrow> rt
     | Some sid \<Rightarrow>
         if \<not> rt_subscribed rt \<or> sid = [] \<or> sid = rt_active rt then rt
         else (case event of
                 QuerySucceeded \<Rightarrow>
                   schedule pol now True
                     (if map_of (rt_recent rt) sid \<noteq> None then rt
                      else rt\<lparr>rt_recent := map_set (rt_recent rt) sid now\<rparr>)
               | ObserverRemoved \<Rightarrow>
                   schedule pol now True (rt\<lparr>rt_recent := map_set (rt_recent rt) sid now\<rparr>)
               | OtherEvent \<Rightarrow> rt))"

definition dispose :: "retainer \<Rightarrow> retainer" where
  "dispose rt = rt\<lparr>rt_timer := None, rt_subscribed := False\<rparr>"

definition removeQueries :: "query_key \<Rightarrow> cached_query list \<Rightarrow> cached_query list" where
  "removeQueries k qs = filter (\<lambda>q. cq_key q \<noteq> k) qs"

definition query_bytes :: "session_cache_policy \<Rightarrow> data_heap \<Rightarrow> cached_query \<Rightarrow> rat" where
  "query_bytes pol heap q = sessionDataBytes heap (cq_data q) (pol_maxBytes pol)"

definition descending :: "('a \<Rightarrow> rat) \<Rightarrow> 'a \<Rightarrow> 'a \<Rightarrow> int" where
  "descending f a b = (if f b < f a then -1 else if f a < f b then 1 else 0)"

text \<open>Optional heavy views go first while the session does not fit.\<close>

fun evict_supplementary :: "rat \<Rightarrow> rat \<Rightarrow> rat \<Rightarrow> (cached_query \<times> rat) list \<Rightarrow> cached_query list \<Rightarrow>
    rat \<times> cached_query list" where
  "evict_supplementary maxBytes bytes amount [] qs = (amount, qs)"
| "evict_supplementary maxBytes bytes amount ((q, b) # es) qs =
     (if bytes + amount \<le> maxBytes then (amount, qs)
      else evict_supplementary maxBytes bytes (amount - b) es (removeQueries (cq_key q) qs))"

definition owned :: "string list \<Rightarrow> string \<Rightarrow> cached_query list \<Rightarrow> cached_query list" where
  "owned scopes sid qs = filter (\<lambda>q. sessionOf scopes (cq_key q) = Some sid) qs"

text \<open>An open child canvas keeps its session as if it were the active one.\<close>

definition pinned :: "string list \<Rightarrow> cached_query list \<Rightarrow> string \<Rightarrow> bool" where
  "pinned scopes qs sid \<longleftrightarrow> list_ex (\<lambda>q. cq_observed q \<and> qk_namespace (cq_key q) \<in>
     set [''transcript'', ''task-flow'', ''session-context'', ''session-observability'']) (owned scopes sid qs)"

definition unused :: "string list \<Rightarrow> string \<Rightarrow> cached_query list \<Rightarrow> cached_query list" where
  "unused scopes sid qs = filter (\<lambda>q. \<not> cq_observed q) (owned scopes sid qs)"

record prune_state =
  pr_rt :: retainer
  pr_count :: int
  pr_bytes :: rat

text \<open>
  The size of a session's unobserved queries, and the cache once optional views of a session
  that could stay made room for it.
\<close>

definition make_room :: "session_cache_policy \<Rightarrow> data_heap \<Rightarrow> rat \<Rightarrow> rat \<Rightarrow> cached_query list \<Rightarrow> prune_state \<Rightarrow>
    rat \<times> cached_query list" where
  "make_room pol heap now leftAt un st =
     (let amount = sum_list (map (query_bytes pol heap) un);
          supplementary = map (\<lambda>q. (q, query_bytes pol heap q)) (filter cq_supplementary un)
      in if now - leftAt < pol_idleMs pol \<and> pr_count st < pol_maxRecent pol
         then evict_supplementary (pol_maxBytes pol) (pr_bytes st) amount
                (js_sort (descending snd) supplementary) (rt_queries (pr_rt st))
         else (amount, rt_queries (pr_rt st)))"

definition prune_step :: "session_cache_policy \<Rightarrow> string list \<Rightarrow> data_heap \<Rightarrow> rat \<Rightarrow> cached_query list \<Rightarrow>
    prune_state \<Rightarrow> string \<times> rat \<Rightarrow> prune_state" where
  "prune_step pol scopes heap now queries st = (\<lambda>(sid, leftAt).
     let rt = pr_rt st in
     if sid = rt_active rt then st
     else if pinned scopes queries sid
     then st\<lparr>pr_rt := rt\<lparr>rt_recent := map_set (rt_recent rt) sid now\<rparr>\<rparr>
     else
       let un = unused scopes sid queries;
           (amount, qs) = make_room pol heap now leftAt un st
       in if now - leftAt \<ge> pol_idleMs pol \<or> pr_count st \<ge> pol_maxRecent pol
             \<or> pr_bytes st + amount > pol_maxBytes pol
          then st\<lparr>pr_rt := rt\<lparr>rt_queries := foldl (\<lambda>qs q. removeQueries (cq_key q) qs) qs un,
                               rt_recent := map_delete (rt_recent rt) sid,
                               rt_dropped := rt_dropped rt @ [sid]\<rparr>\<rparr>
          else \<lparr>pr_rt = rt\<lparr>rt_queries := qs\<rparr>, pr_count = pr_count st + 1, pr_bytes = pr_bytes st + amount\<rparr>)"

definition prune :: "session_cache_policy \<Rightarrow> string list \<Rightarrow> data_heap \<Rightarrow> rat \<Rightarrow> retainer \<Rightarrow> retainer" where
  "prune pol scopes heap now rt =
     schedule pol now False
       (pr_rt (foldl (prune_step pol scopes heap now (rt_queries rt))
                 \<lparr>pr_rt = rt, pr_count = 0, pr_bytes = 0\<rparr>
                 (js_sort (descending snd) (rt_recent rt))))"

section \<open>Removing queries of one session\<close>

definition session_bytes :: "session_cache_policy \<Rightarrow> data_heap \<Rightarrow> string list \<Rightarrow> cached_query list \<Rightarrow> string \<Rightarrow> rat" where
  "session_bytes pol heap scopes qs sid = sum_list (map (query_bytes pol heap) (unused scopes sid qs))"

text \<open>Only unobserved queries of session \<open>sid\<close> went.\<close>

definition pruned :: "string list \<Rightarrow> string \<Rightarrow> cached_query list \<Rightarrow> cached_query list \<Rightarrow> bool" where
  "pruned scopes sid qs qs' \<longleftrightarrow>
     (\<exists>ks \<subseteq> cq_key ` set (unused scopes sid qs). qs' = filter (\<lambda>q. cq_key q \<notin> ks) qs)"

lemma pruned_refl [simp]: "pruned scopes sid qs qs"
  unfolding pruned_def by (intro exI [of _ "{}"]) simp

lemma unused_filter: "unused scopes sid (filter P qs) = filter P (unused scopes sid qs)"
  by (simp add: unused_def owned_def conj_ac)

lemma pruned_trans: "pruned scopes sid qs qs1 \<Longrightarrow> pruned scopes sid qs1 qs2 \<Longrightarrow> pruned scopes sid qs qs2"
proof -
  assume "pruned scopes sid qs qs1" "pruned scopes sid qs1 qs2"
  then obtain k1 k2 where k: "k1 \<subseteq> cq_key ` set (unused scopes sid qs)" "qs1 = filter (\<lambda>q. cq_key q \<notin> k1) qs"
    "k2 \<subseteq> cq_key ` set (unused scopes sid qs1)" "qs2 = filter (\<lambda>q. cq_key q \<notin> k2) qs1"
    by (auto simp: pruned_def)
  then have "k1 \<union> k2 \<subseteq> cq_key ` set (unused scopes sid qs)" by (auto simp: unused_filter)
  with k show ?thesis
    unfolding pruned_def by (intro exI [of _ "k1 \<union> k2"]) (auto simp: conj_ac intro!: filter_cong)
qed

lemma pruned_remove:
  "q \<in> set (unused scopes sid qs) \<Longrightarrow> pruned scopes sid qs (removeQueries (cq_key q) qs)"
  unfolding pruned_def removeQueries_def by (intro exI [of _ "{cq_key q}"]) auto

lemma distinct_pruned:
  "pruned scopes sid qs qs' \<Longrightarrow> distinct (map cq_key qs) \<Longrightarrow> distinct (map cq_key qs')"
  by (auto simp: pruned_def distinct_map_filter)

lemma pruned_subset: "pruned scopes sid qs qs' \<Longrightarrow> set qs' \<subseteq> set qs"
  by (auto simp: pruned_def)

lemma pruned_keeps:
  assumes "pruned scopes sid qs qs'" "distinct (map cq_key qs)" "q \<in> set qs"
    and "cq_observed q \<or> sessionOf scopes (cq_key q) \<noteq> Some sid"
  shows "q \<in> set qs'"
proof -
  from assms(1) obtain ks where ks: "ks \<subseteq> cq_key ` set (unused scopes sid qs)"
    "qs' = filter (\<lambda>q. cq_key q \<notin> ks) qs" by (auto simp: pruned_def)
  have "cq_key q \<notin> ks"
  proof
    assume "cq_key q \<in> ks"
    with ks(1) obtain q' where q': "q' \<in> set (unused scopes sid qs)" "cq_key q = cq_key q'" by blast
    then have "q' \<in> set qs" by (simp add: unused_def owned_def)
    from distinct_map_inj [OF assms(2,3) this q'(2)] q'(1) assms(4) show False
      by (simp add: unused_def owned_def)
  qed
  with ks(2) assms(3) show ?thesis by simp
qed

lemma owned_pruned:
  "pruned scopes sid qs qs' \<Longrightarrow> s \<noteq> sid \<Longrightarrow> owned scopes s qs' = owned scopes s qs"
proof -
  assume "pruned scopes sid qs qs'" and s: "s \<noteq> sid"
  then obtain ks where ks: "ks \<subseteq> cq_key ` set (unused scopes sid qs)"
    "qs' = filter (\<lambda>q. cq_key q \<notin> ks) qs" by (auto simp: pruned_def)
  from ks(1) s have "cq_key q \<notin> ks" if "sessionOf scopes (cq_key q) = Some s" for q
    using that by (auto simp: unused_def owned_def)
  with ks(2) show ?thesis by (auto simp: owned_def intro!: filter_cong)
qed

lemma foldl_removeQueries:
  "foldl (\<lambda>qs q. removeQueries (cq_key q) qs) qs un = filter (\<lambda>q. cq_key q \<notin> cq_key ` set un) qs"
  by (induction un arbitrary: qs) (auto simp: removeQueries_def conj_ac intro!: filter_cong)

lemma session_bytes_remove:
  assumes "distinct (map cq_key qs)" "q \<in> set (unused scopes sid qs)"
  shows "session_bytes pol heap scopes (removeQueries (cq_key q) qs) sid
       = session_bytes pol heap scopes qs sid - query_bytes pol heap q"
proof -
  have sum: "sum_list (map f (filter (\<lambda>q'. cq_key q' \<noteq> cq_key q) xs)) = sum_list (map f xs) - f q"
    if "distinct (map cq_key xs)" "q \<in> set xs" for xs and f :: "cached_query \<Rightarrow> rat"
    using that
  proof (induction xs)
    case (Cons x xs)
    show ?case
    proof (cases "x = q")
      case True
      with Cons.prems(1) have "filter (\<lambda>q'. cq_key q' \<noteq> cq_key q) xs = xs"
        by (intro filter_True) (auto simp: image_iff)
      with True show ?thesis by simp
    next
      case False
      with Cons.prems have "cq_key x \<noteq> cq_key q" "q \<in> set xs" by auto
      with Cons show ?thesis by simp
    qed
  qed simp
  have "distinct (map cq_key (unused scopes sid qs))"
    using assms(1) by (simp add: unused_def owned_def distinct_map_filter)
  from sum [OF this assms(2)] show ?thesis
    by (simp add: session_bytes_def removeQueries_def unused_filter)
qed

lemma unused_removeQueries:
  "set (unused scopes sid (removeQueries k qs)) = {q \<in> set (unused scopes sid qs). cq_key q \<noteq> k}"
  by (auto simp: removeQueries_def unused_filter)

lemma evict_supplementary:
  assumes "evict_supplementary maxBytes bytes amount es qs = (amount', qs')"
    and "distinct (map cq_key qs)" "distinct (map (\<lambda>e. cq_key (fst e)) es)"
    and "\<forall>(q, b)\<in>set es. q \<in> set (unused scopes sid qs) \<and> b = query_bytes pol heap q"
    and "amount = session_bytes pol heap scopes qs sid"
  shows "pruned scopes sid qs qs' \<and> amount' = session_bytes pol heap scopes qs' sid"
  using assms
proof (induction maxBytes bytes amount es qs rule: evict_supplementary.induct)
  case (2 maxBytes bytes amount q b es qs)
  show ?case
  proof (cases "bytes + amount \<le> maxBytes")
    case False
    let ?qs = "removeQueries (cq_key q) qs"
    from 2(5) have q: "q \<in> set (unused scopes sid qs)" "b = query_bytes pol heap q" by auto
    have "pruned scopes sid ?qs qs' \<and> amount' = session_bytes pol heap scopes qs' sid"
    proof (rule 2(1) [OF False])
      show "evict_supplementary maxBytes bytes (amount - b) es ?qs = (amount', qs')" using 2(2) False by simp
      show "distinct (map cq_key ?qs)" using 2(3) by (simp add: removeQueries_def distinct_map_filter)
      show "distinct (map (\<lambda>e. cq_key (fst e)) es)" using 2(4) by simp
      show "\<forall>(q', b')\<in>set es. q' \<in> set (unused scopes sid ?qs) \<and> b' = query_bytes pol heap q'"
        using 2(4,5) by (force simp: unused_removeQueries)
      show "amount - b = session_bytes pol heap scopes ?qs sid"
        using 2(6) session_bytes_remove [OF 2(3) q(1)] q(2) by simp
    qed
    with pruned_trans [OF pruned_remove [OF q(1)]] show ?thesis by blast
  qed (use 2 in auto)
qed auto

section \<open>The invariant of the pruning loop\<close>

text \<open>
  What pruning must not take: an observed query, one of the active session or of a session
  shown in a canvas, and one of no session.
\<close>

definition on_screen :: "string list \<Rightarrow> retainer \<Rightarrow> cached_query \<Rightarrow> bool" where
  "on_screen scopes rt q \<longleftrightarrow> cq_observed q \<or> (case sessionOf scopes (cq_key q) of
     None \<Rightarrow> True | Some s \<Rightarrow> s = rt_active rt \<or> pinned scopes (rt_queries rt) s)"

definition retained :: "string list \<Rightarrow> retainer \<Rightarrow> string list \<Rightarrow> retainer \<Rightarrow> string list" where
  "retained scopes rt0 visited rt = filter (\<lambda>s. s \<noteq> rt_active rt0 \<and> \<not> pinned scopes (rt_queries rt0) s
     \<and> map_of (rt_recent rt) s \<noteq> None) visited"

definition prune_inv :: "session_cache_policy \<Rightarrow> string list \<Rightarrow> data_heap \<Rightarrow> rat \<Rightarrow> retainer \<Rightarrow> string list \<Rightarrow>
    prune_state \<Rightarrow> bool" where
  "prune_inv pol scopes heap now rt0 visited st \<longleftrightarrow>
     (let rt = pr_rt st; qs = rt_queries rt; K = retained scopes rt0 visited rt
      in rt_active rt = rt_active rt0 \<and> distinct (map cq_key qs) \<and> set qs \<subseteq> set (rt_queries rt0)
       \<and> (\<forall>s. s \<notin> set visited \<longrightarrow> owned scopes s qs = owned scopes s (rt_queries rt0)
            \<and> map_of (rt_recent rt) s = map_of (rt_recent rt0) s)
       \<and> (\<forall>q\<in>set (rt_queries rt0). on_screen scopes rt0 q \<longrightarrow> q \<in> set qs)
       \<and> pr_count st = int (length K) \<and> pr_bytes st = sum_list (map (session_bytes pol heap scopes qs) K)
       \<and> pr_count st \<le> pol_maxRecent pol \<and> pr_bytes st \<le> pol_maxBytes pol
       \<and> (\<forall>s\<in>set K. \<exists>t. map_of (rt_recent rt) s = Some t \<and> now - t < pol_idleMs pol)
       \<and> (\<forall>s\<in>set visited. map_of (rt_recent rt) s = None \<longrightarrow> unused scopes s qs = [] \<and> s \<in> set (rt_dropped rt)))"

text \<open>What one turn of the loop may do with a session it has not seen.\<close>

definition turn_outcome :: "session_cache_policy \<Rightarrow> string list \<Rightarrow> data_heap \<Rightarrow> rat \<Rightarrow> retainer \<Rightarrow> string \<Rightarrow>
    prune_state \<Rightarrow> prune_state \<Rightarrow> bool" where
  "turn_outcome pol scopes heap now rt0 sid st st' \<longleftrightarrow>
     (let free = (sid \<noteq> rt_active rt0 \<and> \<not> pinned scopes (rt_queries rt0) sid); recent = map_of (rt_recent (pr_rt st')) sid
      in \<not> free \<and> rt_queries (pr_rt st') = rt_queries (pr_rt st) \<and> recent \<noteq> None
           \<and> pr_count st' = pr_count st \<and> pr_bytes st' = pr_bytes st
       \<or> free \<and> recent = None \<and> unused scopes sid (rt_queries (pr_rt st')) = []
           \<and> sid \<in> set (rt_dropped (pr_rt st')) \<and> pr_count st' = pr_count st \<and> pr_bytes st' = pr_bytes st
       \<or> free \<and> (\<exists>t. recent = Some t \<and> now - t < pol_idleMs pol) \<and> pr_count st' = pr_count st + 1
           \<and> pr_bytes st' = pr_bytes st + session_bytes pol heap scopes (rt_queries (pr_rt st')) sid
           \<and> pr_count st' \<le> pol_maxRecent pol \<and> pr_bytes st' \<le> pol_maxBytes pol)"

lemma retained_snoc:
  assumes "sid \<notin> set visited" "\<forall>s. s \<noteq> sid \<longrightarrow> map_of (rt_recent rt') s = map_of (rt_recent rt) s"
  shows "retained scopes rt0 (visited @ [sid]) rt' = retained scopes rt0 visited rt @
     (if sid \<noteq> rt_active rt0 \<and> \<not> pinned scopes (rt_queries rt0) sid \<and> map_of (rt_recent rt') sid \<noteq> None
      then [sid] else [])"
  using assms by (auto simp: retained_def intro!: filter_cong)

lemma session_bytes_pruned:
  "pruned scopes sid qs qs' \<Longrightarrow> s \<noteq> sid \<Longrightarrow> session_bytes pol heap scopes qs' s = session_bytes pol heap scopes qs s"
  by (simp add: session_bytes_def unused_def owned_pruned)

lemma turn_keeps_on_screen:
  assumes "turn_outcome pol scopes heap now rt0 sid st st'"
    and "pruned scopes sid (rt_queries (pr_rt st)) (rt_queries (pr_rt st'))"
    and "distinct (map cq_key (rt_queries (pr_rt st)))"
    and "q \<in> set (rt_queries (pr_rt st))" "on_screen scopes rt0 q"
  shows "q \<in> set (rt_queries (pr_rt st'))"
proof (cases "sid \<noteq> rt_active rt0 \<and> \<not> pinned scopes (rt_queries rt0) sid")
  case True
  with assms(5) have "cq_observed q \<or> sessionOf scopes (cq_key q) \<noteq> Some sid"
    by (auto simp: on_screen_def)
  with pruned_keeps [OF assms(2,3,4)] show ?thesis by blast
next
  case False
  with assms(1) have "rt_queries (pr_rt st') = rt_queries (pr_rt st)" by (auto simp: turn_outcome_def Let_def)
  with assms(4) show ?thesis by simp
qed

lemma turn_drops_whole_sessions:
  assumes "turn_outcome pol scopes heap now rt0 sid st st'"
    and "pruned scopes sid (rt_queries (pr_rt st)) (rt_queries (pr_rt st'))"
    and "map_of (rt_recent (pr_rt st')) s = None"
    and "s \<noteq> sid \<Longrightarrow> unused scopes s (rt_queries (pr_rt st)) = [] \<and> s \<in> set (rt_dropped (pr_rt st'))"
  shows "unused scopes s (rt_queries (pr_rt st')) = [] \<and> s \<in> set (rt_dropped (pr_rt st'))"
proof (cases "s = sid")
  case True
  with assms(1,3) show ?thesis by (auto simp: turn_outcome_def Let_def)
next
  case False
  with assms(4) owned_pruned [OF assms(2) False] show ?thesis by (auto simp: unused_def)
qed

lemma turn_within_budget:
  assumes "turn_outcome pol scopes heap now rt0 sid st st'"
    and "pruned scopes sid (rt_queries (pr_rt st)) (rt_queries (pr_rt st'))"
    and "sid \<notin> set K" and bounds: "pr_count st = int (length K)"
      "pr_bytes st = sum_list (map (session_bytes pol heap scopes (rt_queries (pr_rt st))) K)"
      "pr_count st \<le> pol_maxRecent pol" "pr_bytes st \<le> pol_maxBytes pol"
    and K': "K' = K @ (if sid \<noteq> rt_active rt0 \<and> \<not> pinned scopes (rt_queries rt0) sid
                         \<and> map_of (rt_recent (pr_rt st')) sid \<noteq> None then [sid] else [])"
  shows "pr_count st' = int (length K')
     \<and> pr_bytes st' = sum_list (map (session_bytes pol heap scopes (rt_queries (pr_rt st'))) K')
     \<and> pr_count st' \<le> pol_maxRecent pol \<and> pr_bytes st' \<le> pol_maxBytes pol"
proof -
  have bytes: "map (session_bytes pol heap scopes (rt_queries (pr_rt st'))) K
      = map (session_bytes pol heap scopes (rt_queries (pr_rt st))) K"
    using session_bytes_pruned [OF assms(2)] assms(3) by (intro map_cong refl) metis
  from assms(1) bounds show ?thesis
    by (auto simp: turn_outcome_def Let_def K' bytes)
qed

lemma prune_inv_next:
  assumes inv: "prune_inv pol scopes heap now rt0 visited st" and new: "sid \<notin> set visited"
    and active: "rt_active (pr_rt st') = rt_active (pr_rt st)"
    and recent: "\<forall>s. s \<noteq> sid \<longrightarrow> map_of (rt_recent (pr_rt st')) s = map_of (rt_recent (pr_rt st)) s"
    and dropped: "set (rt_dropped (pr_rt st)) \<subseteq> set (rt_dropped (pr_rt st'))"
    and pruned: "pruned scopes sid (rt_queries (pr_rt st)) (rt_queries (pr_rt st'))"
    and turn: "turn_outcome pol scopes heap now rt0 sid st st'"
  shows "prune_inv pol scopes heap now rt0 (visited @ [sid]) st'"
proof -
  let ?qs' = "rt_queries (pr_rt st')"
  let ?K = "retained scopes rt0 visited (pr_rt st)" and ?K' = "retained scopes rt0 (visited @ [sid]) (pr_rt st')"
  note i = inv [unfolded prune_inv_def Let_def]
  note K' = retained_snoc [OF new recent, of scopes rt0]
  have fresh: "sid \<notin> set ?K" using new by (simp add: retained_def)
  have kept: "\<forall>q\<in>set (rt_queries rt0). on_screen scopes rt0 q \<longrightarrow> q \<in> set ?qs'"
    using i turn_keeps_on_screen [OF turn pruned] by blast
  have frame: "\<forall>s. s \<notin> set (visited @ [sid]) \<longrightarrow> owned scopes s ?qs' = owned scopes s (rt_queries rt0)
            \<and> map_of (rt_recent (pr_rt st')) s = map_of (rt_recent rt0) s"
    using i recent owned_pruned [OF pruned] by simp
  have budget: "pr_count st' = int (length ?K') \<and> pr_bytes st' = sum_list (map (session_bytes pol heap scopes ?qs') ?K')
       \<and> pr_count st' \<le> pol_maxRecent pol \<and> pr_bytes st' \<le> pol_maxBytes pol"
    by (rule turn_within_budget [OF turn pruned fresh _ _ _ _ K']) (use i in blast)+
  have new_idle: "\<exists>t. map_of (rt_recent (pr_rt st')) sid = Some t \<and> now - t < pol_idleMs pol" if "sid \<in> set ?K'"
    using that fresh turn by (auto simp: turn_outcome_def Let_def K' split: if_splits)
  have idle: "\<forall>s\<in>set ?K'. \<exists>t. map_of (rt_recent (pr_rt st')) s = Some t \<and> now - t < pol_idleMs pol"
  proof
    fix s
    assume s: "s \<in> set ?K'"
    then have "s = sid \<or> s \<in> set ?K" by (auto simp: K' split: if_splits)
    with i recent new_idle s fresh show "\<exists>t. map_of (rt_recent (pr_rt st')) s = Some t \<and> now - t < pol_idleMs pol"
      by metis
  qed
  have gone: "\<forall>s\<in>set (visited @ [sid]). map_of (rt_recent (pr_rt st')) s = None \<longrightarrow>
      unused scopes s ?qs' = [] \<and> s \<in> set (rt_dropped (pr_rt st'))"
    by (intro ballI impI turn_drops_whole_sessions [OF turn pruned]) (use i recent dropped in auto)
  show ?thesis unfolding prune_inv_def Let_def
    using i active distinct_pruned [OF pruned] pruned_subset [OF pruned] kept frame budget idle gone by auto
qed

lemma pruned_all: "pruned scopes sid qs qs1 \<Longrightarrow>
   pruned scopes sid qs (filter (\<lambda>q. cq_key q \<notin> cq_key ` set (unused scopes sid qs)) qs1)
   \<and> unused scopes sid (filter (\<lambda>q. cq_key q \<notin> cq_key ` set (unused scopes sid qs)) qs1) = []"
proof
  assume p: "pruned scopes sid qs qs1"
  let ?ks = "cq_key ` set (unused scopes sid qs)"
  from p obtain ks where ks: "ks \<subseteq> ?ks" "qs1 = filter (\<lambda>q. cq_key q \<notin> ks) qs" by (auto simp: pruned_def)
  then have "filter (\<lambda>q. cq_key q \<notin> ?ks) qs1 = filter (\<lambda>q. cq_key q \<notin> ?ks) qs"
    by (auto intro!: filter_cong)
  then show "pruned scopes sid qs (filter (\<lambda>q. cq_key q \<notin> ?ks) qs1)"
    unfolding pruned_def by blast
  from ks show "unused scopes sid (filter (\<lambda>q. cq_key q \<notin> ?ks) qs1) = []"
    by (auto simp: unused_filter filter_empty_conv)
qed

lemma make_room_pruned:
  assumes "make_room pol heap now leftAt un st = (amount, qs)"
    and dist: "distinct (map cq_key (rt_queries (pr_rt st)))"
    and un: "unused scopes sid (rt_queries (pr_rt st)) = un"
  shows "pruned scopes sid (rt_queries (pr_rt st)) qs \<and> amount = session_bytes pol heap scopes qs sid"
proof -
  let ?es = "js_sort (descending snd) (map (\<lambda>q. (q, query_bytes pol heap q)) (filter cq_supplementary un))"
  have "distinct (map cq_key un)"
    unfolding un [symmetric] using dist by (simp add: unused_def owned_def distinct_map_filter)
  then have es: "distinct (map (\<lambda>e. cq_key (fst e)) ?es)"
    by (simp add: distinct_js_sort comp_def distinct_map_filter)
  show ?thesis
  proof (cases "now - leftAt < pol_idleMs pol \<and> pr_count st < pol_maxRecent pol")
    case True
    with assms(1) have "evict_supplementary (pol_maxBytes pol) (pr_bytes st)
        (sum_list (map (query_bytes pol heap) un)) ?es (rt_queries (pr_rt st)) = (amount, qs)"
      by (simp add: make_room_def Let_def)
    then show ?thesis
      by (rule evict_supplementary [OF _ dist es]) (auto simp: un session_bytes_def)
  qed (use assms in \<open>auto simp: make_room_def Let_def session_bytes_def\<close>)
qed

lemma prune_step_inv:
  assumes inv: "prune_inv pol scopes heap now rt0 visited st" and new: "sid \<notin> set visited"
    and leftAt: "map_of (rt_recent rt0) sid = Some leftAt"
  shows "prune_inv pol scopes heap now rt0 (visited @ [sid])
     (prune_step pol scopes heap now (rt_queries rt0) st (sid, leftAt))"
proof -
  let ?rt = "pr_rt st"
  let ?qs = "rt_queries ?rt"
  let ?un = "unused scopes sid (rt_queries rt0)"
  note i = inv [unfolded prune_inv_def Let_def]
  from i new have active: "rt_active ?rt = rt_active rt0" and dist: "distinct (map cq_key ?qs)"
    and un: "unused scopes sid ?qs = ?un" and recent: "map_of (rt_recent ?rt) sid = Some leftAt"
    using leftAt by (auto simp: unused_def)
  show ?thesis
  proof (cases "sid = rt_active rt0 \<or> pinned scopes (rt_queries rt0) sid")
    case True
    let ?st = "if sid = rt_active rt0 then st else st\<lparr>pr_rt := ?rt\<lparr>rt_recent := map_set (rt_recent ?rt) sid now\<rparr>\<rparr>"
    have step: "prune_step pol scopes heap now (rt_queries rt0) st (sid, leftAt) = ?st"
      using True by (cases "sid = rt_active rt0") (simp_all add: prune_step_def active Let_def)
    show ?thesis unfolding step
      by (intro prune_inv_next [OF inv new]) (use True recent in \<open>auto simp: turn_outcome_def map_of_map_set\<close>)
  next
    case free: False
    obtain amount qs where fit: "make_room pol heap now leftAt ?un st = (amount, qs)"
      by (cases "make_room pol heap now leftAt ?un st")
    note p = make_room_pruned [OF fit dist un]
    let ?drop = "now - leftAt \<ge> pol_idleMs pol \<or> pr_count st \<ge> pol_maxRecent pol
       \<or> pr_bytes st + amount > pol_maxBytes pol"
    show ?thesis
    proof (cases ?drop)
      case True
      have step: "prune_step pol scopes heap now (rt_queries rt0) st (sid, leftAt) =
          st\<lparr>pr_rt := ?rt\<lparr>rt_queries := filter (\<lambda>q. cq_key q \<notin> cq_key ` set ?un) qs,
             rt_recent := map_delete (rt_recent ?rt) sid, rt_dropped := rt_dropped ?rt @ [sid]\<rparr>\<rparr>"
        using free True fit by (simp add: prune_step_def active Let_def foldl_removeQueries)
      show ?thesis unfolding step
        by (intro prune_inv_next [OF inv new])
          (use free pruned_all [of scopes sid ?qs qs] p un in \<open>auto simp: turn_outcome_def map_of_map_delete\<close>)
    next
      case False
      have step: "prune_step pol scopes heap now (rt_queries rt0) st (sid, leftAt) =
          \<lparr>pr_rt = ?rt\<lparr>rt_queries := qs\<rparr>, pr_count = pr_count st + 1, pr_bytes = pr_bytes st + amount\<rparr>"
        using free False fit by (simp add: prune_step_def active Let_def)
      show ?thesis unfolding step
        by (intro prune_inv_next [OF inv new]) (use free p recent False in \<open>auto simp: turn_outcome_def\<close>)
    qed
  qed
qed

lemma prune_loop_inv:
  assumes "distinct (map cq_key (rt_queries rt0))" "0 \<le> pol_maxRecent pol" "0 \<le> pol_maxBytes pol"
    and "distinct (map fst xs)" "\<forall>(sid, t)\<in>set xs. map_of (rt_recent rt0) sid = Some t"
  shows "prune_inv pol scopes heap now rt0 (map fst xs)
     (foldl (prune_step pol scopes heap now (rt_queries rt0)) \<lparr>pr_rt = rt0, pr_count = 0, pr_bytes = 0\<rparr> xs)"
  using assms(4,5)
proof (induction xs rule: rev_induct)
  case Nil
  show ?case using assms(1-3) by (simp add: prune_inv_def retained_def)
next
  case (snoc x xs)
  obtain sid t where x: "x = (sid, t)" by (cases x)
  with snoc show ?case
    using prune_step_inv [of pol scopes heap now rt0 "map fst xs" _ sid t] by auto
qed

text \<open>
  C27. Pruning keeps the cache inside its policy and never takes data that is on screen. For a cache
  with one query per key: the sessions it keeps besides the active one and those shown in an
  open canvas are at most the configured number, were all left within the idle time, and the
  estimated bytes of their unobserved queries together stay within the budget. Every observed
  query, every query of the active session or of a session shown in a canvas and every query
  that belongs to no session is still cached; of a session that is no longer retained no
  unobserved query is left, and its projection was dropped.
\<close>
theorem pruning_respects_the_policy:
  assumes "distinct (map cq_key (rt_queries rt))" "distinct (map fst (rt_recent rt))"
    and "0 \<le> pol_maxRecent pol" "0 \<le> pol_maxBytes pol"
    and rt'_def: "rt' = prune pol scopes heap now rt"
    and kept_def: "kept = {s. map_of (rt_recent rt') s \<noteq> None \<and> s \<noteq> rt_active rt \<and> \<not> pinned scopes (rt_queries rt) s}"
  shows "int (card kept) \<le> pol_maxRecent pol
     \<and> (\<Sum>s\<in>kept. session_bytes pol heap scopes (rt_queries rt') s) \<le> pol_maxBytes pol
     \<and> (\<forall>s\<in>kept. \<exists>t. map_of (rt_recent rt') s = Some t \<and> now - t < pol_idleMs pol)
     \<and> (\<forall>q\<in>set (rt_queries rt). on_screen scopes rt q \<longrightarrow> q \<in> set (rt_queries rt'))
     \<and> (\<forall>s. map_of (rt_recent rt) s \<noteq> None \<and> map_of (rt_recent rt') s = None \<longrightarrow>
          unused scopes s (rt_queries rt') = [] \<and> s \<in> set (rt_dropped rt'))"
proof -
  let ?xs = "js_sort (descending snd) (rt_recent rt)"
  let ?st = "foldl (prune_step pol scopes heap now (rt_queries rt)) \<lparr>pr_rt = rt, pr_count = 0, pr_bytes = 0\<rparr> ?xs"
  let ?K = "retained scopes rt (map fst ?xs) (pr_rt ?st)"
  have rt': "rt_recent rt' = rt_recent (pr_rt ?st)" "rt_queries rt' = rt_queries (pr_rt ?st)"
    "rt_dropped rt' = rt_dropped (pr_rt ?st)"
    by (simp_all add: rt'_def prune_def schedule_def)
  have keys: "set (map fst ?xs) = {s. map_of (rt_recent rt) s \<noteq> None}"
    by (auto simp: map_of_eq_None_iff)
  have "prune_inv pol scopes heap now rt (map fst ?xs) ?st"
    using assms(1-4) by (intro prune_loop_inv) (auto simp: distinct_js_sort)
  note i = this [unfolded prune_inv_def Let_def]
  have "s \<in> set (map fst ?xs)" if "map_of (rt_recent (pr_rt ?st)) s \<noteq> None" for s
    using i keys that by (metis (mono_tags, lifting) mem_Collect_eq)
  then have kept: "kept = set ?K"
    unfolding kept_def retained_def rt' by auto
  have "distinct ?K" using assms(2) by (simp add: retained_def distinct_js_sort)
  then have "card kept = length ?K"
    "(\<Sum>s\<in>kept. session_bytes pol heap scopes (rt_queries rt') s)
       = sum_list (map (session_bytes pol heap scopes (rt_queries rt')) ?K)"
    unfolding kept by (simp_all add: distinct_card sum_list_distinct_conv_sum_set)
  moreover have "unused scopes s (rt_queries rt') = [] \<and> s \<in> set (rt_dropped rt')"
    if "map_of (rt_recent rt) s \<noteq> None" "map_of (rt_recent rt') s = None" for s
    using i keys that unfolding rt' by (metis (mono_tags, lifting) mem_Collect_eq)
  ultimately show ?thesis using i kept unfolding rt' by simp
qed

definition ex_query :: "string \<Rightarrow> string \<Rightarrow> bool \<Rightarrow> bool \<Rightarrow> cached_query" where
  "ex_query ns sid observed supp = \<lparr>
     cq_key = \<lparr>qk_namespace = ns, qk_scope = ''local'', qk_id = JStr sid, qk_rest = []\<rparr>,
     cq_observed = observed, cq_data = CStr ''hello'', cq_supplementary = supp\<rparr>"

definition ex_retainer :: retainer where
  "ex_retainer = \<lparr>rt_active = ''a'', rt_recent = [(''b'', 10), (''c'', 20), (''d'', 30)], rt_timer = None, rt_subscribed = True,
     rt_queries = [ex_query ''transcript'' ''a'' True False, ex_query ''transcript'' ''b'' False False,
       ex_query ''transcript'' ''c'' False False, ex_query ''task-flow'' ''c'' False True,
       ex_query ''transcript'' ''d'' True False], rt_dropped = []\<rparr>"

definition ex_policy :: session_cache_policy where
  "ex_policy = \<lparr>pol_idleMs = 100, pol_maxRecent = 1, pol_maxBytes = 15\<rparr>"

theorem pruning_respects_the_policy_witness:
  "ex_query ''transcript'' ''d'' True False \<in> set (rt_queries (prune ex_policy [''local''] [] 50 ex_retainer))
   \<and> int (card {s. map_of (rt_recent (prune ex_policy [''local''] [] 50 ex_retainer)) s \<noteq> None
        \<and> s \<noteq> ''a'' \<and> \<not> pinned [''local''] (rt_queries ex_retainer) s}) \<le> 1"
  using pruning_respects_the_policy [of ex_retainer ex_policy, OF _ _ _ _ refl refl, of "[''local'']" "[]" 50]
  by (simp add: ex_retainer_def ex_policy_def ex_query_def on_screen_def)

end
