(* ===== verification/Catalog_Registry.thy ===== *)
theory Catalog_Registry
  imports Domain
begin

text \<open>
  \<open>packages/core/src/v3/a2ui/catalog-registry.ts\<close>, \<open>capabilities.ts\<close> (the ordering) and
  \<open>web/src/lib/a2ui/registry-failure.ts\<close>: which interactive catalogs a session can render.
  A catalog row is built into a catalog when this renderer has a kernel for every component
  and function it declares, and otherwise into a typed reason.

  Arguments: the kernel components and functions, the wrapper that renames a kernel component,
  and the row schema of the package \<open>zod\<close> (a row, or its issues). A catalog is the three
  things its constructor is given.
\<close>

section \<open>Data\<close>

record 'd catalog_file =
  cf_catalogId :: string
  cf_components :: "'d obj"
  cf_functions :: "'d obj option"

record sidecar_implementation =
  si_kernel :: string
  si_presets :: "string obj option"

datatype route_destination = ToAgent | ToPermission | ToRun | ToClient

record 'd event_route =
  er_destination :: "route_destination option"
  er_context_schema :: "'d obj option"

datatype trust_source = TrustBuiltin | TrustPack

record 'd catalog_sidecar =
  sc_catalogId :: string
  sc_protocolVersion :: string
  sc_trust :: trust_source
  sc_implements :: "sidecar_implementation obj option"
  sc_events :: "'d event_route obj option"
  sc_instructions :: "string option"

datatype catalog_source = SourceBuiltin | SourcePlugin

record 'd catalog_row =
  cr_catalogId :: string
  cr_protocolVersion :: string
  cr_source :: catalog_source
  cr_checksum :: string
  cr_componentNames :: "string list"
  cr_functionNames :: "string list"
  cr_sidecar :: "'d catalog_sidecar"
  cr_producible :: bool
  cr_file :: "'d catalog_file option"
  cr_instructions :: "string option"

record ('c, 'f) kernel_registry =
  kr_components :: "(string \<times> 'c) list"
  kr_functions :: "(string \<times> 'f) list"

datatype unresolved_code =
    ComponentUnimplemented | FunctionUnimplemented | RowMissingFile | RowInvalid
  | RouteUnavailable | DecodeFailed | NetworkError

record unresolved_reason =
  ur_code :: unresolved_code
  ur_catalogId :: string
  ur_detail :: string

record ('c, 'f) catalog =
  ca_id :: string
  ca_components :: "'c list"
  ca_functions :: "'f list"

type_synonym 'c component_wrapper = "'c \<Rightarrow> string \<Rightarrow> string obj option \<Rightarrow> 'c"

definition A2UI_BASIC_CATALOG_ID :: string where
  "A2UI_BASIC_CATALOG_ID = ''https://a2ui.org/specification/v0_9/catalogs/basic/catalog.json''"

definition A2UI_CLIO_WORKSPACE_CATALOG_ID :: string where
  "A2UI_CLIO_WORKSPACE_CATALOG_ID = ''https://iowarp.ai/a2ui/catalogs/clio-workspace/v1''"

section \<open>Building one catalog\<close>

definition missing_file_detail :: "string \<Rightarrow> string" where
  "missing_file_detail cid = ''Catalog '' @ cid @
     '' is not producible in this session, so its component/function definitions were not returned.''"

definition component_detail :: "string \<Rightarrow> string \<Rightarrow> string \<Rightarrow> string" where
  "component_detail cid name kern = ''Catalog '' @ cid @ '' declares component \"'' @ name @ ''\" (kernel \"''
     @ kern @ ''\"), which this renderer does not implement.''"

definition function_detail :: "string \<Rightarrow> string \<Rightarrow> string" where
  "function_detail cid name = ''Catalog '' @ cid @ '' declares function \"'' @ name
     @ ''\", which this renderer does not implement.''"

definition implementation_of :: "'d catalog_row \<Rightarrow> string \<Rightarrow> sidecar_implementation option" where
  "implementation_of row name = obj_get (coalesce (sc_implements (cr_sidecar row)) []) name"

definition kernel_name :: "'d catalog_row \<Rightarrow> string \<Rightarrow> string" where
  "kernel_name row name = coalesce (map_option si_kernel (implementation_of row name)) name"

fun resolve_components :: "('c, 'f) kernel_registry \<Rightarrow> 'c component_wrapper \<Rightarrow> 'd catalog_row \<Rightarrow> string list \<Rightarrow>
    unresolved_reason + 'c list" where
  "resolve_components kern wrap row [] = Inr []"
| "resolve_components kern wrap row (name # names) =
     (case map_of (kr_components kern) (kernel_name row name) of
        None \<Rightarrow> Inl \<lparr>ur_code = ComponentUnimplemented, ur_catalogId = cr_catalogId row,
                    ur_detail = component_detail (cr_catalogId row) name (kernel_name row name)\<rparr>
      | Some k \<Rightarrow>
          (case resolve_components kern wrap row names of
             Inl reason \<Rightarrow> Inl reason
           | Inr cs \<Rightarrow> Inr (wrap k name (Option.bind (implementation_of row name) si_presets) # cs)))"

fun resolve_functions :: "('c, 'f) kernel_registry \<Rightarrow> 'd catalog_row \<Rightarrow> string list \<Rightarrow>
    unresolved_reason + 'f list" where
  "resolve_functions kern row [] = Inr []"
| "resolve_functions kern row (name # names) =
     (case map_of (kr_functions kern) name of
        None \<Rightarrow> Inl \<lparr>ur_code = FunctionUnimplemented, ur_catalogId = cr_catalogId row,
                    ur_detail = function_detail (cr_catalogId row) name\<rparr>
      | Some f \<Rightarrow>
          (case resolve_functions kern row names of
             Inl reason \<Rightarrow> Inl reason
           | Inr fs \<Rightarrow> Inr (f # fs)))"

definition buildA2uiCatalog :: "('c, 'f) kernel_registry \<Rightarrow> 'c component_wrapper \<Rightarrow> 'd catalog_row \<Rightarrow>
    unresolved_reason + ('c, 'f) catalog" where
  "buildA2uiCatalog kern wrap row = (case cr_file row of
       None \<Rightarrow> Inl \<lparr>ur_code = RowMissingFile, ur_catalogId = cr_catalogId row,
                    ur_detail = missing_file_detail (cr_catalogId row)\<rparr>
     | Some file \<Rightarrow>
         (case resolve_components kern wrap row (obj_keys (cf_components file)) of
            Inl reason \<Rightarrow> Inl reason
          | Inr cs \<Rightarrow>
              (case resolve_functions kern row (obj_keys (coalesce (cf_functions file) [])) of
                 Inl reason \<Rightarrow> Inl reason
               | Inr fs \<Rightarrow> Inr \<lparr>ca_id = cr_catalogId row, ca_components = cs, ca_functions = fs\<rparr>)))"

section \<open>Decoding the row list\<close>

record row_issue =
  ri_path :: "string list"
  ri_message :: string

record row_rejection =
  rj_catalogId :: string
  rj_detail :: string

definition summarizeZodIssues :: "row_issue list \<Rightarrow> string" where
  "summarizeZodIssues issues = join_with ''; ''
     (map (\<lambda>i. str_or (join_with ''.'' (ri_path i)) ''(root)'' @ '': '' @ ri_message i) issues)"

definition rejectedRowCatalogId :: "js_value \<Rightarrow> nat \<Rightarrow> string" where
  "rejectedRowCatalogId raw index = (case raw of
       JObj o1 \<Rightarrow>
         (case obj_get o1 ''catalogId'' of
            Some (JStr s) \<Rightarrow> if s \<noteq> [] then s else ''unknown:'' @ show_nat index
          | _ \<Rightarrow> ''unknown:'' @ show_nat index)
     | _ \<Rightarrow> ''unknown:'' @ show_nat index)"

fun decode_rows :: "(js_value \<Rightarrow> row_issue list + 'd catalog_row) \<Rightarrow> nat \<Rightarrow> js_value list \<Rightarrow>
    'd catalog_row list \<times> row_rejection list" where
  "decode_rows parse index [] = ([], [])"
| "decode_rows parse index (raw # raws) =
     (case decode_rows parse (Suc index) raws of (rows, rejected) \<Rightarrow>
        (case parse raw of
           Inr row \<Rightarrow> (row # rows, rejected)
         | Inl issues \<Rightarrow>
             (rows, \<lparr>rj_catalogId = rejectedRowCatalogId raw index, rj_detail = summarizeZodIssues issues\<rparr> # rejected)))"

definition decodeA2uiCatalogRows :: "(js_value \<Rightarrow> row_issue list + 'd catalog_row) \<Rightarrow> js_value \<Rightarrow>
    ('d catalog_row list \<times> row_rejection list) result" where
  "decodeA2uiCatalogRows parse v = (case v of
       JArr raws \<Rightarrow> Inr (decode_rows parse 0 raws)
     | _ \<Rightarrow> Inl (PlainError ''expected the \"catalogs\" field to be an array''))"

section \<open>The registry\<close>

record ('c, 'f, 'd) catalog_registry =
  rg_resolved :: "(string \<times> ('c, 'f) catalog) list"
  rg_reasons :: "(string \<times> unresolved_reason) list"
  rg_eventRoutes :: "(string \<times> 'd event_route obj option) list"

definition empty_registry :: "('c, 'f, 'd) catalog_registry" where
  "empty_registry = \<lparr>rg_resolved = [], rg_reasons = [], rg_eventRoutes = []\<rparr>"

text \<open>One row of \<open>load\<close>: a success and a failure write different tables, and neither clears the other.\<close>

definition load_row :: "('c, 'f) kernel_registry \<Rightarrow> 'c component_wrapper \<Rightarrow> ('c, 'f, 'd) catalog_registry \<Rightarrow>
    'd catalog_row \<Rightarrow> ('c, 'f, 'd) catalog_registry" where
  "load_row kern wrap rg row = (case buildA2uiCatalog kern wrap row of
       Inr c \<Rightarrow> rg\<lparr>rg_resolved := map_set (rg_resolved rg) (cr_catalogId row) c,
                   rg_eventRoutes := map_set (rg_eventRoutes rg) (cr_catalogId row) (sc_events (cr_sidecar row))\<rparr>
     | Inl reason \<Rightarrow> rg\<lparr>rg_reasons := map_set (rg_reasons rg) (cr_catalogId row) reason\<rparr>)"

definition reject_row :: "('c, 'f, 'd) catalog_registry \<Rightarrow> row_rejection \<Rightarrow> ('c, 'f, 'd) catalog_registry" where
  "reject_row rg rej = rg\<lparr>rg_reasons := map_set (rg_reasons rg) (rj_catalogId rej)
     \<lparr>ur_code = RowInvalid, ur_catalogId = rj_catalogId rej, ur_detail = rj_detail rej\<rparr>\<rparr>"

definition load_registry :: "('c, 'f) kernel_registry \<Rightarrow> 'c component_wrapper \<Rightarrow> 'd catalog_row list \<Rightarrow>
    row_rejection list \<Rightarrow> ('c, 'f, 'd) catalog_registry \<Rightarrow> ('c, 'f, 'd) catalog_registry" where
  "load_registry kern wrap rows rejected rg =
     foldl reject_row (foldl (load_row kern wrap) empty_registry rows) rejected"

definition upsert_row :: "('c, 'f) kernel_registry \<Rightarrow> 'c component_wrapper \<Rightarrow> 'd catalog_row \<Rightarrow>
    ('c, 'f, 'd) catalog_registry \<Rightarrow> ('c, 'f, 'd) catalog_registry" where
  "upsert_row kern wrap row rg = (case buildA2uiCatalog kern wrap row of
       Inr c \<Rightarrow> rg\<lparr>rg_resolved := map_set (rg_resolved rg) (cr_catalogId row) c,
                   rg_eventRoutes := map_set (rg_eventRoutes rg) (cr_catalogId row) (sc_events (cr_sidecar row)),
                   rg_reasons := map_delete (rg_reasons rg) (cr_catalogId row)\<rparr>
     | Inl reason \<Rightarrow> rg\<lparr>rg_resolved := map_delete (rg_resolved rg) (cr_catalogId row),
                        rg_eventRoutes := map_delete (rg_eventRoutes rg) (cr_catalogId row),
                        rg_reasons := map_set (rg_reasons rg) (cr_catalogId row) reason\<rparr>)"

definition markRouteUnavailable :: "unresolved_code \<Rightarrow> string \<Rightarrow> string list \<Rightarrow> ('c, 'f, 'd) catalog_registry \<Rightarrow>
    ('c, 'f, 'd) catalog_registry" where
  "markRouteUnavailable code detail wellKnown rg = empty_registry\<lparr>rg_reasons :=
     foldl (\<lambda>m cid. map_set m cid \<lparr>ur_code = code, ur_catalogId = cid, ur_detail = detail\<rparr>) [] wellKnown\<rparr>"

definition well_known_ids :: "string list" where
  "well_known_ids = [A2UI_CLIO_WORKSPACE_CATALOG_ID, A2UI_BASIC_CATALOG_ID]"

definition get_catalog :: "('c, 'f, 'd) catalog_registry \<Rightarrow> string \<Rightarrow> ('c, 'f) catalog option" where
  "get_catalog rg cid = map_of (rg_resolved rg) cid"

definition eventRoute :: "('c, 'f, 'd) catalog_registry \<Rightarrow> string \<Rightarrow> string \<Rightarrow> 'd event_route option" where
  "eventRoute rg cid name = (case map_of (rg_eventRoutes rg) cid of
       Some (Some routes) \<Rightarrow> obj_get routes name | _ \<Rightarrow> None)"

definition reasonFor :: "('c, 'f, 'd) catalog_registry \<Rightarrow> string \<Rightarrow> unresolved_reason option" where
  "reasonFor rg cid = map_of (rg_reasons rg) cid"

definition catalogs :: "('c, 'f, 'd) catalog_registry \<Rightarrow> ('c, 'f) catalog list" where
  "catalogs rg = map snd (rg_resolved rg)"

definition supportedCatalogIds :: "('c, 'f, 'd) catalog_registry \<Rightarrow> string list" where
  "supportedCatalogIds rg = map fst (rg_resolved rg)"

text \<open>
  \<open>orderSupportedCatalogIds\<close>: the rank of an id is its last position in the preference order,
  since a later entry of the \<open>Map\<close> overwrites an earlier one.
\<close>

definition id_rank :: "string list \<Rightarrow> string \<Rightarrow> nat option" where
  "id_rank order cid = map_of (rev (zip order [0..<length order])) cid"

definition orderSupportedCatalogIds :: "string list \<Rightarrow> string list \<Rightarrow> string list" where
  "orderSupportedCatalogIds resolved order =
     js_sort (by_key (\<lambda>i. int (the (id_rank order i)))) (filter (\<lambda>i. id_rank order i \<noteq> None) resolved)
     @ filter (\<lambda>i. id_rank order i = None) resolved"

section \<open>Why a request failed\<close>

datatype request_error = TransportFailure "int option" string | OtherError string | NotAnError

datatype failure_reason = FrRouteUnavailable | FrDecodeFailed | FrNetworkError

record registry_failure =
  rf_reason :: failure_reason
  rf_code :: unresolved_code
  rf_detail :: string

definition classifyA2uiRegistryFailure :: "request_error \<Rightarrow> registry_failure" where
  "classifyA2uiRegistryFailure err = (case err of
       TransportFailure status msg \<Rightarrow>
         if status = Some 404 \<or> status = Some 501
         then \<lparr>rf_reason = FrRouteUnavailable, rf_code = RouteUnavailable,
               rf_detail = ''The session server does not support the A2UI catalog registry routes.''\<rparr>
         else \<lparr>rf_reason = FrNetworkError, rf_code = NetworkError,
               rf_detail = ''The session server's A2UI catalog registry request failed: '' @ msg\<rparr>
     | _ \<Rightarrow> \<lparr>rf_reason = FrDecodeFailed, rf_code = DecodeFailed,
             rf_detail = ''The session server's A2UI catalog registry response could not be parsed: ''
               @ (case err of OtherError msg \<Rightarrow> msg | _ \<Rightarrow> ''The response could not be parsed.'')\<rparr>)"

definition isA2uiRegistryFailureRetryable :: "failure_reason \<Rightarrow> bool" where
  "isA2uiRegistryFailureRetryable r \<longleftrightarrow> r = FrNetworkError"

definition A2UI_REGISTRY_MAX_RETRIES :: nat where
  "A2UI_REGISTRY_MAX_RETRIES = 3"

definition shouldRetryA2uiRegistryFailure :: "nat \<Rightarrow> request_error \<Rightarrow> bool" where
  "shouldRetryA2uiRegistryFailure failureCount err \<longleftrightarrow>
     isA2uiRegistryFailureRetryable (rf_reason (classifyA2uiRegistryFailure err))
     \<and> failureCount < A2UI_REGISTRY_MAX_RETRIES"

section \<open>When a catalog can be built\<close>

text \<open>
  The declarative reading of a row: the first declared component without a kernel, the first
  declared function without one, and the catalog that all of them make.
\<close>

definition missing_component :: "('c, 'f) kernel_registry \<Rightarrow> 'd catalog_row \<Rightarrow> string \<Rightarrow> bool" where
  "missing_component kern row name \<longleftrightarrow> kernel_name row name \<notin> fst ` set (kr_components kern)"

definition missing_function :: "('c, 'f) kernel_registry \<Rightarrow> string \<Rightarrow> bool" where
  "missing_function kern name \<longleftrightarrow> name \<notin> fst ` set (kr_functions kern)"

definition wrapped_component :: "('c, 'f) kernel_registry \<Rightarrow> 'c component_wrapper \<Rightarrow> 'd catalog_row \<Rightarrow> string \<Rightarrow> 'c" where
  "wrapped_component kern wrap row name =
     wrap (the (map_of (kr_components kern) (kernel_name row name))) name
       (Option.bind (implementation_of row name) si_presets)"

definition component_reason :: "'d catalog_row \<Rightarrow> string \<Rightarrow> unresolved_reason" where
  "component_reason row name = \<lparr>ur_code = ComponentUnimplemented, ur_catalogId = cr_catalogId row,
     ur_detail = component_detail (cr_catalogId row) name (kernel_name row name)\<rparr>"

definition function_reason :: "'d catalog_row \<Rightarrow> string \<Rightarrow> unresolved_reason" where
  "function_reason row name = \<lparr>ur_code = FunctionUnimplemented, ur_catalogId = cr_catalogId row,
     ur_detail = function_detail (cr_catalogId row) name\<rparr>"

definition catalog_spec :: "('c, 'f) kernel_registry \<Rightarrow> 'c component_wrapper \<Rightarrow> 'd catalog_row \<Rightarrow>
    'd catalog_file \<Rightarrow> unresolved_reason + ('c, 'f) catalog" where
  "catalog_spec kern wrap row file =
     (let cs = obj_keys (cf_components file); fs = obj_keys (coalesce (cf_functions file) [])
      in case find (missing_component kern row) cs of
           Some name \<Rightarrow> Inl (component_reason row name)
         | None \<Rightarrow>
             (case find (missing_function kern) fs of
                Some name \<Rightarrow> Inl (function_reason row name)
              | None \<Rightarrow> Inr \<lparr>ca_id = cr_catalogId row,
                             ca_components = map (wrapped_component kern wrap row) cs,
                             ca_functions = map (\<lambda>name. the (map_of (kr_functions kern) name)) fs\<rparr>))"

lemma map_of_None_key: "map_of m k = None \<longleftrightarrow> k \<notin> fst ` set m"
  by (rule map_of_eq_None_iff)

lemma resolve_components_spec:
  "resolve_components kern wrap row names = (case find (missing_component kern row) names of
     Some name \<Rightarrow> Inl (component_reason row name) | None \<Rightarrow> Inr (map (wrapped_component kern wrap row) names))"
proof (induction names)
  case (Cons name names)
  then show ?case
    by (cases "map_of (kr_components kern) (kernel_name row name)")
      (auto simp: missing_component_def component_reason_def wrapped_component_def map_of_None_key
        dest: map_of_SomeD split: option.splits intro: rev_image_eqI)
qed simp

lemma resolve_functions_spec:
  "resolve_functions kern row names = (case find (missing_function kern) names of
     Some name \<Rightarrow> Inl (function_reason row name)
   | None \<Rightarrow> Inr (map (\<lambda>name. the (map_of (kr_functions kern) name)) names))"
proof (induction names)
  case (Cons name names)
  then show ?case
    by (cases "map_of (kr_functions kern) name")
      (auto simp: missing_function_def function_reason_def map_of_None_key
        dest: map_of_SomeD split: option.splits intro: rev_image_eqI)
qed simp

lemma build_spec:
  "buildA2uiCatalog kern wrap row = (case cr_file row of
     None \<Rightarrow> Inl \<lparr>ur_code = RowMissingFile, ur_catalogId = cr_catalogId row,
                  ur_detail = missing_file_detail (cr_catalogId row)\<rparr>
   | Some file \<Rightarrow> catalog_spec kern wrap row file)"
  by (auto simp: buildA2uiCatalog_def catalog_spec_def resolve_components_spec resolve_functions_spec Let_def
      split: option.splits)

lemma build_id: "buildA2uiCatalog kern wrap row = Inr c \<Longrightarrow> ca_id c = cr_catalogId row"
  by (auto simp: build_spec catalog_spec_def Let_def split: option.splits)

lemma build_reason_id: "buildA2uiCatalog kern wrap row = Inl r \<Longrightarrow> ur_catalogId r = cr_catalogId row"
  by (auto simp: build_spec catalog_spec_def Let_def component_reason_def function_reason_def split: option.splits)

definition buildable :: "('c, 'f) kernel_registry \<Rightarrow> 'd catalog_row \<Rightarrow> bool" where
  "buildable kern row = (case cr_file row of
       None \<Rightarrow> False
     | Some file \<Rightarrow> (\<forall>name\<in>set (obj_keys (cf_components file)). \<not> missing_component kern row name)
         \<and> (\<forall>name\<in>set (obj_keys (coalesce (cf_functions file) [])). \<not> missing_function kern name))"

lemma buildable_iff: "(\<exists>c. buildA2uiCatalog kern wrap row = Inr c) \<longleftrightarrow> buildable kern row"
  by (auto simp: build_spec buildable_def catalog_spec_def Let_def find_None_iff find_Some_iff
      split: option.splits)

text \<open>
  C28. Building a row is the same as its declarative reading: a row without its file is not
  producible; otherwise the first declared component without a kernel (under the name the
  sidecar maps it to) or else the first declared function without one is the typed reason;
  and with a kernel for all of them the catalog has one component per declared name in order,
  wrapped under the catalog's own name with the sidecar's presets, and the kernel's functions.
\<close>
theorem catalog_build_meets_its_reading:
  "buildA2uiCatalog kern wrap row = (case cr_file row of
     None \<Rightarrow> Inl \<lparr>ur_code = RowMissingFile, ur_catalogId = cr_catalogId row,
                  ur_detail = missing_file_detail (cr_catalogId row)\<rparr>
   | Some file \<Rightarrow> catalog_spec kern wrap row file)
   \<and> ((\<exists>c. buildA2uiCatalog kern wrap row = Inr c) \<longleftrightarrow> buildable kern row)"
  by (intro conjI build_spec buildable_iff)

section \<open>The registry over a session\<close>

datatype 'd registry_op =
    LoadRows "'d catalog_row list" "row_rejection list"
  | UpsertRow "'d catalog_row"
  | RoutesUnavailable unresolved_code string "string list"

fun registry_act :: "('c, 'f) kernel_registry \<Rightarrow> 'c component_wrapper \<Rightarrow> ('c, 'f, 'd) catalog_registry \<Rightarrow>
    'd registry_op \<Rightarrow> ('c, 'f, 'd) catalog_registry" where
  "registry_act kern wrap rg (LoadRows rows rejected) = load_registry kern wrap rows rejected rg"
| "registry_act kern wrap rg (UpsertRow row) = upsert_row kern wrap row rg"
| "registry_act kern wrap rg (RoutesUnavailable code detail ids) = markRouteUnavailable code detail ids rg"

text \<open>The rows of one response have different ids, none of them the id of a rejected row.\<close>

fun clean_op :: "'d registry_op \<Rightarrow> bool" where
  "clean_op (LoadRows rows rejected) \<longleftrightarrow> distinct (map cr_catalogId rows)
     \<and> cr_catalogId ` set rows \<inter> rj_catalogId ` set rejected = {}"
| "clean_op _ \<longleftrightarrow> True"

definition registry_ok :: "('c, 'f, 'd) catalog_registry \<Rightarrow> bool" where
  "registry_ok rg \<longleftrightarrow> distinct (map fst (rg_resolved rg))
     \<and> (\<forall>cid. map_of (rg_resolved rg) cid = None \<or> map_of (rg_reasons rg) cid = None)
     \<and> (\<forall>cid. map_of (rg_eventRoutes rg) cid = None \<longleftrightarrow> map_of (rg_resolved rg) cid = None)
     \<and> (\<forall>cid c. map_of (rg_resolved rg) cid = Some c \<longrightarrow> ca_id c = cid)
     \<and> (\<forall>cid r. map_of (rg_reasons rg) cid = Some r \<longrightarrow> ur_catalogId r = cid)"

lemma fst_image_map_set: "fst ` set (map_set m k v) = insert k (fst ` set m)"
  by (induction m k v rule: map_set.induct) auto

lemma distinct_map_delete: "distinct (map fst m) \<Longrightarrow> distinct (map fst (map_delete m k))"
  by (simp add: map_delete_def distinct_map_filter)

lemma registry_ok_empty [simp]: "registry_ok empty_registry"
  by (simp add: registry_ok_def empty_registry_def)

lemma registry_ok_upsert: "registry_ok rg \<Longrightarrow> registry_ok (upsert_row kern wrap row rg)"
proof (cases "buildA2uiCatalog kern wrap row")
  case (Inl r)
  assume "registry_ok rg"
  with Inl build_reason_id [OF Inl] show ?thesis
    by (auto simp: registry_ok_def upsert_row_def map_of_map_set map_of_map_delete distinct_map_delete)
next
  case (Inr c)
  assume "registry_ok rg"
  with Inr build_id [OF Inr] show ?thesis
    by (auto simp: registry_ok_def upsert_row_def map_of_map_set map_of_map_delete distinct_map_set)
qed

text \<open>A row whose id is new to the registry.\<close>

lemma registry_ok_load_row:
  assumes "registry_ok rg" "map_of (rg_resolved rg) (cr_catalogId row) = None"
    and "map_of (rg_reasons rg) (cr_catalogId row) = None"
  shows "registry_ok (load_row kern wrap rg row)"
  using assms by (cases "buildA2uiCatalog kern wrap row")
    (auto simp: registry_ok_def load_row_def map_of_map_set distinct_map_set dest: build_id build_reason_id)

lemma registry_ok_reject_row:
  "registry_ok rg \<Longrightarrow> map_of (rg_resolved rg) (rj_catalogId rej) = None \<Longrightarrow> registry_ok (reject_row rg rej)"
  by (auto simp: registry_ok_def reject_row_def map_of_map_set)

lemma load_row_unresolved:
  "buildA2uiCatalog kern wrap row = Inl r \<Longrightarrow>
     load_row kern wrap rg row = rg\<lparr>rg_reasons := map_set (rg_reasons rg) (cr_catalogId row) r\<rparr>"
  by (simp add: load_row_def)

lemma load_row_resolved:
  "buildA2uiCatalog kern wrap row = Inr c \<Longrightarrow>
     rg_resolved (load_row kern wrap rg row) = map_set (rg_resolved rg) (cr_catalogId row) c
     \<and> rg_reasons (load_row kern wrap rg row) = rg_reasons rg"
  by (simp add: load_row_def)

text \<open>What the rows of a response leave: the buildable ones resolved in order, a reason for the others.\<close>

lemma load_rows_keys:
  "map fst m = map cr_catalogId (filter P rows) \<Longrightarrow> fst ` set m = cr_catalogId ` {row \<in> set rows. P row}"
  by (metis list.set_map set_filter)

lemma load_rows:
  assumes "distinct (map cr_catalogId rows)" "rg = foldl (load_row kern wrap) empty_registry rows"
  shows "registry_ok rg \<and> map fst (rg_resolved rg) = map cr_catalogId (filter (buildable kern) rows)
     \<and> fst ` set (rg_reasons rg) = cr_catalogId ` {row \<in> set rows. \<not> buildable kern row}
     \<and> (\<forall>row\<in>set rows. \<forall>c. buildA2uiCatalog kern wrap row = Inr c \<longrightarrow> map_of (rg_resolved rg) (cr_catalogId row) = Some c)"
  using assms(1) unfolding assms(2)
proof (induction rows rule: rev_induct)
  case Nil
  show ?case by simp (simp add: empty_registry_def)
next
  case (snoc row rows)
  let ?rg = "foldl (load_row kern wrap) empty_registry rows"
  from snoc.prems have new: "cr_catalogId row \<notin> cr_catalogId ` set rows" and "distinct (map cr_catalogId rows)" by auto
  note IH = snoc.IH [OF this(2)]
  from IH new have res: "cr_catalogId row \<notin> fst ` set (rg_resolved ?rg)"
    using load_rows_keys [OF IH [THEN conjunct2, THEN conjunct1]] by auto
  from IH new have rea: "cr_catalogId row \<notin> fst ` set (rg_reasons ?rg)" by auto
  have ok: "registry_ok (load_row kern wrap ?rg row)"
    by (rule registry_ok_load_row) (use IH res rea in \<open>auto simp: map_of_eq_None_iff\<close>)
  show ?case
  proof (cases "buildA2uiCatalog kern wrap row")
    case (Inl r)
    then have "\<not> buildable kern row" using buildable_iff [of kern wrap row] by simp
    with Inl IH ok show ?thesis
      by (auto simp: load_row_unresolved [OF Inl] fst_image_map_set)
  next
    case (Inr c)
    then have "buildable kern row" using buildable_iff [of kern wrap row] by blast
    with Inr IH ok res new show ?thesis
      by (auto simp: load_row_resolved [OF Inr] keys_map_set map_of_map_set image_iff)
  qed
qed

lemma reject_rows:
  assumes "registry_ok rg" "fst ` set (rg_resolved rg) \<inter> rj_catalogId ` set rejected = {}"
  shows "registry_ok (foldl reject_row rg rejected)
     \<and> rg_resolved (foldl reject_row rg rejected) = rg_resolved rg
     \<and> fst ` set (rg_reasons (foldl reject_row rg rejected)) = fst ` set (rg_reasons rg) \<union> rj_catalogId ` set rejected"
  using assms
proof (induction rejected arbitrary: rg)
  case (Cons rej rejected)
  have ok: "registry_ok (reject_row rg rej)"
    by (rule registry_ok_reject_row) (use Cons.prems in \<open>auto simp: map_of_eq_None_iff\<close>)
  have "rg_resolved (reject_row rg rej) = rg_resolved rg" by (simp add: reject_row_def)
  with Cons.IH [OF ok] Cons.prems show ?case
    by (auto simp: reject_row_def fst_image_map_set)
qed simp

lemma registry_act_ok:
  assumes "registry_ok rg" "clean_op act"
  shows "registry_ok (registry_act kern wrap rg act)"
proof (cases act)
  case (LoadRows rows rejected)
  with assms(2) have clean: "distinct (map cr_catalogId rows)"
    "cr_catalogId ` set rows \<inter> rj_catalogId ` set rejected = {}" by auto
  let ?rg = "foldl (load_row kern wrap) empty_registry rows"
  note l = load_rows [OF clean(1) refl, of kern wrap]
  have "fst ` set (rg_resolved ?rg) \<inter> rj_catalogId ` set rejected = {}"
    using clean(2) load_rows_keys [OF l [THEN conjunct2, THEN conjunct1]] by auto
  from reject_rows [OF l [THEN conjunct1] this] show ?thesis
    by (simp add: LoadRows load_registry_def)
next
  case (UpsertRow row)
  with assms(1) show ?thesis by (simp add: registry_ok_upsert)
next
  case (RoutesUnavailable code detail ids)
  have "map_of (foldl (\<lambda>m cid. map_set m cid \<lparr>ur_code = code, ur_catalogId = cid, ur_detail = detail\<rparr>) [] ids) cid
      = Some r \<Longrightarrow> ur_catalogId r = cid" for cid r
    by (induction ids rule: rev_induct) (auto simp: map_of_map_set split: if_splits)
  then show ?thesis
    by (simp add: RoutesUnavailable markRouteUnavailable_def registry_ok_def empty_registry_def)
qed

lemma registry_run_ok:
  "registry_ok rg \<Longrightarrow> list_all clean_op acts \<Longrightarrow> registry_ok (foldl (registry_act kern wrap) rg acts)"
  by (induction acts arbitrary: rg) (auto intro: registry_act_ok)

text \<open>
  Whatever sequence of catalog responses, single rows and route failures a session goes
  through, the registry gives at most one answer for a catalog, a catalog or a reason and
  never both; a catalog is the one with that id and a reason names it; the ids the client
  advertises are exactly the ids it can get a catalog for, each once; and events are routed
  only for a catalog it can get.
\<close>
lemma registry_gives_one_answer:
  assumes "list_all clean_op acts" "rg = foldl (registry_act kern wrap) empty_registry acts"
  shows "(get_catalog rg cid = None \<or> reasonFor rg cid = None)
     \<and> (\<forall>c. get_catalog rg cid = Some c \<longrightarrow> ca_id c = cid)
     \<and> (\<forall>r. reasonFor rg cid = Some r \<longrightarrow> ur_catalogId r = cid)
     \<and> (cid \<in> set (supportedCatalogIds rg) \<longleftrightarrow> get_catalog rg cid \<noteq> None)
     \<and> distinct (supportedCatalogIds rg)
     \<and> (get_catalog rg cid = None \<longrightarrow> eventRoute rg cid name = None)"
proof -
  have "registry_ok rg"
    unfolding assms(2) by (rule registry_run_ok [OF registry_ok_empty assms(1)])
  then have i: "distinct (map fst (rg_resolved rg))" "map_of (rg_resolved rg) cid = None \<or> map_of (rg_reasons rg) cid = None"
    "map_of (rg_resolved rg) cid = None \<Longrightarrow> map_of (rg_eventRoutes rg) cid = None"
    "\<forall>c. map_of (rg_resolved rg) cid = Some c \<longrightarrow> ca_id c = cid"
    "\<forall>r. map_of (rg_reasons rg) cid = Some r \<longrightarrow> ur_catalogId r = cid"
    by (auto simp: registry_ok_def)
  then show ?thesis
    using map_of_eq_None_iff [of "rg_resolved rg" cid]
    by (simp add: get_catalog_def reasonFor_def supportedCatalogIds_def eventRoute_def)
qed

definition ex_catalog_row :: "string \<Rightarrow> string list \<Rightarrow> unit catalog_row" where
  "ex_catalog_row cid names = \<lparr>cr_catalogId = cid, cr_protocolVersion = ''v0.9'', cr_source = SourceBuiltin,
     cr_checksum = [], cr_componentNames = names, cr_functionNames = [],
     cr_sidecar = \<lparr>sc_catalogId = cid, sc_protocolVersion = ''v0.9'', sc_trust = TrustBuiltin,
       sc_implements = None, sc_events = None, sc_instructions = None\<rparr>,
     cr_producible = True,
     cr_file = Some \<lparr>cf_catalogId = cid, cf_components = map (\<lambda>n. (n, ())) names, cf_functions = None\<rparr>,
     cr_instructions = None\<rparr>"

definition ex_kernel :: "(string, unit) kernel_registry" where
  "ex_kernel = \<lparr>kr_components = [(''Text'', ''Text''), (''Card'', ''Card'')], kr_functions = []\<rparr>"

lemmas ex_catalog_defs = ex_catalog_row_def ex_kernel_def obj_keys_def missing_component_def
  missing_function_def kernel_name_def implementation_of_def obj_get_def wrapped_component_def

lemmas ex_registry_defs = ex_catalog_defs get_catalog_def reasonFor_def load_registry_def load_row_def
  upsert_row_def reject_row_def build_spec catalog_spec_def empty_registry_def

section \<open>One response\<close>

text \<open>
  Loading a response whose rows have different ids supports exactly the rows that can be built,
  in the order the server listed them, each with the catalog its row builds; every other row
  and every rejected row has a reason.
\<close>
lemma load_supports_the_buildable_rows:
  assumes "clean_op (LoadRows rows rejected)"
  shows "supportedCatalogIds (load_registry kern wrap rows rejected rg) = map cr_catalogId (filter (buildable kern) rows)
     \<and> (\<forall>row\<in>set rows. case buildA2uiCatalog kern wrap row of
          Inr c \<Rightarrow> get_catalog (load_registry kern wrap rows rejected rg) (cr_catalogId row) = Some c
        | Inl _ \<Rightarrow> reasonFor (load_registry kern wrap rows rejected rg) (cr_catalogId row) \<noteq> None)
     \<and> (\<forall>rej\<in>set rejected. reasonFor (load_registry kern wrap rows rejected rg) (rj_catalogId rej) \<noteq> None)"
proof -
  let ?rg = "foldl (load_row kern wrap) empty_registry rows"
  from assms have clean: "distinct (map cr_catalogId rows)"
    "cr_catalogId ` set rows \<inter> rj_catalogId ` set rejected = {}" by auto
  note l = load_rows [OF clean(1) refl, of kern wrap]
  then have "fst ` set (rg_resolved ?rg) \<inter> rj_catalogId ` set rejected = {}"
    using clean(2) load_rows_keys [OF l [THEN conjunct2, THEN conjunct1]] by auto
  with reject_rows [of ?rg rejected] l have r:
    "rg_resolved (load_registry kern wrap rows rejected rg) = rg_resolved ?rg"
    "fst ` set (rg_reasons (load_registry kern wrap rows rejected rg)) = fst ` set (rg_reasons ?rg) \<union> rj_catalogId ` set rejected"
    by (simp_all add: load_registry_def)
  have "case buildA2uiCatalog kern wrap row of
          Inr c \<Rightarrow> get_catalog (load_registry kern wrap rows rejected rg) (cr_catalogId row) = Some c
        | Inl _ \<Rightarrow> reasonFor (load_registry kern wrap rows rejected rg) (cr_catalogId row) \<noteq> None"
    if "row \<in> set rows" for row
    using that l r buildable_iff [of kern wrap row]
    by (auto simp: get_catalog_def reasonFor_def map_of_eq_None_iff split: sum.splits)
  with l r show ?thesis
    by (auto simp: supportedCatalogIds_def reasonFor_def map_of_eq_None_iff)
qed

text \<open>
  A rejected row may carry the id of a row that was loaded: the registry then has both answers.
\<close>

lemma rejected_row_can_collide:
  "let rg = load_registry ex_kernel (\<lambda>k name _. name) [ex_catalog_row ''basic'' [''Text'']]
              [\<lparr>rj_catalogId = ''basic'', rj_detail = ''file: Required''\<rparr>] empty_registry
   in get_catalog rg ''basic'' \<noteq> None \<and> reasonFor rg ''basic'' \<noteq> None"
  by (simp add: Let_def ex_registry_defs)

text \<open>One malformed row costs only itself: every row that parses is kept, in order.\<close>

lemma decode_rows_keeps_good_rows:
  "fst (decode_rows parse i raws) = concat (map (\<lambda>raw. case parse raw of Inr row \<Rightarrow> [row] | Inl _ \<Rightarrow> []) raws)
   \<and> length (snd (decode_rows parse i raws)) = length (filter (\<lambda>raw. case parse raw of Inr _ \<Rightarrow> False | Inl _ \<Rightarrow> True) raws)"
  by (induction parse i raws rule: decode_rows.induct) (auto split: prod.splits sum.splits)

section \<open>The advertised order\<close>

lemma id_rank_None: "id_rank order i = None \<longleftrightarrow> i \<notin> set order"
  by (simp add: id_rank_def map_of_eq_None_iff image_set)

lemma id_rank_nth: "distinct order \<Longrightarrow> j < length order \<Longrightarrow> id_rank order (order ! j) = Some j"
  unfolding id_rank_def using map_of_zip_nth [of order "[0..<length order]" j]
    map_of_inject_set [of "rev (zip order [0..<length order])" "zip order [0..<length order]"]
  by (simp add: rev_map [symmetric])

lemma sorted_by_rank:
  assumes "distinct order"
  shows "sorted (map (\<lambda>i. int (the (id_rank order i))) (filter P order))"
proof -
  have "map (\<lambda>i. int (the (id_rank order i))) order = map int [0..<length order]"
    using assms by (intro nth_equalityI) (auto simp: id_rank_nth)
  then have "sorted (map (\<lambda>i. int (the (id_rank order i))) order)"
    by (simp add: sorted_wrt_map)
  then show ?thesis by (rule sorted_filter)
qed

lemma inj_on_rank: "distinct order \<Longrightarrow> inj_on (\<lambda>i. int (the (id_rank order i))) (set order)"
  by (rule inj_onI) (metis id_rank_nth in_set_conv_nth of_nat_eq_iff option.sel)

text \<open>
  The ids a client advertises are the resolved ids in the order the server prefers: the sort by
  rank is the same as reading the server's list and keeping what is resolved, followed by the
  resolved ids the server did not list, in their own order. Nothing is dropped and nothing is
  added.
\<close>
lemma advertised_order_is_the_servers:
  assumes "distinct resolved" "distinct order"
  shows "orderSupportedCatalogIds resolved order
     = filter (\<lambda>i. i \<in> set resolved) order @ filter (\<lambda>i. i \<notin> set order) resolved"
proof -
  let ?k = "\<lambda>i. int (the (id_rank order i))"
  let ?known = "js_sort (by_key ?k) (filter (\<lambda>i. i \<in> set order) resolved)"
  let ?ref = "filter (\<lambda>i. i \<in> set resolved) order"
  have same: "set ?known = set ?ref" by auto
  have "distinct (map ?k ?ref)"
    using assms(2) inj_on_rank [OF assms(2)] by (auto simp: distinct_map intro: inj_on_subset)
  moreover have "distinct (map ?k ?known)"
    unfolding distinct_js_sort
    using assms(1) inj_on_rank [OF assms(2)] by (auto simp: distinct_map intro: inj_on_subset)
  ultimately have "map ?k ?known = map ?k ?ref"
    using sorted_js_sort [of ?k] sorted_by_rank [OF assms(2)] same
    by (intro sorted_distinct_set_unique) (auto simp: image_iff)
  moreover have "inj_on ?k (set ?known \<union> set ?ref)"
    by (rule inj_on_subset [OF inj_on_rank [OF assms(2)]]) auto
  ultimately have "?known = ?ref" by (rule map_inj_on)
  then show ?thesis by (simp add: orderSupportedCatalogIds_def id_rank_None)
qed

end
