(* ===== verification/Tool_Execution.thy ===== *)
theory Tool_Execution
  imports Entity_State
begin

text \<open>
  \<open>packages/core/src/v3/tool-execution.ts\<close>: merging a tool row with the row the store
  already holds, so that a late submission frame cannot overwrite the recorded outcome
  of its asynchronous operation. \<open>Date.parse\<close> is an argument: the instant a text
  denotes, \<open>None\<close> for \<open>NaN\<close>, which no comparison accepts.
\<close>

definition later_than :: "(string \<Rightarrow> int option) \<Rightarrow> string \<Rightarrow> string \<Rightarrow> bool" where
  "later_than date_parse a b =
     (case (date_parse a, date_parse b) of (Some x, Some y) \<Rightarrow> x > y | _ \<Rightarrow> False)"

text \<open>\<open>{ ...previous, ...candidate }\<close>.\<close>

definition spread_tool :: "tool_invocation \<Rightarrow> tool_invocation \<Rightarrow> tool_invocation" where
  "spread_tool p c = \<lparr>
     tool_id = tool_id c, tool_session_id = tool_session_id c,
     tool_run_id = spread_slot (tool_run_id p) (tool_run_id c),
     tool_name = tool_name c,
     tool_title = spread_slot (tool_title p) (tool_title c),
     tool_state = tool_state c,
     tool_input = spread_slot (tool_input p) (tool_input c),
     tool_output = spread_slot (tool_output p) (tool_output c),
     tool_presentation = spread_slot (tool_presentation p) (tool_presentation c),
     tool_output_stream = spread_slot (tool_output_stream p) (tool_output_stream c),
     tool_progress_message = spread_slot (tool_progress_message p) (tool_progress_message c),
     tool_progress = spread_slot (tool_progress p) (tool_progress c),
     tool_progress_total = spread_slot (tool_progress_total p) (tool_progress_total c),
     tool_started_at = spread_slot (tool_started_at p) (tool_started_at c),
     tool_completed_at = spread_slot (tool_completed_at p) (tool_completed_at c),
     tool_duration_ms = spread_slot (tool_duration_ms p) (tool_duration_ms c),
     tool_error = spread_slot (tool_error p) (tool_error c),
     tool_submission = spread_slot (tool_submission p) (tool_submission c),
     tool_execution_task = spread_slot (tool_execution_task p) (tool_execution_task c),
     tool_execution_problem =
       spread_slot (tool_execution_problem p) (tool_execution_problem c)\<rparr>"

text \<open>\<open>keepPrevious\<close>: the held row carries the better record of the operation.\<close>

definition keep_previous ::
  "(string \<Rightarrow> int option) \<Rightarrow> execution_task option \<Rightarrow> execution_task option \<Rightarrow> bool" where
  "keep_previous date_parse older newer =
     (case older of
        None \<Rightarrow> False
      | Some o1 \<Rightarrow> (case newer of
            None \<Rightarrow> True
          | Some n1 \<Rightarrow> et_handle o1 = et_handle n1 \<and>
              ((et_terminal_at o1 \<noteq> None \<and> et_terminal_at n1 = None) \<or>
               later_than date_parse (et_updated_at o1) (et_updated_at n1))))"

definition submission_of :: "tool_invocation \<Rightarrow> tool_submission" where
  "submission_of c = \<lparr>
     sub_state = tool_state c, sub_output = slot_val (tool_output c),
     sub_error = slot_val (tool_error c), sub_completed_at = slot_val (tool_completed_at c),
     sub_duration_ms = map_option Some (slot_val (tool_duration_ms c))\<rparr>"

definition mergeToolInvocation ::
  "(string \<Rightarrow> int option) \<Rightarrow> tool_invocation option \<Rightarrow> tool_invocation \<Rightarrow> tool_invocation" where
  "mergeToolInvocation date_parse previous candidate =
     (case previous of
        None \<Rightarrow> candidate
      | Some p \<Rightarrow>
          (let merged = (spread_tool p candidate)\<lparr>tool_presentation :=
                 set_slot (or_else (slot_val (tool_presentation candidate))
                                   (slot_val (tool_presentation p)))\<rparr>;
               older = slot_val (tool_execution_task p);
               newer = slot_val (tool_execution_task candidate)
           in if truthy_str (slot_val (tool_execution_problem candidate))
              then merged\<lparr>tool_execution_task := set_slot newer\<rparr>
              else if older = None \<and> newer = None then merged
              else let execution = (if keep_previous date_parse older newer then p else candidate)
                   in merged\<lparr>
                     tool_state := tool_state execution,
                     tool_output := set_slot (slot_val (tool_output execution)),
                     tool_presentation := set_slot (slot_val (tool_presentation execution)),
                     tool_error := set_slot (slot_val (tool_error execution)),
                     tool_completed_at := set_slot (slot_val (tool_completed_at execution)),
                     tool_duration_ms := set_slot (slot_val (tool_duration_ms execution)),
                     tool_execution_task := set_slot (slot_val (tool_execution_task execution)),
                     tool_execution_problem :=
                       set_slot (slot_val (tool_execution_problem execution)),
                     tool_submission := set_slot
                       (or_else (slot_val (tool_submission candidate))
                         (if newer \<noteq> None \<or> \<not> truthy_str (slot_val (tool_completed_at candidate))
                          then slot_val (tool_submission p)
                          else Some (submission_of candidate)))\<rparr>))"

definition isToolExecutionSnapshot ::
  "(string \<Rightarrow> int option) \<Rightarrow> tool_invocation option \<Rightarrow> tool_invocation option \<Rightarrow> bool" where
  "isToolExecutionSnapshot date_parse current incoming =
     (case incoming of
        None \<Rightarrow> False
      | Some candidate \<Rightarrow>
          (slot_val (tool_execution_task candidate) \<noteq> None \<or>
           truthy_str (slot_val (tool_execution_problem candidate))) \<and>
          slot_val (tool_execution_task (mergeToolInvocation date_parse current candidate)) =
            slot_val (tool_execution_task candidate))"

section \<open>Lemmas\<close>

lemma slot_val_simps [simp]:
  "slot_val Absent = None" "slot_val Undef = None" "slot_val (Val x) = Some x"
  by (simp_all add: slot_val_def)

lemma slot_val_set [simp]: "slot_val (set_slot v) = v"
  by (cases v) (simp_all add: set_slot_def)

lemma mergeToolInvocation_None [simp]: "mergeToolInvocation dp None c = c"
  by (simp add: mergeToolInvocation_def)

lemma mergeToolInvocation_id [simp]: "tool_id (mergeToolInvocation dp p c) = tool_id c"
  by (cases p) (simp_all add: mergeToolInvocation_def spread_tool_def Let_def)

lemma spread_tool_fields [simp]:
  "tool_state (spread_tool p c) = tool_state c"
  "tool_execution_task (spread_tool p c)
     = spread_slot (tool_execution_task p) (tool_execution_task c)"
  by (simp_all add: spread_tool_def)

text \<open>
  What a keyed row holds of its operation after a merge: the execution facts of the side
  that \<open>keep_previous\<close> prefers.
\<close>

lemma mergeToolInvocation_execution:
  fixes dp :: "string \<Rightarrow> int option" and p c :: tool_invocation
  assumes "\<not> truthy_str (slot_val (tool_execution_problem c))"
    and "slot_val (tool_execution_task p) \<noteq> None \<or> slot_val (tool_execution_task c) \<noteq> None"
  defines "x \<equiv> if keep_previous dp (slot_val (tool_execution_task p))
                    (slot_val (tool_execution_task c)) then p else c"
  shows "slot_val (tool_execution_task (mergeToolInvocation dp (Some p) c))
           = slot_val (tool_execution_task x)"
    and "tool_state (mergeToolInvocation dp (Some p) c) = tool_state x"
    and "slot_val (tool_output (mergeToolInvocation dp (Some p) c)) = slot_val (tool_output x)"
    and "slot_val (tool_error (mergeToolInvocation dp (Some p) c)) = slot_val (tool_error x)"
  using assms(1,2) unfolding x_def by (auto simp: mergeToolInvocation_def Let_def)

lemma keep_previous_terminal:
  assumes "older = Some o1" "et_terminal_at o1 \<noteq> None"
    and "newer = None \<or> (\<exists>n1. newer = Some n1 \<and> et_handle n1 = et_handle o1 \<and> et_terminal_at n1 = None)"
  shows "keep_previous dp older newer"
  using assms by (auto simp: keep_previous_def)

lemma later_than_irrefl [simp]: "\<not> later_than dp a a"
  by (simp add: later_than_def split: option.splits)

lemma keep_previous_same [simp]: "\<not> keep_previous dp (Some t) (Some t)"
  by (auto simp: keep_previous_def)

section \<open>Properties\<close>

text \<open>
  A late submission frame cannot overwrite the recorded outcome of its operation: when the
  held row carries a terminal record of its asynchronous task, and the candidate carries no
  problem and no terminal record of the same task (or no record at all), the merged row keeps
  the held state, output, error, completion time and task, while its other fields are the
  candidate's; and merging the same row again changes none of these facts.
\<close>
lemma recorded_outcome_survives_late_submission:
  assumes "\<not> truthy_str (slot_val (tool_execution_problem c))"
    and "slot_val (tool_execution_task p) = Some t" "et_terminal_at t \<noteq> None"
    and "slot_val (tool_execution_task c) = None \<or>
      (\<exists>n. slot_val (tool_execution_task c) = Some n \<and> et_handle n = et_handle t \<and> et_terminal_at n = None)"
  shows "tool_state (mergeToolInvocation dp (Some p) c) = tool_state p
    \<and> slot_val (tool_output (mergeToolInvocation dp (Some p) c)) = slot_val (tool_output p)
    \<and> slot_val (tool_error (mergeToolInvocation dp (Some p) c)) = slot_val (tool_error p)
    \<and> slot_val (tool_completed_at (mergeToolInvocation dp (Some p) c)) = slot_val (tool_completed_at p)
    \<and> slot_val (tool_execution_task (mergeToolInvocation dp (Some p) c)) = Some t
    \<and> tool_name (mergeToolInvocation dp (Some p) c) = tool_name c
    \<and> tool_state (mergeToolInvocation dp (Some (mergeToolInvocation dp (Some p) c)) c) = tool_state p"
proof -
  have keep: "keep_previous dp (Some t) (slot_val (tool_execution_task c))"
    using keep_previous_terminal [OF refl assms(3)] assms(4) by blast
  let ?m = "mergeToolInvocation dp (Some p) c"
  note held = mergeToolInvocation_execution [OF assms(1), of p dp]
  have m: "tool_state ?m = tool_state p" "slot_val (tool_execution_task ?m) = Some t"
    using held(1,2) keep assms(2) by auto
  have "tool_state (mergeToolInvocation dp (Some ?m) c) = tool_state p"
    using mergeToolInvocation_execution(2) [OF assms(1), of ?m dp] keep m by simp
  moreover have "slot_val (tool_completed_at ?m) = slot_val (tool_completed_at p)" "tool_name ?m = tool_name c"
    using keep assms(1,2) by (auto simp: mergeToolInvocation_def Let_def) (simp_all add: spread_tool_def)
  ultimately show ?thesis using held(3,4) keep assms(2) m by simp
qed

definition ex_tool_row :: "tool_state \<Rightarrow> execution_task slot \<Rightarrow> tool_invocation" where
  "ex_tool_row st task = \<lparr>tool_id = ''t'', tool_session_id = ''s'', tool_run_id = Absent, tool_name = ''grep'',
     tool_title = Absent, tool_state = st, tool_input = Absent, tool_output = Absent,
     tool_presentation = Absent, tool_output_stream = Absent, tool_progress_message = Absent,
     tool_progress = Absent, tool_progress_total = Absent, tool_started_at = Absent,
     tool_completed_at = Absent, tool_duration_ms = Absent, tool_error = Absent,
     tool_submission = Absent, tool_execution_task = task, tool_execution_problem = Absent\<rparr>"

definition ex_exec_task :: execution_task where
  "ex_exec_task = \<lparr>et_handle = ''h'', et_status = ''done'', et_activity = [], et_updated_at = ''2'',
     et_accepted_at = ''1'', et_terminal_at = Some ''2'', et_cancellation_requested_at = None,
     et_result_sha256 = None\<rparr>"

end
