(* ===== verification/Variant_Runs.thy ===== *)
theory Variant_Runs
  imports Entity_State
begin

text \<open>
  \<open>packages/core/src/v3/variant-reducer.ts\<close>: the projection of a variant run's frames
  (tries started and ended, live deltas, the selection, a closing without a pick, a
  try's own activity) onto \<open>EntityState.variant_runs\<close>, and the merge of the runs a
  reload serves under the live ones. The payload types are those of
  \<open>variant-schemas.ts\<close> after decoding.

  The invariant \<open>wf_run\<close>: the tries are in strictly ascending \<open>try_index\<close> order, each
  belongs to its run, and no activity log exceeds its bound.
\<close>

section \<open>Decoded payloads\<close>

record run_fields =
  rf_variants_id :: string
  rf_session_id :: string
  rf_run_id :: "string option"
  rf_agent_id :: string
  rf_origin :: variant_origin
  rf_strategy :: variant_strategy
  rf_judge :: variant_judge
  rf_n :: nat
  rf_rubric :: "string option"

record variant_try_upsert =
  vu_id :: string
  vu_run :: run_fields
  vu_try_index :: nat
  vu_scope :: string
  vu_state :: try_state
  vu_text :: "string option"
  vu_tokens :: "try_tokens option"
  vu_score :: "rat option"
  vu_error :: "string option"
  vu_forked_from :: "nat option"
  vu_advice :: "string option"

datatype delta_kind = DeltaText | DeltaThinking | DeltaUnknown

record variant_try_delta =
  vd_id :: string
  vd_variants_id :: string
  vd_try_index :: nat
  vd_kind :: delta_kind
  vd_delta :: string

record variant_selected =
  vsel_run :: run_fields
  vsel_selected_index :: nat
  vsel_selected_scope :: string
  vsel_text :: string
  vsel_scores :: "(nat \<times> rat option) list"
  vsel_winning_score :: "rat option"
  vsel_pick :: "nat option"
  vsel_comment :: "string option"

record closed_candidate =
  cand_try_index :: nat
  cand_scope :: string
  cand_text :: string

record variant_closed =
  vcl_run :: run_fields
  vcl_status :: closed_status
  vcl_reason :: "string option"
  vcl_question_id :: "string option"
  vcl_closed_at :: "string option"
  vcl_candidates :: "closed_candidate list"
  vcl_superseded_by_message_id :: "string option"

record variant_semantic_event =
  vse_event_type :: string
  vse_status :: string
  vse_summary :: string
  vse_occurred_at :: "string option"
  vse_payload :: "js_value obj"

record variant_try_record =
  vtr_try_index :: nat
  vtr_scope :: string
  vtr_state :: try_state
  vtr_text :: string
  vtr_score :: "rat option"
  vtr_tokens :: "try_tokens option"
  vtr_advice :: "string option"
  vtr_forked_from :: "nat option"
  vtr_error :: "string option"
  vtr_turn_id :: "string option"
  vtr_anchor_message_id :: "string option"
  vtr_steps :: "try_step list"

record variant_run_record =
  vrr_variants_id :: string
  vrr_session_id :: string
  vrr_agent_id :: string
  vrr_origin :: variant_origin
  vrr_strategy :: variant_strategy
  vrr_judge :: variant_judge
  vrr_n :: nat
  vrr_rubric :: "string option"
  vrr_status :: variant_run_status
  vrr_question_id :: "string option"
  vrr_closed_reason :: "string option"
  vrr_closed_at :: "string option"
  vrr_superseded_by_message_id :: "string option"
  vrr_turn_id :: "string option"
  vrr_anchor_message_id :: "string option"
  vrr_pick :: "nat option"
  vrr_comment :: "string option"
  vrr_selected_index :: "nat option"
  vrr_tries :: "variant_try_record list"

type_synonym variant_runs = "variant_run obj"

definition MAX_TRY_ACTIVITY :: nat where
  "MAX_TRY_ACTIVITY = 200"

section \<open>Helpers of the projection\<close>

definition new_run :: "run_fields \<Rightarrow> variant_run" where
  "new_run f = \<lparr>
     vr_variants_id = rf_variants_id f, vr_session_id = rf_session_id f,
     vr_run_id = rf_run_id f, vr_anchor_message_id = None, vr_agent_id = rf_agent_id f,
     vr_origin = rf_origin f, vr_strategy = rf_strategy f, vr_judge = rf_judge f,
     vr_n = rf_n f, vr_status = None, vr_rubric = rf_rubric f, vr_tries = [],
     vr_selection = None, vr_closure = None\<rparr>"

definition runWith :: "variant_run option \<Rightarrow> run_fields \<Rightarrow> variant_run" where
  "runWith existing f = (case existing of
      None \<Rightarrow> new_run f
    | Some e \<Rightarrow> e\<lparr>
        vr_session_id := str_or (vr_session_id e) (rf_session_id f),
        vr_run_id := or_else (vr_run_id e) (rf_run_id f),
        vr_agent_id := str_or (rf_agent_id f) (vr_agent_id e),
        vr_origin := (if rf_origin f = OriginUnknown then vr_origin e else rf_origin f),
        vr_strategy := (if rf_strategy f = StrategyUnknown then vr_strategy e else rf_strategy f),
        vr_judge := (if rf_judge f = JudgeUnknown then vr_judge e else rf_judge f),
        vr_n := max (rf_n f) (vr_n e),
        vr_rubric := or_else (rf_rubric f) (vr_rubric e)\<rparr>)"

definition try_key :: "variant_try \<Rightarrow> int" where
  "try_key t = int (vt_try_index t)"

definition withTry :: "variant_run \<Rightarrow> variant_try \<Rightarrow> variant_run" where
  "withTry r nxt = r\<lparr>vr_tries := js_sort (by_key try_key)
     (filter (\<lambda>c. vt_try_index c \<noteq> vt_try_index nxt) (vr_tries r) @ [nxt])\<rparr>"

definition tryAt :: "variant_run \<Rightarrow> nat \<Rightarrow> variant_try option" where
  "tryAt r i = find (\<lambda>c. vt_try_index c = i) (vr_tries r)"

definition emptyTry :: "string \<Rightarrow> nat \<Rightarrow> variant_try" where
  "emptyTry vid i = \<lparr>
     vt_id = vid @ '':'' @ show_nat i, vt_variants_id = vid, vt_try_index = i, vt_scope = [],
     vt_state = TryRunning, vt_text = [], vt_thinking = [], vt_run_id = None,
     vt_anchor_message_id = None, vt_score = None, vt_tokens = None, vt_error = None,
     vt_forked_from = None, vt_advice = None, vt_activity = [], vt_steps = []\<rparr>"

section \<open>The projections\<close>

definition upserted_try :: "variant_try \<Rightarrow> variant_try_upsert \<Rightarrow> variant_try" where
  "upserted_try previous p = previous\<lparr>
     vt_id := str_or (vu_id p) (vt_id previous),
     vt_scope := str_or (vu_scope p) (vt_scope previous),
     vt_state := vu_state p,
     vt_text := coalesce (vu_text p) (vt_text previous),
     vt_run_id := or_else (vt_run_id previous) (rf_run_id (vu_run p)),
     vt_score := or_else (vu_score p) (vt_score previous),
     vt_tokens := or_else (vu_tokens p) (vt_tokens previous),
     vt_error := or_else (vu_error p) (vt_error previous),
     vt_forked_from := or_else (vu_forked_from p) (vt_forked_from previous),
     vt_advice := or_else (vu_advice p) (vt_advice previous)\<rparr>"

definition upsertVariantTry :: "variant_runs \<Rightarrow> variant_try_upsert \<Rightarrow> variant_runs" where
  "upsertVariantTry runs p =
     (let run = runWith (obj_get runs (rf_variants_id (vu_run p))) (vu_run p);
          previous = coalesce (tryAt run (vu_try_index p))
                       (emptyTry (rf_variants_id (vu_run p)) (vu_try_index p))
      in obj_put runs (vr_variants_id run) (withTry run (upserted_try previous p)))"

definition delta_try :: "variant_try \<Rightarrow> variant_try_delta \<Rightarrow> variant_try" where
  "delta_try t d = (if vd_kind d = DeltaThinking
     then t\<lparr>vt_thinking := vt_thinking t @ vd_delta d\<rparr>
     else t\<lparr>vt_text := vt_text t @ vd_delta d\<rparr>)"

definition appendVariantDelta :: "variant_runs \<Rightarrow> variant_try_delta \<Rightarrow> variant_runs option" where
  "appendVariantDelta runs d =
     (case obj_get runs (vd_variants_id d) of
        None \<Rightarrow> None
      | Some run \<Rightarrow> (case tryAt run (vd_try_index d) of
            None \<Rightarrow> None
          | Some current \<Rightarrow>
              if vt_state current \<noteq> TryRunning then Some runs
              else Some (obj_put runs (vr_variants_id run) (withTry run (delta_try current d)))))"

text \<open>The judged scores of a selection: rows without a score are left out.\<close>

definition given_scores :: "(nat \<times> rat option) list \<Rightarrow> (nat \<times> rat) list" where
  "given_scores rows =
     concat (map (\<lambda>(i, s). case s of None \<Rightarrow> [] | Some x \<Rightarrow> [(i, x)]) rows)"

definition score_try :: "variant_run \<Rightarrow> nat \<times> rat \<Rightarrow> variant_run" where
  "score_try run row = (case tryAt run (fst row) of
      None \<Rightarrow> run
    | Some current \<Rightarrow> if vt_score current = None
        then withTry run (current\<lparr>vt_score := Some (snd row)\<rparr>) else run)"

definition fill_chosen :: "variant_run \<Rightarrow> nat \<Rightarrow> string \<Rightarrow> variant_run" where
  "fill_chosen run i txt = (case tryAt run i of
      None \<Rightarrow> run
    | Some chosen \<Rightarrow> if vt_text chosen = [] \<and> txt \<noteq> []
        then withTry run (chosen\<lparr>vt_text := txt\<rparr>) else run)"

definition selectVariant :: "variant_runs \<Rightarrow> variant_selected \<Rightarrow> variant_runs" where
  "selectVariant runs s =
     (let run0 = runWith (obj_get runs (rf_variants_id (vsel_run s))) (vsel_run s);
          scores = given_scores (vsel_scores s);
          run1 = foldl score_try run0 scores;
          run = fill_chosen run1 (vsel_selected_index s) (vsel_text s)
      in obj_put runs (vr_variants_id run) (run\<lparr>
           vr_status := Some VrSelected,
           vr_selection := Some \<lparr>
             vs_selected_index = vsel_selected_index s,
             vs_selected_scope = vsel_selected_scope s, vs_text = vsel_text s,
             vs_scores = scores, vs_winning_score = vsel_winning_score s,
             vs_pick = vsel_pick s, vs_comment = vsel_comment s\<rparr>\<rparr>))"

fun status_of_closed :: "closed_status \<Rightarrow> variant_run_status" where
  "status_of_closed ClosedSuperseded = VrSuperseded"
| "status_of_closed ClosedCancelled = VrCancelled"
| "status_of_closed ClosedExpired = VrExpired"
| "status_of_closed ClosedUnknown = VrUnknown"

definition keep_candidate ::
  "string option \<Rightarrow> variant_run \<Rightarrow> closed_candidate \<Rightarrow> variant_run" where
  "keep_candidate rid run c = (case tryAt run (cand_try_index c) of
      None \<Rightarrow> withTry run ((emptyTry (vr_variants_id run) (cand_try_index c))\<lparr>
                vt_scope := cand_scope c, vt_state := TryCompleted, vt_text := cand_text c,
                vt_run_id := rid\<rparr>)
    | Some current \<Rightarrow> if vt_text current = [] \<and> cand_text c \<noteq> []
        then withTry run (current\<lparr>vt_scope := str_or (vt_scope current) (cand_scope c),
                                   vt_text := cand_text c\<rparr>)
        else run)"

definition closeVariant :: "variant_runs \<Rightarrow> variant_closed \<Rightarrow> variant_runs" where
  "closeVariant runs c =
     (let run0 = runWith (obj_get runs (rf_variants_id (vcl_run c))) (vcl_run c);
          run = foldl (keep_candidate (rf_run_id (vcl_run c))) run0 (vcl_candidates c)
      in obj_put runs (vr_variants_id run) (run\<lparr>
           vr_status := Some (status_of_closed (vcl_status c)),
           vr_closure := Some \<lparr>
             vc_status = vcl_status c, vc_reason = or_undefined (vcl_reason c),
             vc_closed_at = or_undefined (vcl_closed_at c),
             vc_question_id = or_undefined (vcl_question_id c),
             vc_superseded_by_message_id =
               or_undefined (vcl_superseded_by_message_id c)\<rparr>\<rparr>))"

fun closed_of_status :: "variant_run_status \<Rightarrow> closed_status option" where
  "closed_of_status VrSuperseded = Some ClosedSuperseded"
| "closed_of_status VrCancelled = Some ClosedCancelled"
| "closed_of_status VrExpired = Some ClosedExpired"
| "closed_of_status _ = None"

definition recordClosure :: "variant_run_record \<Rightarrow> variant_closure option" where
  "recordClosure r = (case closed_of_status (vrr_status r) of
      None \<Rightarrow> None
    | Some st \<Rightarrow> Some \<lparr>
        vc_status = st, vc_reason = vrr_closed_reason r, vc_closed_at = vrr_closed_at r,
        vc_question_id = vrr_question_id r,
        vc_superseded_by_message_id = vrr_superseded_by_message_id r\<rparr>)"

text \<open>The stamp \<open>(variants_id, try_index)\<close> of a try's own semantic event.\<close>

definition tryStamp :: "js_value obj \<Rightarrow> (string \<times> nat) option" where
  "tryStamp payload = (case (obj_get payload ''variants_id'', obj_get payload ''try_index'') of
      (Some (JStr v), Some (JNum n)) \<Rightarrow>
        if v = [] then None
        else if snd (quotient_of n) \<noteq> 1 \<or> n < 0 then None
        else Some (v, nat (fst (quotient_of n)))
    | _ \<Rightarrow> None)"

definition recordVariantActivity ::
  "variant_runs \<Rightarrow> variant_semantic_event \<Rightarrow> variant_runs option" where
  "recordVariantActivity runs e =
     (if take 8 (vse_event_type e) = ''variant.'' then None
      else case tryStamp (vse_payload e) of
        None \<Rightarrow> None
      | Some (vid, i) \<Rightarrow> (case obj_get runs vid of
          None \<Rightarrow> None
        | Some run \<Rightarrow> (case tryAt run i of
            None \<Rightarrow> None
          | Some current \<Rightarrow> Some (obj_put runs (vr_variants_id run)
              (withTry run (current\<lparr>vt_activity := take_last MAX_TRY_ACTIVITY
                (vt_activity current @ [\<lparr>ta_event_type = vse_event_type e,
                   ta_summary = vse_summary e, ta_status = vse_status e,
                   ta_occurred_at = vse_occurred_at e\<rparr>])\<rparr>))))))"

section \<open>Reload: records and the merge under the live runs\<close>

definition try_of_record :: "string \<Rightarrow> variant_try_record \<Rightarrow> variant_try" where
  "try_of_record vid t = \<lparr>
     vt_id = vid @ '':'' @ show_nat (vtr_try_index t), vt_variants_id = vid,
     vt_try_index = vtr_try_index t, vt_scope = vtr_scope t, vt_state = vtr_state t,
     vt_text = vtr_text t, vt_thinking = [], vt_run_id = vtr_turn_id t,
     vt_anchor_message_id = vtr_anchor_message_id t, vt_score = vtr_score t,
     vt_tokens = vtr_tokens t, vt_error = vtr_error t, vt_forked_from = vtr_forked_from t,
     vt_advice = vtr_advice t, vt_activity = [], vt_steps = vtr_steps t\<rparr>"

definition run_of_record :: "variant_run_record \<Rightarrow> variant_run" where
  "run_of_record r =
     (let tries = map (try_of_record (vrr_variants_id r)) (vrr_tries r);
          chosen = (case vrr_selected_index r of
              None \<Rightarrow> None
            | Some i \<Rightarrow> find (\<lambda>t. vt_try_index t = i) tries);
          scores = given_scores (map (\<lambda>t. (vt_try_index t, vt_score t)) tries)
      in \<lparr>
        vr_variants_id = vrr_variants_id r, vr_session_id = vrr_session_id r,
        vr_run_id = vrr_turn_id r, vr_anchor_message_id = vrr_anchor_message_id r,
        vr_agent_id = vrr_agent_id r, vr_origin = vrr_origin r,
        vr_strategy = vrr_strategy r, vr_judge = vrr_judge r, vr_n = vrr_n r,
        vr_status = Some (vrr_status r), vr_rubric = vrr_rubric r,
        vr_tries = js_sort (by_key try_key) tries,
        vr_selection = (if vrr_status r = VrSelected then
            map_option (\<lambda>t. \<lparr>
              vs_selected_index = vt_try_index t, vs_selected_scope = vt_scope t,
              vs_text = vt_text t, vs_scores = scores, vs_winning_score = vt_score t,
              vs_pick = vrr_pick r, vs_comment = vrr_comment r\<rparr>) chosen
          else None),
        vr_closure = recordClosure r\<rparr>)"

definition variantRunsFromRecords :: "variant_run_record list \<Rightarrow> variant_runs" where
  "variantRunsFromRecords rs =
     foldl (\<lambda>runs r. obj_put runs (vrr_variants_id r) (run_of_record r)) [] rs"

definition mergeTry :: "variant_try \<Rightarrow> variant_try \<Rightarrow> variant_try" where
  "mergeTry live p = live\<lparr>
     vt_scope := str_or (vt_scope live) (vt_scope p),
     vt_text := str_or (vt_text live) (vt_text p),
     vt_thinking := str_or (vt_thinking live) (vt_thinking p),
     vt_run_id := or_else (vt_run_id p) (vt_run_id live),
     vt_anchor_message_id := or_else (vt_anchor_message_id p) (vt_anchor_message_id live),
     vt_score := or_else (vt_score live) (vt_score p),
     vt_tokens := or_else (vt_tokens live) (vt_tokens p),
     vt_error := or_else (vt_error live) (vt_error p),
     vt_forked_from := or_else (vt_forked_from live) (vt_forked_from p),
     vt_advice := or_else (vt_advice live) (vt_advice p),
     vt_activity := (if vt_activity live \<noteq> [] then vt_activity live else vt_activity p),
     vt_steps := (if vt_steps live \<noteq> [] then vt_steps live else vt_steps p)\<rparr>"

definition fields_of_run :: "variant_run \<Rightarrow> run_fields" where
  "fields_of_run r = \<lparr>
     rf_variants_id = vr_variants_id r, rf_session_id = vr_session_id r,
     rf_run_id = vr_run_id r, rf_agent_id = vr_agent_id r, rf_origin = vr_origin r,
     rf_strategy = vr_strategy r, rf_judge = vr_judge r, rf_n = vr_n r,
     rf_rubric = vr_rubric r\<rparr>"

definition merge_try_into :: "(nat \<times> variant_try) list \<Rightarrow> variant_try \<Rightarrow> (nat \<times> variant_try) list"
  where
  "merge_try_into m t = map_set m (vt_try_index t)
     (case map_of m (vt_try_index t) of None \<Rightarrow> t | Some earlier \<Rightarrow> mergeTry t earlier)"

definition mergeRun :: "variant_run \<Rightarrow> variant_run \<Rightarrow> variant_run" where
  "mergeRun live p =
     (let tries0 = foldl (\<lambda>m t. map_set m (vt_try_index t) t) [] (vr_tries p);
          tries = foldl merge_try_into tries0 (vr_tries live)
      in (runWith (Some p) (fields_of_run live))\<lparr>
           vr_run_id := or_else (vr_run_id p) (vr_run_id live),
           vr_anchor_message_id :=
             or_else (vr_anchor_message_id p) (vr_anchor_message_id live),
           vr_status := or_else (vr_status live) (vr_status p),
           vr_tries := js_sort (by_key try_key) (map snd tries),
           vr_selection := or_else (vr_selection live) (vr_selection p),
           vr_closure := or_else (vr_closure live) (vr_closure p)\<rparr>)"

definition mergeVariantRuns :: "variant_runs \<Rightarrow> variant_runs \<Rightarrow> variant_runs" where
  "mergeVariantRuns live persisted =
     foldl (\<lambda>merged (i, run). obj_put merged i
        (case obj_get persisted i of None \<Rightarrow> run | Some earlier \<Rightarrow> mergeRun run earlier))
       persisted live"

section \<open>The invariant\<close>

definition wf_try :: "string \<Rightarrow> variant_try \<Rightarrow> bool" where
  "wf_try vid t \<longleftrightarrow> vt_variants_id t = vid \<and> length (vt_activity t) \<le> MAX_TRY_ACTIVITY"

definition wf_run :: "variant_run \<Rightarrow> bool" where
  "wf_run r \<longleftrightarrow> sorted_wrt (<) (map vt_try_index (vr_tries r))
     \<and> list_all (wf_try (vr_variants_id r)) (vr_tries r)"

definition wf_runs :: "variant_runs \<Rightarrow> bool" where
  "wf_runs runs \<longleftrightarrow> keyed vr_variants_id runs \<and> (\<forall>k r. obj_get runs k = Some r \<longrightarrow> wf_run r)"

section \<open>Lemmas: the tries of a run\<close>

lemma strict_sorted_iff:
  "sorted_wrt (<) (map vt_try_index ts) \<longleftrightarrow>
     sorted (map try_key ts) \<and> distinct (map vt_try_index ts)"
proof -
  have "sorted (map try_key ts) \<longleftrightarrow> sorted (map vt_try_index ts)"
    by (induction ts) (auto simp: try_key_def)
  then show ?thesis by (simp add: strict_sorted_iff)
qed

lemma wf_run_iff:
  "wf_run r \<longleftrightarrow> sorted (map try_key (vr_tries r)) \<and> distinct (map vt_try_index (vr_tries r))
     \<and> (\<forall>t\<in>set (vr_tries r). wf_try (vr_variants_id r) t)"
  by (auto simp: wf_run_def strict_sorted_iff list_all_iff)

lemma withTry_frame [simp]:
  "vr_variants_id (withTry r t) = vr_variants_id r"
  "vr_session_id (withTry r t) = vr_session_id r"
  "vr_run_id (withTry r t) = vr_run_id r"
  "vr_status (withTry r t) = vr_status r"
  "vr_selection (withTry r t) = vr_selection r"
  "vr_closure (withTry r t) = vr_closure r"
  by (simp_all add: withTry_def)

lemma set_withTry:
  "set (vr_tries (withTry r t)) = insert t {c \<in> set (vr_tries r). vt_try_index c \<noteq> vt_try_index t}"
  by (auto simp: withTry_def)

lemma wf_withTry:
  assumes "wf_run r" "wf_try (vr_variants_id r) t"
  shows "wf_run (withTry r t)"
proof -
  have "distinct (map vt_try_index (vr_tries (withTry r t)))"
    using assms(1) by (auto simp: withTry_def wf_run_iff distinct_js_sort distinct_map_filter)
  moreover have "sorted (map try_key (vr_tries (withTry r t)))"
    by (simp add: withTry_def sorted_js_sort)
  ultimately show ?thesis
    using assms by (auto simp: wf_run_iff set_withTry)
qed

lemma find_unique_key:
  assumes "distinct (map k xs)" "x \<in> set xs" "k x = i"
  shows "find (\<lambda>y. k y = i) xs = Some x"
  using find_distinct_key [OF assms(1,2)] assms(3) by simp

lemma tryAt_iff:
  assumes "wf_run r"
  shows "tryAt r i = Some t \<longleftrightarrow> t \<in> set (vr_tries r) \<and> vt_try_index t = i"
  using assms find_unique_key [of vt_try_index "vr_tries r" t i]
  by (auto simp: tryAt_def wf_run_iff dest: find_Some_set)

lemma tryAt_SomeD: "tryAt r i = Some t \<Longrightarrow> t \<in> set (vr_tries r) \<and> vt_try_index t = i"
  by (auto simp: tryAt_def dest: find_Some_set)

lemma tryAt_wf: "wf_run r \<Longrightarrow> tryAt r i = Some t \<Longrightarrow> wf_try (vr_variants_id r) t"
  by (auto simp: wf_run_iff dest: tryAt_SomeD)

lemma tryAt_withTry:
  assumes "wf_run r" "wf_try (vr_variants_id r) t"
  shows "tryAt (withTry r t) i = (if i = vt_try_index t then Some t else tryAt r i)"
proof -
  have iff: "tryAt (withTry r t) i = Some u \<longleftrightarrow>
      (if i = vt_try_index t then Some t else tryAt r i) = Some u" for u
    using tryAt_iff [OF wf_withTry [OF assms]] tryAt_iff [OF assms(1)]
    by (auto simp: set_withTry)
  then show ?thesis by (metis option.exhaust)
qed

lemma wf_try_update [simp]:
  "wf_try v (t\<lparr>vt_score := a\<rparr>) = wf_try v t" "wf_try v (t\<lparr>vt_text := b\<rparr>) = wf_try v t"
  "wf_try v (t\<lparr>vt_scope := c\<rparr>) = wf_try v t" "wf_try v (t\<lparr>vt_thinking := d\<rparr>) = wf_try v t"
  "wf_try v (t\<lparr>vt_state := e\<rparr>) = wf_try v t" "wf_try v (t\<lparr>vt_run_id := g\<rparr>) = wf_try v t"
  by (simp_all add: wf_try_def)

lemma wf_emptyTry [simp]: "wf_try v (emptyTry v i)" "vt_try_index (emptyTry v i) = i"
  by (simp_all add: wf_try_def emptyTry_def)

lemma upserted_try_simps [simp]:
  "vt_try_index (upserted_try t p) = vt_try_index t" "wf_try v (upserted_try t p) = wf_try v t"
  by (simp_all add: upserted_try_def wf_try_def)

lemma delta_try_simps [simp]:
  "vt_try_index (delta_try t d) = vt_try_index t" "wf_try v (delta_try t d) = wf_try v t"
  "vt_state (delta_try t d) = vt_state t"
  by (simp_all add: delta_try_def)

section \<open>Lemmas: the run-level fields\<close>

lemma runWith_tries [simp]:
  "vr_tries (runWith existing f) = (case existing of None \<Rightarrow> [] | Some e \<Rightarrow> vr_tries e)"
  by (cases existing) (simp_all add: runWith_def new_run_def)

lemma runWith_id:
  "vr_variants_id (runWith existing f) =
     (case existing of None \<Rightarrow> rf_variants_id f | Some e \<Rightarrow> vr_variants_id e)"
  by (cases existing) (simp_all add: runWith_def new_run_def)

lemma wf_runs_get: "wf_runs runs \<Longrightarrow> obj_get runs k = Some r \<Longrightarrow> wf_run r \<and> vr_variants_id r = k"
  by (auto simp: wf_runs_def keyed_by_def)

lemma wf_runWith:
  assumes "wf_runs runs"
  shows "wf_run (runWith (obj_get runs (rf_variants_id f)) f)"
    and "vr_variants_id (runWith (obj_get runs (rf_variants_id f)) f) = rf_variants_id f"
  using wf_runs_get [OF assms, of "rf_variants_id f"]
  by (auto simp: wf_run_iff runWith_id split: option.splits)

lemma wf_runs_put:
  "wf_runs runs \<Longrightarrow> wf_run r \<Longrightarrow> vr_variants_id r = k \<Longrightarrow> wf_runs (obj_put runs k r)"
  by (auto simp: wf_runs_def obj_get_put intro: objs.keyed_put)

lemma wf_run_outcome [simp]:
  "wf_run (r\<lparr>vr_status := a, vr_selection := b\<rparr>) = wf_run r"
  "wf_run (r\<lparr>vr_status := a, vr_closure := c\<rparr>) = wf_run r"
  by (simp_all add: wf_run_def)

text \<open>
  The shape every projection shares: take the run, transform it by steps that keep its
  invariant and its id, write it back under its id.
\<close>

definition run_step :: "(variant_run \<Rightarrow> variant_run) \<Rightarrow> bool" where
  "run_step g \<longleftrightarrow> (\<forall>r. wf_run r \<longrightarrow> wf_run (g r) \<and> vr_variants_id (g r) = vr_variants_id r)"

lemma run_step_foldl:
  assumes "\<And>x. run_step (\<lambda>r. g r x)"
  shows "run_step (\<lambda>r. foldl g r xs)"
  unfolding run_step_def
proof (intro allI impI)
  fix r assume "wf_run r"
  then show "wf_run (foldl g r xs) \<and> vr_variants_id (foldl g r xs) = vr_variants_id r"
    using assms by (induction xs arbitrary: r) (auto simp: run_step_def)
qed

lemma run_stepD:
  "run_step g \<Longrightarrow> wf_run r \<Longrightarrow> wf_run (g r)"
  "run_step g \<Longrightarrow> wf_run r \<Longrightarrow> vr_variants_id (g r) = vr_variants_id r"
  by (auto simp: run_step_def)

lemma run_step_score_try: "run_step (\<lambda>r. score_try r row)"
  by (auto simp: run_step_def score_try_def intro!: wf_withTry dest: tryAt_wf split: option.splits)

lemma run_step_fill_chosen: "run_step (\<lambda>r. fill_chosen r i txt)"
  by (auto simp: run_step_def fill_chosen_def intro!: wf_withTry dest: tryAt_wf split: option.splits)

lemma run_step_keep_candidate: "run_step (\<lambda>r. keep_candidate rid r c)"
  by (auto simp: run_step_def keep_candidate_def intro!: wf_withTry dest: tryAt_wf
      split: option.splits)

section \<open>Lemmas: every projection keeps the invariant\<close>

lemma wf_upsertVariantTry: "wf_runs runs \<Longrightarrow> wf_runs (upsertVariantTry runs p)"
proof -
  assume wf: "wf_runs runs"
  let ?r = "runWith (obj_get runs (rf_variants_id (vu_run p))) (vu_run p)"
  note r = wf_runWith [OF wf, of "vu_run p"]
  have "wf_try (vr_variants_id ?r) (coalesce (tryAt ?r (vu_try_index p))
      (emptyTry (rf_variants_id (vu_run p)) (vu_try_index p)))"
    using r tryAt_wf [OF r(1)] by (cases "tryAt ?r (vu_try_index p)") auto
  then have "wf_run (withTry ?r (upserted_try (coalesce (tryAt ?r (vu_try_index p))
      (emptyTry (rf_variants_id (vu_run p)) (vu_try_index p))) p))"
    by (intro wf_withTry r) simp
  then show ?thesis
    unfolding upsertVariantTry_def Let_def by (intro wf_runs_put wf) simp_all
qed

lemma wf_runs_update_try:
  assumes "wf_runs runs" "obj_get runs k = Some run" "tryAt run i = Some cur"
    and "wf_try (vr_variants_id run) cur \<Longrightarrow> wf_try (vr_variants_id run) nxt"
  shows "wf_runs (obj_put runs (vr_variants_id run) (withTry run nxt))"
proof -
  from wf_runs_get [OF assms(1,2)] have "wf_run run" by simp
  moreover have "wf_try (vr_variants_id run) nxt"
    using tryAt_wf [OF \<open>wf_run run\<close> assms(3)] by (rule assms(4))
  ultimately show ?thesis by (intro wf_runs_put assms(1) wf_withTry) simp_all
qed

lemma wf_appendVariantDelta:
  "wf_runs runs \<Longrightarrow> appendVariantDelta runs d = Some runs' \<Longrightarrow> wf_runs runs'"
  by (auto simp: appendVariantDelta_def split: option.splits if_splits
      intro: wf_runs_update_try)

lemma wf_selectVariant: "wf_runs runs \<Longrightarrow> wf_runs (selectVariant runs s)"
proof -
  assume wf: "wf_runs runs"
  let ?r = "runWith (obj_get runs (rf_variants_id (vsel_run s))) (vsel_run s)"
  have step: "run_step (\<lambda>r. foldl score_try r (given_scores (vsel_scores s)))"
    by (rule run_step_foldl) (rule run_step_score_try)
  let ?r1 = "foldl score_try ?r (given_scores (vsel_scores s))"
  have r1: "wf_run ?r1" using run_stepD(1) [OF step] wf_runWith(1) [OF wf] by blast
  note r2 = run_stepD [OF run_step_fill_chosen r1]
  show ?thesis
    unfolding selectVariant_def Let_def by (intro wf_runs_put wf) (simp_all add: r2(1))
qed

lemma wf_closeVariant: "wf_runs runs \<Longrightarrow> wf_runs (closeVariant runs c)"
proof -
  assume wf: "wf_runs runs"
  have step: "run_step (\<lambda>r. foldl (keep_candidate (rf_run_id (vcl_run c))) r (vcl_candidates c))"
    by (rule run_step_foldl) (rule run_step_keep_candidate)
  note r1 = run_stepD [OF step wf_runWith(1) [OF wf]]
  show ?thesis
    unfolding closeVariant_def Let_def by (intro wf_runs_put wf) (simp_all add: r1(1))
qed

lemma wf_recordVariantActivity:
  "wf_runs runs \<Longrightarrow> recordVariantActivity runs e = Some runs' \<Longrightarrow> wf_runs runs'"
  by (auto simp: recordVariantActivity_def wf_try_def split: option.splits if_splits prod.splits
      intro!: wf_runs_update_try)

section \<open>Lemmas: the merge of a reload\<close>

text \<open>A map of tries whose entries are stored under their own index.\<close>

definition try_map :: "string \<Rightarrow> (nat \<times> variant_try) list \<Rightarrow> bool" where
  "try_map vid m \<longleftrightarrow> distinct (map fst m) \<and> (\<forall>(i, t)\<in>set m. vt_try_index t = i \<and> wf_try vid t)"

lemma try_map_Nil: "try_map vid []"
  by (simp add: try_map_def)

lemma try_map_set:
  assumes "try_map vid m" "vt_try_index t = i" "wf_try vid t"
  shows "try_map vid (map_set m i t)"
proof -
  have "set (map_set m i t) \<subseteq> insert (i, t) (set m)"
    by (induction m i t rule: map_set.induct) auto
  then show ?thesis using assms by (auto simp: try_map_def distinct_map_set)
qed

lemma mergeTry_simps [simp]:
  "vt_try_index (mergeTry t p) = vt_try_index t"
  "vt_variants_id (mergeTry t p) = vt_variants_id t"
  "wf_try v t \<Longrightarrow> wf_try v p \<Longrightarrow> wf_try v (mergeTry t p)"
  by (simp_all add: mergeTry_def wf_try_def)

lemma mergeTry_idem [simp]: "mergeTry (mergeTry t p) p = mergeTry t p" "mergeTry t t = t"
  by (simp_all add: mergeTry_def str_or_def or_else_def split: option.split)

lemma disjoint_insertI: "A \<subseteq> insert k F \<Longrightarrow> k \<notin> I \<Longrightarrow> F \<inter> I = {} \<Longrightarrow> A \<inter> I = {}"
  by blast

lemma find_key_fresh: "distinct (map k (x # xs)) \<Longrightarrow> find (\<lambda>u. k u = k x) xs = None"
  by (auto simp: find_None_iff image_iff)

lemma try_map_of_tries:
  assumes "distinct (map vt_try_index ts)" "\<forall>t\<in>set ts. wf_try vid t" "try_map vid m"
    and "fst ` set m \<inter> vt_try_index ` set ts = {}"
  shows "try_map vid (foldl (\<lambda>m t. map_set m (vt_try_index t) t) m ts)
    \<and> map_of (foldl (\<lambda>m t. map_set m (vt_try_index t) t) m ts) i =
       or_else (find (\<lambda>t. vt_try_index t = i) ts) (map_of m i)"
  using assms
proof (induction ts arbitrary: m)
  case (Cons t ts)
  let ?next = "map_set m (vt_try_index t) t"
  have "fst ` set ?next \<subseteq> insert (vt_try_index t) (fst ` set m)"
    by (auto simp: keys_map_set simp flip: set_map)
  moreover have "vt_try_index t \<notin> vt_try_index ` set ts" "fst ` set m \<inter> vt_try_index ` set ts = {}"
    using Cons.prems(1,4) by auto
  ultimately have "fst ` set ?next \<inter> vt_try_index ` set ts = {}"
    by (rule disjoint_insertI)
  moreover have "try_map vid ?next"
    using Cons.prems by (auto intro: try_map_set)
  ultimately have IH: "try_map vid (foldl (\<lambda>m t. map_set m (vt_try_index t) t) ?next ts)
      \<and> map_of (foldl (\<lambda>m t. map_set m (vt_try_index t) t) ?next ts) i =
         or_else (find (\<lambda>t. vt_try_index t = i) ts) (map_of ?next i)"
    using Cons.prems by (intro Cons.IH) auto
  show ?case
    using IH find_key_fresh [OF Cons.prems(1)] by (auto simp: map_of_map_set)
qed simp

lemma merge_try_fold:
  assumes "distinct (map vt_try_index ts)" "\<forall>t\<in>set ts. wf_try vid t" "try_map vid m"
  shows "try_map vid (foldl merge_try_into m ts)
    \<and> map_of (foldl merge_try_into m ts) i =
       (case find (\<lambda>t. vt_try_index t = i) ts of
          None \<Rightarrow> map_of m i
        | Some t \<Rightarrow> Some (case map_of m i of None \<Rightarrow> t | Some e \<Rightarrow> mergeTry t e))"
  using assms
proof (induction ts arbitrary: m)
  case (Cons t ts)
  have wf: "wf_try vid (case map_of m (vt_try_index t) of None \<Rightarrow> t | Some e \<Rightarrow> mergeTry t e)"
    using Cons.prems by (auto simp: try_map_def split: option.splits dest: map_of_SomeD)
  have "try_map vid (merge_try_into m t)"
    unfolding merge_try_into_def using Cons.prems wf
    by (intro try_map_set) (auto split: option.splits)
  moreover note find_key_fresh [OF Cons.prems(1)]
  moreover have "map_of (merge_try_into m t) i =
      (if i = vt_try_index t then Some (case map_of m i of None \<Rightarrow> t | Some e \<Rightarrow> mergeTry t e)
       else map_of m i)"
    by (simp add: merge_try_into_def map_of_map_set)
  ultimately show ?case
    using Cons.prems Cons.IH [of "merge_try_into m t"] by (auto split: option.split)
qed simp

lemma tries_of_try_map:
  assumes "try_map vid m"
  shows "distinct (map vt_try_index (map snd m))" "\<forall>t\<in>set (map snd m). wf_try vid t"
    and "find (\<lambda>t. vt_try_index t = i) (js_sort cmp (map snd m)) = map_of m i"
proof -
  have keys: "map vt_try_index (map snd m) = map fst m"
    using assms by (auto simp: try_map_def)
  show d: "distinct (map vt_try_index (map snd m))"
    unfolding keys using assms by (simp add: try_map_def)
  show "\<forall>t\<in>set (map snd m). wf_try vid t"
    using assms by (auto simp: try_map_def)
  have "find (\<lambda>t. vt_try_index t = i) (js_sort cmp (map snd m)) = Some t \<longleftrightarrow> map_of m i = Some t" for t
  proof
    assume "find (\<lambda>t. vt_try_index t = i) (js_sort cmp (map snd m)) = Some t"
    then have "t \<in> set (map snd m)" "vt_try_index t = i" by (auto dest: find_Some_set)
    then show "map_of m i = Some t"
      using assms by (auto simp: try_map_def)
  next
    assume "map_of m i = Some t"
    then have "(i, t) \<in> set m" by (rule map_of_SomeD)
    then have "t \<in> set (js_sort cmp (map snd m))" "vt_try_index t = i"
      using assms by (force simp: try_map_def)+
    moreover have "distinct (map vt_try_index (js_sort cmp (map snd m)))"
      using d by (simp add: distinct_js_sort)
    ultimately show "find (\<lambda>t. vt_try_index t = i) (js_sort cmp (map snd m)) = Some t"
      by (intro find_unique_key)
  qed
  then show "find (\<lambda>t. vt_try_index t = i) (js_sort cmp (map snd m)) = map_of m i"
    by (metis option.exhaust)
qed

definition merged_try :: "variant_try option \<Rightarrow> variant_try option \<Rightarrow> variant_try option" where
  "merged_try live p = (case live of
      None \<Rightarrow> p
    | Some t \<Rightarrow> Some (case p of None \<Rightarrow> t | Some e \<Rightarrow> mergeTry t e))"

lemma mergeRun_tries:
  assumes "wf_run live" "wf_run p" "vr_variants_id live = vr_variants_id p"
  shows "wf_run (mergeRun live p)"
    and "vr_variants_id (mergeRun live p) = vr_variants_id p"
    and "tryAt (mergeRun live p) i = merged_try (tryAt live i) (tryAt p i)"
proof -
  let ?base = "foldl (\<lambda>m t. map_set m (vt_try_index t) t) [] (vr_tries p)"
  let ?m = "foldl merge_try_into ?base (vr_tries live)"
  have m0: "try_map (vr_variants_id p) ?base \<and> map_of ?base j = tryAt p j" for j
    using try_map_of_tries [of "vr_tries p" "vr_variants_id p" "[]" j] assms(2)
    by (simp add: wf_run_iff try_map_Nil tryAt_def)
  have m: "try_map (vr_variants_id p) ?m
      \<and> map_of ?m j = merged_try (tryAt live j) (tryAt p j)" for j
  proof -
    have "distinct (map vt_try_index (vr_tries live))"
      and "\<forall>t\<in>set (vr_tries live). wf_try (vr_variants_id p) t"
      using assms(1,3) by (simp_all add: wf_run_iff)
    from merge_try_fold [OF this, of ?base j] m0 [of j] show ?thesis
      by (auto simp: merged_try_def tryAt_def split: option.splits)
  qed
  have tries: "vr_tries (mergeRun live p) = js_sort (by_key try_key) (map snd ?m)"
    by (simp add: mergeRun_def Let_def)
  show vid: "vr_variants_id (mergeRun live p) = vr_variants_id p"
    by (simp add: mergeRun_def Let_def runWith_id)
  show "wf_run (mergeRun live p)"
    unfolding wf_run_iff vid tries
    using tries_of_try_map(1,2) [OF conjunct1 [OF m]]
    by (simp add: sorted_js_sort distinct_js_sort del: map_map)
  show "tryAt (mergeRun live p) i = merged_try (tryAt live i) (tryAt p i)"
    using tries_of_try_map(3) [of "vr_variants_id p" ?m] m by (simp add: tryAt_def tries)
qed

lemma run_eqI:
  assumes "wf_run a" "wf_run b" "\<And>i. tryAt a i = tryAt b i"
  shows "vr_tries a = vr_tries b"
proof -
  have "set (vr_tries a) = set (vr_tries b)"
    using tryAt_iff [OF assms(1)] tryAt_iff [OF assms(2)] assms(3) by (metis subsetI subset_antisym)
  moreover have "inj_on vt_try_index (set (vr_tries a) \<union> set (vr_tries b))"
    using assms(1) calculation by (simp add: wf_run_iff distinct_map)
  ultimately show ?thesis
    using assms(1,2) unfolding wf_run_def
    by (metis (no_types, lifting) Un_absorb inj_on_map_eq_map list.set_map strict_sorted_equal)
qed

lemma mergeRun_idem:
  assumes "wf_run live" "wf_run p" "vr_variants_id live = vr_variants_id p"
  shows "mergeRun (mergeRun live p) p = mergeRun live p"
proof -
  note once = mergeRun_tries [OF assms]
  note twice = mergeRun_tries [OF once(1) assms(2) once(2)]
  have "merged_try (merged_try a b) b = merged_try a b" for a b
    by (auto simp: merged_try_def split: option.splits)
  then have "vr_tries (mergeRun (mergeRun live p) p) = vr_tries (mergeRun live p)"
    by (intro run_eqI twice once) (simp add: twice(3) once(3))
  moreover have "mergeRun (mergeRun live p) p = (mergeRun live p)\<lparr>vr_tries :=
      vr_tries (mergeRun (mergeRun live p) p)\<rparr>"
    by (simp add: mergeRun_def Let_def runWith_def fields_of_run_def or_else_def str_or_def
        split: option.split)
  ultimately show ?thesis by simp
qed

lemma obj_get_merge_fold:
  assumes "distinct (map fst live)"
  shows "obj_get (foldl (\<lambda>merged (i, run). obj_put merged i (g i run)) m live) k =
    (case obj_get live k of None \<Rightarrow> obj_get m k | Some r \<Rightarrow> Some (g k r))"
  using assms
proof (induction live arbitrary: m)
  case (Cons q live)
  obtain k1 r1 where q: "q = (k1, r1)" by (cases q)
  from Cons.prems q have "obj_get live k1 = None"
    by (simp add: obj_get_def map_of_eq_None_iff)
  with Cons.IH [of "obj_put m k1 (g k1 r1)"] Cons.prems q show ?case
    by (auto simp: obj_get_put obj_get_Cons split: option.splits)
qed simp

lemma obj_get_mergeVariantRuns:
  assumes "wf_obj live"
  shows "obj_get (mergeVariantRuns live p) k =
    (case obj_get live k of
       None \<Rightarrow> obj_get p k
     | Some r \<Rightarrow> Some (case obj_get p k of None \<Rightarrow> r | Some e \<Rightarrow> mergeRun r e))"
  using assms unfolding mergeVariantRuns_def wf_obj_def by (simp add: obj_get_merge_fold)

lemma wf_mergeVariantRuns:
  assumes "wf_obj live" "wf_runs live" "wf_runs p"
  shows "wf_runs (mergeVariantRuns live p)"
proof -
  have "wf_run r \<and> vr_variants_id r = k" if "obj_get (mergeVariantRuns live p) k = Some r" for k r
    using that assms(1) wf_runs_get [OF assms(2), of k] wf_runs_get [OF assms(3), of k]
      mergeRun_tries(1,2)
    by (auto simp: obj_get_mergeVariantRuns split: option.splits)
  then show ?thesis by (auto simp: wf_runs_def keyed_by_def)
qed

section \<open>Lemmas: what a projection leaves of a try\<close>

text \<open>Applying the deltas of a list in order, stopping at the first that has no try.\<close>

definition append_deltas :: "variant_runs \<Rightarrow> variant_try_delta list \<Rightarrow> variant_runs option" where
  "append_deltas runs ds = foldl (\<lambda>acc d. case acc of
      None \<Rightarrow> None | Some r \<Rightarrow> appendVariantDelta r d) (Some runs) ds"

lemma append_deltas_simps [simp]:
  "append_deltas runs [] = Some runs"
  "append_deltas runs (d # ds) = (case appendVariantDelta runs d of
      None \<Rightarrow> None | Some r \<Rightarrow> append_deltas r ds)"
proof -
  have "foldl (\<lambda>acc d. case acc of None \<Rightarrow> None | Some r \<Rightarrow> appendVariantDelta r d) None ds = None"
    by (induction ds) auto
  then show "append_deltas runs (d # ds) = (case appendVariantDelta runs d of
      None \<Rightarrow> None | Some r \<Rightarrow> append_deltas r ds)"
    by (auto simp: append_deltas_def split: option.splits)
qed (simp add: append_deltas_def)

text \<open>One delta to a running try: the try it leaves, and nothing else touched.\<close>

lemma appendVariantDelta_running:
  assumes "wf_runs runs" "obj_get runs vid = Some run" "tryAt run i = Some t"
    and "vt_state t = TryRunning" "vd_variants_id d = vid" "vd_try_index d = i"
  shows "appendVariantDelta runs d = Some (obj_put runs vid (withTry run (delta_try t d)))"
    and "wf_run run" "wf_try (vr_variants_id run) (delta_try t d)"
    and "vt_try_index (delta_try t d) = i"
  using assms wf_runs_get [OF assms(1,2)] tryAt_wf [of run i t] tryAt_SomeD [of run i t]
  by (auto simp: appendVariantDelta_def)

definition text_deltas :: "variant_try_delta list \<Rightarrow> string" where
  "text_deltas ds = concat (map vd_delta (filter (\<lambda>d. vd_kind d \<noteq> DeltaThinking) ds))"

definition thinking_deltas :: "variant_try_delta list \<Rightarrow> string" where
  "thinking_deltas ds = concat (map vd_delta (filter (\<lambda>d. vd_kind d = DeltaThinking) ds))"

lemma append_deltas_running:
  assumes "wf_runs runs" "obj_get runs vid = Some run" "tryAt run i = Some t"
    and "vt_state t = TryRunning"
    and "\<forall>d\<in>set ds. vd_variants_id d = vid \<and> vd_try_index d = i"
  shows "\<exists>runs' run' t'. append_deltas runs ds = Some runs'
    \<and> obj_get runs' vid = Some run' \<and> tryAt run' i = Some t'
    \<and> vt_text t' = vt_text t @ text_deltas ds
    \<and> vt_thinking t' = vt_thinking t @ thinking_deltas ds
    \<and> (\<forall>j. j \<noteq> i \<longrightarrow> tryAt run' j = tryAt run j)
    \<and> (\<forall>k. k \<noteq> vid \<longrightarrow> obj_get runs' k = obj_get runs k)"
  using assms
proof (induction ds arbitrary: runs run t)
  case Nil
  then show ?case by (simp add: text_deltas_def thinking_deltas_def)
next
  case (Cons d ds)
  let ?t = "delta_try t d" and ?run = "withTry run (delta_try t d)"
  let ?runs = "obj_put runs vid ?run"
  note one = appendVariantDelta_running [OF Cons.prems(1-4), of d]
  have d: "vd_variants_id d = vid" "vd_try_index d = i" using Cons.prems(5) by auto
  have wf: "wf_runs ?runs"
    using wf_appendVariantDelta [OF Cons.prems(1)] one(1) d by blast
  have at: "tryAt ?run j = (if j = i then Some ?t else tryAt run j)" for j
    using tryAt_withTry [OF one(2,3)] one(4) d by simp
  from Cons.IH [OF wf, of ?run ?t] Cons.prems(4,5) at
  obtain runs' run' t' where ih: "append_deltas ?runs ds = Some runs'"
    "obj_get runs' vid = Some run'" "tryAt run' i = Some t'"
    "vt_text t' = vt_text ?t @ text_deltas ds"
    "vt_thinking t' = vt_thinking ?t @ thinking_deltas ds"
    "\<forall>j. j \<noteq> i \<longrightarrow> tryAt run' j = tryAt run j"
    "\<forall>k. k \<noteq> vid \<longrightarrow> obj_get runs' k = obj_get ?runs k"
    by auto
  have "append_deltas runs (d # ds) = Some runs'" using one(1) d ih(1) by simp
  moreover have "vt_text t' = vt_text t @ text_deltas (d # ds)"
    "vt_thinking t' = vt_thinking t @ thinking_deltas (d # ds)"
    using ih(4,5) by (auto simp: delta_try_def text_deltas_def thinking_deltas_def)
  ultimately show ?case using ih(2,3,6,7) by (auto simp: obj_get_put)
qed

lemma append_deltas_ended:
  assumes "obj_get runs vid = Some run" "tryAt run i = Some t" "vt_state t \<noteq> TryRunning"
    and "\<forall>d\<in>set ds. vd_variants_id d = vid \<and> vd_try_index d = i"
  shows "append_deltas runs ds = Some runs"
  using assms by (induction ds) (auto simp: appendVariantDelta_def)

lemma upsertVariantTry_at:
  fixes p :: variant_try_upsert
  assumes "wf_runs runs"
  defines "run \<equiv> runWith (obj_get runs (rf_variants_id (vu_run p))) (vu_run p)"
  shows "\<exists>run'. obj_get (upsertVariantTry runs p) (rf_variants_id (vu_run p)) = Some run'
    \<and> tryAt run' (vu_try_index p) = Some (upserted_try (coalesce (tryAt run (vu_try_index p))
        (emptyTry (rf_variants_id (vu_run p)) (vu_try_index p))) p)
    \<and> (\<forall>j. j \<noteq> vu_try_index p \<longrightarrow> tryAt run' j = tryAt run j)"
proof -
  note r = wf_runWith [OF assms(1), of "vu_run p", folded run_def]
  let ?t = "coalesce (tryAt run (vu_try_index p))
              (emptyTry (rf_variants_id (vu_run p)) (vu_try_index p))"
  have t: "wf_try (vr_variants_id run) ?t" "vt_try_index ?t = vu_try_index p"
    using r tryAt_wf [OF r(1)] tryAt_SomeD by (cases "tryAt run (vu_try_index p)"; force)+
  then show ?thesis
    using tryAt_withTry [OF r(1), of "upserted_try ?t p"] r(2)
    by (auto simp: upsertVariantTry_def Let_def run_def [symmetric])
qed

text \<open>
  Filling a run from results it is given: a fill may add a try or complete one, it
  never changes a score or a non-empty text a try already has.
\<close>

definition fills :: "variant_run \<Rightarrow> variant_run \<Rightarrow> bool" where
  "fills r r' \<longleftrightarrow> (\<forall>i t. tryAt r i = Some t \<longrightarrow> (\<exists>t'. tryAt r' i = Some t'
     \<and> (vt_text t \<noteq> [] \<longrightarrow> vt_text t' = vt_text t)
     \<and> (vt_score t \<noteq> None \<longrightarrow> vt_score t' = vt_score t)
     \<and> vt_state t' = vt_state t))"

lemma fills_refl: "fills r r"
  by (simp add: fills_def)

lemma fills_trans: "fills a b \<Longrightarrow> fills b c \<Longrightarrow> fills a c"
  unfolding fills_def by (metis (no_types, lifting))

lemma fills_withTry:
  assumes "wf_run r" "wf_try (vr_variants_id r) t'"
    and "\<And>t. tryAt r (vt_try_index t') = Some t \<Longrightarrow>
          (vt_text t \<noteq> [] \<longrightarrow> vt_text t' = vt_text t)
          \<and> (vt_score t \<noteq> None \<longrightarrow> vt_score t' = vt_score t) \<and> vt_state t' = vt_state t"
  shows "fills r (withTry r t')"
  using assms by (auto simp: fills_def tryAt_withTry)

lemma fills_update:
  assumes "wf_run r" "tryAt r i = Some t" "vt_try_index t' = vt_try_index t"
    and "wf_try (vr_variants_id r) t \<Longrightarrow> wf_try (vr_variants_id r) t'"
    and "vt_text t \<noteq> [] \<longrightarrow> vt_text t' = vt_text t"
    and "vt_score t \<noteq> None \<longrightarrow> vt_score t' = vt_score t" "vt_state t' = vt_state t"
  shows "fills r (withTry r t')"
proof (rule fills_withTry)
  show "wf_try (vr_variants_id r) t'" using tryAt_wf [OF assms(1,2)] by (rule assms(4))
  fix u assume "tryAt r (vt_try_index t') = Some u"
  then have "u = t" using assms(2,3) tryAt_SomeD by fastforce
  then show "(vt_text u \<noteq> [] \<longrightarrow> vt_text t' = vt_text u)
      \<and> (vt_score u \<noteq> None \<longrightarrow> vt_score t' = vt_score u) \<and> vt_state t' = vt_state u"
    using assms(5-7) by blast
qed (rule assms(1))

lemma fills_score_try: "wf_run r \<Longrightarrow> fills r (score_try r row)"
  by (auto simp: score_try_def intro: fills_refl fills_update split: option.split)

lemma fills_fill_chosen: "wf_run r \<Longrightarrow> fills r (fill_chosen r i txt)"
  by (auto simp: fill_chosen_def intro: fills_refl fills_update split: option.split)

lemma fills_keep_candidate:
  assumes "wf_run r"
  shows "fills r (keep_candidate rid r c)"
proof (cases "tryAt r (cand_try_index c)")
  case None
  then show ?thesis using assms by (auto simp: keep_candidate_def intro!: fills_withTry)
next
  case (Some t)
  then show ?thesis using assms by (auto simp: keep_candidate_def intro: fills_refl fills_update)
qed

lemma fills_foldl:
  assumes "\<And>x. run_step (\<lambda>r. g r x)" "\<And>r x. wf_run r \<Longrightarrow> fills r (g r x)" "wf_run r"
  shows "fills r (foldl g r xs)"
  using assms(3)
proof (induction xs arbitrary: r)
  case (Cons x xs)
  from Cons.IH [OF run_stepD(1) [OF assms(1) Cons.prems]] assms(2) [OF Cons.prems]
  show ?case by (auto intro: fills_trans)
qed (simp add: fills_refl)

lemma keep_candidate_resident:
  assumes "wf_run r"
  shows "\<exists>t. tryAt (keep_candidate rid r c) (cand_try_index c) = Some t
    \<and> (cand_text c \<noteq> [] \<longrightarrow> vt_text t \<noteq> [])"
  using assms tryAt_wf [OF assms] tryAt_SomeD
  by (fastforce simp: keep_candidate_def tryAt_withTry split: option.split)

lemma keep_candidates_resident:
  assumes "wf_run r" "c \<in> set cs"
  shows "\<exists>t. tryAt (foldl (keep_candidate rid) r cs) (cand_try_index c) = Some t
    \<and> (cand_text c \<noteq> [] \<longrightarrow> vt_text t \<noteq> [])"
  using assms
proof (induction cs arbitrary: r)
  case (Cons d cs)
  have wf: "wf_run (keep_candidate rid r d)"
    by (rule run_stepD(1) [OF run_step_keep_candidate Cons.prems(1)])
  show ?case
  proof (cases "c \<in> set cs")
    case True
    then show ?thesis using Cons.IH [OF wf] by simp
  next
    case False
    with Cons.prems have "c = d" by simp
    with keep_candidate_resident [OF Cons.prems(1)] obtain t where
      t: "tryAt (keep_candidate rid r d) (cand_try_index c) = Some t"
      "cand_text c \<noteq> [] \<longrightarrow> vt_text t \<noteq> []" by blast
    have "fills (keep_candidate rid r d) (foldl (keep_candidate rid) (keep_candidate rid r d) cs)"
      by (rule fills_foldl [OF run_step_keep_candidate fills_keep_candidate wf])
    with t show ?thesis by (fastforce simp: fills_def)
  qed
qed simp

section \<open>Properties\<close>

text \<open>A small run for the witnesses: one try of the run \<open>v1\<close>, still running.\<close>

definition ex_fields :: run_fields where
  "ex_fields = \<lparr>rf_variants_id = ''v1'', rf_session_id = ''s1'', rf_run_id = None,
     rf_agent_id = ''a'', rf_origin = OriginDraftAlternatives, rf_strategy = StrategyBestOfN,
     rf_judge = JudgeUser, rf_n = 2, rf_rubric = None\<rparr>"

definition ex_upsert :: "nat \<Rightarrow> try_state \<Rightarrow> string option \<Rightarrow> variant_try_upsert" where
  "ex_upsert i st txt = \<lparr>vu_id = [], vu_run = ex_fields, vu_try_index = i, vu_scope = ''a#run'',
     vu_state = st, vu_text = txt, vu_tokens = None, vu_score = None, vu_error = None,
     vu_forked_from = None, vu_advice = None\<rparr>"

definition ex_runs :: variant_runs where
  "ex_runs = upsertVariantTry [] (ex_upsert 0 TryRunning None)"

lemma wf_runs_Nil [simp]: "wf_runs []"
  by (simp add: wf_runs_def keyed_by_def)

lemma wf_ex_runs: "wf_runs ex_runs"
  by (simp add: ex_runs_def wf_upsertVariantTry)

text \<open>
  C22. Every projection of a variant frame keeps the runs well formed: each run is stored
  under its own \<open>variants_id\<close>, its tries are in strictly ascending \<open>try_index\<close> order (so
  one try per index), each try belongs to its run, and no activity log grows past 200
  rows.
\<close>
theorem variant_projections_keep_runs_well_formed:
  assumes "wf_runs runs"
  shows "wf_runs (upsertVariantTry runs u)
    \<and> (\<forall>runs'. appendVariantDelta runs d = Some runs' \<longrightarrow> wf_runs runs')
    \<and> wf_runs (selectVariant runs s)
    \<and> wf_runs (closeVariant runs c)
    \<and> (\<forall>runs'. recordVariantActivity runs e = Some runs' \<longrightarrow> wf_runs runs')"
  using assms wf_upsertVariantTry wf_appendVariantDelta wf_selectVariant wf_closeVariant
    wf_recordVariantActivity by blast

theorem variant_projections_keep_runs_well_formed_witness:
  "wf_runs (upsertVariantTry ex_runs (ex_upsert 1 TryCompleted (Some ''b'')))"
  using variant_projections_keep_runs_well_formed [OF wf_ex_runs] by blast

text \<open>
  A running try accumulates its live stream: after any sequence of deltas to it, its
  text is the earlier text followed by the text deltas in order, its thinking likewise,
  every delta was accepted, and no other try and no other run changed.
\<close>
lemma variant_stream_accumulates:
  assumes "wf_runs runs" "obj_get runs vid = Some run" "tryAt run i = Some t"
    and "vt_state t = TryRunning"
    and "\<forall>d\<in>set ds. vd_variants_id d = vid \<and> vd_try_index d = i"
  shows "\<exists>runs' run' t'. append_deltas runs ds = Some runs'
    \<and> obj_get runs' vid = Some run' \<and> tryAt run' i = Some t'
    \<and> vt_text t' = vt_text t @ text_deltas ds
    \<and> vt_thinking t' = vt_thinking t @ thinking_deltas ds
    \<and> (\<forall>j. j \<noteq> i \<longrightarrow> tryAt run' j = tryAt run j)
    \<and> (\<forall>k. k \<noteq> vid \<longrightarrow> obj_get runs' k = obj_get runs k)"
  using assms by (rule append_deltas_running)

text \<open>The run and the try of \<open>ex_runs\<close>, evaluated.\<close>

text \<open>
  The text of an ended try is authoritative: once an upsert has ended a try with a
  text, that text is what the try shows, and no later delta changes anything.
\<close>
lemma variant_ended_text_is_final:
  assumes "wf_runs runs" "vu_state p \<noteq> TryRunning" "vu_text p = Some txt"
    and "\<forall>d\<in>set ds. vd_variants_id d = rf_variants_id (vu_run p) \<and> vd_try_index d = vu_try_index p"
  shows "append_deltas (upsertVariantTry runs p) ds = Some (upsertVariantTry runs p)
    \<and> (\<exists>run t. obj_get (upsertVariantTry runs p) (rf_variants_id (vu_run p)) = Some run
        \<and> tryAt run (vu_try_index p) = Some t \<and> vt_text t = txt)"
proof -
  from upsertVariantTry_at [OF assms(1), of p] obtain run t where
    run: "obj_get (upsertVariantTry runs p) (rf_variants_id (vu_run p)) = Some run"
    and t: "tryAt run (vu_try_index p) = Some (upserted_try t p)" by blast
  have "vt_text (upserted_try t p) = txt" "vt_state (upserted_try t p) \<noteq> TryRunning"
    using assms(2,3) by (simp_all add: upserted_try_def)
  with append_deltas_ended [OF run t] assms(4) run t show ?thesis by blast
qed

text \<open>
  Closing a run without a pick keeps every draft it offered: each candidate is a try
  of the run afterwards, with a text when the candidate has one; a try that already had a
  text or a score keeps it; and the run records the closing status and its closure.
\<close>
lemma variant_close_keeps_drafts:
  fixes c :: variant_closed
  assumes "wf_runs runs"
  defines "start \<equiv> runWith (obj_get runs (rf_variants_id (vcl_run c))) (vcl_run c)"
  shows "\<exists>run. obj_get (closeVariant runs c) (rf_variants_id (vcl_run c)) = Some run
    \<and> vr_status run = Some (status_of_closed (vcl_status c))
    \<and> map_option vc_status (vr_closure run) = Some (vcl_status c)
    \<and> (\<forall>cand\<in>set (vcl_candidates c). \<exists>t. tryAt run (cand_try_index cand) = Some t
          \<and> (cand_text cand \<noteq> [] \<longrightarrow> vt_text t \<noteq> []))
    \<and> fills start run"
proof -
  note r = wf_runWith [OF assms(1), of "vcl_run c", folded start_def]
  let ?fin = "foldl (keep_candidate (rf_run_id (vcl_run c))) start (vcl_candidates c)"
  have step: "run_step (\<lambda>r. foldl (keep_candidate (rf_run_id (vcl_run c))) r (vcl_candidates c))"
    by (rule run_step_foldl) (rule run_step_keep_candidate)
  have vid: "vr_variants_id ?fin = rf_variants_id (vcl_run c)"
    using run_stepD(2) [OF step r(1)] r(2) by simp
  have fill: "fills start ?fin"
    by (rule fills_foldl [OF run_step_keep_candidate fills_keep_candidate r(1)])
  have at: "tryAt (x\<lparr>vr_status := a, vr_closure := b\<rparr>) i = tryAt x i" for x a b i
    by (simp add: tryAt_def)
  show ?thesis
    using keep_candidates_resident [OF r(1)] fill
    by (simp add: closeVariant_def Let_def start_def [symmetric] vid fills_def at)
qed

text \<open>
  A selection completes a run without contradicting it: the run is selected with the
  given scores and pick, a try's own score or non-empty text is never overwritten, and
  the chosen try, when resident, has a text whenever the selection carries one.
\<close>
lemma variant_selection_completes_run:
  fixes s :: variant_selected
  assumes "wf_runs runs"
  defines "start \<equiv> runWith (obj_get runs (rf_variants_id (vsel_run s))) (vsel_run s)"
  shows "\<exists>run sel. obj_get (selectVariant runs s) (rf_variants_id (vsel_run s)) = Some run
    \<and> vr_status run = Some VrSelected \<and> vr_selection run = Some sel
    \<and> vs_selected_index sel = vsel_selected_index s \<and> vs_scores sel = given_scores (vsel_scores s)
    \<and> fills start run
    \<and> (\<forall>t. tryAt run (vsel_selected_index s) = Some t \<longrightarrow> vsel_text s \<noteq> [] \<longrightarrow> vt_text t \<noteq> [])"
proof -
  note r = wf_runWith [OF assms(1), of "vsel_run s", folded start_def]
  let ?scored = "foldl score_try start (given_scores (vsel_scores s))"
  let ?fin = "fill_chosen ?scored (vsel_selected_index s) (vsel_text s)"
  have step: "run_step (\<lambda>r. foldl score_try r (given_scores (vsel_scores s)))"
    by (rule run_step_foldl) (rule run_step_score_try)
  note scored = run_stepD [OF step r(1)]
  have vid: "vr_variants_id ?fin = rf_variants_id (vsel_run s)"
    using run_stepD(2) [OF run_step_fill_chosen scored(1)] scored(2) r(2) by simp
  have "fills start ?scored"
    by (rule fills_foldl [OF run_step_score_try fills_score_try r(1)])
  then have fill: "fills start ?fin"
    using fills_fill_chosen [OF scored(1)] by (rule fills_trans)
  have chosen: "tryAt ?fin (vsel_selected_index s) = Some t \<longrightarrow> vsel_text s \<noteq> [] \<longrightarrow> vt_text t \<noteq> []" for t
    using scored(1) tryAt_wf [OF scored(1)] tryAt_SomeD
    by (fastforce simp: fill_chosen_def tryAt_withTry split: option.splits if_splits)
  have at: "tryAt (x\<lparr>vr_status := a, vr_selection := b\<rparr>) i = tryAt x i" for x a b i
    by (simp add: tryAt_def)
  show ?thesis
    using fill chosen by (simp add: selectVariant_def Let_def start_def [symmetric] vid fills_def at)
qed

text \<open>
  Hydrating the live runs from the served records is a merge under the live ones:
  a run the stream never saw is taken from the record, a live run keeps its own text and
  score in every try and gets from the record only what it lacks, the result is well
  formed, and hydrating a second time changes nothing.
\<close>
lemma variant_hydration_merges_under_live:
  assumes "wf_obj live" "wf_obj p" "wf_runs live" "wf_runs p"
  shows "wf_runs (mergeVariantRuns live p)
    \<and> (obj_get live k = None \<longrightarrow> obj_get (mergeVariantRuns live p) k = obj_get p k)
    \<and> (\<forall>r. obj_get live k = Some r \<longrightarrow> (\<exists>r'. obj_get (mergeVariantRuns live p) k = Some r'
          \<and> (\<forall>i t. tryAt r i = Some t \<longrightarrow> (\<exists>t'. tryAt r' i = Some t'
               \<and> (vt_text t \<noteq> [] \<longrightarrow> vt_text t' = vt_text t)
               \<and> (vt_score t \<noteq> None \<longrightarrow> vt_score t' = vt_score t)))))
    \<and> obj_get (mergeVariantRuns (mergeVariantRuns live p) p) k = obj_get (mergeVariantRuns live p) k"
proof -
  have wfm: "wf_obj (mergeVariantRuns live p)"
    unfolding mergeVariantRuns_def using assms(2)
    by (induction live arbitrary: p rule: rev_induct) (auto split: prod.splits)
  note get = obj_get_mergeVariantRuns [OF assms(1)]
  have same: "mergeRun (mergeRun r e) e = mergeRun r e"
    if "obj_get live k = Some r" "obj_get p k = Some e" for r e
    using that wf_runs_get [OF assms(3)] wf_runs_get [OF assms(4)] by (intro mergeRun_idem) auto
  have self: "mergeRun e e = e" if "obj_get p k = Some e" for e
  proof -
    from wf_runs_get [OF assms(4) that] have wf: "wf_run e" by simp
    have "merged_try a a = a" for a by (auto simp: merged_try_def split: option.split)
    then have "vr_tries (mergeRun e e) = vr_tries e"
      using mergeRun_tries [OF wf wf] by (intro run_eqI wf) auto
    moreover have "mergeRun e e = e\<lparr>vr_tries := vr_tries (mergeRun e e)\<rparr>"
      by (simp add: mergeRun_def Let_def runWith_def fields_of_run_def)
    ultimately show ?thesis by simp
  qed
  have kept: "\<exists>t'. tryAt (mergeRun r e) i = Some t' \<and> (vt_text t \<noteq> [] \<longrightarrow> vt_text t' = vt_text t)
      \<and> (vt_score t \<noteq> None \<longrightarrow> vt_score t' = vt_score t)"
    if "obj_get live k = Some r" "obj_get p k = Some e" "tryAt r i = Some t" for r e i t
  proof -
    have "tryAt (mergeRun r e) i = merged_try (Some t) (tryAt e i)"
      using that wf_runs_get [OF assms(3)] wf_runs_get [OF assms(4)] mergeRun_tries(3) by metis
    then show ?thesis
      by (cases "tryAt e i") (auto simp: merged_try_def mergeTry_def or_else_def split: option.split)
  qed
  have twice: "obj_get (mergeVariantRuns (mergeVariantRuns live p) p) k =
      obj_get (mergeVariantRuns live p) k"
    using same self by (auto simp: obj_get_mergeVariantRuns [OF wfm] get split: option.splits)
  show ?thesis
    using wf_mergeVariantRuns [OF assms(1,3,4)] twice kept
    by (auto simp: get split: option.splits)
qed

end
