(* ===== verification/Compactions.thy ===== *)
theory Compactions
  imports Entity_State
begin

text \<open>
  \<open>packages/core/src/v3/compaction-reducer.ts\<close>: the live rows of compactions whose outcome
  is not in the transcript yet. A row is created by \<open>compaction.started\<close>, follows
  \<open>compaction.completed\<close> and \<open>compaction.failed\<close>, and is dropped once a message records the
  outcome. The schemas are arguments (decoders), as is \<open>localeCompare\<close>, which orders the
  messages of a session by \<open>created_at\<close>.
\<close>

section \<open>Decoded payloads\<close>

record compaction_event =
  ce_session_id :: string
  ce_compaction_id :: string
  ce_scope :: string
  ce_trigger :: compaction_trigger
  ce_turn_id :: string

record compaction_completed = compaction_event +
  cc_message_id :: string
  cc_part_id :: string
  cc_replaced_count :: int

record compaction_failed = compaction_event +
  cf_part_id :: string
  cf_error :: compaction_error

type_synonym compactions = "pending_compaction obj"
type_synonym locale_compare = "string \<Rightarrow> string \<Rightarrow> int"

section \<open>Position and recorded outcomes\<close>

definition sessionMessagesInOrder :: "locale_compare \<Rightarrow> entity_state \<Rightarrow> string \<Rightarrow> message list" where
  "sessionMessagesInOrder localeCompare state sessionId =
     js_sort (\<lambda>l r. localeCompare (msg_created_at l) (msg_created_at r))
       (filter (\<lambda>m. msg_session_id m = sessionId) (obj_values (es_messages state)))"

definition anchorMessageId ::
  "locale_compare \<Rightarrow> entity_state \<Rightarrow> 'a compaction_event_scheme \<Rightarrow> string option" where
  "anchorMessageId localeCompare state e =
     (let messages = sessionMessagesInOrder localeCompare state (ce_session_id e);
          turnMessages = filter (\<lambda>m. msg_turn_id m = Some (ce_turn_id e)) messages;
          assistants = filter (\<lambda>m. msg_role m = RoleAssistant) turnMessages;
          anchor = or_else (at_last assistants) (at_last turnMessages)
      in if ce_turn_id e \<noteq> [] \<and> anchor \<noteq> None then map_option msg_id anchor
         else map_option msg_id (at_last messages))"

definition summaryResident :: "entity_state \<Rightarrow> string \<Rightarrow> string \<Rightarrow> bool" where
  "summaryResident state messageId partId =
     (case obj_get (es_messages state) messageId of
        None \<Rightarrow> False
      | Some m \<Rightarrow> list_ex (\<lambda>b. blk_id b = partId) (msg_blocks m))"

text \<open>The compaction a block records the outcome of: a summary, or a failure notice.\<close>

fun outcome_of_block :: "block_body \<Rightarrow> string option" where
  "outcome_of_block (InjectionBlock source _ _ _ compaction_id _ _) =
     (if source = ''summarization'' \<and> truthy_str compaction_id then compaction_id else None)"
| "outcome_of_block (NoticeBlock source _ _ _ compaction_id _) =
     (if source = ''compaction_failed'' \<and> truthy_str compaction_id then compaction_id else None)"
| "outcome_of_block _ = None"

record recorded_outcomes =
  ro_compactionIds :: "string set"
  ro_blockIds :: "string set"

definition recordedOutcomes :: "message \<Rightarrow> recorded_outcomes" where
  "recordedOutcomes m = \<lparr>
     ro_compactionIds = set (List.map_filter (\<lambda>b. outcome_of_block (blk_body b)) (msg_blocks m)),
     ro_blockIds = set (map blk_id (msg_blocks m))\<rparr>"

definition outcomeRecorded :: "entity_state \<Rightarrow> string \<Rightarrow> string \<Rightarrow> bool" where
  "outcomeRecorded state compactionId partId =
     list_ex (\<lambda>m. let recorded = recordedOutcomes m in
         compactionId \<in> ro_compactionIds recorded \<or>
         (partId \<noteq> [] \<and> partId \<in> ro_blockIds recorded))
       (obj_values (es_messages state))"

definition pendingFromEvent ::
  "locale_compare \<Rightarrow> entity_state \<Rightarrow> 'a compaction_event_scheme \<Rightarrow> string \<Rightarrow> pending_compaction" where
  "pendingFromEvent localeCompare state e occurredAt =
     (let previous = obj_get (es_compactions state) (ce_compaction_id e) in \<lparr>
        pc_compaction_id = ce_compaction_id e, pc_session_id = ce_session_id e,
        pc_scope = ce_scope e, pc_trigger = ce_trigger e, pc_turn_id = ce_turn_id e,
        pc_anchor_message_id = (case previous of
            Some p \<Rightarrow> pc_anchor_message_id p
          | None \<Rightarrow> anchorMessageId localeCompare state e),
        pc_status = CompRunning, pc_message_id = None, pc_part_id = None, pc_error = None,
        pc_started_at = coalesce (map_option pc_started_at previous) occurredAt\<rparr>)"

definition withoutCompaction :: "compactions \<Rightarrow> string \<Rightarrow> compactions" where
  "withoutCompaction cs i = (if \<not> obj_has cs i then cs else obj_del cs i)"

section \<open>The reductions\<close>

definition reduceCompactionStarted ::
  "(js_value \<Rightarrow> zod_error + compaction_event) \<Rightarrow> locale_compare \<Rightarrow> entity_state \<Rightarrow> js_value
     \<Rightarrow> string \<Rightarrow> compactions result" where
  "reduceCompactionStarted decode localeCompare state payload occurredAt =
     bindR (of_zod (decode payload)) (\<lambda>e.
       let previous = obj_get (es_compactions state) (ce_compaction_id e)
       in if (case previous of Some p \<Rightarrow> pc_status p \<noteq> CompRunning | None \<Rightarrow> False)
          then Inr (es_compactions state)
          else if previous = None \<and> outcomeRecorded state (ce_compaction_id e) []
          then Inr (es_compactions state)
          else Inr (obj_put (es_compactions state) (ce_compaction_id e)
                     (pendingFromEvent localeCompare state e occurredAt)))"

definition reduceCompactionCompleted ::
  "(js_value \<Rightarrow> zod_error + compaction_completed) \<Rightarrow> locale_compare \<Rightarrow> entity_state \<Rightarrow> js_value
     \<Rightarrow> string \<Rightarrow> compactions result" where
  "reduceCompactionCompleted decode localeCompare state payload occurredAt =
     bindR (of_zod (decode payload)) (\<lambda>e.
       if summaryResident state (cc_message_id e) (cc_part_id e)
       then Inr (withoutCompaction (es_compactions state) (ce_compaction_id e))
       else Inr (obj_put (es_compactions state) (ce_compaction_id e)
              ((pendingFromEvent localeCompare state e occurredAt)\<lparr>
                 pc_status := CompCompleting,
                 pc_message_id := Some (cc_message_id e),
                 pc_part_id := Some (cc_part_id e)\<rparr>)))"

definition reduceCompactionFailed ::
  "(js_value \<Rightarrow> zod_error + compaction_failed) \<Rightarrow> locale_compare \<Rightarrow> entity_state \<Rightarrow> js_value
     \<Rightarrow> string \<Rightarrow> compactions result" where
  "reduceCompactionFailed decode localeCompare state payload occurredAt =
     bindR (of_zod (decode payload)) (\<lambda>e.
       if outcomeRecorded state (ce_compaction_id e) (cf_part_id e)
       then Inr (withoutCompaction (es_compactions state) (ce_compaction_id e))
       else Inr (obj_put (es_compactions state) (ce_compaction_id e)
              ((pendingFromEvent localeCompare state e occurredAt)\<lparr>
                 pc_status := CompFailed,
                 pc_part_id := (if cf_part_id e \<noteq> [] then Some (cf_part_id e) else None),
                 pc_error := Some (cf_error e)\<rparr>)))"

definition settles :: "message \<Rightarrow> pending_compaction \<Rightarrow> bool" where
  "settles m c =
     (let recorded = recordedOutcomes m in
      pc_compaction_id c \<in> ro_compactionIds recorded \<or>
      (case pc_part_id c of
         None \<Rightarrow> False
       | Some p \<Rightarrow> (pc_message_id c = None \<or> pc_message_id c = Some (msg_id m)) \<and>
                   p \<in> ro_blockIds recorded))"

definition settleCompactions :: "compactions \<Rightarrow> message \<Rightarrow> compactions" where
  "settleCompactions cs m =
     (let settled = filter (settles m) (obj_values cs)
      in if settled = [] then cs
         else foldl (\<lambda>remaining c. withoutCompaction remaining (pc_compaction_id c)) cs settled)"

section \<open>Lemmas\<close>

lemma mem_map_filter: "y \<in> set (List.map_filter f xs) \<longleftrightarrow> (\<exists>x\<in>set xs. f x = Some y)"
  by (force simp: List.map_filter_def)

lemma withoutCompaction_del: "obj_get (withoutCompaction cs i) k = obj_get (obj_del cs i) k"
  by (auto simp: withoutCompaction_def obj_has_def obj_get_del)

lemma wf_withoutCompaction [simp]: "wf_obj cs \<Longrightarrow> wf_obj (withoutCompaction cs i)"
  by (simp add: withoutCompaction_def)

lemma keyed_withoutCompaction: "keyed pc_compaction_id cs \<Longrightarrow> keyed pc_compaction_id (withoutCompaction cs i)"
  by (simp add: withoutCompaction_def objs.keyed_del)

lemma get_withoutCompactions:
  "obj_get (foldl (\<lambda>r c. withoutCompaction r (pc_compaction_id c)) cs xs) k =
     (if k \<in> pc_compaction_id ` set xs then None else obj_get cs k)"
  by (induction xs arbitrary: cs) (auto simp: withoutCompaction_del obj_get_del)

lemma wf_withoutCompactions:
  "wf_obj cs \<Longrightarrow> wf_obj (foldl (\<lambda>r c. withoutCompaction r (pc_compaction_id c)) cs xs)"
  by (induction xs arbitrary: cs) auto

lemma wf_settleCompactions [simp]: "wf_obj cs \<Longrightarrow> wf_obj (settleCompactions cs m)"
  by (simp add: settleCompactions_def Let_def wf_withoutCompactions)

lemma keyed_entry: "wf_obj cs \<Longrightarrow> keyed idf cs \<Longrightarrow> c \<in> set (obj_values cs) \<Longrightarrow> obj_get cs (idf c) = Some c"
  by (auto simp: obj_values_def keyed_by_def obj_get_iff_entry)

lemma obj_get_settleCompactions:
  assumes "wf_obj cs" "keyed pc_compaction_id cs"
  shows "obj_get (settleCompactions cs m) k =
    (case obj_get cs k of None \<Rightarrow> None | Some c \<Rightarrow> if settles m c then None else Some c)"
proof -
  have get: "obj_get (settleCompactions cs m) k =
      (if k \<in> pc_compaction_id ` set (filter (settles m) (obj_values cs)) then None
       else obj_get cs k)"
    using get_withoutCompactions [of cs "filter (settles m) (obj_values cs)" k]
    by (auto simp: settleCompactions_def Let_def)
  have "k \<in> pc_compaction_id ` set (filter (settles m) (obj_values cs)) \<longleftrightarrow>
      (\<exists>c. obj_get cs k = Some c \<and> settles m c)"
    using keyed_entry [OF assms] assms(2) obj_get_value [of cs k]
    by (fastforce simp: keyed_by_def)
  with get show ?thesis by (auto split: option.splits)
qed

lemma keyed_settleCompactions:
  "wf_obj cs \<Longrightarrow> keyed pc_compaction_id cs \<Longrightarrow> keyed pc_compaction_id (settleCompactions cs m)"
  by (auto simp: keyed_by_def obj_get_settleCompactions split: option.splits if_splits)

text \<open>What a row keeps of an earlier row of the same compaction: its place and its start.\<close>

lemma pendingFromEvent_id [simp]:
  "pc_compaction_id (pendingFromEvent lc state e ts) = ce_compaction_id e"
  by (simp add: pendingFromEvent_def Let_def)

lemma pendingFromEvent_keeps:
  assumes "obj_get (es_compactions state) (ce_compaction_id e) = Some p"
  shows "pc_anchor_message_id (pendingFromEvent lc state e ts) = pc_anchor_message_id p"
    and "pc_started_at (pendingFromEvent lc state e ts) = pc_started_at p"
  using assms by (simp_all add: pendingFromEvent_def Let_def)

definition wf_compactions :: "compactions \<Rightarrow> bool" where
  "wf_compactions cs \<longleftrightarrow> wf_obj cs \<and> keyed pc_compaction_id cs"

lemma wf_compactions_put:
  "wf_compactions cs \<Longrightarrow> pc_compaction_id c = k \<Longrightarrow> wf_compactions (obj_put cs k c)"
  by (simp add: wf_compactions_def objs.keyed_put)

lemma wf_compactions_without: "wf_compactions cs \<Longrightarrow> wf_compactions (withoutCompaction cs k)"
  by (simp add: wf_compactions_def keyed_withoutCompaction)

lemma wf_compactions_settle: "wf_compactions cs \<Longrightarrow> wf_compactions (settleCompactions cs m)"
  by (simp add: wf_compactions_def keyed_settleCompactions)

lemma wf_reduceCompactions:
  assumes "wf_compactions (es_compactions state)"
  shows "reduceCompactionStarted ds lc state p ts = Inr cs \<Longrightarrow> wf_compactions cs"
    and "reduceCompactionCompleted dc lc state p ts = Inr cs \<Longrightarrow> wf_compactions cs"
    and "reduceCompactionFailed df lc state p ts = Inr cs \<Longrightarrow> wf_compactions cs"
  using assms
  by (auto simp: reduceCompactionStarted_def reduceCompactionCompleted_def
      reduceCompactionFailed_def Let_def bindR_eq_Inr wf_compactions_put wf_compactions_without
      split: if_splits option.splits)

section \<open>Properties\<close>

text \<open>
  Settling is exact: of the live rows, precisely those whose outcome the message records
  are dropped (its compaction named by a summary or a failure notice, or its announced part
  present, in the announced message when one was announced), and every other row is kept
  as it is.
\<close>
lemma compaction_settlement_exact:
  assumes "wf_obj cs" "keyed pc_compaction_id cs"
  shows "obj_get (settleCompactions cs m) k = Some c \<longleftrightarrow>
    obj_get cs k = Some c \<and>
    \<not> ((\<exists>b\<in>set (msg_blocks m). outcome_of_block (blk_body b) = Some (pc_compaction_id c)) \<or>
       (\<exists>b\<in>set (msg_blocks m). pc_part_id c = Some (blk_id b) \<and>
          (pc_message_id c = None \<or> pc_message_id c = Some (msg_id m))))"
proof -
  have "settles m c \<longleftrightarrow>
      (\<exists>b\<in>set (msg_blocks m). outcome_of_block (blk_body b) = Some (pc_compaction_id c)) \<or>
      (\<exists>b\<in>set (msg_blocks m). pc_part_id c = Some (blk_id b) \<and>
          (pc_message_id c = None \<or> pc_message_id c = Some (msg_id m)))"
    by (force simp: settles_def recordedOutcomes_def Let_def mem_map_filter split: option.splits)
  then show ?thesis
    by (auto simp: obj_get_settleCompactions [OF assms] split: option.splits if_splits)
qed

definition ex_event :: compaction_event where
  "ex_event = \<lparr>ce_session_id = ''s'', ce_compaction_id = ''c'', ce_scope = [],
     ce_trigger = TriggerAuto, ce_turn_id = []\<rparr>"

definition ex_summary :: message where
  "ex_summary = \<lparr>msg_id = ''m'', msg_session_id = ''s'', msg_turn_id = None, msg_run_id = None,
     msg_role = RoleAssistant, msg_created_at = ''1'', msg_completed_at = None,
     msg_blocks = [\<lparr>blk_id = ''p'', blk_agent_id = None, blk_sequence = None,
       blk_stream_source = None, blk_channel = None,
       blk_body = InjectionBlock ''summarization'' ''sum'' None None (Some ''c'') None None\<rparr>],
     msg_model = None, msg_metadata = None, msg_usage = None, msg_cost_usd = None,
     msg_stop_reason = None, msg_error_info = None\<rparr>"

definition ex_row :: pending_compaction where
  "ex_row = pendingFromEvent (\<lambda>a b. 0) createEntityState ex_event ''t''"

text \<open>
  A redelivered start never resurrects a compaction that ended: when the live row is no
  longer running, or when no row is left and a message records the outcome, the rows are
  unchanged; and a redelivered start of a running one keeps its position and its start time.
\<close>
lemma compaction_start_is_not_replayed:
  assumes "decode payload = Inr e" "reduceCompactionStarted decode lc state payload ts = Inr cs"
  shows "((\<exists>p. obj_get (es_compactions state) (ce_compaction_id e) = Some p \<and> pc_status p \<noteq> CompRunning)
      \<longrightarrow> cs = es_compactions state)
    \<and> (obj_get (es_compactions state) (ce_compaction_id e) = None \<and>
      (\<exists>m\<in>set (obj_values (es_messages state)). \<exists>b\<in>set (msg_blocks m).
          outcome_of_block (blk_body b) = Some (ce_compaction_id e))
      \<longrightarrow> cs = es_compactions state)
    \<and> (\<forall>p. obj_get (es_compactions state) (ce_compaction_id e) = Some p \<and> pc_status p = CompRunning
      \<longrightarrow> (\<exists>q. obj_get cs (ce_compaction_id e) = Some q \<and> pc_status q = CompRunning
            \<and> pc_anchor_message_id q = pc_anchor_message_id p \<and> pc_started_at q = pc_started_at p))"
  using assms
  by (auto simp: reduceCompactionStarted_def Let_def outcomeRecorded_def list_ex_iff
      recordedOutcomes_def mem_map_filter pendingFromEvent_def split: option.splits if_splits)

text \<open>
  A completed compaction keeps its row, as completing, exactly until its summary is in
  the transcript: a completion whose summary is not resident leaves a completing row that
  names the announced message and part, and the first arrival of that message with that part
  drops it; a completion whose summary is resident drops the row at once.
\<close>
lemma compaction_completion_hands_over:
  assumes "wf_compactions (es_compactions state)" "decode payload = Inr e"
    and "reduceCompactionCompleted decode lc state payload ts = Inr cs"
    and "msg_id m = cc_message_id e" "\<exists>b\<in>set (msg_blocks m). blk_id b = cc_part_id e"
  shows "(\<not> summaryResident state (cc_message_id e) (cc_part_id e) \<longrightarrow>
        (\<exists>row. obj_get cs (ce_compaction_id e) = Some row \<and> pc_status row = CompCompleting
          \<and> pc_message_id row = Some (cc_message_id e) \<and> pc_part_id row = Some (cc_part_id e)))
    \<and> (summaryResident state (cc_message_id e) (cc_part_id e) \<longrightarrow>
        obj_get cs (ce_compaction_id e) = None)
    \<and> obj_get (settleCompactions cs m) (ce_compaction_id e) = None"
proof -
  from wf_reduceCompactions(2) [OF assms(1,3)] have wf: "wf_obj cs" "keyed pc_compaction_id cs"
    by (simp_all add: wf_compactions_def)
  have "settles m row" if "pc_message_id row = Some (cc_message_id e)"
    "pc_part_id row = Some (cc_part_id e)" for row
    using that assms(4,5) by (force simp: settles_def recordedOutcomes_def Let_def)
  with assms(2,3) show ?thesis
    by (auto simp: obj_get_settleCompactions [OF wf] reduceCompactionCompleted_def
        withoutCompaction_del obj_get_del split: if_splits option.splits)
qed

end
