(* ===== verification/Js_Number.thy ===== *)
theory Js_Number
  imports Complex_Main
begin

text \<open>
  Addition of the language's numbers. A finite number is a rational; a sum is rounded to
  the nearest binary64 value, ties to even: 53 significant bits, and never a unit below
  \<open>2 ^ -1074\<close>. Sums beyond the largest finite value are outside the model.
\<close>

definition pow2 :: "int \<Rightarrow> rat" where
  "pow2 e = (if 0 \<le> e then 2 ^ nat e else 1 / 2 ^ nat (- e))"

fun bitlen :: "nat \<Rightarrow> nat" where
  "bitlen n = (if n = 0 then 0 else Suc (bitlen (n div 2)))"

declare bitlen.simps [simp del]

text \<open>The greatest \<open>e\<close> with \<open>2 ^ e \<le> x\<close>, for a positive \<open>x\<close>.\<close>

definition floor_log2 :: "rat \<Rightarrow> int" where
  "floor_log2 x =
     (let (p, q) = quotient_of x;
          k = int (bitlen (nat p)) - int (bitlen (nat q))
      in if pow2 k \<le> x then k else k - 1)"

definition round_half_even :: "rat \<Rightarrow> int" where
  "round_half_even x =
     (let n = \<lfloor>x\<rfloor>; r = x - of_int n
      in if r < 1 / 2 then n else if 1 / 2 < r then n + 1 else if even n then n else n + 1)"

definition round_double :: "rat \<Rightarrow> rat" where
  "round_double x =
     (if x = 0 then 0
      else let u = pow2 (max (floor_log2 \<bar>x\<bar> - 52) (- 1074))
           in of_int (round_half_even (x / u)) * u)"

definition js_add :: "rat \<Rightarrow> rat \<Rightarrow> rat" where
  "js_add x y = round_double (x + y)"

text \<open>Addition of two integral numbers; the rounded sum is integral again.\<close>

definition js_add_int :: "int \<Rightarrow> int \<Rightarrow> int" where
  "js_add_int x y = \<lfloor>js_add (of_int x) (of_int y)\<rfloor>"

section \<open>Integers up to \<open>2 ^ 53\<close> are added exactly\<close>

lemma bitlen_bounds: "0 < n \<Longrightarrow> 2 ^ (bitlen n - 1) \<le> n \<and> n < 2 ^ bitlen n \<and> 0 < bitlen n"
proof (induction n rule: bitlen.induct)
  case (1 n)
  show ?case
  proof (cases "n div 2 = 0")
    case True
    with 1(2) have "n = 1" by auto
    then show ?thesis by (simp add: bitlen.simps)
  next
    case False
    with 1 have ih: "2 ^ (bitlen (n div 2) - 1) \<le> n div 2" "n div 2 < 2 ^ bitlen (n div 2)"
      "0 < bitlen (n div 2)" by auto
    have b: "bitlen n = Suc (bitlen (n div 2))" using 1(2) by (subst bitlen.simps) simp
    obtain k where k: "bitlen (n div 2) = Suc k" using ih(3) gr0_implies_Suc by blast
    from ih(1) k have "2 ^ bitlen (n div 2) \<le> 2 * (n div 2)" by simp
    also have "\<dots> \<le> n" by simp
    finally show ?thesis using ih(2) by (simp add: b)
  qed
qed

lemma floor_log2_int:
  assumes "0 < n" "n < 2 ^ 53"
  shows "floor_log2 (of_int n) \<le> 52"
proof -
  have one: "bitlen (Suc 0) = 1" by (simp add: bitlen.simps)
  from assms have pos: "0 < nat n" and less: "nat n < 2 ^ 53" by auto
  from bitlen_bounds [OF pos] less have "(2::nat) ^ (bitlen (nat n) - 1) < 2 ^ 53" by linarith
  then have "bitlen (nat n) - 1 < 53" by (rule power_less_imp_less_exp [rotated]) simp
  then have "bitlen (nat n) \<le> 53" by linarith
  then show ?thesis
    by (simp add: floor_log2_def Let_def quotient_of_int one)
qed

lemma round_half_even_int [simp]: "round_half_even (of_int m) = m"
  by (simp add: round_half_even_def)

lemma round_double_int:
  assumes "\<bar>n\<bar> < 2 ^ 53"
  shows "round_double (of_int n) = of_int n"
proof (cases "n = 0")
  case False
  let ?e = "max (floor_log2 \<bar>of_int n\<bar> - 52) (- 1074)"
  have "floor_log2 (of_int \<bar>n\<bar>) \<le> 52" using False assms by (intro floor_log2_int) auto
  then have e: "?e \<le> 0" by simp
  then have u: "pow2 ?e = 1 / 2 ^ nat (- ?e)" by (auto simp: pow2_def)
  have "(of_int n :: rat) / pow2 ?e = of_int (n * 2 ^ nat (- ?e))" by (simp add: u)
  then have "round_half_even (of_int n / pow2 ?e) = n * 2 ^ nat (- ?e)"
    by (metis round_half_even_int)
  then show ?thesis using False by (simp add: round_double_def Let_def u)
qed (simp add: round_double_def)

lemma js_add_int_exact: "\<bar>x + y\<bar> < 2 ^ 53 \<Longrightarrow> js_add_int x y = x + y"
  using round_double_int [of "x + y"] by (simp add: js_add_int_def js_add_def)

end
