(* ===== verification/Message_Ops.thy ===== *)
theory Message_Ops
  imports Entity_State Js_Number
begin

text \<open>
  The helper functions of \<open>packages/core/src/v3/reducer.ts\<close>: the gap a frame for a missing
  entity leaves, the per-entity revision guard, the edits of a message's blocks, the mark of
  a responded turn and the usage rollup.
\<close>

definition recordMissingEntity ::
  "entity_state \<Rightarrow> transport_frame \<Rightarrow> event_envelope \<Rightarrow> string \<Rightarrow> entity_state" where
  "recordMissingEntity base frame envelope reason =
     (let gap = \<lparr>gap_cursor = fr_cursor frame, gap_event_name = ev_type envelope,
                 gap_entity_id = ev_entity_id envelope, gap_code = EntityNotResident,
                 gap_reason = reason, gap_received_at = fr_receivedAt frame\<rparr>
      in base\<lparr>es_gaps := take_last MAX_GAP_HISTORY (es_gaps base @ [gap])\<rparr>)"

definition shouldApplyRevision :: "entity_state \<Rightarrow> string option \<Rightarrow> int option \<Rightarrow> bool" where
  "shouldApplyRevision state entityId revision =
     (if \<not> truthy_str entityId \<or> revision = None then True
      else the revision > coalesce (obj_get (es_revisions state) (the entityId)) (- 1))"

definition recordRevision :: "entity_state \<Rightarrow> string option \<Rightarrow> int option \<Rightarrow> int obj" where
  "recordRevision state entityId revision =
     (if \<not> truthy_str entityId \<or> revision = None then es_revisions state
      else obj_put (es_revisions state) (the entityId) (the revision))"

definition appendDelta :: "message \<Rightarrow> string \<Rightarrow> string \<Rightarrow> message" where
  "appendDelta m blockId delta = m\<lparr>msg_blocks := map (\<lambda>b.
     if blk_id b \<noteq> blockId \<or> \<not> is_text_or_reasoning (blk_body b) then b
     else b\<lparr>blk_body := with_text (\<lambda>t. t @ delta) True (blk_body b)\<rparr>) (msg_blocks m)\<rparr>"

definition same_block :: "message_block \<Rightarrow> message_block \<Rightarrow> bool" where
  "same_block b candidate =
     (case (block_tool_id (blk_body b), block_tool_id (blk_body candidate)) of
        (Some t, Some t') \<Rightarrow> t' = t
      | _ \<Rightarrow> blk_id candidate = blk_id b)"

definition upsertBlock :: "message \<Rightarrow> message_block \<Rightarrow> message" where
  "upsertBlock m b =
     (case find_index (same_block b) (msg_blocks m) of
        None \<Rightarrow> m\<lparr>msg_blocks := msg_blocks m @ [b]\<rparr>
      | Some i \<Rightarrow>
          if block_tool_id (blk_body b) \<noteq> None \<and>
             block_tool_id (blk_body (msg_blocks m ! i)) \<noteq> None
          then m
          else m\<lparr>msg_blocks := (msg_blocks m)[i := b]\<rparr>)"

definition markRespondedTurn :: "entity_state \<Rightarrow> message \<Rightarrow> message_block \<Rightarrow> string obj" where
  "markRespondedTurn state m b =
     (if msg_role m \<noteq> RoleAssistant \<or> \<not> is_text_or_reasoning (blk_body b)
      then es_responded_turns state
      else let turnId = obj_get (es_active_turns state) (msg_session_id m)
           in if truthy_str turnId
              then obj_put (es_responded_turns state) (msg_session_id m) (the turnId)
              else es_responded_turns state)"

definition upsertCompletedReasoning ::
  "(js_value \<Rightarrow> zod_error + message_block) \<Rightarrow> message \<Rightarrow> string \<Rightarrow> js_value \<Rightarrow> message result" where
  "upsertCompletedReasoning decode_block m blockId v =
     bindR (of_zod (decode_block v)) (\<lambda>b.
       if blk_id b \<noteq> blockId \<or> \<not> is_reasoning (blk_body b) \<or>
          \<not> list_ex (\<lambda>p. blk_id p = blockId \<and> is_reasoning (blk_body p)) (msg_blocks m)
       then Inl (PlainError ''Invalid completed reasoning identity'')
       else Inr (upsertBlock m b))"

definition completeBlock :: "message \<Rightarrow> string \<Rightarrow> string \<Rightarrow> message" where
  "completeBlock m blockId txt = m\<lparr>msg_blocks := map (\<lambda>b.
     if blk_id b \<noteq> blockId \<or> \<not> is_text_or_reasoning (blk_body b) then b
     else b\<lparr>blk_body := with_text (\<lambda>_. txt) False (blk_body b)\<rparr>) (msg_blocks m)\<rparr>"

text \<open>\<open>{ ...block, streaming: false }\<close> on every text and reasoning block of a completed message.\<close>

definition stop_streaming :: "message_block \<Rightarrow> message_block" where
  "stop_streaming b = (if is_text_or_reasoning (blk_body b)
     then b\<lparr>blk_body := with_text (\<lambda>t. t) False (blk_body b)\<rparr> else b)"

definition addUsage ::
  "usage_snapshot obj \<Rightarrow> string \<Rightarrow> int \<Rightarrow> int \<Rightarrow> rat option \<Rightarrow> usage_snapshot obj" where
  "addUsage usage sessionId input output cost =
     (let existing = obj_get usage sessionId in
      obj_put usage sessionId \<lparr>
        us_session_id = sessionId,
        us_input_tokens = js_add_int (coalesce (map_option us_input_tokens existing) 0) input,
        us_output_tokens = js_add_int (coalesce (map_option us_output_tokens existing) 0) output,
        us_cost_usd = (let known = Option.bind existing us_cost_usd in
          case cost of None \<Rightarrow> known | Some c \<Rightarrow> Some (js_add (coalesce known 0) c))\<rparr>)"

section \<open>Lemmas: frames of the edits\<close>

lemma appendDelta_frame [simp]:
  "msg_id (appendDelta m i d) = msg_id m" "msg_session_id (appendDelta m i d) = msg_session_id m"
  "map blk_id (msg_blocks (appendDelta m i d)) = map blk_id (msg_blocks m)"
  by (simp_all add: appendDelta_def)

lemma completeBlock_frame [simp]:
  "msg_id (completeBlock m i t) = msg_id m" "msg_session_id (completeBlock m i t) = msg_session_id m"
  "map blk_id (msg_blocks (completeBlock m i t)) = map blk_id (msg_blocks m)"
  by (simp_all add: completeBlock_def)

lemma upsertBlock_frame [simp]:
  "msg_id (upsertBlock m b) = msg_id m" "msg_session_id (upsertBlock m b) = msg_session_id m"
  "msg_role (upsertBlock m b) = msg_role m"
  by (simp_all add: upsertBlock_def split: option.split)

lemma upsertCompletedReasoning_id:
  "upsertCompletedReasoning d m i v = Inr m' \<Longrightarrow> msg_id m' = msg_id m"
  by (auto simp: upsertCompletedReasoning_def bindR_eq_Inr split: if_splits)

lemma with_text_kind [simp]: "is_text_or_reasoning (with_text f s b) = is_text_or_reasoning b"
  by (cases b) auto

lemma block_text_with_text: "is_text_or_reasoning b \<Longrightarrow> block_text (with_text f s b) = map_option f (block_text b)"
  by (cases b) auto

lemma block_streaming_with_text [simp]:
  "is_text_or_reasoning b \<Longrightarrow> block_streaming (with_text f s b) = Some s"
  by (cases b) auto

lemma block_tool_id_text: "is_text_or_reasoning b \<Longrightarrow> block_tool_id b = None"
  by (cases b) auto

lemma with_text_comp: "with_text f s (with_text g s' b) = with_text (f \<circ> g) s b"
  by (cases b) auto

section \<open>Lemmas: streaming into a block\<close>

lemma appendDelta_append: "appendDelta (appendDelta m i a) i b = appendDelta m i (a @ b)"
  by (simp add: appendDelta_def with_text_comp comp_def)

lemma foldl_appendDelta:
  "ds \<noteq> [] \<Longrightarrow> foldl (\<lambda>m d. appendDelta m i d) m ds = appendDelta m i (concat ds)"
proof (induction ds arbitrary: m rule: rev_nonempty_induct)
  case (snoc d ds)
  then show ?case by (simp add: appendDelta_append)
qed simp

lemma completeBlock_appendDelta: "completeBlock (appendDelta m i d) i t = completeBlock m i t"
  by (simp add: completeBlock_def appendDelta_def with_text_comp comp_def)

section \<open>Lemmas: upserting a block\<close>

text \<open>A block is in the message: by tool for a tool call, by its own id otherwise.\<close>

lemma same_block_refl [simp]: "same_block b b"
  by (simp add: same_block_def split: option.splits)

lemma find_index_snoc: "find_index P xs = None \<Longrightarrow> P x \<Longrightarrow> find_index P (xs @ [x]) = Some (length xs)"
  by (induction xs) (auto split: if_splits)

lemma find_index_update:
  "find_index P xs = Some i \<Longrightarrow> P x \<Longrightarrow> find_index P (xs[i := x]) = Some i"
  by (induction xs arbitrary: i) (auto split: if_splits nat.splits)

lemma upsertBlock_resident:
  "\<exists>i. find_index (same_block b) (msg_blocks (upsertBlock m b)) = Some i"
  by (auto simp: upsertBlock_def find_index_snoc find_index_update split: option.splits)

lemma upsertBlock_idem: "upsertBlock (upsertBlock m b) b = upsertBlock m b"
proof (cases "find_index (same_block b) (msg_blocks m)")
  case None
  then show ?thesis by (auto simp: upsertBlock_def find_index_snoc)
next
  case (Some i)
  with find_index_Some [OF this] show ?thesis
    by (auto simp: upsertBlock_def find_index_update)
qed

lemma upsertBlock_length:
  "length (msg_blocks (upsertBlock m b)) =
     (if find_index (same_block b) (msg_blocks m) = None then Suc (length (msg_blocks m))
      else length (msg_blocks m))"
  by (auto simp: upsertBlock_def split: option.splits)

section \<open>Lemmas: revisions\<close>

lemma wf_recordRevision [simp]: "wf_obj (es_revisions s) \<Longrightarrow> wf_obj (recordRevision s i r)"
  by (simp add: recordRevision_def)

lemma recordRevision_get:
  "obj_get (recordRevision s i r) k =
     (if truthy_str i \<and> r \<noteq> None \<and> k = the i then r else obj_get (es_revisions s) k)"
  by (auto simp: recordRevision_def obj_get_put)

text \<open>A revision that the guard lets through is above the recorded one.\<close>

lemma recordRevision_mono:
  assumes "shouldApplyRevision s i r" "obj_get (es_revisions s) k = Some v"
  shows "\<exists>v'. obj_get (recordRevision s i r) k = Some v' \<and> v \<le> v'"
  using assms by (auto simp: shouldApplyRevision_def recordRevision_get)

end
