(* ===== verification/Reducer.thy ===== *)
theory Reducer
  imports Tool_Execution Variant_Runs Compactions Message_Ops
begin

text \<open>
  \<open>packages/core/src/v3/reducer.ts\<close>: \<open>reduceTransportFrame\<close>, the pure reduction of one
  transport frame into the normalized store. Each arm of its \<open>switch\<close> is a handler with the
  arguments the arm can see: the frame, its envelope, the base state (the cursor already
  advanced) and the revision map to bank. \<open>reduceEvent\<close> is the \<open>switch\<close>, \<open>reduce_frame\<close> the
  code around it.

  The schemas (zod) and the locale- and host-dependent functions are the fields of \<open>env\<close>.
\<close>

section \<open>What the reducer takes from outside\<close>

record message_completion =
  mcp_message_id :: string
  mcp_completed_at :: "string option"
  mcp_stop_reason :: "string option"
  mcp_tokens :: "message_usage option"
  mcp_cost_usd :: "rat option"
  mcp_error_info :: "js_value obj option"
  mcp_metadata :: "js_value obj option"

record presentation_delta =
  pd_call_id :: string
  pd_block_id :: string
  pd_offset :: int
  pd_sequence :: int
  pd_channel :: string
  pd_text :: string

record task_update =
  tu_handle :: string
  tu_kind :: string
  tu_revision :: rat
  tu_owner_session_id :: "string option"
  tu_invocation_id :: "string option"

type_synonym 'a decoder = "js_value \<Rightarrow> zod_error + 'a"

record env =
  localeCompare :: locale_compare
  date_parse :: "string \<Rightarrow> int option"
  eventEnvelopeSchema :: "event_envelope decoder"
  workspaceSchema :: "workspace decoder"
  messageSchema :: "message decoder"
  sessionSchema :: "session decoder"
  messageBlockSchema :: "message_block decoder"
  subagentSchema :: "subagent_run decoder"
  messageCompletionSchema :: "message_completion decoder"
  toolInvocationSchema :: "tool_invocation decoder"
  taskUpdateSchema :: "task_update decoder"
  toolPresentationDeltaSchema :: "presentation_delta decoder"
  runSchema :: "run decoder"
  approvalRequestSchema :: "approval_request decoder"
  userQuestionSchema :: "user_question decoder"
  variantTryUpsertSchema :: "variant_try_upsert decoder"
  variantTryDeltaSchema :: "variant_try_delta decoder"
  variantSelectedSchema :: "variant_selected decoder"
  variantClosedSchema :: "variant_closed decoder"
  variantSemanticEventSchema :: "variant_semantic_event decoder"
  taskSchema :: "task decoder"
  artifactSchema :: "artifact decoder"
  infrastructureDependencySchema :: "infrastructure_dependency decoder"
  a2uiSurfaceSchema :: "a2ui_surface decoder"
  a2uiActionLifecycleSchema :: "action_lifecycle decoder"
  compactionStartedSchema :: "compaction_event decoder"
  compactionCompletedSchema :: "compaction_completed decoder"
  compactionFailedSchema :: "compaction_failed decoder"

type_synonym revisions = "int obj"

type_synonym handler =
  "env \<Rightarrow> transport_frame \<Rightarrow> event_envelope \<Rightarrow> entity_state \<Rightarrow> revisions \<Rightarrow> entity_state result"

section \<open>Entity snapshots\<close>

definition workspaceUpserted :: handler where
  "workspaceUpserted env frame envelope base revisions =
     bindR (of_zod (workspaceSchema env (ev_payload envelope))) (\<lambda>workspace.
       Inr (base\<lparr>es_revisions := revisions,
         es_workspaces := obj_put (es_workspaces base) (ws_id workspace) workspace\<rparr>))"

definition messageUpserted :: handler where
  "messageUpserted env frame envelope base revisions =
     bindR (of_zod (messageSchema env (ev_payload envelope))) (\<lambda>message.
       Inr (base\<lparr>es_revisions := revisions,
         es_messages := obj_put (es_messages base) (msg_id message) message,
         es_compactions := settleCompactions (es_compactions base) message\<rparr>))"

definition session_usage :: "session \<Rightarrow> usage_snapshot" where
  "session_usage s = \<lparr>
     us_session_id = ses_id s, us_input_tokens = coalesce (ses_tokens_input s) 0,
     us_output_tokens = coalesce (ses_tokens_output s) 0,
     us_cost_usd = (case ses_cost_usd s of Some c \<Rightarrow> c | None \<Rightarrow> None)\<rparr>"

definition sessionUpserted :: handler where
  "sessionUpserted env frame envelope base revisions =
     bindR (of_zod (sessionSchema env (ev_payload envelope))) (\<lambda>session.
       let usage = (if ses_tokens_input session = None \<and> ses_tokens_output session = None
                    then es_usage base
                    else obj_put (es_usage base) (ses_id session) (session_usage session))
       in Inr (base\<lparr>es_revisions := revisions,
            es_sessions := obj_put (es_sessions base) (ses_id session) session,
            es_usage := usage\<rparr>))"

definition toolUpserted :: handler where
  "toolUpserted env frame envelope base revisions =
     bindR (of_zod (toolInvocationSchema env (ev_payload envelope))) (\<lambda>candidate.
       let tool = mergeToolInvocation (date_parse env) (obj_get (es_tools base) (tool_id candidate))
                    candidate
       in Inr (base\<lparr>es_revisions := revisions,
            es_tools := obj_put (es_tools base) (tool_id tool) tool\<rparr>))"

definition taskUpdated :: handler where
  "taskUpdated env frame envelope base revisions =
     bindR (of_zod (taskUpdateSchema env (ev_payload envelope))) (\<lambda>_. Inr base)"

definition runUpserted :: handler where
  "runUpserted env frame envelope base revisions =
     bindR (of_zod (runSchema env (ev_payload envelope))) (\<lambda>run.
       Inr (base\<lparr>es_revisions := revisions, es_runs := obj_put (es_runs base) (run_id run) run\<rparr>))"

definition approvalUpserted :: handler where
  "approvalUpserted env frame envelope base revisions =
     bindR (of_zod (approvalRequestSchema env (ev_payload envelope))) (\<lambda>approval.
       Inr (base\<lparr>es_revisions := revisions,
         es_approvals := obj_put (es_approvals base) (apr_id approval) approval\<rparr>))"

definition questionUpserted :: handler where
  "questionUpserted env frame envelope base revisions =
     bindR (of_zod (userQuestionSchema env (ev_payload envelope))) (\<lambda>question.
       Inr (base\<lparr>es_revisions := revisions,
         es_questions := obj_put (es_questions base) (qst_id question) question\<rparr>))"

definition taskUpserted :: handler where
  "taskUpserted env frame envelope base revisions =
     bindR (of_zod (taskSchema env (ev_payload envelope))) (\<lambda>task.
       Inr (base\<lparr>es_revisions := revisions, es_tasks := obj_put (es_tasks base) (task_id task) task\<rparr>))"

definition subagentUpserted :: handler where
  "subagentUpserted env frame envelope base revisions =
     bindR (of_zod (subagentSchema env (ev_payload envelope))) (\<lambda>subagent.
       Inr (base\<lparr>es_revisions := revisions,
         es_subagents := obj_put (es_subagents base) (sa_id subagent) subagent\<rparr>))"

definition artifactUpserted :: handler where
  "artifactUpserted env frame envelope base revisions =
     bindR (of_zod (artifactSchema env (ev_payload envelope))) (\<lambda>artifact.
       Inr (base\<lparr>es_revisions := revisions,
         es_artifacts := obj_put (es_artifacts base) (art_id artifact) artifact\<rparr>))"

definition surfaceUpserted :: handler where
  "surfaceUpserted env frame envelope base revisions =
     bindR (of_zod (a2uiSurfaceSchema env (ev_payload envelope))) (\<lambda>surface.
       Inr (base\<lparr>es_revisions := revisions,
         es_surfaces := obj_put (es_surfaces base) (sf_id surface) surface\<rparr>))"

section \<open>Message blocks\<close>

text \<open>\<open>{ ...base.subagents[subagent.id], ...subagent }\<close>.\<close>

definition spread_subagent :: "subagent_run option \<Rightarrow> subagent_run \<Rightarrow> subagent_run" where
  "spread_subagent previous c = (case previous of None \<Rightarrow> c | Some p \<Rightarrow> \<lparr>
     sa_id = sa_id c, sa_session_id = sa_session_id c,
     sa_parent_run_id = spread_slot (sa_parent_run_id p) (sa_parent_run_id c),
     sa_child_session_id = spread_slot (sa_child_session_id p) (sa_child_session_id c),
     sa_agent_id = spread_slot (sa_agent_id p) (sa_agent_id c),
     sa_title = sa_title c, sa_state = sa_state c,
     sa_summary = spread_slot (sa_summary p) (sa_summary c),
     sa_task = spread_slot (sa_task p) (sa_task c),
     sa_result = spread_slot (sa_result p) (sa_result c),
     sa_duration_ms = spread_slot (sa_duration_ms p) (sa_duration_ms c),
     sa_model_choice = spread_slot (sa_model_choice p) (sa_model_choice c),
     sa_origin = spread_slot (sa_origin p) (sa_origin c)\<rparr>)"

fun is_subagent_block :: "block_body \<Rightarrow> string \<Rightarrow> bool" where
  "is_subagent_block (SubagentBlock i _ _) j = (i = j)"
| "is_subagent_block _ _ = False"

definition messageBlockUpserted :: handler where
  "messageBlockUpserted env frame envelope base revisions =
     bindR (js_prop (ev_payload envelope) ''message_id'') (\<lambda>v. case v of
       JStr message_id \<Rightarrow>
         (case obj_get (es_messages base) message_id of
            None \<Rightarrow> Inr (recordMissingEntity base frame envelope
              (''Message '' @ message_id @ '' is not resident for its block''))
          | Some message \<Rightarrow>
              bindR (js_prop (ev_payload envelope) ''block'') (\<lambda>bv.
              bindR (of_zod (messageBlockSchema env bv)) (\<lambda>block.
              bindR (js_prop (ev_payload envelope) ''subagent'') (\<lambda>sv.
              bindR (if sv = JUndef then Inr None
                     else bindR (of_zod (subagentSchema env sv)) (\<lambda>s. Inr (Some s))) (\<lambda>subagent.
              if (case subagent of None \<Rightarrow> False | Some s \<Rightarrow>
                    \<not> is_subagent_block (blk_body block) (sa_id s) \<or>
                    sa_session_id s \<noteq> msg_session_id message)
              then Inl (PlainError ''Invalid handoff entity owner'')
              else let upserted = upsertBlock message block in
                Inr (base\<lparr>es_revisions := revisions,
                  es_responded_turns := markRespondedTurn base message block,
                  es_messages := obj_put (es_messages base) (msg_id message) upserted,
                  es_compactions := settleCompactions (es_compactions base) upserted,
                  es_subagents := (case subagent of
                      None \<Rightarrow> es_subagents base
                    | Some s \<Rightarrow> obj_put (es_subagents base) (sa_id s)
                        (spread_subagent (obj_get (es_subagents base) (sa_id s)) s))\<rparr>))))))
     | _ \<Rightarrow> Inl (PlainError ''Invalid message block owner''))"

definition messageBlockDelta :: handler where
  "messageBlockDelta env frame envelope base revisions =
     bindR (js_prop (ev_payload envelope) ''message_id'') (\<lambda>mv.
     bindR (js_prop (ev_payload envelope) ''block_id'') (\<lambda>bv.
     bindR (js_prop (ev_payload envelope) ''delta'') (\<lambda>dv.
     case (mv, bv, dv) of
       (JStr message_id, JStr block_id, JStr delta) \<Rightarrow>
         (case obj_get (es_messages base) message_id of
            None \<Rightarrow> Inr (recordMissingEntity base frame envelope
              (''Message '' @ message_id @ '' is not resident for its block delta''))
          | Some message \<Rightarrow>
              let block = find (\<lambda>c. blk_id c = block_id) (msg_blocks message) in
              Inr (base\<lparr>es_revisions := revisions,
                es_responded_turns := (case block of
                    Some b \<Rightarrow> markRespondedTurn base message b
                  | None \<Rightarrow> es_responded_turns base),
                es_messages := obj_put (es_messages base) (msg_id message)
                  (appendDelta message block_id delta)\<rparr>))
     | _ \<Rightarrow> Inl (PlainError ''Invalid message.block.delta payload''))))"

definition messageBlockCompleted :: handler where
  "messageBlockCompleted env frame envelope base revisions =
     bindR (js_prop (ev_payload envelope) ''message_id'') (\<lambda>mv.
     bindR (js_prop (ev_payload envelope) ''block_id'') (\<lambda>bv.
     bindR (js_prop (ev_payload envelope) ''text'') (\<lambda>tv.
     case (mv, bv, tv) of
       (JStr message_id, JStr block_id, JStr txt) \<Rightarrow>
         (case obj_get (es_messages base) message_id of
            None \<Rightarrow> Inr (recordMissingEntity base frame envelope
              (''Message '' @ message_id @ '' is not resident for its completed block''))
          | Some message \<Rightarrow>
              bindR (js_prop (ev_payload envelope) ''block'') (\<lambda>block.
              bindR (if block = JUndef then Inr message
                     else upsertCompletedReasoning (messageBlockSchema env) message block_id block)
                (\<lambda>upserted.
              Inr (base\<lparr>es_revisions := revisions,
                es_messages := obj_put (es_messages base) (msg_id message)
                  (completeBlock upserted block_id txt)\<rparr>))))
     | _ \<Rightarrow> Inl (PlainError ''Invalid message.block.completed payload''))))"

text \<open>An unfinished tool call of an interrupted message.\<close>

definition interrupt_tool ::
  "string option \<Rightarrow> tool_invocation obj \<Rightarrow> message_block \<Rightarrow> tool_invocation obj" where
  "interrupt_tool stop_reason tools block =
     (case block_tool_id (blk_body block) of
        None \<Rightarrow> tools
      | Some t \<Rightarrow> (case obj_get tools t of
          None \<Rightarrow> tools
        | Some tool \<Rightarrow>
            if tool_state tool \<noteq> ToolPending \<and> tool_state tool \<noteq> ToolRunning then tools
            else obj_put tools (tool_id tool) (tool\<lparr>
              tool_state := (if stop_reason = Some ''cancelled'' then ToolCancelled else ToolFailed),
              tool_error := Val ''Turn interrupted before a result was recorded; accepted tasks may continue.''\<rparr>)))"

definition completed_message :: "event_envelope \<Rightarrow> message \<Rightarrow> message_completion \<Rightarrow> message" where
  "completed_message envelope m p = m\<lparr>
     msg_completed_at := Some (coalesce (mcp_completed_at p) (ev_occurred_at envelope)),
     msg_usage := or_else (mcp_tokens p) (msg_usage m),
     msg_cost_usd := or_else (mcp_cost_usd p) (msg_cost_usd m),
     msg_stop_reason := or_else (mcp_stop_reason p) (msg_stop_reason m),
     msg_error_info := or_else (mcp_error_info p) (msg_error_info m),
     msg_metadata := (case mcp_metadata p of
         Some md \<Rightarrow> Some (obj_spread (coalesce (msg_metadata m) []) md)
       | None \<Rightarrow> msg_metadata m),
     msg_blocks := map stop_streaming (msg_blocks m)\<rparr>"

definition messageCompleted :: handler where
  "messageCompleted env frame envelope base revisions =
     bindR (of_zod (messageCompletionSchema env (ev_payload envelope))) (\<lambda>payload.
       case obj_get (es_messages base) (mcp_message_id payload) of
         None \<Rightarrow> Inr (recordMissingEntity base frame envelope
           (''Message '' @ mcp_message_id payload @ '' is not resident for its completion''))
       | Some message \<Rightarrow>
           let interrupted = coalesce (mcp_stop_reason payload) []
                 \<in> set [''cancelled'', ''interrupted'', ''error''];
               tools = (if interrupted
                 then foldl (interrupt_tool (mcp_stop_reason payload)) (es_tools base)
                        (msg_blocks message)
                 else es_tools base)
           in Inr (base\<lparr>es_revisions := revisions,
             es_tools := tools,
             es_usage := (case mcp_tokens payload of
                 Some t \<Rightarrow> addUsage (es_usage base) (msg_session_id message) (mu_input t)
                             (mu_output t) (mcp_cost_usd payload)
               | None \<Rightarrow> es_usage base),
             es_messages := obj_put (es_messages base) (msg_id message)
               (completed_message envelope message payload)\<rparr>))"

section \<open>Tools, approvals and variants\<close>

definition delta_presentation_block :: "presentation_delta \<Rightarrow> presentation_block \<Rightarrow> presentation_block" where
  "delta_presentation_block delta block =
     (if pb_id block \<noteq> pd_block_id delta then block
      else let body = coalesce (pb_text block) [];
               offset = coalesce (pb_stream_offset block) (int (length body))
           in if pd_offset delta \<noteq> offset then block
              else block\<lparr>pb_text := Some (body @ pd_text delta),
                         pb_stream_offset := Some (offset + int (length (pd_text delta)))\<rparr>)"

definition toolPresentationDelta :: handler where
  "toolPresentationDelta env frame envelope base revisions =
     bindR (of_zod (toolPresentationDeltaSchema env (ev_payload envelope))) (\<lambda>delta.
       case obj_get (es_tools base) (pd_call_id delta) of
         None \<Rightarrow> Inr base
       | Some tool \<Rightarrow> (case slot_val (tool_presentation tool) of
           None \<Rightarrow> Inr base
         | Some presentation \<Rightarrow>
             if tool_state tool \<noteq> ToolRunning then Inr base
             else Inr (base\<lparr>es_revisions := revisions,
               es_tools := obj_put (es_tools base) (tool_id tool) (tool\<lparr>tool_presentation :=
                 Val (presentation\<lparr>tp_blocks :=
                   map (delta_presentation_block delta) (tp_blocks presentation)\<rparr>)\<rparr>)\<rparr>)))"

definition resolved_status :: "js_value \<Rightarrow> approval_status \<Rightarrow> approval_status" where
  "resolved_status v current =
     (if v = JStr ''approved'' then ApprovalApproved
      else if v = JStr ''denied'' then ApprovalDenied
      else if v = JStr ''cancelled'' then ApprovalCancelled
      else current)"

definition resolved_action :: "js_value \<Rightarrow> approval_action option \<Rightarrow> approval_action option" where
  "resolved_action v current =
     (if v = JStr ''allow'' then Some ActionAllow
      else if v = JStr ''deny'' then Some ActionDeny
      else if v = JStr ''allow_session'' then Some ActionAllowSession
      else if v = JStr ''allow_workspace'' then Some ActionAllowWorkspace
      else current)"

definition approvalResolved :: handler where
  "approvalResolved env frame envelope base revisions =
     bindR (js_prop (ev_payload envelope) ''id'') (\<lambda>idv. case idv of
       JStr i \<Rightarrow> (case obj_get (es_approvals base) i of
           None \<Rightarrow> Inr (recordMissingEntity base frame envelope
             (''Approval '' @ i @ '' is not resident for its resolution''))
         | Some approval \<Rightarrow>
             bindR (js_prop (ev_payload envelope) ''status'') (\<lambda>sv.
             bindR (js_prop (ev_payload envelope) ''action'') (\<lambda>av.
             bindR (js_prop (ev_payload envelope) ''resolved_at'') (\<lambda>rv.
             Inr (base\<lparr>es_revisions := revisions,
               es_approvals := obj_put (es_approvals base) (apr_id approval) (approval\<lparr>
                 apr_status := resolved_status sv (apr_status approval),
                 apr_action := resolved_action av (apr_action approval),
                 apr_resolved_at := Some (case rv of JStr t \<Rightarrow> t | _ \<Rightarrow> ev_occurred_at envelope)\<rparr>)\<rparr>)))))
     | _ \<Rightarrow> Inl (PlainError ''Invalid resolved approval id''))"

definition variantTryUpserted :: handler where
  "variantTryUpserted env frame envelope base revisions =
     bindR (of_zod (variantTryUpsertSchema env (ev_payload envelope))) (\<lambda>payload.
       Inr (base\<lparr>es_revisions := revisions,
         es_variant_runs := upsertVariantTry (es_variant_runs base) payload\<rparr>))"

definition variantTryDelta :: handler where
  "variantTryDelta env frame envelope base revisions =
     bindR (of_zod (variantTryDeltaSchema env (ev_payload envelope))) (\<lambda>delta.
       case appendVariantDelta (es_variant_runs base) delta of
         None \<Rightarrow> Inr (recordMissingEntity base frame envelope
           (''Variant try '' @ vd_id delta @ '' is not resident for its delta''))
       | Some variantRuns \<Rightarrow>
           Inr (base\<lparr>es_revisions := revisions, es_variant_runs := variantRuns\<rparr>))"

definition variantSelected :: handler where
  "variantSelected env frame envelope base revisions =
     bindR (of_zod (variantSelectedSchema env (ev_payload envelope))) (\<lambda>selected.
       Inr (base\<lparr>es_revisions := revisions,
         es_variant_runs := selectVariant (es_variant_runs base) selected\<rparr>))"

definition variantClosed :: handler where
  "variantClosed env frame envelope base revisions =
     bindR (of_zod (variantClosedSchema env (ev_payload envelope))) (\<lambda>closed.
       Inr (base\<lparr>es_revisions := revisions,
         es_variant_runs := closeVariant (es_variant_runs base) closed\<rparr>))"

definition semanticEvent :: handler where
  "semanticEvent env frame envelope base revisions =
     (case (case variantSemanticEventSchema env (ev_payload envelope) of
              Inl _ \<Rightarrow> None
            | Inr e \<Rightarrow> recordVariantActivity (es_variant_runs base) e) of
        None \<Rightarrow> Inr base
      | Some variantRuns \<Rightarrow>
          Inr (base\<lparr>es_revisions := revisions, es_variant_runs := variantRuns\<rparr>))"

section \<open>Turns, infrastructure and surfaces\<close>

definition turnStarted :: handler where
  "turnStarted env frame envelope base revisions =
     (if \<not> truthy_str (sc_session_id (ev_scope envelope)) then Inr base
      else let sessionId = the (sc_session_id (ev_scope envelope)) in
        bindR (js_prop (ev_payload envelope) ''turn_id'') (\<lambda>turnId.
          Inr (base\<lparr>
            es_active_turns := (case turnId of
                JStr t \<Rightarrow> obj_put (es_active_turns base) sessionId t
              | _ \<Rightarrow> es_active_turns base),
            es_responded_turns := obj_filter (\<lambda>i _. i \<noteq> sessionId) (es_responded_turns base),
            es_infrastructure :=
              obj_filter (\<lambda>_ d. dep_session_id d \<noteq> sessionId) (es_infrastructure base)\<rparr>)))"

definition sessionStatusChanged :: handler where
  "sessionStatusChanged env frame envelope base revisions =
     (if \<not> truthy_str (sc_session_id (ev_scope envelope)) then Inr base
      else let sessionId = the (sc_session_id (ev_scope envelope)) in
        bindR (js_prop (ev_payload envelope) ''status'') (\<lambda>status.
        bindR (js_prop (ev_payload envelope) ''prev_status'') (\<lambda>prev_status.
          if \<not> (status = JStr ''running'' \<and> prev_status = JStr ''idle'') then Inr base
          else Inr (base\<lparr>
            es_active_turns := obj_filter (\<lambda>i _. i \<noteq> sessionId) (es_active_turns base),
            es_responded_turns := obj_filter (\<lambda>i _. i \<noteq> sessionId) (es_responded_turns base)\<rparr>))))"

definition infrastructureChanged :: handler where
  "infrastructureChanged env frame envelope base revisions =
     bindR (of_zod (infrastructureDependencySchema env (ev_payload envelope))) (\<lambda>dependency.
       let previous = obj_get (es_infrastructure base) (dep_id dependency);
           projected = dependency\<lparr>dep_observed_active :=
             (case previous of Some p \<Rightarrow> dep_observed_active p | None \<Rightarrow> False) \<or>
             dep_state dependency = DepRunning \<or> dep_state dependency = DepRetrying\<rparr>
       in Inr (base\<lparr>es_revisions := revisions,
            es_infrastructure := obj_put (es_infrastructure base) (dep_id dependency) projected\<rparr>))"

definition surfaceDeleted :: handler where
  "surfaceDeleted env frame envelope base revisions =
     bindR (js_prop (ev_payload envelope) ''surface_id'') (\<lambda>v. case v of
       JStr surface_id \<Rightarrow> (case obj_get (es_surfaces base) surface_id of
           None \<Rightarrow> Inr (recordMissingEntity base frame envelope
             (''A2UI surface '' @ surface_id @ '' is not resident for its deletion''))
         | Some surface \<Rightarrow> Inr (base\<lparr>es_revisions := revisions,
             es_surfaces := obj_put (es_surfaces base) surface_id (surface\<lparr>sf_state := A2Deleted\<rparr>)\<rparr>))
     | _ \<Rightarrow> Inl (PlainError ''Invalid deleted surface id''))"

text \<open>The own enumerable properties \<open>{ ...payload }\<close> copies.\<close>

fun js_spread :: "js_value \<Rightarrow> js_value obj" where
  "js_spread (JObj o1) = o1"
| "js_spread (JArr xs) = map (\<lambda>i. (show_nat i, xs ! i)) [0..<length xs]"
| "js_spread (JStr s) = map (\<lambda>i. (show_nat i, JStr [s ! i])) [0..<length s]"
| "js_spread _ = []"

definition js_coalesce :: "js_value \<Rightarrow> js_value \<Rightarrow> js_value" where
  "js_coalesce v w = (if v = JUndef \<or> v = JNull then w else v)"

definition a2uiAction :: handler where
  "a2uiAction env frame envelope base revisions =
     bindR (js_prop (ev_payload envelope) ''occurred_at'') (\<lambda>occurred_at.
       case a2uiActionLifecycleSchema env (JObj (obj_put (obj_put (js_spread (ev_payload envelope))
              ''status'' (JStr (drop (length ''a2ui.action.'') (ev_type envelope))))
              ''occurred_at'' (js_coalesce occurred_at (JStr (fr_receivedAt frame))))) of
         Inl _ \<Rightarrow> Inr base
       | Inr lifecycle \<Rightarrow> Inr (base\<lparr>es_revisions := revisions,
           es_lifecycles := obj_put (es_lifecycles base) (lc_surface_id lifecycle) lifecycle\<rparr>))"

section \<open>Compactions and the stream itself\<close>

definition compactionStarted :: handler where
  "compactionStarted env frame envelope base revisions =
     bindR (reduceCompactionStarted (compactionStartedSchema env) (localeCompare env) base
         (ev_payload envelope) (ev_occurred_at envelope))
       (\<lambda>cs. Inr (base\<lparr>es_revisions := revisions, es_compactions := cs\<rparr>))"

definition compactionCompleted :: handler where
  "compactionCompleted env frame envelope base revisions =
     bindR (reduceCompactionCompleted (compactionCompletedSchema env) (localeCompare env) base
         (ev_payload envelope) (ev_occurred_at envelope))
       (\<lambda>cs. Inr (base\<lparr>es_revisions := revisions, es_compactions := cs\<rparr>))"

definition compactionFailed :: handler where
  "compactionFailed env frame envelope base revisions =
     bindR (reduceCompactionFailed (compactionFailedSchema env) (localeCompare env) base
         (ev_payload envelope) (ev_occurred_at envelope))
       (\<lambda>cs. Inr (base\<lparr>es_revisions := revisions, es_compactions := cs\<rparr>))"

definition streamGap :: handler where
  "streamGap env frame envelope base revisions =
     Inr (base\<lparr>es_revisions := revisions, es_stream := StreamGapped,
       es_streamGaps := Some (coalesce (es_streamGaps base) 0 + 1)\<rparr>)"

definition streamLive :: handler where
  "streamLive env frame envelope base revisions =
     Inr (base\<lparr>es_revisions := revisions, es_stream := StreamLive\<rparr>)"

definition unprojected :: handler where
  "unprojected env frame envelope base revisions = Inr base"

section \<open>The switch and the reduction of a frame\<close>

definition handlers :: "(string \<times> handler) list" where
  "handlers = [
     (''workspace.upserted'', workspaceUpserted),
     (''message.upserted'', messageUpserted),
     (''session.upserted'', sessionUpserted),
     (''message.block.upserted'', messageBlockUpserted),
     (''message.block.delta'', messageBlockDelta),
     (''message.block.completed'', messageBlockCompleted),
     (''message.completed'', messageCompleted),
     (''tool.upserted'', toolUpserted),
     (''task.updated'', taskUpdated),
     (''tool.presentation.delta'', toolPresentationDelta),
     (''run.upserted'', runUpserted),
     (''approval.upserted'', approvalUpserted),
     (''approval.resolved'', approvalResolved),
     (''question.upserted'', questionUpserted),
     (''variant.try.upserted'', variantTryUpserted),
     (''variant.try.delta'', variantTryDelta),
     (''variant.selected'', variantSelected),
     (''variant.closed'', variantClosed),
     (''semantic.event'', semanticEvent),
     (''task.upserted'', taskUpserted),
     (''subagent.upserted'', subagentUpserted),
     (''artifact.upserted'', artifactUpserted),
     (''turn.started'', turnStarted),
     (''session.status_changed'', sessionStatusChanged),
     (''infrastructure.dependency.changed'', infrastructureChanged),
     (''a2ui.surface.upserted'', surfaceUpserted),
     (''a2ui.surface.deleted'', surfaceDeleted),
     (''a2ui.action.received'', a2uiAction),
     (''a2ui.action.delivered'', a2uiAction),
     (''a2ui.action.consumed'', a2uiAction),
     (''a2ui.action.failed'', a2uiAction),
     (''a2ui.action.duplicate'', a2uiAction),
     (''compaction.started'', compactionStarted),
     (''compaction.completed'', compactionCompleted),
     (''compaction.failed'', compactionFailed),
     (''stream.gap'', streamGap),
     (''stream.live'', streamLive)]"

definition reduceEvent :: handler where
  "reduceEvent env frame envelope =
     (case map_of handlers (ev_type envelope) of
        Some h \<Rightarrow> h env frame envelope
      | None \<Rightarrow> unprojected env frame envelope)"

definition timelineCursor :: "transport_frame \<Rightarrow> bool" where
  "timelineCursor frame \<longleftrightarrow> fr_cursor frame \<noteq> [] \<and> fr_cursor frame \<noteq> ''0''"

text \<open>The base state: the cursor of the frame is taken, its effect is not applied yet.\<close>

definition advance_cursor :: "entity_state \<Rightarrow> transport_frame \<Rightarrow> entity_state" where
  "advance_cursor state frame = state\<lparr>
     es_cursor := (if timelineCursor frame then Some (fr_cursor frame) else es_cursor state),
     es_processed_cursors := (if timelineCursor frame
       then take_last MAX_CURSOR_HISTORY (es_processed_cursors state @ [fr_cursor frame])
       else es_processed_cursors state)\<rparr>"

definition reduce_frame ::
  "handler \<Rightarrow> env \<Rightarrow> entity_state \<Rightarrow> transport_frame \<Rightarrow> entity_state result" where
  "reduce_frame handle env state frame =
     (if timelineCursor frame \<and> fr_cursor frame \<in> set (es_processed_cursors state) then Inr state
      else bindR (of_zod (eventEnvelopeSchema env (fr_data frame))) (\<lambda>envelope.
        let base = advance_cursor state frame in
        if \<not> shouldApplyRevision base (ev_entity_id envelope) (ev_entity_revision envelope)
        then Inr base
        else handle env frame envelope base
               (recordRevision base (ev_entity_id envelope) (ev_entity_revision envelope))))"

definition reduceTransportFrame :: "env \<Rightarrow> entity_state \<Rightarrow> transport_frame \<Rightarrow> entity_state result" where
  "reduceTransportFrame = reduce_frame reduceEvent"

end
