(* ===== verification/Reducer_Laws.thy ===== *)
theory Reducer_Laws
  imports Reducer
begin

text \<open>
  What every arm of the reducer's \<open>switch\<close> keeps, and what follows for a whole frame. The
  locale \<open>frame_handler\<close> states the contract between the arms and the code around them (an
  arm never touches the cursors, banks the revision or leaves it, leaves at most one gap,
  and keeps every entity map keyed by id); its lemmas are the guarantees of a reduced frame.
  It is interpreted on \<open>reduceEvent\<close>, arm by arm.
\<close>

section \<open>The invariant of the store\<close>

definition store_ok :: "('v \<Rightarrow> string) \<Rightarrow> 'v obj \<Rightarrow> bool" where
  "store_ok idf m \<longleftrightarrow> wf_obj m \<and> keyed idf m"

text \<open>Every entity map has one row per id, and each row is stored under its own id.\<close>

definition wf_store :: "entity_state \<Rightarrow> bool" where
  "wf_store s \<longleftrightarrow>
     store_ok ws_id (es_workspaces s) \<and> store_ok ses_id (es_sessions s) \<and>
     store_ok run_id (es_runs s) \<and> store_ok msg_id (es_messages s) \<and>
     store_ok tool_id (es_tools s) \<and> store_ok apr_id (es_approvals s) \<and>
     store_ok qst_id (es_questions s) \<and> store_ok task_id (es_tasks s) \<and>
     store_ok sa_id (es_subagents s) \<and> store_ok art_id (es_artifacts s) \<and>
     store_ok us_session_id (es_usage s) \<and> store_ok sf_id (es_surfaces s) \<and>
     store_ok lc_surface_id (es_lifecycles s) \<and> store_ok dep_id (es_infrastructure s) \<and>
     wf_compactions (es_compactions s) \<and>
     wf_obj (es_variant_runs s) \<and> wf_runs (es_variant_runs s)"

text \<open>The bookkeeping: bounded histories, and no cursor twice among those remembered.\<close>

definition wf_books :: "entity_state \<Rightarrow> bool" where
  "wf_books s \<longleftrightarrow>
     wf_obj (es_revisions s) \<and> distinct (es_processed_cursors s) \<and>
     length (es_processed_cursors s) \<le> MAX_CURSOR_HISTORY \<and>
     length (es_gaps s) \<le> MAX_GAP_HISTORY"

definition wf_state :: "entity_state \<Rightarrow> bool" where
  "wf_state s \<longleftrightarrow> wf_store s \<and> wf_books s"

lemma store_ok_Nil [simp]: "store_ok idf []"
  by (simp add: store_ok_def objs.keyed_empty)

lemma store_ok_put [simp]: "store_ok idf m \<Longrightarrow> idf v = k \<Longrightarrow> store_ok idf (obj_put m k v)"
  by (simp add: store_ok_def objs.keyed_put)

lemma store_ok_get: "store_ok idf m \<Longrightarrow> obj_get m k = Some v \<Longrightarrow> idf v = k"
  by (simp add: store_ok_def keyed_by_def)

lemma store_ok_filter [simp]: "store_ok idf m \<Longrightarrow> store_ok idf (obj_filter P m)"
  by (simp add: store_ok_def keyed_filter)

lemma wf_createEntityState [simp]: "wf_state createEntityState"
  by (simp add: wf_state_def wf_store_def wf_books_def createEntityState_def wf_compactions_def
      objs.keyed_empty)

lemma advance_cursor_frame [simp]:
  "es_gaps (advance_cursor s f) = es_gaps s"
  "es_revisions (advance_cursor s f) = es_revisions s"
  "wf_store (advance_cursor s f) = wf_store s"
  by (simp_all add: advance_cursor_def wf_store_def)

lemma distinct_take_last: "distinct xs \<Longrightarrow> distinct (take_last n xs)"
  by (simp add: take_last_def)

lemma wf_advance_cursor:
  assumes "wf_state s" "\<not> (timelineCursor f \<and> fr_cursor f \<in> set (es_processed_cursors s))"
  shows "wf_state (advance_cursor s f)"
proof -
  have "distinct (take_last MAX_CURSOR_HISTORY (es_processed_cursors s @ [fr_cursor f]))"
    if "timelineCursor f"
    using assms that by (intro distinct_take_last) (simp add: wf_state_def wf_books_def)
  then show ?thesis
    using assms(1) by (simp add: wf_state_def wf_books_def) (simp add: advance_cursor_def)
qed

section \<open>The contract of an arm\<close>

definition arm_ok ::
  "transport_frame \<Rightarrow> event_envelope \<Rightarrow> entity_state \<Rightarrow> revisions \<Rightarrow> entity_state \<Rightarrow> bool" where
  "arm_ok frame envelope base revisions s \<longleftrightarrow>
     es_cursor s = es_cursor base \<and> es_processed_cursors s = es_processed_cursors base \<and>
     (es_revisions s = es_revisions base \<or> es_revisions s = revisions) \<and>
     (es_gaps s = es_gaps base \<or> (\<exists>reason. s = recordMissingEntity base frame envelope reason)) \<and>
     (wf_store base \<longrightarrow> wf_store s)"

locale frame_handler =
  fixes handle :: handler
  assumes arm: "handle env frame envelope base revisions = Inr s \<Longrightarrow>
    arm_ok frame envelope base revisions s"
begin

lemma frame_cases:
  assumes "reduce_frame handle env s f = Inr s'"
  obtains (replayed) "timelineCursor f" "fr_cursor f \<in> set (es_processed_cursors s)" "s' = s"
  | (stale) e where "eventEnvelopeSchema env (fr_data f) = Inr e" "s' = advance_cursor s f"
      "\<not> (timelineCursor f \<and> fr_cursor f \<in> set (es_processed_cursors s))"
      "\<not> shouldApplyRevision s (ev_entity_id e) (ev_entity_revision e)"
  | (applied) e where "eventEnvelopeSchema env (fr_data f) = Inr e"
      "\<not> (timelineCursor f \<and> fr_cursor f \<in> set (es_processed_cursors s))"
      "shouldApplyRevision s (ev_entity_id e) (ev_entity_revision e)"
      "handle env f e (advance_cursor s f)
         (recordRevision s (ev_entity_id e) (ev_entity_revision e)) = Inr s'"
      "arm_ok f e (advance_cursor s f) (recordRevision s (ev_entity_id e) (ev_entity_revision e)) s'"
proof -
  have same: "shouldApplyRevision (advance_cursor s f) i r = shouldApplyRevision s i r"
    "recordRevision (advance_cursor s f) i r = recordRevision s i r" for i r
    by (simp_all add: advance_cursor_def shouldApplyRevision_def recordRevision_def)
  from assms that arm show ?thesis
    by (fastforce simp: reduce_frame_def bindR_eq_Inr of_zod_eq_Inr Let_def same split: if_splits)
qed

lemma cursors_after:
  assumes "reduce_frame handle env s f = Inr s'"
    and "\<not> (timelineCursor f \<and> fr_cursor f \<in> set (es_processed_cursors s))"
  shows "es_processed_cursors s' = es_processed_cursors (advance_cursor s f)
    \<and> es_cursor s' = es_cursor (advance_cursor s f)"
  using assms(1) by (cases rule: frame_cases) (use assms(2) in \<open>auto simp: arm_ok_def\<close>)

lemma cursor_remembered:
  assumes "reduce_frame handle env s f = Inr s'" "timelineCursor f"
  shows "fr_cursor f \<in> set (es_processed_cursors s')"
proof (cases "fr_cursor f \<in> set (es_processed_cursors s)")
  case True
  with assms show ?thesis by (simp add: reduce_frame_def)
next
  case False
  with cursors_after [OF assms(1)] assms(2) show ?thesis
    by (simp add: advance_cursor_def last_in_take_last MAX_CURSOR_HISTORY_def)
qed

lemma replay_is_noop:
  assumes "reduce_frame handle env s f = Inr s'" "timelineCursor f"
  shows "reduce_frame handle env s' f = Inr s'"
  using cursor_remembered [OF assms] assms(2) by (simp add: reduce_frame_def)

lemma revision_monotone:
  assumes "reduce_frame handle env s f = Inr s'" "obj_get (es_revisions s) k = Some v"
  shows "\<exists>v'. obj_get (es_revisions s') k = Some v' \<and> v \<le> v'"
  using assms(1)
proof (cases rule: frame_cases)
  case (applied e)
  with recordRevision_mono [OF applied(3) assms(2)] assms(2) show ?thesis
    by (auto simp: arm_ok_def)
qed (use assms(2) in simp_all)

lemma stale_is_skipped:
  assumes "eventEnvelopeSchema env (fr_data f) = Inr e"
    and "ev_entity_id e = Some i" "i \<noteq> []" "ev_entity_revision e = Some r"
    and "obj_get (es_revisions s) i = Some v" "r \<le> v"
    and "\<not> (timelineCursor f \<and> fr_cursor f \<in> set (es_processed_cursors s))"
  shows "reduce_frame handle env s f = Inr (advance_cursor s f)"
proof -
  have "\<not> shouldApplyRevision (advance_cursor s f) (ev_entity_id e) (ev_entity_revision e)"
    using assms by (simp add: advance_cursor_def shouldApplyRevision_def truthy_str_def)
  with assms show ?thesis by (auto simp: reduce_frame_def)
qed

lemma gaps_after:
  assumes "reduce_frame handle env s f = Inr s'"
  shows "es_gaps s' = es_gaps s \<or>
    (\<exists>e reason. s' = recordMissingEntity (advance_cursor s f) f e reason)"
  using assms by (cases rule: frame_cases) (auto simp: arm_ok_def)

lemma wf_frame:
  assumes "reduce_frame handle env s f = Inr s'" "wf_state s"
  shows "wf_state s'"
  using assms(1)
proof (cases rule: frame_cases)
  case (applied e)
  from wf_advance_cursor [OF assms(2) applied(2)] have wf: "wf_state (advance_cursor s f)" .
  have "wf_obj (recordRevision s (ev_entity_id e) (ev_entity_revision e))"
    using assms(2) by (simp add: wf_state_def wf_books_def)
  moreover have "length (es_gaps (recordMissingEntity b f e reason)) \<le> MAX_GAP_HISTORY" for b reason
    by (simp add: recordMissingEntity_def Let_def)
  ultimately show ?thesis
    using applied(5) wf by (auto simp: arm_ok_def wf_state_def wf_books_def)
qed (use assms(2) wf_advance_cursor in auto)

end

section \<open>Arm by arm\<close>

lemma arm_ok_base [simp]: "arm_ok frame envelope base revisions base"
  by (simp add: arm_ok_def)

lemma arm_ok_missing [simp]:
  "arm_ok frame envelope base revisions (recordMissingEntity base frame envelope reason)"
  by (auto simp: arm_ok_def recordMissingEntity_def Let_def wf_store_def)

text \<open>An arm that leaves the cursors and the gaps alone and banks the revision.\<close>

lemma arm_okI:
  assumes "es_cursor s = es_cursor base" "es_processed_cursors s = es_processed_cursors base"
    and "es_revisions s = revisions \<or> es_revisions s = es_revisions base" "es_gaps s = es_gaps base"
    and "wf_store base \<Longrightarrow> wf_store s"
  shows "arm_ok frame envelope base revisions s"
  using assms by (auto simp: arm_ok_def)

text \<open>A property of the value a computation returns, when it returns one.\<close>

definition ensures :: "'a result \<Rightarrow> ('a \<Rightarrow> bool) \<Rightarrow> bool" where
  "ensures r P \<longleftrightarrow> (\<forall>s. r = Inr s \<longrightarrow> P s)"

lemma ensures_simps [simp]: "ensures (Inl e) P" "ensures (Inr s) P \<longleftrightarrow> P s"
  by (simp_all add: ensures_def)

lemma ensures_bind: "(\<And>x. r = Inr x \<Longrightarrow> ensures (k x) P) \<Longrightarrow> ensures (bindR r k) P"
  by (cases r) simp_all

lemma ensuresD: "ensures r P \<Longrightarrow> r = Inr s \<Longrightarrow> P s"
  by (simp add: ensures_def)

lemma arm_workspaceUpserted: "ensures (workspaceUpserted env f e b r) (arm_ok f e b r)"
  by (auto simp: workspaceUpserted_def wf_store_def intro!: ensures_bind arm_okI)

lemma arm_messageUpserted: "ensures (messageUpserted env f e b r) (arm_ok f e b r)"
  by (auto simp: messageUpserted_def wf_store_def wf_compactions_settle intro!: ensures_bind arm_okI)

lemma session_usage_id [simp]: "us_session_id (session_usage s) = ses_id s"
  by (simp add: session_usage_def)

lemma arm_sessionUpserted: "ensures (sessionUpserted env f e b r) (arm_ok f e b r)"
  by (auto simp: sessionUpserted_def Let_def wf_store_def intro!: ensures_bind arm_okI)

lemma arm_toolUpserted: "ensures (toolUpserted env f e b r) (arm_ok f e b r)"
  by (auto simp: toolUpserted_def Let_def wf_store_def intro!: ensures_bind arm_okI)

lemma arm_taskUpdated: "ensures (taskUpdated env f e b r) (arm_ok f e b r)"
  by (auto simp: taskUpdated_def intro!: ensures_bind)

lemma arm_runUpserted: "ensures (runUpserted env f e b r) (arm_ok f e b r)"
  by (auto simp: runUpserted_def wf_store_def intro!: ensures_bind arm_okI)

lemma arm_approvalUpserted: "ensures (approvalUpserted env f e b r) (arm_ok f e b r)"
  by (auto simp: approvalUpserted_def wf_store_def intro!: ensures_bind arm_okI)

lemma arm_questionUpserted: "ensures (questionUpserted env f e b r) (arm_ok f e b r)"
  by (auto simp: questionUpserted_def wf_store_def intro!: ensures_bind arm_okI)

lemma arm_taskUpserted: "ensures (taskUpserted env f e b r) (arm_ok f e b r)"
  by (auto simp: taskUpserted_def wf_store_def intro!: ensures_bind arm_okI)

lemma arm_subagentUpserted: "ensures (subagentUpserted env f e b r) (arm_ok f e b r)"
  by (auto simp: subagentUpserted_def wf_store_def intro!: ensures_bind arm_okI)

lemma arm_artifactUpserted: "ensures (artifactUpserted env f e b r) (arm_ok f e b r)"
  by (auto simp: artifactUpserted_def wf_store_def intro!: ensures_bind arm_okI)

lemma arm_surfaceUpserted: "ensures (surfaceUpserted env f e b r) (arm_ok f e b r)"
  by (auto simp: surfaceUpserted_def wf_store_def intro!: ensures_bind arm_okI)

lemma spread_subagent_id [simp]: "sa_id (spread_subagent p c) = sa_id c"
  by (simp add: spread_subagent_def split: option.split)

lemma arm_messageBlockUpserted: "ensures (messageBlockUpserted env f e b r) (arm_ok f e b r)"
  unfolding messageBlockUpserted_def
  by (auto simp: Let_def wf_store_def wf_compactions_settle
      intro!: ensures_bind arm_okI split: js_value.split option.split)

lemma arm_messageBlockDelta: "ensures (messageBlockDelta env f e b r) (arm_ok f e b r)"
  unfolding messageBlockDelta_def
  by (auto simp: Let_def wf_store_def intro!: ensures_bind arm_okI split: js_value.split option.split)

lemma arm_messageBlockCompleted: "ensures (messageBlockCompleted env f e b r) (arm_ok f e b r)"
  unfolding messageBlockCompleted_def
  by (auto simp: wf_store_def dest!: upsertCompletedReasoning_id
      intro!: ensures_bind arm_okI split: js_value.split option.split if_splits)

lemma store_ok_interrupt_tool:
  "store_ok tool_id tools \<Longrightarrow> store_ok tool_id (interrupt_tool reason tools block)"
  by (auto simp: interrupt_tool_def split: option.split)

lemma store_ok_interrupt_tools:
  "store_ok tool_id tools \<Longrightarrow> store_ok tool_id (foldl (interrupt_tool reason) tools blocks)"
  by (induction blocks arbitrary: tools) (auto simp: store_ok_interrupt_tool)

lemma store_ok_addUsage [simp]:
  "store_ok us_session_id usage \<Longrightarrow> store_ok us_session_id (addUsage usage i inp out c)"
  by (simp add: addUsage_def Let_def)

lemma completed_message_id [simp]: "msg_id (completed_message e m p) = msg_id m"
  by (simp add: completed_message_def)

lemma arm_messageCompleted: "ensures (messageCompleted env f e b r) (arm_ok f e b r)"
  by (auto simp: messageCompleted_def Let_def wf_store_def store_ok_interrupt_tools
      intro!: ensures_bind arm_okI split: option.split)

lemma arm_toolPresentationDelta: "ensures (toolPresentationDelta env f e b r) (arm_ok f e b r)"
  by (auto simp: toolPresentationDelta_def wf_store_def
      intro!: ensures_bind arm_okI split: option.split)

lemma arm_approvalResolved: "ensures (approvalResolved env f e b r) (arm_ok f e b r)"
  unfolding approvalResolved_def
  by (auto simp: wf_store_def intro!: ensures_bind arm_okI split: js_value.split option.split)

lemma wf_obj_variant_ops:
  assumes "wf_obj runs"
  shows "wf_obj (upsertVariantTry runs u)" "wf_obj (selectVariant runs sel)"
    "wf_obj (closeVariant runs c)"
    "appendVariantDelta runs d = Some runs' \<Longrightarrow> wf_obj runs'"
    "recordVariantActivity runs ev = Some runs' \<Longrightarrow> wf_obj runs'"
  using assms
  by (auto simp: upsertVariantTry_def selectVariant_def closeVariant_def appendVariantDelta_def
      recordVariantActivity_def Let_def split: option.splits if_splits prod.splits)

lemmas wf_variants = wf_obj_variant_ops wf_upsertVariantTry wf_appendVariantDelta wf_selectVariant
  wf_closeVariant wf_recordVariantActivity

text \<open>An arm that banks the revision and replaces the variant runs.\<close>

lemma arm_ok_variants:
  assumes "wf_obj (es_variant_runs b) \<Longrightarrow> wf_runs (es_variant_runs b) \<Longrightarrow> wf_obj runs \<and> wf_runs runs"
  shows "arm_ok f e b r (b\<lparr>es_revisions := r, es_variant_runs := runs\<rparr>)"
  using assms by (intro arm_okI) (auto simp: wf_store_def)

lemma arm_variantTryUpserted: "ensures (variantTryUpserted env f e b r) (arm_ok f e b r)"
  by (auto simp: variantTryUpserted_def wf_variants(1,6) intro!: ensures_bind arm_ok_variants)

lemma arm_variantTryDelta: "ensures (variantTryDelta env f e b r) (arm_ok f e b r)"
  by (auto simp: variantTryDelta_def dest: wf_variants(4,7) intro!: ensures_bind arm_ok_variants
      split: option.split)

lemma arm_variantSelected: "ensures (variantSelected env f e b r) (arm_ok f e b r)"
  by (auto simp: variantSelected_def wf_variants(2,8) intro!: ensures_bind arm_ok_variants)

lemma arm_variantClosed: "ensures (variantClosed env f e b r) (arm_ok f e b r)"
  by (auto simp: variantClosed_def wf_variants(3,9) intro!: ensures_bind arm_ok_variants)

lemma arm_semanticEvent: "ensures (semanticEvent env f e b r) (arm_ok f e b r)"
  by (auto simp: semanticEvent_def dest: wf_variants(5,10) intro!: arm_ok_variants
      split: sum.split option.split)

lemma arm_turnStarted: "ensures (turnStarted env f e b r) (arm_ok f e b r)"
  by (auto simp: turnStarted_def Let_def wf_store_def intro!: ensures_bind arm_okI)

lemma arm_sessionStatusChanged: "ensures (sessionStatusChanged env f e b r) (arm_ok f e b r)"
  by (auto simp: sessionStatusChanged_def Let_def wf_store_def intro!: ensures_bind arm_okI)

lemma arm_infrastructureChanged: "ensures (infrastructureChanged env f e b r) (arm_ok f e b r)"
  by (auto simp: infrastructureChanged_def Let_def wf_store_def intro!: ensures_bind arm_okI)

lemma arm_surfaceDeleted: "ensures (surfaceDeleted env f e b r) (arm_ok f e b r)"
  by (auto simp: surfaceDeleted_def wf_store_def store_ok_get
      intro!: ensures_bind arm_okI split: js_value.split option.split)

lemma arm_a2uiAction: "ensures (a2uiAction env f e b r) (arm_ok f e b r)"
  by (auto simp: a2uiAction_def wf_store_def intro!: ensures_bind arm_okI split: sum.split)

lemma arm_ok_compactions:
  assumes "wf_compactions (es_compactions b) \<Longrightarrow> wf_compactions cs"
  shows "arm_ok f e b r (b\<lparr>es_revisions := r, es_compactions := cs\<rparr>)"
  using assms by (intro arm_okI) (auto simp: wf_store_def)

lemma arm_compactionStarted: "ensures (compactionStarted env f e b r) (arm_ok f e b r)"
  by (auto simp: compactionStarted_def intro!: ensures_bind arm_ok_compactions
      elim: wf_reduceCompactions(1) [rotated])

lemma arm_compactionCompleted: "ensures (compactionCompleted env f e b r) (arm_ok f e b r)"
  by (auto simp: compactionCompleted_def intro!: ensures_bind arm_ok_compactions
      elim: wf_reduceCompactions(2) [rotated])

lemma arm_compactionFailed: "ensures (compactionFailed env f e b r) (arm_ok f e b r)"
  by (auto simp: compactionFailed_def intro!: ensures_bind arm_ok_compactions
      elim: wf_reduceCompactions(3) [rotated])

lemma arm_stream:
  "ensures (streamGap env f e b r) (arm_ok f e b r)"
  "ensures (streamLive env f e b r) (arm_ok f e b r)"
  "ensures (unprojected env f e b r) (arm_ok f e b r)"
  by (auto simp: streamGap_def streamLive_def unprojected_def wf_store_def intro!: arm_okI)

lemmas arms = arm_workspaceUpserted arm_messageUpserted arm_sessionUpserted
  arm_messageBlockUpserted arm_messageBlockDelta arm_messageBlockCompleted arm_messageCompleted
  arm_toolUpserted arm_taskUpdated arm_toolPresentationDelta arm_runUpserted
  arm_approvalUpserted arm_approvalResolved arm_questionUpserted arm_variantTryUpserted
  arm_variantTryDelta arm_variantSelected arm_variantClosed arm_semanticEvent arm_taskUpserted
  arm_subagentUpserted arm_artifactUpserted arm_turnStarted arm_sessionStatusChanged
  arm_infrastructureChanged arm_surfaceUpserted arm_surfaceDeleted arm_a2uiAction
  arm_compactionStarted arm_compactionCompleted arm_compactionFailed arm_stream

definition arm_handler :: "handler \<Rightarrow> bool" where
  "arm_handler h \<longleftrightarrow> (\<forall>env f e b r. ensures (h env f e b r) (arm_ok f e b r))"

lemma handlers_ok: "(t, h) \<in> set handlers \<Longrightarrow> arm_handler h"
  by (auto simp: handlers_def arm_handler_def arms)

interpretation reducer: frame_handler reduceEvent
proof
  fix env frame envelope base revisions s
  assume *: "reduceEvent env frame envelope base revisions = Inr s"
  show "arm_ok frame envelope base revisions s"
  proof (cases "map_of handlers (ev_type envelope)")
    case None
    with * ensuresD [OF arm_stream(3)] show ?thesis by (simp add: reduceEvent_def)
  next
    case (Some h)
    with * have "h env frame envelope base revisions = Inr s" by (simp add: reduceEvent_def)
    with handlers_ok [OF map_of_SomeD [OF Some]] show ?thesis by (auto simp: arm_handler_def ensures_def)
  qed
qed

end
