(* ===== verification/Reducer_Properties.thy ===== *)
theory Reducer_Properties
  imports Reducer_Laws
begin

text \<open>
  The properties of the transport reducer: replays and stale frames change nothing, the
  revision watermark only rises, every reachable store is well formed with bounded
  histories, a frame for a missing entity leaves one gap and nothing else, live text is the
  concatenation of its deltas and the completed text is final, a completed message is
  settled, and the usage rollup is the exact sum.
\<close>

section \<open>Sequences of frames\<close>

fun reduce_all :: "env \<Rightarrow> entity_state \<Rightarrow> transport_frame list \<Rightarrow> entity_state result" where
  "reduce_all env s [] = Inr s"
| "reduce_all env s (f # fs) = bindR (reduceTransportFrame env s f) (\<lambda>s'. reduce_all env s' fs)"

text \<open>A state the reducer can be in: from the initial store, one accepted frame at a time.\<close>

inductive reachable :: "env \<Rightarrow> entity_state \<Rightarrow> bool" for env where
  start: "reachable env createEntityState"
| frame: "reachable env s \<Longrightarrow> reduceTransportFrame env s f = Inr s' \<Longrightarrow> reachable env s'"

lemma reachable_wf: "reachable env s \<Longrightarrow> wf_state s"
  by (induction rule: reachable.induct)
    (auto simp: reduceTransportFrame_def intro: reducer.wf_frame)

lemma reduce_all_reachable: "reduce_all env s fs = Inr s' \<Longrightarrow> reachable env s \<Longrightarrow> reachable env s'"
  by (induction fs arbitrary: s) (auto simp: bindR_eq_Inr intro: reachable.frame)

text \<open>A frame the code around the \<open>switch\<close> lets through to its arm.\<close>

definition passes :: "env \<Rightarrow> entity_state \<Rightarrow> transport_frame \<Rightarrow> event_envelope \<Rightarrow> bool" where
  "passes env s f e \<longleftrightarrow> eventEnvelopeSchema env (fr_data f) = Inr e \<and>
     \<not> (timelineCursor f \<and> fr_cursor f \<in> set (es_processed_cursors s)) \<and>
     shouldApplyRevision s (ev_entity_id e) (ev_entity_revision e)"

lemma reduce_passes:
  assumes "passes env s f e" "map_of handlers (ev_type e) = Some h"
  shows "reduceTransportFrame env s f =
    h env f e (advance_cursor s f) (recordRevision s (ev_entity_id e) (ev_entity_revision e))"
proof -
  have same: "shouldApplyRevision (advance_cursor s f) i r = shouldApplyRevision s i r"
    "recordRevision (advance_cursor s f) i r = recordRevision s i r" for i r
    by (simp_all add: shouldApplyRevision_def recordRevision_def)
  from assms show ?thesis
    unfolding passes_def reduceTransportFrame_def reduce_frame_def
    by (auto simp: same reduceEvent_def)
qed

section \<open>Concrete inputs of the witnesses\<close>

definition refuse :: "'a decoder" where
  "refuse v = Inl (ZodError [''refused''] ''refused'')"

text \<open>An envelope read from the \<open>type\<close>, \<open>id\<close>, \<open>revision\<close> and \<open>payload\<close> keys of the data.\<close>

definition ex_envelope :: "event_envelope decoder" where
  "ex_envelope v = (case v of
      JObj o1 \<Rightarrow> (case obj_get o1 ''type'' of
          Some (JStr t) \<Rightarrow> Inr \<lparr>ev_protocol_version = ''3'', ev_type = t, ev_occurred_at = ''now'',
            ev_scope = \<lparr>sc_connection_id = ''c'', sc_workspace_id = None, sc_session_id = None,
                        sc_run_id = None\<rparr>,
            ev_entity_id = (case obj_get o1 ''id'' of Some (JStr i) \<Rightarrow> Some i | _ \<Rightarrow> None),
            ev_entity_revision =
              (case obj_get o1 ''revision'' of Some (JNum r) \<Rightarrow> Some \<lfloor>r\<rfloor> | _ \<Rightarrow> None),
            ev_payload = (case obj_get o1 ''payload'' of Some p \<Rightarrow> p | None \<Rightarrow> JUndef)\<rparr>
        | _ \<Rightarrow> refuse v)
    | _ \<Rightarrow> refuse v)"

definition ex_env :: env where
  "ex_env = \<lparr>localeCompare = \<lambda>a b. 0, date_parse = \<lambda>_. None,
     eventEnvelopeSchema = ex_envelope, workspaceSchema = refuse, messageSchema = refuse,
     sessionSchema = refuse, messageBlockSchema = refuse, subagentSchema = refuse,
     messageCompletionSchema = \<lambda>_. Inr \<lparr>mcp_message_id = ''m'', mcp_completed_at = None,
       mcp_stop_reason = Some ''cancelled'', mcp_tokens = None, mcp_cost_usd = None,
       mcp_error_info = None, mcp_metadata = None\<rparr>,
     toolInvocationSchema = refuse, taskUpdateSchema = refuse,
     toolPresentationDeltaSchema = refuse, runSchema = refuse, approvalRequestSchema = refuse,
     userQuestionSchema = refuse, variantTryUpsertSchema = refuse,
     variantTryDeltaSchema = refuse, variantSelectedSchema = refuse,
     variantClosedSchema = refuse, variantSemanticEventSchema = refuse, taskSchema = refuse,
     artifactSchema = refuse, infrastructureDependencySchema = refuse,
     a2uiSurfaceSchema = refuse, a2uiActionLifecycleSchema = refuse,
     compactionStartedSchema = refuse, compactionCompletedSchema = refuse,
     compactionFailedSchema = refuse\<rparr>"

definition ex_frame :: "string \<Rightarrow> string \<Rightarrow> js_value \<Rightarrow> transport_frame" where
  "ex_frame cursor t payload = \<lparr>fr_cursor = cursor, fr_eventName = t,
     fr_data = JObj [(''type'', JStr t), (''id'', JStr ''m''), (''revision'', JNum 4),
       (''payload'', payload)], fr_receivedAt = ''now''\<rparr>"

definition text_block :: "string \<Rightarrow> string \<Rightarrow> message_block" where
  "text_block i t = \<lparr>blk_id = i, blk_agent_id = None, blk_sequence = None,
     blk_stream_source = None, blk_channel = None, blk_body = TextBlock t None\<rparr>"

definition ex_message :: "message_block list \<Rightarrow> message" where
  "ex_message bs = \<lparr>msg_id = ''m'', msg_session_id = ''s'', msg_turn_id = None, msg_run_id = None,
     msg_role = RoleAssistant, msg_created_at = ''1'', msg_completed_at = None, msg_blocks = bs,
     msg_model = None, msg_metadata = None, msg_usage = None, msg_cost_usd = None,
     msg_stop_reason = None, msg_error_info = None\<rparr>"

definition ex_state :: entity_state where
  "ex_state = createEntityState\<lparr>es_messages := [(''m'', ex_message [text_block ''b'' ''Hi''])]\<rparr>"

definition ex_delta_payload :: "string \<Rightarrow> js_value" where
  "ex_delta_payload d = JObj [(''message_id'', JStr ''m''), (''block_id'', JStr ''b''), (''delta'', JStr d)]"

lemmas ex_eval = ex_frame_def ex_env_def ex_envelope_def createEntityState_def
  obj_get_Cons timelineCursor_def

lemma ex_live: "reduceTransportFrame ex_env createEntityState (ex_frame ''7'' ''stream.live'' JNull) =
  Inr ((advance_cursor createEntityState (ex_frame ''7'' ''stream.live'' JNull))\<lparr>
    es_revisions := [(''m'', 4)], es_stream := StreamLive\<rparr>)"
  by (simp add: reduceTransportFrame_def reduce_frame_def reduceEvent_def handlers_def streamLive_def
      shouldApplyRevision_def recordRevision_def advance_cursor_def truthy_str_def obj_put_def
      obj_has_def ex_eval)

section \<open>Properties of every frame\<close>

text \<open>
  C1. A redelivered frame changes nothing: once a frame with a timeline cursor has been
  reduced, reducing it again returns the very same state.
\<close>
theorem replayed_frame_changes_nothing:
  assumes "reduceTransportFrame env s f = Inr s'" "timelineCursor f"
  shows "reduceTransportFrame env s' f = Inr s'"
  using reducer.replay_is_noop assms unfolding reduceTransportFrame_def by blast

theorem replayed_frame_changes_nothing_witness:
  "\<exists>s. reduceTransportFrame ex_env createEntityState (ex_frame ''7'' ''stream.live'' JNull) = Inr s
     \<and> reduceTransportFrame ex_env s (ex_frame ''7'' ''stream.live'' JNull) = Inr s"
  using replayed_frame_changes_nothing [OF ex_live] ex_live
  by (auto simp: timelineCursor_def ex_frame_def)

text \<open>
  The revision watermark of every entity only rises: a reduced frame leaves the recorded
  revision of each entity where it was or raises it.
\<close>
lemma revision_watermark_only_rises:
  assumes "reduceTransportFrame env s f = Inr s'" "obj_get (es_revisions s) k = Some v"
  shows "\<exists>v'. obj_get (es_revisions s') k = Some v' \<and> v \<le> v'"
  using reducer.revision_monotone assms unfolding reduceTransportFrame_def by blast

text \<open>
  C10. A stale frame applies nothing: when the store has recorded a revision of the entity
  that is not below the frame's, the frame only takes its place in the cursor history,
  whatever its type and payload.
\<close>
theorem stale_frame_applies_nothing:
  assumes "eventEnvelopeSchema env (fr_data f) = Inr e"
    and "ev_entity_id e = Some i" "i \<noteq> []" "ev_entity_revision e = Some r"
    and "obj_get (es_revisions s) i = Some v" "r \<le> v"
    and "\<not> (timelineCursor f \<and> fr_cursor f \<in> set (es_processed_cursors s))"
  shows "reduceTransportFrame env s f = Inr (advance_cursor s f)"
  unfolding reduceTransportFrame_def by (rule reducer.stale_is_skipped [OF assms])

theorem stale_frame_applies_nothing_witness:
  "reduceTransportFrame ex_env (createEntityState\<lparr>es_revisions := [(''m'', 4)]\<rparr>)
      (ex_frame ''8'' ''stream.gap'' JNull)
    = Inr (advance_cursor (createEntityState\<lparr>es_revisions := [(''m'', 4)]\<rparr>)
        (ex_frame ''8'' ''stream.gap'' JNull))"
  by (rule stale_frame_applies_nothing [of _ _ _ "''m''" 4 _ 4]) (auto simp: ex_eval)

text \<open>
  C2. Every store the reducer can reach is well formed: each of its entity maps holds one row
  per id, stored under its own id, the tries of every variant run are in order, the cursor
  history has no duplicate and at most 2048 entries, and at most 100 gaps are retained.
\<close>
theorem reachable_store_well_formed:
  assumes "reachable env s"
  shows "wf_store s \<and> wf_obj (es_revisions s) \<and> distinct (es_processed_cursors s)
    \<and> length (es_processed_cursors s) \<le> 2048 \<and> length (es_gaps s) \<le> 100"
  using reachable_wf [OF assms]
  by (simp add: wf_state_def wf_books_def MAX_CURSOR_HISTORY_def MAX_GAP_HISTORY_def)

theorem reachable_store_well_formed_witness:
  "\<exists>s. reachable ex_env s \<and> es_processed_cursors s = [''7''] \<and> wf_store s"
proof -
  let ?s = "(advance_cursor createEntityState (ex_frame ''7'' ''stream.live'' JNull))\<lparr>
    es_revisions := [(''m'', 4)], es_stream := StreamLive\<rparr>"
  have r: "reachable ex_env ?s" by (rule reachable.frame [OF reachable.start ex_live])
  have "es_processed_cursors ?s = [''7'']"
    by (simp add: advance_cursor_def MAX_CURSOR_HISTORY_def ex_eval)
  with reachable_store_well_formed [OF r] r show ?thesis by blast
qed

text \<open>
  A frame that leaves a gap applied nothing: if the reduction of a frame changes the gap
  list, the state differs from the cursor-advanced one in the gap list alone, to which one
  gap is appended that names the frame's cursor. In particular the revision is not banked.
\<close>
lemma gap_frame_applies_nothing:
  assumes "reduceTransportFrame env s f = Inr s'" "es_gaps s' \<noteq> es_gaps s"
  shows "\<exists>g. gap_code g = EntityNotResident \<and> gap_cursor g = fr_cursor f
    \<and> s' = (advance_cursor s f)\<lparr>es_gaps := take_last MAX_GAP_HISTORY (es_gaps s @ [g])\<rparr>
    \<and> es_revisions s' = es_revisions s"
proof -
  from reducer.gaps_after assms obtain e reason where
    s': "s' = recordMissingEntity (advance_cursor s f) f e reason"
    unfolding reduceTransportFrame_def by blast
  show ?thesis unfolding s' recordMissingEntity_def Let_def
    by (rule exI [of _ "\<lparr>gap_cursor = fr_cursor f, gap_event_name = ev_type e,
      gap_entity_id = ev_entity_id e, gap_code = EntityNotResident, gap_reason = reason,
      gap_received_at = fr_receivedAt f\<rparr>"]) simp
qed

section \<open>Message blocks\<close>

lemma upsertBlock_other:
  assumes "j < length (msg_blocks m)" "\<not> same_block b (msg_blocks m ! j)"
  shows "msg_blocks (upsertBlock m b) ! j = msg_blocks m ! j"
  using assms find_index_Some [of "same_block b" "msg_blocks m"]
  by (auto simp: upsertBlock_def nth_append nth_list_update split: option.split)

lemma upsertBlock_tool_kept:
  assumes "find_index (same_block b) (msg_blocks m) = Some i"
    and "block_tool_id (blk_body b) \<noteq> None" "block_tool_id (blk_body (msg_blocks m ! i)) \<noteq> None"
  shows "upsertBlock m b = m"
  using assms by (simp add: upsertBlock_def)

text \<open>
  Upserting a block is idempotent and never duplicates it: afterwards a block with its
  identity (its tool for a tool call, its id otherwise) is in the message, upserting it again
  changes nothing, the message grows by one block exactly when no such block was there, every
  block with another identity stays where it was, and the block of a tool call that is
  already in the transcript is left as it was.
\<close>
lemma upserted_block_is_unique:
  "(\<exists>c\<in>set (msg_blocks (upsertBlock m b)). same_block b c)
    \<and> upsertBlock (upsertBlock m b) b = upsertBlock m b
    \<and> length (msg_blocks (upsertBlock m b)) =
        length (msg_blocks m) + (if \<exists>c\<in>set (msg_blocks m). same_block b c then 0 else 1)
    \<and> (\<forall>j < length (msg_blocks m). \<not> same_block b (msg_blocks m ! j) \<longrightarrow>
          msg_blocks (upsertBlock m b) ! j = msg_blocks m ! j)
    \<and> (\<forall>i. find_index (same_block b) (msg_blocks m) = Some i \<and> block_tool_id (blk_body b) \<noteq> None
          \<and> block_tool_id (blk_body (msg_blocks m ! i)) \<noteq> None \<longrightarrow> upsertBlock m b = m)"
proof -
  obtain i where i: "find_index (same_block b) (msg_blocks (upsertBlock m b)) = Some i"
    using upsertBlock_resident by blast
  from find_index_Some [OF i] have "\<exists>c\<in>set (msg_blocks (upsertBlock m b)). same_block b c"
    by (meson nth_mem)
  moreover have "find_index (same_block b) (msg_blocks m) = None \<longleftrightarrow>
      \<not> (\<exists>c\<in>set (msg_blocks m). same_block b c)"
    by (auto simp: find_index_None)
  then have "length (msg_blocks (upsertBlock m b)) =
        length (msg_blocks m) + (if \<exists>c\<in>set (msg_blocks m). same_block b c then 0 else 1)"
    by (simp add: upsertBlock_length)
  ultimately show ?thesis
    using upsertBlock_idem upsertBlock_other upsertBlock_tool_kept by auto
qed

text \<open>
  A delta frame for block \<open>bid\<close> of message \<open>mid\<close>, with the envelope it decodes to; and a frame
  that completes the block with its text alone, without the replacement block that a completed
  thought may carry.
\<close>

definition delta_frame :: "env \<Rightarrow> string \<Rightarrow> string \<Rightarrow> transport_frame \<Rightarrow> event_envelope \<Rightarrow> string \<Rightarrow> bool" where
  "delta_frame env mid bid f e d \<longleftrightarrow> eventEnvelopeSchema env (fr_data f) = Inr e \<and>
     ev_type e = ''message.block.delta'' \<and>
     js_prop (ev_payload e) ''message_id'' = Inr (JStr mid) \<and>
     js_prop (ev_payload e) ''block_id'' = Inr (JStr bid) \<and>
     js_prop (ev_payload e) ''delta'' = Inr (JStr d)"

definition completed_frame :: "env \<Rightarrow> string \<Rightarrow> string \<Rightarrow> transport_frame \<Rightarrow> event_envelope \<Rightarrow> string \<Rightarrow> bool" where
  "completed_frame env mid bid f e t \<longleftrightarrow> eventEnvelopeSchema env (fr_data f) = Inr e \<and>
     ev_type e = ''message.block.completed'' \<and>
     js_prop (ev_payload e) ''message_id'' = Inr (JStr mid) \<and>
     js_prop (ev_payload e) ''block_id'' = Inr (JStr bid) \<and>
     js_prop (ev_payload e) ''text'' = Inr (JStr t) \<and>
     js_prop (ev_payload e) ''block'' = Inr JUndef"

definition fresh :: "entity_state \<Rightarrow> transport_frame list \<Rightarrow> bool" where
  "fresh s fs \<longleftrightarrow> distinct (map fr_cursor fs) \<and>
     (\<forall>f\<in>set fs. timelineCursor f \<and> fr_cursor f \<notin> set (es_processed_cursors s))"

text \<open>
  The revisions of the envelopes that carry an entity and a revision: above what the store has
  recorded for the entity, and rising from one envelope to the next of the same entity.
\<close>

definition revision_of :: "event_envelope \<Rightarrow> string \<Rightarrow> int \<Rightarrow> bool" where
  "revision_of e i r \<longleftrightarrow> i \<noteq> [] \<and> ev_entity_id e = Some i \<and> ev_entity_revision e = Some r"

definition rising :: "entity_state \<Rightarrow> event_envelope list \<Rightarrow> bool" where
  "rising s es \<longleftrightarrow>
     (\<forall>e\<in>set es. \<forall>i r. revision_of e i r \<longrightarrow> coalesce (obj_get (es_revisions s) i) (- 1) < r) \<and>
     sorted_wrt (\<lambda>e e'. \<forall>i r r'. revision_of e i r \<and> revision_of e' i r' \<longrightarrow> r < r') es"

text \<open>
  What streaming does to one block and to the message that holds it, field by field: a text or
  reasoning block has the new text and the streaming flag and keeps the rest, a block of any
  other kind or with another id is what it was, and nothing else of the message changes.
\<close>

fun retexted :: "(string \<Rightarrow> string) \<Rightarrow> bool \<Rightarrow> block_body \<Rightarrow> block_body" where
  "retexted f live (TextBlock t _) = TextBlock (f t) (Some live)"
| "retexted f live (ReasoningBlock t _ a b c d e g) = ReasoningBlock (f t) (Some live) a b c d e g"
| "retexted f live body = body"

definition block_retexted :: "string \<Rightarrow> (string \<Rightarrow> string) \<Rightarrow> bool \<Rightarrow> message \<Rightarrow> message \<Rightarrow> bool" where
  "block_retexted bid f live m m' \<longleftrightarrow> m'\<lparr>msg_blocks := msg_blocks m\<rparr> = m \<and>
     list_all2 (\<lambda>b b'. if blk_id b = bid then b' = b\<lparr>blk_body := retexted f live (blk_body b)\<rparr> else b' = b)
       (msg_blocks m) (msg_blocks m')"

lemma with_text_retexted: "is_text_or_reasoning body \<Longrightarrow> with_text f live body = retexted f live body"
  by (cases body) auto

lemma retexted_other: "\<not> is_text_or_reasoning body \<Longrightarrow> retexted f live body = body"
  by (cases body) auto

lemma appendDelta_retexted: "block_retexted bid (\<lambda>t. t @ d) True m (appendDelta m bid d)"
  by (auto simp: block_retexted_def appendDelta_def list_all2_conv_all_nth with_text_retexted retexted_other)

lemma completeBlock_retexted: "block_retexted bid (\<lambda>_. t) False m (completeBlock m bid t)"
  by (auto simp: block_retexted_def completeBlock_def list_all2_conv_all_nth with_text_retexted retexted_other)

lemma rising_tail:
  assumes "rising s (e # es)"
    and revs: "es_revisions s' = recordRevision s (ev_entity_id e) (ev_entity_revision e)"
  shows "rising s' es"
proof -
  have "coalesce (obj_get (es_revisions s') i) (- 1) < r" if e': "e' \<in> set es" "revision_of e' i r" for e' i r
  proof (cases "truthy_str (ev_entity_id e) \<and> ev_entity_revision e \<noteq> None \<and> i = the (ev_entity_id e)")
    case True
    then obtain q where q: "revision_of e i q" "obj_get (es_revisions s') i = Some q"
      by (auto simp: revs recordRevision_get revision_of_def truthy_str_def split: option.splits)
    with assms(1) e' show ?thesis by (auto simp: rising_def coalesce_def)
  next
    case False
    then have "obj_get (es_revisions s') i = obj_get (es_revisions s) i"
      by (auto simp: revs recordRevision_get)
    with assms(1) e' show ?thesis by (auto simp: rising_def)
  qed
  with assms(1) show ?thesis by (auto simp: rising_def)
qed

lemma rising_passes: "rising s (e # es) \<Longrightarrow> shouldApplyRevision s (ev_entity_id e) (ev_entity_revision e)"
  by (auto simp: rising_def shouldApplyRevision_def revision_of_def truthy_str_def split: option.splits)

lemma fresh_tail:
  assumes "reduceTransportFrame env s f = Inr s'" "fresh s (f # fs)"
  shows "fresh s' fs"
proof -
  have "es_processed_cursors s' = es_processed_cursors (advance_cursor s f)"
    using reducer.cursors_after [of env s f s'] assms
    by (auto simp: fresh_def reduceTransportFrame_def)
  then have "set (es_processed_cursors s') \<subseteq> insert (fr_cursor f) (set (es_processed_cursors s))"
    using set_take_last [of MAX_CURSOR_HISTORY "es_processed_cursors s @ [fr_cursor f]"]
    by (auto simp: advance_cursor_def)
  moreover have "\<forall>g\<in>set fs. fr_cursor g \<noteq> fr_cursor f"
    using assms(2) unfolding fresh_def by (metis distinct.simps(2) image_eqI list.set_map list.simps(9))
  ultimately show ?thesis using assms(2) by (fastforce simp: fresh_def)
qed

lemma reduce_delta_frame:
  assumes "wf_store s" "obj_get (es_messages s) mid = Some m" "delta_frame env mid bid f e d"
    and "fresh s (f # fs)" "rising s (e # es)"
  shows "\<exists>s'. reduceTransportFrame env s f = Inr s'
    \<and> es_messages s' = obj_put (es_messages s) mid (appendDelta m bid d) \<and> fresh s' fs \<and> rising s' es"
proof -
  note e = assms(3) [unfolded delta_frame_def]
  have "passes env s f e"
    using assms(4) rising_passes [OF assms(5)] e by (simp add: passes_def fresh_def)
  moreover have "map_of handlers (ev_type e) = Some messageBlockDelta"
    by (simp add: e handlers_def)
  moreover have "obj_get (es_messages (advance_cursor s f)) mid = Some m" "msg_id m = mid"
    "es_messages (advance_cursor s f) = es_messages s"
    using assms(1,2) store_ok_get [of msg_id] by (auto simp: advance_cursor_def wf_store_def)
  ultimately obtain s' where s': "reduceTransportFrame env s f = Inr s'"
    "es_messages s' = obj_put (es_messages s) mid (appendDelta m bid d)"
    "es_revisions s' = recordRevision s (ev_entity_id e) (ev_entity_revision e)"
    using reduce_passes by (simp add: messageBlockDelta_def e Let_def)
  with fresh_tail [OF s'(1) assms(4)] rising_tail [OF assms(5) s'(3)] show ?thesis by blast
qed

lemma reduce_delta_frames:
  assumes "wf_state s" "obj_get (es_messages s) mid = Some m"
    and "list_all2 (\<lambda>f (e, d). delta_frame env mid bid f e d) fs eds"
    and "fresh s (fs @ rest)" "rising s (map fst eds @ es)"
  shows "\<exists>s'. reduce_all env s fs = Inr s' \<and> wf_state s' \<and> fresh s' rest \<and> rising s' es
    \<and> obj_get (es_messages s') mid = Some (foldl (\<lambda>m d. appendDelta m bid d) m (map snd eds))
    \<and> (\<forall>k. k \<noteq> mid \<longrightarrow> obj_get (es_messages s') k = obj_get (es_messages s) k)"
  using assms(3,1,2,4,5)
proof (induction arbitrary: s m rule: list_all2_induct)
  case (Cons f fs ed eds)
  obtain e d where ed: "ed = (e, d)" by (cases ed)
  with Cons.hyps Cons.prems obtain s1 where s1: "reduceTransportFrame env s f = Inr s1"
    "es_messages s1 = obj_put (es_messages s) mid (appendDelta m bid d)" "fresh s1 (fs @ rest)"
    "rising s1 (map fst eds @ es)"
    using reduce_delta_frame [of s mid m env bid f e d "fs @ rest" "map fst eds @ es"]
    by (auto simp: wf_state_def)
  have "wf_state s1"
    using s1(1) Cons.prems(1) reducer.wf_frame unfolding reduceTransportFrame_def by blast
  from Cons.IH [OF this _ s1(3,4)] s1(1,2) ed show ?case by (simp add: obj_get_put)
qed simp

lemma reduce_completed_frame:
  assumes "wf_state s" "obj_get (es_messages s) mid = Some m" "completed_frame env mid bid f e t"
    and "fresh s [f]" "rising s [e]"
  shows "\<exists>s'. reduceTransportFrame env s f = Inr s'
    \<and> es_messages s' = obj_put (es_messages s) mid (completeBlock m bid t)"
proof -
  note e = assms(3) [unfolded completed_frame_def]
  have "passes env s f e"
    using assms(4) rising_passes [OF assms(5)] e by (simp add: passes_def fresh_def)
  moreover have "map_of handlers (ev_type e) = Some messageBlockCompleted"
    by (simp add: e handlers_def)
  moreover have "obj_get (es_messages (advance_cursor s f)) mid = Some m" "msg_id m = mid"
    "es_messages (advance_cursor s f) = es_messages s"
    using assms(1,2) store_ok_get [of msg_id] by (auto simp: advance_cursor_def wf_store_def wf_state_def)
  ultimately show ?thesis
    using reduce_passes by (simp add: messageBlockCompleted_def e)
qed

text \<open>
  C4. Live text is exactly what the stream sent. Take a non-empty run of delta frames for one
  block of a resident message, and the frame that completes the block with its text; their
  cursors are new, and those that carry an entity revision carry a rising one, above what the
  store has recorded. Every frame is accepted. After the deltas the block's text, of a text or
  a reasoning block, is its earlier text followed by the texts of the deltas in the order of
  the frames, and it is marked as streaming; after the completion it is the completed text,
  whatever deltas came before, and no longer streaming. Every other field of the block, every
  other block of the message, every other field of the message and every other message is what
  it was before.
\<close>
theorem streamed_block_is_the_concatenation:
  assumes "wf_state s" "obj_get (es_messages s) mid = Some m"
    and "list_all2 (\<lambda>f (e, d). delta_frame env mid bid f e d) fs eds" "eds \<noteq> []"
    and "completed_frame env mid bid f e t"
    and "fresh s (fs @ [f])" "rising s (map fst eds @ [e])"
  shows "\<exists>s1 m1 s2 m2. reduce_all env s fs = Inr s1
    \<and> obj_get (es_messages s1) mid = Some m1
    \<and> block_retexted bid (\<lambda>earlier. earlier @ concat (map snd eds)) True m m1
    \<and> (\<forall>k. k \<noteq> mid \<longrightarrow> obj_get (es_messages s1) k = obj_get (es_messages s) k)
    \<and> reduceTransportFrame env s1 f = Inr s2
    \<and> obj_get (es_messages s2) mid = Some m2
    \<and> block_retexted bid (\<lambda>_. t) False m m2
    \<and> (\<forall>k. k \<noteq> mid \<longrightarrow> obj_get (es_messages s2) k = obj_get (es_messages s) k)"
proof -
  from reduce_delta_frames [OF assms(1-3,6,7)] obtain s1 where s1: "reduce_all env s fs = Inr s1"
    "wf_state s1" "fresh s1 [f]" "rising s1 [e]"
    "obj_get (es_messages s1) mid = Some (appendDelta m bid (concat (map snd eds)))"
    "\<forall>k. k \<noteq> mid \<longrightarrow> obj_get (es_messages s1) k = obj_get (es_messages s) k"
    using assms(4) by (auto simp: foldl_appendDelta)
  from reduce_completed_frame [OF s1(2,5) assms(5) s1(3,4)] obtain s2 where
    "reduceTransportFrame env s1 f = Inr s2"
    "es_messages s2 = obj_put (es_messages s1) mid (completeBlock m bid t)"
    by (auto simp: completeBlock_appendDelta)
  with s1 appendDelta_retexted [of bid "concat (map snd eds)" m] completeBlock_retexted [of bid t m]
  show ?thesis by (auto simp: obj_get_put)
qed

definition ex_plain_frame :: "string \<Rightarrow> string \<Rightarrow> js_value \<Rightarrow> transport_frame" where
  "ex_plain_frame cursor t payload = \<lparr>fr_cursor = cursor, fr_eventName = t,
     fr_data = JObj [(''type'', JStr t), (''payload'', payload)], fr_receivedAt = ''now''\<rparr>"

definition ex_revised_frame :: "string \<Rightarrow> int \<Rightarrow> string \<Rightarrow> js_value \<Rightarrow> transport_frame" where
  "ex_revised_frame cursor r t payload = \<lparr>fr_cursor = cursor, fr_eventName = t,
     fr_data = JObj [(''type'', JStr t), (''id'', JStr ''m''), (''revision'', JNum (of_int r)),
       (''payload'', payload)], fr_receivedAt = ''now''\<rparr>"

definition ex_revised_event :: "string \<Rightarrow> string option \<Rightarrow> int option \<Rightarrow> js_value \<Rightarrow> event_envelope" where
  "ex_revised_event t i r payload = \<lparr>ev_protocol_version = ''3'', ev_type = t, ev_occurred_at = ''now'',
     ev_scope = \<lparr>sc_connection_id = ''c'', sc_workspace_id = None, sc_session_id = None, sc_run_id = None\<rparr>,
     ev_entity_id = i, ev_entity_revision = r, ev_payload = payload\<rparr>"

lemma ex_state_wf: "wf_state ex_state"
  by (simp add: ex_state_def wf_state_def wf_store_def wf_books_def createEntityState_def
      wf_compactions_def objs.keyed_empty store_ok_def keyed_by_def wf_obj_def obj_get_Cons
      ex_message_def split: if_splits)

theorem streamed_block_is_the_concatenation_witness:
  "\<exists>s1 m1 s2 m2. reduce_all ex_env ex_state
      [ex_revised_frame ''1'' 5 ''message.block.delta'' (ex_delta_payload ''!''),
       ex_revised_frame ''2'' 6 ''message.block.delta'' (ex_delta_payload ''?'')] = Inr s1
    \<and> obj_get (es_messages s1) ''m'' = Some m1
    \<and> msg_blocks m1 = [(text_block ''b'' [])\<lparr>blk_body := TextBlock ''Hi!?'' (Some True)\<rparr>]
    \<and> reduceTransportFrame ex_env s1 (ex_revised_frame ''3'' 7 ''message.block.completed''
         (JObj [(''message_id'', JStr ''m''), (''block_id'', JStr ''b''), (''text'', JStr ''Hi there'')])) = Inr s2
    \<and> obj_get (es_messages s2) ''m'' = Some m2
    \<and> msg_blocks m2 = [(text_block ''b'' [])\<lparr>blk_body := TextBlock ''Hi there'' (Some False)\<rparr>]"
proof -
  let ?d = "\<lambda>c r x. ex_revised_frame c r ''message.block.delta'' (ex_delta_payload x)"
  let ?de = "\<lambda>r x. ex_revised_event ''message.block.delta'' (Some ''m'') (Some r) (ex_delta_payload x)"
  let ?p = "JObj [(''message_id'', JStr ''m''), (''block_id'', JStr ''b''), (''text'', JStr ''Hi there'')]"
  let ?f = "ex_revised_frame ''3'' 7 ''message.block.completed'' ?p"
  let ?fe = "ex_revised_event ''message.block.completed'' (Some ''m'') (Some 7) ?p"
  have ds: "list_all2 (\<lambda>f (e, d). delta_frame ex_env ''m'' ''b'' f e d) [?d ''1'' 5 ''!'', ?d ''2'' 6 ''?'']
      [(?de 5 ''!'', ''!''), (?de 6 ''?'', ''?'')]"
    by (simp add: delta_frame_def ex_revised_frame_def ex_revised_event_def ex_delta_payload_def js_prop_def ex_eval)
  have f: "completed_frame ex_env ''m'' ''b'' ?f ?fe ''Hi there''"
    by (simp add: completed_frame_def ex_revised_frame_def ex_revised_event_def js_prop_def ex_eval)
  have m: "obj_get (es_messages ex_state) ''m'' = Some (ex_message [text_block ''b'' ''Hi''])"
    by (simp add: ex_state_def obj_get_Cons)
  have new: "fresh ex_state ([?d ''1'' 5 ''!'', ?d ''2'' 6 ''?''] @ [?f])"
    by (simp add: fresh_def ex_revised_frame_def ex_state_def ex_eval)
  have up: "rising ex_state (map fst [(?de 5 ''!'', ''!''), (?de 6 ''?'', ''?'')] @ [?fe])"
    by (auto simp: rising_def revision_of_def ex_revised_event_def ex_state_def createEntityState_def coalesce_def)
  from streamed_block_is_the_concatenation [OF ex_state_wf m ds list.distinct(2) f new up] obtain s1 m1 s2 m2 where
    s: "reduce_all ex_env ex_state [?d ''1'' 5 ''!'', ?d ''2'' 6 ''?''] = Inr s1"
      "obj_get (es_messages s1) ''m'' = Some m1"
      "reduceTransportFrame ex_env s1 ?f = Inr s2" "obj_get (es_messages s2) ''m'' = Some m2"
    and b: "block_retexted ''b'' (\<lambda>earlier. earlier @ concat (map snd [(?de 5 ''!'', ''!''), (?de 6 ''?'', ''?'')]))
        True (ex_message [text_block ''b'' ''Hi'']) m1"
      "block_retexted ''b'' (\<lambda>_. ''Hi there'') False (ex_message [text_block ''b'' ''Hi'']) m2"
    by (elim exE conjE) (rule that; assumption)
  from b(1) have "msg_blocks m1 = [(text_block ''b'' [])\<lparr>blk_body := TextBlock ''Hi!?'' (Some True)\<rparr>]"
    by (simp add: block_retexted_def ex_message_def text_block_def list_all2_Cons1)
  moreover from b(2) have "msg_blocks m2 = [(text_block ''b'' [])\<lparr>blk_body := TextBlock ''Hi there'' (Some False)\<rparr>]"
    by (simp add: block_retexted_def ex_message_def text_block_def list_all2_Cons1)
  ultimately show ?thesis using s by blast
qed

section \<open>Completed messages\<close>

definition unfinished :: "tool_invocation \<Rightarrow> bool" where
  "unfinished t \<longleftrightarrow> tool_state t = ToolPending \<or> tool_state t = ToolRunning"

definition settled_tool :: "tool_invocation obj \<Rightarrow> string \<Rightarrow> bool" where
  "settled_tool tools t \<longleftrightarrow> (\<forall>tool. obj_get tools t = Some tool \<longrightarrow> \<not> unfinished tool)"

lemma interrupt_tool_settles:
  assumes "store_ok tool_id tools"
  shows "settled_tool tools t \<or> block_tool_id (blk_body b) = Some t \<Longrightarrow>
      settled_tool (interrupt_tool r tools b) t"
    and "block_tool_id (blk_body b) \<noteq> Some t \<Longrightarrow> obj_get (interrupt_tool r tools b) t = obj_get tools t"
  using assms store_ok_get [OF assms]
  by (auto simp: interrupt_tool_def settled_tool_def unfinished_def obj_get_put
      split: option.splits if_splits)

lemma interrupt_tools_settle:
  assumes "store_ok tool_id tools"
    and "settled_tool tools t \<or> (\<exists>b\<in>set bs. block_tool_id (blk_body b) = Some t)"
  shows "settled_tool (foldl (interrupt_tool r) tools bs) t"
  using assms
proof (induction bs arbitrary: tools)
  case (Cons b bs)
  have "settled_tool (interrupt_tool r tools b) t \<or> (\<exists>b\<in>set bs. block_tool_id (blk_body b) = Some t)"
    using interrupt_tool_settles(1) [OF Cons.prems(1), of t b r] Cons.prems(2) by auto
  from Cons.IH [OF store_ok_interrupt_tool [OF Cons.prems(1)] this] show ?case by simp
qed simp

lemma interrupt_tools_frame:
  assumes "store_ok tool_id tools" "\<forall>b\<in>set bs. block_tool_id (blk_body b) \<noteq> Some t"
  shows "obj_get (foldl (interrupt_tool r) tools bs) t = obj_get tools t"
  using assms
  by (induction bs arbitrary: tools) (auto simp: store_ok_interrupt_tool interrupt_tool_settles(2))

lemma stop_streaming_frame [simp]:
  "blk_id (stop_streaming b) = blk_id b" "block_text (blk_body (stop_streaming b)) = block_text (blk_body b)"
  "block_streaming (blk_body (stop_streaming b)) \<noteq> Some True"
  by (cases "blk_body b"; simp add: stop_streaming_def)+

text \<open>
  C9. A completed message is settled: when the completion of a resident message is applied,
  the message has a completion time, none of its blocks is still streaming and every block
  keeps its id and text; and when the turn was cancelled, interrupted or failed, no tool the
  message calls is pending or running any more, while every tool it does not call is unchanged.
\<close>
theorem completed_message_is_settled:
  assumes "wf_state s" "passes env s f e" "ev_type e = ''message.completed''"
    and "messageCompletionSchema env (ev_payload e) = Inr p"
    and "obj_get (es_messages s) (mcp_message_id p) = Some m"
  shows "\<exists>s' m'. reduceTransportFrame env s f = Inr s'
    \<and> obj_get (es_messages s') (mcp_message_id p) = Some m' \<and> msg_completed_at m' \<noteq> None
    \<and> (\<forall>b\<in>set (msg_blocks m'). block_streaming (blk_body b) \<noteq> Some True)
    \<and> map blk_id (msg_blocks m') = map blk_id (msg_blocks m)
    \<and> map (\<lambda>b. block_text (blk_body b)) (msg_blocks m') = map (\<lambda>b. block_text (blk_body b)) (msg_blocks m)
    \<and> (mcp_stop_reason p \<in> {Some ''cancelled'', Some ''interrupted'', Some ''error''} \<longrightarrow>
        (\<forall>b\<in>set (msg_blocks m). \<forall>t tool. block_tool_id (blk_body b) = Some t \<and>
            obj_get (es_tools s') t = Some tool \<longrightarrow>
            tool_state tool \<noteq> ToolPending \<and> tool_state tool \<noteq> ToolRunning))
    \<and> (\<forall>t. (\<forall>b\<in>set (msg_blocks m). block_tool_id (blk_body b) \<noteq> Some t) \<longrightarrow>
        obj_get (es_tools s') t = obj_get (es_tools s) t)"
proof -
  let ?tools = "foldl (interrupt_tool (mcp_stop_reason p)) (es_tools s) (msg_blocks m)"
  have ok: "store_ok tool_id (es_tools s)" and mid: "msg_id m = mcp_message_id p"
    using assms(1,5) store_ok_get [of msg_id] by (auto simp: wf_state_def wf_store_def)
  have base: "es_messages (advance_cursor s f) = es_messages s" "es_tools (advance_cursor s f) = es_tools s"
    by (simp_all add: advance_cursor_def)
  have "map_of handlers (ev_type e) = Some messageCompleted" by (simp add: assms(3) handlers_def)
  from reduce_passes [OF assms(2) this] obtain s' where s': "reduceTransportFrame env s f = Inr s'"
    "obj_get (es_messages s') (mcp_message_id p) = Some (completed_message e m p)"
    "es_tools s' = (if coalesce (mcp_stop_reason p) [] \<in> set [''cancelled'', ''interrupted'', ''error'']
       then ?tools else es_tools s)"
    by (simp add: messageCompleted_def assms(4,5) base Let_def mid)
  have "tool_state tool \<noteq> ToolPending \<and> tool_state tool \<noteq> ToolRunning"
    if "mcp_stop_reason p \<in> {Some ''cancelled'', Some ''interrupted'', Some ''error''}"
      "b \<in> set (msg_blocks m)" "block_tool_id (blk_body b) = Some t" "obj_get (es_tools s') t = Some tool"
    for b t tool
  proof -
    have "es_tools s' = ?tools" using that(1) s'(3) by auto
    moreover have "settled_tool ?tools t"
      using interrupt_tools_settle [OF ok] that(2,3) by blast
    ultimately show ?thesis using that(4) by (simp add: settled_tool_def unfinished_def)
  qed
  moreover have "obj_get (es_tools s') t = obj_get (es_tools s) t"
    if "\<forall>b\<in>set (msg_blocks m). block_tool_id (blk_body b) \<noteq> Some t" for t
    using interrupt_tools_frame [OF ok that] s'(3) by auto
  ultimately show ?thesis
    using s'(1,2) by (intro exI [of _ s'] exI [of _ "completed_message e m p"] conjI)
      (auto simp: completed_message_def comp_def)
qed

definition ex_tool :: tool_invocation where
  "ex_tool = \<lparr>tool_id = ''t'', tool_session_id = ''s'', tool_run_id = Absent, tool_name = ''grep'',
     tool_title = Absent, tool_state = ToolRunning, tool_input = Absent, tool_output = Absent,
     tool_presentation = Absent, tool_output_stream = Absent, tool_progress_message = Absent,
     tool_progress = Absent, tool_progress_total = Absent, tool_started_at = Absent,
     tool_completed_at = Absent, tool_duration_ms = Absent, tool_error = Absent,
     tool_submission = Absent, tool_execution_task = Absent, tool_execution_problem = Absent\<rparr>"

definition ex_tool_state :: entity_state where
  "ex_tool_state = createEntityState\<lparr>es_tools := [(''t'', ex_tool)],
     es_messages := [(''m'', ex_message [(text_block ''b'' [])\<lparr>blk_body := ToolBlock ''t'' None\<rparr>])]\<rparr>"

theorem completed_message_is_settled_witness:
  "\<exists>s'. reduceTransportFrame ex_env ex_tool_state (ex_frame ''5'' ''message.completed'' JNull) = Inr s'
    \<and> (\<forall>tool. obj_get (es_tools s') ''t'' = Some tool \<longrightarrow> tool_state tool \<noteq> ToolRunning)"
proof -
  let ?f = "ex_frame ''5'' ''message.completed'' JNull"
  obtain e where e: "eventEnvelopeSchema ex_env (fr_data ?f) = Inr e" "ev_type e = ''message.completed''"
    "ev_entity_revision e = Some 4"
    by (simp add: ex_eval)
  have wf: "wf_state ex_tool_state"
    by (simp add: ex_tool_state_def wf_state_def wf_store_def wf_books_def createEntityState_def
        wf_compactions_def objs.keyed_empty store_ok_def keyed_by_def wf_obj_def obj_get_Cons
        ex_message_def ex_tool_def split: if_splits)
  have p: "passes ex_env ex_tool_state ?f e"
    using e by (simp add: passes_def shouldApplyRevision_def ex_tool_state_def createEntityState_def)
  obtain c where c: "messageCompletionSchema ex_env (ev_payload e) = Inr c" "mcp_message_id c = ''m''"
    "mcp_stop_reason c = Some ''cancelled''" by (simp add: ex_env_def)
  have m: "obj_get (es_messages ex_tool_state) (mcp_message_id c) =
      Some (ex_message [(text_block ''b'' [])\<lparr>blk_body := ToolBlock ''t'' None\<rparr>])"
    by (simp add: c ex_tool_state_def obj_get_Cons)
  from completed_message_is_settled [OF wf p e(2) c(1) m] c(3) show ?thesis
    by (auto simp: ex_message_def text_block_def)
qed

section \<open>The usage rollup\<close>

lemma addUsage_get:
  "obj_get (addUsage usage i inp out c) k = (if k = i then Some \<lparr>us_session_id = i,
     us_input_tokens = js_add_int (coalesce (map_option us_input_tokens (obj_get usage i)) 0) inp,
     us_output_tokens = js_add_int (coalesce (map_option us_output_tokens (obj_get usage i)) 0) out,
     us_cost_usd = (let known = Option.bind (obj_get usage i) us_cost_usd in
        case c of None \<Rightarrow> known | Some x \<Rightarrow> Some (js_add (coalesce known 0) x))\<rparr>
   else obj_get usage k)"
  by (simp add: addUsage_def Let_def obj_get_put)

text \<open>
  The live usage of a session is the exact sum of its turns: after adding any sequence of
  turns to a rollup, the input and output tokens are the earlier ones plus the sums (as long
  as the totals stay below \<open>2 ^ 53\<close>, where the language's numbers are exact), the rollup of
  every other session is unchanged, and turns of unknown cost leave the known cost as it was.
\<close>
lemma usage_is_the_sum_of_turns:
  assumes "obj_get usage i = Some u" "0 \<le> us_input_tokens u" "0 \<le> us_output_tokens u"
    and "\<forall>(inp, out, c)\<in>set turns. 0 \<le> inp \<and> 0 \<le> out"
    and "us_input_tokens u + sum_list (map fst turns) < 2 ^ 53"
    and "us_output_tokens u + sum_list (map (\<lambda>(inp, out, c). out) turns) < 2 ^ 53"
  shows "\<exists>v. obj_get (foldl (\<lambda>us (inp, out, c). addUsage us i inp out c) usage turns) i = Some v
    \<and> us_input_tokens v = us_input_tokens u + sum_list (map fst turns)
    \<and> us_output_tokens v = us_output_tokens u + sum_list (map (\<lambda>(inp, out, c). out) turns)
    \<and> ((\<forall>(inp, out, c)\<in>set turns. c = None) \<longrightarrow> us_cost_usd v = us_cost_usd u)
    \<and> (\<forall>k. k \<noteq> i \<longrightarrow> obj_get (foldl (\<lambda>us (inp, out, c). addUsage us i inp out c) usage turns) k
          = obj_get usage k)"
  using assms
proof (induction turns arbitrary: usage u)
  case (Cons t turns)
  obtain inp out c where t: "t = (inp, out, c)" by (cases t)
  have nonneg: "0 \<le> sum_list (map fst turns)" "0 \<le> sum_list (map (\<lambda>(inp, out, c). out) turns)"
    using Cons.prems(4) by (fastforce intro!: sum_list_nonneg)+
  have bounds: "\<bar>us_input_tokens u + inp\<bar> < 2 ^ 53" "\<bar>us_output_tokens u + out\<bar> < 2 ^ 53"
    "0 \<le> inp" "0 \<le> out" using Cons.prems nonneg by (auto simp: t)
  let ?u = "addUsage usage i inp out c"
  obtain u1 where u1: "obj_get ?u i = Some u1" "us_input_tokens u1 = us_input_tokens u + inp"
    "us_output_tokens u1 = us_output_tokens u + out" "c = None \<longrightarrow> us_cost_usd u1 = us_cost_usd u"
    using Cons.prems(1) bounds by (simp add: addUsage_get js_add_int_exact)
  have other: "k \<noteq> i \<Longrightarrow> obj_get ?u k = obj_get usage k" for k by (simp add: addUsage_get)
  from Cons.IH [OF u1(1)] Cons.prems bounds u1 other show ?case by (auto simp: t)
qed simp

section \<open>Streamed tool output\<close>

text \<open>Where the next delta of a presentation block has to start, and deltas that follow on.\<close>

definition stream_end :: "presentation_block \<Rightarrow> int" where
  "stream_end b = coalesce (pb_stream_offset b) (int (length (coalesce (pb_text b) [])))"

fun consecutive :: "int \<Rightarrow> presentation_delta list \<Rightarrow> bool" where
  "consecutive n [] = True"
| "consecutive n (d # ds) = (pd_offset d = n \<and> consecutive (n + int (length (pd_text d))) ds)"

lemma delta_presentation_block_id [simp]:
  "pb_id (delta_presentation_block d b) = pb_id b"
  by (simp add: delta_presentation_block_def Let_def)

lemma delta_presentation_block_applies:
  assumes "pd_block_id d = pb_id b" "pd_offset d = stream_end b"
  shows "pb_text (delta_presentation_block d b) = Some (coalesce (pb_text b) [] @ pd_text d)"
    and "stream_end (delta_presentation_block d b) = stream_end b + int (length (pd_text d))"
  using assms by (simp_all add: delta_presentation_block_def stream_end_def Let_def)

lemma delta_presentation_block_skips:
  "pd_offset d \<noteq> stream_end b \<Longrightarrow> delta_presentation_block d b = b"
  by (simp add: delta_presentation_block_def stream_end_def Let_def)

lemma consecutive_offsets:
  "consecutive n ds \<Longrightarrow> d \<in> set ds \<Longrightarrow> pd_text d \<noteq> [] \<Longrightarrow>
     pd_offset d < n + int (length (concat (map pd_text ds)))"
proof (induction ds arbitrary: n)
  case (Cons x ds)
  have tail: "pd_offset d < n + int (length (concat (map pd_text (x # ds))))"
    if "d \<in> set ds" using Cons.IH [of "n + int (length (pd_text x))"] Cons.prems that by simp
  have "pd_offset x < n + int (length (concat (map pd_text (x # ds))))" if "pd_text x \<noteq> []"
    using Cons.prems(1) that by (cases "pd_text x") simp_all
  with tail Cons.prems show ?case by auto
qed simp

lemma deltas_reassemble:
  "consecutive (stream_end b) ds \<Longrightarrow> \<forall>d\<in>set ds. pd_block_id d = pb_id b \<Longrightarrow>
     coalesce (pb_text (fold delta_presentation_block ds b)) [] =
       coalesce (pb_text b) [] @ concat (map pd_text ds)
     \<and> stream_end (fold delta_presentation_block ds b) =
       stream_end b + int (length (concat (map pd_text ds)))
     \<and> pb_id (fold delta_presentation_block ds b) = pb_id b"
proof (induction ds arbitrary: b)
  case (Cons d ds)
  note step = delta_presentation_block_applies [of d b]
  from Cons.prems have "pd_block_id d = pb_id b" "pd_offset d = stream_end b" by auto
  note step = step [OF this]
  have "consecutive (stream_end (delta_presentation_block d b)) ds" using Cons.prems step(2) by simp
  from Cons.IH [OF this] Cons.prems(2) step show ?case by simp
qed simp

text \<open>
  Streamed tool output is reassembled without loss or duplication: deltas whose offsets
  follow on from the block's end append exactly their texts in order, and any delta of the
  run that is delivered again afterwards (its text not empty) leaves the block as it is.
\<close>
lemma presentation_stream_reassembles:
  assumes "consecutive (stream_end b) ds" "\<forall>d\<in>set ds. pd_block_id d = pb_id b"
  shows "coalesce (pb_text (fold delta_presentation_block ds b)) [] =
      coalesce (pb_text b) [] @ concat (map pd_text ds)
    \<and> (\<forall>d\<in>set ds. pd_text d \<noteq> [] \<longrightarrow>
        delta_presentation_block d (fold delta_presentation_block ds b) =
          fold delta_presentation_block ds b)"
  using deltas_reassemble [OF assms] consecutive_offsets [OF assms(1)]
  by (metis delta_presentation_block_skips order_less_irrefl)

section \<open>Action lifecycle events\<close>

definition action_types :: "string list" where
  "action_types = [''a2ui.action.received'', ''a2ui.action.delivered'', ''a2ui.action.consumed'',
     ''a2ui.action.failed'', ''a2ui.action.duplicate'']"

lemma action_types_handler: "t \<in> set action_types \<Longrightarrow> map_of handlers t = Some a2uiAction"
  by (auto simp: action_types_def handlers_def)

text \<open>
  An action lifecycle event is dropped, never thrown, when its payload makes no sense,
  with one exception: whatever the lifecycle schema answers, the frame is reduced, either to
  the cursor-advanced state or to one that holds the decoded lifecycle under its surface and
  banks the revision; but a frame whose payload is null or absent is refused with a type error.
\<close>
lemma action_event_throws_only_without_payload:
  assumes "passes env s f e" "ev_type e \<in> set action_types"
  shows "(ev_payload e \<noteq> JNull \<and> ev_payload e \<noteq> JUndef \<longrightarrow>
      (\<exists>s'. reduceTransportFrame env s f = Inr s' \<and> (s' = advance_cursor s f \<or>
        (\<exists>lc. obj_get (es_lifecycles s') (lc_surface_id lc) = Some lc \<and>
           es_revisions s' = recordRevision s (ev_entity_id e) (ev_entity_revision e)))))
    \<and> (ev_payload e = JNull \<or> ev_payload e = JUndef \<longrightarrow>
      reduceTransportFrame env s f = Inl (TypeError ''occurred_at''))"
proof -
  note red = reduce_passes [OF assms(1) action_types_handler [OF assms(2)]]
  have "\<exists>v. js_prop (ev_payload e) ''occurred_at'' = Inr v"
    if "ev_payload e \<noteq> JNull" "ev_payload e \<noteq> JUndef"
    using that by (cases "ev_payload e") (auto simp: js_prop_def)
  then show ?thesis
    unfolding red a2uiAction_def
    by (auto simp: js_prop_def split: sum.splits) (metis obj_get_put_same)
qed

end
