(* ===== verification/Frame_Reduction.thy ===== *)
theory Frame_Reduction
  imports Reducer_Properties
begin

text \<open>
  \<open>web/src/lib/streaming/frame-reduction.ts\<close> and \<open>frame-batcher.ts\<close>: the contained reduction
  of a batch, in which a frame the reducer refuses becomes a typed gap and the rest of the
  batch is still applied, and the batcher that collects frames until the next animation frame.

  The contained reduction is proved once over the interface \<open>contained_reducer\<close>, an arbitrary
  frame reducer with an invariant, and interpreted on \<open>reduceTransportFrame\<close>.
\<close>

section \<open>Contained reduction\<close>

record contained_reduction =
  cr_entities :: entity_state
  cr_gaps :: "transport_gap list"

text \<open>
  \<open>error.message\<close> of what the reducer throws. The engine words its own type errors: the
  wording is an argument.
\<close>

definition error_message :: "(string \<Rightarrow> string) \<Rightarrow> js_error \<Rightarrow> string" where
  "error_message type_error err = (case err of
      ZodFailure z \<Rightarrow> zod_message z
    | PlainError m \<Rightarrow> m
    | TypeError property \<Rightarrow> type_error property)"

definition undecoded_gap :: "transport_frame \<Rightarrow> zod_error \<Rightarrow> transport_gap" where
  "undecoded_gap frame z = \<lparr>gap_cursor = fr_cursor frame, gap_event_name = fr_eventName frame,
     gap_entity_id = None, gap_code = FrameDecodeFailed,
     gap_reason = (case zod_issues z of [] \<Rightarrow> ''Unable to decode live frame'' | m # _ \<Rightarrow> m),
     gap_received_at = fr_receivedAt frame\<rparr>"

definition mismatch_gap :: "transport_frame \<Rightarrow> event_envelope \<Rightarrow> transport_gap" where
  "mismatch_gap frame e = \<lparr>gap_cursor = fr_cursor frame, gap_event_name = fr_eventName frame,
     gap_entity_id = ev_entity_id e, gap_code = EventNameMismatch,
     gap_reason = ''Stream named '' @ fr_eventName frame @ ''; envelope named '' @ ev_type e,
     gap_received_at = fr_receivedAt frame\<rparr>"

definition refused_gap ::
  "(string \<Rightarrow> string) \<Rightarrow> transport_frame \<Rightarrow> event_envelope \<Rightarrow> js_error \<Rightarrow> transport_gap" where
  "refused_gap type_error frame e err = \<lparr>gap_cursor = fr_cursor frame,
     gap_event_name = ev_type e, gap_entity_id = ev_entity_id e, gap_code = FrameDecodeFailed,
     gap_reason = error_message type_error err, gap_received_at = fr_receivedAt frame\<rparr>"

type_synonym frame_reducer = "entity_state \<Rightarrow> transport_frame \<Rightarrow> entity_state result"

text \<open>The body of the loop.\<close>

definition contain_frame ::
  "(string \<Rightarrow> string) \<Rightarrow> event_envelope decoder \<Rightarrow> frame_reducer \<Rightarrow> contained_reduction
     \<Rightarrow> transport_frame \<Rightarrow> contained_reduction" where
  "contain_frame type_error decode reduce acc frame =
     (case decode (fr_data frame) of
        Inl z \<Rightarrow> acc\<lparr>cr_gaps := cr_gaps acc @ [undecoded_gap frame z]\<rparr>
      | Inr e \<Rightarrow>
          let named = (if ev_type e \<noteq> fr_eventName frame
                       then cr_gaps acc @ [mismatch_gap frame e] else cr_gaps acc)
          in (case reduce (cr_entities acc) frame of
                Inr nxt \<Rightarrow> acc\<lparr>cr_entities := nxt, cr_gaps := named\<rparr>
              | Inl err \<Rightarrow> acc\<lparr>cr_gaps := named @ [refused_gap type_error frame e err]\<rparr>))"

definition contain_frames ::
  "(string \<Rightarrow> string) \<Rightarrow> event_envelope decoder \<Rightarrow> frame_reducer \<Rightarrow> entity_state
     \<Rightarrow> transport_frame list \<Rightarrow> contained_reduction" where
  "contain_frames type_error decode reduce entities frames =
     foldl (contain_frame type_error decode reduce) \<lparr>cr_entities = entities, cr_gaps = []\<rparr> frames"

definition reduceFramesContained ::
  "(string \<Rightarrow> string) \<Rightarrow> env \<Rightarrow> entity_state \<Rightarrow> transport_frame list \<Rightarrow> contained_reduction" where
  "reduceFramesContained type_error env =
     contain_frames type_error (eventEnvelopeSchema env) (reduceTransportFrame env)"

section \<open>The batcher\<close>

text \<open>
  The fields of \<open>FrameBatcher\<close>, and what it does outside: commits batches, requests and
  cancels animation frames. Handles are those the clock gives, as an argument.
\<close>

record 'a batcher =
  fb_queued :: "'a list"
  fb_handle :: "nat option"
  fb_stopped :: bool

datatype 'a effect = Commit "'a list" | Request nat | Cancel nat

definition newBatcher :: "'a batcher" where
  "newBatcher = \<lparr>fb_queued = [], fb_handle = None, fb_stopped = False\<rparr>"

definition push :: "'a batcher \<Rightarrow> nat \<Rightarrow> 'a \<Rightarrow> 'a batcher \<times> 'a effect list" where
  "push b h item =
     (if fb_stopped b then (b, [])
      else let b1 = b\<lparr>fb_queued := fb_queued b @ [item]\<rparr> in
        if fb_handle b1 \<noteq> None then (b1, [])
        else (b1\<lparr>fb_handle := Some h\<rparr>, [Request h]))"

definition cancel_effects :: "'a batcher \<Rightarrow> 'a effect list" where
  "cancel_effects b = (case fb_handle b of Some h \<Rightarrow> [Cancel h] | None \<Rightarrow> [])"

definition flush :: "'a batcher \<Rightarrow> 'a batcher \<times> 'a effect list" where
  "flush b =
     (let b1 = b\<lparr>fb_handle := None\<rparr> in
      if fb_queued b1 = [] then (b1, cancel_effects b)
      else (b1\<lparr>fb_queued := []\<rparr>, cancel_effects b @ [Commit (fb_queued b1)]))"

definition stop :: "bool \<Rightarrow> 'a batcher \<Rightarrow> 'a batcher \<times> 'a effect list" where
  "stop flush_option b =
     (if fb_stopped b then (b, [])
      else let (b1, effects) = (if flush_option then flush b else (b, cancel_effects b))
           in (b1\<lparr>fb_handle := None, fb_queued := [], fb_stopped := True\<rparr>, effects))"

section \<open>The interface and its lemmas\<close>

locale contained_reducer =
  fixes type_error :: "string \<Rightarrow> string"
    and decode :: "event_envelope decoder"
    and reduce :: frame_reducer
    and inv :: "entity_state \<Rightarrow> bool"
  assumes inv_reduce: "inv s \<Longrightarrow> reduce s f = Inr s' \<Longrightarrow> inv s'"
begin

abbreviation contained :: "entity_state \<Rightarrow> transport_frame list \<Rightarrow> contained_reduction" where
  "contained \<equiv> contain_frames type_error decode reduce"

text \<open>A frame the batch applies: its envelope is readable and the reducer accepts it.\<close>

definition accepted :: "entity_state \<Rightarrow> transport_frame \<Rightarrow> bool" where
  "accepted s f \<longleftrightarrow> (\<exists>e. decode (fr_data f) = Inr e) \<and> (\<exists>s'. reduce s f = Inr s')"

lemma contained_Nil: "contained s [] = \<lparr>cr_entities = s, cr_gaps = []\<rparr>"
  by (simp add: contain_frames_def)

lemma contain_frame_shift:
  "contain_frame type_error decode reduce \<lparr>cr_entities = s, cr_gaps = g @ h\<rparr> f =
     (let r = contain_frame type_error decode reduce \<lparr>cr_entities = s, cr_gaps = h\<rparr> f
      in \<lparr>cr_entities = cr_entities r, cr_gaps = g @ cr_gaps r\<rparr>)"
  by (auto simp: contain_frame_def Let_def split: sum.split)

lemma contain_fold_shift:
  "foldl (contain_frame type_error decode reduce) \<lparr>cr_entities = s, cr_gaps = g @ h\<rparr> fs =
     (let r = foldl (contain_frame type_error decode reduce) \<lparr>cr_entities = s, cr_gaps = h\<rparr> fs
      in \<lparr>cr_entities = cr_entities r, cr_gaps = g @ cr_gaps r\<rparr>)"
proof (induction fs arbitrary: s h)
  case (Cons f fs)
  obtain s1 h1 where r: "contain_frame type_error decode reduce \<lparr>cr_entities = s, cr_gaps = h\<rparr> f =
      \<lparr>cr_entities = s1, cr_gaps = h1\<rparr>" by (metis contained_reduction.cases)
  show ?case
    using Cons.IH [of s1 h1] by (simp add: contain_frame_shift r)
qed simp

lemma contained_append:
  "contained s (xs @ ys) =
     (let a = contained s xs; b = contained (cr_entities a) ys
      in \<lparr>cr_entities = cr_entities b, cr_gaps = cr_gaps a @ cr_gaps b\<rparr>)"
proof -
  obtain s1 g1 where a: "contained s xs = \<lparr>cr_entities = s1, cr_gaps = g1\<rparr>"
    by (metis contained_reduction.cases)
  show ?thesis
    using contain_fold_shift [of s1 g1 "[]" ys] a by (simp add: contain_frames_def)
qed

lemma contained_Cons:
  "contained s (f # fs) =
     (let a = contained s [f]; b = contained (cr_entities a) fs
      in \<lparr>cr_entities = cr_entities b, cr_gaps = cr_gaps a @ cr_gaps b\<rparr>)"
  using contained_append [of s "[f]" fs] by simp

lemma contained_one:
  "accepted s f \<Longrightarrow> reduce s f = Inr s' \<Longrightarrow> cr_entities (contained s [f]) = s'"
  "\<not> accepted s f \<Longrightarrow> cr_entities (contained s [f]) = s"
  by (auto simp: accepted_def contain_frames_def contain_frame_def Let_def split: sum.splits)

lemma contained_inv: "inv s \<Longrightarrow> inv (cr_entities (contained s fs))"
proof (induction fs arbitrary: s)
  case (Cons f fs)
  have "inv (cr_entities (contained s [f]))"
  proof (cases "accepted s f")
    case True
    then obtain s' where "reduce s f = Inr s'" unfolding accepted_def by blast
    with True Cons.prems inv_reduce contained_one(1) show ?thesis by metis
  qed (simp add: Cons.prems contained_one(2))
  from Cons.IH [OF this] show ?case by (simp add: contained_Cons [of s f fs] Let_def)
qed (simp add: contained_Nil)

lemma refused_gaps:
  "\<not> accepted s f \<Longrightarrow> \<exists>g\<in>set (cr_gaps (contained s [f])). gap_code g = FrameDecodeFailed
     \<and> gap_cursor g = fr_cursor f"
  by (auto simp: accepted_def contain_frames_def contain_frame_def Let_def undecoded_gap_def
      refused_gap_def split: sum.splits)

lemma accepted_gaps:
  "accepted s f \<Longrightarrow> \<forall>g\<in>set (cr_gaps (contained s [f])). gap_code g = EventNameMismatch"
  by (auto simp: accepted_def contain_frames_def contain_frame_def Let_def mismatch_gap_def
      split: sum.splits)

end

interpretation frames: contained_reducer type_error "eventEnvelopeSchema env"
  "reduceTransportFrame env" wf_state for type_error env
  by unfold_locales (auto simp: reduceTransportFrame_def intro: reducer.wf_frame)

section \<open>Properties\<close>

text \<open>
  C19. One unreadable frame never costs the batch another: the contained reduction of a batch
  always returns, a refused frame leaves the store as it was and adds a decode gap with its
  cursor, an accepted one has its effect and adds no decode gap, splitting a batch anywhere
  gives the same store and the same gaps in the same order, and a well-formed store stays
  well formed.
\<close>
theorem batch_contains_refused_frames:
  fixes type_error env s f xs ys
  defines "red \<equiv> reduceFramesContained type_error env"
  shows "cr_entities (red s (xs @ ys)) = cr_entities (red (cr_entities (red s xs)) ys)
    \<and> cr_gaps (red s (xs @ ys)) = cr_gaps (red s xs) @ cr_gaps (red (cr_entities (red s xs)) ys)
    \<and> ((\<exists>e. eventEnvelopeSchema env (fr_data f) = Inr e) \<and> reduceTransportFrame env s f = Inr s' \<longrightarrow>
        cr_entities (red s [f]) = s' \<and> (\<forall>g\<in>set (cr_gaps (red s [f])). gap_code g = EventNameMismatch))
    \<and> ((\<exists>z. eventEnvelopeSchema env (fr_data f) = Inl z) \<or> (\<exists>err. reduceTransportFrame env s f = Inl err)
        \<longrightarrow> cr_entities (red s [f]) = s \<and> (\<exists>g\<in>set (cr_gaps (red s [f])).
              gap_code g = FrameDecodeFailed \<and> gap_cursor g = fr_cursor f))
    \<and> (wf_state s \<longrightarrow> wf_state (cr_entities (red s xs)))"
proof -
  have "frames.accepted env s f" if "\<exists>e. eventEnvelopeSchema env (fr_data f) = Inr e"
    "reduceTransportFrame env s f = Inr s'" using that by (auto simp: frames.accepted_def)
  moreover have "\<not> frames.accepted env s f" if "(\<exists>z. eventEnvelopeSchema env (fr_data f) = Inl z) \<or>
      (\<exists>err. reduceTransportFrame env s f = Inl err)" using that by (auto simp: frames.accepted_def)
  ultimately show ?thesis
    unfolding red_def reduceFramesContained_def
    using frames.contained_append [of type_error env s xs ys] frames.contained_one [of env s f]
      frames.refused_gaps [of env s f type_error] frames.accepted_gaps [of env s f type_error]
      frames.contained_inv [of s type_error env xs]
    by (auto simp: Let_def)
qed

theorem batch_contains_refused_frames_witness:
  "cr_entities (reduceFramesContained (\<lambda>p. p) ex_env createEntityState
     [(ex_plain_frame ''1'' ''x'' JNull)\<lparr>fr_data := JNull\<rparr>]) = createEntityState"
  using batch_contains_refused_frames [of "\<lambda>p. p" ex_env createEntityState "[]" "[]"
      "(ex_plain_frame ''1'' ''x'' JNull)\<lparr>fr_data := JNull\<rparr>"]
  by (simp add: ex_eval refuse_def)

text \<open>The effects of a sequence of pushes and flushes on a batcher.\<close>

datatype 'a batch_call = Push nat 'a | Flush

fun run_batcher :: "'a batcher \<Rightarrow> 'a batch_call list \<Rightarrow> 'a batcher \<times> 'a effect list" where
  "run_batcher b [] = (b, [])"
| "run_batcher b (c # cs) =
     (let (b1, e1) = (case c of Push h x \<Rightarrow> push b h x | Flush \<Rightarrow> flush b);
          (b2, e2) = run_batcher b1 cs
      in (b2, e1 @ e2))"

fun committed :: "'a effect list \<Rightarrow> 'a list" where
  "committed [] = []"
| "committed (Commit xs # es) = xs @ committed es"
| "committed (_ # es) = committed es"

fun pushed :: "'a batch_call list \<Rightarrow> 'a list" where
  "pushed [] = []"
| "pushed (Push _ x # cs) = x # pushed cs"
| "pushed (Flush # cs) = pushed cs"

lemma committed_append [simp]: "committed (a @ b) = committed a @ committed b"
  by (induction a rule: committed.induct) auto

lemma committed_cancel [simp]: "committed (cancel_effects b) = []"
  by (simp add: cancel_effects_def split: option.split)

text \<open>A running batcher with items queued has an animation frame pending.\<close>

definition wf_batcher :: "'a batcher \<Rightarrow> bool" where
  "wf_batcher b \<longleftrightarrow> (fb_queued b \<noteq> [] \<longrightarrow> fb_handle b \<noteq> None) \<and>
     (fb_stopped b \<longrightarrow> fb_queued b = [] \<and> fb_handle b = None)"

lemma push_batcher:
  assumes "\<not> fb_stopped b"
  shows "\<not> fb_stopped (fst (push b h x))" "wf_batcher b \<Longrightarrow> wf_batcher (fst (push b h x))"
    "fb_queued (fst (push b h x)) = fb_queued b @ [x]" "committed (snd (push b h x)) = []"
  using assms by (auto simp: push_def Let_def wf_batcher_def)

lemma flush_batcher:
  "fb_stopped (fst (flush b)) = fb_stopped b" "wf_batcher b \<Longrightarrow> wf_batcher (fst (flush b))"
  "fb_queued (fst (flush b)) = []" "committed (snd (flush b)) = fb_queued b"
  by (auto simp: flush_def Let_def wf_batcher_def)

lemma run_batcher_order:
  "\<not> fb_stopped b \<Longrightarrow> wf_batcher b \<Longrightarrow> run_batcher b cs = (b', es) \<Longrightarrow>
     \<not> fb_stopped b' \<and> wf_batcher b' \<and> committed es @ fb_queued b' = fb_queued b @ pushed cs"
proof (induction cs arbitrary: b es)
  case (Cons c cs)
  show ?case
  proof (cases c)
    case (Push h x)
    obtain e2 where e2: "run_batcher (fst (push b h x)) cs = (b', e2)" "es = snd (push b h x) @ e2"
      using Cons.prems(3) by (auto simp: Push split: prod.splits)
    from Cons.IH [OF push_batcher(1) push_batcher(2) e2(1)] Cons.prems push_batcher [of b h x] e2(2)
    show ?thesis by (simp add: Push)
  next
    case Flush
    obtain e2 where e2: "run_batcher (fst (flush b)) cs = (b', e2)" "es = snd (flush b) @ e2"
      using Cons.prems(3) by (auto simp: Flush split: prod.splits)
    from Cons.IH [OF _ flush_batcher(2) e2(1)] Cons.prems flush_batcher [of b] e2(2)
    show ?thesis by (simp add: Flush)
  qed
qed simp

text \<open>
  C18. The batcher neither loses, duplicates nor reorders an item: after any interleaving of
  pushes and flushes, the committed batches followed by what is still queued are exactly the
  items pushed, in order; items are only queued while an animation frame is pending; and
  stopping with a flush commits the rest, after which nothing is queued or pending and every
  later push is ignored.
\<close>
theorem batcher_commits_in_order:
  assumes "run_batcher newBatcher cs = (b, es)"
  shows "committed es @ fb_queued b = pushed cs
    \<and> (fb_queued b \<noteq> [] \<longrightarrow> fb_handle b \<noteq> None)
    \<and> committed (es @ snd (stop True b)) = pushed cs
    \<and> fb_queued (fst (stop True b)) = [] \<and> fb_handle (fst (stop True b)) = None
    \<and> push (fst (stop True b)) h x = (fst (stop True b), [])"
proof -
  have "\<not> fb_stopped (newBatcher :: 'a batcher)" "wf_batcher (newBatcher :: 'a batcher)"
    by (simp_all add: newBatcher_def wf_batcher_def)
  note r = run_batcher_order [OF this assms]
  have st: "fst (stop True b) = (fst (flush b))\<lparr>fb_handle := None, fb_queued := [], fb_stopped := True\<rparr>"
    "snd (stop True b) = snd (flush b)"
    using r by (simp_all add: stop_def split: prod.splits)
  show ?thesis
    using r st flush_batcher(4) [of b] by (simp add: newBatcher_def wf_batcher_def push_def)
qed

theorem batcher_commits_in_order_witness:
  "committed (snd (run_batcher newBatcher [Push 1 ''a'', Push 2 ''b'', Flush, Push 3 ''c'', Flush]))
     = [''a'', ''b'', ''c'']"
proof -
  obtain b es where r: "run_batcher newBatcher [Push 1 ''a'', Push 2 ''b'', Flush, Push 3 ''c'', Flush]
      = (b, es)" by (metis prod.exhaust)
  moreover from r have "fb_queued b = []"
    by (auto simp: newBatcher_def push_def flush_def cancel_effects_def Let_def)
  ultimately show ?thesis using batcher_commits_in_order [OF r] by simp
qed

end
