(* ===== verification/Live_Store.thy ===== *)
theory Live_Store
  imports Frame_Reduction
begin

text \<open>
  \<open>web/src/store/live-store.ts\<close>, \<open>web/src/lib/session-entity-retention.ts\<close> and
  \<open>web/src/lib/session-model-state.ts\<close>: the tab's live store. Frames reduced by the contained
  reduction, REST snapshots merged under the rows the stream owns, the reconcile after a
  stream gap, the hydration of variant runs, and dropping the data of an expired session.

  A snapshot is a \<open>Partial<EntityState>\<close>: a field is \<open>None\<close> when its key is absent.
\<close>

definition MAX_RETAINED_FRAME_GAPS :: nat where
  "MAX_RETAINED_FRAME_GAPS = 100"

record live_store =
  ls_entities :: entity_state
  ls_frameGaps :: "transport_gap list"
  ls_error :: "string option"
  ls_streamOwners :: int

section \<open>Snapshots\<close>

record snapshot =
  sn_connection :: "connection option option"
  sn_capabilities :: "js_value option option"
  sn_stream :: "stream_state option"
  sn_streamGaps :: "nat option option"
  sn_cursor :: "string option option"
  sn_workspaces :: "workspace obj option"
  sn_sessions :: "session obj option"
  sn_runs :: "run obj option"
  sn_messages :: "message obj option"
  sn_tools :: "tool_invocation obj option"
  sn_approvals :: "approval_request obj option"
  sn_questions :: "user_question obj option"
  sn_tasks :: "task obj option"
  sn_subagents :: "subagent_run obj option"
  sn_artifacts :: "artifact obj option"
  sn_providers :: "provider_state obj option"
  sn_usage :: "usage_snapshot obj option"
  sn_context :: "context_snapshot obj option"
  sn_surfaces :: "a2ui_surface obj option"
  sn_lifecycles :: "action_lifecycle obj option"
  sn_infrastructure :: "infrastructure_dependency obj option"
  sn_compactions :: "pending_compaction obj option"
  sn_variant_runs :: "variant_run obj option"
  sn_active_turns :: "string obj option"
  sn_responded_turns :: "string obj option"
  sn_revisions :: "int obj option"
  sn_processed_cursors :: "string list option"
  sn_gaps :: "transport_gap list option"

text \<open>\<open>{ ...entities, ...snapshot }\<close>.\<close>

definition spread_snapshot :: "entity_state \<Rightarrow> snapshot \<Rightarrow> entity_state" where
  "spread_snapshot e n = \<lparr>
     es_connection = coalesce (sn_connection n) (es_connection e),
     es_capabilities = coalesce (sn_capabilities n) (es_capabilities e),
     es_stream = coalesce (sn_stream n) (es_stream e),
     es_streamGaps = coalesce (sn_streamGaps n) (es_streamGaps e),
     es_cursor = coalesce (sn_cursor n) (es_cursor e),
     es_workspaces = coalesce (sn_workspaces n) (es_workspaces e),
     es_sessions = coalesce (sn_sessions n) (es_sessions e),
     es_runs = coalesce (sn_runs n) (es_runs e),
     es_messages = coalesce (sn_messages n) (es_messages e),
     es_tools = coalesce (sn_tools n) (es_tools e),
     es_approvals = coalesce (sn_approvals n) (es_approvals e),
     es_questions = coalesce (sn_questions n) (es_questions e),
     es_tasks = coalesce (sn_tasks n) (es_tasks e),
     es_subagents = coalesce (sn_subagents n) (es_subagents e),
     es_artifacts = coalesce (sn_artifacts n) (es_artifacts e),
     es_providers = coalesce (sn_providers n) (es_providers e),
     es_usage = coalesce (sn_usage n) (es_usage e),
     es_context = coalesce (sn_context n) (es_context e),
     es_surfaces = coalesce (sn_surfaces n) (es_surfaces e),
     es_lifecycles = coalesce (sn_lifecycles n) (es_lifecycles e),
     es_infrastructure = coalesce (sn_infrastructure n) (es_infrastructure e),
     es_compactions = coalesce (sn_compactions n) (es_compactions e),
     es_variant_runs = coalesce (sn_variant_runs n) (es_variant_runs e),
     es_active_turns = coalesce (sn_active_turns n) (es_active_turns e),
     es_responded_turns = coalesce (sn_responded_turns n) (es_responded_turns e),
     es_revisions = coalesce (sn_revisions n) (es_revisions e),
     es_processed_cursors = coalesce (sn_processed_cursors n) (es_processed_cursors e),
     es_gaps = coalesce (sn_gaps n) (es_gaps e)\<rparr>"

section \<open>Merging a snapshot under the stream's rows\<close>

definition streamOwnedIds :: "int obj \<Rightarrow> string set" where
  "streamOwnedIds revisions = set (obj_keys revisions)"

text \<open>\<open>left >= right\<close> on strings.\<close>

fun str_ge :: "string \<Rightarrow> string \<Rightarrow> bool" where
  "str_ge _ [] = True"
| "str_ge [] (_ # _) = False"
| "str_ge (a # s) (b # t) =
     (if (of_char a :: nat) = of_char b then str_ge s t else (of_char a :: nat) > of_char b)"

definition terminalSessionSnapshot :: "session option \<Rightarrow> session \<Rightarrow> bool" where
  "terminalSessionSnapshot previous s = (case previous of
      None \<Rightarrow> False
    | Some p \<Rightarrow> ses_state s \<in> {RunCompleted, RunFailed, RunCancelled, RunInterrupted} \<and>
        ses_state p \<in> {RunQueued, RunRunning, RunWaitingPermission, RunWaitingUser} \<and>
        str_ge (ses_updated_at s) (ses_updated_at p))"

text \<open>\<open>override\<close> is the exception of the map: when the snapshot's row wins all the same.\<close>

definition merged_row ::
  "('v option \<Rightarrow> 'v \<Rightarrow> bool) \<Rightarrow> 'v obj \<Rightarrow> string set \<Rightarrow> string \<Rightarrow> 'v \<Rightarrow> 'v" where
  "merged_row override current streamOwned i entity = (case obj_get current i of
      Some previous \<Rightarrow> if i \<in> streamOwned \<and> \<not> override (Some previous) entity then previous else entity
    | None \<Rightarrow> entity)"

definition mergeEntityMap ::
  "('v option \<Rightarrow> 'v \<Rightarrow> bool) \<Rightarrow> 'v obj \<Rightarrow> 'v obj \<Rightarrow> string set \<Rightarrow> 'v obj" where
  "mergeEntityMap override current snapshot streamOwned =
     (let merged = foldl (\<lambda>m (i, entity).
            obj_put m i (merged_row override current streamOwned i entity)) [] snapshot
      in foldl (\<lambda>m (i, entity).
           if \<not> obj_has m i \<and> i \<in> streamOwned then obj_put m i entity else m) merged current)"

definition no_override :: "'v option \<Rightarrow> 'v \<Rightarrow> bool" where
  "no_override previous entity = False"

definition merge_key ::
  "('v option \<Rightarrow> 'v \<Rightarrow> bool) \<Rightarrow> string set \<Rightarrow> 'v obj \<Rightarrow> 'v obj option \<Rightarrow> 'v obj" where
  "merge_key override streamOwned current v = (case v of
      None \<Rightarrow> current
    | Some snapshot \<Rightarrow> mergeEntityMap override current snapshot streamOwned)"

definition merge_entities ::
  "(string \<Rightarrow> int option) \<Rightarrow> entity_state \<Rightarrow> snapshot \<Rightarrow> entity_state" where
  "merge_entities parse_date e n =
     (let owned = streamOwnedIds (es_revisions e) in
      (spread_snapshot e n)\<lparr>
        es_workspaces := merge_key no_override owned (es_workspaces e) (sn_workspaces n),
        es_sessions := merge_key terminalSessionSnapshot owned (es_sessions e) (sn_sessions n),
        es_runs := merge_key no_override owned (es_runs e) (sn_runs n),
        es_messages := merge_key no_override owned (es_messages e) (sn_messages n),
        es_tools := merge_key (\<lambda>p c. isToolExecutionSnapshot parse_date p (Some c)) owned
                      (es_tools e) (sn_tools n),
        es_approvals := merge_key no_override owned (es_approvals e) (sn_approvals n),
        es_questions := merge_key no_override owned (es_questions e) (sn_questions n),
        es_tasks := merge_key no_override owned (es_tasks e) (sn_tasks n),
        es_subagents := merge_key no_override owned (es_subagents e) (sn_subagents n),
        es_artifacts := merge_key no_override owned (es_artifacts e) (sn_artifacts n),
        es_providers := merge_key no_override owned (es_providers e) (sn_providers n),
        es_usage := merge_key no_override owned (es_usage e) (sn_usage n),
        es_context := merge_key no_override owned (es_context e) (sn_context n),
        es_surfaces := merge_key no_override owned (es_surfaces e) (sn_surfaces n),
        es_infrastructure := merge_key no_override owned (es_infrastructure e) (sn_infrastructure n)\<rparr>)"

section \<open>After a gap\<close>

definition terminal_lifecycle :: "lifecycle_status \<Rightarrow> bool" where
  "terminal_lifecycle st \<longleftrightarrow> st \<in> {LcConsumed, LcFailed, LcDuplicate}"

definition markNonTerminalA2uiLifecyclesUnknown :: "action_lifecycle obj \<Rightarrow> action_lifecycle obj" where
  "markNonTerminalA2uiLifecyclesUnknown lifecycles =
     (if list_all (\<lambda>(_, l). terminal_lifecycle (lc_status l)) lifecycles then lifecycles
      else obj_of_entries (map (\<lambda>(surfaceId, l).
        if terminal_lifecycle (lc_status l) then (surfaceId, l)
        else (surfaceId, l\<lparr>lc_status := LcUnknown\<rparr>)) lifecycles))"

section \<open>Dropping the data of a session\<close>

text \<open>The string values of a block's keys that end in \<open>_id\<close>.\<close>

fun body_references :: "block_body \<Rightarrow> string list" where
  "body_references (ToolBlock t _) = [t]"
| "body_references (InjectionBlock _ _ call_id _ compaction_id variants_id _) =
     List.map_filter id [call_id, compaction_id, variants_id]"
| "body_references (NoticeBlock _ _ _ _ compaction_id _) = List.map_filter id [compaction_id]"
| "body_references (TaskBlock t) = [t]"
| "body_references (SubagentBlock subagent_id _ _) = [subagent_id]"
| "body_references (AgentMessageBlock subagent_id _ _ _ _) = [subagent_id]"
| "body_references (ArtifactBlock artifact_id) = [artifact_id]"
| "body_references (ResourceBlock resource_id _ workspace_id _ _ _) = [resource_id, workspace_id]"
| "body_references (ContextReferenceBlock _ ref_id _ _ _ _) = [ref_id]"
| "body_references (A2uiBlock surface_id) = [surface_id]"
| "body_references (McpAppBlock app_instance_id _ _ _ _ _ _) = [app_instance_id]"
| "body_references _ = []"

definition block_references :: "message_block \<Rightarrow> string list" where
  "block_references b = List.map_filter id [blk_agent_id b] @ body_references (blk_body b)"

definition referenced_ids :: "entity_state \<Rightarrow> string \<Rightarrow> string set" where
  "referenced_ids e sessionId = set (concat (map (\<lambda>m. concat (map block_references (msg_blocks m)))
     (filter (\<lambda>m. msg_session_id m \<noteq> sessionId) (obj_values (es_messages e)))))"

text \<open>The rows a session map loses: its kept rows, and the ids removed.\<close>

definition expired_row :: "('v \<Rightarrow> string) \<Rightarrow> string set \<Rightarrow> string \<Rightarrow> string \<Rightarrow> 'v \<Rightarrow> bool" where
  "expired_row session_id referenced sessionId i v \<longleftrightarrow> session_id v = sessionId \<and> i \<notin> referenced"

definition kept_rows :: "('v \<Rightarrow> string) \<Rightarrow> string set \<Rightarrow> string \<Rightarrow> 'v obj \<Rightarrow> 'v obj" where
  "kept_rows session_id referenced sessionId rows =
     obj_of_entries (obj_filter (\<lambda>i v. \<not> expired_row session_id referenced sessionId i v) rows)"

definition removed_ids :: "('v \<Rightarrow> string) \<Rightarrow> string set \<Rightarrow> string \<Rightarrow> 'v obj \<Rightarrow> string set" where
  "removed_ids session_id referenced sessionId rows =
     set (obj_keys (obj_filter (expired_row session_id referenced sessionId) rows))"

text \<open>
  The rows of \<open>a2ui_action_lifecycles\<close> have no \<open>session_id\<close>: the filter keeps all of them.
\<close>

definition withoutSessionData :: "entity_state \<Rightarrow> string \<Rightarrow> entity_state" where
  "withoutSessionData e sessionId =
     (let referenced = referenced_ids e sessionId;
          removed = removed_ids msg_session_id referenced sessionId (es_messages e)
            \<union> removed_ids tool_session_id referenced sessionId (es_tools e)
            \<union> removed_ids run_session_id referenced sessionId (es_runs e)
            \<union> removed_ids task_session_id referenced sessionId (es_tasks e)
            \<union> removed_ids sa_session_id referenced sessionId (es_subagents e)
            \<union> removed_ids art_session_id referenced sessionId (es_artifacts e)
            \<union> removed_ids cs_session_id referenced sessionId (es_context e)
            \<union> removed_ids sf_session_id referenced sessionId (es_surfaces e)
            \<union> removed_ids us_session_id referenced sessionId (es_usage e)
            \<union> removed_ids vr_session_id referenced sessionId (es_variant_runs e)
      in e\<lparr>
        es_messages := kept_rows msg_session_id referenced sessionId (es_messages e),
        es_tools := kept_rows tool_session_id referenced sessionId (es_tools e),
        es_runs := kept_rows run_session_id referenced sessionId (es_runs e),
        es_tasks := kept_rows task_session_id referenced sessionId (es_tasks e),
        es_subagents := kept_rows sa_session_id referenced sessionId (es_subagents e),
        es_artifacts := kept_rows art_session_id referenced sessionId (es_artifacts e),
        es_context := kept_rows cs_session_id referenced sessionId (es_context e),
        es_surfaces := kept_rows sf_session_id referenced sessionId (es_surfaces e),
        es_usage := kept_rows us_session_id referenced sessionId (es_usage e),
        es_variant_runs := kept_rows vr_session_id referenced sessionId (es_variant_runs e),
        es_lifecycles := obj_of_entries (es_lifecycles e),
        es_revisions := obj_of_entries (obj_filter (\<lambda>i _. i \<notin> removed) (es_revisions e))\<rparr>)"

definition withoutSessionModelReference :: "session \<Rightarrow> session" where
  "withoutSessionModelReference s = s\<lparr>ses_provider_id := None, ses_model_id := None\<rparr>"

definition withoutSessionModelReferences :: "session list \<Rightarrow> session list" where
  "withoutSessionModelReferences sessions = map withoutSessionModelReference sessions"

definition withoutEntitySessionModelReferences :: "session obj \<Rightarrow> session obj" where
  "withoutEntitySessionModelReferences sessions =
     obj_of_entries (map (\<lambda>(i, s). (i, withoutSessionModelReference s)) sessions)"

section \<open>The actions of the store\<close>

definition initial_store :: live_store where
  "initial_store = \<lparr>ls_entities = createEntityState, ls_frameGaps = [], ls_error = None,
     ls_streamOwners = 0\<rparr>"

definition claimStream :: "live_store \<Rightarrow> live_store" where
  "claimStream st = st\<lparr>ls_streamOwners := ls_streamOwners st + 1\<rparr>"

definition releaseStream :: "live_store \<Rightarrow> live_store" where
  "releaseStream st = st\<lparr>ls_streamOwners := max 0 (ls_streamOwners st - 1)\<rparr>"

definition setStreamState :: "live_store \<Rightarrow> stream_state \<Rightarrow> live_store" where
  "setStreamState st stream = st\<lparr>ls_entities := (ls_entities st)\<lparr>es_stream := stream\<rparr>\<rparr>"

definition setStreamError :: "live_store \<Rightarrow> string \<Rightarrow> live_store" where
  "setStreamError st err =
     st\<lparr>ls_entities := (ls_entities st)\<lparr>es_stream := StreamGapped\<rparr>, ls_error := Some err\<rparr>"

definition applyFrames ::
  "(string \<Rightarrow> string) \<Rightarrow> env \<Rightarrow> live_store \<Rightarrow> transport_frame list \<Rightarrow> live_store" where
  "applyFrames type_error env st frames =
     (let r = reduceFramesContained type_error env (ls_entities st) frames in
      st\<lparr>ls_entities := cr_entities r,
         ls_frameGaps := take_last MAX_RETAINED_FRAME_GAPS (ls_frameGaps st @ cr_gaps r),
         ls_error := None\<rparr>)"

definition replaceSnapshots :: "live_store \<Rightarrow> snapshot \<Rightarrow> live_store" where
  "replaceSnapshots st n =
     st\<lparr>ls_entities := spread_snapshot (ls_entities st) n, ls_error := None\<rparr>"

definition mergeSnapshots :: "(string \<Rightarrow> int option) \<Rightarrow> live_store \<Rightarrow> snapshot \<Rightarrow> live_store" where
  "mergeSnapshots parse_date st n =
     st\<lparr>ls_entities := merge_entities parse_date (ls_entities st) n, ls_error := None\<rparr>"

definition reconcileSnapshots :: "live_store \<Rightarrow> snapshot \<Rightarrow> live_store" where
  "reconcileSnapshots st n =
     st\<lparr>ls_entities := (spread_snapshot (ls_entities st) n)\<lparr>
          es_lifecycles := markNonTerminalA2uiLifecyclesUnknown (es_lifecycles (ls_entities st)),
          es_cursor := None, es_processed_cursors := []\<rparr>,
        ls_error := None\<rparr>"

definition clearSessionModelReferences :: "live_store \<Rightarrow> live_store" where
  "clearSessionModelReferences st = st\<lparr>ls_entities := (ls_entities st)\<lparr>
     es_sessions := withoutEntitySessionModelReferences (es_sessions (ls_entities st))\<rparr>\<rparr>"

definition hydrateVariantRuns :: "live_store \<Rightarrow> variant_runs \<Rightarrow> live_store" where
  "hydrateVariantRuns st runs = st\<lparr>ls_entities := (ls_entities st)\<lparr>
     es_variant_runs := mergeVariantRuns (es_variant_runs (ls_entities st)) runs\<rparr>\<rparr>"

definition dropSessionData :: "live_store \<Rightarrow> string \<Rightarrow> live_store" where
  "dropSessionData st sessionId =
     st\<lparr>ls_entities := withoutSessionData (ls_entities st) sessionId\<rparr>"

definition reset :: "live_store \<Rightarrow> live_store" where
  "reset st = st\<lparr>ls_entities := createEntityState, ls_frameGaps := [], ls_error := None\<rparr>"

section \<open>Lemmas: merged maps and kept rows\<close>

lemma obj_get_fold_put:
  "wf_obj xs \<Longrightarrow> obj_get (foldl (\<lambda>m (i, v). obj_put m i (f i v)) m xs) k =
     (case obj_get xs k of Some v \<Rightarrow> Some (f k v) | None \<Rightarrow> obj_get m k)"
proof (induction xs arbitrary: m)
  case (Cons x xs)
  obtain i v where x: "x = (i, v)" by (cases x)
  with Cons.prems have wf: "wf_obj xs" and new: "obj_get xs i = None"
    by (auto simp: wf_obj_def obj_get_def map_of_eq_None_iff)
  from Cons.IH [OF wf] new show ?case by (auto simp: x obj_get_put obj_get_Cons split: option.split)
qed simp

lemma wf_obj_fold_put: "wf_obj m \<Longrightarrow> wf_obj (foldl (\<lambda>m (i, v). obj_put m i (f i v)) m xs)"
  by (induction xs arbitrary: m) auto

lemma obj_get_fold_keep:
  "wf_obj xs \<Longrightarrow> obj_get (foldl (\<lambda>m (i, v). if \<not> obj_has m i \<and> i \<in> own then obj_put m i v else m) m xs) k =
     (case obj_get m k of Some v \<Rightarrow> Some v | None \<Rightarrow> if k \<in> own then obj_get xs k else None)"
proof (induction xs arbitrary: m)
  case (Cons x xs)
  obtain i v where x: "x = (i, v)" by (cases x)
  with Cons.prems have wf: "wf_obj xs" and new: "obj_get xs i = None"
    by (auto simp: wf_obj_def obj_get_def map_of_eq_None_iff)
  from Cons.IH [OF wf] new show ?case
    by (auto simp: x obj_get_put obj_get_Cons obj_has_def split: option.splits)
qed (simp split: option.split)

lemma wf_obj_fold_keep:
  "wf_obj m \<Longrightarrow> wf_obj (foldl (\<lambda>m (i, v). if \<not> obj_has m i \<and> i \<in> own then obj_put m i v else m) m xs)"
  by (induction xs arbitrary: m) auto

lemma obj_get_mergeEntityMap:
  assumes "wf_obj current" "wf_obj snapshot"
  shows "obj_get (mergeEntityMap override current snapshot owned) k =
    (case obj_get snapshot k of
       Some e \<Rightarrow> Some (merged_row override current owned k e)
     | None \<Rightarrow> if k \<in> owned then obj_get current k else None)"
  unfolding mergeEntityMap_def Let_def obj_get_fold_keep [OF assms(1)]
  using obj_get_fold_put [OF assms(2), of "merged_row override current owned" "[]" k]
  by (simp split: option.splits)

lemma wf_obj_mergeEntityMap [simp]: "wf_obj (mergeEntityMap override current snapshot owned)"
  unfolding mergeEntityMap_def Let_def by (intro wf_obj_fold_keep wf_obj_fold_put) simp

lemma store_ok_merge_key:
  assumes "store_ok idf current" "\<And>m. v = Some m \<Longrightarrow> store_ok idf m"
  shows "store_ok idf (merge_key override owned current v)"
proof (cases v)
  case (Some m)
  with assms have "wf_obj current" "wf_obj m" "keyed idf current" "keyed idf m"
    by (auto simp: store_ok_def)
  then show ?thesis
    by (auto simp: Some merge_key_def store_ok_def keyed_by_def obj_get_mergeEntityMap merged_row_def
        split: option.splits if_splits)
qed (simp add: merge_key_def assms(1))

lemma obj_get_of_entries: "wf_obj ps \<Longrightarrow> obj_get (obj_of_entries ps) k = obj_get ps k"
  by (simp add: obj_of_entries_def obj_get_spread)

lemma obj_get_kept_rows:
  "wf_obj rows \<Longrightarrow> obj_get (kept_rows sid ref s rows) k =
     (case obj_get rows k of
        Some v \<Rightarrow> if sid v = s \<and> k \<notin> ref then None else Some v
      | None \<Rightarrow> None)"
  by (simp add: kept_rows_def obj_get_of_entries obj_get_filter expired_row_def split: option.split)

lemma store_ok_kept_rows [simp]: "store_ok idf rows \<Longrightarrow> store_ok idf (kept_rows sid ref s rows)"
  by (auto simp: store_ok_def keyed_by_def obj_get_kept_rows split: option.splits if_splits)
    (simp add: kept_rows_def)

section \<open>The invariant of the live store\<close>

definition opt_ok :: "('a \<Rightarrow> bool) \<Rightarrow> 'a option \<Rightarrow> bool" where
  "opt_ok P v \<longleftrightarrow> (case v of None \<Rightarrow> True | Some x \<Rightarrow> P x)"

text \<open>What the callers hand over: maps keyed by id, bounded histories.\<close>

definition snapshot_ok :: "snapshot \<Rightarrow> bool" where
  "snapshot_ok n \<longleftrightarrow>
     opt_ok (store_ok ws_id) (sn_workspaces n) \<and> opt_ok (store_ok ses_id) (sn_sessions n) \<and>
     opt_ok (store_ok run_id) (sn_runs n) \<and> opt_ok (store_ok msg_id) (sn_messages n) \<and>
     opt_ok (store_ok tool_id) (sn_tools n) \<and> opt_ok (store_ok apr_id) (sn_approvals n) \<and>
     opt_ok (store_ok qst_id) (sn_questions n) \<and> opt_ok (store_ok task_id) (sn_tasks n) \<and>
     opt_ok (store_ok sa_id) (sn_subagents n) \<and> opt_ok (store_ok art_id) (sn_artifacts n) \<and>
     opt_ok (store_ok us_session_id) (sn_usage n) \<and> opt_ok (store_ok sf_id) (sn_surfaces n) \<and>
     opt_ok (store_ok lc_surface_id) (sn_lifecycles n) \<and>
     opt_ok (store_ok dep_id) (sn_infrastructure n) \<and>
     opt_ok wf_compactions (sn_compactions n) \<and>
     opt_ok (\<lambda>r. wf_obj r \<and> wf_runs r) (sn_variant_runs n) \<and>
     opt_ok wf_obj (sn_revisions n) \<and>
     opt_ok (\<lambda>cs. distinct cs \<and> length cs \<le> MAX_CURSOR_HISTORY) (sn_processed_cursors n) \<and>
     opt_ok (\<lambda>gs. length gs \<le> MAX_GAP_HISTORY) (sn_gaps n)"

lemma opt_ok_coalesce: "opt_ok P v \<Longrightarrow> P x \<Longrightarrow> P (coalesce v x)"
  by (simp add: opt_ok_def coalesce_def split: option.splits)

lemma opt_okD: "opt_ok P v \<Longrightarrow> v = Some m \<Longrightarrow> P m"
  by (simp add: opt_ok_def)

lemmas coalesce_ok = opt_ok_coalesce [where P = "store_ok idf" for idf]
  opt_ok_coalesce [where P = wf_compactions] opt_ok_coalesce [where P = wf_obj]
  opt_ok_coalesce [where P = "\<lambda>r. wf_obj r \<and> wf_runs r", THEN conjunct1]
  opt_ok_coalesce [where P = "\<lambda>r. wf_obj r \<and> wf_runs r", THEN conjunct2]
  opt_ok_coalesce [where P = "\<lambda>cs. distinct cs \<and> length cs \<le> MAX_CURSOR_HISTORY", THEN conjunct1]
  opt_ok_coalesce [where P = "\<lambda>cs. distinct cs \<and> length cs \<le> MAX_CURSOR_HISTORY", THEN conjunct2]
  opt_ok_coalesce [where P = "\<lambda>gs. length gs \<le> MAX_GAP_HISTORY"]

lemma wf_spread_snapshot:
  assumes "wf_state e" "snapshot_ok n"
  shows "wf_state (spread_snapshot e n)"
  using assms unfolding wf_state_def wf_store_def wf_books_def snapshot_ok_def spread_snapshot_def
  by (simp add: coalesce_ok)

lemma wf_merge_entities:
  assumes "wf_state e" "snapshot_ok n"
  shows "wf_state (merge_entities parse_date e n)"
proof -
  note spread = wf_spread_snapshot [OF assms]
  have "wf_store e" using assms(1) by (simp add: wf_state_def)
  then show ?thesis
    using assms(2) spread
    unfolding merge_entities_def Let_def wf_state_def wf_store_def wf_books_def snapshot_ok_def
    by (auto intro!: store_ok_merge_key dest: opt_okD)
qed

lemma wf_map_entries: "wf_obj m \<Longrightarrow> wf_obj (map (\<lambda>(i, v). (i, f i v)) m)"
  by (simp add: wf_obj_def comp_def case_prod_beta)

lemma obj_get_map_entries: "obj_get (map (\<lambda>(i, v). (i, f v)) m) k = map_option f (obj_get m k)"
  by (induction m) (auto simp: obj_get_def)

definition unknown_unless_terminal :: "action_lifecycle \<Rightarrow> action_lifecycle" where
  "unknown_unless_terminal l = (if terminal_lifecycle (lc_status l) then l else l\<lparr>lc_status := LcUnknown\<rparr>)"

lemma markNonTerminal_get:
  assumes "wf_obj m"
  shows "obj_get (markNonTerminalA2uiLifecyclesUnknown m) k =
    map_option unknown_unless_terminal (obj_get m k)"
proof (cases "list_all (\<lambda>(_, l). terminal_lifecycle (lc_status l)) m")
  case True
  have "unknown_unless_terminal l = l" if "obj_get m k = Some l" for l
    using obj_get_entry [OF that] True by (auto simp: list_all_iff unknown_unless_terminal_def)
  with True show ?thesis
    by (cases "obj_get m k") (auto simp: markNonTerminalA2uiLifecyclesUnknown_def)
next
  case False
  have eq: "map (\<lambda>(i, l). if terminal_lifecycle (lc_status l) then (i, l)
        else (i, l\<lparr>lc_status := LcUnknown\<rparr>)) m = map (\<lambda>(i, l). (i, unknown_unless_terminal l)) m"
    by (auto simp: unknown_unless_terminal_def)
  show ?thesis
    using False wf_map_entries [OF assms, of "\<lambda>_. unknown_unless_terminal"]
    by (auto simp: markNonTerminalA2uiLifecyclesUnknown_def eq obj_get_of_entries obj_get_map_entries)
qed

lemma store_ok_markNonTerminal:
  assumes "store_ok lc_surface_id m"
  shows "store_ok lc_surface_id (markNonTerminalA2uiLifecyclesUnknown m)"
proof -
  have "wf_obj (markNonTerminalA2uiLifecyclesUnknown m)"
    using assms by (simp add: markNonTerminalA2uiLifecyclesUnknown_def store_ok_def)
  moreover have "lc_surface_id (unknown_unless_terminal l) = lc_surface_id l" for l
    by (simp add: unknown_unless_terminal_def)
  ultimately show ?thesis
    using assms by (auto simp: store_ok_def keyed_by_def markNonTerminal_get)
qed

lemma store_ok_without_models:
  "store_ok ses_id m \<Longrightarrow> store_ok ses_id (withoutEntitySessionModelReferences m)"
  using wf_map_entries [of m "\<lambda>_. withoutSessionModelReference"]
  by (auto simp: withoutEntitySessionModelReferences_def store_ok_def keyed_by_def
      obj_get_of_entries obj_get_map_entries withoutSessionModelReference_def)

lemma wf_kept_runs:
  "wf_obj rows \<Longrightarrow> wf_runs rows \<Longrightarrow> wf_runs (kept_rows sid ref s rows)"
  by (auto simp: wf_runs_def keyed_by_def obj_get_kept_rows split: option.splits if_splits)

lemma wf_obj_kept_rows [simp]: "wf_obj (kept_rows sid ref s rows)"
  by (simp add: kept_rows_def)

lemma wf_withoutSessionData:
  assumes "wf_state e"
  shows "wf_state (withoutSessionData e i)"
proof -
  have "store_ok lc_surface_id (obj_of_entries (es_lifecycles e))"
    using assms by (auto simp: wf_state_def wf_store_def store_ok_def keyed_by_def obj_get_of_entries)
  then show ?thesis
    using assms by (auto simp: wf_state_def wf_store_def wf_books_def withoutSessionData_def Let_def
        wf_kept_runs)
qed

definition live_ok :: "live_store \<Rightarrow> bool" where
  "live_ok st \<longleftrightarrow> wf_state (ls_entities st) \<and> length (ls_frameGaps st) \<le> MAX_RETAINED_FRAME_GAPS
     \<and> 0 \<le> ls_streamOwners st"

text \<open>One action of the store, with snapshots and hydrated runs as the callers build them.\<close>

inductive live_step :: "(string \<Rightarrow> string) \<Rightarrow> env \<Rightarrow> live_store \<Rightarrow> live_store \<Rightarrow> bool"
  for type_error env where
  claim: "live_step type_error env st (claimStream st)"
| release: "live_step type_error env st (releaseStream st)"
| stream: "live_step type_error env st (setStreamState st x)"
| stream_error: "live_step type_error env st (setStreamError st msg)"
| frames: "live_step type_error env st (applyFrames type_error env st fs)"
| replace: "snapshot_ok n \<Longrightarrow> live_step type_error env st (replaceSnapshots st n)"
| merge: "snapshot_ok n \<Longrightarrow> live_step type_error env st (mergeSnapshots (date_parse env) st n)"
| reconcile: "snapshot_ok n \<Longrightarrow> live_step type_error env st (reconcileSnapshots st n)"
| clear_models: "live_step type_error env st (clearSessionModelReferences st)"
| hydrate: "wf_obj runs \<Longrightarrow> wf_runs runs \<Longrightarrow> live_step type_error env st (hydrateVariantRuns st runs)"
| drop: "live_step type_error env st (dropSessionData st i)"
| reset: "live_step type_error env st (reset st)"

lemma wf_obj_mergeVariantRuns: "wf_obj p \<Longrightarrow> wf_obj (mergeVariantRuns live p)"
  unfolding mergeVariantRuns_def
  by (induction live arbitrary: p rule: rev_induct) (auto split: prod.splits)

lemma wf_state_upd [simp]:
  "wf_state (e\<lparr>es_stream := x\<rparr>) = wf_state e"
  by (simp add: wf_state_def wf_store_def wf_books_def)

lemma live_step_ok: "live_step type_error env st st' \<Longrightarrow> live_ok st \<Longrightarrow> live_ok st'"
proof (induction rule: live_step.induct)
  case (frames st fs)
  then show ?case
    using frames.contained_inv [of "ls_entities st" type_error env fs]
    by (simp add: live_ok_def applyFrames_def reduceFramesContained_def Let_def)
next
  case (reconcile n st)
  then have wf: "wf_state (spread_snapshot (ls_entities st) n)"
    and lc: "store_ok lc_surface_id (markNonTerminalA2uiLifecyclesUnknown (es_lifecycles (ls_entities st)))"
    by (auto simp: live_ok_def wf_state_def [of "ls_entities st"] wf_store_def
        intro: wf_spread_snapshot store_ok_markNonTerminal)
  with reconcile show ?case
    by (simp add: live_ok_def reconcileSnapshots_def wf_state_def wf_store_def wf_books_def)
next
  case (clear_models st)
  then show ?case
    by (simp add: live_ok_def clearSessionModelReferences_def wf_state_def wf_store_def wf_books_def
        store_ok_without_models)
next
  case (hydrate runs st)
  then show ?case
    by (simp add: live_ok_def hydrateVariantRuns_def wf_state_def wf_store_def wf_books_def
        wf_mergeVariantRuns wf_obj_mergeVariantRuns)
qed (simp_all add: live_ok_def claimStream_def releaseStream_def setStreamState_def
    setStreamError_def replaceSnapshots_def mergeSnapshots_def wf_spread_snapshot
    wf_merge_entities dropSessionData_def wf_withoutSessionData reset_def)

section \<open>Properties\<close>

lemma live_reachable_ok: "rtranclp (live_step type_error env) initial_store st \<Longrightarrow> live_ok st"
proof (induction rule: rtranclp_induct)
  case base
  show ?case by (simp add: live_ok_def initial_store_def)
qed (rule live_step_ok)

text \<open>
  C16. Whatever sequence of actions the application takes, the live store stays well formed:
  every entity map keyed by its rows' ids, bounded cursor and gap histories, at most 100
  retained frame gaps, and a count of open streams that is never negative.
\<close>
theorem live_store_stays_well_formed:
  assumes "rtranclp (live_step type_error env) initial_store st"
  shows "wf_store (ls_entities st) \<and> length (es_processed_cursors (ls_entities st)) \<le> 2048
    \<and> length (es_gaps (ls_entities st)) \<le> 100 \<and> length (ls_frameGaps st) \<le> 100
    \<and> 0 \<le> ls_streamOwners st"
  using live_reachable_ok [OF assms]
  by (simp add: live_ok_def wf_state_def wf_books_def MAX_CURSOR_HISTORY_def MAX_GAP_HISTORY_def
      MAX_RETAINED_FRAME_GAPS_def)

theorem live_store_stays_well_formed_witness:
  "0 \<le> ls_streamOwners (dropSessionData (releaseStream (releaseStream initial_store)) ''s'')"
proof -
  have "rtranclp (live_step (\<lambda>p. p) ex_env) initial_store
      (dropSessionData (releaseStream (releaseStream initial_store)) ''s'')"
    by (meson live_step.drop live_step.release rtranclp.rtrancl_into_rtrancl rtranclp.rtrancl_refl)
  from live_store_stays_well_formed [OF this] show ?thesis by blast
qed



text \<open>
  A lost terminal frame cannot pin a session at running: when the live store holds a
  session as queued, running or waiting and a snapshot reports a terminal state that is not
  older, the merge takes the snapshot's session even though the stream owns the row; an older
  report leaves a stream-owned row as it is.
\<close>
lemma terminal_session_snapshot_wins:
  assumes "live_ok st" "snapshot_ok n" "sn_sessions n = Some m"
    and "obj_get m k = Some s" "obj_get (es_sessions (ls_entities st)) k = Some p"
    and "ses_state s \<in> {RunCompleted, RunFailed, RunCancelled, RunInterrupted}"
    and "ses_state p \<in> {RunQueued, RunRunning, RunWaitingPermission, RunWaitingUser}"
  shows "(str_ge (ses_updated_at s) (ses_updated_at p) \<longrightarrow>
        obj_get (es_sessions (ls_entities (mergeSnapshots dp st n))) k = Some s)
    \<and> (\<not> str_ge (ses_updated_at s) (ses_updated_at p) \<and> k \<in> set (obj_keys (es_revisions (ls_entities st))) \<longrightarrow>
        obj_get (es_sessions (ls_entities (mergeSnapshots dp st n))) k = Some p)"
proof -
  have wf: "wf_obj (es_sessions (ls_entities st))" "wf_obj m"
    using assms(1-3) by (auto simp: live_ok_def wf_state_def wf_store_def snapshot_ok_def opt_ok_def
        store_ok_def)
  show ?thesis
    using assms(3-7)
    by (auto simp: mergeSnapshots_def merge_entities_def Let_def merge_key_def
        obj_get_mergeEntityMap [OF wf] merged_row_def terminalSessionSnapshot_def streamOwnedIds_def)
qed

definition empty_snapshot :: snapshot where
  "empty_snapshot = \<lparr>sn_connection = None, sn_capabilities = None, sn_stream = None,
     sn_streamGaps = None, sn_cursor = None, sn_workspaces = None, sn_sessions = None,
     sn_runs = None, sn_messages = None, sn_tools = None, sn_approvals = None,
     sn_questions = None, sn_tasks = None, sn_subagents = None, sn_artifacts = None,
     sn_providers = None, sn_usage = None, sn_context = None, sn_surfaces = None,
     sn_lifecycles = None, sn_infrastructure = None, sn_compactions = None,
     sn_variant_runs = None, sn_active_turns = None, sn_responded_turns = None,
     sn_revisions = None, sn_processed_cursors = None, sn_gaps = None\<rparr>"

lemma empty_snapshot_ok [simp]: "snapshot_ok empty_snapshot"
  by (simp add: snapshot_ok_def empty_snapshot_def opt_ok_def)

definition ex_session :: "run_state \<Rightarrow> string \<Rightarrow> session" where
  "ex_session st at1 = \<lparr>ses_id = ''s'', ses_workspace_id = ''w'', ses_title = [], ses_state = st,
     ses_created_at = ''1'', ses_updated_at = at1, ses_last_interaction_at = None,
     ses_message_count = None, ses_tokens_input = None, ses_tokens_output = None,
     ses_cost_usd = None, ses_provider_id = None, ses_model_id = None, ses_effort = None,
     ses_branch = None, ses_parent_session_id = None, ses_session_kind = None,
     ses_agent_id = None, ses_metadata = None, ses_mode = ModePlan, ses_edit_mode = EditDiff,
     ses_routing_mode = RouteAuto, ses_approval_mode = ApproveAsk, ses_pinned = False,
     ses_archived = False\<rparr>"

lemma store_ok_one [simp]: "store_ok idf [(i, v)] \<longleftrightarrow> idf v = i"
  by (auto simp: store_ok_def wf_obj_def keyed_by_def obj_get_Cons)

definition ex_running_store :: live_store where
  "ex_running_store = initial_store\<lparr>ls_entities := createEntityState\<lparr>
     es_sessions := [(''s'', ex_session RunRunning ''2'')], es_revisions := [(''s'', 3)]\<rparr>\<rparr>"

lemma ex_running_store_ok: "live_ok ex_running_store"
  by (simp add: ex_running_store_def live_ok_def initial_store_def wf_state_def wf_store_def
      wf_books_def createEntityState_def wf_compactions_def objs.keyed_empty ex_session_def wf_obj_def)

text \<open>
  A reconcile forgets the thread it lost: afterwards no cursor is remembered, so no frame
  is taken for a replay; no action lifecycle claims a state that can still change; the terminal
  ones are kept as they were; and the revision watermark is the snapshot's when it carries one,
  the old one otherwise.
\<close>
lemma reconcile_forgets_the_lost_thread:
  assumes "live_ok st"
  shows "es_processed_cursors (ls_entities (reconcileSnapshots st n)) = []
    \<and> es_cursor (ls_entities (reconcileSnapshots st n)) = None
    \<and> (\<forall>l. obj_get (es_lifecycles (ls_entities (reconcileSnapshots st n))) k = Some l \<longrightarrow>
          terminal_lifecycle (lc_status l) \<or> lc_status l = LcUnknown)
    \<and> (\<forall>l. obj_get (es_lifecycles (ls_entities st)) k = Some l \<and> terminal_lifecycle (lc_status l) \<longrightarrow>
          obj_get (es_lifecycles (ls_entities (reconcileSnapshots st n))) k = Some l)
    \<and> es_revisions (ls_entities (reconcileSnapshots st n)) =
        (case sn_revisions n of Some r \<Rightarrow> r | None \<Rightarrow> es_revisions (ls_entities st))"
proof -
  have "wf_obj (es_lifecycles (ls_entities st))"
    using assms by (simp add: live_ok_def wf_state_def wf_store_def store_ok_def)
  note get = markNonTerminal_get [OF this, of k]
  have "terminal_lifecycle (lc_status (unknown_unless_terminal l)) \<or>
      lc_status (unknown_unless_terminal l) = LcUnknown" for l
    by (simp add: unknown_unless_terminal_def)
  moreover have "terminal_lifecycle (lc_status l) \<Longrightarrow> unknown_unless_terminal l = l" for l
    by (simp add: unknown_unless_terminal_def)
  ultimately show ?thesis
    by (auto simp: reconcileSnapshots_def get spread_snapshot_def coalesce_def split: option.splits)
qed

text \<open>
  Dropping a session's data removes exactly its unreferenced rows: a message, tool or run
  of the session is dropped unless a block of another session's message names its id, every
  row of another session and every session, approval and question is kept, the revision of a
  dropped message is forgotten, and the action lifecycles are all kept.
\<close>
lemma dropped_session_data_exact:
  assumes "wf_state e"
  shows "(obj_get (es_messages (withoutSessionData e i)) k = Some m \<longleftrightarrow>
        obj_get (es_messages e) k = Some m \<and> (msg_session_id m \<noteq> i \<or> k \<in> referenced_ids e i))
    \<and> (obj_get (es_tools (withoutSessionData e i)) k = Some t \<longleftrightarrow>
        obj_get (es_tools e) k = Some t \<and> (tool_session_id t \<noteq> i \<or> k \<in> referenced_ids e i))
    \<and> (obj_get (es_runs (withoutSessionData e i)) k = Some r \<longleftrightarrow>
        obj_get (es_runs e) k = Some r \<and> (run_session_id r \<noteq> i \<or> k \<in> referenced_ids e i))
    \<and> es_sessions (withoutSessionData e i) = es_sessions e
    \<and> es_approvals (withoutSessionData e i) = es_approvals e
    \<and> es_questions (withoutSessionData e i) = es_questions e
    \<and> (obj_get (es_messages e) k = Some m \<and> obj_get (es_messages (withoutSessionData e i)) k = None
        \<longrightarrow> obj_get (es_revisions (withoutSessionData e i)) k = None)
    \<and> obj_get (es_lifecycles (withoutSessionData e i)) k = obj_get (es_lifecycles e) k"
proof -
  have wf: "wf_obj (es_messages e)" "wf_obj (es_tools e)" "wf_obj (es_runs e)"
    "wf_obj (es_lifecycles e)" "wf_obj (es_revisions e)"
    using assms by (auto simp: wf_state_def wf_store_def wf_books_def store_ok_def)
  have "k \<in> removed_ids msg_session_id (referenced_ids e i) i (es_messages e)"
    if "obj_get (es_messages e) k = Some m" "obj_get (es_messages (withoutSessionData e i)) k = None"
    using that wf(1)
    by (auto simp: withoutSessionData_def Let_def obj_get_kept_rows removed_ids_def set_obj_keys
        obj_get_filter expired_row_def split: if_splits)
  then have "obj_get (es_revisions (withoutSessionData e i)) k = None"
    if "obj_get (es_messages e) k = Some m" "obj_get (es_messages (withoutSessionData e i)) k = None"
    using that wf(5)
    by (simp add: withoutSessionData_def Let_def obj_get_of_entries obj_get_filter_key)
  with wf(1-4) show ?thesis
    by (auto simp: withoutSessionData_def Let_def obj_get_kept_rows obj_get_of_entries
        split: option.splits if_splits)
qed

end
