(* ===== verification/Event_Stream.thy ===== *)
theory Event_Stream
  imports Entity_State "HOL-Library.Sublist"
begin

text \<open>
  \<open>web/src/lib/transport/browser-transport.ts\<close> and \<open>tauri-transport.ts\<close>: the two ways frames
  reach the client. The browser transport cuts the text of an event stream into blocks as it
  arrives; the desktop transport queues what the native bridge delivers. Both turn a
  response into a value or a typed transport error.

  \<open>JSON.parse\<close> is the argument \<open>parse\<close>: nothing is assumed of it but that it returns a value or
  throws. Text arrives already decoded (the byte decoder keeps incomplete characters back).
  Fetching, headers and the abort signal are input and output.
\<close>

section \<open>Cutting the stream into blocks\<close>

abbreviation CR :: char where "CR \<equiv> CHR 0x0D"

abbreviation LF :: char where "LF \<equiv> CHR 0x0A"

definition boundary_candidates :: "string \<Rightarrow> (nat \<times> nat) list" where
  "boundary_candidates buffer =
     concat (map (\<lambda>pat. case index_of pat buffer of None \<Rightarrow> [] | Some i \<Rightarrow> [(i, length pat)])
       [[CR, LF, CR, LF], [LF, LF], [CR, CR]])"

text \<open>Where the first block ends and where the text after it starts.\<close>

definition eventBoundary :: "string \<Rightarrow> (nat \<times> nat) option" where
  "eventBoundary buffer = (case js_sort (by_key (\<lambda>c. int (fst c))) (boundary_candidates buffer) of
       [] \<Rightarrow> None
     | (i, n) # _ \<Rightarrow> Some (i, i + n))"

text \<open>\<open>block.split(/\r?\n/)\<close>\<close>

fun split_lines :: "string \<Rightarrow> string \<Rightarrow> string list" where
  "split_lines cur [] = [cur]"
| "split_lines cur (c # s) =
     (if c = LF then cur # split_lines [] s
      else if c = CR \<and> s \<noteq> [] \<and> hd s = LF then cur # split_lines [] (tl s)
      else split_lines (cur @ [c]) s)"

record event_fields =
  ef_cursor :: string
  ef_eventName :: string
  ef_data :: "string list"

definition parse_line :: "event_fields \<Rightarrow> string \<Rightarrow> event_fields" where
  "parse_line f rawLine =
     (if rawLine = [] \<or> starts_with '':'' rawLine then f
      else let sep = index_of '':'' rawLine;
               field = (case sep of None \<Rightarrow> rawLine | Some i \<Rightarrow> take i rawLine);
               rawValue = (case sep of None \<Rightarrow> [] | Some i \<Rightarrow> drop (Suc i) rawLine);
               val = (if starts_with '' '' rawValue then tl rawValue else rawValue);
               f1 = (if field = ''id'' then f\<lparr>ef_cursor := val\<rparr> else f);
               f2 = (if field = ''event'' then f1\<lparr>ef_eventName := val\<rparr> else f1)
           in if field = ''data'' then f2\<lparr>ef_data := ef_data f2 @ [val]\<rparr> else f2)"

record stream_event =
  se_cursor :: string
  se_eventName :: string
  se_data :: js_value

type_synonym json_parser = "string \<Rightarrow> js_value result"

definition parseEventBlock :: "json_parser \<Rightarrow> string \<Rightarrow> stream_event option result" where
  "parseEventBlock parse block =
     (let f = foldl parse_line \<lparr>ef_cursor = [], ef_eventName = ''message'', ef_data = []\<rparr> (split_lines [] block)
      in if ef_data f = [] then Inr None
         else bindR (parse (join_with [LF] (ef_data f))) (\<lambda>v.
                Inr (Some \<lparr>se_cursor = ef_cursor f, se_eventName = ef_eventName f, se_data = v\<rparr>)))"

section \<open>The browser stream\<close>

lemma index_of_bound: "index_of pat s = Some i \<Longrightarrow> i < length s"
  by (induction pat s arbitrary: i rule: index_of.induct) (auto split: if_splits)

lemma boundary_candidates_bound: "(i, n) \<in> set (boundary_candidates s) \<Longrightarrow> i < length s \<and> 2 \<le> n"
  by (auto simp: boundary_candidates_def split: option.splits dest: index_of_bound [OF sym] index_of_bound)

lemma eventBoundary_bound:
  assumes "eventBoundary s = Some (e, n)"
  shows "e < length s \<and> 0 < n"
proof -
  from assms obtain l rest where l: "js_sort (by_key (\<lambda>c. int (fst c))) (boundary_candidates s) = (e, l) # rest" "n = e + l"
    by (auto simp: eventBoundary_def split: list.splits)
  then have "(e, l) \<in> set (boundary_candidates s)"
    by (metis list.set_intros(1) set_js_sort)
  from boundary_candidates_bound [OF this] l(2) show ?thesis by simp
qed

text \<open>
  What the buffer yields: the events of its complete blocks, then either what a block threw or
  the text that is left.
\<close>

function drain :: "json_parser \<Rightarrow> string \<Rightarrow> stream_event list \<times> string result" where
  "drain parse buffer = (case eventBoundary buffer of
       None \<Rightarrow> ([], Inr buffer)
     | Some (e, n) \<Rightarrow>
         (case parseEventBlock parse (take e buffer) of
            Inl err \<Rightarrow> ([], Inl err)
          | Inr None \<Rightarrow> drain parse (drop n buffer)
          | Inr (Some event) \<Rightarrow> (case drain parse (drop n buffer) of (es, r) \<Rightarrow> (event # es, r))))"
  by pat_completeness auto
termination
  by (relation "measure (\<lambda>(_, buffer). length buffer)") (auto dest: eventBoundary_bound)

declare drain.simps [simp del]

fun stream_chunks :: "json_parser \<Rightarrow> string \<Rightarrow> string list \<Rightarrow> stream_event list \<times> string result" where
  "stream_chunks parse buffer [] = ([], Inr buffer)"
| "stream_chunks parse buffer (chunk # chunks) =
     (case drain parse (buffer @ chunk) of
        (es, Inl err) \<Rightarrow> (es, Inl err)
      | (es, Inr rest) \<Rightarrow> (case stream_chunks parse rest chunks of (es', r) \<Rightarrow> (es @ es', r)))"

text \<open>The frames, each stamped with the clock when it was yielded.\<close>

definition stamped_frame :: "string \<Rightarrow> stream_event \<Rightarrow> transport_frame" where
  "stamped_frame now e = \<lparr>fr_cursor = se_cursor e, fr_eventName = se_eventName e, fr_data = se_data e,
     fr_receivedAt = now\<rparr>"

definition stream_frames :: "(nat \<Rightarrow> string) \<Rightarrow> stream_event list \<Rightarrow> transport_frame list" where
  "stream_frames now es = map (\<lambda>(i, e). stamped_frame (now i) e) (zip [0..<length es] es)"

section \<open>A block ends at the first separator\<close>

definition separator_length :: "string \<Rightarrow> nat option" where
  "separator_length s = (if starts_with [CR, LF, CR, LF] s then Some 4
     else if starts_with [LF, LF] s \<or> starts_with [CR, CR] s then Some 2 else None)"

fun scan_boundary :: "string \<Rightarrow> (nat \<times> nat) option" where
  "scan_boundary [] = None"
| "scan_boundary (c # s) = (case separator_length (c # s) of
       Some n \<Rightarrow> Some (0, n)
     | None \<Rightarrow> map_option (\<lambda>(e, n). (Suc e, Suc n)) (scan_boundary s))"

lemma starts_with_same: "starts_with (p # pat) s \<Longrightarrow> starts_with (q # qat) s \<Longrightarrow> p = q"
  by (cases s) auto

lemma index_of_shift: "\<not> starts_with pat (c # s) \<Longrightarrow> index_of pat (c # s) = map_option Suc (index_of pat s)"
  by simp

text \<open>The first of the three candidates, by their positions.\<close>

definition first_of :: "nat option \<Rightarrow> nat option \<Rightarrow> nat option \<Rightarrow> (nat \<times> nat) option" where
  "first_of a b c = (case js_sort (by_key (\<lambda>x. int (fst x)))
       ((case a of None \<Rightarrow> [] | Some i \<Rightarrow> [(i, 4)]) @ (case b of None \<Rightarrow> [] | Some i \<Rightarrow> [(i, 2)])
        @ (case c of None \<Rightarrow> [] | Some i \<Rightarrow> [(i, 2)])) of
       [] \<Rightarrow> None | (i, n) # _ \<Rightarrow> Some (i, i + n))"

lemma eventBoundary_first_of:
  "eventBoundary s = first_of (index_of [CR, LF, CR, LF] s) (index_of [LF, LF] s) (index_of [CR, CR] s)"
  by (simp add: eventBoundary_def boundary_candidates_def first_of_def eval_nat_numeral cong: option.case_cong)

lemma first_of_shift:
  "first_of (map_option Suc a) (map_option Suc b) (map_option Suc c)
     = map_option (\<lambda>(e, n). (Suc e, Suc n)) (first_of a b c)"
  by (cases a; cases b; cases c) (simp_all add: first_of_def by_key_def)

lemma first_of_now:
  "first_of (Some 0) (map_option Suc b) (map_option Suc c) = Some (0, 4)"
  "first_of (map_option Suc a) (Some 0) (map_option Suc c) = Some (0, 2)"
  "first_of (map_option Suc a) (map_option Suc b) (Some 0) = Some (0, 2)"
  by (cases a; cases b; cases c; simp add: first_of_def by_key_def)+

lemma eventBoundary_scan: "eventBoundary s = scan_boundary s"
proof (induction s)
  case Nil
  show ?case by (simp add: eventBoundary_first_of first_of_def)
next
  case (Cons c s)
  show ?case
  proof (cases "separator_length (c # s)")
    case None
    then have "\<not> starts_with [CR, LF, CR, LF] (c # s)" "\<not> starts_with [LF, LF] (c # s)" "\<not> starts_with [CR, CR] (c # s)"
      by (auto simp: separator_length_def split: if_splits)
    with Cons None show ?thesis
      by (simp add: eventBoundary_first_of first_of_shift index_of_shift del: index_of.simps starts_with_simps)
  next
    case (Some n)
    then consider "starts_with [CR, LF, CR, LF] (c # s)" "n = 4" | "starts_with [LF, LF] (c # s)" "n = 2"
      | "starts_with [CR, CR] (c # s)" "n = 2"
      by (auto simp: separator_length_def split: if_splits)
    then show ?thesis
      using Some by cases (auto simp: eventBoundary_first_of first_of_now dest: starts_with_same)
  qed
qed

text \<open>Text that arrives later does not move a boundary that was found.\<close>

lemma separator_length_append: "separator_length s = Some n \<Longrightarrow> separator_length (s @ t) = Some n"
  by (cases s; cases "tl s"; cases "tl (tl s)"; cases "tl (tl (tl s))")
    (auto simp: separator_length_def split: if_splits)

lemma separator_late:
  "separator_length (c # s) = None \<Longrightarrow> separator_length (c # s @ t) = Some n \<Longrightarrow> scan_boundary s = None"
  by (cases s; cases "tl s"; cases "tl (tl s)")
    (auto simp: separator_length_def split: if_splits)

lemma scan_boundary_append: "scan_boundary s = Some b \<Longrightarrow> scan_boundary (s @ t) = Some b"
proof (induction s arbitrary: b)
  case (Cons c s)
  show ?case
  proof (cases "separator_length (c # s)")
    case (Some n)
    with separator_length_append [OF Some, of t] Cons.prems show ?thesis by simp
  next
    case None
    with Cons.prems obtain b' where b': "scan_boundary s = Some b'" "b = (Suc (fst b'), Suc (snd b'))"
      by (auto simp: split_beta)
    have "separator_length (c # s @ t) = None"
      using separator_late [OF None, of t] b'(1) by (cases "separator_length (c # s @ t)") auto
    with Cons.IH [OF b'(1)] b'(2) show ?thesis by (simp add: split_beta)
  qed
qed simp

lemma scan_boundary_within: "scan_boundary s = Some (e, n) \<Longrightarrow> e \<le> length s \<and> n \<le> length s"
proof (induction s arbitrary: e n)
  case (Cons c s)
  then show ?case
    by (cases "separator_length (c # s)")
      (auto simp: separator_length_def starts_with_def split: if_splits dest: arg_cong [of _ _ length])
qed simp

section \<open>Chunks do not matter\<close>

definition more_events :: "stream_event list \<Rightarrow> stream_event list \<times> string result \<Rightarrow> stream_event list \<times> string result" where
  "more_events es r = (case r of (es', x) \<Rightarrow> (es @ es', x))"

lemma drain_append:
  "drain parse (b @ t) = (case drain parse b of
     (es, Inl err) \<Rightarrow> (es, Inl err) | (es, Inr rest) \<Rightarrow> more_events es (drain parse (rest @ t)))"
proof (induction parse b rule: drain.induct)
  case (1 parse b)
  show ?case
  proof (cases "eventBoundary b")
    case None
    then show ?thesis by (simp add: drain.simps [of parse b] more_events_def)
  next
    case (Some en)
    obtain e n where en: "en = (e, n)" by (cases en)
    with Some have b: "scan_boundary b = Some (e, n)" by (simp add: eventBoundary_scan)
    have bt: "eventBoundary (b @ t) = Some (e, n)"
      using scan_boundary_append [OF b] by (simp add: eventBoundary_scan)
    have cut: "take e (b @ t) = take e b" "drop n (b @ t) = drop n b @ t"
      using scan_boundary_within [OF b] by auto
    show ?thesis
      using 1 Some en bt cut
      by (auto simp: drain.simps [of parse b] drain.simps [of parse "b @ t"] more_events_def
          split: sum.splits option.splits prod.splits)
  qed
qed

lemma more_events_simps [simp]:
  "more_events es (es', x) = (es @ es', x)" "more_events [] r = r"
  "more_events es (more_events es' r) = more_events (es @ es') r"
  by (simp_all add: more_events_def split_beta)

text \<open>What is left over holds no complete block.\<close>

lemma drain_rest: "drain parse b = (es, Inr rest) \<Longrightarrow> eventBoundary rest = None"
proof (induction parse b arbitrary: es rule: drain.induct)
  case (1 parse b)
  then show ?case
    by (subst (asm) (2) drain.simps) (auto split: option.splits sum.splits prod.splits)
qed

lemma drain_nothing: "eventBoundary b = None \<Longrightarrow> drain parse b = ([], Inr b)"
  by (simp add: drain.simps)

lemma stream_chunks_drain:
  "eventBoundary b = None \<Longrightarrow> stream_chunks parse b chunks = drain parse (b @ concat chunks)"
proof (induction chunks arbitrary: b)
  case Nil
  then show ?case by (simp add: drain_nothing)
next
  case (Cons c chunks)
  show ?case
  proof (cases "drain parse (b @ c)")
    case (Pair es r)
    show ?thesis
    proof (cases r)
      case (Inl e)
      with Pair show ?thesis
        using drain_append [of parse "b @ c" "concat chunks"] by simp
    next
      case (Inr rest)
      with Pair Cons.IH [OF drain_rest] show ?thesis
        using drain_append [of parse "b @ c" "concat chunks"] by (simp add: more_events_def)
    qed
  qed
qed

text \<open>
  How the network cuts the text of an event stream into chunks makes no difference: reading
  it chunk by chunk, the browser transport yields the events, raises the error and keeps the
  unfinished text it would if the whole text had arrived at once. In particular a separator
  that is itself cut in two (\<open>\r\n\r\n\<close> has three places for that) is recognised.
\<close>
lemma chunks_make_no_difference:
  "stream_chunks parse [] chunks = drain parse (concat chunks)"
  by (rule stream_chunks_drain [where b = "[]", simplified]) (simp add: eventBoundary_scan)

section \<open>What the server wrote is what is read\<close>

text \<open>
  The wire form of an event: an \<open>id\<close> line, an \<open>event\<close> line and the lines of its data, ended by
  an empty line. A field is one line when it holds no line break.
\<close>

definition one_line :: "string \<Rightarrow> bool" where
  "one_line s \<longleftrightarrow> CR \<notin> set s \<and> LF \<notin> set s"

definition wire_lines :: "string \<Rightarrow> string \<Rightarrow> string list \<Rightarrow> string list" where
  "wire_lines cursor name ls = (''id: '' @ cursor) # (''event: '' @ name) # map ((@) ''data: '') ls"

definition wire_event :: "string \<times> string \<times> string list \<Rightarrow> string" where
  "wire_event w = (case w of (cursor, name, ls) \<Rightarrow> join_with [LF] (wire_lines cursor name ls) @ [LF, LF])"

definition wf_wire :: "string \<times> string \<times> string list \<Rightarrow> bool" where
  "wf_wire w = (case w of (cursor, name, ls) \<Rightarrow> one_line cursor \<and> one_line name \<and> list_all one_line ls \<and> ls \<noteq> [])"

text \<open>The event a wire form denotes, when its data is a JSON text.\<close>

definition wire_value :: "json_parser \<Rightarrow> string \<times> string \<times> string list \<Rightarrow> stream_event result" where
  "wire_value parse w = (case w of (cursor, name, ls) \<Rightarrow>
     bindR (parse (join_with [LF] ls)) (\<lambda>v. Inr \<lparr>se_cursor = cursor, se_eventName = name, se_data = v\<rparr>))"

lemma scan_line:
  "one_line l \<Longrightarrow> scan_boundary (l @ s) = map_option (\<lambda>b. (length l + fst b, length l + snd b)) (scan_boundary s)"
  by (induction l) (auto simp: one_line_def separator_length_def option.map_comp comp_def split_beta option.map_ident)

lemma scan_lines:
  "list_all (\<lambda>l. one_line l \<and> l \<noteq> []) ls \<Longrightarrow> ls \<noteq> [] \<Longrightarrow>
     scan_boundary (join_with [LF] ls @ LF # LF # s)
       = Some (length (join_with [LF] ls), length (join_with [LF] ls) + 2)"
proof (induction "[LF]" ls rule: join_with.induct)
  case (2 l)
  then show ?case by (simp add: scan_line separator_length_def)
next
  case (3 l l' ls)
  obtain c t where t: "join_with [LF] (l' # ls) = c # t" "c \<noteq> LF"
    using 3(2) by (cases l'; cases ls) (auto simp: one_line_def)
  have "scan_boundary (LF # c # t @ LF # LF # s) = Some (Suc (length (c # t)), Suc (length (c # t) + 2))"
    using 3 t by (simp add: separator_length_def)
  with 3 t show ?case by (simp add: scan_line)
qed simp

lemma split_one_line: "one_line l \<Longrightarrow> split_lines cur (l @ s) = (if s = [] then [cur @ l] else split_lines (cur @ l) s)"
  by (induction l arbitrary: cur) (auto simp: one_line_def)

lemma split_joined: "list_all one_line ls \<Longrightarrow> ls \<noteq> [] \<Longrightarrow> split_lines [] (join_with [LF] ls) = ls"
proof (induction "[LF]" ls rule: join_with.induct)
  case (2 l)
  then show ?case using split_one_line [of l "[]" "[]"] by simp
next
  case (3 l l' ls)
  then show ?case by (simp add: split_one_line)
qed simp

lemma parse_wire_line:
  "parse_line f (''id: '' @ x) = f\<lparr>ef_cursor := x\<rparr>"
  "parse_line f (''event: '' @ x) = f\<lparr>ef_eventName := x\<rparr>"
  "parse_line f (''data: '' @ x) = f\<lparr>ef_data := ef_data f @ [x]\<rparr>"
  by (simp_all add: parse_line_def)

lemma parse_data_lines:
  "foldl parse_line f (map ((@) ''data: '') ls) = f\<lparr>ef_data := ef_data f @ ls\<rparr>"
  by (induction ls arbitrary: f) (simp_all add: parse_line_def)

lemma wire_lines_ok:
  assumes "wf_wire (cursor, name, ls)"
  shows "list_all (\<lambda>l. one_line l \<and> l \<noteq> []) (wire_lines cursor name ls)" "wire_lines cursor name ls \<noteq> []"
  using assms by (auto simp: wf_wire_def wire_lines_def one_line_def list_all_iff)

lemma parse_wire_block:
  assumes "wf_wire (cursor, name, ls)"
  shows "parseEventBlock parse (join_with [LF] (wire_lines cursor name ls))
    = bindR (wire_value parse (cursor, name, ls)) (\<lambda>e. Inr (Some e))"
proof -
  have "split_lines [] (join_with [LF] (wire_lines cursor name ls)) = wire_lines cursor name ls"
    using wire_lines_ok [OF assms] by (intro split_joined) (auto simp: list_all_iff)
  moreover have "foldl parse_line f (wire_lines cursor name ls)
      = f\<lparr>ef_cursor := cursor, ef_eventName := name, ef_data := ef_data f @ ls\<rparr>" for f
    unfolding wire_lines_def foldl_Cons parse_wire_line parse_data_lines by simp
  ultimately show ?thesis
    using assms by (cases "parse (join_with [LF] ls)") (simp_all add: parseEventBlock_def wire_value_def wf_wire_def)
qed

lemma drain_wire:
  assumes "wf_wire w" "wire_value parse w = Inr e"
  shows "drain parse (wire_event w @ s) = more_events [e] (drain parse s)"
proof -
  obtain cursor name ls where w: "w = (cursor, name, ls)" by (cases w)
  let ?b = "join_with [LF] (wire_lines cursor name ls)"
  have "eventBoundary (?b @ LF # LF # s) = Some (length ?b, length ?b + 2)"
    unfolding eventBoundary_scan using assms(1) w by (intro scan_lines wire_lines_ok) simp_all
  then show ?thesis
    using assms w parse_wire_block [of cursor name ls parse]
    by (subst drain.simps) (simp add: wire_event_def more_events_def)
qed

lemma drain_wires:
  "list_all wf_wire ws \<Longrightarrow> map (wire_value parse) ws = map Inr es \<Longrightarrow>
     drain parse (concat (map wire_event ws) @ s) = more_events es (drain parse s)"
proof (induction ws arbitrary: es)
  case (Cons w ws)
  then obtain e es' where "es = e # es'" by (cases es) auto
  with Cons show ?case by (simp add: drain_wire)
qed simp

text \<open>
  C13. Events come through the wire intact. When the server writes events whose fields are single
  lines and whose data is JSON text, and the network delivers that text in any chunks, followed
  by the beginning of an unfinished event, the transport yields exactly those events in order,
  each with its cursor, its name and the value of its data, and raises nothing.
\<close>
theorem event_stream_round_trip:
  assumes "list_all wf_wire ws" "map (wire_value parse) ws = map Inr es"
    and "concat chunks = concat (map wire_event ws) @ partial" "eventBoundary partial = None"
  shows "stream_chunks parse [] chunks = (es, Inr partial)"
proof -
  have "stream_chunks parse [] chunks = drain parse (concat (map wire_event ws) @ partial)"
    using stream_chunks_drain [of "[]" parse chunks] assms(3) by (simp add: eventBoundary_scan)
  also have "\<dots> = (es, Inr partial)"
    using drain_wires [OF assms(1,2), of partial] drain_nothing [OF assms(4), of parse] by simp
  finally show ?thesis .
qed

definition ex_wire :: "string \<times> string \<times> string list" where
  "ex_wire = (''7'', ''run.started'', [''{'', ''}''])"

definition ex_parse :: json_parser where
  "ex_parse s = (if s = ''{'' @ [LF] @ ''}'' then Inr (JObj []) else Inl (PlainError ''Unexpected token''))"

definition ex_chunks :: "string list" where
  "ex_chunks = [''id: 7'' @ [LF] @ ''event: run.st'', ''arted'' @ [LF] @ ''data: {'' @ [LF] @ ''data: }'' @ [LF],
     [LF] @ '': keep'']"

theorem event_stream_round_trip_witness:
  "stream_chunks ex_parse [] ex_chunks
     = ([\<lparr>se_cursor = ''7'', se_eventName = ''run.started'', se_data = JObj []\<rparr>], Inr '': keep'')"
  by (rule event_stream_round_trip [where ws = "[ex_wire]"])
    (simp_all add: wf_wire_def ex_wire_def one_line_def wire_value_def ex_parse_def ex_chunks_def wire_event_def
      wire_lines_def eventBoundary_scan separator_length_def)

section \<open>The desktop bridge\<close>

datatype bridge_kind = BridgeOpen | BridgeEvent | BridgeError | BridgeClosed

record bridge_message =
  bm_kind :: bridge_kind
  bm_data :: "string option"
  bm_id :: "string option"
  bm_message :: "string option"

record transport_error =
  te_message :: string
  te_status :: "nat option"
  te_code :: "string option"
  te_details :: js_value

datatype stream_failure = StreamThrew js_error | StreamRefused transport_error | StreamAborted

datatype bridge_end = StreamReturned | StreamFailed stream_failure

text \<open>The variables of one call of \<open>stream\<close>, with the frames it has yielded.\<close>

record bridge_run =
  br_queued :: "transport_frame list"
  br_failure :: "stream_failure option"
  br_closed :: bool
  br_aborted :: bool
  br_yielded :: "transport_frame list"
  br_ended :: "bridge_end option"

definition bridge_start :: bridge_run where
  "bridge_start = \<lparr>br_queued = [], br_failure = None, br_closed = False, br_aborted = False, br_yielded = [],
     br_ended = None\<rparr>"

definition native_event_name :: "js_value \<Rightarrow> string" where
  "native_event_name v = (case v of
       JObj o1 \<Rightarrow> (case obj_get o1 ''type'' of Some (JStr s) \<Rightarrow> s | _ \<Rightarrow> [])
     | _ \<Rightarrow> [])"

definition native_frame :: "json_parser \<Rightarrow> string \<Rightarrow> string option \<Rightarrow> string \<Rightarrow> transport_frame result" where
  "native_frame parse now ident text = bindR (parse text) (\<lambda>v.
     if native_event_name v = [] then Inl (PlainError ''Native SSE frame has no event type'')
     else Inr \<lparr>fr_cursor = coalesce ident [], fr_eventName = native_event_name v, fr_data = v, fr_receivedAt = now\<rparr>)"

definition native_stream_failed :: "bridge_message \<Rightarrow> transport_error" where
  "native_stream_failed m = \<lparr>te_message = coalesce (bm_message m) ''Native live connection failed'',
     te_status = None, te_code = Some ''native_stream_failed'', te_details = JUndef\<rparr>"

text \<open>The listener: messages of other clients are not for this stream.\<close>

definition on_bridge_message ::
  "json_parser \<Rightarrow> string \<Rightarrow> string \<Rightarrow> string \<Rightarrow> bridge_message \<Rightarrow> bridge_run \<Rightarrow> bridge_run" where
  "on_bridge_message parse clientId now client_id m r =
     (if client_id \<noteq> clientId then r
      else case (bm_kind m, bm_data m) of
        (BridgeEvent, Some text) \<Rightarrow>
          (case native_frame parse now (bm_id m) text of
             Inr f \<Rightarrow> r\<lparr>br_queued := br_queued r @ [f]\<rparr>
           | Inl e \<Rightarrow> r\<lparr>br_failure := Some (StreamThrew e)\<rparr>)
      | (BridgeError, _) \<Rightarrow> r\<lparr>br_failure := Some (StreamRefused (native_stream_failed m))\<rparr>
      | (BridgeClosed, _) \<Rightarrow> r\<lparr>br_closed := True\<rparr>
      | _ \<Rightarrow> r)"

text \<open>One turn of the generator's loop; without anything to do it waits to be woken.\<close>

definition bridge_turn :: "bridge_run \<Rightarrow> bridge_run" where
  "bridge_turn r =
     (if br_aborted r then r\<lparr>br_ended := Some (StreamFailed StreamAborted)\<rparr>
      else case br_failure r of
        Some f \<Rightarrow> r\<lparr>br_ended := Some (StreamFailed f)\<rparr>
      | None \<Rightarrow> (case br_queued r of
            f # fs \<Rightarrow> r\<lparr>br_queued := fs, br_yielded := br_yielded r @ [f]\<rparr>
          | [] \<Rightarrow> if br_closed r then r\<lparr>br_ended := Some StreamReturned\<rparr> else r))"

text \<open>
  What can happen, in any order: the bridge delivers a message (at a time), the caller aborts,
  the consumer asks for the next frame. When the loop has ended nothing listens any more.
\<close>

datatype bridge_event =
    Deliver string string bridge_message
  | Abort
  | Turn

definition bridge_step :: "json_parser \<Rightarrow> string \<Rightarrow> bridge_run \<Rightarrow> bridge_event \<Rightarrow> bridge_run" where
  "bridge_step parse clientId r e =
     (if br_ended r \<noteq> None then r
      else case e of
        Deliver now client_id m \<Rightarrow> on_bridge_message parse clientId now client_id m r
      | Abort \<Rightarrow> r\<lparr>br_aborted := True, br_closed := True\<rparr>
      | Turn \<Rightarrow> bridge_turn r)"

definition bridge_stream :: "json_parser \<Rightarrow> string \<Rightarrow> bridge_event list \<Rightarrow> bridge_run" where
  "bridge_stream parse clientId es = foldl (bridge_step parse clientId) bridge_start es"

text \<open>The frames this client was sent, in the order the bridge delivered them, and what failed.\<close>

definition sent_to :: "json_parser \<Rightarrow> string \<Rightarrow> bridge_event \<Rightarrow> transport_frame result option" where
  "sent_to parse clientId e = (case e of
       Deliver now client_id m \<Rightarrow>
         (if client_id \<noteq> clientId then None
          else case (bm_kind m, bm_data m) of
            (BridgeEvent, Some text) \<Rightarrow> Some (native_frame parse now (bm_id m) text)
          | (BridgeError, _) \<Rightarrow> Some (Inl (PlainError ''native_stream_failed''))
          | _ \<Rightarrow> None)
     | _ \<Rightarrow> None)"

definition frames_sent :: "json_parser \<Rightarrow> string \<Rightarrow> bridge_event list \<Rightarrow> transport_frame list" where
  "frames_sent parse clientId es = List.map_filter (\<lambda>e. case sent_to parse clientId e of Some (Inr f) \<Rightarrow> Some f | _ \<Rightarrow> None) es"

definition failure_sent :: "json_parser \<Rightarrow> string \<Rightarrow> bridge_event list \<Rightarrow> bool" where
  "failure_sent parse clientId es \<longleftrightarrow> list_ex (\<lambda>e. case sent_to parse clientId e of Some (Inl _) \<Rightarrow> True | _ \<Rightarrow> False) es"

text \<open>
  The contract of a bounded-order delivery: while the loop runs, what was yielded and what is
  queued are together what was sent; afterwards what was yielded is a part of it.
\<close>

definition bridge_inv :: "json_parser \<Rightarrow> string \<Rightarrow> bridge_event list \<Rightarrow> bridge_run \<Rightarrow> bool" where
  "bridge_inv parse clientId es r \<longleftrightarrow>
     prefix (br_yielded r) (frames_sent parse clientId es)
     \<and> (br_ended r = None \<longrightarrow> br_yielded r @ br_queued r = frames_sent parse clientId es
          \<and> (br_failure r \<noteq> None \<longleftrightarrow> failure_sent parse clientId es)
          \<and> (br_aborted r \<longrightarrow> Abort \<in> set es))"

lemma sent_snoc:
  "frames_sent parse clientId (es @ [e]) = frames_sent parse clientId es
     @ (case sent_to parse clientId e of Some (Inr f) \<Rightarrow> [f] | _ \<Rightarrow> [])"
  "failure_sent parse clientId (es @ [e]) \<longleftrightarrow> failure_sent parse clientId es
     \<or> (case sent_to parse clientId e of Some (Inl _) \<Rightarrow> True | _ \<Rightarrow> False)"
  by (auto simp: frames_sent_def failure_sent_def List.map_filter_def split: option.splits sum.splits)

lemma bridge_inv_step:
  assumes "bridge_inv parse clientId es r"
  shows "bridge_inv parse clientId (es @ [e]) (bridge_step parse clientId r e)"
proof (cases "br_ended r")
  case (Some x)
  with assms show ?thesis by (auto simp: bridge_inv_def bridge_step_def sent_snoc)
next
  case None
  show ?thesis
  proof (cases e)
    case (Deliver now client_id m)
    with assms None show ?thesis
      by (auto simp: bridge_inv_def bridge_step_def sent_snoc sent_to_def on_bridge_message_def
          split: option.splits sum.splits bridge_kind.splits)
  next
    case Abort
    with assms None show ?thesis by (simp add: bridge_inv_def bridge_step_def sent_snoc sent_to_def)
  next
    case Turn
    with assms None show ?thesis
      by (auto simp: bridge_inv_def bridge_step_def sent_snoc sent_to_def bridge_turn_def prefix_def
          split: option.splits list.splits)
  qed
qed

lemma bridge_inv_stream: "bridge_inv parse clientId es (bridge_stream parse clientId es)"
proof (induction es rule: rev_induct)
  case Nil
  show ?case by (simp add: bridge_inv_def bridge_stream_def bridge_start_def frames_sent_def failure_sent_def List.map_filter_def)
next
  case (snoc e es)
  from bridge_inv_step [OF this, of e] show ?case by (simp add: bridge_stream_def)
qed

text \<open>
  C21. The desktop bridge delivers in order and loses nothing on a normal end. However deliveries,
  turns of the consumer and an abort interleave, the frames yielded are an initial part of the
  frames sent to this client, in the order they were sent; and when the stream returns (rather
  than throws) at some turn, every frame sent up to then was yielded and no failure was sent.
\<close>
theorem bridge_yields_what_was_sent:
  "prefix (br_yielded (bridge_stream parse clientId es)) (frames_sent parse clientId es)
    \<and> (br_ended (bridge_stream parse clientId es) = None \<longrightarrow>
       br_ended (bridge_stream parse clientId (es @ [Turn])) = Some StreamReturned \<longrightarrow>
         br_yielded (bridge_stream parse clientId es) = frames_sent parse clientId es
         \<and> \<not> failure_sent parse clientId es)"
  using bridge_inv_stream [of parse clientId es]
  by (auto simp: bridge_inv_def bridge_stream_def bridge_step_def bridge_turn_def
      split: option.splits list.splits if_splits)

definition ex_native :: "string \<Rightarrow> bridge_event" where
  "ex_native c = Deliver ''t'' ''me'' \<lparr>bm_kind = BridgeEvent, bm_data = Some ''x'', bm_id = Some c, bm_message = None\<rparr>"

definition ex_native_parse :: json_parser where
  "ex_native_parse s = Inr (JObj [(''type'', JStr ''run.started'')])"

definition ex_native_events :: "bridge_event list" where
  "ex_native_events = [ex_native ''1'', ex_native ''2'', Turn,
     Deliver ''t'' ''me'' \<lparr>bm_kind = BridgeClosed, bm_data = None, bm_id = None, bm_message = None\<rparr>, Turn]"

theorem bridge_yields_what_was_sent_witness:
  "br_yielded (bridge_stream ex_native_parse ''me'' ex_native_events) = frames_sent ex_native_parse ''me'' ex_native_events
    \<and> length (frames_sent ex_native_parse ''me'' ex_native_events) = 2"
proof -
  let ?r = "bridge_stream ex_native_parse ''me'' ex_native_events"
  have "br_ended ?r = None" "br_ended (bridge_stream ex_native_parse ''me'' (ex_native_events @ [Turn])) = Some StreamReturned"
    by code_simp+
  then have "br_yielded ?r = frames_sent ex_native_parse ''me'' ex_native_events"
    using bridge_yields_what_was_sent [of ex_native_parse "''me''" ex_native_events] by simp
  moreover have "length (frames_sent ex_native_parse ''me'' ex_native_events) = 2" by code_simp
  ultimately show ?thesis by simp
qed

section \<open>Responses\<close>

text \<open>A response whose body is text, and what the caller asked for.\<close>

record http_response =
  hr_status :: nat
  hr_statusText :: string
  hr_body :: string

datatype response_type = RespJson | RespText

datatype response_value = NoValue | TextValue string | JsonValue js_value

datatype response_error = RequestRefused transport_error | RequestThrew js_error

record decoded_error =
  de_code :: "string option"
  de_message :: "string option"
  de_details :: js_value

definition no_error :: decoded_error where
  "no_error = \<lparr>de_code = None, de_message = None, de_details = JUndef\<rparr>"

definition as_string :: "js_value result \<Rightarrow> string option" where
  "as_string r = (case r of Inr (JStr s) \<Rightarrow> Some s | _ \<Rightarrow> None)"

definition nullish :: "js_value \<Rightarrow> bool" where
  "nullish v \<longleftrightarrow> v = JUndef \<or> v = JNull"

definition read_envelope :: "js_value \<Rightarrow> decoded_error result" where
  "read_envelope envelope = (case envelope of
       JObj _ \<Rightarrow> bindR (js_prop envelope ''details'') (\<lambda>d. Inr
         \<lparr>de_code = as_string (js_prop envelope ''error''), de_message = as_string (js_prop envelope ''message''),
          de_details = d\<rparr>)
     | JArr _ \<Rightarrow> Inr no_error
     | _ \<Rightarrow> Inr no_error)"

text \<open>\<open>value.error ?? value.detail?.error\<close> in the browser, \<open>value.error\<close> on the desktop.\<close>

definition browser_envelope :: "js_value \<Rightarrow> js_value result" where
  "browser_envelope v = bindR (js_prop v ''error'') (\<lambda>e.
     if \<not> nullish e then Inr e
     else bindR (js_prop v ''detail'') (\<lambda>d. if nullish d then Inr JUndef else js_prop d ''error''))"

definition decodeErrorResponse :: "json_parser \<Rightarrow> string \<Rightarrow> decoded_error" where
  "decodeErrorResponse parse body =
     (case bindR (parse body) (\<lambda>v. bindR (browser_envelope v) read_envelope) of Inr d \<Rightarrow> d | Inl _ \<Rightarrow> no_error)"

definition decodeErrorBody :: "json_parser \<Rightarrow> string \<Rightarrow> decoded_error" where
  "decodeErrorBody parse body =
     (case bindR (parse body) (\<lambda>v. bindR (js_prop v ''error'') read_envelope) of Inr d \<Rightarrow> d | Inl _ \<Rightarrow> no_error)"

definition response_ok :: "http_response \<Rightarrow> nat list \<Rightarrow> bool" where
  "response_ok resp acceptStatuses \<longleftrightarrow>
     (200 \<le> hr_status resp \<and> hr_status resp < 300) \<or> hr_status resp \<in> set acceptStatuses"

definition request_failed :: "http_response \<Rightarrow> decoded_error \<Rightarrow> response_error" where
  "request_failed resp e = RequestRefused
     \<lparr>te_message = str_or (coalesce (de_message e) [])
        (''Request failed with '' @ show_nat (hr_status resp) @ '' '' @ hr_statusText resp),
      te_status = Some (hr_status resp), te_code = de_code e, te_details = de_details e\<rparr>"

definition read_body :: "json_parser \<Rightarrow> response_type \<Rightarrow> string \<Rightarrow> response_error + response_value" where
  "read_body parse rt body = (case rt of
       RespText \<Rightarrow> Inr (TextValue body)
     | RespJson \<Rightarrow> (case parse body of Inl e \<Rightarrow> Inl (RequestThrew e) | Inr v \<Rightarrow> Inr (JsonValue v)))"

definition browser_response ::
  "json_parser \<Rightarrow> nat list \<Rightarrow> response_type \<Rightarrow> http_response \<Rightarrow> response_error + response_value" where
  "browser_response parse acceptStatuses rt resp =
     (if \<not> response_ok resp acceptStatuses
      then Inl (request_failed resp (decodeErrorResponse parse (hr_body resp)))
      else if hr_status resp = 204 then Inr NoValue
      else read_body parse rt (hr_body resp))"

definition tauri_response ::
  "json_parser \<Rightarrow> nat list \<Rightarrow> response_type \<Rightarrow> http_response \<Rightarrow> response_error + response_value" where
  "tauri_response parse acceptStatuses rt resp =
     (if \<not> response_ok resp acceptStatuses
      then Inl (request_failed resp (decodeErrorBody parse (hr_body resp)))
      else if hr_status resp = 204 \<or> hr_body resp = [] then Inr NoValue
      else read_body parse rt (hr_body resp))"

text \<open>The error body is an object whose own \<open>error\<close> is set, or one that nests none in \<open>detail\<close>.\<close>

definition flat_envelope :: "js_value \<Rightarrow> bool" where
  "flat_envelope v \<longleftrightarrow> (case js_prop v ''error'' of
       Inr e \<Rightarrow> \<not> nullish e \<or> (case browser_envelope v of Inr x \<Rightarrow> nullish x | Inl _ \<Rightarrow> True)
     | Inl _ \<Rightarrow> True)"

lemma read_envelope_nullish: "nullish v \<Longrightarrow> read_envelope v = Inr no_error"
  by (auto simp: nullish_def read_envelope_def)

lemma decode_error_agree:
  assumes "\<And>v. parse body = Inr v \<Longrightarrow> flat_envelope v"
  shows "decodeErrorResponse parse body = decodeErrorBody parse body"
proof (cases "parse body")
  case (Inr v)
  from assms [OF Inr] show ?thesis
    by (auto simp: decodeErrorResponse_def decodeErrorBody_def Inr flat_envelope_def browser_envelope_def
        read_envelope_nullish split: sum.splits if_splits)
qed (simp add: decodeErrorResponse_def decodeErrorBody_def)

text \<open>
  The two transports give a caller the same outcome for the same response: the same value, or
  the same transport error with its status, code, message and details, or the same thrown
  parse error; provided a success has a body or is a 204, and an error body does not hide its
  envelope under \<open>detail\<close>. Those are the two places where the sources differ.
\<close>
lemma transports_agree:
  assumes "response_ok resp acceptStatuses \<longrightarrow> hr_status resp = 204 \<or> hr_body resp \<noteq> []"
    and "\<And>v. \<not> response_ok resp acceptStatuses \<Longrightarrow> parse (hr_body resp) = Inr v \<Longrightarrow> flat_envelope v"
  shows "browser_response parse acceptStatuses rt resp = tauri_response parse acceptStatuses rt resp"
  using assms decode_error_agree [of parse "hr_body resp"] by (auto simp: browser_response_def tauri_response_def)

definition ex_refusal :: js_value where
  "ex_refusal = JObj [(''error'', JObj [(''error'', JStr ''busy''), (''message'', JStr ''Try later'')])]"

text \<open>The error a response under \<open>detail\<close> carries reaches the browser only.\<close>

lemma nested_envelope_is_lost_on_desktop:
  defines "v \<equiv> JObj [(''detail'', JObj [(''error'', JObj [(''message'', JStr ''Try later'')])])]"
  shows "de_message (decodeErrorResponse (\<lambda>_. Inr v) b) = Some ''Try later'' \<and> de_message (decodeErrorBody (\<lambda>_. Inr v) b) = None"
  by (simp add: v_def decodeErrorResponse_def decodeErrorBody_def browser_envelope_def read_envelope_def js_prop_def
      obj_get_def nullish_def as_string_def no_error_def)

section \<open>Native failures\<close>

definition native_reasons :: "(string \<times> string) list" where
  "native_reasons =
    [(''gact_http_response_too_large'', ''native_response_too_large''),
     (''gact_http_response_unreadable'', ''native_response_unreadable''),
     (''gact_http_request_body_invalid'', ''native_request_invalid''),
     (''gact_http_unsupported_method'', ''native_request_invalid''),
     (''gact_http_transport_error'', ''native_transport_failed'')]"

definition nativeErrorReason :: "string \<Rightarrow> string" where
  "nativeErrorReason message =
     (let token = trim (case index_of '':'' message of None \<Rightarrow> message | Some i \<Rightarrow> take i message)
      in coalesce (map_of native_reasons token) ''native_transport_failed'')"

definition native_invoke_error :: "bool \<Rightarrow> string \<Rightarrow> stream_failure" where
  "native_invoke_error aborted message =
     (if aborted then StreamAborted
      else StreamRefused \<lparr>te_message = str_or message ''Native request failed'', te_status = None,
        te_code = Some (nativeErrorReason message), te_details = JUndef\<rparr>)"

definition GACT_HTTP_TIMEOUT_MS :: nat where
  "GACT_HTTP_TIMEOUT_MS = 30000"

definition GACT_HTTP_TRANSFER_TIMEOUT_MS :: nat where
  "GACT_HTTP_TRANSFER_TIMEOUT_MS = 600000"

definition requestTimeoutMs :: "nat option \<Rightarrow> bool \<Rightarrow> bool \<Rightarrow> nat" where
  "requestTimeoutMs timeoutMs hasRawBody wantsBytes =
     coalesce timeoutMs (if hasRawBody \<or> wantsBytes then GACT_HTTP_TRANSFER_TIMEOUT_MS else GACT_HTTP_TIMEOUT_MS)"

text \<open>A failure of the bridge always has one of the four reasons the interface knows.\<close>

lemma native_reason_is_known:
  "nativeErrorReason message \<in> {''native_response_too_large'', ''native_response_unreadable'',
     ''native_request_invalid'', ''native_transport_failed''}"
  by (simp add: nativeErrorReason_def native_reasons_def coalesce_def Let_def)

end
