(* ===== verification/Science_Log.thy ===== *)
theory Science_Log
  imports Frame_Reduction "HOL-Library.Sublist"
begin

text \<open>
  \<open>web/src/lib/streaming/science-log-updates.ts\<close> on the types of
  \<open>packages/core/src/v3/science-log.ts\<close>: live entries of a study are merged into the log that was
  read, by id. The schemas are the validation package's; \<open>decodeScienceEntry\<close> is an argument.
\<close>

section \<open>Data\<close>

record science_link =
  sl_relation :: string
  sl_to :: string
  sl_by :: "string option"

record science_entry =
  sc_id :: string
  sc_study :: string
  sc_branch :: string
  sc_session :: string
  sc_type :: string
  sc_fields :: "js_value obj"
  sc_links :: "science_link list"
  sc_status :: string
  sc_status_reason :: "string option"
  sc_created_at :: string
  sc_invocation :: string

record science_branch =
  sb_session_id :: string
  sb_title :: string
  sb_agent :: string
  sb_relation :: string
  sb_parent_session_id :: string
  sb_fork_of_session_id :: string
  sb_workflow_step :: string
  sb_node_folder :: string
  sb_handle :: string
  sb_task_status :: string
  sb_note :: string

record science_study =
  st_session_id :: string
  st_study :: string
  st_root_session_id :: string
  st_branches :: "science_branch list"
  st_entries :: "science_entry list"
  st_views :: "js_value list"

datatype science_log = InStudy science_study | NoStudy string

section \<open>Operations\<close>

type_synonym entry_decoder = "js_value \<Rightarrow> science_entry option"

definition scienceEntryForFrame :: "event_envelope decoder \<Rightarrow> entry_decoder \<Rightarrow> transport_frame \<Rightarrow> science_entry option" where
  "scienceEntryForFrame decodeEventEnvelope decodeScienceEntry f =
     (if fr_eventName f \<noteq> ''science.entry'' then None
      else case decodeEventEnvelope (fr_data f) of Inl _ \<Rightarrow> None | Inr e \<Rightarrow> decodeScienceEntry (ev_payload e))"

definition merge_entry :: "science_entry list \<Rightarrow> science_entry \<Rightarrow> science_entry list" where
  "merge_entry merged entry = (case find_index (\<lambda>row. sc_id row = sc_id entry) merged of
       Some i \<Rightarrow> merged[i := entry]
     | None \<Rightarrow> merged @ [entry])"

definition mergeScienceEntries :: "science_log option \<Rightarrow> science_entry list \<Rightarrow> science_log option" where
  "mergeScienceEntries lg entries = (case lg of
       Some (InStudy s) \<Rightarrow>
         (let branches = set (map sb_session_id (st_branches s))
          in if list_ex (\<lambda>e. sc_branch e \<noteq> [] \<and> sc_branch e \<notin> branches) entries then None
             else Some (InStudy (s\<lparr>st_entries := foldl merge_entry (st_entries s) entries\<rparr>)))
     | _ \<Rightarrow> None)"

text \<open>The members of \<open>new Set(xs)\<close>, in the order of their first use.\<close>

definition first_uses :: "'a list \<Rightarrow> 'a list" where
  "first_uses xs = rev (remdups (rev xs))"

text \<open>The batches of the merger: the studies to read again, each once and none without a name.\<close>

definition studies_of :: "science_entry list \<Rightarrow> string list" where
  "studies_of entries = first_uses (filter (\<lambda>s. s \<noteq> []) (map sc_study entries))"

section \<open>Lemmas\<close>

lemma first_uses_snoc: "first_uses (xs @ [x]) = (if x \<in> set xs then first_uses xs else first_uses xs @ [x])"
  by (simp add: first_uses_def)

lemma set_first_uses [simp]: "set (first_uses xs) = set xs" "first_uses xs = [] \<longleftrightarrow> xs = []" "distinct (first_uses xs)"
  by (simp_all add: first_uses_def)

definition entry_of :: "science_entry list \<Rightarrow> string \<Rightarrow> science_entry option" where
  "entry_of es i = find (\<lambda>e. sc_id e = i) es"

lemma find_index_bound: "find_index P xs = Some i \<Longrightarrow> i < length xs \<and> P (xs ! i)"
  by (induction xs arbitrary: i) (auto split: if_splits)

lemma find_index_none: "find_index P xs = None \<longleftrightarrow> (\<forall>x \<in> set xs. \<not> P x)"
  by (induction xs) auto

lemma merge_entry_ids:
  "map sc_id (merge_entry es e) = (if sc_id e \<in> sc_id ` set es then map sc_id es else map sc_id es @ [sc_id e])"
proof (cases "find_index (\<lambda>row. sc_id row = sc_id e) es")
  case None
  then have "sc_id e \<notin> sc_id ` set es" by (force simp: find_index_none)
  with None show ?thesis by (simp add: merge_entry_def)
next
  case (Some i)
  then have "i < length es" "sc_id (es ! i) = sc_id e" using find_index_bound by force+
  moreover from this have "sc_id e \<in> sc_id ` set es" by (metis imageI nth_mem)
  moreover have "(map sc_id es)[i := sc_id e] = map sc_id es"
    using calculation by (metis list_update_id nth_map)
  ultimately show ?thesis using Some by (simp add: merge_entry_def map_update)
qed

lemma entry_of_append: "entry_of (xs @ ys) i = or_else (entry_of xs i) (entry_of ys i)"
  by (induction xs) (auto simp: entry_of_def or_else_def)

lemma entry_of_merge: "entry_of (merge_entry es e) i = (if i = sc_id e then Some e else entry_of es i)"
  by (induction es) (auto simp: merge_entry_def entry_of_def split: option.splits)

lemma distinct_merge: "distinct (map sc_id es) \<Longrightarrow> distinct (map sc_id (merge_entry es e))"
  by (simp add: merge_entry_ids)

lemma fold_merge:
  "entry_of (foldl merge_entry es xs) i = or_else (entry_of (rev xs) i) (entry_of es i)"
  "set (map sc_id (foldl merge_entry es xs)) = set (map sc_id es) \<union> set (map sc_id xs)"
  "distinct (map sc_id es) \<Longrightarrow> distinct (map sc_id (foldl merge_entry es xs))"
  "prefix (map sc_id es) (map sc_id (foldl merge_entry es xs))"
proof (induction xs rule: rev_induct)
  case (snoc x xs)
  { case 1 then show ?case using snoc by (simp add: entry_of_merge) (simp add: entry_of_def or_else_def) }
  { case 2 show ?case using snoc(2) by (simp only: foldl_append foldl.simps merge_entry_ids) auto }
  { case 3 then show ?case using snoc by (simp add: distinct_merge) }
  { case 4 show ?case using snoc by (auto simp: merge_entry_ids) }
qed (simp_all add: entry_of_def or_else_def)

text \<open>
  Live entries merge into the log that was read: afterwards every id reads the last live entry
  with that id, or the row it had; the rows that were there keep their places, new ids come
  after them, and no id is there twice. A log that is no study or does not know an entry's
  branch is not merged at all.
\<close>
lemma science_merge_is_by_id:
  assumes "mergeScienceEntries lg entries = Some merged"
  shows "\<exists>s. lg = Some (InStudy s) \<and> (\<exists>rows. merged = InStudy (s\<lparr>st_entries := rows\<rparr>)
      \<and> (\<forall>i. entry_of rows i = or_else (entry_of (rev entries) i) (entry_of (st_entries s) i))
      \<and> prefix (map sc_id (st_entries s)) (map sc_id rows)
      \<and> (distinct (map sc_id (st_entries s)) \<longrightarrow> distinct (map sc_id rows))
      \<and> (\<forall>e \<in> set entries. sc_branch e = [] \<or> sc_branch e \<in> sb_session_id ` set (st_branches s)))"
proof -
  from assms obtain s where s: "lg = Some (InStudy s)"
    "\<not> list_ex (\<lambda>e. sc_branch e \<noteq> [] \<and> sc_branch e \<notin> sb_session_id ` set (st_branches s)) entries"
    "merged = InStudy (s\<lparr>st_entries := foldl merge_entry (st_entries s) entries\<rparr>)"
    by (auto simp: mergeScienceEntries_def split: option.splits science_log.splits if_splits)
  then show ?thesis
    using fold_merge [of "st_entries s" entries] by (auto simp: list_ex_iff)
qed

definition ex_branch :: "string \<Rightarrow> string \<Rightarrow> science_branch" where
  "ex_branch i parent = \<lparr>sb_session_id = i, sb_title = i, sb_agent = [], sb_relation = ''branch'',
     sb_parent_session_id = parent, sb_fork_of_session_id = [], sb_workflow_step = [], sb_node_folder = [],
     sb_handle = [], sb_task_status = [], sb_note = []\<rparr>"

end
