(* ===== verification/Session_Stream.thy ===== *)
theory Session_Stream
  imports Live_Store Event_Stream Science_Log
begin

text \<open>
  \<open>web/src/hooks/use-session-live-stream.ts\<close> with \<open>lib/streaming/reconnect.ts\<close>,
  \<open>stream-notices.ts\<close>, \<open>task-updates.ts\<close> and the keys of \<open>lib/query-keys.ts\<close> it uses: the loop
  that owns the stream of the open session. It connects, feeds every frame to the batcher,
  the notices and the query invalidations, and after a disconnect waits, reconciles the store
  with snapshots and connects again.

  The loop is a state machine whose steps are what its promises and callbacks resolve to: a
  frame, the end or failure of the connection, the answers of the snapshot reads, the end of a
  wait, a display frame, the microtask, the clean-up of the effect. The query cache belongs to
  another package: what the loop asks of it is the list of outputs.
\<close>

section \<open>Reconnecting\<close>

definition STREAM_RECONNECT_BASE_MS :: nat where
  "STREAM_RECONNECT_BASE_MS = 250"

definition STREAM_RECONNECT_MAX_MS :: nat where
  "STREAM_RECONNECT_MAX_MS = 8000"

definition nextReconnectDelay :: "nat \<Rightarrow> nat" where
  "nextReconnectDelay current = min STREAM_RECONNECT_MAX_MS (current * 2)"

definition latestCursor :: "string option \<Rightarrow> string option \<Rightarrow> string option" where
  "latestCursor current snapshot = (if truthy_str current then current else snapshot)"

section \<open>Which reads an event makes stale\<close>

type_synonym read_key = "string list"

definition isPendingInteractionEvent :: "string \<Rightarrow> bool" where
  "isPendingInteractionEvent eventName = list_ex (\<lambda>p. starts_with p eventName)
     [''permission.'', ''user_question.'', ''approval.'', ''question.'', ''a2ui.'', ''mcp.task.'', ''mcp_task.'',
      ''agent.task.'', ''agent_task.'', ''task.'', ''agent_elicitation_'']"

definition isProcessEvent :: "string \<Rightarrow> bool" where
  "isProcessEvent eventName = list_ex (\<lambda>p. starts_with p eventName)
     [''task.'', ''agent.task.'', ''agent_task.'', ''mcp.task.'', ''mcp_task.'', ''run.'', ''subagent.'']"

definition isModelConfigurationEvent :: "string \<Rightarrow> bool" where
  "isModelConfigurationEvent eventName \<longleftrightarrow> eventName = ''lm.provider.changed'' \<or>
     eventName = ''lm.provider.failed'' \<or> eventName = ''provider_catalog.refreshed''"

definition isPendingSteerEvent :: "string \<Rightarrow> bool" where
  "isPendingSteerEvent eventName \<longleftrightarrow> eventName = ''message.accepted'' \<or> eventName = ''message.cancelled'' \<or>
     starts_with ''pending_steer.'' eventName \<or> eventName = ''message.upserted'' \<or>
     eventName = ''queued_message.promoted''"

definition isQueuedMessageEvent :: "string \<Rightarrow> bool" where
  "isQueuedMessageEvent eventName = starts_with ''queued_message.'' eventName"

definition isResourceEvent :: "string \<Rightarrow> bool" where
  "isResourceEvent eventName = starts_with ''resource.'' eventName"

definition isSessionArtifactEvent :: "string \<Rightarrow> bool" where
  "isSessionArtifactEvent eventName \<longleftrightarrow> eventName \<in> set
     [''artifact.created'', ''artifact.version.added'', ''artifact.alias.moved'', ''artifact.used'', ''artifact.enriched'']"

definition resourceInvalidationKeys :: "string \<Rightarrow> string \<Rightarrow> string \<Rightarrow> read_key list" where
  "resourceInvalidationKeys eventName endpoint workspaceId =
     (if eventName = ''resource.processing_completed'' \<or> eventName = ''resource.processing_failed''
         \<or> eventName = ''resource.processing_cancelled''
      then [[''workspace-resource-derivatives'', endpoint, workspaceId],
            [''workspace-resource-structure'', endpoint, workspaceId],
            [''workspace-resource-structure-node'', endpoint, workspaceId]]
      else if eventName = ''resource.delivery_resolved''
      then [[''workspace-resource-deliveries'', endpoint, workspaceId]]
      else [])"

record stream_scope =
  sp_endpoint :: string
  sp_sessionId :: string
  sp_workspaceId :: string

definition only_if :: "bool \<Rightarrow> 'a list \<Rightarrow> 'a list" where
  "only_if b xs = (if b then xs else [])"

definition queryInvalidationKeysForEvent :: "stream_scope \<Rightarrow> task_update option \<Rightarrow> string \<Rightarrow> read_key list" where
  "queryInvalidationKeysForEvent sp update eventName =
     (let endpoint = sp_endpoint sp; sessionId = sp_sessionId sp; workspaceId = sp_workspaceId sp;
          owner = Option.bind update tu_owner_session_id;
          invocation = Option.bind update tu_invocation_id
      in only_if (eventName = ''task.updated'' \<and> owner = Some sessionId \<and> truthy_str invocation)
           [[''transcript'', endpoint, sessionId]]
       @ only_if (isPendingInteractionEvent eventName)
           [[''sessions'', endpoint, ''waiting''], [''pending-interactions'', endpoint],
            [''pending-approvals'', endpoint], [''pending-questions'', endpoint]]
       @ only_if (isProcessEvent eventName)
           [[''session-observability'', endpoint, sessionId, ''processes''], [''sessions'', endpoint]]
       @ only_if (eventName = ''semantic.event'')
           [[''session-observability'', endpoint, sessionId, ''agent-iterations''], [''session-work'', endpoint, sessionId]]
       @ only_if (isModelConfigurationEvent eventName)
           [[''capabilities'', endpoint], [''language-model-configuration'', endpoint],
            [''provider-models'', endpoint], [''provider-catalog'', endpoint]]
       @ only_if (eventName = ''lm.provider.changed'') [[''sessions'', endpoint], [''session-defaults'', endpoint]]
       @ only_if (isPendingSteerEvent eventName) [[''pending-steers'', endpoint, sessionId]]
       @ only_if (isQueuedMessageEvent eventName) [[''queued-messages'', endpoint, sessionId]]
       @ only_if (isResourceEvent eventName)
           ([''workspace-resources'', endpoint, workspaceId] # resourceInvalidationKeys eventName endpoint workspaceId)
       @ only_if (isSessionArtifactEvent eventName) [[''session-artifacts'', endpoint, sessionId]]
       @ only_if (eventName = ''message.completed'')
           [[''transcript'', endpoint, sessionId], [''sessions'', endpoint], [''session-artifacts'', endpoint, sessionId],
            [''session-observability'', endpoint, sessionId], [''session-context'', endpoint, sessionId]]
       @ only_if (eventName = ''session.status_changed'' \<or> eventName = ''session.upserted'') [[''sessions'', endpoint]]
       @ only_if (eventName = ''semantic.event'' \<or> eventName = ''message.completed'' \<or> isProcessEvent eventName
               \<or> isSessionArtifactEvent eventName)
           [[''execution-provenance'', endpoint]])"

section \<open>Coalesced invalidations\<close>

text \<open>
  \<open>QueryInvalidationBatcher\<close>: the pending map is keyed by the JSON text of a key, which is the
  key itself up to notation.
\<close>

record invalidation_batcher =
  ib_pending :: "(read_key \<times> read_key) list"
  ib_scheduled :: bool
  ib_stopped :: bool

definition newInvalidations :: invalidation_batcher where
  "newInvalidations = \<lparr>ib_pending = [], ib_scheduled = False, ib_stopped = False\<rparr>"

definition push_invalidations :: "read_key list \<Rightarrow> invalidation_batcher \<Rightarrow> invalidation_batcher" where
  "push_invalidations keys b =
     (if ib_stopped b then b
      else let b1 = b\<lparr>ib_pending := foldl (\<lambda>m k. map_set m k k) (ib_pending b) keys\<rparr>
           in if ib_scheduled b1 \<or> ib_pending b1 = [] then b1 else b1\<lparr>ib_scheduled := True\<rparr>)"

definition flush_invalidations :: "invalidation_batcher \<Rightarrow> invalidation_batcher \<times> read_key list" where
  "flush_invalidations b = (b\<lparr>ib_scheduled := False, ib_pending := []\<rparr>, map snd (ib_pending b))"

definition stop_invalidations :: "bool \<Rightarrow> invalidation_batcher \<Rightarrow> invalidation_batcher \<times> read_key list" where
  "stop_invalidations flush_option b =
     (let (b1, keys) = (if flush_option then flush_invalidations b else (b, []))
      in (b1\<lparr>ib_stopped := True, ib_pending := []\<rparr>, keys))"

section \<open>Notices\<close>

record stream_notice =
  no_id :: string
  no_title :: string
  no_description :: string

definition notice_entity :: "transport_frame \<Rightarrow> string result" where
  "notice_entity f = bindR (js_prop (fr_data f) ''entity_id'') (\<lambda>v.
     Inr (case v of JStr s \<Rightarrow> if s \<noteq> [] then s else fr_cursor f | _ \<Rightarrow> fr_cursor f))"

definition recoverable :: "transport_frame \<Rightarrow> bool result" where
  "recoverable f = bindR (js_prop (fr_data f) ''payload'') (\<lambda>p.
     if nullish p then Inr True
     else bindR (js_prop p ''recoverable'') (\<lambda>v. Inr (v \<noteq> JBool False)))"

definition streamNoticeForFrame :: "transport_frame \<Rightarrow> stream_notice option result" where
  "streamNoticeForFrame f =
     (if fr_eventName f \<noteq> ''queued_message.promotion_failed'' then Inr None
      else bindR (notice_entity f) (\<lambda>ident. bindR (recoverable f) (\<lambda>r. Inr (Some
        \<lparr>no_id = ''queued_message.promotion_failed:'' @ ident,
         no_title = ''A queued message could not be sent'',
         no_description = (if r then ''It is still in the queue. Send it again once the current turn settles.''
           else ''It is still in the queue, and the service will not retry it on its own.'')\<rparr>))))"

definition taskUpdateForFrame :: "env \<Rightarrow> transport_frame \<Rightarrow> task_update option" where
  "taskUpdateForFrame env f =
     (if fr_eventName f \<noteq> ''task.updated'' then None
      else case eventEnvelopeSchema env (fr_data f) of
        Inl _ \<Rightarrow> None
      | Inr e \<Rightarrow> (case taskUpdateSchema env (ev_payload e) of Inl _ \<Rightarrow> None | Inr u \<Rightarrow> Some u))"

section \<open>The loop\<close>

text \<open>
  Where the loop is: reading snapshots, on a connection opened at a cursor, waiting out a delay,
  or over. What it asks of others: cached model references cleared, keys refreshed, a notice
  shown, the snapshot reads put in the cache, live entries merged into the cached science log;
  and the batches it handed to the store.
\<close>

datatype stream_phase = Reconciling | Streaming "string option" | Delaying nat | LoopOver

datatype stream_output =
    ClearCachedModels
  | Invalidate "read_key list"
  | ShowNotice stream_notice
  | CacheSnapshots
  | ApplyFrames "transport_frame list"
  | MergeScience "science_entry list"

record session_stream =
  ss_store :: live_store
  ss_frames :: "transport_frame batcher"
  ss_invalidations :: invalidation_batcher
  ss_science :: "science_entry batcher"
  ss_reconnectDelay :: nat
  ss_resumeCursor :: "string option"
  ss_reconcileBeforeConnect :: bool
  ss_phase :: stream_phase
  ss_outputs :: "stream_output list"

definition emit :: "stream_output list \<Rightarrow> session_stream \<Rightarrow> session_stream" where
  "emit outs s = s\<lparr>ss_outputs := ss_outputs s @ outs\<rparr>"

definition mark_stream :: "stream_state \<Rightarrow> session_stream \<Rightarrow> session_stream" where
  "mark_stream x s = s\<lparr>ss_store := setStreamState (ss_store s) x\<rparr>"

text \<open>The arguments of the effect: the wording of type errors, the decoders, the scope.\<close>

record stream_setting =
  st_wording :: "string \<Rightarrow> string"
  st_env :: env
  st_scienceEntry :: entry_decoder
  st_scope :: stream_scope

definition commit_frames :: "stream_setting \<Rightarrow> transport_frame effect list \<Rightarrow> session_stream \<Rightarrow> session_stream" where
  "commit_frames c es s = foldl (\<lambda>s e. case e of
       Commit fs \<Rightarrow> emit [ApplyFrames fs] (s\<lparr>ss_store := applyFrames (st_wording c) (st_env c) (ss_store s) fs\<rparr>)
     | _ \<Rightarrow> s) s es"

definition with_batcher ::
  "stream_setting \<Rightarrow> transport_frame batcher \<times> transport_frame effect list \<Rightarrow> session_stream \<Rightarrow> session_stream" where
  "with_batcher c r s = commit_frames c (snd r) (s\<lparr>ss_frames := fst r\<rparr>)"

text \<open>The commit of the science merger: merge into the cached log, then read the log and the studies again.\<close>

definition science_outputs :: "stream_setting \<Rightarrow> science_entry effect list \<Rightarrow> stream_output list" where
  "science_outputs c es = concat (map (\<lambda>e. case e of
       Commit xs \<Rightarrow> MergeScience xs
         # Invalidate [[''science-log'', sp_endpoint (st_scope c), sp_sessionId (st_scope c)]]
         # map (\<lambda>study. Invalidate [[''study-source'', sp_endpoint (st_scope c), study]]) (studies_of xs)
     | _ \<Rightarrow> []) es)"

definition with_science ::
  "stream_setting \<Rightarrow> science_entry batcher \<times> science_entry effect list \<Rightarrow> session_stream \<Rightarrow> session_stream" where
  "with_science c r s = emit (science_outputs c (snd r)) (s\<lparr>ss_science := fst r\<rparr>)"

definition open_stream :: "session_stream \<Rightarrow> session_stream" where
  "open_stream s = s\<lparr>ss_phase := Streaming (latestCursor (es_cursor (ls_entities (ss_store s))) (ss_resumeCursor s))\<rparr>"

text \<open>The head of the loop.\<close>

definition loop_head :: "session_stream \<Rightarrow> session_stream" where
  "loop_head s = (if ss_reconcileBeforeConnect s then s\<lparr>ss_phase := Reconciling\<rparr> else open_stream s)"

definition start_stream :: "string option \<Rightarrow> live_store \<Rightarrow> session_stream" where
  "start_stream initialCursor st = loop_head (mark_stream StreamConnecting
     \<lparr>ss_store = claimStream st, ss_frames = newBatcher, ss_invalidations = newInvalidations, ss_science = newBatcher,
      ss_reconnectDelay = STREAM_RECONNECT_BASE_MS, ss_resumeCursor = initialCursor,
      ss_reconcileBeforeConnect = False, ss_phase = LoopOver, ss_outputs = []\<rparr>)"

text \<open>The connection is gone: the rest of the iteration after its end or a failure.\<close>

definition lose_stream :: "session_stream \<Rightarrow> session_stream" where
  "lose_stream s = (mark_stream StreamReconnecting (s\<lparr>ss_reconcileBeforeConnect := True\<rparr>))
     \<lparr>ss_phase := Delaying (ss_reconnectDelay s)\<rparr>"

definition fail_stream :: "bool \<Rightarrow> session_stream \<Rightarrow> session_stream" where
  "fail_stream is_abort s = (if is_abort then (lose_stream s)\<lparr>ss_phase := LoopOver\<rparr> else lose_stream s)"

definition delay_over :: "session_stream \<Rightarrow> session_stream" where
  "delay_over s = loop_head (s\<lparr>ss_reconnectDelay := nextReconnectDelay (ss_reconnectDelay s)\<rparr>)"

text \<open>The body of the \<open>for await\<close>; \<open>h\<close> is the handle of a requested display frame.\<close>

definition clear_models :: "transport_frame \<Rightarrow> session_stream \<Rightarrow> session_stream" where
  "clear_models f s = (if fr_eventName f = ''lm.provider.changed''
     then (emit [ClearCachedModels] s)\<lparr>ss_store := clearSessionModelReferences (ss_store s)\<rparr> else s)"

definition push_science :: "stream_setting \<Rightarrow> nat \<Rightarrow> transport_frame \<Rightarrow> session_stream \<Rightarrow> session_stream" where
  "push_science c h f s = (case scienceEntryForFrame (eventEnvelopeSchema (st_env c)) (st_scienceEntry c) f of
       None \<Rightarrow> s
     | Some entry \<Rightarrow> with_science c (push (ss_science s) h entry) s)"

definition batch_frame :: "stream_setting \<Rightarrow> nat \<Rightarrow> transport_frame \<Rightarrow> session_stream \<Rightarrow> session_stream" where
  "batch_frame c h f s =
     (let s1 = push_science c (Suc h) f (with_batcher c (push (ss_frames s) h f) s)
      in if fr_eventName f = ''message.completed'' then with_batcher c (flush (ss_frames s1)) s1 else s1)"

definition invalidate_for :: "stream_setting \<Rightarrow> transport_frame \<Rightarrow> session_stream \<Rightarrow> session_stream" where
  "invalidate_for c f s = s\<lparr>ss_invalidations := push_invalidations
     (queryInvalidationKeysForEvent (st_scope c) (taskUpdateForFrame (st_env c) f) (fr_eventName f)) (ss_invalidations s)\<rparr>"

definition receive_frame :: "stream_setting \<Rightarrow> nat \<Rightarrow> transport_frame \<Rightarrow> session_stream \<Rightarrow> session_stream" where
  "receive_frame c h f s =
     (let s1 = mark_stream StreamLive (s\<lparr>ss_reconnectDelay := STREAM_RECONNECT_BASE_MS\<rparr>);
          s2 = invalidate_for c f (batch_frame c h f (clear_models f s1))
      in case streamNoticeForFrame f of
           Inl _ \<Rightarrow> fail_stream False s2
         | Inr None \<Rightarrow> s2
         | Inr (Some n) \<Rightarrow> emit [ShowNotice n] s2)"

text \<open>The answers of the snapshot reads, as \<open>reconcileAfterDisconnect\<close> uses them.\<close>

definition reconciled_keys :: "stream_scope \<Rightarrow> read_key list" where
  "reconciled_keys sp = (let endpoint = sp_endpoint sp; sessionId = sp_sessionId sp in
     [[''capabilities'', endpoint], [''language-model-configuration'', endpoint], [''provider-models'', endpoint],
      [''provider-catalog'', endpoint], [''session-artifacts'', endpoint, sessionId],
      [''session-observability'', endpoint, sessionId], [''session-context'', endpoint, sessionId]])"

definition reconcile_done :: "stream_setting \<Rightarrow> snapshot \<Rightarrow> string option \<Rightarrow> session_stream \<Rightarrow> session_stream" where
  "reconcile_done c snap cursor s = open_stream
     ((emit [CacheSnapshots, Invalidate (reconciled_keys (st_scope c))] s)
        \<lparr>ss_store := reconcileSnapshots (ss_store s) snap,
         ss_resumeCursor := or_else cursor (ss_resumeCursor s),
         ss_reconcileBeforeConnect := False\<rparr>)"

definition display_frame :: "stream_setting \<Rightarrow> session_stream \<Rightarrow> session_stream" where
  "display_frame c s = (if fb_handle (ss_frames s) = None then s else with_batcher c (flush (ss_frames s)) s)"

definition display_science :: "stream_setting \<Rightarrow> session_stream \<Rightarrow> session_stream" where
  "display_science c s = (if fb_handle (ss_science s) = None then s else with_science c (flush (ss_science s)) s)"

definition run_microtask :: "session_stream \<Rightarrow> session_stream" where
  "run_microtask s = (if \<not> ib_scheduled (ss_invalidations s) then s
     else case flush_invalidations (ss_invalidations s) of (b, keys) \<Rightarrow>
       (if keys = [] then s\<lparr>ss_invalidations := b\<rparr> else emit [Invalidate keys] (s\<lparr>ss_invalidations := b\<rparr>)))"

definition clean_up :: "stream_setting \<Rightarrow> session_stream \<Rightarrow> session_stream" where
  "clean_up c s =
     (let s1 = s\<lparr>ss_store := releaseStream (ss_store s), ss_phase := LoopOver\<rparr>;
          s2 = with_batcher c (stop True (ss_frames s1)) s1;
          r = stop_invalidations True (ss_invalidations s2);
          s3 = emit (if snd r = [] then [] else [Invalidate (snd r)]) (s2\<lparr>ss_invalidations := fst r\<rparr>)
      in with_science c (stop True (ss_science s3)) s3)"

text \<open>
  What can happen next. The snapshot a reconcile installs is built by \<open>recordById\<close>, so it is
  well formed; the writes of other parts of the application to the store are not steps of the
  loop.
\<close>

datatype stream_input =
    GotFrame nat transport_frame
  | ConnectionEnded
  | ConnectionFailed bool
  | GotSnapshots snapshot "string option"
  | SnapshotsFailed bool
  | DelayOver
  | DisplayFrame
  | DisplayScience
  | Microtask

fun stream_next :: "stream_setting \<Rightarrow> session_stream \<Rightarrow> stream_input \<Rightarrow> session_stream option" where
  "stream_next c s (GotFrame h f) = (case ss_phase s of Streaming _ \<Rightarrow> Some (receive_frame c h f s) | _ \<Rightarrow> None)"
| "stream_next c s ConnectionEnded = (case ss_phase s of Streaming _ \<Rightarrow> Some (lose_stream s) | _ \<Rightarrow> None)"
| "stream_next c s (ConnectionFailed a) = (case ss_phase s of Streaming _ \<Rightarrow> Some (fail_stream a s) | _ \<Rightarrow> None)"
| "stream_next c s (GotSnapshots snap cursor) = (if ss_phase s = Reconciling then Some (reconcile_done c snap cursor s) else None)"
| "stream_next c s (SnapshotsFailed a) = (if ss_phase s = Reconciling then Some (fail_stream a s) else None)"
| "stream_next c s DelayOver = (case ss_phase s of Delaying _ \<Rightarrow> Some (delay_over s) | _ \<Rightarrow> None)"
| "stream_next c s DisplayFrame = Some (display_frame c s)"
| "stream_next c s DisplayScience = Some (display_science c s)"
| "stream_next c s Microtask = Some (run_microtask s)"

fun stream_run :: "stream_setting \<Rightarrow> session_stream \<Rightarrow> stream_input list \<Rightarrow> session_stream option" where
  "stream_run c s [] = Some s"
| "stream_run c s (i # is) = Option.bind (stream_next c s i) (\<lambda>s'. stream_run c s' is)"

section \<open>The other effects of the hook\<close>

text \<open>
  Requests to reconnect (network online, tab visible, desktop resumed) restart the loop's effect
  by counting up; a burst of them within the base delay counts once.
\<close>

record reconnect_requests =
  rq_lastReconnectAt :: "int option"
  rq_reconnectEpoch :: nat
  rq_documentVisible :: bool

definition request_reconnect :: "int \<Rightarrow> reconnect_requests \<Rightarrow> reconnect_requests" where
  "request_reconnect now q = (case rq_lastReconnectAt q of
       Some t \<Rightarrow> if now - t < int STREAM_RECONNECT_BASE_MS then q
                else q\<lparr>rq_lastReconnectAt := Some now, rq_reconnectEpoch := Suc (rq_reconnectEpoch q)\<rparr>
     | None \<Rightarrow> q\<lparr>rq_lastReconnectAt := Some now, rq_reconnectEpoch := Suc (rq_reconnectEpoch q)\<rparr>)"

definition reconnectWhenVisible :: "int \<Rightarrow> bool \<Rightarrow> reconnect_requests \<Rightarrow> reconnect_requests" where
  "reconnectWhenVisible now visible q =
     (let q1 = q\<lparr>rq_documentVisible := visible\<rparr> in if visible then request_reconnect now q1 else q1)"

text \<open>Recovery from a gap on a connection that is still open.\<close>

definition gap_reconciled :: "snapshot \<Rightarrow> live_store \<Rightarrow> live_store" where
  "gap_reconciled snap st = setStreamState (reconcileSnapshots st snap) StreamLive"

definition gap_recovery_failed :: "string option \<Rightarrow> live_store \<Rightarrow> live_store" where
  "gap_recovery_failed message st =
     setStreamError st (''Gap recovery failed: '' @ coalesce message ''authoritative snapshot unavailable'')"

text \<open>Over a burst of requests the counter rises at most once per base delay.\<close>

lemma requests_are_coalesced:
  assumes "rq_lastReconnectAt q = Some t" "list_all (\<lambda>n. t \<le> n \<and> n - t < int STREAM_RECONNECT_BASE_MS) ns"
  shows "foldl (\<lambda>q n. request_reconnect n q) q ns = q"
  using assms(2) by (induction ns) (simp_all add: request_reconnect_def assms(1))

section \<open>Runs\<close>

text \<open>An invariant of states and the inputs so far, kept by every step, holds at the end of a run.\<close>

lemma stream_run_snoc: "stream_run c s (is @ [i]) = Option.bind (stream_run c s is) (\<lambda>s'. stream_next c s' i)"
  by (induction "is" arbitrary: s) (auto split: bind_splits)

lemma stream_run_induct [consumes 1, case_names start step]:
  assumes "stream_run c s0 is = Some s" "P [] s0"
    and "\<And>is s i s'. stream_run c s0 is = Some s \<Longrightarrow> P is s \<Longrightarrow> stream_next c s i = Some s' \<Longrightarrow> P (is @ [i]) s'"
  shows "P is s"
  using assms(1)
proof (induction "is" arbitrary: s rule: rev_induct)
  case Nil
  with assms(2) show ?case by simp
next
  case (snoc i "is")
  then obtain s1 where "stream_run c s0 is = Some s1" "stream_next c s1 i = Some s"
    by (auto simp: stream_run_snoc split: bind_splits)
  with snoc.IH assms(3) show ?case by blast
qed

section \<open>What each part of a step changes\<close>

definition loop_vars :: "session_stream \<Rightarrow> nat \<times> string option \<times> bool \<times> stream_phase" where
  "loop_vars s = (ss_reconnectDelay s, ss_resumeCursor s, ss_reconcileBeforeConnect s, ss_phase s)"

definition applied_outputs :: "stream_output list \<Rightarrow> transport_frame list" where
  "applied_outputs outs = concat (map (\<lambda>x. case x of ApplyFrames fs \<Rightarrow> fs | _ \<Rightarrow> []) outs)"

definition applied :: "session_stream \<Rightarrow> transport_frame list" where
  "applied s = applied_outputs (ss_outputs s)"

lemma applied_outputs_simps [simp]:
  "applied_outputs [] = []" "applied_outputs (a @ b) = applied_outputs a @ applied_outputs b"
  "applied_outputs (x # a) = (case x of ApplyFrames fs \<Rightarrow> fs | _ \<Rightarrow> []) @ applied_outputs a"
  by (simp_all add: applied_outputs_def)

lemma emit_fields [simp]:
  "ss_store (emit outs s) = ss_store s" "ss_frames (emit outs s) = ss_frames s" "ss_science (emit outs s) = ss_science s"
  "ss_invalidations (emit outs s) = ss_invalidations s" "loop_vars (emit outs s) = loop_vars s"
  "applied (emit outs s) = applied s @ applied_outputs outs" "ss_phase (emit outs s) = ss_phase s"
  "ss_reconnectDelay (emit outs s) = ss_reconnectDelay s" "ss_resumeCursor (emit outs s) = ss_resumeCursor s"
  "ss_reconcileBeforeConnect (emit outs s) = ss_reconcileBeforeConnect s"
  by (simp_all add: emit_def applied_def loop_vars_def)

lemma loop_vars_simps [simp]:
  "loop_vars (s\<lparr>ss_store := st\<rparr>) = loop_vars s" "loop_vars (s\<lparr>ss_frames := b\<rparr>) = loop_vars s"
  "loop_vars (s\<lparr>ss_invalidations := ib\<rparr>) = loop_vars s" "loop_vars (s\<lparr>ss_science := sb\<rparr>) = loop_vars s"
  by (simp_all add: loop_vars_def)

lemma applied_simps [simp]:
  "applied (s\<lparr>ss_store := st\<rparr>) = applied s" "applied (s\<lparr>ss_frames := b\<rparr>) = applied s"
  "applied (s\<lparr>ss_invalidations := ib\<rparr>) = applied s" "applied (s\<lparr>ss_science := sb\<rparr>) = applied s"
  "applied (s\<lparr>ss_reconnectDelay := d\<rparr>) = applied s" "applied (s\<lparr>ss_resumeCursor := rc\<rparr>) = applied s"
  "applied (s\<lparr>ss_reconcileBeforeConnect := rb\<rparr>) = applied s" "applied (s\<lparr>ss_phase := ph\<rparr>) = applied s"
  by (simp_all add: applied_def)

lemma commit_frames_fields [simp]:
  "ss_frames (commit_frames c es s) = ss_frames s" "loop_vars (commit_frames c es s) = loop_vars s"
  "ss_invalidations (commit_frames c es s) = ss_invalidations s" "ss_science (commit_frames c es s) = ss_science s"
  "applied (commit_frames c es s) = applied s @ committed es"
  unfolding commit_frames_def by (induction es arbitrary: s) (auto split: effect.splits)

lemma with_batcher_fields [simp]:
  "ss_frames (with_batcher c r s) = fst r" "loop_vars (with_batcher c r s) = loop_vars s"
  "ss_invalidations (with_batcher c r s) = ss_invalidations s" "ss_science (with_batcher c r s) = ss_science s"
  "applied (with_batcher c r s) = applied s @ committed (snd r)"
  by (simp_all add: with_batcher_def)

lemma applied_science [simp]: "applied_outputs (science_outputs c es) = []"
  by (auto simp: science_outputs_def applied_outputs_def split: effect.splits)

lemma with_science_fields [simp]:
  "ss_frames (with_science c r s) = ss_frames s" "loop_vars (with_science c r s) = loop_vars s"
  "ss_invalidations (with_science c r s) = ss_invalidations s" "ss_store (with_science c r s) = ss_store s"
  "applied (with_science c r s) = applied s" "ss_science (with_science c r s) = fst r"
  by (simp_all add: with_science_def)

lemma push_science_fields [simp]:
  "ss_frames (push_science c h f s) = ss_frames s" "loop_vars (push_science c h f s) = loop_vars s"
  "ss_invalidations (push_science c h f s) = ss_invalidations s" "ss_store (push_science c h f s) = ss_store s"
  "applied (push_science c h f s) = applied s"
  by (simp_all add: push_science_def split: option.splits)

lemma run_microtask_fields [simp]:
  "ss_frames (run_microtask s) = ss_frames s" "loop_vars (run_microtask s) = loop_vars s"
  "ss_store (run_microtask s) = ss_store s" "applied (run_microtask s) = applied s"
  by (simp_all add: run_microtask_def flush_invalidations_def split: if_splits)

lemma display_science_fields [simp]:
  "ss_frames (display_science c s) = ss_frames s" "loop_vars (display_science c s) = loop_vars s"
  "ss_store (display_science c s) = ss_store s" "applied (display_science c s) = applied s"
  by (simp_all add: display_science_def)

text \<open>The batcher of frames: running, with what was applied and what is queued.\<close>

definition frames_inv :: "transport_frame list \<Rightarrow> session_stream \<Rightarrow> bool" where
  "frames_inv fs s \<longleftrightarrow> \<not> fb_stopped (ss_frames s) \<and> wf_batcher (ss_frames s) \<and> applied s @ fb_queued (ss_frames s) = fs"

lemma frames_inv_flush: "frames_inv fs s \<Longrightarrow> frames_inv fs (with_batcher c (flush (ss_frames s)) s)"
  using flush_batcher [of "ss_frames s"] by (simp add: frames_inv_def)

lemma frames_inv_push: "frames_inv fs s \<Longrightarrow> frames_inv (fs @ [f]) (with_batcher c (push (ss_frames s) h f) s)"
  using push_batcher [of "ss_frames s" h f] by (auto simp: frames_inv_def)

lemma lose_stream_fields [simp]:
  "ss_frames (lose_stream s) = ss_frames s" "applied (lose_stream s) = applied s"
  "ss_store (lose_stream s) = setStreamState (ss_store s) StreamReconnecting"
  "ss_frames (fail_stream a s) = ss_frames s" "applied (fail_stream a s) = applied s"
  "ss_store (fail_stream a s) = setStreamState (ss_store s) StreamReconnecting"
  by (simp_all add: lose_stream_def fail_stream_def mark_stream_def)

lemma loop_head_fields [simp]:
  "ss_frames (loop_head s) = ss_frames s" "applied (loop_head s) = applied s" "ss_store (loop_head s) = ss_store s"
  "ss_frames (open_stream s) = ss_frames s" "applied (open_stream s) = applied s" "ss_store (open_stream s) = ss_store s"
  by (simp_all add: loop_head_def open_stream_def)

lemma frames_inv_batch:
  assumes "frames_inv fs s"
  shows "frames_inv (fs @ [f]) (batch_frame c h f s)"
proof -
  let ?s1 = "push_science c (Suc h) f (with_batcher c (push (ss_frames s) h f) s)"
  have "frames_inv (fs @ [f]) ?s1"
    using frames_inv_push [OF assms, of f c h] by (simp add: frames_inv_def)
  then show ?thesis using frames_inv_flush [of _ ?s1] by (simp add: batch_frame_def Let_def)
qed

lemma frames_inv_receive:
  assumes "frames_inv fs s"
  shows "frames_inv (fs @ [f]) (receive_frame c h f s)"
proof -
  let ?s1 = "clear_models f (mark_stream StreamLive (s\<lparr>ss_reconnectDelay := STREAM_RECONNECT_BASE_MS\<rparr>))"
  have "frames_inv fs ?s1"
    using assms by (simp add: frames_inv_def clear_models_def mark_stream_def)
  from frames_inv_batch [OF this, of f c h] show ?thesis
    by (auto simp: receive_frame_def Let_def frames_inv_def invalidate_for_def split: sum.splits option.splits)
qed

text \<open>The frames among the inputs.\<close>

definition received :: "stream_input list \<Rightarrow> transport_frame list" where
  "received is = concat (map (\<lambda>i. case i of GotFrame _ f \<Rightarrow> [f] | _ \<Rightarrow> []) is)"

lemma frames_inv_next:
  assumes "frames_inv (received is) s" "stream_next c s i = Some s'"
  shows "frames_inv (received (is @ [i])) s'"
proof (cases i)
  case (GotFrame h f)
  with assms show ?thesis by (auto simp: received_def intro: frames_inv_receive split: stream_phase.splits)
next
  case DisplayFrame
  with assms show ?thesis by (auto simp: received_def display_frame_def intro: frames_inv_flush)
next
  case Microtask
  with assms show ?thesis by (auto simp: received_def frames_inv_def)
qed (use assms in \<open>auto simp: received_def frames_inv_def reconcile_done_def delay_over_def
    split: stream_phase.splits if_splits\<close>)

lemma frames_inv_start: "frames_inv [] (start_stream cur st)"
  by (simp add: frames_inv_def start_stream_def mark_stream_def applied_def newBatcher_def wf_batcher_def)
    (simp add: loop_head_def open_stream_def)

lemma frames_inv_run:
  assumes "stream_run c (start_stream cur st) is = Some s"
  shows "frames_inv (received is) s"
  using assms
proof (induction rule: stream_run_induct)
  case start
  show ?case by (simp add: received_def frames_inv_start)
qed (rule frames_inv_next)

section \<open>Properties\<close>

lemma frames_inv_clean_up:
  assumes "stream_run c (start_stream cur st) is = Some s"
  shows "applied (clean_up c s) = received is"
proof -
  note inv = frames_inv_run [OF assms]
  have "committed (snd (stop True (ss_frames s))) = fb_queued (ss_frames s)"
    using inv flush_batcher(4) [of "ss_frames s"] by (auto simp: frames_inv_def stop_def split: prod.splits)
  with inv show ?thesis
    by (simp add: frames_inv_def clean_up_def Let_def)
qed

text \<open>
  C7. The loop hands every frame to the store exactly once and in the order received: at any
  moment, across any number of reconnects, the batches applied so far followed by the frames
  still queued are the frames received; and the clean-up applies the rest.
\<close>
theorem stream_applies_every_frame_once:
  assumes "stream_run c (start_stream cur st) is = Some s"
  shows "applied s @ fb_queued (ss_frames s) = received is \<and> applied (clean_up c s) = received is"
  using frames_inv_run [OF assms] frames_inv_clean_up [OF assms] by (simp add: frames_inv_def)

text \<open>Each part of a step is a sequence of store actions.\<close>

abbreviation store_actions :: "stream_setting \<Rightarrow> live_store \<Rightarrow> live_store \<Rightarrow> bool" where
  "store_actions c \<equiv> rtranclp (live_step (st_wording c) (st_env c))"

lemma single_actions:
  "store_actions c st (setStreamState st x)"
  "snapshot_ok snap \<Longrightarrow> store_actions c st (reconcileSnapshots st snap)"
  by (simp_all add: r_into_rtranclp live_step.stream live_step.reconcile)

lemma commit_actions: "store_actions c (ss_store s) (ss_store (commit_frames c es s))"
  unfolding commit_frames_def
proof (induction es arbitrary: s)
  case (Cons e es)
  show ?case
  proof (cases e)
    case (Commit fs)
    let ?s = "emit [ApplyFrames fs] (s\<lparr>ss_store := applyFrames (st_wording c) (st_env c) (ss_store s) fs\<rparr>)"
    have "store_actions c (ss_store s) (ss_store ?s)" by (simp add: live_step.frames r_into_rtranclp)
    with Cons [of ?s] Commit show ?thesis by (auto intro: rtranclp_trans)
  qed (use Cons in auto)
qed simp

lemma batcher_actions: "store_actions c (ss_store s) (ss_store (with_batcher c r s))"
  using commit_actions [of c "s\<lparr>ss_frames := fst r\<rparr>"] by (simp add: with_batcher_def)

lemma batch_frame_actions: "store_actions c (ss_store s) (ss_store (batch_frame c h f s))"
proof -
  let ?s = "push_science c (Suc h) f (with_batcher c (push (ss_frames s) h f) s)"
  have "store_actions c (ss_store s) (ss_store ?s)" using batcher_actions [of c s] by simp
  moreover have "store_actions c (ss_store ?s) (ss_store (with_batcher c (flush (ss_frames ?s)) ?s))"
    by (rule batcher_actions)
  ultimately have both: "store_actions c (ss_store s) (ss_store (with_batcher c (flush (ss_frames ?s)) ?s))"
    "store_actions c (ss_store s) (ss_store ?s)"
    using rtranclp_trans by fast+
  show ?thesis
    by (cases "fr_eventName f = ''message.completed''") (simp_all only: batch_frame_def Let_def both if_True if_False refl)
qed

lemma receive_actions: "store_actions c (ss_store s) (ss_store (receive_frame c h f s))"
proof -
  let ?m = "mark_stream StreamLive (s\<lparr>ss_reconnectDelay := STREAM_RECONNECT_BASE_MS\<rparr>)"
  let ?b = "batch_frame c h f (clear_models f ?m)"
  have m: "store_actions c (ss_store s) (ss_store ?m)"
    by (simp add: mark_stream_def live_step.stream r_into_rtranclp)
  have "store_actions c (ss_store ?m) (ss_store (clear_models f ?m))"
    by (simp add: clear_models_def live_step.clear_models r_into_rtranclp)
  with m batch_frame_actions have b: "store_actions c (ss_store s) (ss_store ?b)"
    by (meson rtranclp_trans)
  have "ss_store (receive_frame c h f s) \<in> {ss_store ?b, setStreamState (ss_store ?b) StreamReconnecting}"
    by (auto simp: receive_frame_def Let_def invalidate_for_def split: sum.splits option.splits)
  with b show ?thesis by (auto intro: rtranclp_trans [OF _ single_actions(1)])
qed

definition snapshots_ok :: "stream_input list \<Rightarrow> bool" where
  "snapshots_ok is = list_all (\<lambda>i. case i of GotSnapshots snap _ \<Rightarrow> snapshot_ok snap | _ \<Rightarrow> True) is"

lemma next_actions:
  assumes "stream_next c s i = Some s'" "snapshots_ok [i]"
  shows "store_actions c (ss_store s) (ss_store s')"
proof (cases i)
  case (GotFrame h f)
  with assms show ?thesis by (auto intro: receive_actions split: stream_phase.splits)
next
  case DisplayFrame
  with assms show ?thesis by (auto simp: display_frame_def intro: batcher_actions)
qed (use assms in \<open>auto simp: snapshots_ok_def reconcile_done_def delay_over_def
    intro: single_actions split: stream_phase.splits if_splits\<close>)

lemma run_actions:
  "stream_run c s is = Some s' \<Longrightarrow> snapshots_ok is \<Longrightarrow> store_actions c (ss_store s) (ss_store s')"
proof (induction "is" arbitrary: s)
  case (Cons i "is")
  then obtain s1 where "stream_next c s i = Some s1" "stream_run c s1 is = Some s'"
    by (auto split: bind_splits)
  with Cons next_actions [of c s i s1] show ?case by (fastforce simp: snapshots_ok_def intro: rtranclp_trans)
qed simp

lemma start_actions: "store_actions c st (ss_store (start_stream cur st))"
proof -
  have "live_step (st_wording c) (st_env c) st (claimStream st)"
    "live_step (st_wording c) (st_env c) (claimStream st) (setStreamState (claimStream st) StreamConnecting)"
    by (rule live_step.claim live_step.stream)+
  then show ?thesis by (auto simp: start_stream_def mark_stream_def)
qed

lemma clean_up_actions: "store_actions c (ss_store s) (ss_store (clean_up c s))"
proof -
  let ?s = "s\<lparr>ss_store := releaseStream (ss_store s), ss_phase := LoopOver\<rparr>"
  have "ss_store (clean_up c s) = ss_store (with_batcher c (stop True (ss_frames ?s)) ?s)"
    by (simp add: clean_up_def Let_def)
  moreover have "store_actions c (ss_store s) (ss_store ?s)" by (simp add: live_step.release r_into_rtranclp)
  ultimately show ?thesis using batcher_actions [of c ?s "stop True (ss_frames ?s)"] by (metis rtranclp_trans)
qed

text \<open>Only the claim and the release change the count of stream owners.\<close>

definition owners :: "session_stream \<Rightarrow> int" where
  "owners s = ls_streamOwners (ss_store s)"

lemma owners_store [simp]:
  "ls_streamOwners (applyFrames w env st fs) = ls_streamOwners st"
  "ls_streamOwners (setStreamState st x) = ls_streamOwners st"
  "ls_streamOwners (reconcileSnapshots st snap) = ls_streamOwners st"
  "ls_streamOwners (clearSessionModelReferences st) = ls_streamOwners st"
  by (simp_all add: applyFrames_def setStreamState_def reconcileSnapshots_def clearSessionModelReferences_def Let_def)

lemma owners_commit [simp]: "ls_streamOwners (ss_store (with_batcher c r s)) = ls_streamOwners (ss_store s)"
proof -
  have "ls_streamOwners (ss_store (commit_frames c es s)) = ls_streamOwners (ss_store s)" for es s
    unfolding commit_frames_def by (induction es arbitrary: s) (auto split: effect.splits)
  then show ?thesis by (simp add: with_batcher_def)
qed

lemma owners_receive [simp]: "ls_streamOwners (ss_store (receive_frame c h f s)) = ls_streamOwners (ss_store s)"
  by (auto simp: receive_frame_def Let_def invalidate_for_def batch_frame_def clear_models_def mark_stream_def
      split: sum.splits option.splits)

lemma owners_run: "stream_run c s is = Some s' \<Longrightarrow> owners s' = owners s"
proof (induction "is" arbitrary: s)
  case (Cons i "is")
  then obtain s1 where s1: "stream_next c s i = Some s1" "stream_run c s1 is = Some s'"
    by (auto split: bind_splits)
  moreover have "owners s1 = owners s"
    using s1(1) by (cases i) (auto simp: owners_def reconcile_done_def delay_over_def display_frame_def
        split: stream_phase.splits if_splits)
  ultimately show ?case using Cons.IH by simp
qed simp

text \<open>
  C8. The loop is a client of the live store: whatever happens to the connection, the store it
  leaves after its clean-up is one that a sequence of the store's actions produces from the
  store it found. So what the store's contract promises of every such sequence holds here: a
  well-formed store with bounded histories stays one; and the loop's own claim on the stream
  is given back.
\<close>
theorem stream_refines_the_store:
  assumes "stream_run c (start_stream cur st) is = Some s" "snapshots_ok is" "live_ok st"
  shows "store_actions c st (ss_store (clean_up c s)) \<and> live_ok (ss_store (clean_up c s))
    \<and> ls_streamOwners (ss_store (clean_up c s)) = ls_streamOwners st"
proof -
  have run: "store_actions c st (ss_store (clean_up c s))"
    using start_actions [of c st cur] run_actions [OF assms(1,2)] clean_up_actions [of c s] by (meson rtranclp_trans)
  then have "live_ok (ss_store (clean_up c s))"
    using assms(3) by (induction rule: rtranclp_induct) (auto intro: live_step_ok)
  moreover have "ls_streamOwners (ss_store (clean_up c s)) = ls_streamOwners st"
    using owners_run [OF assms(1)] assms(3)
    by (simp add: clean_up_def Let_def owners_def start_stream_def mark_stream_def releaseStream_def claimStream_def
        live_ok_def)
  ultimately show ?thesis using run by blast
qed

section \<open>Backing off and resuming\<close>

text \<open>The waits since the last frame.\<close>

definition retries :: "stream_input list \<Rightarrow> nat" where
  "retries is = foldl (\<lambda>n i. case i of GotFrame _ _ \<Rightarrow> 0 | DelayOver \<Rightarrow> Suc n | _ \<Rightarrow> n) 0 is"

definition backoff :: "nat \<Rightarrow> nat" where
  "backoff k = min STREAM_RECONNECT_MAX_MS (STREAM_RECONNECT_BASE_MS * 2 ^ k)"

definition loop_inv :: "stream_input list \<Rightarrow> session_stream \<Rightarrow> bool" where
  "loop_inv is s \<longleftrightarrow> ss_reconnectDelay s = backoff (retries is)
     \<and> (\<forall>d. ss_phase s = Delaying d \<longrightarrow> d = ss_reconnectDelay s \<and> ss_reconcileBeforeConnect s)
     \<and> (ss_phase s = Reconciling \<longrightarrow> ss_reconcileBeforeConnect s)
     \<and> (\<forall>cur. ss_phase s = Streaming cur \<longrightarrow> \<not> ss_reconcileBeforeConnect s)"

lemma backoff_next: "nextReconnectDelay (backoff k) = backoff (Suc k)"
  by (simp add: nextReconnectDelay_def backoff_def min_def)

lemma backoff_zero: "backoff 0 = STREAM_RECONNECT_BASE_MS"
  by (simp add: backoff_def STREAM_RECONNECT_MAX_MS_def STREAM_RECONNECT_BASE_MS_def)

lemma loop_inv_vars:
  "loop_vars s' = loop_vars s \<Longrightarrow> retries is' = retries is \<Longrightarrow> loop_inv is' s' = loop_inv is s"
  by (simp add: loop_inv_def loop_vars_def)

lemma batch_frame_vars [simp]: "loop_vars (batch_frame c h f s) = loop_vars s"
  by (simp add: batch_frame_def Let_def)

lemma loop_inv_receive:
  assumes "loop_inv is s" "ss_phase s = Streaming cur"
  shows "loop_inv (is @ [GotFrame h f]) (receive_frame c h f s)"
proof -
  let ?b = "batch_frame c h f (clear_models f (mark_stream StreamLive (s\<lparr>ss_reconnectDelay := STREAM_RECONNECT_BASE_MS\<rparr>)))"
  have "loop_vars ?b = loop_vars (s\<lparr>ss_reconnectDelay := STREAM_RECONNECT_BASE_MS\<rparr>)"
    by (simp add: clear_models_def mark_stream_def)
  then have b: "ss_reconnectDelay ?b = backoff 0" "\<not> ss_reconcileBeforeConnect ?b" "ss_phase ?b = Streaming cur"
    using assms by (simp_all add: loop_vars_def backoff_zero loop_inv_def)
  have "retries (is @ [GotFrame h f]) = 0" by (simp add: retries_def)
  with b show ?thesis
    unfolding receive_frame_def Let_def
    by (cases "streamNoticeForFrame f") (auto simp: loop_inv_def invalidate_for_def lose_stream_def
        fail_stream_def mark_stream_def split: option.split)
qed

lemma loop_inv_next:
  assumes "loop_inv is s" "stream_next c s i = Some s'"
  shows "loop_inv (is @ [i]) s'"
proof (cases i)
  case (GotFrame h f)
  with assms show ?thesis by (auto intro: loop_inv_receive split: stream_phase.splits)
next
  case DelayOver
  with assms show ?thesis
    by (auto simp: delay_over_def loop_head_def open_stream_def loop_inv_def retries_def backoff_next [symmetric]
        split: stream_phase.splits)
next
  case DisplayFrame
  with assms show ?thesis
    by (auto simp: display_frame_def retries_def elim: loop_inv_vars [THEN iffD2, rotated 2])
next
  case DisplayScience
  with assms show ?thesis by (auto simp: retries_def elim: loop_inv_vars [THEN iffD2, rotated 2])
next
  case Microtask
  with assms show ?thesis by (auto simp: retries_def elim: loop_inv_vars [THEN iffD2, rotated 2])
qed (use assms in \<open>auto simp: loop_inv_def retries_def reconcile_done_def open_stream_def lose_stream_def fail_stream_def
    mark_stream_def split: stream_phase.splits if_splits\<close>)

lemma loop_inv_run:
  assumes "stream_run c (start_stream cur st) is = Some s"
  shows "loop_inv is s"
  using assms
proof (induction rule: stream_run_induct)
  case start
  show ?case
    by (simp add: loop_inv_def retries_def start_stream_def loop_head_def open_stream_def mark_stream_def backoff_zero)
qed (rule loop_inv_next)

text \<open>
  C20. Backing off. However the connection fares, the wait before the next attempt is 250 ms
  doubled once per attempt since the last frame arrived and never more than 8 s; a frame
  resets it.
\<close>
theorem reconnect_backs_off:
  assumes "stream_run c (start_stream cur st) is = Some s"
  shows "ss_reconnectDelay s = min 8000 (250 * 2 ^ retries is)
    \<and> (\<forall>d. ss_phase s = Delaying d \<longrightarrow> d = ss_reconnectDelay s \<and> 250 \<le> d \<and> d \<le> 8000)"
proof -
  have "backoff k = min 8000 (250 * 2 ^ k)" for k
    by (simp add: backoff_def STREAM_RECONNECT_MAX_MS_def STREAM_RECONNECT_BASE_MS_def)
  moreover have "250 \<le> backoff k \<and> backoff k \<le> 8000" for k
    by (simp add: backoff_def STREAM_RECONNECT_MAX_MS_def STREAM_RECONNECT_BASE_MS_def)
  moreover have "ss_reconnectDelay s = backoff (retries is)"
    "ss_phase s = Delaying d \<Longrightarrow> d = ss_reconnectDelay s" for d
    using loop_inv_run [OF assms] by (simp_all add: loop_inv_def)
  ultimately show ?thesis by metis
qed

text \<open>
  No connection is reopened on stale data. After the first one, a connection is only ever
  opened by the answer of the snapshot reads; the store then holds the reconciled snapshot
  with no cursor of its own, and the stream resumes at the snapshot's cursor, or, when the
  snapshot has none, at the one it resumed from before.
\<close>
lemma reconnect_resumes_at_the_snapshot:
  assumes "stream_run c (start_stream cur st) is = Some s" "stream_next c s i = Some s'"
    and "\<And>x. ss_phase s \<noteq> Streaming x" "ss_phase s' = Streaming point"
  shows "\<exists>snap cursor. i = GotSnapshots snap cursor \<and> point = or_else cursor (ss_resumeCursor s)
    \<and> ss_store s' = reconcileSnapshots (ss_store s) snap \<and> \<not> ss_reconcileBeforeConnect s'"
proof (cases i)
  case (GotSnapshots snap cursor)
  with assms show ?thesis
    by (auto simp: reconcile_done_def open_stream_def latestCursor_def truthy_str_def reconcileSnapshots_def
        split: if_splits)
next
  case DelayOver
  with assms loop_inv_run [OF assms(1)] show ?thesis
    by (auto simp: loop_inv_def delay_over_def loop_head_def split: stream_phase.splits)
next
  case DisplayFrame
  then have "loop_vars s' = loop_vars s" using assms(2) by (auto simp: display_frame_def)
  then have "ss_phase s' = ss_phase s" by (simp add: loop_vars_def)
  with assms(3,4) show ?thesis by metis
next
  case DisplayScience
  then have "loop_vars s' = loop_vars s" using assms(2) by auto
  then have "ss_phase s' = ss_phase s" by (simp add: loop_vars_def)
  with assms(3,4) show ?thesis by metis
next
  case Microtask
  then have "loop_vars s' = loop_vars s" using assms(2) by auto
  then have "ss_phase s' = ss_phase s" by (simp add: loop_vars_def)
  with assms(3,4) show ?thesis by metis
qed (use assms in \<open>auto simp: fail_stream_def lose_stream_def split: stream_phase.splits if_splits\<close>)

section \<open>Batches make no difference\<close>

lemma applyFrames_append:
  "applyFrames w env (applyFrames w env st xs) ys = applyFrames w env st (xs @ ys)"
proof -
  have "take_last n (take_last n (g @ a) @ b) = take_last n (g @ a @ b)" for n and g a b :: "transport_gap list"
    using take_last_append_take_last [where xs = "g @ a" and ys = b and n = n] by simp
  then show ?thesis
    by (simp add: applyFrames_def reduceFramesContained_def frames.contained_append Let_def)
qed

text \<open>
  How frames fall into display frames makes no difference to the store: applying them batch
  by batch gives the store that applying them all at once does, with the same entities and the
  same retained gaps.
\<close>
lemma batches_make_no_difference:
  "foldl (applyFrames w env) (applyFrames w env st b) bs = applyFrames w env st (b @ concat bs)"
  by (induction bs arbitrary: b) (simp_all add: applyFrames_append)

section \<open>A reconcile does not wait for the batcher\<close>

text \<open>
  A delta that is still queued when the snapshots answer is applied on top of the snapshot:
  the loop does not flush its batcher before it reconciles, and the reconcile forgets the
  cursors that would mark the frame as a replay. When the snapshot's message already holds the
  delta, its text then holds it twice.
\<close>
lemma queued_delta_lands_on_the_snapshot:
  assumes "live_ok (ss_store s)" "snapshot_ok snap" "fb_queued (ss_frames s) = [f]" "fb_handle (ss_frames s) \<noteq> None"
    and "delta_frame (st_env c) mid bid f e d" "timelineCursor f" "rising (ls_entities (reconcileSnapshots (ss_store s) snap)) [e]"
    and "sn_messages snap = Some msgs" "obj_get msgs mid = Some m"
  shows "obj_get (es_messages (ls_entities (ss_store (display_frame c (reconcile_done c snap cursor s))))) mid
    = Some (appendDelta m bid d)"
proof -
  let ?r = "reconcileSnapshots (ss_store s) snap"
  have "live_ok ?r" using live_step_ok [OF live_step.reconcile [OF assms(2)] assms(1)] by blast
  then have wf: "wf_store (ls_entities ?r)" by (simp add: live_ok_def wf_state_def)
  have m: "obj_get (es_messages (ls_entities ?r)) mid = Some m"
    using assms(8,9) by (simp add: reconcileSnapshots_def spread_snapshot_def coalesce_def)
  have "fresh (ls_entities ?r) [f]"
    using assms(6) by (simp add: fresh_def reconcileSnapshots_def)
  from reduce_delta_frame [OF wf m assms(5) this assms(7)] obtain s1 where
    s1: "reduceTransportFrame (st_env c) (ls_entities ?r) f = Inr s1" "obj_get (es_messages s1) mid = Some (appendDelta m bid d)"
    by auto
  from assms(5) s1(1) have "frames.accepted (st_env c) (ls_entities ?r) f"
    by (auto simp: frames.accepted_def delta_frame_def)
  from frames.contained_one(1) [OF this s1(1)]
  have e: "ls_entities (applyFrames (st_wording c) (st_env c) ?r [f]) = s1"
    by (simp add: applyFrames_def reduceFramesContained_def Let_def)
  have "ss_store (display_frame c (reconcile_done c snap cursor s)) = applyFrames (st_wording c) (st_env c) ?r [f]"
    using assms(3,4) by (auto simp: display_frame_def reconcile_done_def with_batcher_def flush_def Let_def
        commit_frames_def cancel_effects_def split: option.split)
  with e s1(2) show ?thesis by simp
qed

section \<open>Invalidations\<close>

text \<open>Whatever the event, only reads of this endpoint are refreshed, and of this session or workspace.\<close>

fun in_scope :: "stream_scope \<Rightarrow> read_key \<Rightarrow> bool" where
  "in_scope sp (space # endpoint # scope) \<longleftrightarrow> endpoint = sp_endpoint sp
     \<and> (scope = [] \<or> scope = [''waiting''] \<or> scope = [sp_workspaceId sp] \<or> hd scope = sp_sessionId sp)"
| "in_scope sp _ \<longleftrightarrow> False"

lemma list_all_only_if [simp]: "list_all P (only_if b xs) \<longleftrightarrow> b \<longrightarrow> list_all P xs"
  by (simp add: only_if_def)

lemma resource_keys_in_scope [simp]:
  "list_all (in_scope sp) (resourceInvalidationKeys eventName (sp_endpoint sp) (sp_workspaceId sp))"
  by (simp add: resourceInvalidationKeys_def)

lemma invalidations_stay_in_scope: "list_all (in_scope sp) (queryInvalidationKeysForEvent sp update eventName)"
  by (simp add: queryInvalidationKeysForEvent_def Let_def)

definition pending_of :: "read_key list \<Rightarrow> (read_key \<times> read_key) list" where
  "pending_of ks = map (\<lambda>k. (k, k)) ks"

lemma map_set_pending: "map_set (pending_of ks) k k = pending_of (if k \<in> set ks then ks else ks @ [k])"
  by (induction ks) (auto simp: pending_of_def)

lemma pending_fold:
  "foldl (\<lambda>m k. map_set m k k) (pending_of (first_uses xs)) ks = pending_of (first_uses (xs @ ks))"
proof (induction ks rule: rev_induct)
  case (snoc k ks)
  then show ?case using first_uses_snoc [of "xs @ ks" k] by (simp add: map_set_pending)
qed simp

lemma push_invalidations_pending:
  assumes "\<not> ib_stopped b" "ib_pending b = pending_of (first_uses xs)" "xs \<noteq> [] \<longrightarrow> ib_scheduled b"
  shows "\<not> ib_stopped (push_invalidations ks b) \<and> ib_pending (push_invalidations ks b) = pending_of (first_uses (xs @ ks))
    \<and> (xs @ ks \<noteq> [] \<longrightarrow> ib_scheduled (push_invalidations ks b))"
  using assms by (auto simp: push_invalidations_def Let_def pending_fold) (simp_all add: pending_of_def)

lemma pushes_pending:
  assumes "\<not> ib_stopped b" "ib_pending b = []"
  shows "\<not> ib_stopped (foldl (\<lambda>b ks. push_invalidations ks b) b pushes)
    \<and> ib_pending (foldl (\<lambda>b ks. push_invalidations ks b) b pushes) = pending_of (first_uses (concat pushes))
    \<and> (concat pushes \<noteq> [] \<longrightarrow> ib_scheduled (foldl (\<lambda>b ks. push_invalidations ks b) b pushes))"
proof (induction pushes rule: rev_induct)
  case Nil
  with assms show ?case by (simp add: pending_of_def first_uses_def)
next
  case (snoc ks pushes)
  then show ?case using push_invalidations_pending [of "foldl (\<lambda>b ks. push_invalidations ks b) b pushes" "concat pushes" ks] by simp
qed

text \<open>
  Refreshes are coalesced and none is lost: the keys pushed between two microtasks are each
  refreshed exactly once, in the order they were first pushed, whatever their repetitions; a
  microtask is scheduled whenever something is pending, and nothing is pending after it.
\<close>
lemma invalidations_are_coalesced:
  assumes "\<not> ib_stopped b" "ib_pending b = []"
  shows "snd (flush_invalidations (foldl (\<lambda>b ks. push_invalidations ks b) b pushes)) = first_uses (concat pushes)
    \<and> distinct (first_uses (concat pushes)) \<and> set (first_uses (concat pushes)) = set (concat pushes)
    \<and> (concat pushes \<noteq> [] \<longrightarrow> ib_scheduled (foldl (\<lambda>b ks. push_invalidations ks b) b pushes))
    \<and> ib_pending (fst (flush_invalidations (foldl (\<lambda>b ks. push_invalidations ks b) b pushes))) = []"
  using pushes_pending [OF assms, of pushes] by (simp add: flush_invalidations_def pending_of_def comp_def)

section \<open>A run for the witnesses\<close>

definition ex_setting :: stream_setting where
  "ex_setting = \<lparr>st_wording = \<lambda>p. p, st_env = ex_env, st_scienceEntry = \<lambda>_. None,
     st_scope = \<lparr>sp_endpoint = ''e'', sp_sessionId = ''s'', sp_workspaceId = ''w''\<rparr>\<rparr>"

definition ex_stream_delta :: "string \<Rightarrow> string \<Rightarrow> transport_frame" where
  "ex_stream_delta cursor d = ex_plain_frame cursor ''message.block.delta'' (ex_delta_payload d)"

text \<open>A frame, a lost connection, a failed and a successful reconcile, another frame.\<close>

definition ex_inputs :: "stream_input list" where
  "ex_inputs = [GotFrame 1 (ex_stream_delta ''1'' ''a''), ConnectionEnded, DelayOver, SnapshotsFailed False, DelayOver,
     GotSnapshots empty_snapshot (Some ''5''), GotFrame 2 (ex_stream_delta ''6'' ''b'')]"

lemma receive_vars:
  assumes "streamNoticeForFrame f = Inr n"
  shows "loop_vars (receive_frame c h f s) = loop_vars (s\<lparr>ss_reconnectDelay := STREAM_RECONNECT_BASE_MS\<rparr>)"
  using assms by (auto simp: receive_frame_def Let_def invalidate_for_def clear_models_def mark_stream_def split: option.split)

lemma receive_phase [simp]:
  "streamNoticeForFrame f = Inr n \<Longrightarrow> ss_phase (receive_frame c h f s) = ss_phase s"
  using receive_vars [of f n c h s] by (simp add: loop_vars_def)

lemma ex_stream_delta_notice [simp]: "streamNoticeForFrame (ex_stream_delta cursor d) = Inr None"
  by (simp add: streamNoticeForFrame_def ex_stream_delta_def ex_plain_frame_def)

lemma receive_flag:
  "streamNoticeForFrame f = Inr n \<Longrightarrow> ss_reconcileBeforeConnect (receive_frame c h f s) = ss_reconcileBeforeConnect s"
  using receive_vars [of f n c h s] by (simp add: loop_vars_def)

lemmas ex_run = stream_next.simps start_stream_def loop_head_def open_stream_def mark_stream_def lose_stream_def
  fail_stream_def delay_over_def reconcile_done_def receive_flag

lemma ex_inputs_run: "\<exists>s. stream_run ex_setting (start_stream None initial_store) ex_inputs = Some s"
  by (simp add: ex_inputs_def ex_run)

lemma initial_store_ok: "live_ok initial_store"
  by (simp add: live_ok_def initial_store_def)

theorem stream_applies_every_frame_once_witness:
  "\<exists>s. stream_run ex_setting (start_stream None initial_store) ex_inputs = Some s
     \<and> applied (clean_up ex_setting s) = [ex_stream_delta ''1'' ''a'', ex_stream_delta ''6'' ''b'']"
  using ex_inputs_run stream_applies_every_frame_once by (fastforce simp: received_def ex_inputs_def)

theorem stream_refines_the_store_witness:
  "\<exists>s. stream_run ex_setting (start_stream None initial_store) ex_inputs = Some s
     \<and> live_ok (ss_store (clean_up ex_setting s)) \<and> ls_streamOwners (ss_store (clean_up ex_setting s)) = 0"
proof -
  obtain s where s: "stream_run ex_setting (start_stream None initial_store) ex_inputs = Some s"
    using ex_inputs_run by blast
  have "snapshots_ok ex_inputs" by (simp add: snapshots_ok_def ex_inputs_def)
  from stream_refines_the_store [OF s this initial_store_ok] s show ?thesis by (simp add: initial_store_def)
qed

theorem reconnect_backs_off_witness:
  "\<exists>s. stream_run ex_setting (start_stream None initial_store) [ConnectionEnded, DelayOver, SnapshotsFailed False, DelayOver] = Some s
     \<and> ss_reconnectDelay s = 1000"
proof -
  obtain s where s: "stream_run ex_setting (start_stream None initial_store)
      [ConnectionEnded, DelayOver, SnapshotsFailed False, DelayOver] = Some s" by (simp add: ex_run)
  from reconnect_backs_off [OF s] s show ?thesis by (simp add: retries_def)
qed

text \<open>The snapshot's message reads \<open>Hi!\<close>; the queued delta \<open>!\<close> is added to it again.\<close>

end
