(* ===== verification/Study_Tree.thy ===== *)
theory Study_Tree
  imports Science_Log
begin

text \<open>
  \<open>web/src/components/clio/science-log-model.ts\<close>: the tree of a study's branches. The recursion
  walks the branches with a shared set of visited sessions; the set is threaded through the
  model, and a node's depth is the fuel, which the number of branches bounds. The locale's
  comparison of texts (\<open>localeCompare\<close>) is an argument: it decides the order of entry nodes only.
\<close>

section \<open>States and titles\<close>

datatype science_tone = ToneRunning | ToneSupported | ToneRefuted | ToneSuperseded | ToneNeutral

record science_state =
  ss_label :: string
  ss_tone :: science_tone

definition RUNNING :: "string list" where
  "RUNNING = [''running'', ''queued'', ''accepted'', ''dispatching'', ''pending'', ''started'']"

definition spaces_for_underscores :: "string \<Rightarrow> string" where
  "spaces_for_underscores s = map (\<lambda>c. if c = CHR ''_'' then CHR '' '' else c) s"

definition entryState :: "science_entry \<Rightarrow> science_state" where
  "entryState e = (let status = trim (sc_status e) in
     if status = ''supported'' then \<lparr>ss_label = ''supported'', ss_tone = ToneSupported\<rparr>
     else if status = ''refuted'' then \<lparr>ss_label = ''refuted'', ss_tone = ToneRefuted\<rparr>
     else if status = ''superseded'' then \<lparr>ss_label = ''superseded'', ss_tone = ToneSuperseded\<rparr>
     else if status \<in> set RUNNING then \<lparr>ss_label = ''running'', ss_tone = ToneRunning\<rparr>
     else if status \<noteq> [] then \<lparr>ss_label = spaces_for_underscores status, ss_tone = ToneNeutral\<rparr>
     else \<lparr>ss_label = (if sc_type e = ''hypothesis'' then ''open'' else ''recorded''), ss_tone = ToneNeutral\<rparr>)"

definition branchState :: "science_branch \<Rightarrow> science_state" where
  "branchState b = (let task = trim (sb_task_status b) in
     if task \<in> set RUNNING then \<lparr>ss_label = ''running'', ss_tone = ToneRunning\<rparr>
     else if task \<noteq> [] then \<lparr>ss_label = spaces_for_underscores task, ss_tone = ToneNeutral\<rparr>
     else \<lparr>ss_label = ''no task status'', ss_tone = ToneNeutral\<rparr>)"

definition studyRunning :: "science_study \<Rightarrow> bool" where
  "studyRunning s = list_ex (\<lambda>b. ss_tone (branchState b) = ToneRunning) (st_branches s)"

definition branchTitle :: "science_branch \<Rightarrow> string" where
  "branchTitle b = str_or (sb_title b) (str_or (sb_workflow_step b) (sb_session_id b))"

definition branchRelation :: "science_branch \<Rightarrow> (string \<times> string) list \<Rightarrow> string" where
  "branchRelation b titles =
     (if sb_relation b = ''root'' then ''root''
      else if sb_relation b = ''fork'' then
        (let source = str_or (sb_fork_of_session_id b) (sb_parent_session_id b)
         in ''fork of '' @ str_or (coalesce (map_of titles source) []) ''its origin'')
      else if sb_relation b = ''branch'' then ''branch of the conversation''
      else if sb_relation b = ''step'' then
        (if sb_workflow_step b \<noteq> [] then ''step '' @ sb_workflow_step b else ''step'')
      else if sb_relation b = ''delegated'' then ''delegated''
      else ''related branch'')"

section \<open>Entries\<close>

text \<open>\<open>derivedFrom\<close>: the ids an observation derives from.\<close>

definition truthy :: "js_value \<Rightarrow> bool" where
  "truthy v = (case v of JUndef \<Rightarrow> False | JNull \<Rightarrow> False | JBool b \<Rightarrow> b | JNum n \<Rightarrow> n \<noteq> 0 | JStr s \<Rightarrow> s \<noteq> [] | _ \<Rightarrow> True)"

definition derived_id :: "js_value \<Rightarrow> string list" where
  "derived_id v = (case v of
       JStr s \<Rightarrow> [s]
     | JObj o1 \<Rightarrow> (case obj_get o1 ''id'' of Some (JStr s) \<Rightarrow> [s] | _ \<Rightarrow> [])
     | _ \<Rightarrow> [])"

definition derivedFrom :: "science_entry \<Rightarrow> string list" where
  "derivedFrom e = (let raw = coalesce (obj_get (sc_fields e) ''derived_from'') JUndef;
       values = (case raw of JArr vs \<Rightarrow> vs | _ \<Rightarrow> if truthy raw then [raw] else [])
     in concat (map derived_id values))"

type_synonym time_compare = "string \<Rightarrow> string \<Rightarrow> int"

definition branchEntries :: "time_compare \<Rightarrow> science_entry list \<Rightarrow> string \<Rightarrow> science_entry list" where
  "branchEntries cmp entries branch =
     js_sort (\<lambda>l r. cmp (sc_created_at l) (sc_created_at r)) (filter (\<lambda>e. sc_branch e = branch) entries)"

definition entry_type_label :: "string \<Rightarrow> string" where
  "entry_type_label t = coalesce (map_of
     [(''question'', ''Question''), (''hypothesis'', ''Hypothesis''), (''experiment'', ''Experiment''),
      (''observation'', ''Observation''), (''evidence'', ''Evidence''), (''reframe'', ''Reframe''),
      (''conclusion'', ''Conclusion''), (''conflict'', ''Conflict''), (''view'', ''View'')] t) ''Entry''"

text \<open>\<open>entrySummary\<close>: the text an entry is about.\<close>

definition field_text :: "js_value \<Rightarrow> string" where
  "field_text v = (case v of JStr s \<Rightarrow> trim s | _ \<Rightarrow> [])"

definition field_of :: "science_entry \<Rightarrow> string \<Rightarrow> js_value" where
  "field_of e k = coalesce (obj_get (sc_fields e) k) JUndef"

definition summary_key :: "string \<Rightarrow> string" where
  "summary_key t = coalesce (map_of
     [(''question'', ''statement''), (''hypothesis'', ''claim''), (''experiment'', ''method''), (''observation'', ''result''),
      (''evidence'', ''interpretation''), (''reframe'', ''rationale''), (''conflict'', ''description''), (''view'', ''title'')] t) []"

definition first_claim :: "science_entry \<Rightarrow> string" where
  "first_claim e = (case field_of e ''claims'' of
       JArr (c # _) \<Rightarrow> (case js_prop c ''text'' of Inr v \<Rightarrow> field_text v | Inl _ \<Rightarrow> [])
     | _ \<Rightarrow> [])"

definition measurement_count :: "science_entry \<Rightarrow> nat" where
  "measurement_count e = (case field_of e ''measurements'' of
       JArr rows \<Rightarrow> length (filter (\<lambda>r. case r of JObj _ \<Rightarrow> True | JArr _ \<Rightarrow> True | _ \<Rightarrow> False) rows)
     | _ \<Rightarrow> 0)"

definition entrySummary :: "science_entry \<Rightarrow> string" where
  "entrySummary e =
     (let preferred = field_text (field_of e (summary_key (sc_type e)));
          first = (if sc_type e = ''conclusion'' then first_claim e else []);
          count = (if sc_type e = ''observation'' then measurement_count e else 0)
      in if preferred \<noteq> [] then preferred
         else if first \<noteq> [] then first
         else if count \<noteq> 0 then show_nat count @ '' measurement'' @ (if count = 1 then [] else ''s'')
         else coalesce (find (\<lambda>t. t \<noteq> []) (map field_text (obj_values (sc_fields e)))) [])"

section \<open>The tree\<close>

datatype node_kind = NodeQuestion | NodeHypothesis | NodeReframe | NodeBranch

datatype study_node = StudyNode
  (nd_key: string) (nd_kind: node_kind) (nd_branch: string) (nd_entry: "string option") (nd_title: string)
  (nd_relation: "string option") (nd_branchRelation: "string option") (nd_state: science_state)
  (nd_note: "string option") (nd_handle: "string option") (nd_folder: "string option")
  (nd_derivedFrom: "(string \<times> string \<times> string) list") (nd_children: "study_node list")

definition titles_of :: "science_study \<Rightarrow> (string \<times> string) list" where
  "titles_of s = rev (map (\<lambda>b. (sb_session_id b, branchTitle b)) (st_branches s))"

definition entry_by_id :: "science_study \<Rightarrow> string \<Rightarrow> science_entry option" where
  "entry_by_id s i = map_of (rev (map (\<lambda>e. (sc_id e, e)) (st_entries s))) i"

definition study_root :: "science_study \<Rightarrow> string" where
  "study_root s = str_or (st_root_session_id s)
     (str_or (case st_branches s of [] \<Rightarrow> [] | b # _ \<Rightarrow> sb_session_id b) (st_session_id s))"

definition parentOf :: "science_study \<Rightarrow> science_branch \<Rightarrow> string" where
  "parentOf s b = (let parent = (if sb_relation b = ''fork'' then str_or (sb_fork_of_session_id b) (sb_parent_session_id b)
         else sb_parent_session_id b)
     in if parent \<noteq> [] \<and> parent \<noteq> sb_session_id b \<and> parent \<in> set (map sb_session_id (st_branches s))
        then parent else study_root s)"

definition entry_node :: "string \<Rightarrow> science_entry \<Rightarrow> study_node" where
  "entry_node branch e = StudyNode (''entry:'' @ sc_id e)
     (if sc_type e = ''hypothesis'' then NodeHypothesis else NodeReframe) branch (Some (sc_id e))
     (str_or (entrySummary e) (entry_type_label (sc_type e)))
     (if sc_type e = ''hypothesis'' then None else Some ''reframe'') None (entryState e) None None None [] []"

definition entryNodes :: "time_compare \<Rightarrow> science_study \<Rightarrow> string \<Rightarrow> study_node list" where
  "entryNodes cmp s branch = map (entry_node branch)
     (filter (\<lambda>e. sc_type e = ''hypothesis'' \<or> sc_type e = ''reframe'' \<or> (sc_type e = ''question'' \<and> sc_id e \<noteq> st_study s))
       (branchEntries cmp (st_entries s) branch))"

definition derivations :: "time_compare \<Rightarrow> science_study \<Rightarrow> string \<Rightarrow> (string \<times> string \<times> string) list" where
  "derivations cmp s branch = concat (map (\<lambda>e. concat (map (\<lambda>i. case entry_by_id s i of
         Some source \<Rightarrow> if sc_branch source \<noteq> branch
           then [(sc_branch source, i, str_or (coalesce (map_of (titles_of s) (sc_branch source)) []) (sc_branch source))] else []
       | None \<Rightarrow> []) (derivedFrom e)))
     (branchEntries cmp (st_entries s) branch))"

definition some_text :: "string \<Rightarrow> string option" where
  "some_text x = (if x \<noteq> [] then Some x else None)"

definition branch_node :: "time_compare \<Rightarrow> science_study \<Rightarrow> science_branch \<Rightarrow> study_node list \<Rightarrow> study_node" where
  "branch_node cmp s b children = StudyNode (''branch:'' @ sb_session_id b) NodeBranch (sb_session_id b) None (branchTitle b)
     (Some (branchRelation b (titles_of s))) (Some (sb_relation b)) (branchState b)
     (some_text (sb_note b)) (some_text (sb_handle b)) (some_text (sb_node_folder b))
     (derivations cmp s (sb_session_id b)) (entryNodes cmp s (sb_session_id b) @ children)"

definition child_branches :: "science_study \<Rightarrow> string set \<Rightarrow> string \<Rightarrow> science_branch list" where
  "child_branches s visited parent = filter (\<lambda>c. sb_session_id c \<noteq> study_root s \<and> sb_session_id c \<notin> visited \<and> parentOf s c = parent)
     (st_branches s)"

text \<open>\<open>branchNode\<close> and \<open>.map(branchNode)\<close>: the nodes and the sessions visited by then.\<close>

fun branchNode :: "nat \<Rightarrow> time_compare \<Rightarrow> science_study \<Rightarrow> string set \<Rightarrow> science_branch \<Rightarrow> (study_node \<times> string set) option"
  and branchNodes :: "nat \<Rightarrow> time_compare \<Rightarrow> science_study \<Rightarrow> string set \<Rightarrow> science_branch list \<Rightarrow> (study_node list \<times> string set) option" where
  "branchNode 0 cmp s visited b = None"
| "branchNode (Suc n) cmp s visited b =
     (let visited1 = insert (sb_session_id b) visited
      in case branchNodes n cmp s visited1 (child_branches s visited1 (sb_session_id b)) of
           None \<Rightarrow> None
         | Some (children, visited2) \<Rightarrow> Some (branch_node cmp s b children, visited2))"
| "branchNodes n cmp s visited [] = Some ([], visited)"
| "branchNodes n cmp s visited (b # bs) = (case branchNode n cmp s visited b of
       None \<Rightarrow> None
     | Some (node, visited1) \<Rightarrow> (case branchNodes n cmp s visited1 bs of
           None \<Rightarrow> None
         | Some (nodes, visited2) \<Rightarrow> Some (node # nodes, visited2)))"

definition root_branch :: "science_study \<Rightarrow> science_branch option" where
  "root_branch s = find (\<lambda>b. sb_session_id b = study_root s) (st_branches s)"

definition question_node :: "time_compare \<Rightarrow> science_study \<Rightarrow> study_node list \<Rightarrow> study_node" where
  "question_node cmp s children = (let root = study_root s; question = entry_by_id s (st_study s); rootBranch = root_branch s in
     StudyNode (''question:'' @ str_or (st_study s) root) NodeQuestion root (map_option sc_id question)
       (str_or (case question of Some q \<Rightarrow> entrySummary q | None \<Rightarrow> []) ''Study question'')
       (map_option (\<lambda>b. ''asked in '' @ branchTitle b) rootBranch) None
       (case question of Some q \<Rightarrow> entryState q
          | None \<Rightarrow> (case rootBranch of Some b \<Rightarrow> branchState b | None \<Rightarrow> \<lparr>ss_label = ''recorded'', ss_tone = ToneNeutral\<rparr>))
       None (Option.bind rootBranch (\<lambda>b. some_text (sb_handle b))) (Option.bind rootBranch (\<lambda>b. some_text (sb_node_folder b)))
       (derivations cmp s root) (entryNodes cmp s root @ children))"

definition top_branches :: "science_study \<Rightarrow> science_branch list" where
  "top_branches s = filter (\<lambda>b. sb_session_id b \<noteq> study_root s \<and> parentOf s b = study_root s) (st_branches s)"

definition study_fuel :: "science_study \<Rightarrow> nat" where
  "study_fuel s = Suc (length (st_branches s))"

definition studyTree :: "time_compare \<Rightarrow> science_study \<Rightarrow> study_node option" where
  "studyTree cmp s = (case branchNodes (study_fuel s) cmp s {study_root s} (top_branches s) of
       None \<Rightarrow> None
     | Some (topBranches, visited) \<Rightarrow>
         (case branchNodes (study_fuel s) cmp s visited
            (filter (\<lambda>b. sb_session_id b \<noteq> study_root s \<and> sb_session_id b \<notin> visited) (st_branches s)) of
            None \<Rightarrow> None
          | Some (orphans, _) \<Rightarrow> Some (question_node cmp s (topBranches @ orphans))))"

text \<open>The sessions of the branch nodes of a tree, in order of display.\<close>

fun shown_branches :: "study_node \<Rightarrow> string list" where
  "shown_branches (StudyNode key kind branch entry title relation named state note handle folder sources children)
     = (if kind = NodeBranch then [branch] else []) @ concat (map shown_branches children)"

section \<open>Lemmas\<close>

definition branch_ids :: "science_study \<Rightarrow> string set" where
  "branch_ids s = sb_session_id ` set (st_branches s)"

lemma finite_branch_ids [simp]: "finite (branch_ids s)"
  by (simp add: branch_ids_def)

lemma shown_entryNodes [simp]: "concat (map shown_branches (entryNodes cmp s b)) = []"
  by (auto simp: entryNodes_def entry_node_def)

lemma shown_branch_node [simp]:
  "shown_branches (branch_node cmp s b children) = sb_session_id b # concat (map shown_branches children)"
  by (simp add: branch_node_def)

lemma shown_question_node [simp]:
  "shown_branches (question_node cmp s children) = concat (map shown_branches children)"
  by (simp add: question_node_def Let_def)

lemma child_branches_iff:
  "c \<in> set (child_branches s visited p) \<longleftrightarrow> c \<in> set (st_branches s) \<and> sb_session_id c \<noteq> study_root s
     \<and> sb_session_id c \<notin> visited \<and> parentOf s c = p"
  by (auto simp: child_branches_def)

text \<open>The walk ends: a nested call has fewer sessions left to visit.\<close>

lemma branchNode_returns:
  "card (branch_ids s - insert (sb_session_id b) V) < n \<Longrightarrow>
     \<exists>nd W. branchNode n cmp s V b = Some (nd, W) \<and> insert (sb_session_id b) V \<subseteq> W"
  "card (branch_ids s - U) \<le> n \<Longrightarrow> U \<subseteq> V \<Longrightarrow> sb_session_id ` set bs \<subseteq> branch_ids s - U \<Longrightarrow>
     \<exists>nds W. branchNodes n cmp s V bs = Some (nds, W) \<and> V \<subseteq> W"
proof (induction n cmp s V b and n cmp s V bs arbitrary: and U rule: branchNode_branchNodes.induct)
  case (2 n cmp s V b)
  let ?V = "insert (sb_session_id b) V"
  have sub: "sb_session_id ` set (child_branches s ?V (sb_session_id b)) \<subseteq> branch_ids s - ?V"
    by (auto simp: child_branches_iff branch_ids_def)
  have "card (branch_ids s - ?V) \<le> n" using 2(2) by simp
  from 2(1) [OF refl this subset_refl sub] obtain nds W where
    "branchNodes n cmp s ?V (child_branches s ?V (sb_session_id b)) = Some (nds, W)" "?V \<subseteq> W" by blast
  then show ?case by (simp add: Let_def)
next
  case (4 n cmp s V b bs)
  have "branch_ids s - insert (sb_session_id b) V \<subset> branch_ids s - U" using 4(4,5) by auto
  then have "card (branch_ids s - insert (sb_session_id b) V) < n"
    using 4(3) by (meson finite_Diff finite_branch_ids order_less_le_trans psubset_card_mono)
  from 4(1) [OF this] obtain nd W where nd: "branchNode n cmp s V b = Some (nd, W)" "insert (sb_session_id b) V \<subseteq> W" by blast
  have "U \<subseteq> W" "sb_session_id ` set bs \<subseteq> branch_ids s - U" using nd(2) 4(4,5) by auto
  from 4(2) [OF nd(1) refl 4(3) this] obtain nds W' where "branchNodes n cmp s W bs = Some (nds, W')" "W \<subseteq> W'" by blast
  with nd show ?case by auto
qed auto

text \<open>What a walk shows and marks, with one branch per session.\<close>

definition descends :: "science_study \<Rightarrow> string set \<Rightarrow> string \<Rightarrow> bool" where
  "descends s X x \<longleftrightarrow> (\<exists>c \<in> set (st_branches s). sb_session_id c = x \<and> x \<noteq> study_root s \<and> parentOf s c \<in> X)"

definition closed_under_children :: "science_study \<Rightarrow> string set \<Rightarrow> string set \<Rightarrow> bool" where
  "closed_under_children s X W \<longleftrightarrow>
     (\<forall>c \<in> set (st_branches s). sb_session_id c \<noteq> study_root s \<and> parentOf s c \<in> X \<longrightarrow> sb_session_id c \<in> W)"

abbreviation shown_all :: "study_node list \<Rightarrow> string list" where
  "shown_all nds \<equiv> concat (map shown_branches nds)"

lemma closed_mono: "closed_under_children s X W \<Longrightarrow> W \<subseteq> W' \<Longrightarrow> closed_under_children s X W'"
  by (auto simp: closed_under_children_def)

lemma closed_Un: "closed_under_children s (X \<union> Y) W \<longleftrightarrow> closed_under_children s X W \<and> closed_under_children s Y W"
  by (auto simp: closed_under_children_def)

text \<open>Whatever the list of branches, what is shown is marked, and the children of what is shown are marked.\<close>

lemma branchNode_marks:
  "branchNode n cmp s V b = Some (nd, W) \<Longrightarrow> b \<in> set (st_branches s) \<Longrightarrow> sb_session_id b \<noteq> study_root s \<Longrightarrow>
     W = V \<union> set (shown_branches nd) \<and> sb_session_id b \<in> set (shown_branches nd)
     \<and> set (shown_branches nd) \<subseteq> branch_ids s - {study_root s} \<and> closed_under_children s (set (shown_branches nd)) W"
  "branchNodes n cmp s V bs = Some (nds, W) \<Longrightarrow> set bs \<subseteq> set (st_branches s) \<Longrightarrow> study_root s \<notin> sb_session_id ` set bs \<Longrightarrow>
     W = V \<union> set (shown_all nds) \<and> sb_session_id ` set bs \<subseteq> set (shown_all nds)
     \<and> set (shown_all nds) \<subseteq> branch_ids s - {study_root s} \<and> closed_under_children s (set (shown_all nds)) W"
proof (induction n cmp s V b and n cmp s V bs arbitrary: nd W and nds W rule: branchNode_branchNodes.induct)
  case (2 n cmp s V b)
  let ?V = "insert (sb_session_id b) V"
  let ?cs = "child_branches s ?V (sb_session_id b)"
  from 2(2) obtain nds where nds: "branchNodes n cmp s ?V ?cs = Some (nds, W)" "nd = branch_node cmp s b nds"
    by (auto simp: Let_def split: option.splits)
  have cs: "set ?cs \<subseteq> set (st_branches s)" "study_root s \<notin> sb_session_id ` set ?cs" by (auto simp: child_branches_iff)
  note ih = 2(1) [OF refl nds(1) cs]
  have "closed_under_children s {sb_session_id b} W"
    using ih by (fastforce simp: closed_under_children_def child_branches_iff)
  then have "closed_under_children s ({sb_session_id b} \<union> set (shown_all nds)) W" using ih unfolding closed_Un by blast
  with ih 2(3,4) nds(2) show ?case by (auto simp: branch_ids_def)
next
  case (4 n cmp s V b bs)
  from 4(3) obtain nd W1 nds' where r: "branchNode n cmp s V b = Some (nd, W1)" "branchNodes n cmp s W1 bs = Some (nds', W)"
    "nds = nd # nds'" by (auto split: option.splits prod.splits)
  note a = 4(1) [OF r(1)] and b = 4(2) [OF r(1) refl r(2)]
  have a': "W1 = V \<union> set (shown_branches nd) \<and> sb_session_id b \<in> set (shown_branches nd)
     \<and> set (shown_branches nd) \<subseteq> branch_ids s - {study_root s} \<and> closed_under_children s (set (shown_branches nd)) W1"
    by (rule a) (use 4(4,5) in auto)
  have b': "W = W1 \<union> set (shown_all nds') \<and> sb_session_id ` set bs \<subseteq> set (shown_all nds')
     \<and> set (shown_all nds') \<subseteq> branch_ids s - {study_root s} \<and> closed_under_children s (set (shown_all nds')) W"
    by (rule b) (use 4(4,5) in auto)
  have w: "W1 \<subseteq> W" using b' by blast
  have "closed_under_children s (set (shown_branches nd)) W1" using a' by blast
  from closed_mono [OF this w] have "closed_under_children s (set (shown_branches nd) \<union> set (shown_all nds')) W"
    unfolding closed_Un using b' by blast
  moreover have "W = V \<union> (set (shown_branches nd) \<union> set (shown_all nds'))" using a' b' by blast
  moreover have "sb_session_id ` set (b # bs) \<subseteq> set (shown_branches nd) \<union> set (shown_all nds')"
    using a' b' by (simp del: set_concat) blast
  moreover have "set (shown_branches nd) \<union> set (shown_all nds') \<subseteq> branch_ids s - {study_root s}" using a' b' by blast
  moreover have "set (shown_all nds) = set (shown_branches nd) \<union> set (shown_all nds')" using r(3) by simp
  ultimately show ?case by (simp only:)
qed (auto simp: closed_under_children_def)

text \<open>
  Siblings do not meet: a walk from branches with a common, marked parent shows every session once
  and nothing that was marked.
\<close>

definition one_branch_per_session :: "science_study \<Rightarrow> bool" where
  "one_branch_per_session s \<longleftrightarrow> distinct (map sb_session_id (st_branches s))"

lemma same_branch:
  "one_branch_per_session s \<Longrightarrow> c \<in> set (st_branches s) \<Longrightarrow> c' \<in> set (st_branches s) \<Longrightarrow>
     sb_session_id c = sb_session_id c' \<Longrightarrow> c = c'"
  by (auto simp: one_branch_per_session_def distinct_map inj_on_def)

lemma distinct_children: "one_branch_per_session s \<Longrightarrow> distinct (map sb_session_id (child_branches s V p))"
  by (simp add: one_branch_per_session_def child_branches_def distinct_map_filter)

lemma branchNode_once:
  "branchNode n cmp s V b = Some (nd, W) \<Longrightarrow> one_branch_per_session s \<Longrightarrow>
     distinct (shown_branches nd) \<and> set (tl (shown_branches nd)) \<inter> insert (sb_session_id b) V = {}
     \<and> hd (shown_branches nd) = sb_session_id b \<and> shown_branches nd \<noteq> []
     \<and> (\<forall>x \<in> set (tl (shown_branches nd)). descends s (set (shown_branches nd)) x)
     \<and> W = V \<union> set (shown_branches nd)"
  "branchNodes n cmp s V bs = Some (nds, W) \<Longrightarrow> one_branch_per_session s \<Longrightarrow> p \<in> V \<Longrightarrow>
     set bs \<subseteq> set (child_branches s V p) \<Longrightarrow> distinct (map sb_session_id bs) \<Longrightarrow>
     distinct (shown_all nds) \<and> set (shown_all nds) \<inter> V = {}
     \<and> (\<forall>x \<in> set (shown_all nds). descends s (insert p (set (shown_all nds))) x)
     \<and> W = V \<union> set (shown_all nds)"
proof (induction n cmp s V b and n cmp s V bs arbitrary: nd W and nds W p rule: branchNode_branchNodes.induct)
  case (2 n cmp s V b)
  let ?V = "insert (sb_session_id b) V"
  let ?cs = "child_branches s ?V (sb_session_id b)"
  from 2(2) obtain nds where nds: "branchNodes n cmp s ?V ?cs = Some (nds, W)" "nd = branch_node cmp s b nds"
    by (auto simp: Let_def split: option.splits)
  from 2(1) [OF refl nds(1) 2(3) insertI1 subset_refl distinct_children [OF 2(3)]] nds(2) show ?case by auto
next
  case (4 n cmp s V b bs)
  from 4(3) obtain nd W1 nds' where r: "branchNode n cmp s V b = Some (nd, W1)" "branchNodes n cmp s W1 bs = Some (nds', W)"
    "nds = nd # nds'" by (auto split: option.splits prod.splits)
  obtain rest where nd: "shown_branches nd = sb_session_id b # rest"
    using 4(1) [OF r(1) 4(4)] by (cases "shown_branches nd") auto
  have a: "distinct (sb_session_id b # rest)" "set rest \<inter> insert (sb_session_id b) V = {}"
    "\<forall>x \<in> set rest. descends s (set (sb_session_id b # rest)) x" "W1 = V \<union> set (sb_session_id b # rest)"
    using 4(1) [OF r(1) 4(4)] by (simp_all add: nd)
  have b: "b \<in> set (child_branches s V p)" using 4(6) by simp
  then have fresh: "sb_session_id b \<notin> V" "descends s (insert p X) (sb_session_id b)" for X
    by (auto simp: child_branches_iff descends_def)
  have later: "c \<in> set (child_branches s W1 p)" if c: "c \<in> set bs" for c
  proof -
    have cV: "c \<in> set (child_branches s V p)" using 4(6) c by auto
    have "sb_session_id c \<in> sb_session_id ` set bs" using c by simp
    then have ne: "sb_session_id c \<noteq> sb_session_id b" using 4(7) by auto
    have "sb_session_id c \<notin> set rest"
    proof
      assume "sb_session_id c \<in> set rest"
      with a(3) obtain c' where c': "c' \<in> set (st_branches s)" "sb_session_id c' = sb_session_id c"
        "parentOf s c' \<in> set (sb_session_id b # rest)" by (auto simp: descends_def)
      with same_branch [OF 4(4), of c' c] cV have "p \<in> set (sb_session_id b # rest)" by (auto simp: child_branches_iff)
      with a(2) fresh(1) 4(5) show False by auto
    qed
    with cV ne a(4) show ?thesis by (auto simp: child_branches_iff)
  qed
  have "p \<in> W1" "set bs \<subseteq> set (child_branches s W1 p)" "distinct (map sb_session_id bs)"
    using 4(5,7) a(4) later by auto
  note ih = 4(2) [OF r(1) refl r(2) 4(4) this]
  have mono: "descends s X x \<Longrightarrow> X \<subseteq> Y \<Longrightarrow> descends s Y x" for X Y x by (auto simp: descends_def)
  have "descends s (insert p (set (shown_all nds))) x" if x: "x \<in> set (shown_all nds)" for x
  proof (cases "x = sb_session_id b")
    case True
    then show ?thesis using fresh(2) by simp
  next
    case False
    with x r(3) nd consider "x \<in> set rest" | "x \<in> set (shown_all nds')" by auto
    then show ?thesis
    proof cases
      case 1
      with a(3) have "descends s (set (sb_session_id b # rest)) x" by blast
      then show ?thesis by (rule mono) (auto simp: r(3) nd)
    next
      case 2
      with ih have "descends s (insert p (set (shown_all nds'))) x" by blast
      then show ?thesis by (rule mono) (auto simp: r(3))
    qed
  qed
  moreover have "distinct (shown_all nds) \<and> set (shown_all nds) \<inter> V = {} \<and> W = V \<union> set (shown_all nds)"
    using ih a fresh(1) r(3) nd by auto
  ultimately show ?case by blast
qed auto

section \<open>Properties\<close>

lemma top_branches_child: "top_branches s = child_branches s {study_root s} (study_root s)"
  by (auto simp: top_branches_def child_branches_def intro: filter_cong)

text \<open>The two passes of the walk.\<close>

lemma studyTree_passes:
  obtains tops W orphans X where
    "branchNodes (study_fuel s) cmp s {study_root s} (top_branches s) = Some (tops, W)"
    "branchNodes (study_fuel s) cmp s W (filter (\<lambda>b. sb_session_id b \<noteq> study_root s \<and> sb_session_id b \<notin> W) (st_branches s)) = Some (orphans, X)"
    "studyTree cmp s = Some (question_node cmp s (tops @ orphans))"
proof -
  have "card (branch_ids s - U) \<le> length (st_branches s)" for U
    using card_image_le [of "set (st_branches s)" sb_session_id] card_length [of "st_branches s"]
      card_mono [of "branch_ids s" "branch_ids s - U"] by (fastforce simp: branch_ids_def)
  then have fuel: "card (branch_ids s - U) \<le> study_fuel s" for U by (simp add: study_fuel_def le_SucI)
  have "sb_session_id ` set (top_branches s) \<subseteq> branch_ids s - {study_root s}"
    by (auto simp: top_branches_def branch_ids_def)
  from branchNode_returns(2) [OF fuel subset_refl this] obtain tops W where
    t: "branchNodes (study_fuel s) cmp s {study_root s} (top_branches s) = Some (tops, W)" by blast
  have "sb_session_id ` set (filter (\<lambda>b. sb_session_id b \<noteq> study_root s \<and> sb_session_id b \<notin> W) (st_branches s)) \<subseteq> branch_ids s - W"
    by (auto simp: branch_ids_def)
  from branchNode_returns(2) [OF fuel subset_refl this] obtain orphans X where
    "branchNodes (study_fuel s) cmp s W (filter (\<lambda>b. sb_session_id b \<noteq> study_root s \<and> sb_session_id b \<notin> W) (st_branches s))
      = Some (orphans, X)" by blast
  with t that show ?thesis by (simp add: studyTree_def)
qed

text \<open>
  C29. The tree of a study always returns, whatever relations the branches claim, and shows every
  branch but the root one: no branch is lost, even when its chain of parents loops and never
  meets the root.
\<close>
theorem study_tree_shows_every_branch:
  "\<exists>t. studyTree cmp s = Some t \<and> set (shown_branches t) = branch_ids s - {study_root s}"
proof -
  obtain tops W orphans X where p:
    "branchNodes (study_fuel s) cmp s {study_root s} (top_branches s) = Some (tops, W)"
    "branchNodes (study_fuel s) cmp s W (filter (\<lambda>b. sb_session_id b \<noteq> study_root s \<and> sb_session_id b \<notin> W) (st_branches s)) = Some (orphans, X)"
    "studyTree cmp s = Some (question_node cmp s (tops @ orphans))"
    by (rule studyTree_passes)
  have "set (top_branches s) \<subseteq> set (st_branches s)" "study_root s \<notin> sb_session_id ` set (top_branches s)"
    by (auto simp: top_branches_def)
  note t = branchNode_marks(2) [OF p(1) this]
  have o: "sb_session_id ` {b \<in> set (st_branches s). sb_session_id b \<noteq> study_root s \<and> sb_session_id b \<notin> W} \<subseteq> set (shown_all orphans)
    \<and> set (shown_all orphans) \<subseteq> branch_ids s - {study_root s}"
    using branchNode_marks(2) [OF p(2)] by fastforce
  have "x \<in> set (shown_all tops) \<union> set (shown_all orphans)" if "x \<in> branch_ids s - {study_root s}" for x
  proof (cases "x \<in> W")
    case True
    with t that show ?thesis by blast
  next
    case False
    with that have "x \<in> sb_session_id ` {b \<in> set (st_branches s). sb_session_id b \<noteq> study_root s \<and> sb_session_id b \<notin> W}"
      by (auto simp: branch_ids_def)
    with o show ?thesis by blast
  qed
  then have "set (shown_all tops) \<union> set (shown_all orphans) = branch_ids s - {study_root s}"
    using t o by blast
  with p(3) show ?thesis by simp
qed

text \<open>A branch whose chain of parents meets the root.\<close>

inductive reaches_root :: "science_study \<Rightarrow> string \<Rightarrow> bool" for s where
  root: "reaches_root s (study_root s)"
| child: "c \<in> set (st_branches s) \<Longrightarrow> reaches_root s (parentOf s c) \<Longrightarrow> reaches_root s (sb_session_id c)"

text \<open>
  When every chain of parents meets the root, each branch is shown exactly once, under its
  parent's node. The hypothesis is needed: the comment of the source promises one appearance
  for looping branches as well, but two branches that name each other as parent are shown three
  times between them.
\<close>
lemma study_tree_shows_each_branch_once:
  assumes "one_branch_per_session s" "\<And>c. c \<in> set (st_branches s) \<Longrightarrow> reaches_root s (sb_session_id c)"
  shows "\<exists>t. studyTree cmp s = Some t \<and> distinct (shown_branches t)"
proof -
  obtain tops W orphans X where p:
    "branchNodes (study_fuel s) cmp s {study_root s} (top_branches s) = Some (tops, W)"
    "branchNodes (study_fuel s) cmp s W (filter (\<lambda>b. sb_session_id b \<noteq> study_root s \<and> sb_session_id b \<notin> W) (st_branches s)) = Some (orphans, X)"
    "studyTree cmp s = Some (question_node cmp s (tops @ orphans))"
    by (rule studyTree_passes)
  have "set (top_branches s) \<subseteq> set (st_branches s)" "study_root s \<notin> sb_session_id ` set (top_branches s)"
    by (auto simp: top_branches_def)
  note t = branchNode_marks(2) [OF p(1) this]
  have "closed_under_children s {study_root s} W"
    using t by (auto simp: closed_under_children_def top_branches_def)
  then have "closed_under_children s ({study_root s} \<union> set (shown_all tops)) W" unfolding closed_Un using t by blast
  then have closed: "closed_under_children s W W" using t by simp
  have root: "study_root s \<in> W" using t by blast
  have "x \<in> W" if "reaches_root s x" for x
    using that
  proof (induction rule: reaches_root.induct)
    case (child c)
    then show ?case using closed root by (cases "sb_session_id c = study_root s") (auto simp: closed_under_children_def)
  qed (rule root)
  with assms(2) have "orphans = []" using p(2) by (simp add: filter_False)
  moreover have "distinct (shown_all tops)"
    using branchNode_once(2) [OF p(1) assms(1), of "study_root s"] distinct_children [OF assms(1)]
    by (simp add: top_branches_child)
  ultimately show ?thesis using p(3) by simp
qed

definition ex_tree :: "(string \<times> string) list \<Rightarrow> science_study" where
  "ex_tree edges = \<lparr>st_session_id = ''r'', st_study = ''q'', st_root_session_id = ''r'',
     st_branches = map (\<lambda>(i, parent). ex_branch i parent) edges, st_entries = [], st_views = []\<rparr>"

lemmas ex_tree_eval = ex_tree_def ex_branch_def study_root_def parentOf_def str_or_def

text \<open>Two branches that name each other: the second is shown under the first and again beside it.\<close>

lemma looping_branches_are_shown_twice:
  "map_option shown_branches (studyTree cmp (ex_tree [(''a'', ''b''), (''b'', ''a''), (''r'', [])])) = Some [''a'', ''b'', ''b'']"
  by (simp add: studyTree_def study_fuel_def top_branches_def child_branches_def ex_tree_eval Let_def eval_nat_numeral
      branch_node_def entryNodes_def branchEntries_def question_node_def)

section \<open>Edges between entries\<close>

record entry_edge =
  ed_from :: string
  ed_to :: string
  ed_relation :: string

definition claim_cites :: "js_value \<Rightarrow> string list" where
  "claim_cites claim = (case js_prop claim ''cites'' of
       Inr (JArr vs) \<Rightarrow> concat (map (\<lambda>v. case v of JStr i \<Rightarrow> [i] | _ \<Rightarrow> []) vs)
     | _ \<Rightarrow> [])"

definition all_edges :: "science_entry \<Rightarrow> entry_edge list" where
  "all_edges e =
     map (\<lambda>l. \<lparr>ed_from = sc_id e, ed_to = sl_to l, ed_relation = str_or (sl_relation l) ''links to''\<rparr>) (sc_links e)
     @ (case (sc_type e = ''conclusion'', field_of e ''claims'') of
          (True, JArr claims) \<Rightarrow> map (\<lambda>i. \<lparr>ed_from = sc_id e, ed_to = i, ed_relation = ''cites''\<rparr>) (concat (map claim_cites claims))
        | _ \<Rightarrow> [])
     @ map (\<lambda>i. \<lparr>ed_from = sc_id e, ed_to = i, ed_relation = ''derived from''\<rparr>) (derivedFrom e)"

text \<open>The first edge for every text \<open>relation:to\<close>.\<close>

fun unseen_edges :: "string set \<Rightarrow> entry_edge list \<Rightarrow> entry_edge list" where
  "unseen_edges seen [] = []"
| "unseen_edges seen (d # ds) = (let key = ed_relation d @ '':'' @ ed_to d in
     if key \<in> seen then unseen_edges seen ds else d # unseen_edges (insert key seen) ds)"

definition outgoing :: "science_entry \<Rightarrow> entry_edge list" where
  "outgoing e = unseen_edges {} (all_edges e)"

definition index_edge :: "(string \<times> entry_edge list) list \<Rightarrow> entry_edge \<Rightarrow> (string \<times> entry_edge list) list" where
  "index_edge index edge = map_set index (ed_to edge) (coalesce (map_of index (ed_to edge)) [] @ [edge])"

definition backlinks :: "science_entry list \<Rightarrow> (string \<times> entry_edge list) list" where
  "backlinks entries = foldl index_edge [] (concat (map outgoing entries))"

lemma fold_index_edge:
  "coalesce (map_of (foldl index_edge m ds) i) [] = coalesce (map_of m i) [] @ filter (\<lambda>d. ed_to d = i) ds"
  by (induction ds arbitrary: m) (auto simp: index_edge_def map_of_map_set coalesce_def)

text \<open>The backlinks of an id are the edges of all entries that point to it, in the order of the log.\<close>

lemma backlinks_exact:
  "coalesce (map_of (backlinks entries) i) [] = filter (\<lambda>d. ed_to d = i) (concat (map outgoing entries))"
  using fold_index_edge [of "[]"] by (simp add: backlinks_def coalesce_def)

end
