(* ===== verification/Resource_Upload.thy ===== *)
theory Resource_Upload
  imports Js_Object "HOL-Library.Word"
begin

text \<open>
  \<open>web/src/lib/upload-workspace-resources.ts\<close>: attachments are uploaded into the custody of the
  service in chunks, resuming where an earlier attempt stopped, and are then waited for until
  custody has registered them.

  The service is an argument: the operations of the repository the upload calls, on a state of
  the service. What the upload relies on is stated as hypotheses of the theorem that needs it.
  The digest of the fingerprint and the encoding of text are arguments as well. Aborting is a
  rejection of the operation that was under way.
\<close>

section \<open>Data\<close>

type_synonym bytes = "8 word list"

datatype resource_state = ResourceUploading | ResourceReady | ResourceQuarantined | ResourceFailed

text \<open>The fields of a \<open>WorkspaceResource\<close> the upload reads.\<close>

record workspace_resource =
  wr_id :: string
  wr_name :: string
  wr_revision :: nat
  wr_received_size :: nat
  wr_state :: resource_state
  wr_failure :: string

record resource_request =
  rr_clientUploadId :: string
  rr_mediaType :: string
  rr_name :: string
  rr_size :: nat
  rr_pendingAttachment :: bool

record upload_progress =
  up_filename :: string
  up_loaded :: nat
  up_total :: nat

record upload_part =
  pt_name :: string
  pt_resource_id :: string
  pt_resource_revision :: string

text \<open>An attachment with its bytes in memory, or the address they are fetched from.\<close>

record uploadable_file =
  uf_filename :: "string option"
  uf_mediaType :: string
  uf_url :: string
  uf_file :: "(bytes \<times> string) option"
  uf_clientUploadId :: "string option"
  uf_pendingAttachment :: bool

datatype fetch_outcome = FetchRejected string | FetchStatus nat | FetchBlob bytes string

record 's custody =
  cu_createResource :: "string \<Rightarrow> resource_request \<Rightarrow> 's \<Rightarrow> workspace_resource result \<times> 's"
  cu_appendResourceBytes :: "string \<Rightarrow> string \<Rightarrow> nat \<Rightarrow> bytes \<Rightarrow> 's \<Rightarrow> unit result \<times> 's"
  cu_resource :: "string \<Rightarrow> string \<Rightarrow> 's \<Rightarrow> workspace_resource result \<times> 's"
  cu_wait :: "nat \<Rightarrow> 's \<Rightarrow> unit result \<times> 's"
  cu_fetch :: "string \<Rightarrow> 's \<Rightarrow> fetch_outcome \<times> 's"

text \<open>The service with what the upload has reported and how long it has waited.\<close>

record 's upload_world =
  uw_service :: 's
  uw_progress :: "upload_progress list"
  uw_waits :: "nat list"

definition UPLOAD_CHUNK_BYTES :: nat where
  "UPLOAD_CHUNK_BYTES = 8 * 1024 * 1024"

definition FINGERPRINT_SAMPLE_BYTES :: nat where
  "FINGERPRINT_SAMPLE_BYTES = 64 * 1024"

definition RESOURCE_READY_POLL_BASE_MS :: nat where
  "RESOURCE_READY_POLL_BASE_MS = 150"

definition RESOURCE_READY_POLL_MAX_MS :: nat where
  "RESOURCE_READY_POLL_MAX_MS = 2000"

definition RESOURCE_READY_POLL_ATTEMPTS :: nat where
  "RESOURCE_READY_POLL_ATTEMPTS = 12"

section \<open>The fingerprint\<close>

definition blob_slice :: "bytes \<Rightarrow> nat \<Rightarrow> nat \<Rightarrow> bytes" where
  "blob_slice blob a b = take (b - a) (drop a blob)"

definition fingerprint_input :: "(string \<Rightarrow> bytes) \<Rightarrow> string \<Rightarrow> string \<Rightarrow> bytes \<Rightarrow> bytes" where
  "fingerprint_input encode name mediaType blob =
     (let first = blob_slice blob 0 (min (length blob) FINGERPRINT_SAMPLE_BYTES);
          lastStart = max (length first) (length blob - FINGERPRINT_SAMPLE_BYTES)
      in encode (name @ [CHR 0x00] @ mediaType @ [CHR 0x00] @ show_nat (length blob) @ [CHR 0x00]) @ first @ drop lastStart blob)"

definition hex_digit :: "nat \<Rightarrow> char" where
  "hex_digit d = (if d < 10 then char_of (48 + d) else char_of (87 + d))"

definition hex_byte :: "8 word \<Rightarrow> string" where
  "hex_byte b = [hex_digit (unat b div 16), hex_digit (unat b mod 16)]"

definition uploadFingerprint :: "(bytes \<Rightarrow> bytes) \<Rightarrow> (string \<Rightarrow> bytes) \<Rightarrow> string \<Rightarrow> string \<Rightarrow> bytes \<Rightarrow> string" where
  "uploadFingerprint digest encode name mediaType blob =
     ''browser-'' @ concat (map hex_byte (digest (fingerprint_input encode name mediaType blob)))"

section \<open>Operations\<close>

definition assertNotTerminal :: "string \<Rightarrow> workspace_resource \<Rightarrow> unit result" where
  "assertNotTerminal name r =
     (if wr_state r \<noteq> ResourceFailed \<and> wr_state r \<noteq> ResourceQuarantined then Inr ()
      else Inl (PlainError (str_or (wr_failure r)
        (if wr_state r = ResourceQuarantined then name @ '' was quarantined by resource custody.''
         else name @ '' was rejected by resource custody.''))))"

definition with_service :: "('s \<Rightarrow> 'a result \<times> 's) \<Rightarrow> 's upload_world \<Rightarrow> 'a result \<times> 's upload_world" where
  "with_service f w = (case f (uw_service w) of (r, s) \<Rightarrow> (r, w\<lparr>uw_service := s\<rparr>))"

definition report :: "upload_progress \<Rightarrow> 's upload_world \<Rightarrow> 's upload_world" where
  "report p w = w\<lparr>uw_progress := uw_progress w @ [p]\<rparr>"

lemma chunk_positive [simp]: "0 < UPLOAD_CHUNK_BYTES"
  by (simp add: UPLOAD_CHUNK_BYTES_def)

function append_chunks ::
  "'s custody \<Rightarrow> string \<Rightarrow> string \<Rightarrow> string \<Rightarrow> bytes \<Rightarrow> nat \<Rightarrow> 's upload_world \<Rightarrow> unit result \<times> 's upload_world" where
  "append_chunks c workspaceId rid name blob offset w =
     (if offset < length blob then
        let chunk = blob_slice blob offset (min (offset + UPLOAD_CHUNK_BYTES) (length blob))
        in case with_service (cu_appendResourceBytes c workspaceId rid offset chunk) w of
             (Inl e, w1) \<Rightarrow> (Inl e, w1)
           | (Inr _, w1) \<Rightarrow> append_chunks c workspaceId rid name blob (offset + UPLOAD_CHUNK_BYTES)
               (report \<lparr>up_filename = name, up_loaded = min (offset + length chunk) (length blob), up_total = length blob\<rparr> w1)
      else (Inr (), w))"
  by pat_completeness auto
termination
  by (relation "measure (\<lambda>(c, ws, rid, name, blob, offset, w). length blob - offset)")
    (auto simp: diff_less_mono2)

declare append_chunks.simps [simp del]

definition show_state :: "resource_state \<Rightarrow> string" where
  "show_state s = (case s of ResourceUploading \<Rightarrow> ''uploading'' | ResourceReady \<Rightarrow> ''ready''
     | ResourceQuarantined \<Rightarrow> ''quarantined'' | ResourceFailed \<Rightarrow> ''failed'')"

function awaitRegisteredResource ::
  "'s custody \<Rightarrow> string \<Rightarrow> string \<Rightarrow> string \<Rightarrow> nat \<Rightarrow> nat \<Rightarrow> 's upload_world \<Rightarrow> workspace_resource result \<times> 's upload_world" where
  "awaitRegisteredResource c workspaceId rid name delay attempt w =
     (case with_service (cu_resource c workspaceId rid) w of
        (Inl e, w1) \<Rightarrow> (Inl e, w1)
      | (Inr current, w1) \<Rightarrow>
          if wr_state current = ResourceReady then (Inr current, w1)
          else (case assertNotTerminal name current of
              Inl e \<Rightarrow> (Inl e, w1)
            | Inr _ \<Rightarrow>
                if RESOURCE_READY_POLL_ATTEMPTS \<le> attempt + 1
                then (Inl (PlainError (name @ '' is still '' @ quoted (show_state (wr_state current))
                  @ '' in resource custody. The uploaded bytes are kept, so sending again resumes from them.'')), w1)
                else (case with_service (cu_wait c delay) (w1\<lparr>uw_waits := uw_waits w1 @ [delay]\<rparr>) of
                    (Inl e, w2) \<Rightarrow> (Inl e, w2)
                  | (Inr _, w2) \<Rightarrow> awaitRegisteredResource c workspaceId rid name
                      (min (delay * 2) RESOURCE_READY_POLL_MAX_MS) (attempt + 1) w2)))"
  by pat_completeness auto
termination
  by (relation "measure (\<lambda>(c, ws, rid, name, delay, attempt, w). RESOURCE_READY_POLL_ATTEMPTS - attempt)") auto

declare awaitRegisteredResource.simps [simp del]

definition attachmentUnavailableError :: "string \<Rightarrow> string \<Rightarrow> js_error" where
  "attachmentUnavailableError name detail =
     PlainError (''Unable to read '' @ name @ '' for upload: no local file data was held, and '' @ detail)"

definition readAttachmentBytes :: "'s custody \<Rightarrow> uploadable_file \<Rightarrow> 's upload_world \<Rightarrow> (bytes \<times> string) result \<times> 's upload_world" where
  "readAttachmentBytes c file w = (case uf_file file of
       Some blob \<Rightarrow> (Inr blob, w)
     | None \<Rightarrow>
         (let label = coalesce (uf_filename file) ''the attachment'';
              (outcome, s) = cu_fetch c (uf_url file) (uw_service w);
              w1 = w\<lparr>uw_service := s\<rparr>
          in case outcome of
               FetchRejected m \<Rightarrow> (Inl (attachmentUnavailableError label (''fetching '' @ quoted (uf_url file) @ '' failed ('' @ m @ '').'')), w1)
             | FetchStatus n \<Rightarrow> (Inl (attachmentUnavailableError label
                 (''fetching '' @ quoted (uf_url file) @ '' returned '' @ show_nat n @ ''.'')), w1)
             | FetchBlob blob blobType \<Rightarrow> (Inr (blob, blobType), w1)))"

record upload_setting =
  ut_workspaceId :: string
  ut_digest :: "bytes \<Rightarrow> bytes"
  ut_encode :: "string \<Rightarrow> bytes"

definition resource_request_for :: "upload_setting \<Rightarrow> uploadable_file \<Rightarrow> bytes \<Rightarrow> string \<Rightarrow> resource_request" where
  "resource_request_for u file blob blobType =
     (let name = str_or (trim (coalesce (uf_filename file) [])) ''attachment'';
          mediaType = str_or (uf_mediaType file) (str_or blobType ''application/octet-stream'')
      in \<lparr>rr_clientUploadId = coalesce (uf_clientUploadId file) (uploadFingerprint (ut_digest u) (ut_encode u) name mediaType blob),
          rr_mediaType = mediaType, rr_name = name, rr_size = length blob, rr_pendingAttachment = uf_pendingAttachment file\<rparr>)"

text \<open>From the created resource to the registered one.\<close>

definition finish_upload ::
  "'s custody \<Rightarrow> string \<Rightarrow> string \<Rightarrow> bytes \<Rightarrow> workspace_resource \<Rightarrow> 's upload_world \<Rightarrow> workspace_resource result \<times> 's upload_world" where
  "finish_upload c workspaceId name blob created w =
     (if length blob < wr_received_size created
      then (Inl (PlainError (name @ '' has an invalid server upload offset.'')), w)
      else case assertNotTerminal name created of
        Inl e \<Rightarrow> (Inl e, w)
      | Inr _ \<Rightarrow>
          (case append_chunks c workspaceId (wr_id created) name blob (wr_received_size created)
              (report \<lparr>up_filename = name, up_loaded = wr_received_size created, up_total = length blob\<rparr> w) of
             (Inl e, w1) \<Rightarrow> (Inl e, w1)
           | (Inr _, w1) \<Rightarrow>
               (case (if wr_state created = ResourceReady then (Inr created, w1)
                      else awaitRegisteredResource c workspaceId (wr_id created) name RESOURCE_READY_POLL_BASE_MS 0 w1) of
                  (Inl e, w2) \<Rightarrow> (Inl e, w2)
                | (Inr completed, w2) \<Rightarrow>
                    if wr_received_size completed < length blob
                    then (Inl (PlainError (name @ '' is registered as complete, but resource custody holds ''
                      @ show_nat (wr_received_size completed) @ '' of '' @ show_nat (length blob) @ '' bytes.'')), w2)
                    else (Inr completed, w2))))"

definition upload_file :: "'s custody \<Rightarrow> upload_setting \<Rightarrow> uploadable_file \<Rightarrow> 's upload_world \<Rightarrow> workspace_resource result \<times> 's upload_world" where
  "upload_file c u file w = (case readAttachmentBytes c file w of
       (Inl e, w1) \<Rightarrow> (Inl e, w1)
     | (Inr (blob, blobType), w1) \<Rightarrow>
         (let req = resource_request_for u file blob blobType
          in case with_service (cu_createResource c (ut_workspaceId u) req) w1 of
               (Inl e, w2) \<Rightarrow> (Inl e, w2)
             | (Inr created, w2) \<Rightarrow> finish_upload c (ut_workspaceId u) (rr_name req) blob created w2))"

fun upload_files :: "'s custody \<Rightarrow> upload_setting \<Rightarrow> uploadable_file list \<Rightarrow> 's upload_world \<Rightarrow> workspace_resource list result \<times> 's upload_world" where
  "upload_files c u [] w = (Inr [], w)"
| "upload_files c u (file # files) w = (case upload_file c u file w of
       (Inl e, w1) \<Rightarrow> (Inl e, w1)
     | (Inr r, w1) \<Rightarrow> (case upload_files c u files w1 of
           (Inl e, w2) \<Rightarrow> (Inl e, w2)
         | (Inr rs, w2) \<Rightarrow> (Inr (r # rs), w2)))"

definition part_of :: "workspace_resource \<Rightarrow> upload_part" where
  "part_of r = \<lparr>pt_name = wr_name r, pt_resource_id = wr_id r, pt_resource_revision = show_nat (wr_revision r)\<rparr>"

definition uploadWorkspaceResources ::
  "'s custody \<Rightarrow> upload_setting \<Rightarrow> uploadable_file list \<Rightarrow> 's upload_world \<Rightarrow> (upload_part list \<times> workspace_resource list) result \<times> 's upload_world" where
  "uploadWorkspaceResources c u files w = (case upload_files c u files w of
       (Inl e, w1) \<Rightarrow> (Inl e, w1)
     | (Inr rs, w1) \<Rightarrow> (Inr (map part_of rs, rs), w1))"

section \<open>Lemmas\<close>

lemma with_service_fields:
  "with_service f w = (r, w1) \<Longrightarrow> f (uw_service w) = (r, uw_service w1)"
  "with_service f w = (r, w1) \<Longrightarrow> uw_waits w1 = uw_waits w"
  "with_service f w = (r, w1) \<Longrightarrow> uw_progress w1 = uw_progress w"
  by (auto simp: with_service_def split: prod.splits)

lemma report_fields [simp]:
  "uw_service (report p w) = uw_service w" "uw_waits (report p w) = uw_waits w"
  "uw_progress (report p w) = uw_progress w @ [p]"
  by (simp_all add: report_def)

text \<open>What the service holds after a chunk and what is still to come: the rest of the file.\<close>

lemma chunk_then_rest:
  assumes "offset < length blob"
  shows "blob_slice blob offset (min (offset + n) (length blob)) @ drop (offset + n) blob = drop offset blob"
    and "offset + n < length blob \<Longrightarrow> length (blob_slice blob offset (min (offset + n) (length blob))) = n"
proof -
  have "blob_slice blob offset (min (offset + n) (length blob)) = take n (drop offset blob)"
    using assms by (auto simp: blob_slice_def min_def)
  then show "blob_slice blob offset (min (offset + n) (length blob)) @ drop (offset + n) blob = drop offset blob"
    using append_take_drop_id [of n "drop offset blob"] by (simp add: add.commute)
  show "offset + n < length blob \<Longrightarrow> length (blob_slice blob offset (min (offset + n) (length blob))) = n"
    by (simp add: blob_slice_def)
qed

text \<open>
  What the upload relies on: custody puts accepted bytes at their offset, which it does not
  accept beyond what it holds, and reading and waiting change nothing. Nothing is assumed of the
  bytes it holds when the upload starts.
\<close>

definition writes_at_offset :: "'s custody \<Rightarrow> ('s \<Rightarrow> string \<Rightarrow> bytes) \<Rightarrow> string \<Rightarrow> string \<Rightarrow> bool" where
  "writes_at_offset c holds workspaceId rid \<longleftrightarrow> (\<forall>offset chunk s s'.
     cu_appendResourceBytes c workspaceId rid offset chunk s = (Inr (), s') \<longrightarrow>
       holds s' rid = take offset (holds s rid) @ chunk \<and> offset \<le> length (holds s rid))"

definition reads_keep :: "'s custody \<Rightarrow> ('s \<Rightarrow> string \<Rightarrow> bytes) \<Rightarrow> string \<Rightarrow> string \<Rightarrow> bool" where
  "reads_keep c holds workspaceId rid \<longleftrightarrow>
     (\<forall>r s s'. cu_resource c workspaceId rid s = (r, s') \<longrightarrow> holds s' rid = holds s rid)
     \<and> (\<forall>d r s s'. cu_wait c d s = (r, s') \<longrightarrow> holds s' rid = holds s rid)"

lemma append_chunks_holds:
  assumes "writes_at_offset c holds workspaceId rid"
  shows "append_chunks c workspaceId rid name blob offset w = (Inr (), w') \<Longrightarrow>
    holds (uw_service w') rid =
      (if offset < length blob then take offset (holds (uw_service w) rid) @ drop offset blob else holds (uw_service w) rid)"
  using assms
proof (induction c workspaceId rid name blob offset w rule: append_chunks.induct)
  case (1 c workspaceId rid name blob offset w)
  show ?case
  proof (cases "offset < length blob")
    case False
    with 1(2) show ?thesis by (subst (asm) append_chunks.simps) simp
  next
    case True
    let ?chunk = "blob_slice blob offset (min (offset + UPLOAD_CHUNK_BYTES) (length blob))"
    let ?held = "take offset (holds (uw_service w) rid)"
    obtain r w1 where a: "with_service (cu_appendResourceBytes c workspaceId rid offset ?chunk) w = (r, w1)" by force
    with 1(2) True have r: "r = Inr ()" by (subst (asm) append_chunks.simps) (auto split: sum.splits)
    have held: "holds (uw_service w1) rid = ?held @ ?chunk" "length ?held = offset"
      using with_service_fields(1) [OF a] r 1(3) by (auto simp: writes_at_offset_def)
    from 1(1) [OF True refl a [symmetric] r] 1(2,3) True a r
    have "holds (uw_service w') rid = (if offset + UPLOAD_CHUNK_BYTES < length blob
        then take (offset + UPLOAD_CHUNK_BYTES) (?held @ ?chunk) @ drop (offset + UPLOAD_CHUNK_BYTES) blob else ?held @ ?chunk)"
      by (subst (asm) (2) append_chunks.simps) (simp add: held(1))
    also have "\<dots> = ?held @ ?chunk @ drop (offset + UPLOAD_CHUNK_BYTES) blob"
      using chunk_then_rest(2) [OF True, of UPLOAD_CHUNK_BYTES] held(2) by simp
    also have "\<dots> = ?held @ drop offset blob" using chunk_then_rest(1) [OF True] by simp
    finally show ?thesis using True by simp
  qed
qed

text \<open>One round of the waiting: it stops after the read, is rejected while waiting, or goes on.\<close>

lemma await_round:
  assumes "awaitRegisteredResource c workspaceId rid name delay attempt w = (r, w')"
  obtains (stop) x where "with_service (cu_resource c workspaceId rid) w = (x, w')"
      "\<And>v. r = Inr v \<Longrightarrow> wr_state v = ResourceReady"
  | (rejected) x w1 e where "with_service (cu_resource c workspaceId rid) w = (x, w1)" "r = Inl e"
      "with_service (cu_wait c delay) (w1\<lparr>uw_waits := uw_waits w1 @ [delay]\<rparr>) = (Inl e, w')"
      "attempt + 1 < RESOURCE_READY_POLL_ATTEMPTS"
  | (again) x w1 w2 where "with_service (cu_resource c workspaceId rid) w = (x, w1)"
      "with_service (cu_wait c delay) (w1\<lparr>uw_waits := uw_waits w1 @ [delay]\<rparr>) = (Inr (), w2)"
      "attempt + 1 < RESOURCE_READY_POLL_ATTEMPTS"
      "awaitRegisteredResource c workspaceId rid name (min (delay * 2) RESOURCE_READY_POLL_MAX_MS) (attempt + 1) w2 = (r, w')"
proof -
  obtain x w1 where a: "with_service (cu_resource c workspaceId rid) w = (x, w1)" by force
  obtain y w2 where b: "with_service (cu_wait c delay) (w1\<lparr>uw_waits := uw_waits w1 @ [delay]\<rparr>) = (y, w2)" by force
  note eq = assms [unfolded awaitRegisteredResource.simps [of c workspaceId rid name delay attempt w] a]
  show ?thesis
  proof (cases "\<exists>current. x = Inr current \<and> wr_state current \<noteq> ResourceReady \<and> assertNotTerminal name current = Inr ()
      \<and> attempt + 1 < RESOURCE_READY_POLL_ATTEMPTS")
    case False
    with eq have "w' = w1 \<and> (\<forall>v. r = Inr v \<longrightarrow> wr_state v = ResourceReady)"
      by (cases x) (auto split: sum.splits if_splits)
    with a stop show ?thesis by simp
  next
    case True
    with eq b have "(\<exists>e. y = Inl e \<and> r = Inl e \<and> w' = w2) \<or> (y = Inr () \<and>
      awaitRegisteredResource c workspaceId rid name (min (delay * 2) RESOURCE_READY_POLL_MAX_MS) (attempt + 1) w2 = (r, w'))"
      by (cases y) (auto simp: not_le)
    with True a b rejected again show ?thesis by blast
  qed
qed

lemma await_keeps:
  assumes "awaitRegisteredResource c workspaceId rid name delay attempt w = (r, w')" "reads_keep c holds workspaceId rid"
  shows "holds (uw_service w') rid = holds (uw_service w) rid \<and> (\<forall>x. r = Inr x \<longrightarrow> wr_state x = ResourceReady)"
  using assms(1)
proof (induction "RESOURCE_READY_POLL_ATTEMPTS - attempt" arbitrary: delay attempt w rule: less_induct)
  case less
  note keep = assms(2) [unfolded reads_keep_def]
  from less(2) show ?case
  proof (cases rule: await_round)
    case (stop x)
    with with_service_fields(1) [OF stop(1)] keep show ?thesis by metis
  next
    case (rejected x w1 e)
    with with_service_fields(1) [OF rejected(1)] with_service_fields(1) [OF rejected(3)] keep show ?thesis by fastforce
  next
    case (again x w1 w2)
    have "RESOURCE_READY_POLL_ATTEMPTS - (attempt + 1) < RESOURCE_READY_POLL_ATTEMPTS - attempt" using again(3) by simp
    from less(1) [OF this again(4)] with_service_fields(1) [OF again(1)] with_service_fields(1) [OF again(2)] keep
    show ?thesis by fastforce
  qed
qed

text \<open>The waits between the reads of a resource that is not registered yet.\<close>

fun poll_delays :: "nat \<Rightarrow> nat \<Rightarrow> nat list" where
  "poll_delays d 0 = []"
| "poll_delays d (Suc n) = d # poll_delays (min (d * 2) RESOURCE_READY_POLL_MAX_MS) n"

lemma await_waits:
  "awaitRegisteredResource c workspaceId rid name delay attempt w = (r, w') \<Longrightarrow>
    \<exists>k \<le> RESOURCE_READY_POLL_ATTEMPTS - 1 - attempt. uw_waits w' = uw_waits w @ poll_delays delay k"
proof (induction "RESOURCE_READY_POLL_ATTEMPTS - attempt" arbitrary: delay attempt w rule: less_induct)
  case less
  from less(2) show ?case
  proof (cases rule: await_round)
    case (stop x)
    with with_service_fields(2) [OF stop(1)] show ?thesis by (intro exI [of _ 0]) simp
  next
    case (rejected x w1 e)
    with with_service_fields(2) [OF rejected(1)] with_service_fields(2) [OF rejected(3)]
    show ?thesis by (intro exI [of _ 1]) simp
  next
    case (again x w1 w2)
    have "RESOURCE_READY_POLL_ATTEMPTS - (attempt + 1) < RESOURCE_READY_POLL_ATTEMPTS - attempt" using again(3) by simp
    from less(1) [OF this again(4)] obtain k where
      "k \<le> RESOURCE_READY_POLL_ATTEMPTS - 1 - (attempt + 1)"
      "uw_waits w' = uw_waits w2 @ poll_delays (min (delay * 2) RESOURCE_READY_POLL_MAX_MS) k" by blast
    with with_service_fields(2) [OF again(1)] with_service_fields(2) [OF again(2)] again(3)
    show ?thesis by (intro exI [of _ "Suc k"]) auto
  qed
qed

section \<open>Properties\<close>

lemma append_chunks_waits:
  "append_chunks c workspaceId rid name blob offset w = (r, w') \<Longrightarrow> uw_waits w' = uw_waits w"
proof (induction c workspaceId rid name blob offset w rule: append_chunks.induct)
  case (1 c workspaceId rid name blob offset w)
  let ?chunk = "blob_slice blob offset (min (offset + UPLOAD_CHUNK_BYTES) (length blob))"
  obtain x w1 where a: "with_service (cu_appendResourceBytes c workspaceId rid offset ?chunk) w = (x, w1)" by force
  note eq = 1(2) [unfolded append_chunks.simps [of c workspaceId rid name blob offset w] Let_def a]
  show ?case
  proof (cases "offset < length blob")
    case True
    show ?thesis
    proof (cases x)
      case (Inl e)
      with eq True with_service_fields(2) [OF a] show ?thesis by simp
    next
      case (Inr u)
      with eq True 1(1) [OF True refl a [symmetric] Inr] with_service_fields(2) [OF a] show ?thesis by simp
    qed
  qed (use eq in simp)
qed

text \<open>
  C30. What a finished upload leaves in custody. Let the service put accepted bytes at their
  offset, and let it hold whatever bytes it may for the resource when the creation reports a
  received size. When the upload returns, that size is at most the file's, the resource returned
  is registered with at least the size of the file, and the service holds the bytes it had up to
  the reported size followed by every byte of the file from there on, however these were cut
  into chunks; when the whole size was reported, what it had is untouched. So an upload that
  starts afresh leaves exactly the file, and a resumed one leaves exactly the file if and only
  if the bytes it was resumed from were the file's.
\<close>
theorem finished_upload_is_in_custody:
  assumes "writes_at_offset c holds workspaceId (wr_id created)" "reads_keep c holds workspaceId (wr_id created)"
    and "finish_upload c workspaceId name blob created w = (Inr completed, w')"
    and "held = holds (uw_service w) (wr_id created)" "n = wr_received_size created"
  shows "n \<le> length blob \<and> wr_state completed = ResourceReady \<and> length blob \<le> wr_received_size completed
    \<and> holds (uw_service w') (wr_id created) = (if n < length blob then take n held @ drop n blob else held)
    \<and> (n = 0 \<and> blob \<noteq> [] \<longrightarrow> holds (uw_service w') (wr_id created) = blob)
    \<and> (n < length blob \<longrightarrow> (holds (uw_service w') (wr_id created) = blob \<longleftrightarrow> take n held = take n blob))"
proof -
  let ?p = "\<lparr>up_filename = name, up_loaded = n, up_total = length blob\<rparr>"
  obtain x w1 where a: "append_chunks c workspaceId (wr_id created) name blob n (report ?p w) = (x, w1)"
    by force
  have x: "x = Inr ()" and n: "n \<le> length blob"
    using assms(3,5) a by (cases x; auto simp: finish_upload_def split: if_splits sum.splits)+
  have bytes: "holds (uw_service w1) (wr_id created) = (if n < length blob then take n held @ drop n blob else held)"
    using append_chunks_holds [OF assms(1) a [unfolded x]] assms(4) by simp
  have whole: "holds (uw_service w') (wr_id created) = holds (uw_service w1) (wr_id created)
      \<and> wr_state completed = ResourceReady \<and> length blob \<le> wr_received_size completed"
  proof (cases "wr_state created = ResourceReady")
    case True
    with assms(3,5) a x show ?thesis by (auto simp: finish_upload_def split: if_splits sum.splits)
  next
    case False
    obtain y w2 where b: "awaitRegisteredResource c workspaceId (wr_id created) name RESOURCE_READY_POLL_BASE_MS 0 w1 = (y, w2)"
      by force
    with assms(3,5) a x False have "y = Inr completed" "w' = w2" "length blob \<le> wr_received_size completed"
      by (auto simp: finish_upload_def split: if_splits sum.splits)
    with await_keeps [OF b assms(2)] show ?thesis by simp
  qed
  have "take n held @ drop n blob = blob \<longleftrightarrow> take n held = take n blob"
    by (metis append_same_eq append_take_drop_id)
  with n bytes whole show ?thesis by auto
qed

text \<open>A service with one resource, for the witness: its state is what it holds and the reads left until ready.\<close>

definition ex_custody :: "(bytes \<times> nat) custody" where
  "ex_custody = \<lparr>
     cu_createResource = \<lambda>_ _ s. (Inl (PlainError ''unused''), s),
     cu_appendResourceBytes = \<lambda>_ _ offset chunk (held, n).
       (if offset \<le> length held then (Inr (), (take offset held @ chunk, n)) else (Inl (PlainError ''offset''), (held, n))),
     cu_resource = \<lambda>_ _ (held, n). (Inr \<lparr>wr_id = ''r'', wr_name = ''f'', wr_revision = 1, wr_received_size = length held,
       wr_state = (if n = 0 then ResourceReady else ResourceUploading), wr_failure = []\<rparr>, (held, n - 1)),
     cu_wait = \<lambda>_ s. (Inr (), s),
     cu_fetch = \<lambda>_ s. (FetchStatus 404, s)\<rparr>"

definition ex_resource :: workspace_resource where
  "ex_resource = \<lparr>wr_id = ''r'', wr_name = ''f'', wr_revision = 1, wr_received_size = 1, wr_state = ResourceUploading, wr_failure = []\<rparr>"

lemma ex_finish:
  "\<exists>r w'. finish_upload ex_custody ''w'' ''f'' [1, 2, 3] ex_resource \<lparr>uw_service = ([1], 1), uw_progress = [], uw_waits = []\<rparr> = (Inr r, w')"
proof -
  have a: "append_chunks ex_custody ''w'' ''r'' ''f'' [1, 2, 3] 1 w = append_chunks ex_custody ''w'' ''r'' ''f'' [1, 2, 3] (1 + UPLOAD_CHUNK_BYTES)
      (report \<lparr>up_filename = ''f'', up_loaded = 3, up_total = 3\<rparr> (w\<lparr>uw_service := ([1, 2, 3], 1)\<rparr>))"
    if "uw_service w = ([1], 1)" for w
    using that by (subst append_chunks.simps)
      (simp add: with_service_def ex_custody_def blob_slice_def UPLOAD_CHUNK_BYTES_def Let_def numeral_3_eq_3)
  have b: "append_chunks ex_custody ''w'' ''r'' ''f'' [1, 2, 3] (1 + UPLOAD_CHUNK_BYTES) w = (Inr (), w)" for w
    by (subst append_chunks.simps) (simp add: UPLOAD_CHUNK_BYTES_def)
  have c: "awaitRegisteredResource ex_custody ''w'' ''r'' ''f'' d 0 w
      = awaitRegisteredResource ex_custody ''w'' ''r'' ''f'' (min (d * 2) RESOURCE_READY_POLL_MAX_MS) 1
          (w\<lparr>uw_service := ([1, 2, 3], 0), uw_waits := uw_waits w @ [d]\<rparr>)"
    if "uw_service w = ([1, 2, 3], 1)" for d w
    using that by (subst awaitRegisteredResource.simps)
      (simp add: with_service_def ex_custody_def assertNotTerminal_def RESOURCE_READY_POLL_ATTEMPTS_def)
  have d: "\<exists>r w'. awaitRegisteredResource ex_custody ''w'' ''r'' ''f'' d 1 w = (Inr r, w') \<and> wr_received_size r = 3"
    if "uw_service w = ([1, 2, 3], 0)" for d w
    using that by (subst awaitRegisteredResource.simps) (simp add: with_service_def ex_custody_def)
  define w0 :: "(bytes \<times> nat) upload_world" where "w0 = \<lparr>uw_service = ([1], 1), uw_progress = [], uw_waits = []\<rparr>"
  define w1 where "w1 = report \<lparr>up_filename = ''f'', up_loaded = 1, up_total = 3\<rparr> w0"
  define w2 where "w2 = report \<lparr>up_filename = ''f'', up_loaded = 3, up_total = 3\<rparr> (w1\<lparr>uw_service := ([1, 2, 3], 1)\<rparr>)"
  have chunks: "append_chunks ex_custody ''w'' ''r'' ''f'' [1, 2, 3] 1 w1 = (Inr (), w2)"
    using a [of w1] b [of w2] by (simp add: w2_def w1_def w0_def)
  have w2: "uw_service w2 = ([1, 2, 3], 1)" by (simp add: w2_def)
  define w3 where "w3 = w2\<lparr>uw_service := ([1, 2, 3], 0), uw_waits := uw_waits w2 @ [RESOURCE_READY_POLL_BASE_MS]\<rparr>"
  have w3: "uw_service w3 = ([1, 2, 3], 0)" by (simp add: w3_def)
  obtain r w' where "awaitRegisteredResource ex_custody ''w'' ''r'' ''f'' RESOURCE_READY_POLL_BASE_MS 0 w2 = (Inr r, w')"
    and "wr_received_size r = 3"
    using d [OF w3] unfolding c [OF w2] w3_def [symmetric] by blast
  then show ?thesis
    unfolding w0_def [symmetric] using chunks
    by (simp add: finish_upload_def ex_resource_def assertNotTerminal_def w1_def numeral_3_eq_3)
qed

theorem finished_upload_is_in_custody_witness:
  "\<exists>r w'. finish_upload ex_custody ''w'' ''f'' [1, 2, 3] ex_resource \<lparr>uw_service = ([1], 1), uw_progress = [], uw_waits = []\<rparr> = (Inr r, w')
     \<and> fst (uw_service w') = [1, 2, 3]"
proof -
  let ?holds = "\<lambda>(s :: bytes \<times> nat) (_ :: string). fst s"
  obtain r w' where f: "finish_upload ex_custody ''w'' ''f'' [1, 2, 3] ex_resource
      \<lparr>uw_service = ([1], 1), uw_progress = [], uw_waits = []\<rparr> = (Inr r, w')" using ex_finish by blast
  have "writes_at_offset ex_custody ?holds ''w'' (wr_id ex_resource)"
    by (auto simp: writes_at_offset_def ex_custody_def split: if_splits)
  moreover have "reads_keep ex_custody ?holds ''w'' (wr_id ex_resource)"
    by (auto simp: reads_keep_def ex_custody_def)
  ultimately have "fst (uw_service w') = [1, 2, 3]"
    using finished_upload_is_in_custody [OF _ _ f refl refl, of ?holds] by (simp add: ex_resource_def)
  with f show ?thesis by blast
qed

text \<open>An upload waits at most eleven times, 150 ms doubled up to 2 s: about sixteen seconds in all.\<close>

lemma poll_delays_bounds:
  "RESOURCE_READY_POLL_BASE_MS \<le> d \<Longrightarrow> d \<le> RESOURCE_READY_POLL_MAX_MS \<Longrightarrow>
     list_all (\<lambda>x. RESOURCE_READY_POLL_BASE_MS \<le> x \<and> x \<le> RESOURCE_READY_POLL_MAX_MS) (poll_delays d n)"
  by (induction n arbitrary: d) (auto simp: RESOURCE_READY_POLL_BASE_MS_def RESOURCE_READY_POLL_MAX_MS_def)

lemma upload_waits_are_bounded:
  assumes "finish_upload c workspaceId name blob created w = (r, w')"
  shows "\<exists>k \<le> 11. uw_waits w' = uw_waits w @ poll_delays RESOURCE_READY_POLL_BASE_MS k"
proof -
  let ?p = "\<lparr>up_filename = name, up_loaded = wr_received_size created, up_total = length blob\<rparr>"
  obtain x w1 where a: "append_chunks c workspaceId (wr_id created) name blob (wr_received_size created) (report ?p w) = (x, w1)"
    by force
  have w1: "uw_waits w1 = uw_waits w" using append_chunks_waits [OF a] by simp
  obtain y w2 where b: "awaitRegisteredResource c workspaceId (wr_id created) name RESOURCE_READY_POLL_BASE_MS 0 w1 = (y, w2)"
    by force
  from await_waits [OF b] obtain k where k: "k \<le> 11" "uw_waits w2 = uw_waits w @ poll_delays RESOURCE_READY_POLL_BASE_MS k"
    by (auto simp: w1 RESOURCE_READY_POLL_ATTEMPTS_def)
  have "uw_waits w' \<in> {uw_waits w, uw_waits w2}"
    using assms a b w1 by (auto simp: finish_upload_def split: if_splits sum.splits)
  then show ?thesis using k by (auto intro: exI [of _ 0])
qed

text \<open>The fingerprint of a file of at most two samples covers all of it.\<close>

lemma small_files_are_fingerprinted_whole:
  assumes "length blob \<le> 2 * FINGERPRINT_SAMPLE_BYTES"
  shows "\<exists>prefix. fingerprint_input encode name mediaType blob = prefix @ blob"
proof -
  have "max (min (length blob) FINGERPRINT_SAMPLE_BYTES) (length blob - FINGERPRINT_SAMPLE_BYTES) = min (length blob) FINGERPRINT_SAMPLE_BYTES"
    using assms by auto
  then show ?thesis
    by (auto simp: fingerprint_input_def blob_slice_def Let_def min_def)
qed

text \<open>
  Of a longer file only the first and the last sample count: two files of one size that differ
  in between have the same fingerprint. The second of them resumes from the bytes of the first.
\<close>

lemma middle_is_not_fingerprinted:
  assumes "length first = FINGERPRINT_SAMPLE_BYTES" "length ending = FINGERPRINT_SAMPLE_BYTES" "length middle = length other"
  shows "uploadFingerprint digest encode name mediaType (first @ middle @ ending)
    = uploadFingerprint digest encode name mediaType (first @ other @ ending)"
  using assms by (simp add: uploadFingerprint_def fingerprint_input_def blob_slice_def Let_def)

end
