(* ===== verification/Conversation_Turn.thy ===== *)
theory Conversation_Turn
  imports Entity_State
begin

text \<open>
  \<open>web/src/components/clio/conversation-turn-model.ts\<close>: how the ordered parts of an assistant
  message become what a person sees of a turn. The parts are grouped into iterations (thinking,
  public thoughts, and one lane of tools, tasks and harness entries); parts with a boundary of
  their own, and the feedback a person gave while the turn ran, stand between the iterations.

  The loop of \<open>fallbackIterations\<close> is a fold over the parts on the record of its variables.
  Lower-casing in the person's locale and the ellipsis character are arguments (\<open>text_env\<close>): the
  one belongs to the platform, the other is not a character of the model.
\<close>

section \<open>Data\<close>

datatype thought_field = FromText | FromThought

record thought_source =
  th_messageId :: string
  th_sessionId :: string
  th_partId :: string
  th_field :: thought_field
  th_callId :: "string option"

datatype activity_kind = KTool | KTask | KInjection | KSubagent | KAgentMessage | KMcpApp

datatype activity =
    ToolActivity string tool_invocation
  | TaskActivity string task
  | InjectionActivity string message_block
  | SubagentActivity string message_block
  | AgentMessageActivity string message_block
  | McpAppActivity string message_block

primrec act_kind :: "activity \<Rightarrow> activity_kind" where
  "act_kind (ToolActivity _ _) = KTool"
| "act_kind (TaskActivity _ _) = KTask"
| "act_kind (InjectionActivity _ _) = KInjection"
| "act_kind (SubagentActivity _ _) = KSubagent"
| "act_kind (AgentMessageActivity _ _) = KAgentMessage"
| "act_kind (McpAppActivity _ _) = KMcpApp"

primrec act_id :: "activity \<Rightarrow> string" where
  "act_id (ToolActivity i _) = i"
| "act_id (TaskActivity i _) = i"
| "act_id (InjectionActivity i _) = i"
| "act_id (SubagentActivity i _) = i"
| "act_id (AgentMessageActivity i _) = i"
| "act_id (McpAppActivity i _) = i"

record thinking_entry =
  tk_id :: string
  tk_text :: string
  tk_label :: string
  tk_streaming :: bool
  tk_source :: thought_source
  tk_startedAt :: "string option"
  tk_durationMs :: "rat option"

record conversation_iteration =
  it_id :: string
  it_index :: nat
  it_agentId :: string
  it_thinking :: "thinking_entry list"
  it_nextThoughts :: "string list"
  it_nextThoughtSources :: "thought_source list option"
  it_activity :: "activity list"
  it_tools :: "tool_invocation list"
  it_tasks :: "task list"
  it_terminal :: bool
  it_interrupted :: bool
  it_streaming :: bool
  it_summary :: string

record turn_compaction_record =
  tr_afterIteration :: nat
  tr_block :: message_block

datatype turn_segment =
    IterationsSegment "conversation_iteration list"
  | FeedbackSegment message
  | BlockSegment message_block

record turn_presentation =
  tn_iterations :: "conversation_iteration list"
  tn_compactionRecords :: "turn_compaction_record list"
  tn_residualBlocks :: "message_block list"
  tn_segments :: "turn_segment list"

record text_env =
  te_lower :: "string \<Rightarrow> string"
  te_ellipsis :: string

text \<open>What the loop reads, and its variables.\<close>

record turn_context =
  cx_env :: text_env
  cx_message :: message
  cx_tools :: "tool_invocation obj"
  cx_tasks :: "task obj"
  cx_feedback :: "message list"

record turn_state =
  st_iterations :: "conversation_iteration list"
  st_records :: "turn_compaction_record list"
  st_consumed :: "string list"
  st_segments :: "turn_segment list"
  st_current :: conversation_iteration
  st_publicThought :: "string option"

section \<open>One-line summaries\<close>

definition SUMMARY_TRUNCATE_CHARS :: nat where
  "SUMMARY_TRUNCATE_CHARS = 180"

text \<open>\<open>String.prototype.trimEnd\<close>.\<close>

definition trim_end :: "string \<Rightarrow> string" where
  "trim_end s = rev (dropWhile js_whitespace (rev s))"

definition truncate :: "text_env \<Rightarrow> string \<Rightarrow> nat \<Rightarrow> string" where
  "truncate e v limit = (if length v \<le> limit then v else trim_end (take (limit - 1) v) @ te_ellipsis e)"

definition is_marker :: "string \<Rightarrow> bool" where
  "is_marker m \<longleftrightarrow> m = ''**'' \<or> m = ''__''"

text \<open>\<open>/(\*\*|__)\s*\1/gu\<close> replaced by \<open>$1 $1\<close>.\<close>

lemma length_after_spaces: "length (dropWhile P s) - n < Suc (Suc (length s))"
  using length_dropWhile_le [of P s] by simp

function (sequential) respace_markers :: "string \<Rightarrow> string" where
  "respace_markers [] = []"
| "respace_markers [c] = [c]"
| "respace_markers (c # d # cs) =
     (let r = dropWhile js_whitespace cs
      in if is_marker [c, d] \<and> take 2 r = [c, d] then [c, d] @ '' '' @ [c, d] @ respace_markers (drop 2 r)
         else c # respace_markers (d # cs))"
  by pat_completeness auto
termination
  by (relation "measure length") (auto simp: length_after_spaces)

text \<open>\<open>/(\*\*|__|`)/gu\<close> removed.\<close>

fun drop_markers :: "string \<Rightarrow> string" where
  "drop_markers [] = []"
| "drop_markers [c] = (if c = CHR 0x60 then [] else [c])"
| "drop_markers (c # d # cs) =
     (if c = CHR 0x60 then drop_markers (d # cs)
      else if is_marker [c, d] then drop_markers cs
      else c # drop_markers (d # cs))"

text \<open>\<open>/^\s*#{1,6}\s+/gmu\<close> removed: what follows a match here, with its last character.\<close>

definition heading_at :: "string \<Rightarrow> (char \<times> string) option" where
  "heading_at s =
     (let r = dropWhile js_whitespace s; n = length (takeWhile (\<lambda>c. c = CHR ''#'') r); r' = drop n r
      in if 1 \<le> n \<and> n \<le> 6 \<and> takeWhile js_whitespace r' \<noteq> []
         then Some (last (takeWhile js_whitespace r'), dropWhile js_whitespace r') else None)"

definition line_end :: "char \<Rightarrow> bool" where
  "line_end c \<longleftrightarrow> c = CHR 0x0A \<or> c = CHR 0x0D"

lemma heading_at_shorter: "heading_at s = Some (c, r) \<Longrightarrow> length r < length s"
proof -
  assume a: "heading_at s = Some (c, r)"
  let ?r = "dropWhile js_whitespace s"
  let ?n = "length (takeWhile (\<lambda>c. c = CHR ''#'') ?r)"
  from a have n: "1 \<le> ?n" and r: "r = dropWhile js_whitespace (drop ?n ?r)"
    by (auto simp: heading_at_def Let_def split: if_splits)
  have "length r \<le> length ?r - ?n" using r length_dropWhile_le [of js_whitespace "drop ?n ?r"] by simp
  moreover have "?n \<le> length ?r" by (rule length_takeWhile_le)
  moreover have "length ?r \<le> length s" by (rule length_dropWhile_le)
  ultimately show ?thesis using n by simp
qed

function drop_headings :: "bool \<Rightarrow> string \<Rightarrow> string" where
  "drop_headings line_start s =
     (case (if line_start then heading_at s else None) of
        Some (c, r) \<Rightarrow> drop_headings (line_end c) r
      | None \<Rightarrow> (case s of [] \<Rightarrow> [] | c # cs \<Rightarrow> c # drop_headings (line_end c) cs))"
  by pat_completeness auto
termination
  by (relation "measure (\<lambda>(b, s). length s)") (auto dest: heading_at_shorter split: if_splits)

declare drop_headings.simps [simp del]

text \<open>The text up to the first white space after the end of a sentence, with it.\<close>

fun first_sentence :: "string \<Rightarrow> string" where
  "first_sentence [] = []"
| "first_sentence [c] = [c]"
| "first_sentence (c # d # cs) =
     (if c \<in> {CHR ''.'', CHR ''!'', CHR ''?''} \<and> js_whitespace d then [c, d] else c # first_sentence (d # cs))"

definition compactSentence :: "text_env \<Rightarrow> string \<Rightarrow> string" where
  "compactSentence e v =
     (let plain = drop_headings True (drop_markers (respace_markers v));
          line = trim (collapse_spaces False plain)
      in truncate e (trim (first_sentence line)) SUMMARY_TRUNCATE_CHARS)"

definition iterationSummary ::
  "text_env \<Rightarrow> string list \<Rightarrow> tool_invocation list \<Rightarrow> task list \<Rightarrow> bool \<Rightarrow> string option \<Rightarrow> message_block option \<Rightarrow> string" where
  "iterationSummary e nextThoughts tools tasks terminal eventSummary subagent =
     (case find (\<lambda>v. trim v \<noteq> []) nextThoughts of
        Some thought \<Rightarrow> compactSentence e thought
      | None \<Rightarrow>
          if truthy_str eventSummary then compactSentence e (coalesce eventSummary [])
          else (case tools of
              tool # _ \<Rightarrow> coalesce (slot_val (tool_title tool)) (tool_name tool) @ '' requested''
            | [] \<Rightarrow> (case tasks of
                task # _ \<Rightarrow> compactSentence e (task_title task)
              | [] \<Rightarrow> (case subagent of
                  Some b \<Rightarrow> (case blk_body b of
                      SubagentBlock _ stage _ \<Rightarrow>
                        if stage = Some ''delegate.started'' then ''Child agent started'' else ''Child agent returned''
                    | _ \<Rightarrow> ''Child agent returned'')
                | None \<Rightarrow> if terminal then ''Preparing the final response'' else ''Reasoning about the next action''))))"

section \<open>Iterations\<close>

definition emptyIteration :: "message \<Rightarrow> nat \<Rightarrow> conversation_iteration" where
  "emptyIteration message i =
     \<lparr>it_id = msg_id message @ '':iteration:'' @ show_nat i, it_index = i, it_agentId = ''main'',
      it_thinking = [], it_nextThoughts = [], it_nextThoughtSources = None, it_activity = [],
      it_tools = [], it_tasks = [], it_terminal = False, it_interrupted = False, it_streaming = False, it_summary = []\<rparr>"

definition hasIterationContent :: "conversation_iteration \<Rightarrow> bool" where
  "hasIterationContent i \<longleftrightarrow> it_thinking i \<noteq> [] \<or> it_nextThoughts i \<noteq> [] \<or> it_activity i \<noteq> []"

definition alreadyInLane :: "conversation_iteration \<Rightarrow> activity_kind \<Rightarrow> string \<Rightarrow> bool" where
  "alreadyInLane i kind k \<longleftrightarrow> list_ex (\<lambda>a. act_kind a = kind \<and> act_id a = k) (it_activity i)"

definition tool_owns_receipt :: "tool_invocation \<Rightarrow> string \<Rightarrow> bool" where
  "tool_owns_receipt tool message \<longleftrightarrow>
     tool_name tool = ''message_agent''
     \<and> (case slot_val (tool_input tool) of Some (JObj r) \<Rightarrow> obj_get r ''message'' = Some (JStr message) | _ \<Rightarrow> False)
     \<and> (case slot_val (tool_presentation tool) of
          Some p \<Rightarrow> list_ex (\<lambda>b. pb_result_kind b = Some ''message'') (tp_blocks p) | None \<Rightarrow> False)"

definition messageToolOwnsReceipt :: "conversation_iteration \<Rightarrow> string \<Rightarrow> bool" where
  "messageToolOwnsReceipt i message \<longleftrightarrow>
     list_ex (\<lambda>a. case a of ToolActivity _ tool \<Rightarrow> tool_owns_receipt tool message | _ \<Rightarrow> False) (it_activity i)"

definition messageInterrupted :: "text_env \<Rightarrow> message \<Rightarrow> bool" where
  "messageInterrupted e m \<longleftrightarrow>
     coalesce (map_option (te_lower e) (msg_stop_reason m)) [] \<in> {''cancelled'', ''error'', ''failed'', ''interrupted''}"

definition messageCompletedNormally :: "text_env \<Rightarrow> message \<Rightarrow> bool" where
  "messageCompletedNormally e m \<longleftrightarrow>
     (truthy_str (msg_completed_at m) \<or> truthy_str (msg_stop_reason m)) \<and> \<not> messageInterrupted e m"

definition reasoningLabel :: "string option \<Rightarrow> string" where
  "reasoningLabel provider = ''Thinking''"

fun activity_tool :: "activity \<Rightarrow> tool_invocation list" where
  "activity_tool (ToolActivity _ t) = [t]"
| "activity_tool _ = []"

fun activity_task :: "activity \<Rightarrow> task list" where
  "activity_task (TaskActivity _ t) = [t]"
| "activity_task _ = []"

fun activity_block :: "activity \<Rightarrow> message_block option" where
  "activity_block (SubagentActivity _ b) = Some b"
| "activity_block _ = None"

section \<open>The loop\<close>

text \<open>\<open>flush\<close>: the current iteration, when it has content, is closed and a new one begun.\<close>

definition closed_iteration :: "turn_context \<Rightarrow> bool \<Rightarrow> bool \<Rightarrow> conversation_iteration \<Rightarrow> conversation_iteration" where
  "closed_iteration c terminal interrupted i =
     (let tools = concat (map activity_tool (it_activity i)); tasks = concat (map activity_task (it_activity i))
      in i\<lparr>it_tools := tools, it_tasks := tasks, it_terminal := terminal, it_interrupted := interrupted,
        it_summary := iterationSummary (cx_env c) (it_nextThoughts i) tools tasks terminal
          (map_option tk_text (at_last (it_thinking i)))
          (Option.bind (find (\<lambda>a. act_kind a = KSubagent) (it_activity i)) activity_block)\<rparr>)"

definition push_iteration :: "conversation_iteration \<Rightarrow> turn_segment list \<Rightarrow> turn_segment list" where
  "push_iteration i segments = (case at_last segments of
       Some (IterationsSegment is) \<Rightarrow> butlast segments @ [IterationsSegment (is @ [i])]
     | _ \<Rightarrow> segments @ [IterationsSegment [i]])"

definition flush_iteration :: "turn_context \<Rightarrow> bool \<Rightarrow> bool \<Rightarrow> turn_state \<Rightarrow> turn_state" where
  "flush_iteration c terminal interrupted st =
     (if \<not> hasIterationContent (st_current st) then st
      else let i = closed_iteration c terminal interrupted (st_current st)
           in st\<lparr>st_iterations := st_iterations st @ [i], st_segments := push_iteration i (st_segments st),
             st_current := emptyIteration (cx_message c) (length (st_iterations st) + 1)\<rparr>)"

definition add_segment :: "turn_segment \<Rightarrow> turn_state \<Rightarrow> turn_state" where
  "add_segment s st = st\<lparr>st_segments := st_segments st @ [s]\<rparr>"

definition consume :: "string \<Rightarrow> turn_state \<Rightarrow> turn_state" where
  "consume k st = st\<lparr>st_consumed := k # st_consumed st\<rparr>"

definition update_current :: "(conversation_iteration \<Rightarrow> conversation_iteration) \<Rightarrow> turn_state \<Rightarrow> turn_state" where
  "update_current f st = st\<lparr>st_current := f (st_current st)\<rparr>"

definition after_part_id :: "message \<Rightarrow> string option" where
  "after_part_id row = (case msg_metadata row of
       Some m \<Rightarrow> (case obj_get m ''steer_delivery'' of
           Some (JObj d) \<Rightarrow> (case obj_get d ''after_part_id'' of Some (JStr s) \<Rightarrow> Some s | _ \<Rightarrow> None)
         | _ \<Rightarrow> None)
     | None \<Rightarrow> None)"

definition insertFeedback :: "turn_context \<Rightarrow> string \<Rightarrow> turn_state \<Rightarrow> turn_state" where
  "insertFeedback c afterPartId st = foldl
     (\<lambda>st row. if after_part_id row = Some afterPartId
        then consume (msg_id row) (add_segment (FeedbackSegment row) (flush_iteration c False False st)) else st)
     st (cx_feedback c)"

text \<open>An entry of the lane, once per kind and id in an iteration.\<close>

definition push_activity :: "activity \<Rightarrow> turn_state \<Rightarrow> turn_state" where
  "push_activity a st =
     (if alreadyInLane (st_current st) (act_kind a) (act_id a) then st
      else update_current (\<lambda>i. i\<lparr>it_activity := it_activity i @ [a]\<rparr>) st)"

definition add_thought :: "string \<Rightarrow> thought_source \<Rightarrow> turn_state \<Rightarrow> turn_state" where
  "add_thought text source st = update_current (\<lambda>i. i\<lparr>it_nextThoughts := it_nextThoughts i @ [text],
       it_nextThoughtSources := Some (coalesce (it_nextThoughtSources i) [] @ [source])\<rparr>)
     (st\<lparr>st_publicThought := Some text\<rparr>)"

definition note_streaming :: "bool \<Rightarrow> turn_state \<Rightarrow> turn_state" where
  "note_streaming s st = update_current (\<lambda>i. i\<lparr>it_streaming := it_streaming i \<or> s\<rparr>) st"

definition source_of :: "turn_context \<Rightarrow> string \<Rightarrow> thought_field \<Rightarrow> string option \<Rightarrow> thought_source" where
  "source_of c part field call = \<lparr>th_messageId = msg_id (cx_message c), th_sessionId = msg_session_id (cx_message c),
     th_partId = part, th_field = field, th_callId = call\<rparr>"

text \<open>A part with a boundary of its own, consumed or left to the residual lane.\<close>

definition place_block :: "turn_context \<Rightarrow> message_block \<Rightarrow> turn_state \<Rightarrow> turn_state" where
  "place_block c block st = add_segment (BlockSegment block) (consume (blk_id block) (flush_iteration c False False st))"

definition place_unresolved :: "turn_context \<Rightarrow> message_block \<Rightarrow> turn_state \<Rightarrow> turn_state" where
  "place_unresolved c block st = add_segment (BlockSegment block) (flush_iteration c False False st)"

definition add_record :: "message_block \<Rightarrow> turn_state \<Rightarrow> turn_state" where
  "add_record block st = st\<lparr>st_records := st_records st @ [\<lparr>tr_afterIteration = length (st_iterations st), tr_block = block\<rparr>]\<rparr>"

definition place_failure :: "turn_context \<Rightarrow> message_block \<Rightarrow> turn_state \<Rightarrow> turn_state" where
  "place_failure c block st =
     add_segment (BlockSegment block) (consume (blk_id block) (add_record block (flush_iteration c False False st)))"

definition place_injection :: "turn_context \<Rightarrow> message_block \<Rightarrow> string \<Rightarrow> turn_state \<Rightarrow> turn_state" where
  "place_injection c block source st =
     (let st1 = (if source = ''summarization'' then add_record block (flush_iteration c False False st) else st)
      in consume (blk_id block) (push_activity (InjectionActivity (blk_id block) block) st1))"

definition place_reasoning ::
  "turn_context \<Rightarrow> message_block \<Rightarrow> string \<Rightarrow> bool \<Rightarrow> string option \<Rightarrow> string option \<Rightarrow> rat option \<Rightarrow> turn_state \<Rightarrow> turn_state" where
  "place_reasoning c block text streaming provider started duration st =
     (if \<not> streaming \<and> trim text = [] then consume (blk_id block) st
      else let st1 = st\<lparr>st_publicThought := None\<rparr>;
               st2 = (if it_nextThoughts (st_current st1) \<noteq> [] \<or> it_activity (st_current st1) \<noteq> [] then flush_iteration c False False st1 else st1);
               entry = \<lparr>tk_id = blk_id block, tk_text = text, tk_label = reasoningLabel provider, tk_streaming = streaming,
                 tk_source = source_of c (blk_id block) FromText None, tk_startedAt = started, tk_durationMs = duration\<rparr>
           in consume (blk_id block) (note_streaming streaming
                (update_current (\<lambda>i. i\<lparr>it_thinking := it_thinking i @ [entry]\<rparr>) st2)))"

definition place_next_thought :: "turn_context \<Rightarrow> message_block \<Rightarrow> string \<Rightarrow> bool \<Rightarrow> turn_state \<Rightarrow> turn_state" where
  "place_next_thought c block text streaming st =
     (let st1 = (if it_activity (st_current st) \<noteq> [] then flush_iteration c False False st else st)
      in consume (blk_id block) (note_streaming streaming (add_thought text (source_of c (blk_id block) FromText None) st1)))"

definition place_tool :: "turn_context \<Rightarrow> message_block \<Rightarrow> string \<Rightarrow> string option \<Rightarrow> turn_state \<Rightarrow> turn_state" where
  "place_tool c block toolId thought st = (case obj_get (cx_tools c) toolId of
       None \<Rightarrow> place_unresolved c block st
     | Some tool \<Rightarrow>
         (let st1 = push_activity (ToolActivity (tool_id tool) tool) st;
              st2 = (if truthy_str thought \<and> it_nextThoughts (st_current st1) = [] \<and> thought \<noteq> st_publicThought st1
                then add_thought (coalesce thought []) (source_of c (blk_id block) FromThought (Some toolId)) st1 else st1)
          in consume (blk_id block) (note_streaming (tool_state tool \<in> {ToolPending, ToolRunning}) st2)))"

definition place_task :: "turn_context \<Rightarrow> message_block \<Rightarrow> string \<Rightarrow> turn_state \<Rightarrow> turn_state" where
  "place_task c block taskId st = (case obj_get (cx_tasks c) taskId of
       None \<Rightarrow> place_unresolved c block st
     | Some task \<Rightarrow> consume (blk_id block) (note_streaming (task_state task \<in> {RunQueued, RunRunning})
         (push_activity (TaskActivity (task_id task) task) st)))"

definition place_activity :: "message_block \<Rightarrow> activity \<Rightarrow> turn_state \<Rightarrow> turn_state" where
  "place_activity block a st = consume (blk_id block) (push_activity a st)"

definition place_agent_message :: "message_block \<Rightarrow> string \<Rightarrow> turn_state \<Rightarrow> turn_state" where
  "place_agent_message block text st =
     (if messageToolOwnsReceipt (st_current st) text then consume (blk_id block) st
      else place_activity block (AgentMessageActivity (blk_id block) block) st)"

definition has_tool :: "turn_state \<Rightarrow> bool" where
  "has_tool st \<longleftrightarrow> list_ex (\<lambda>a. act_kind a = KTool) (it_activity (st_current st))"

definition place_other :: "turn_context \<Rightarrow> message_block \<Rightarrow> bool \<Rightarrow> turn_state \<Rightarrow> turn_state" where
  "place_other c block answer st = add_segment (BlockSegment block) (flush_iteration c (answer \<and> \<not> has_tool st) False st)"

definition PLUGIN_CHANGE_INJECTION_SOURCE :: string where
  "PLUGIN_CHANGE_INJECTION_SOURCE = ''plugin_change''"

definition transport_only :: "message_block \<Rightarrow> bool" where
  "transport_only block \<longleftrightarrow> (case blk_body block of
       InjectionBlock source _ _ _ _ variants _ \<Rightarrow> source = ''tool_use'' \<or> truthy_str variants | _ \<Rightarrow> False)"

definition isParentDelegation :: "message_block \<Rightarrow> bool" where
  "isParentDelegation block \<longleftrightarrow> (case blk_body block of InjectionBlock source _ _ _ _ _ _ \<Rightarrow> source = ''delegation'' | _ \<Rightarrow> False)"

definition turn_block :: "turn_context \<Rightarrow> message_block \<Rightarrow> turn_state \<Rightarrow> turn_state" where
  "turn_block c block st =
     (if transport_only block then st
      else if isParentDelegation block then place_block c block st
      else case blk_body block of
        NoticeBlock source _ _ _ _ _ \<Rightarrow>
          if source = ''compaction_failed'' then place_failure c block st else place_other c block False st
      | InjectionBlock source _ _ _ _ _ _ \<Rightarrow>
          if source = PLUGIN_CHANGE_INJECTION_SOURCE then place_block c block st else place_injection c block source st
      | ReasoningBlock text streaming _ provider _ started _ duration \<Rightarrow>
          place_reasoning c block text (streaming = Some True) provider started duration st
      | TextBlock text streaming \<Rightarrow>
          if blk_channel block = Some ''next_thought'' then place_next_thought c block text (streaming = Some True) st
          else place_other c block (blk_channel block = Some ''answer'') st
      | ToolBlock toolId thought \<Rightarrow> place_tool c block toolId thought st
      | TaskBlock taskId \<Rightarrow> place_task c block taskId st
      | SubagentBlock _ stage _ \<Rightarrow>
          if truthy_str stage then place_activity block (SubagentActivity (blk_id block) block) st
          else place_other c block False st
      | AgentMessageBlock _ _ text _ _ \<Rightarrow> place_agent_message block text st
      | McpAppBlock _ _ _ _ _ _ _ \<Rightarrow> place_activity block (McpAppActivity (blk_id block) block) st
      | _ \<Rightarrow> place_other c block False st)"

fun turn_blocks :: "turn_context \<Rightarrow> string \<Rightarrow> message_block list \<Rightarrow> turn_state \<Rightarrow> turn_state" where
  "turn_blocks c previous [] st = insertFeedback c previous st"
| "turn_blocks c previous (block # blocks) st = turn_blocks c (blk_id block) blocks (turn_block c block (insertFeedback c previous st))"

definition message_parts :: "message \<Rightarrow> message_block list" where
  "message_parts m =
     (if list_ex (\<lambda>b. blk_sequence b = None) (msg_blocks m) then msg_blocks m
      else js_sort (by_key (\<lambda>b. coalesce (blk_sequence b) 0)) (msg_blocks m))"

definition ordered_parts :: "message \<Rightarrow> message list \<Rightarrow> message_block list" where
  "ordered_parts m injections = concat (map msg_blocks injections) @ message_parts m"

definition turn_start :: "message \<Rightarrow> turn_state" where
  "turn_start m = \<lparr>st_iterations = [], st_records = [], st_consumed = [], st_segments = [],
     st_current = emptyIteration m 0, st_publicThought = None\<rparr>"

definition fallbackIterations :: "turn_context \<Rightarrow> message list \<Rightarrow> turn_state" where
  "fallbackIterations c injections =
     (let st = turn_blocks c [] (ordered_parts (cx_message c) injections) (turn_start (cx_message c))
      in flush_iteration c (messageCompletedNormally (cx_env c) (cx_message c) \<and> \<not> has_tool st)
           (messageInterrupted (cx_env c) (cx_message c)) st)"

definition conversationTurnPresentation :: "turn_context \<Rightarrow> message list \<Rightarrow> turn_presentation" where
  "conversationTurnPresentation c injections =
     (let st = fallbackIterations c injections
      in \<lparr>tn_iterations = st_iterations st, tn_compactionRecords = st_records st,
          tn_residualBlocks = filter (\<lambda>b. blk_id b \<notin> set (st_consumed st)) (msg_blocks (cx_message c)),
          tn_segments = st_segments st\<rparr>)"

section \<open>What a turn shows\<close>

text \<open>The entries of a presentation, in the order they stand on the page.\<close>

datatype turn_entry =
    ThinkingEntry string
  | ThoughtEntry string
  | LaneEntry activity_kind string
  | BlockEntry message_block
  | FeedbackEntry message

definition lane_entry :: "activity \<Rightarrow> turn_entry" where
  "lane_entry a = LaneEntry (act_kind a) (act_id a)"

definition text_sources :: "conversation_iteration \<Rightarrow> thought_source list" where
  "text_sources i = filter (\<lambda>s. th_field s = FromText) (coalesce (it_nextThoughtSources i) [])"

definition iteration_entries :: "conversation_iteration \<Rightarrow> turn_entry list" where
  "iteration_entries i = map (\<lambda>t. ThinkingEntry (tk_id t)) (it_thinking i)
     @ map (\<lambda>s. ThoughtEntry (th_partId s)) (text_sources i) @ map lane_entry (it_activity i)"

primrec segment_entries :: "turn_segment \<Rightarrow> turn_entry list" where
  "segment_entries (IterationsSegment is) = concat (map iteration_entries is)"
| "segment_entries (FeedbackSegment m) = [FeedbackEntry m]"
| "segment_entries (BlockSegment b) = [BlockEntry b]"

definition shown_entries :: "turn_segment list \<Rightarrow> turn_entry list" where
  "shown_entries segments = concat (map segment_entries segments)"

definition shown :: "turn_state \<Rightarrow> turn_entry list" where
  "shown st = shown_entries (st_segments st) @ iteration_entries (st_current st)"

text \<open>What one part shows, by its kind alone.\<close>

definition block_entries :: "turn_context \<Rightarrow> message_block \<Rightarrow> turn_entry list" where
  "block_entries c block =
     (if transport_only block then []
      else if isParentDelegation block then [BlockEntry block]
      else case blk_body block of
        InjectionBlock source _ _ _ _ _ _ \<Rightarrow>
          if source = PLUGIN_CHANGE_INJECTION_SOURCE then [BlockEntry block] else [LaneEntry KInjection (blk_id block)]
      | ReasoningBlock text streaming _ _ _ _ _ _ \<Rightarrow>
          if streaming \<noteq> Some True \<and> trim text = [] then [] else [ThinkingEntry (blk_id block)]
      | TextBlock _ _ \<Rightarrow> if blk_channel block = Some ''next_thought'' then [ThoughtEntry (blk_id block)] else [BlockEntry block]
      | ToolBlock k _ \<Rightarrow> (case obj_get (cx_tools c) k of Some t \<Rightarrow> [LaneEntry KTool (tool_id t)] | None \<Rightarrow> [BlockEntry block])
      | TaskBlock k \<Rightarrow> (case obj_get (cx_tasks c) k of Some t \<Rightarrow> [LaneEntry KTask (task_id t)] | None \<Rightarrow> [BlockEntry block])
      | SubagentBlock _ stage _ \<Rightarrow> if truthy_str stage then [LaneEntry KSubagent (blk_id block)] else [BlockEntry block]
      | AgentMessageBlock _ _ _ _ _ \<Rightarrow> [LaneEntry KAgentMessage (blk_id block)]
      | McpAppBlock _ _ _ _ _ _ _ \<Rightarrow> [LaneEntry KMcpApp (blk_id block)]
      | _ \<Rightarrow> [BlockEntry block])"

definition feedback_entries :: "turn_context \<Rightarrow> string \<Rightarrow> turn_entry list" where
  "feedback_entries c k = map FeedbackEntry (filter (\<lambda>row. after_part_id row = Some k) (cx_feedback c))"

text \<open>The parts in order, each followed by the feedback delivered after it.\<close>

fun turn_entries :: "turn_context \<Rightarrow> string \<Rightarrow> message_block list \<Rightarrow> turn_entry list" where
  "turn_entries c previous [] = feedback_entries c previous"
| "turn_entries c previous (b # bs) = feedback_entries c previous @ block_entries c b @ turn_entries c (blk_id b) bs"

fun is_lane :: "turn_entry \<Rightarrow> bool" where
  "is_lane (LaneEntry _ _) = True"
| "is_lane _ = False"

text \<open>Every tool, task and harness entry is named by one part.\<close>

definition parts_distinct :: "turn_context \<Rightarrow> message_block list \<Rightarrow> bool" where
  "parts_distinct c parts \<longleftrightarrow> distinct (filter is_lane (concat (map (block_entries c) parts)))"

text \<open>No message to an agent is also the receipt that the tool which sent it shows.\<close>

definition no_owned_receipt :: "turn_context \<Rightarrow> message_block list \<Rightarrow> bool" where
  "no_owned_receipt c parts \<longleftrightarrow> list_all (\<lambda>b. case blk_body b of
       AgentMessageBlock _ _ text _ _ \<Rightarrow> list_all (\<lambda>t. \<not> tool_owns_receipt t text) (obj_values (cx_tools c)) | _ \<Rightarrow> True) parts"

section \<open>Lemmas: the operations of the loop\<close>

named_theorems turn_fields \<open>what the small operations of the loop change\<close>

lemma update_current_fields [turn_fields]:
  "st_segments (update_current f st) = st_segments st" "st_current (update_current f st) = f (st_current st)"
  "st_iterations (update_current f st) = st_iterations st" "st_records (update_current f st) = st_records st"
  by (simp_all add: update_current_def)

lemma consume_fields [turn_fields]:
  "st_segments (consume k st) = st_segments st" "st_current (consume k st) = st_current st"
  "st_iterations (consume k st) = st_iterations st" "st_records (consume k st) = st_records st"
  by (simp_all add: consume_def)

lemma add_segment_fields [turn_fields]:
  "st_segments (add_segment s st) = st_segments st @ [s]" "st_current (add_segment s st) = st_current st"
  "st_iterations (add_segment s st) = st_iterations st" "st_records (add_segment s st) = st_records st"
  by (simp_all add: add_segment_def)

lemma add_record_fields [turn_fields]:
  "st_segments (add_record b st) = st_segments st" "st_current (add_record b st) = st_current st"
  "st_iterations (add_record b st) = st_iterations st"
  "st_records (add_record b st) = st_records st @ [\<lparr>tr_afterIteration = length (st_iterations st), tr_block = b\<rparr>]"
  by (simp_all add: add_record_def)

lemma shown_small [simp]:
  "shown (consume k st) = shown st" "shown (add_record b st) = shown st" "shown (note_streaming s st) = shown st"
  "shown (st\<lparr>st_publicThought := t\<rparr>) = shown st"
  by (simp_all add: shown_def turn_fields note_streaming_def iteration_entries_def text_sources_def)

lemma shown_entries_append [simp]: "shown_entries (xs @ ys) = shown_entries xs @ shown_entries ys"
  by (simp add: shown_entries_def)

lemma shown_entries_simps [simp]: "shown_entries [] = []" "shown_entries (s # ss) = segment_entries s @ shown_entries ss"
  by (simp_all add: shown_entries_def)

lemma push_iteration_shown: "shown_entries (push_iteration i segments) = shown_entries segments @ iteration_entries i"
  by (cases segments rule: rev_cases) (auto simp: push_iteration_def at_last_def split: turn_segment.splits)

lemma iteration_entries_closed [simp]: "iteration_entries (closed_iteration c t n i) = iteration_entries i"
  by (simp add: closed_iteration_def iteration_entries_def text_sources_def Let_def)

lemma emptyIteration_entries [simp]: "iteration_entries (emptyIteration m n) = []"
  by (simp add: emptyIteration_def iteration_entries_def text_sources_def)

text \<open>Sources and thoughts come in pairs, and the tools of the lane are tools of the context.\<close>

definition lanes_ok :: "turn_context \<Rightarrow> turn_state \<Rightarrow> bool" where
  "lanes_ok c st \<longleftrightarrow>
     length (coalesce (it_nextThoughtSources (st_current st)) []) = length (it_nextThoughts (st_current st))
     \<and> (\<forall>a \<in> set (it_activity (st_current st)). set (activity_tool a) \<subseteq> set (obj_values (cx_tools c)))"

lemma lanes_ok_empty [simp]: "lanes_ok c (st\<lparr>st_current := emptyIteration m n\<rparr>)"
  by (simp add: lanes_ok_def emptyIteration_def)

lemma lanes_ok_small [simp]:
  "lanes_ok c (consume k st) = lanes_ok c st" "lanes_ok c (add_record b st) = lanes_ok c st"
  "lanes_ok c (note_streaming s st) = lanes_ok c st" "lanes_ok c (add_segment s' st) = lanes_ok c st"
  "lanes_ok c (st\<lparr>st_publicThought := t\<rparr>) = lanes_ok c st"
  by (simp_all add: lanes_ok_def turn_fields note_streaming_def)

lemma lanes_ok_add_thought [simp]: "lanes_ok c st \<Longrightarrow> lanes_ok c (add_thought text s st)"
  by (simp add: lanes_ok_def add_thought_def turn_fields)

lemma lanes_ok_push_activity:
  "lanes_ok c st \<Longrightarrow> set (activity_tool a) \<subseteq> set (obj_values (cx_tools c)) \<Longrightarrow> lanes_ok c (push_activity a st)"
  by (auto simp: lanes_ok_def push_activity_def turn_fields)

lemma flush_shown [simp]: "shown (flush_iteration c t n st) = shown st"
  by (simp add: flush_iteration_def shown_def push_iteration_shown Let_def)

lemma flush_lanes_ok [simp]: "lanes_ok c st \<Longrightarrow> lanes_ok c (flush_iteration c t n st)"
  by (simp add: flush_iteration_def Let_def lanes_ok_def emptyIteration_def)

lemma flush_current:
  "it_activity (st_current (flush_iteration c t n st)) = []" "it_nextThoughts (st_current (flush_iteration c t n st)) = []"
  "it_thinking (st_current (flush_iteration c t n st)) = []"
  by (auto simp: flush_iteration_def Let_def emptyIteration_def hasIterationContent_def)

lemma lanes_ok_no_sources: "lanes_ok c st \<Longrightarrow> it_nextThoughts (st_current st) = [] \<Longrightarrow> text_sources (st_current st) = []"
  by (simp add: lanes_ok_def text_sources_def)

lemma flush_quiet: "lanes_ok c st \<Longrightarrow> iteration_entries (st_current (flush_iteration c t n st)) = []"
  by (simp add: iteration_entries_def flush_current lanes_ok_no_sources [OF flush_lanes_ok])

lemma flush_add_segment_shown:
  assumes "lanes_ok c st"
  shows "shown (add_segment s (flush_iteration c t n st)) = shown st @ segment_entries s"
proof -
  have "shown_entries (st_segments (flush_iteration c t n st)) = shown st"
    using flush_shown [of c t n st] unfolding shown_def [of "flush_iteration c t n st"] by (simp add: flush_quiet [OF assms])
  with flush_quiet [OF assms, of t n] show ?thesis
    unfolding shown_def [of "add_segment s (flush_iteration c t n st)"] by (simp add: turn_fields)
qed

lemma add_segment_through [simp]:
  "add_segment s (consume k st) = consume k (add_segment s st)" "add_segment s (add_record b st) = add_record b (add_segment s st)"
  by (simp_all add: add_segment_def consume_def add_record_def)

lemma alreadyInLane_shown: "alreadyInLane (st_current st) kind k \<Longrightarrow> LaneEntry kind k \<in> set (shown st)"
  by (auto simp: alreadyInLane_def list_ex_iff shown_def iteration_entries_def lane_entry_def)

lemma push_activity_shown:
  "lane_entry a \<notin> set (shown st) \<Longrightarrow> shown (push_activity a st) = shown st @ [lane_entry a]"
  using alreadyInLane_shown [of st "act_kind a" "act_id a"]
  by (auto simp: push_activity_def shown_def turn_fields iteration_entries_def text_sources_def lane_entry_def)

section \<open>Lemmas: each part shows its entry\<close>

text \<open>
  What a part does to the page: it adds its entries at the end and keeps the lanes well formed.
\<close>

definition adds :: "turn_context \<Rightarrow> turn_state \<Rightarrow> turn_entry list \<Rightarrow> turn_state \<Rightarrow> bool" where
  "adds c st es st' \<longleftrightarrow> shown st' = shown st @ es \<and> lanes_ok c st'"

lemma adds_nothing: "lanes_ok c st \<Longrightarrow> adds c st [] st"
  by (simp add: adds_def)

lemma adds_consume [simp]: "adds c st es (consume k st') = adds c st es st'"
  by (simp add: adds_def)

lemma adds_segment: "lanes_ok c st \<Longrightarrow> adds c st (segment_entries s) (add_segment s (flush_iteration c t n st))"
  by (simp add: adds_def flush_add_segment_shown)

lemma adds_lane:
  "lanes_ok c st \<Longrightarrow> lane_entry a \<notin> set (shown st) \<Longrightarrow> set (activity_tool a) \<subseteq> set (obj_values (cx_tools c)) \<Longrightarrow>
     adds c st [lane_entry a] (push_activity a st)"
  by (simp add: adds_def push_activity_shown lanes_ok_push_activity)

lemma adds_reasoning:
  assumes "lanes_ok c st" "streaming \<or> trim text \<noteq> []"
  shows "adds c st [ThinkingEntry (blk_id block)] (place_reasoning c block text streaming provider started duration st)"
proof -
  let ?st1 = "st\<lparr>st_publicThought := None\<rparr>"
  define st2 where "st2 = (if it_nextThoughts (st_current ?st1) \<noteq> [] \<or> it_activity (st_current ?st1) \<noteq> []
    then flush_iteration c False False ?st1 else ?st1)"
  have 2: "shown st2 = shown st" "lanes_ok c st2" "it_nextThoughts (st_current st2) = []" "it_activity (st_current st2) = []"
    using assms(1) by (auto simp: st2_def flush_current)
  with lanes_ok_no_sources [OF 2(2,3)] assms(2) show ?thesis
    unfolding place_reasoning_def Let_def st2_def [symmetric]
    by (auto simp: adds_def shown_def turn_fields note_streaming_def iteration_entries_def text_sources_def lanes_ok_def)
qed

lemma adds_next_thought:
  assumes "lanes_ok c st"
  shows "adds c st [ThoughtEntry (blk_id block)] (place_next_thought c block text streaming st)"
proof -
  define st1 where "st1 = (if it_activity (st_current st) \<noteq> [] then flush_iteration c False False st else st)"
  have 1: "shown st1 = shown st" "lanes_ok c st1" "it_activity (st_current st1) = []"
    using assms by (auto simp: st1_def flush_current)
  then have "shown (add_thought text (source_of c (blk_id block) FromText None) st1) = shown st @ [ThoughtEntry (blk_id block)]"
    by (auto simp: shown_def turn_fields add_thought_def iteration_entries_def text_sources_def source_of_def)
  with 1 show ?thesis
    unfolding place_next_thought_def Let_def st1_def [symmetric] by (simp add: adds_def)
qed

lemma add_tool_thought_shown [simp]: "shown (add_thought text (source_of c k FromThought call) st) = shown st"
  by (simp add: shown_def turn_fields add_thought_def iteration_entries_def text_sources_def source_of_def)

lemma adds_tool:
  assumes "lanes_ok c st" "obj_get (cx_tools c) k = Some tool" "LaneEntry KTool (tool_id tool) \<notin> set (shown st)"
  shows "adds c st [LaneEntry KTool (tool_id tool)] (place_tool c block k thought st)"
proof -
  have "adds c st [lane_entry (ToolActivity (tool_id tool) tool)] (push_activity (ToolActivity (tool_id tool) tool) st)"
    using assms obj_get_value by (intro adds_lane) (auto simp: lane_entry_def)
  then show ?thesis using assms(2) by (auto simp: place_tool_def Let_def adds_def lane_entry_def)
qed

lemma owned_receipt_tool:
  "lanes_ok c st \<Longrightarrow> messageToolOwnsReceipt (st_current st) text \<Longrightarrow>
     \<exists>t \<in> set (obj_values (cx_tools c)). tool_owns_receipt t text"
proof -
  assume ok: "lanes_ok c st" and "messageToolOwnsReceipt (st_current st) text"
  then obtain a where a: "a \<in> set (it_activity (st_current st))"
    "case a of ToolActivity _ tool \<Rightarrow> tool_owns_receipt tool text | _ \<Rightarrow> False"
    by (auto simp: messageToolOwnsReceipt_def list_ex_iff)
  from a(2) obtain k t where t: "a = ToolActivity k t" "tool_owns_receipt t text" by (auto split: activity.splits)
  with ok a(1) show ?thesis by (force simp: lanes_ok_def)
qed

lemma turn_block_adds:
  assumes "lanes_ok c st" "\<And>e. e \<in> set (block_entries c b) \<Longrightarrow> is_lane e \<Longrightarrow> e \<notin> set (shown st)" "no_owned_receipt c [b]"
  shows "adds c st (block_entries c b) (turn_block c b st)"
proof (cases "transport_only b \<or> isParentDelegation b")
  case True
  with assms(1) adds_segment [of c st "BlockSegment b" False False] show ?thesis
    by (auto simp: turn_block_def block_entries_def place_block_def adds_nothing)
next
  case False
  note other = adds_segment [OF assms(1), of "BlockSegment b"]
  note lane = adds_lane [OF assms(1)]
  show ?thesis
  proof (cases "blk_body b")
    case (InjectionBlock source tx c1 t1 c2 v1 n1)
    have "adds c (add_record b (flush_iteration c False False st)) [LaneEntry KInjection (blk_id b)]
        (push_activity (InjectionActivity (blk_id b) b) (add_record b (flush_iteration c False False st)))"
      if "source \<noteq> PLUGIN_CHANGE_INJECTION_SOURCE"
      using assms(1) assms(2) [of "LaneEntry KInjection (blk_id b)"] False InjectionBlock that
        adds_lane [of c "add_record b (flush_iteration c False False st)" "InjectionActivity (blk_id b) b"]
      by (auto simp: block_entries_def lane_entry_def)
    with False InjectionBlock other lane [of "InjectionActivity (blk_id b) b"] assms(2) [of "LaneEntry KInjection (blk_id b)"]
    show ?thesis
      by (auto simp: turn_block_def block_entries_def place_block_def place_injection_def lane_entry_def adds_def Let_def)
  next
    case (ReasoningBlock tx streaming s1 p1 d1 t1 t2 n1)
    with False assms(1) adds_reasoning [OF assms(1), of "streaming = Some True" tx b p1 t1 n1] show ?thesis
      by (auto simp: turn_block_def block_entries_def place_reasoning_def adds_nothing)
  next
    case (TextBlock tx streaming)
    with False other adds_next_thought [OF assms(1)] show ?thesis
      by (auto simp: turn_block_def block_entries_def place_other_def)
  next
    case (ToolBlock k thought)
    with False other assms(2) adds_tool [OF assms(1)] show ?thesis
      by (auto simp: turn_block_def block_entries_def place_tool_def place_unresolved_def split: option.splits)
  next
    case (TaskBlock k)
    with False other assms(2) lane show ?thesis
      by (auto simp: turn_block_def block_entries_def place_task_def place_unresolved_def lane_entry_def adds_def split: option.splits)
  next
    case (SubagentBlock k stage t1)
    with False other assms(2) lane [of "SubagentActivity (blk_id b) b"] show ?thesis
      by (auto simp: turn_block_def block_entries_def place_activity_def place_other_def lane_entry_def)
  next
    case (AgentMessageBlock s1 l1 tx a1 t1)
    with assms(3) have "\<not> messageToolOwnsReceipt (st_current st) tx"
      using owned_receipt_tool [OF assms(1)] by (auto simp: no_owned_receipt_def list_all_iff)
    with False AgentMessageBlock assms(2) lane [of "AgentMessageActivity (blk_id b) b"] show ?thesis
      by (auto simp: turn_block_def block_entries_def place_agent_message_def place_activity_def lane_entry_def)
  next
    case (McpAppBlock a1 a2 a3 a4 a5 a6 a7)
    with False assms(2) lane [of "McpAppActivity (blk_id b) b"] show ?thesis
      by (auto simp: turn_block_def block_entries_def place_activity_def lane_entry_def)
  next
    case (NoticeBlock source t1 a1 a2 a3 a4)
    with False other show ?thesis
      by (auto simp: turn_block_def block_entries_def place_failure_def place_other_def adds_def)
  qed (use False other in \<open>auto simp: turn_block_def block_entries_def place_other_def\<close>)
qed

lemma insertFeedback_adds:
  assumes "lanes_ok c st"
  shows "adds c st (feedback_entries c k) (insertFeedback c k st)"
proof -
  let ?step = "\<lambda>st row. if after_part_id row = Some k
    then consume (msg_id row) (add_segment (FeedbackSegment row) (flush_iteration c False False st)) else st"
  have "adds c st (map FeedbackEntry (filter (\<lambda>row. after_part_id row = Some k) rows)) (foldl ?step st rows)" for rows
    using assms
  proof (induction rows arbitrary: st)
    case (Cons row rows)
    show ?case
    proof (cases "after_part_id row = Some k")
      case True
      let ?st1 = "consume (msg_id row) (add_segment (FeedbackSegment row) (flush_iteration c False False st))"
      have "adds c st [FeedbackEntry row] ?st1"
        using adds_segment [OF Cons.prems, of "FeedbackSegment row" False False] by simp
      with Cons.IH [of ?st1] True show ?thesis by (simp add: adds_def)
    qed (use Cons in simp)
  qed (simp add: adds_nothing)
  then show ?thesis by (simp add: insertFeedback_def feedback_entries_def)
qed

lemma no_lane_feedback: "filter is_lane (feedback_entries c k) = []"
  by (simp add: feedback_entries_def filter_map comp_def)

lemma turn_blocks_adds:
  assumes "lanes_ok c st" "parts_distinct c bs" "no_owned_receipt c bs"
    and "set (filter is_lane (shown st)) \<inter> set (concat (map (block_entries c) bs)) = {}"
  shows "adds c st (turn_entries c k bs) (turn_blocks c k bs st)"
  using assms
proof (induction bs arbitrary: st k)
  case Nil
  then show ?case using insertFeedback_adds by simp
next
  case (Cons b bs)
  let ?st1 = "insertFeedback c k st"
  let ?st2 = "turn_block c b ?st1"
  have 1: "adds c st (feedback_entries c k) ?st1" using insertFeedback_adds [OF Cons.prems(1)] .
  have lanes1: "filter is_lane (shown ?st1) = filter is_lane (shown st)"
    using 1 no_lane_feedback by (simp add: adds_def)
  have "e \<notin> set (shown ?st1)" if "e \<in> set (block_entries c b)" "is_lane e" for e
    using that Cons.prems(4) arg_cong [OF lanes1, of set] by auto
  then have 2: "adds c ?st1 (block_entries c b) ?st2"
    using 1 Cons.prems(3) by (intro turn_block_adds) (auto simp: adds_def no_owned_receipt_def)
  have "filter is_lane (shown ?st2) = filter is_lane (shown st) @ filter is_lane (block_entries c b)"
    using 2 lanes1 by (simp add: adds_def)
  then have "set (filter is_lane (shown ?st2)) \<inter> set (concat (map (block_entries c) bs)) = {}"
    using Cons.prems(2,4) by (auto simp: parts_distinct_def)
  then have "adds c ?st2 (turn_entries c (blk_id b) bs) (turn_blocks c (blk_id b) bs ?st2)"
    using Cons.prems(2,3) 2 by (intro Cons.IH) (auto simp: adds_def parts_distinct_def no_owned_receipt_def)
  with 1 2 show ?case by (simp add: adds_def)
qed

text \<open>After the last part the view shows all that was shown on the way.\<close>

lemma turn_start_ok [simp]: "lanes_ok c (turn_start m)" "shown (turn_start m) = []"
  by (simp_all add: turn_start_def lanes_ok_def shown_def) (simp_all add: emptyIteration_def)

lemma view_shown:
  assumes "lanes_ok c (turn_blocks c [] (ordered_parts (cx_message c) injections) (turn_start (cx_message c)))" (is "lanes_ok c ?last")
  shows "shown_entries (tn_segments (conversationTurnPresentation c injections)) = shown ?last"
proof -
  have "shown_entries (st_segments (flush_iteration c t n ?last)) = shown ?last" for t n
    using flush_shown [of c t n ?last] unfolding shown_def [of "flush_iteration c t n ?last"]
    by (simp add: flush_quiet [OF assms])
  then show ?thesis by (simp add: conversationTurnPresentation_def fallbackIterations_def Let_def)
qed

section \<open>Properties\<close>

text \<open>
  C6. A turn's view is lossless and in order. When every tool, task and harness entry is named
  by one part of the turn, and no message to an agent is the receipt its own tool shows, the
  segments of the view, read from first to last, are exactly the parts of the turn in their
  order, each shown as its kind demands and followed by the feedback delivered after it: no
  part is lost or shown twice, whatever iterations the parts were grouped into. Only
  instructions of the transport and blank reasoning show nothing.
\<close>
theorem turn_view_is_lossless:
  assumes "parts_distinct c (ordered_parts (cx_message c) injections)"
    and "no_owned_receipt c (ordered_parts (cx_message c) injections)"
  shows "shown_entries (tn_segments (conversationTurnPresentation c injections))
    = turn_entries c [] (ordered_parts (cx_message c) injections)"
proof -
  have "adds c (turn_start (cx_message c)) (turn_entries c [] (ordered_parts (cx_message c) injections))
      (turn_blocks c [] (ordered_parts (cx_message c) injections) (turn_start (cx_message c)))"
    using assms by (intro turn_blocks_adds) simp_all
  then show ?thesis by (simp add: adds_def view_shown)
qed

definition ex_turn_message :: message where
  "ex_turn_message = \<lparr>msg_id = ''m'', msg_session_id = ''s'', msg_turn_id = None, msg_run_id = None, msg_role = RoleAssistant,
     msg_created_at = [], msg_completed_at = None,
     msg_blocks = [\<lparr>blk_id = ''r'', blk_agent_id = None, blk_sequence = Some 1, blk_stream_source = None, blk_channel = None,
         blk_body = ReasoningBlock ''plan'' None None None None None None None\<rparr>,
       \<lparr>blk_id = ''a'', blk_agent_id = None, blk_sequence = Some 3, blk_stream_source = None, blk_channel = Some ''answer'',
         blk_body = TextBlock ''ok'' None\<rparr>,
       \<lparr>blk_id = ''t'', blk_agent_id = None, blk_sequence = Some 2, blk_stream_source = None, blk_channel = None,
         blk_body = TaskBlock ''k''\<rparr>],
     msg_model = None, msg_metadata = None, msg_usage = None, msg_cost_usd = None, msg_stop_reason = None, msg_error_info = None\<rparr>"

definition ex_steer :: message where
  "ex_steer = ex_turn_message\<lparr>msg_id := ''f'', msg_role := RoleUser, msg_blocks := [],
     msg_metadata := Some [(''steer_delivery'', JObj [(''assistant_message_id'', JStr ''m''), (''after_part_id'', JStr ''t'')])]\<rparr>"

definition ex_turn :: turn_context where
  "ex_turn = \<lparr>cx_env = \<lparr>te_lower = id, te_ellipsis = []\<rparr>, cx_message = ex_turn_message, cx_tools = [],
     cx_tasks = [(''k'', \<lparr>task_id = ''k'', task_session_id = ''s'', task_title = ''Read'', task_state = RunRunning, task_detail = None\<rparr>)],
     cx_feedback = [ex_steer]\<rparr>"

lemma ex_turn_parts:
  "map blk_id (ordered_parts ex_turn_message []) = [''r'', ''t'', ''a'']"
  "concat (map (block_entries ex_turn) (ordered_parts ex_turn_message []))
     = [ThinkingEntry ''r'', LaneEntry KTask ''k'', BlockEntry (msg_blocks ex_turn_message ! 1)]"
  by (simp_all add: ordered_parts_def message_parts_def ex_turn_message_def ex_turn_def by_key_def block_entries_def
      transport_only_def isParentDelegation_def trim_def js_whitespace_def obj_get_def)

theorem turn_view_is_lossless_witness:
  "shown_entries (tn_segments (conversationTurnPresentation ex_turn []))
     = [ThinkingEntry ''r'', LaneEntry KTask ''k'', FeedbackEntry ex_steer, BlockEntry (msg_blocks ex_turn_message ! 1)]"
proof -
  have "parts_distinct ex_turn (ordered_parts (cx_message ex_turn) [])" "no_owned_receipt ex_turn (ordered_parts (cx_message ex_turn) [])"
    using ex_turn_parts(2) by (simp_all add: parts_distinct_def no_owned_receipt_def ex_turn_def obj_values_def list_all_iff split: block_body.splits)
  from turn_view_is_lossless [OF this] show ?thesis
    by (simp add: ordered_parts_def message_parts_def ex_turn_message_def ex_turn_def ex_steer_def by_key_def block_entries_def feedback_entries_def
        after_part_id_def transport_only_def isParentDelegation_def trim_def js_whitespace_def obj_get_def)
qed

section \<open>What a view shows of any turn\<close>

lemma push_activity_shows: "\<exists>es. set es \<subseteq> {lane_entry a} \<and> shown (push_activity a st) = shown st @ es"
proof (cases "alreadyInLane (st_current st) (act_kind a) (act_id a)")
  case False
  then have "shown (push_activity a st) = shown st @ [lane_entry a]"
    by (simp add: push_activity_def shown_def turn_fields iteration_entries_def text_sources_def lane_entry_def)
  then show ?thesis by auto
qed (auto simp: push_activity_def)

text \<open>Some of the entries a part may show are added.\<close>

definition adds_some :: "turn_context \<Rightarrow> turn_state \<Rightarrow> turn_entry set \<Rightarrow> turn_state \<Rightarrow> bool" where
  "adds_some c st E st' \<longleftrightarrow> (\<exists>es. set es \<subseteq> E \<and> adds c st es st')"

lemma adds_some_small [simp]:
  "adds_some c st E (consume k st') = adds_some c st E st'" "adds_some c st E (note_streaming b st') = adds_some c st E st'"
  by (simp_all add: adds_some_def adds_def)

lemma adds_some_of: "adds c st es st' \<Longrightarrow> set es \<subseteq> E \<Longrightarrow> adds_some c st E st'"
  by (auto simp: adds_some_def)

lemma adds_some_nothing [simp]: "lanes_ok c st \<Longrightarrow> adds_some c st E st"
  using adds_nothing adds_some_of [of c st "[]" st E] by simp

lemma adds_some_lane:
  "lanes_ok c st \<Longrightarrow> set (activity_tool a) \<subseteq> set (obj_values (cx_tools c)) \<Longrightarrow> lane_entry a \<in> E \<Longrightarrow>
     adds_some c st E (push_activity a st)"
  using push_activity_shows [of a st] lanes_ok_push_activity [of c st a] by (fastforce simp: adds_some_def adds_def)

lemma adds_some_segment: "lanes_ok c st \<Longrightarrow> set (segment_entries s) \<subseteq> E \<Longrightarrow> adds_some c st E (add_segment s (flush_iteration c t n st))"
  using adds_segment adds_some_of by blast

lemma adds_some_tool:
  assumes "lanes_ok c st" "obj_get (cx_tools c) k = Some tool" "LaneEntry KTool (tool_id tool) \<in> E"
  shows "adds_some c st E (place_tool c block k thought st)"
proof -
  have "adds_some c st E (push_activity (ToolActivity (tool_id tool) tool) st)"
    using assms obj_get_value by (intro adds_some_lane) (auto simp: lane_entry_def)
  then show ?thesis using assms(2) by (auto simp: place_tool_def Let_def adds_some_def adds_def)
qed

lemma adds_some_injection:
  assumes "lanes_ok c st" "LaneEntry KInjection (blk_id b) \<in> E"
  shows "adds_some c st E (place_injection c b source st)"
proof -
  let ?st1 = "if source = ''summarization'' then add_record b (flush_iteration c False False st) else st"
  have "adds_some c ?st1 E (push_activity (InjectionActivity (blk_id b) b) ?st1)"
    using assms by (intro adds_some_lane) (auto simp: lane_entry_def)
  then show ?thesis by (auto simp: place_injection_def Let_def adds_some_def adds_def split: if_splits)
qed

lemma turn_block_adds_some:
  assumes ok: "lanes_ok c st"
  shows "adds_some c st (set (block_entries c b)) (turn_block c b st)"
proof (cases "transport_only b \<or> isParentDelegation b")
  case True
  with ok show ?thesis by (auto simp: turn_block_def block_entries_def place_block_def intro: adds_some_segment)
next
  case False
  then show ?thesis
  proof (cases "blk_body b")
    case (ReasoningBlock tx streaming s1 p1 d1 t1 t2 n1)
    with False ok adds_some_of [OF adds_reasoning [OF ok, of "streaming = Some True" tx b p1 t1 n1]] show ?thesis
      by (auto simp: turn_block_def block_entries_def place_reasoning_def)
  next
    case (TextBlock tx streaming)
    with False ok adds_some_of [OF adds_next_thought [OF ok]] show ?thesis
      by (auto simp: turn_block_def block_entries_def place_other_def intro: adds_some_segment)
  next
    case (ToolBlock k thought)
    have "place_tool c b k thought st = place_unresolved c b st" if "obj_get (cx_tools c) k = None"
      using that by (simp add: place_tool_def)
    with ToolBlock False ok show ?thesis
      by (cases "obj_get (cx_tools c) k")
        (auto simp: turn_block_def block_entries_def place_unresolved_def intro: adds_some_segment adds_some_tool)
  next
    case (TaskBlock k)
    with False ok show ?thesis
      by (cases "obj_get (cx_tasks c) k")
        (auto simp: turn_block_def block_entries_def place_task_def place_unresolved_def lane_entry_def
          intro: adds_some_segment adds_some_lane)
  next
    case (NoticeBlock source t1 a1 a2 a3 a4)
    with False ok adds_some_segment [OF ok, of "BlockSegment b"] show ?thesis
      by (auto simp: turn_block_def block_entries_def place_failure_def place_other_def adds_some_def adds_def)
  qed (use False ok in \<open>auto simp: turn_block_def block_entries_def place_other_def place_block_def place_activity_def place_agent_message_def
        lane_entry_def intro: adds_some_segment adds_some_lane adds_some_injection\<close>)
qed

fun is_feedback :: "turn_entry \<Rightarrow> bool" where
  "is_feedback (FeedbackEntry _) = True"
| "is_feedback _ = False"

lemma block_entries_no_feedback: "e \<in> set (block_entries c b) \<Longrightarrow> \<not> is_feedback e"
  by (auto simp: block_entries_def split: if_splits block_body.splits option.splits)

lemma all_feedback: "filter is_feedback (feedback_entries c k) = feedback_entries c k"
  by (simp add: feedback_entries_def filter_map comp_def)

lemma turn_blocks_feedback:
  "lanes_ok c st \<Longrightarrow> lanes_ok c (turn_blocks c k bs st)
     \<and> filter is_feedback (shown (turn_blocks c k bs st)) = filter is_feedback (shown st) @ concat (map (feedback_entries c) (k # map blk_id bs))"
proof (induction bs arbitrary: k st)
  case Nil
  with insertFeedback_adds [of c st k] show ?case by (simp add: adds_def all_feedback)
next
  case (Cons b bs)
  let ?st1 = "insertFeedback c k st"
  have 1: "adds c st (feedback_entries c k) ?st1" using insertFeedback_adds [OF Cons.prems] .
  then obtain es where "set es \<subseteq> set (block_entries c b)" and 2: "adds c ?st1 es (turn_block c b ?st1)"
    using turn_block_adds_some [of c ?st1 b] by (auto simp: adds_def adds_some_def)
  then have "filter is_feedback es = []" using block_entries_no_feedback by (auto simp: filter_empty_conv)
  with Cons.IH [of "turn_block c b ?st1" "blk_id b"] 1 2 show ?case by (simp add: adds_def all_feedback)
qed

text \<open>The feedback a view shows: for every part, in order, the rows delivered after it.\<close>

lemma view_feedback:
  "filter is_feedback (shown_entries (tn_segments (conversationTurnPresentation c injections)))
     = concat (map (feedback_entries c) ([] # map blk_id (ordered_parts (cx_message c) injections)))"
  using turn_blocks_feedback [of c "turn_start (cx_message c)" "[]" "ordered_parts (cx_message c) injections"]
  by (simp add: view_shown)

lemma push_activity_shown_in: "lane_entry a \<in> set (shown (push_activity a st))"
  using alreadyInLane_shown [of st "act_kind a" "act_id a"]
  by (auto simp: push_activity_def lane_entry_def shown_def turn_fields iteration_entries_def)

text \<open>A harness injection is shown whatever stands around it.\<close>

lemma injection_block_shown:
  assumes "lanes_ok c st" "blk_body b = InjectionBlock source tx c1 trigger c2 variants n"
  shows "set (block_entries c b) \<subseteq> set (shown (turn_block c b st))"
  using assms push_activity_shown_in [of "InjectionActivity (blk_id b) b"]
  by (auto simp: turn_block_def block_entries_def place_block_def place_injection_def flush_add_segment_shown lane_entry_def Let_def)

lemma turn_blocks_keep_shown: "lanes_ok c st \<Longrightarrow> set (shown st) \<subseteq> set (shown (turn_blocks c k bs st))"
proof (induction bs arbitrary: k st)
  case Nil
  with insertFeedback_adds [of c st k] show ?case by (auto simp: adds_def)
next
  case (Cons b bs)
  have 1: "adds c st (feedback_entries c k) (insertFeedback c k st)" using insertFeedback_adds [OF Cons.prems] .
  then obtain es where 2: "adds c (insertFeedback c k st) es (turn_block c b (insertFeedback c k st))"
    using turn_block_adds_some [of c "insertFeedback c k st" b] by (auto simp: adds_def adds_some_def)
  with 1 Cons.IH [of "turn_block c b (insertFeedback c k st)" "blk_id b"] show ?case by (auto simp: adds_def)
qed

lemma turn_blocks_shows_injection:
  assumes "blk_body b = InjectionBlock source tx c1 trigger c2 variants n" "lanes_ok c st" "b \<in> set bs"
  shows "set (block_entries c b) \<subseteq> set (shown (turn_blocks c k bs st))"
  using assms(2,3)
proof (induction bs arbitrary: k st)
  case (Cons b' bs)
  let ?st1 = "insertFeedback c k st"
  have ok: "lanes_ok c ?st1" using insertFeedback_adds [OF Cons.prems(1)] by (simp add: adds_def)
  then have ok2: "lanes_ok c (turn_block c b' ?st1)" using turn_block_adds_some [of c ?st1 b'] by (auto simp: adds_def adds_some_def)
  show ?case
  proof (cases "b = b'")
    case True
    with injection_block_shown [OF ok assms(1)] turn_blocks_keep_shown [OF ok2, of "blk_id b'" bs] show ?thesis by auto
  qed (use Cons ok2 in auto)
qed simp

lemma view_shows_injection:
  assumes "blk_body b = InjectionBlock source tx c1 trigger c2 variants n" "b \<in> set (ordered_parts (cx_message c) injections)"
  shows "set (block_entries c b) \<subseteq> set (shown_entries (tn_segments (conversationTurnPresentation c injections)))"
  using turn_blocks_shows_injection [OF assms(1) _ assms(2), of c "turn_start (cx_message c)" "[]"]
    turn_blocks_feedback [of c "turn_start (cx_message c)" "[]" "ordered_parts (cx_message c) injections"]
  by (simp add: view_shown)

section \<open>The structure of a view\<close>

primrec segment_iterations :: "turn_segment \<Rightarrow> conversation_iteration list" where
  "segment_iterations (IterationsSegment is) = is"
| "segment_iterations (FeedbackSegment _) = []"
| "segment_iterations (BlockSegment _) = []"

fun is_iterations :: "turn_segment \<Rightarrow> bool" where
  "is_iterations (IterationsSegment _) = True"
| "is_iterations _ = False"

text \<open>Groups of iterations are never empty and never stand beside each other.\<close>

definition separated :: "turn_segment list \<Rightarrow> bool" where
  "separated segments \<longleftrightarrow> successively (\<lambda>s t. \<not> (is_iterations s \<and> is_iterations t)) segments \<and> IterationsSegment [] \<notin> set segments"

definition numbered :: "message \<Rightarrow> nat \<Rightarrow> conversation_iteration \<Rightarrow> bool" where
  "numbered m n i \<longleftrightarrow> it_index i = n \<and> it_id i = msg_id m @ '':iteration:'' @ show_nat n \<and> distinct (map lane_entry (it_activity i))"

text \<open>The iteration at its place: numbered, not empty, each entry of the lane once, its projections exact.\<close>

definition iteration_ok :: "message \<Rightarrow> nat \<Rightarrow> conversation_iteration \<Rightarrow> bool" where
  "iteration_ok m n i \<longleftrightarrow> numbered m n i \<and> hasIterationContent i
     \<and> it_tools i = concat (map activity_tool (it_activity i)) \<and> it_tasks i = concat (map activity_task (it_activity i))"

definition view_ok :: "message \<Rightarrow> conversation_iteration list \<Rightarrow> turn_segment list \<Rightarrow> turn_compaction_record list \<Rightarrow> bool" where
  "view_ok m its segments records \<longleftrightarrow>
     its = concat (map segment_iterations segments) \<and> separated segments
     \<and> (\<forall>n < length its. iteration_ok m n (its ! n)) \<and> (\<forall>r \<in> set records. tr_afterIteration r \<le> length its)"

definition turn_ok :: "turn_context \<Rightarrow> turn_state \<Rightarrow> bool" where
  "turn_ok c st \<longleftrightarrow> view_ok (cx_message c) (st_iterations st) (st_segments st) (st_records st)
     \<and> numbered (cx_message c) (length (st_iterations st)) (st_current st)"

lemma turn_ok_small [simp]:
  "turn_ok c (consume k st) = turn_ok c st" "turn_ok c (note_streaming s st) = turn_ok c st"
  "turn_ok c (add_thought tx src st) = turn_ok c st" "turn_ok c (st\<lparr>st_publicThought := t\<rparr>) = turn_ok c st"
  "turn_ok c (update_current (\<lambda>i. i\<lparr>it_thinking := f i\<rparr>) st) = turn_ok c st"
  by (simp_all add: turn_ok_def turn_fields note_streaming_def add_thought_def numbered_def)

lemma turn_ok_add_record [simp]: "turn_ok c st \<Longrightarrow> turn_ok c (add_record b st)"
  by (auto simp: turn_ok_def turn_fields view_ok_def)

lemma turn_ok_add_segment: "turn_ok c st \<Longrightarrow> \<not> is_iterations s \<Longrightarrow> turn_ok c (add_segment s st)"
  by (cases s) (auto simp: turn_ok_def turn_fields view_ok_def separated_def successively_append_iff)

lemma turn_ok_push_activity [simp]: "turn_ok c st \<Longrightarrow> turn_ok c (push_activity a st)"
  by (auto simp: turn_ok_def push_activity_def turn_fields numbered_def alreadyInLane_def list_ex_iff lane_entry_def)

lemma push_iteration_iterations:
  "concat (map segment_iterations (push_iteration i segments)) = concat (map segment_iterations segments) @ [i]"
  by (cases segments rule: rev_cases) (auto simp: push_iteration_def at_last_def split: turn_segment.splits)

lemma push_iteration_separated: "separated segments \<Longrightarrow> separated (push_iteration i segments)"
proof (cases segments rule: rev_cases)
  case (snoc ss s)
  assume "separated segments"
  with snoc show ?thesis
    by (cases s) (auto simp: push_iteration_def at_last_def separated_def successively_append_iff)
qed (simp add: push_iteration_def at_last_def separated_def)

lemma turn_ok_flush [simp]:
  assumes "turn_ok c st"
  shows "turn_ok c (flush_iteration c t n st)"
proof (cases "hasIterationContent (st_current st)")
  case True
  let ?i = "closed_iteration c t n (st_current st)"
  have i: "iteration_ok (cx_message c) (length (st_iterations st)) ?i"
    using assms True by (simp add: turn_ok_def iteration_ok_def numbered_def closed_iteration_def Let_def hasIterationContent_def)
  from assms have v: "view_ok (cx_message c) (st_iterations st) (st_segments st) (st_records st)" by (simp add: turn_ok_def)
  have "view_ok (cx_message c) (st_iterations st @ [?i]) (push_iteration ?i (st_segments st)) (st_records st)"
    using v i push_iteration_separated
    by (auto simp: view_ok_def push_iteration_iterations nth_append less_Suc_eq)
  then show ?thesis using True by (simp add: flush_iteration_def Let_def turn_ok_def numbered_def emptyIteration_def)
qed (use assms in \<open>simp add: flush_iteration_def\<close>)

lemma turn_ok_segment [simp]: "turn_ok c st \<Longrightarrow> \<not> is_iterations s \<Longrightarrow> turn_ok c (add_segment s (flush_iteration c t n st))"
  by (simp add: turn_ok_add_segment)

lemma turn_ok_insertFeedback:
  assumes "turn_ok c st"
  shows "turn_ok c (insertFeedback c k st)"
proof -
  let ?step = "\<lambda>st row. if after_part_id row = Some k
    then consume (msg_id row) (add_segment (FeedbackSegment row) (flush_iteration c False False st)) else st"
  have "turn_ok c (foldl ?step st rows)" for rows
    using assms by (induction rows arbitrary: st) simp_all
  then show ?thesis by (simp add: insertFeedback_def)
qed

lemmas place_defs = place_block_def place_unresolved_def place_failure_def place_injection_def place_reasoning_def
  place_next_thought_def place_tool_def place_task_def place_activity_def place_agent_message_def place_other_def

lemma turn_ok_block: "turn_ok c st \<Longrightarrow> turn_ok c (turn_block c b st)"
  by (cases "blk_body b") (simp_all add: turn_block_def place_defs Let_def split: option.splits)

lemma turn_ok_blocks: "turn_ok c st \<Longrightarrow> turn_ok c (turn_blocks c k bs st)"
  by (induction bs arbitrary: st k) (simp_all add: turn_ok_insertFeedback turn_ok_block)

lemma turn_ok_start: "turn_ok c (turn_start (cx_message c))"
  by (simp add: turn_ok_def turn_start_def view_ok_def separated_def numbered_def emptyIteration_def)

text \<open>
  C11. The view of every turn is well formed, whatever its parts: its iterations are exactly those
  of its segments, in order and numbered from zero; no iteration is empty, shows an entry of its
  lane twice, or has other tools and tasks than its lane; groups of iterations are never empty
  and never stand beside each other; and every compaction record stands at an iteration that
  exists.
\<close>
theorem turn_view_is_well_formed:
  "view_ok (cx_message c) (tn_iterations (conversationTurnPresentation c injections))
     (tn_segments (conversationTurnPresentation c injections)) (tn_compactionRecords (conversationTurnPresentation c injections))"
  using turn_ok_flush [OF turn_ok_blocks [OF turn_ok_start]]
  by (simp add: conversationTurnPresentation_def fallbackIterations_def Let_def turn_ok_def)

end
