(* ===== verification/Conversation_Placement.thy ===== *)
theory Conversation_Placement
  imports Conversation_Turn
begin

text \<open>
  \<open>web/src/components/clio/conversation-activity-placement.ts\<close> and the transcript folds of
  \<open>conversation-message-projection.ts\<close>: which parts of a transcript are shown once, which
  responses continue each other, and how the activity of continued responses is joined into one
  place.

  A set of keys is the list of its members; a \<open>Map\<close> is the list of its entries.
\<close>

section \<open>Folding repeated parts\<close>

text \<open>
  One pass over the blocks of a message: a block with a key that was met before is dropped, the
  keys met are carried on.
\<close>

fun fold_blocks :: "(message_block \<Rightarrow> string option) \<Rightarrow> string list \<Rightarrow> message_block list \<Rightarrow> message_block list \<times> string list" where
  "fold_blocks key met [] = ([], met)"
| "fold_blocks key met (b # bs) = (case key b of
       None \<Rightarrow> (case fold_blocks key met bs of (bs', met') \<Rightarrow> (b # bs', met'))
     | Some k \<Rightarrow> if k \<in> set met then fold_blocks key met bs
         else (case fold_blocks key (k # met) bs of (bs', met') \<Rightarrow> (b # bs', met')))"

definition nul :: string where
  "nul = [CHR 0x00]"

definition surface_key :: "string \<Rightarrow> message_block \<Rightarrow> string option" where
  "surface_key sessionId b = (case blk_body b of A2uiBlock surface \<Rightarrow> Some (sessionId @ nul @ surface) | _ \<Rightarrow> None)"

fun fold_surfaces :: "string list \<Rightarrow> message list \<Rightarrow> message list" where
  "fold_surfaces placed [] = []"
| "fold_surfaces placed (m # ms) =
     (case fold_blocks (surface_key (msg_session_id m)) placed (msg_blocks m) of (bs, placed') \<Rightarrow>
        (if length bs = length (msg_blocks m) then m else m\<lparr>msg_blocks := bs\<rparr>) # fold_surfaces placed' ms)"

definition foldA2UIRevisionBlocks :: "message list \<Rightarrow> message list" where
  "foldA2UIRevisionBlocks messages = fold_surfaces [] messages"

definition return_key :: "string \<Rightarrow> message_block \<Rightarrow> string option" where
  "return_key sessionId b = (case blk_body b of
       SubagentBlock subagent (Some stage) _ \<Rightarrow>
         if stage = [] \<or> stage \<in> {''delegate.started'', ''delegate.superseded''} then None
         else Some (sessionId @ nul @ subagent @ nul @ stage)
     | _ \<Rightarrow> None)"

fun fold_returns :: "string list \<Rightarrow> message list \<Rightarrow> message list" where
  "fold_returns returned [] = []"
| "fold_returns returned (m # ms) =
     (case fold_blocks (return_key (msg_session_id m)) returned (rev (msg_blocks m)) of (bs, returned') \<Rightarrow>
        (if length (rev bs) = length (msg_blocks m) then m else m\<lparr>msg_blocks := rev bs\<rparr>) # fold_returns returned' ms)"

definition foldSubagentReturns :: "message list \<Rightarrow> message list" where
  "foldSubagentReturns messages = rev (fold_returns [] (rev messages))"

section \<open>Joining continued activity\<close>

record placement_context =
  pl_env :: text_env
  pl_tools :: "tool_invocation obj"
  pl_tasks :: "task obj"
  pl_feedback :: "(string \<times> message list) list"
  pl_injections :: "(string \<times> message list) list"
  pl_continuations :: "string list"
  pl_boundaries :: "string list"

definition own_presentation :: "placement_context \<Rightarrow> message \<Rightarrow> turn_presentation" where
  "own_presentation p m = conversationTurnPresentation
     \<lparr>cx_env = pl_env p, cx_message = m, cx_tools = pl_tools p, cx_tasks = pl_tasks p,
      cx_feedback = coalesce (map_of (pl_feedback p) (msg_id m)) []\<rparr>
     (coalesce (map_of (pl_injections p) (msg_id m)) [])"

definition presentation_of :: "placement_context \<Rightarrow> (string \<times> turn_presentation) list \<Rightarrow> message \<Rightarrow> turn_presentation" where
  "presentation_of p ps m = coalesce (map_of ps (msg_id m)) (own_presentation p m)"

record placement_state =
  ps_presentations :: "(string \<times> turn_presentation) list"
  ps_previous :: "message option"
  ps_owner :: "message option"

definition continues_previous :: "placement_context \<Rightarrow> message \<Rightarrow> message \<Rightarrow> bool" where
  "continues_previous p previous m \<longleftrightarrow>
     msg_id m \<in> set (pl_continuations p)
     \<and> map_of (pl_feedback p) (msg_id previous) = None \<and> map_of (pl_feedback p) (msg_id m) = None
     \<and> msg_id previous \<notin> set (pl_boundaries p) \<and> msg_id m \<notin> set (pl_boundaries p)"

definition with_segments :: "turn_presentation \<Rightarrow> turn_segment list \<Rightarrow> turn_presentation" where
  "with_segments v segments = v\<lparr>tn_segments := segments, tn_iterations := concat (map segment_iterations segments)\<rparr>"

text \<open>The segments of the owner and of the message after a join, when they join.\<close>

definition join_segments :: "turn_segment list \<Rightarrow> turn_segment list \<Rightarrow> (turn_segment list \<times> turn_segment list) option" where
  "join_segments before after = (case (at_last before, after) of
       (Some (IterationsSegment trailing), IterationsSegment leading # rest) \<Rightarrow>
         if (case leading of [] \<Rightarrow> True | i # _ \<Rightarrow> it_nextThoughts i = []) \<and> \<not> list_ex it_interrupted trailing
         then Some (butlast before @ [IterationsSegment (trailing @ leading)], rest) else None
     | _ \<Rightarrow> None)"

definition join_activity :: "placement_context \<Rightarrow> message \<Rightarrow> message \<Rightarrow> placement_state \<Rightarrow> placement_state" where
  "join_activity p target m st =
     (let before = presentation_of p (ps_presentations st) target; after = presentation_of p (ps_presentations st) m
      in case join_segments (tn_segments before) (tn_segments after) of
           None \<Rightarrow> st\<lparr>ps_owner := Some m\<rparr>
         | Some (bs, as) \<Rightarrow>
             st\<lparr>ps_presentations := map_set (map_set (ps_presentations st) (msg_id target) (with_segments before bs))
                  (msg_id m) (with_segments after as),
                ps_owner := Some (if as \<noteq> [] then m else target)\<rparr>)"

definition place_message :: "placement_context \<Rightarrow> placement_state \<Rightarrow> message \<Rightarrow> placement_state" where
  "place_message p st m =
     (if msg_role m \<noteq> RoleAssistant then st
      else (case ps_previous st of
          Some previous \<Rightarrow>
            if continues_previous p previous m then join_activity p (coalesce (ps_owner st) previous) m st
            else st\<lparr>ps_owner := Some m\<rparr>
        | None \<Rightarrow> st\<lparr>ps_owner := Some m\<rparr>)\<lparr>ps_previous := Some m\<rparr>)"

definition placeContinuedActivity :: "placement_context \<Rightarrow> message list \<Rightarrow> (string \<times> turn_presentation) list" where
  "placeContinuedActivity p messages = ps_presentations
     (foldl (place_message p) \<lparr>ps_presentations = [], ps_previous = None, ps_owner = None\<rparr> messages)"

section \<open>Lemmas: folding\<close>

text \<open>The reference: of the items with one key the first, or the last, is kept, at its place.\<close>

fun keep_first :: "('a \<Rightarrow> 'k option) \<Rightarrow> 'k list \<Rightarrow> 'a list \<Rightarrow> 'a list" where
  "keep_first key met [] = []"
| "keep_first key met (x # xs) = (case key x of
       None \<Rightarrow> x # keep_first key met xs
     | Some k \<Rightarrow> if k \<in> set met then keep_first key met xs else x # keep_first key (k # met) xs)"

fun keep_last :: "('a \<Rightarrow> 'k option) \<Rightarrow> 'a list \<Rightarrow> 'a list" where
  "keep_last key [] = []"
| "keep_last key (x # xs) =
     (if key x \<noteq> None \<and> key x \<in> key ` set xs then keep_last key xs else x # keep_last key xs)"

text \<open>The blocks of a transcript, each with the session it stands in.\<close>

definition transcript_blocks :: "message list \<Rightarrow> (string \<times> message_block) list" where
  "transcript_blocks ms = concat (map (\<lambda>m. map (Pair (msg_session_id m)) (msg_blocks m)) ms)"

lemma transcript_blocks_simps [simp]:
  "transcript_blocks [] = []" "transcript_blocks (m # ms) = map (Pair (msg_session_id m)) (msg_blocks m) @ transcript_blocks ms"
  "transcript_blocks (ms @ ns) = transcript_blocks ms @ transcript_blocks ns"
  by (simp_all add: transcript_blocks_def)

lemma keep_first_append:
  "keep_first key met (xs @ ys) = keep_first key met xs @ keep_first key (rev (List.map_filter key xs) @ met) ys"
proof (induction xs arbitrary: met)
  case (Cons x xs)
  have absorb: "keep_first key (zs @ k # met') ys = keep_first key (zs @ met') ys" if "k \<in> set met'" for zs k met'
    using that by (induction ys arbitrary: zs met') (auto split: option.splits simp flip: append_Cons)
  show ?case using Cons absorb by (auto simp: List.map_filter_simps split: option.splits)
qed (simp add: List.map_filter_simps)

lemma keep_first_cong: "set met = set met' \<Longrightarrow> keep_first key met xs = keep_first key met' xs"
proof (induction xs arbitrary: met met')
  case (Cons x xs)
  show ?case using Cons.prems Cons.IH [of met met'] Cons.IH [of "k # met" "k # met'" for k] by (auto split: option.splits)
qed simp

lemma keep_first_map: "keep_first key met (map f xs) = map f (keep_first (\<lambda>x. key (f x)) met xs)"
  by (induction xs arbitrary: met) (auto split: option.splits)

lemma length_keep_first: "length (keep_first key met xs) \<le> length xs"
  by (induction xs arbitrary: met) (auto split: option.splits intro: le_SucI)

lemma keep_first_all: "length (keep_first key met xs) = length xs \<Longrightarrow> keep_first key met xs = xs"
proof (induction xs arbitrary: met)
  case (Cons x xs)
  show ?case using Cons.prems Cons.IH length_keep_first [of key met xs] by (auto split: option.splits if_splits)
qed simp

lemma set_map_filter: "set (List.map_filter key xs) = {k. Some k \<in> key ` set xs}"
  by (induction xs) (auto simp: List.map_filter_simps split: option.splits)

lemma fold_blocks_keep_first:
  "fst (fold_blocks key met bs) = keep_first key met bs"
  "set (snd (fold_blocks key met bs)) = set met \<union> {k. Some k \<in> key ` set bs}"
  by (induction key met bs rule: fold_blocks.induct) (auto split: option.splits prod.splits)

lemma folded_blocks: "msg_blocks (if length (keep_first key met bs) = length (msg_blocks m) then m
    else m\<lparr>msg_blocks := keep_first key met bs\<rparr>) = keep_first key met bs" if "bs = msg_blocks m"
  using that keep_first_all [of key met bs] by auto

lemma folded_blocks_rev: "msg_blocks (if length (rev (keep_first key met bs)) = length (msg_blocks m) then m
    else m\<lparr>msg_blocks := rev (keep_first key met bs)\<rparr>) = rev (keep_first key met bs)" if "bs = rev (msg_blocks m)"
  using that keep_first_all [of key met bs] by auto

lemma keep_first_next:
  "keep_first key (rev (List.map_filter key xs) @ met) ys = keep_first key met' ys"
  if "set met' = set met \<union> {k. Some k \<in> key ` set xs}"
  using that by (intro keep_first_cong) (auto simp: set_map_filter)

lemma fold_surfaces_keep_first:
  "transcript_blocks (fold_surfaces placed ms) = keep_first (\<lambda>(s, b). surface_key s b) placed (transcript_blocks ms)"
proof (induction ms arbitrary: placed)
  case (Cons m ms)
  let ?key = "surface_key (msg_session_id m)"
  obtain bs placed' where f: "fold_blocks ?key placed (msg_blocks m) = (bs, placed')" by force
  have bs: "bs = keep_first ?key placed (msg_blocks m)"
    and p: "set placed' = set placed \<union> {k. Some k \<in> ?key ` set (msg_blocks m)}"
    using fold_blocks_keep_first [of ?key placed "msg_blocks m"] f by auto
  have "keep_first (\<lambda>(s, b). surface_key s b) (rev (List.map_filter (\<lambda>(s, b). surface_key s b) (map (Pair (msg_session_id m)) (msg_blocks m))) @ placed)
      (transcript_blocks ms) = keep_first (\<lambda>(s, b). surface_key s b) placed' (transcript_blocks ms)"
    using p by (intro keep_first_next) (auto simp: image_image)
  with Cons.IH [of placed'] f bs folded_blocks [of _ m ?key placed, OF refl] show ?case
    by (simp add: keep_first_append keep_first_map)
qed simp

definition backward_blocks :: "message list \<Rightarrow> (string \<times> message_block) list" where
  "backward_blocks ms = concat (map (\<lambda>m. map (Pair (msg_session_id m)) (rev (msg_blocks m))) ms)"

lemma backward_blocks_simps [simp]:
  "backward_blocks [] = []"
  "backward_blocks (m # ms) = map (Pair (msg_session_id m)) (rev (msg_blocks m)) @ backward_blocks ms"
  by (simp_all add: backward_blocks_def)

lemma backward_blocks_rev: "backward_blocks (rev ms) = rev (transcript_blocks ms)"
  by (induction ms) (simp_all add: backward_blocks_def rev_map)

lemma fold_returns_keep_first:
  "backward_blocks (fold_returns returned ms) = keep_first (\<lambda>(s, b). return_key s b) returned (backward_blocks ms)"
proof (induction ms arbitrary: returned)
  case (Cons m ms)
  let ?key = "return_key (msg_session_id m)"
  obtain bs returned' where f: "fold_blocks ?key returned (rev (msg_blocks m)) = (bs, returned')" by force
  have bs: "bs = keep_first ?key returned (rev (msg_blocks m))"
    and p: "set returned' = set returned \<union> {k. Some k \<in> ?key ` set (msg_blocks m)}"
    using fold_blocks_keep_first [of ?key returned "rev (msg_blocks m)"] f by auto
  have "keep_first (\<lambda>(s, b). return_key s b) (rev (List.map_filter (\<lambda>(s, b). return_key s b) (map (Pair (msg_session_id m)) (rev (msg_blocks m)))) @ returned)
      (backward_blocks ms) = keep_first (\<lambda>(s, b). return_key s b) returned' (backward_blocks ms)"
    using p by (intro keep_first_next) (auto simp: image_image)
  with Cons.IH [of returned'] f bs folded_blocks_rev [of _ m ?key returned, OF refl] show ?case
    by (simp add: keep_first_append keep_first_map)
qed simp

lemma rev_keep_first: "rev (keep_first key [] (rev xs)) = keep_last key xs"
  by (induction xs) (auto simp: keep_first_append set_map_filter split: option.splits)

lemma fold_surfaces_ids: "map msg_id (fold_surfaces placed ms) = map msg_id ms"
  by (induction ms arbitrary: placed) (auto split: prod.splits)

lemma fold_returns_ids: "map msg_id (fold_returns returned ms) = map msg_id ms"
  by (induction ms arbitrary: returned) (auto split: prod.splits)

lemma folded_ids: "map msg_id (foldA2UIRevisionBlocks ms) = map msg_id ms" "map msg_id (foldSubagentReturns ms) = map msg_id ms"
  by (simp_all add: foldA2UIRevisionBlocks_def foldSubagentReturns_def fold_surfaces_ids fold_returns_ids rev_map [symmetric])

text \<open>
  Repeated parts are folded exactly. Over a whole transcript, a revised surface is shown once
  per session, at its first place, and a child's terminal return once per session, child and
  stage, at its latest place; every other part stays where it is, and so does every message.
\<close>
lemma transcript_folds_are_exact:
  "transcript_blocks (foldA2UIRevisionBlocks ms) = keep_first (\<lambda>(s, b). surface_key s b) [] (transcript_blocks ms)
   \<and> transcript_blocks (foldSubagentReturns ms) = keep_last (\<lambda>(s, b). return_key s b) (transcript_blocks ms)
   \<and> map msg_id (foldA2UIRevisionBlocks ms) = map msg_id ms \<and> map msg_id (foldSubagentReturns ms) = map msg_id ms"
proof -
  have "transcript_blocks (foldSubagentReturns ms) = rev (backward_blocks (fold_returns [] (rev ms)))"
    using backward_blocks_rev [of "foldSubagentReturns ms"] by (simp add: foldSubagentReturns_def)
  also have "\<dots> = keep_last (\<lambda>(s, b). return_key s b) (transcript_blocks ms)"
    by (simp add: fold_returns_keep_first backward_blocks_rev rev_keep_first)
  finally show ?thesis
    by (simp add: folded_ids) (simp add: foldA2UIRevisionBlocks_def fold_surfaces_keep_first)
qed

section \<open>Lemmas: joining\<close>

definition is_assistant :: "message \<Rightarrow> bool" where
  "is_assistant m \<longleftrightarrow> msg_role m = RoleAssistant"

text \<open>What a message shows under the presentations placed so far.\<close>

definition placed_entries :: "placement_context \<Rightarrow> (string \<times> turn_presentation) list \<Rightarrow> message \<Rightarrow> turn_entry list" where
  "placed_entries p ps m = shown_entries (tn_segments (presentation_of p ps m))"

definition own_entries :: "placement_context \<Rightarrow> message \<Rightarrow> turn_entry list" where
  "own_entries p m = shown_entries (tn_segments (own_presentation p m))"

lemma join_segments_shown:
  "join_segments before after = Some (bs, as) \<Longrightarrow> shown_entries bs @ shown_entries as = shown_entries before @ shown_entries after"
  by (cases before rule: rev_cases) (auto simp: join_segments_def at_last_def split: turn_segment.splits list.splits if_splits)

lemma presentation_of_set:
  "presentation_of p (map_set ps k v) m = (if msg_id m = k then v else presentation_of p ps m)"
  by (simp add: presentation_of_def map_of_map_set)

text \<open>
  After some messages: their entries together are what they were, the messages after the owner
  have nothing left to show, and no later message has been placed.
\<close>

definition placed_ok :: "placement_context \<Rightarrow> message list \<Rightarrow> placement_state \<Rightarrow> bool" where
  "placed_ok p ms st \<longleftrightarrow>
     concat (map (placed_entries p (ps_presentations st)) ms) = concat (map (own_entries p) ms)
     \<and> fst ` set (ps_presentations st) \<subseteq> msg_id ` set ms
     \<and> (case ps_owner st of None \<Rightarrow> ms = []
        | Some own \<Rightarrow> \<exists>as bs. ms = as @ own # bs \<and> (\<forall>m \<in> set bs. placed_entries p (ps_presentations st) m = []))
     \<and> (ps_previous st = None \<longleftrightarrow> ms = [])"

lemma last_position: "\<exists>as bs. ms @ [m] = as @ m # bs \<and> (\<forall>b \<in> set bs. P b)"
  by (rule exI [of _ ms], rule exI [of _ "[]"]) simp

lemma placed_ok_unplaced:
  assumes "placed_ok p ms st" "msg_id m \<notin> msg_id ` set ms"
  shows "placed_entries p (ps_presentations st) m = own_entries p m"
proof -
  have "map_of (ps_presentations st) (msg_id m) = None"
    using assms by (auto simp: placed_ok_def map_of_eq_None_iff)
  then show ?thesis by (simp add: placed_entries_def own_entries_def presentation_of_def)
qed

lemma placed_ok_skip:
  assumes "placed_ok p ms st" "msg_id m \<notin> msg_id ` set ms"
  shows "placed_ok p (ms @ [m]) (st\<lparr>ps_owner := Some m, ps_previous := Some m\<rparr>)"
  using assms(1) placed_ok_unplaced [OF assms] last_position [of ms m "\<lambda>b. placed_entries p (ps_presentations st) b = []"]
  by (auto simp: placed_ok_def)

lemma placed_ok_join:
  assumes ok: "placed_ok p ms st" and new: "msg_id m \<notin> msg_id ` set ms" and d: "distinct (map msg_id ms)" and own: "ps_owner st = Some own"
  shows "placed_ok p (ms @ [m]) ((join_activity p own m st)\<lparr>ps_previous := Some m\<rparr>)"
proof (cases "join_segments (tn_segments (presentation_of p (ps_presentations st) own)) (tn_segments (presentation_of p (ps_presentations st) m))")
  case None
  then have "join_activity p own m st = st\<lparr>ps_owner := Some m\<rparr>" by (simp add: join_activity_def)
  with placed_ok_skip [OF ok new] show ?thesis by simp
next
  case (Some x)
  obtain sb sa where x: "x = (sb, sa)" by (cases x)
  let ?ps = "ps_presentations st"
  let ?before = "presentation_of p ?ps own"
  let ?ps1 = "map_set (map_set ?ps (msg_id own) (with_segments ?before sb)) (msg_id m) (with_segments (presentation_of p ?ps m) sa)"
  obtain as bs where ms: "ms = as @ own # bs" and bs: "\<forall>b \<in> set bs. placed_entries p ?ps b = []"
    using ok own by (auto simp: placed_ok_def)
  have ids: "msg_id own \<noteq> msg_id m" "\<forall>a \<in> set as \<union> set bs. msg_id a \<noteq> msg_id own \<and> msg_id a \<noteq> msg_id m"
    using d new by (auto simp: ms image_iff ball_Un)
  have same: "placed_entries p ?ps1 a = placed_entries p ?ps a" if "a \<in> set as \<union> set bs" for a
    using ids(2) that by (simp add: placed_entries_def presentation_of_set)
  have m0: "placed_entries p ?ps m = own_entries p m"
    by (rule placed_ok_unplaced [OF ok new])
  have two: "placed_entries p ?ps1 own = shown_entries sb" "placed_entries p ?ps1 m = shown_entries sa"
    using ids(1) by (simp_all add: placed_entries_def presentation_of_set with_segments_def)
  have join: "shown_entries sb @ shown_entries sa = placed_entries p ?ps own @ own_entries p m"
    using join_segments_shown [OF Some [unfolded x]] m0 by (simp add: placed_entries_def)
  have empty: "concat (map (placed_entries p ?ps) bs) = []" "concat (map (placed_entries p ?ps1) bs) = []"
    using bs same by (auto simp: concat_eq_Nil_conv)
  have start: "map (placed_entries p ?ps1) as = map (placed_entries p ?ps) as" using same by simp
  have "concat (map (placed_entries p ?ps1) (ms @ [m])) = concat (map (placed_entries p ?ps) as) @ shown_entries sb @ shown_entries sa"
    unfolding ms map_append list.map concat_append concat.simps start empty two by simp
  also have "\<dots> = concat (map (placed_entries p ?ps) ms) @ own_entries p m"
    unfolding join ms map_append list.map concat_append concat.simps empty by simp
  finally have "concat (map (placed_entries p ?ps1) (ms @ [m])) = concat (map (placed_entries p ?ps) ms) @ own_entries p m" .
  then have all: "concat (map (placed_entries p ?ps1) (ms @ [m])) = concat (map (own_entries p) (ms @ [m]))"
    using ok by (simp add: placed_ok_def)
  have keys: "fst ` set ?ps1 \<subseteq> msg_id ` set (ms @ [m])"
    using ok arg_cong [OF keys_map_set, of set] ms by (auto simp: placed_ok_def keys_map_set simp flip: set_map split: if_splits)
  have "\<exists>as' bs'. ms @ [m] = as' @ (if sa \<noteq> [] then m else own) # bs' \<and> (\<forall>b \<in> set bs'. placed_entries p ?ps1 b = [])"
  proof (cases "sa = []")
    case True
    then show ?thesis using two bs same ms by (intro exI [of _ as] exI [of _ "bs @ [m]"]) auto
  qed (use last_position in simp)
  with all keys Some x show ?thesis
    by (simp add: placed_ok_def join_activity_def Let_def)
qed

lemma place_message_ok:
  assumes ok: "placed_ok p ms st" and new: "msg_id m \<notin> msg_id ` set ms" and d: "distinct (map msg_id ms)" and a: "is_assistant m"
  shows "placed_ok p (ms @ [m]) (place_message p st m)"
proof (cases "ps_previous st")
  case None
  then show ?thesis using placed_ok_skip [OF ok new] a by (simp add: place_message_def is_assistant_def)
next
  case (Some previous)
  then obtain own where own: "ps_owner st = Some own" using ok by (auto simp: placed_ok_def split: option.splits)
  show ?thesis
    using placed_ok_skip [OF ok new] placed_ok_join [OF ok new d own] a Some own
    by (simp add: place_message_def is_assistant_def)
qed

lemma place_messages_ok:
  assumes "distinct (map msg_id (ms @ filter is_assistant ns))" "placed_ok p ms st"
  shows "placed_ok p (ms @ filter is_assistant ns) (foldl (place_message p) st ns)"
  using assms
proof (induction ns arbitrary: ms st)
  case (Cons m ns)
  show ?case
  proof (cases "is_assistant m")
    case True
    with Cons.prems have "placed_ok p (ms @ [m]) (place_message p st m)" by (intro place_message_ok) auto
    from Cons.IH [OF _ this] Cons.prems(1) True show ?thesis by simp
  next
    case False
    then have "place_message p st m = st" by (simp add: place_message_def is_assistant_def)
    with Cons False show ?thesis by simp
  qed
qed simp

lemma placed_entries_together:
  assumes "distinct (map msg_id (filter is_assistant messages))"
  shows "placed_ok p (filter is_assistant messages)
    (foldl (place_message p) \<lparr>ps_presentations = [], ps_previous = None, ps_owner = None\<rparr> messages)"
  using place_messages_ok [of "[]" messages p] assms by (simp add: placed_ok_def)

text \<open>
  C12. Joining moves nothing past anything else. Over the responses of a transcript, whose ids
  differ, what the joined presentations show, read from the first response to the last, is
  exactly what the responses show on their own: the activity of a continued response is moved
  to the end of the place it continues, and no entry is lost, repeated or overtaken.
\<close>
theorem joined_activity_keeps_the_page:
  assumes "distinct (map msg_id (filter is_assistant messages))"
  shows "concat (map (placed_entries p (placeContinuedActivity p messages)) (filter is_assistant messages))
    = concat (map (own_entries p) (filter is_assistant messages))"
  using placed_entries_together [OF assms, of p] by (simp add: placed_ok_def placeContinuedActivity_def)

definition ex_placement :: placement_context where
  "ex_placement = \<lparr>pl_env = \<lparr>te_lower = id, te_ellipsis = []\<rparr>, pl_tools = [], pl_tasks = cx_tasks ex_turn, pl_feedback = [],
     pl_injections = [], pl_continuations = [''n''], pl_boundaries = []\<rparr>"

theorem joined_activity_keeps_the_page_witness:
  "concat (map (placed_entries ex_placement (placeContinuedActivity ex_placement [ex_turn_message, ex_steer, ex_turn_message\<lparr>msg_id := ''n''\<rparr>]))
      [ex_turn_message, ex_turn_message\<lparr>msg_id := ''n''\<rparr>])
    = own_entries ex_placement ex_turn_message @ own_entries ex_placement (ex_turn_message\<lparr>msg_id := ''n''\<rparr>)"
  using joined_activity_keeps_the_page [of "[ex_turn_message, ex_steer, ex_turn_message\<lparr>msg_id := ''n''\<rparr>]" ex_placement]
  by (simp add: is_assistant_def ex_turn_message_def ex_steer_def)

section \<open>Where a joined entry stands\<close>

text \<open>
  An entry of the response \<open>own\<close> stands in that response, or in an earlier one that it
  continues: every response from the earlier one on to \<open>own\<close> continues the one before it, and
  those between the two have nothing left to show.
\<close>

definition stands_with ::
  "placement_context \<Rightarrow> (string \<times> turn_presentation) list \<Rightarrow> message list \<Rightarrow> message \<Rightarrow> turn_entry \<Rightarrow> bool" where
  "stands_with p ps ms own e \<longleftrightarrow> e \<in> set (placed_entries p ps own)
     \<or> (\<exists>pre x mid post. ms = pre @ x # mid @ own # post
          \<and> successively (continues_previous p) (x # mid @ [own])
          \<and> (\<forall>y\<in>set mid. placed_entries p ps y = [])
          \<and> e \<in> set (placed_entries p ps x))"

definition all_stand :: "placement_context \<Rightarrow> (string \<times> turn_presentation) list \<Rightarrow> message list \<Rightarrow> bool" where
  "all_stand p ps ms \<longleftrightarrow> (\<forall>own\<in>set ms. \<forall>e\<in>set (own_entries p own). stands_with p ps ms own e)"

lemma stands_with_append: "stands_with p ps ms own e \<Longrightarrow> stands_with p ps (ms @ ns) own e"
  unfolding stands_with_def by (metis append.assoc append_Cons)

text \<open>The joined presentations are extended: the same before the owner, no less at the owner.\<close>

lemma stands_with_extended:
  assumes s: "stands_with p ps (as @ [own]) o1 e" and "o1 \<in> set (as @ [own])"
    and same: "\<And>y. y \<in> set as \<Longrightarrow> placed_entries p ps' y = placed_entries p ps y"
    and more: "set (placed_entries p ps own) \<subseteq> set (placed_entries p ps' own)"
  shows "stands_with p ps' (as @ [own]) o1 e"
proof -
  have grow: "set (placed_entries p ps y) \<subseteq> set (placed_entries p ps' y)" if "y \<in> set (as @ [own])" for y
    using that same more by auto
  from s consider (here) "e \<in> set (placed_entries p ps o1)"
    | (before) pre x mid post where "as @ [own] = pre @ x # mid @ o1 # post"
        "successively (continues_previous p) (x # mid @ [o1])"
        "\<forall>y\<in>set mid. placed_entries p ps y = []" "e \<in> set (placed_entries p ps x)"
    unfolding stands_with_def by blast
  then show ?thesis
  proof cases
    case here
    with grow [OF assms(2)] show ?thesis by (auto simp: stands_with_def)
  next
    case before
    have "as = butlast (pre @ x # mid @ o1 # post)" by (simp flip: before(1))
    then have "set (x # mid) \<subseteq> set as" by (cases post rule: rev_cases) (auto simp: butlast_append)
    with before same have "\<forall>y\<in>set mid. placed_entries p ps' y = []" "e \<in> set (placed_entries p ps' x)" by auto
    with before(1,2) show ?thesis unfolding stands_with_def by blast
  qed
qed

text \<open>The state of the loop: who the owner is, and where the entries of all others stand.\<close>

definition owner_holds :: "placement_context \<Rightarrow> message list \<Rightarrow> placement_state \<Rightarrow> bool" where
  "owner_holds p ms st \<longleftrightarrow> ps_previous st = (if ms = [] then None else Some (last ms))
     \<and> (case ps_owner st of None \<Rightarrow> ms = []
        | Some own \<Rightarrow> \<exists>as bs. ms = as @ own # bs
            \<and> successively (continues_previous p) (own # bs)
            \<and> (\<forall>b\<in>set bs. placed_entries p (ps_presentations st) b = [])
            \<and> all_stand p (ps_presentations st) (as @ [own])
            \<and> (\<forall>b\<in>set bs. set (own_entries p b) \<subseteq> set (placed_entries p (ps_presentations st) own)))"

lemma all_stand_behind_owner:
  assumes "all_stand p ps (as @ [own])" "successively (continues_previous p) (own # bs)"
    and "\<forall>b\<in>set bs. placed_entries p ps b = []"
    and "\<forall>b\<in>set bs. set (own_entries p b) \<subseteq> set (placed_entries p ps own)"
  shows "all_stand p ps (as @ own # bs)"
proof -
  have "stands_with p ps (as @ own # bs) b e" if b: "b \<in> set bs" "e \<in> set (own_entries p b)" for b e
  proof -
    from b(1) obtain mid post where bs: "bs = mid @ b # post" by (meson split_list)
    have "successively (continues_previous p) (own # mid @ [b])"
      using assms(2) by (simp add: bs successively_append_iff flip: append_Cons)
    moreover have "\<forall>y\<in>set mid. placed_entries p ps y = []" "e \<in> set (placed_entries p ps own)"
      using assms(3,4) b(2) by (auto simp: bs)
    ultimately show ?thesis unfolding stands_with_def bs by blast
  qed
  moreover have "stands_with p ps (as @ own # bs) b e" if "b \<in> set (as @ [own])" "e \<in> set (own_entries p b)" for b e
    using assms(1) that stands_with_append [of p ps "as @ [own]" b e bs] by (auto simp: all_stand_def)
  ultimately show ?thesis by (auto simp: all_stand_def)
qed

lemma owner_holds_all_stand:
  assumes "owner_holds p ms st"
  shows "all_stand p (ps_presentations st) ms"
proof (cases "ps_owner st")
  case (Some own)
  with assms obtain as bs where "ms = as @ own # bs" "all_stand p (ps_presentations st) (as @ [own])"
    "successively (continues_previous p) (own # bs)"
    "\<forall>b\<in>set bs. placed_entries p (ps_presentations st) b = []"
    "\<forall>b\<in>set bs. set (own_entries p b) \<subseteq> set (placed_entries p (ps_presentations st) own)"
    by (auto simp: owner_holds_def)
  with all_stand_behind_owner show ?thesis by blast
qed (use assms in \<open>simp add: owner_holds_def all_stand_def\<close>)

lemma owner_holdsI:
  assumes "ms = as @ own # bs" "ps_previous st = Some (last ms)" "ps_owner st = Some own"
    and "successively (continues_previous p) (own # bs)"
    and "\<forall>b\<in>set bs. placed_entries p (ps_presentations st) b = []"
    and "all_stand p (ps_presentations st) (as @ [own])"
    and "\<forall>b\<in>set bs. set (own_entries p b) \<subseteq> set (placed_entries p (ps_presentations st) own)"
  shows "owner_holds p ms st"
  using assms unfolding owner_holds_def by auto

lemma all_stand_snoc:
  assumes "all_stand p ps ms" "placed_entries p ps m = own_entries p m"
  shows "all_stand p ps (ms @ [m])"
  using assms stands_with_append [of p ps ms _ _ "[m]"] by (auto simp: all_stand_def stands_with_def)

lemma owner_holds_skip:
  assumes "owner_holds p ms st" "placed_entries p (ps_presentations st) m = own_entries p m"
  shows "owner_holds p (ms @ [m]) (st\<lparr>ps_owner := Some m, ps_previous := Some m\<rparr>)"
  using all_stand_snoc [OF owner_holds_all_stand [OF assms(1)] assms(2)]
  by (intro owner_holdsI [where as = ms and own = m and bs = "[]"]) simp_all

lemma join_segments_sets:
  assumes "join_segments before after = Some (bs, as)"
  shows "set (shown_entries before) \<subseteq> set (shown_entries bs)"
    and "set (shown_entries after) \<subseteq> set (shown_entries bs) \<union> set (shown_entries as)"
  using assms
  by (cases before rule: rev_cases; auto simp: join_segments_def at_last_def split: turn_segment.splits list.splits if_splits)+

lemma owner_holds_join:
  assumes ok: "owner_holds p ms st" and unplaced: "placed_entries p (ps_presentations st) m = own_entries p m"
    and new: "msg_id m \<notin> msg_id ` set ms" and d: "distinct (map msg_id ms)" and own: "ps_owner st = Some own"
    and continues: "continues_previous p (last ms) m"
  shows "owner_holds p (ms @ [m]) ((join_activity p own m st)\<lparr>ps_previous := Some m\<rparr>)"
proof (cases "join_segments (tn_segments (presentation_of p (ps_presentations st) own)) (tn_segments (presentation_of p (ps_presentations st) m))")
  case None
  then have "join_activity p own m st = st\<lparr>ps_owner := Some m\<rparr>" by (simp add: join_activity_def)
  with owner_holds_skip [OF ok unplaced] show ?thesis by simp
next
  case (Some x)
  obtain sb sa where x: "x = (sb, sa)" by (cases x)
  let ?ps = "ps_presentations st"
  let ?ps1 = "map_set (map_set ?ps (msg_id own) (with_segments (presentation_of p ?ps own) sb))
    (msg_id m) (with_segments (presentation_of p ?ps m) sa)"
  obtain as bs where ms: "ms = as @ own # bs" and chain: "successively (continues_previous p) (own # bs)"
    and bs: "\<forall>b\<in>set bs. placed_entries p ?ps b = []" and stand: "all_stand p ?ps (as @ [own])"
    and held: "\<forall>b\<in>set bs. set (own_entries p b) \<subseteq> set (placed_entries p ?ps own)"
    using ok own by (auto simp: owner_holds_def)
  have ids: "msg_id own \<noteq> msg_id m" "\<forall>a \<in> set as \<union> set bs. msg_id a \<noteq> msg_id own \<and> msg_id a \<noteq> msg_id m"
    using d new by (auto simp: ms image_iff ball_Un)
  have same: "placed_entries p ?ps1 a = placed_entries p ?ps a" if "a \<in> set as \<union> set bs" for a
    using ids(2) that by (simp add: placed_entries_def presentation_of_set)
  have two: "placed_entries p ?ps1 own = shown_entries sb" "placed_entries p ?ps1 m = shown_entries sa"
    using ids(1) by (simp_all add: placed_entries_def presentation_of_set with_segments_def)
  note sets = join_segments_sets [OF Some [unfolded x], folded placed_entries_def, unfolded unplaced]
  have stand1: "all_stand p ?ps1 (as @ [own])"
    using stand stands_with_extended [of p ?ps as own _ _ ?ps1] same sets(1) two(1)
    by (auto simp: all_stand_def)
  have bs1: "\<forall>b\<in>set bs. placed_entries p ?ps1 b = []" using bs same by simp
  have held1: "\<forall>b\<in>set bs. set (own_entries p b) \<subseteq> set (placed_entries p ?ps1 own)" using held sets(1) two(1) by auto
  have chain1: "successively (continues_previous p) (own # bs @ [m])"
    using chain continues by (cases bs rule: rev_cases) (simp_all add: ms successively_append_iff flip: append_Cons)
  have st1: "join_activity p own m st = st\<lparr>ps_presentations := ?ps1, ps_owner := Some (if sa \<noteq> [] then m else own)\<rparr>"
    using Some x by (simp add: join_activity_def Let_def)
  show ?thesis
  proof (cases "sa = []")
    case True
    then have "set (own_entries p m) \<subseteq> set (placed_entries p ?ps1 own)" "placed_entries p ?ps1 m = []"
      using sets(2) two by auto
    with True chain1 bs1 stand1 held1 show ?thesis
      unfolding st1 by (intro owner_holdsI [where as = as and own = own and bs = "bs @ [m]"]) (auto simp: ms)
  next
    case False
    have "stands_with p ?ps1 (ms @ [m]) m e" if "e \<in> set (own_entries p m)" for e
    proof (cases "e \<in> set (placed_entries p ?ps1 m)")
      case False
      with that sets(2) two have "e \<in> set (placed_entries p ?ps1 own)" by auto
      with chain1 bs1 show ?thesis unfolding stands_with_def ms
        by (intro disjI2 exI [of _ as] exI [of _ own] exI [of _ bs] exI [of _ "[]"]) simp
    qed (simp add: stands_with_def)
    moreover have "all_stand p ?ps1 ms" unfolding ms by (rule all_stand_behind_owner [OF stand1 chain bs1 held1])
    ultimately have "all_stand p ?ps1 (ms @ [m])"
      using stands_with_append [of p ?ps1 ms _ _ "[m]"] by (auto simp: all_stand_def)
    with False show ?thesis
      unfolding st1 by (intro owner_holdsI [where as = ms and own = m and bs = "[]"]) simp_all
  qed
qed

lemma owner_holds_message:
  assumes "placed_ok p ms st" "owner_holds p ms st" "msg_id m \<notin> msg_id ` set ms" "distinct (map msg_id ms)" "is_assistant m"
  shows "owner_holds p (ms @ [m]) (place_message p st m)"
proof -
  note unplaced = placed_ok_unplaced [OF assms(1,3)]
  show ?thesis
  proof (cases "ps_previous st")
    case None
    then show ?thesis using owner_holds_skip [OF assms(2) unplaced] assms(5) by (simp add: place_message_def is_assistant_def)
  next
    case (Some previous)
    with assms(2) obtain own where "ps_owner st = Some own" "previous = last ms"
      by (auto simp: owner_holds_def split: option.splits if_splits)
    with Some owner_holds_skip [OF assms(2) unplaced] owner_holds_join [OF assms(2) unplaced assms(3,4)] assms(5)
    show ?thesis by (simp add: place_message_def is_assistant_def)
  qed
qed

lemma owner_holds_messages:
  assumes "distinct (map msg_id (ms @ filter is_assistant ns))" "placed_ok p ms st" "owner_holds p ms st"
  shows "owner_holds p (ms @ filter is_assistant ns) (foldl (place_message p) st ns)"
  using assms
proof (induction ns arbitrary: ms st)
  case (Cons m ns)
  show ?case
  proof (cases "is_assistant m")
    case True
    with Cons.prems have "placed_ok p (ms @ [m]) (place_message p st m)" "owner_holds p (ms @ [m]) (place_message p st m)"
      by (auto intro!: place_message_ok owner_holds_message)
    from Cons.IH [OF _ this] Cons.prems(1) True show ?thesis by simp
  next
    case False
    then have "place_message p st m = st" by (simp add: place_message_def is_assistant_def)
    with Cons False show ?thesis by simp
  qed
qed simp

lemma entries_stand_with_their_response:
  assumes "distinct (map msg_id (filter is_assistant messages))"
  shows "all_stand p (placeContinuedActivity p messages) (filter is_assistant messages)"
  using owner_holds_all_stand [OF owner_holds_messages [of "[]" messages p
      "\<lparr>ps_presentations = [], ps_previous = None, ps_owner = None\<rparr>"]] assms
  by (simp add: placed_ok_def owner_holds_def placeContinuedActivity_def)

section \<open>The activity that is followed while it runs\<close>

definition live_message_ids :: "string \<Rightarrow> message list \<Rightarrow> string list" where
  "live_message_ids activeTurnId messages =
     map msg_id (filter (\<lambda>m. msg_role m = RoleAssistant \<and> or_else (msg_run_id m) (msg_turn_id m) = Some activeTurnId) messages)"

definition holds_live :: "string list \<Rightarrow> turn_presentation option \<Rightarrow> bool" where
  "holds_live liveIds view \<longleftrightarrow> (case view of
       Some v \<Rightarrow> list_ex (\<lambda>i. list_ex (\<lambda>k. starts_with (k @ '':iteration:'') (it_id i)) liveIds) (tn_iterations v)
     | None \<Rightarrow> False)"

text \<open>From the last iteration with a public thought on, when it has one.\<close>

definition last_thought_group :: "conversation_iteration list \<Rightarrow> conversation_iteration list" where
  "last_thought_group its = (case find_index (\<lambda>i. it_nextThoughts i \<noteq> []) (rev its) of
       Some n \<Rightarrow> drop (length its - 1 - n) its | None \<Rightarrow> its)"

definition followed_iteration :: "conversation_iteration list \<Rightarrow> string option" where
  "followed_iteration its = (let group = last_thought_group its
     in if list_ex (\<lambda>i. it_activity i \<noteq> []) group then map_option it_id (List.find (\<lambda>_. True) group) else None)"

fun follow_live :: "placement_context \<Rightarrow> (string \<times> turn_presentation) list \<Rightarrow> string list \<Rightarrow> message list \<Rightarrow> string option" where
  "follow_live p ps liveIds [] = None"
| "follow_live p ps liveIds (m # ms) =
     (let view = map_of ps (msg_id m)
      in if msg_role m \<noteq> RoleAssistant \<or> (msg_id m \<notin> set liveIds \<and> \<not> holds_live liveIds view) then follow_live p ps liveIds ms
         else (case at_last (tn_segments (coalesce view (own_presentation p m))) of
             None \<Rightarrow> follow_live p ps liveIds ms
           | Some (IterationsSegment its) \<Rightarrow> followed_iteration its
           | Some _ \<Rightarrow> None))"

definition liveActivityIterationId ::
  "placement_context \<Rightarrow> message list \<Rightarrow> string option \<Rightarrow> string option \<Rightarrow> (string \<times> turn_presentation) list \<Rightarrow> string option" where
  "liveActivityIterationId p messages activeTurnId sessionState ps =
     (if \<not> truthy_str activeTurnId
         \<or> coalesce sessionState [] \<notin> {''running'', ''queued'', ''waiting_permission'', ''waiting_user''} then None
      else let liveIds = live_message_ids (coalesce activeTurnId []) messages
           in if liveIds = [] then None else follow_live p ps liveIds (rev messages))"

lemma followed_iteration_in: "followed_iteration its = Some k \<Longrightarrow> \<exists>i \<in> set its. it_id i = k"
proof -
  assume a: "followed_iteration its = Some k"
  then obtain i where "find (\<lambda>_. True) (last_thought_group its) = Some i" "it_id i = k"
    by (auto simp: followed_iteration_def Let_def split: if_splits)
  then have "i \<in> set (last_thought_group its)" by (simp add: find_Some_set)
  then have "i \<in> set its" by (auto simp: last_thought_group_def split: option.splits dest: in_set_dropD)
  with \<open>it_id i = k\<close> show ?thesis by blast
qed

text \<open>
  What is followed is an iteration at the end of what a response shows: an answer or another
  entry after it takes the focus away.
\<close>

lemma followed_activity_is_last:
  "follow_live p ps liveIds ms = Some k \<Longrightarrow>
     \<exists>m \<in> set ms. is_assistant m \<and> (\<exists>its. at_last (tn_segments (presentation_of p ps m)) = Some (IterationsSegment its) \<and> (\<exists>i \<in> set its. it_id i = k))"
proof (induction ms)
  case (Cons m ms)
  show ?case
  proof (cases "msg_role m \<noteq> RoleAssistant \<or> (msg_id m \<notin> set liveIds \<and> \<not> holds_live liveIds (map_of ps (msg_id m)))
      \<or> at_last (tn_segments (presentation_of p ps m)) = None")
    case True
    with Cons show ?thesis by (auto simp: presentation_of_def Let_def split: if_splits)
  next
    case False
    with Cons.prems obtain its where "at_last (tn_segments (presentation_of p ps m)) = Some (IterationsSegment its)"
      "followed_iteration its = Some k"
      by (auto simp: presentation_of_def Let_def split: option.splits turn_segment.splits)
    with False followed_iteration_in show ?thesis by (force simp: is_assistant_def)
  qed
qed simp

end
