(* ===== verification/Message_Projection.thy ===== *)
theory Message_Projection
  imports Conversation_Placement
begin

text \<open>
  The rest of \<open>web/src/components/clio/conversation-message-projection.ts\<close>: which responses
  continue each other, how the messages of interactive actions are named, and which envelopes
  belong to a question, to an App or to a surface.

  \<open>JSON.parse\<close>, the notation of a number and the upper case of a character are arguments
  (\<open>label_env\<close>).
\<close>

section \<open>Data\<close>

record async_process =
  pr_id :: string
  pr_handle :: "string option"
  pr_effective_status :: "string option"
  pr_live_state :: run_state

datatype interaction_kind = IkQuestion | IkPermission | IkA2ui | IkMcpTaskInput | IkUnknown
datatype interaction_protocol = IpNative | IpMcp | IpUnknown
datatype interaction_status = IsPending | IsAnswered | IsCancelled | IsExpired | IsUnknown

text \<open>The fields of a \<open>PendingInteraction\<close> that are read here.\<close>

record pending_interaction =
  pi_kind :: interaction_kind
  pi_status :: interaction_status
  pi_requires_human_response :: "bool option"
  pi_protocol :: interaction_protocol
  pi_invocation_id :: "string option"
  pi_surface_id :: "string option"
  pi_payload :: "js_value obj option"

record label_env =
  le_parse :: "string \<Rightarrow> js_value result"
  le_showNumber :: "rat \<Rightarrow> string"
  le_upper :: "char \<Rightarrow> string"

definition metadata_field :: "message \<Rightarrow> string \<Rightarrow> js_value option" where
  "metadata_field m k = Option.bind (msg_metadata m) (\<lambda>o1. obj_get o1 k)"

text \<open>A value as a condition.\<close>

definition js_truthy :: "js_value option \<Rightarrow> bool" where
  "js_truthy v = (case v of
       None \<Rightarrow> False | Some JUndef \<Rightarrow> False | Some JNull \<Rightarrow> False | Some (JBool b) \<Rightarrow> b
     | Some (JNum n) \<Rightarrow> n \<noteq> 0 | Some (JStr s) \<Rightarrow> s \<noteq> [] | Some (JArr _) \<Rightarrow> True | Some (JObj _) \<Rightarrow> True)"

section \<open>Continued responses\<close>

definition process_running :: "async_process \<Rightarrow> bool" where
  "process_running p = (case pr_effective_status p of
       Some s \<Rightarrow> s \<notin> {''completed'', ''failed'', ''cancelled'', ''interrupted'', ''error''}
     | None \<Rightarrow> pr_live_state p \<notin> {RunCompleted, RunFailed, RunCancelled, RunInterrupted})"

definition running_handles :: "async_process list \<Rightarrow> string list" where
  "running_handles processes = map (\<lambda>p. coalesce (pr_handle p) (pr_id p)) (filter process_running processes)"

definition accepted_handle :: "js_value \<Rightarrow> string option" where
  "accepted_handle output = (case output of
       JObj o1 \<Rightarrow> (case (case obj_get o1 ''structuredContent'' of Some r \<Rightarrow> r | None \<Rightarrow> output) of
           JObj r \<Rightarrow> (case (obj_get r ''accepted'', obj_get r ''handle'') of
               (Some (JBool True), Some (JStr h)) \<Rightarrow> Some h | _ \<Rightarrow> None)
         | _ \<Rightarrow> None)
     | _ \<Rightarrow> None)"

definition awaits_process :: "tool_invocation obj \<Rightarrow> string list \<Rightarrow> message_block \<Rightarrow> bool" where
  "awaits_process tools handles b = (case blk_body b of
       ToolBlock k _ \<Rightarrow> (case Option.bind (Option.bind (obj_get tools k) (\<lambda>t. slot_val (tool_output t))) accepted_handle of
           Some h \<Rightarrow> h \<in> set handles | None \<Rightarrow> False)
     | _ \<Rightarrow> False)"

fun injection_source :: "block_body \<Rightarrow> string option" where
  "injection_source (InjectionBlock s _ _ _ _ _ _) = Some s"
| "injection_source _ = None"

text \<open>A message after which no response continues the one before.\<close>

definition breaks_response :: "message \<Rightarrow> bool" where
  "breaks_response m \<longleftrightarrow> msg_role m = RoleUser \<or> msg_role m = RoleUnknown
     \<or> (msg_role m = RoleSystem \<and> \<not> list_all (\<lambda>b. injection_source (blk_body b) \<noteq> None) (msg_blocks m))"

definition returns_results :: "message \<Rightarrow> bool" where
  "returns_results m \<longleftrightarrow> list_ex (\<lambda>b. injection_source (blk_body b) \<in> {Some ''task_completion'', Some ''task_results''}) (msg_blocks m)"

record continuity =
  cn_previous :: "message option"
  cn_continued :: "string list"
  cn_continuations :: "string list"

definition previous_in_session :: "message \<Rightarrow> continuity \<Rightarrow> message option" where
  "previous_in_session m st = (case cn_previous st of
       Some a \<Rightarrow> if msg_session_id a = msg_session_id m then Some a else None | None \<Rightarrow> None)"

definition continue_message :: "message \<Rightarrow> continuity \<Rightarrow> continuity" where
  "continue_message m st =
     (let previous = previous_in_session m st
      in if breaks_response m then st\<lparr>cn_previous := None\<rparr>
         else if msg_role m = RoleAssistant then
           (case previous of
              Some a \<Rightarrow> st\<lparr>cn_continued := msg_id a # cn_continued st, cn_continuations := msg_id m # cn_continuations st\<rparr>
            | None \<Rightarrow> st)\<lparr>cn_previous := Some m\<rparr>
         else
           (case previous of
              Some a \<Rightarrow> if returns_results m then st\<lparr>cn_continued := msg_id a # cn_continued st\<rparr> else st
            | None \<Rightarrow> st)\<lparr>cn_previous := previous\<rparr>)"

definition continuity_step :: "tool_invocation obj \<Rightarrow> string list \<Rightarrow> continuity \<Rightarrow> message \<Rightarrow> continuity" where
  "continuity_step tools handles st m =
     (let st1 = continue_message m st
      in if msg_role m = RoleAssistant \<and> list_ex (awaits_process tools handles) (msg_blocks m)
         then st1\<lparr>cn_continued := msg_id m # cn_continued st1\<rparr> else st1)"

definition conversationResponseContinuity :: "message list \<Rightarrow> tool_invocation obj \<Rightarrow> async_process list \<Rightarrow> string list \<times> string list" where
  "conversationResponseContinuity messages tools processes =
     (let st = foldl (continuity_step tools (running_handles processes))
            \<lparr>cn_previous = None, cn_continued = [], cn_continuations = []\<rparr> messages
      in (cn_continued st, cn_continuations st))"

section \<open>Surfaces and actions\<close>

definition a2ui_block :: "message_block \<Rightarrow> bool" where
  "a2ui_block b = (case blk_body b of A2uiBlock _ \<Rightarrow> True | _ \<Rightarrow> False)"

definition isProjectionOnlyA2UIMessage :: "message \<Rightarrow> bool" where
  "isProjectionOnlyA2UIMessage m \<longleftrightarrow> msg_role m = RoleAssistant \<and> starts_with ''msg_a2ui_'' (msg_id m)
     \<and> \<not> truthy_str (msg_turn_id m) \<and> list_all a2ui_block (msg_blocks m)"

text \<open>\<open>/Structured context:\s*(\{[^\n]*\})/u\<close>: the first match, up to the last brace of the line.\<close>

definition context_here :: "string \<Rightarrow> string option" where
  "context_here s =
     (if starts_with ''Structured context:'' s
      then (case takeWhile (\<lambda>c. c \<noteq> CHR 0x0A) (dropWhile js_whitespace (drop (length ''Structured context:'') s)) of
          [] \<Rightarrow> None
        | c # cs \<Rightarrow> if c = CHR ''{'' \<and> CHR ''}'' \<in> set cs then Some (c # rev (dropWhile (\<lambda>d. d \<noteq> CHR ''}'') (rev cs))) else None)
      else None)"

fun context_in :: "string \<Rightarrow> string option" where
  "context_in [] = None"
| "context_in (c # cs) = (case context_here (c # cs) of Some j \<Rightarrow> Some j | None \<Rightarrow> context_in cs)"

definition actionContextFromText :: "label_env \<Rightarrow> string \<Rightarrow> js_value obj option" where
  "actionContextFromText e tx = (case context_in tx of
       None \<Rightarrow> None
     | Some json \<Rightarrow> (case le_parse e json of Inr (JObj o1) \<Rightarrow> Some o1 | _ \<Rightarrow> None))"

fun string_or_number :: "label_env \<Rightarrow> js_value \<Rightarrow> string option" where
  "string_or_number e (JStr s) = Some s"
| "string_or_number e (JNum n) = Some (le_showNumber e n)"
| "string_or_number e _ = None"

text \<open>\<open>a ?? b\<close> on properties: the first that is neither absent nor null.\<close>

definition nullish_or :: "js_value option \<Rightarrow> js_value option \<Rightarrow> js_value option" where
  "nullish_or a b = (if a = None \<or> a = Some JUndef \<or> a = Some JNull then b else a)"

definition readable_value :: "label_env \<Rightarrow> js_value \<Rightarrow> string option" where
  "readable_value e v = (case v of
       JArr vs \<Rightarrow> if length vs \<le> 5 \<and> list_all (\<lambda>x. string_or_number e x \<noteq> None) vs
         then Some (join_with '', '' (map (\<lambda>x. coalesce (string_or_number e x) []) vs)) else None
     | _ \<Rightarrow> string_or_number e v)"

definition readable_key :: "label_env \<Rightarrow> string \<Rightarrow> string" where
  "readable_key e k = (case map (\<lambda>c. if c = CHR ''_'' then CHR '' '' else c) k of [] \<Rightarrow> [] | c # cs \<Rightarrow> le_upper e c @ cs)"

definition entry_label :: "label_env \<Rightarrow> js_value obj \<Rightarrow> string" where
  "entry_label e context = (case context of
       [(k, v)] \<Rightarrow> (case readable_value e v of
           Some t \<Rightarrow> if t = [] \<or> 100 < length t then ''Choice sent'' else readable_key e k @ '': '' @ t
         | None \<Rightarrow> ''Choice sent'')
     | _ \<Rightarrow> ''Choice sent'')"

definition selected_label :: "label_env \<Rightarrow> js_value obj \<Rightarrow> string option" where
  "selected_label e context =
     (let name = nullish_or (obj_get context ''equipment'') (nullish_or (obj_get context ''name'') (obj_get context ''label''))
      in case Option.bind (obj_get context ''selected_id'') (string_or_number e) of
           None \<Rightarrow> None
         | Some k \<Rightarrow> if 60 < length k then None else Some (''Selected: '' @ (case name of
               Some (JStr n) \<Rightarrow> if length n \<le> 60 then n @ '' ('' @ k @ '')'' else k
             | _ \<Rightarrow> k)))"

definition actionChoiceLabel :: "label_env \<Rightarrow> js_value obj \<Rightarrow> string" where
  "actionChoiceLabel e context = (case obj_get context ''approved'' of
       Some (JBool b) \<Rightarrow> if b then ''Approval given'' else ''Approval declined''
     | _ \<Rightarrow> (case selected_label e context of Some l \<Rightarrow> l | None \<Rightarrow> entry_label e context))"

fun text_of_block :: "message_block \<Rightarrow> string list" where
  "text_of_block b = (case blk_body b of TextBlock t _ \<Rightarrow> [t] | _ \<Rightarrow> [])"

definition message_text :: "message \<Rightarrow> string" where
  "message_text m = join_with [CHR 0x0A] (concat (map text_of_block (msg_blocks m)))"

definition relabel :: "string \<Rightarrow> message_block \<Rightarrow> message_block" where
  "relabel l b = (case blk_body b of TextBlock _ s \<Rightarrow> b\<lparr>blk_body := TextBlock l s\<rparr> | _ \<Rightarrow> b)"

definition action_receipt :: "message \<Rightarrow> bool" where
  "action_receipt m \<longleftrightarrow> msg_role m = RoleAssistant \<and> \<not> truthy_str (msg_turn_id m) \<and> starts_with ''msg_a2ui_a2ui_action_'' (msg_id m)"

definition action_message :: "message \<Rightarrow> bool" where
  "action_message m \<longleftrightarrow> msg_role m = RoleUser
     \<and> (js_truthy (metadata_field m ''a2ui_action'') \<or> starts_with ''A2UI event: '' (message_text m))"

definition action_label :: "label_env \<Rightarrow> message \<Rightarrow> string" where
  "action_label e m =
     (case (case metadata_field m ''a2ui_action_context'' of
          Some (JObj o1) \<Rightarrow> Some o1 | _ \<Rightarrow> actionContextFromText e (message_text m)) of
        Some choices \<Rightarrow> actionChoiceLabel e choices | None \<Rightarrow> ''Action sent'')"

definition projectA2UIActionMessages :: "label_env \<Rightarrow> message list \<Rightarrow> message list" where
  "projectA2UIActionMessages e messages =
     map (\<lambda>m. if action_message m then m\<lparr>msg_blocks := map (relabel (action_label e m)) (msg_blocks m)\<rparr> else m)
       (filter (\<lambda>m. \<not> action_receipt m) messages)"

section \<open>Envelopes\<close>

datatype special_mode = SpecialPlan | SpecialDeepResearch

definition specialMessageExecutionMode :: "message \<Rightarrow> special_mode option" where
  "specialMessageExecutionMode m =
     (if msg_role m \<noteq> RoleUser then None
      else case metadata_field m ''behavior'' of
        Some (JObj b) \<Rightarrow>
          (if obj_get b ''execution_mode'' = Some (JStr ''plan'') then Some SpecialPlan
           else if obj_get b ''execution_mode'' = Some (JStr ''deep_research'') then Some SpecialDeepResearch else None)
      | _ \<Rightarrow> None)"

definition isProjectedQuestionResumeEnvelope :: "message \<Rightarrow> pending_interaction list option \<Rightarrow> bool" where
  "isProjectedQuestionResumeEnvelope m interactions \<longleftrightarrow>
     msg_role m = RoleUser
     \<and> (metadata_field m ''plan_exit_resume'' = Some (JBool True)
       \<or> ((metadata_field m ''ask_user_resume'' = Some (JBool True)
            \<or> metadata_field m ''question_response_mode'' = Some (JStr ''async''))
          \<and> (case metadata_field m ''ask_user_question_id'' of
               Some (JStr q) \<Rightarrow> q \<noteq> [] \<and> list_ex (\<lambda>i. pi_kind i = IkQuestion \<and> pi_protocol i = IpNative
                 \<and> truthy_str (pi_invocation_id i)
                 \<and> Option.bind (pi_payload i) (\<lambda>p. obj_get p ''question_id'') = Some (JStr q)) (coalesce interactions [])
             | _ \<Rightarrow> False)))"

record app_response =
  ar_appInstanceId :: string
  ar_createdAt :: string
  ar_messageId :: string
  ar_sourceServer :: string
  ar_pending :: bool
  ar_text :: string
  ar_toolName :: string

text \<open>An App block: its instance, with the server it came from and its tool.\<close>

type_synonym app_table = "(string \<times> string \<times> string) list"

definition mcpAppResponseForMessage :: "message \<Rightarrow> app_table \<Rightarrow> app_response option" where
  "mcpAppResponseForMessage m apps =
     (if msg_role m \<noteq> RoleUser then None
      else case metadata_field m ''mcp_app_response'' of
        Some (JObj raw) \<Rightarrow> (case obj_get raw ''app_instance_id'' of
            Some (JStr k) \<Rightarrow>
              if k = [] then None
              else map_option (\<lambda>(server, tool). \<lparr>ar_appInstanceId = k, ar_createdAt = msg_created_at m, ar_messageId = msg_id m,
                  ar_sourceServer = server, ar_pending = (obj_get raw ''state'' = Some (JStr ''pending'')),
                  ar_text = trim (message_text m), ar_toolName = tool\<rparr>) (map_of apps k)
          | _ \<Rightarrow> None)
      | _ \<Rightarrow> None)"

definition add_app :: "app_table \<Rightarrow> message_block \<Rightarrow> app_table" where
  "add_app apps b = (case blk_body b of McpAppBlock k _ server tool _ _ _ \<Rightarrow> map_set apps k (server, tool) | _ \<Rightarrow> apps)"

definition transcript_apps :: "message list \<Rightarrow> app_table" where
  "transcript_apps messages = foldl (\<lambda>apps m. foldl add_app apps (msg_blocks m)) [] messages"

definition mcpAppResponsesForMessages :: "message list \<Rightarrow> (string \<times> app_response) list" where
  "mcpAppResponsesForMessages messages =
     foldl (\<lambda>rs m. case mcpAppResponseForMessage m (transcript_apps messages) of
       Some r \<Rightarrow> map_set rs (msg_id m) r | None \<Rightarrow> rs) [] messages"

definition questionSurfaceMetadata :: "pending_interaction \<Rightarrow> js_value obj" where
  "questionSurfaceMetadata i = (case Option.bind (pi_payload i) (\<lambda>p. obj_get p ''metadata'') of Some (JObj o1) \<Rightarrow> o1 | _ \<Rightarrow> [])"

definition embedsQuestionSurface :: "pending_interaction \<Rightarrow> bool" where
  "embedsQuestionSurface i \<longleftrightarrow> obj_get (questionSurfaceMetadata i) ''a2ui_presentation'' = Some (JStr ''inline'')"

definition surfaceAwaitsPendingResponse :: "pending_interaction list option \<Rightarrow> string \<Rightarrow> bool" where
  "surfaceAwaitsPendingResponse interactions surfaceId \<longleftrightarrow>
     list_ex (\<lambda>i. (pi_kind i = IkQuestion \<or> pi_kind i = IkA2ui) \<and> embedsQuestionSurface i \<and> pi_status i = IsPending
       \<and> pi_requires_human_response i \<noteq> Some False \<and> pi_surface_id i = Some surfaceId) (coalesce interactions [])"

section \<open>Lemmas: continuity\<close>

text \<open>
  The response a new one would continue: an assistant message of which every later message is of
  its session and neither a response nor a break.
\<close>

definition open_response :: "message list \<Rightarrow> message \<Rightarrow> bool" where
  "open_response ms a \<longleftrightarrow> (\<exists>as bs. ms = as @ a # bs \<and> msg_role a = RoleAssistant
     \<and> (\<forall>b \<in> set bs. msg_role b \<noteq> RoleAssistant \<and> \<not> breaks_response b \<and> msg_session_id b = msg_session_id a))"

lemma open_response_Nil [simp]: "\<not> open_response [] a"
  by (simp add: open_response_def)

lemma open_response_snoc:
  "open_response (ms @ [m]) a \<longleftrightarrow> (msg_role m = RoleAssistant \<and> a = m)
     \<or> (msg_role m \<noteq> RoleAssistant \<and> \<not> breaks_response m \<and> msg_session_id m = msg_session_id a \<and> open_response ms a)"
  (is "?l \<longleftrightarrow> ?r")
proof
  assume ?l
  then obtain as bs where s: "ms @ [m] = as @ a # bs" "msg_role a = RoleAssistant"
    "\<forall>b \<in> set bs. msg_role b \<noteq> RoleAssistant \<and> \<not> breaks_response b \<and> msg_session_id b = msg_session_id a"
    by (auto simp: open_response_def)
  show ?r
  proof (cases bs rule: rev_cases)
    case (snoc bs' b)
    with s show ?thesis by (auto simp: open_response_def)
  qed (use s in auto)
next
  assume ?r
  then show ?l
  proof (elim disjE conjE)
    assume "open_response ms a" "msg_role m \<noteq> RoleAssistant" "\<not> breaks_response m" "msg_session_id m = msg_session_id a"
    then obtain as bs where "ms = as @ a # bs" "msg_role a = RoleAssistant"
      "\<forall>b \<in> set bs. msg_role b \<noteq> RoleAssistant \<and> \<not> breaks_response b \<and> msg_session_id b = msg_session_id a"
      by (auto simp: open_response_def)
    with \<open>msg_role m \<noteq> RoleAssistant\<close> \<open>\<not> breaks_response m\<close> \<open>msg_session_id m = msg_session_id a\<close> show ?l
      unfolding open_response_def by (intro exI [of _ as] exI [of _ "bs @ [m]"]) auto
  next
    assume "msg_role m = RoleAssistant" "a = m"
    then show ?l unfolding open_response_def by (intro exI [of _ ms] exI [of _ "[]"]) simp
  qed
qed

definition continuity_ok :: "message list \<Rightarrow> continuity \<Rightarrow> bool" where
  "continuity_ok ms st \<longleftrightarrow>
     (\<forall>a. cn_previous st = Some a \<longleftrightarrow> open_response ms a)
     \<and> (\<forall>k. k \<in> set (cn_continuations st) \<longleftrightarrow> (\<exists>as m bs a. ms = as @ m # bs \<and> msg_id m = k \<and> msg_role m = RoleAssistant
          \<and> open_response as a \<and> msg_session_id a = msg_session_id m))"

lemma assistant_no_break [simp]: "msg_role m = RoleAssistant \<Longrightarrow> \<not> breaks_response m"
  by (simp add: breaks_response_def)

lemma split_snoc:
  "(\<exists>as m' bs a. ms @ [m] = as @ m' # bs \<and> P as m' a) \<longleftrightarrow> (\<exists>a. P ms m a) \<or> (\<exists>as m' bs a. ms = as @ m' # bs \<and> P as m' a)"
  (is "?l \<longleftrightarrow> ?r")
proof
  assume ?l
  then obtain as m' bs a where s: "ms @ [m] = as @ m' # bs" "P as m' a" by blast
  then show ?r by (cases bs rule: rev_cases) auto
next
  assume ?r
  then show ?l
  proof (elim disjE exE conjE)
    fix as m' bs a assume "ms = as @ m' # bs" "P as m' a"
    then have "ms @ [m] = as @ m' # (bs @ [m])" by simp
    with \<open>P as m' a\<close> show ?l by blast
  qed blast
qed

lemma continue_message_fields:
  "cn_previous (continuity_step tools handles st m) = cn_previous (continue_message m st)"
  "cn_continuations (continuity_step tools handles st m) = cn_continuations (continue_message m st)"
  by (simp_all add: continuity_step_def Let_def)

lemma previous_in_session_open:
  "continuity_ok ms st \<Longrightarrow> previous_in_session m st = Some a \<longleftrightarrow> open_response ms a \<and> msg_session_id a = msg_session_id m"
proof -
  assume "continuity_ok ms st"
  then have prev: "cn_previous st = Some a \<longleftrightarrow> open_response ms a" for a by (simp add: continuity_ok_def)
  show ?thesis by (auto simp: previous_in_session_def simp flip: prev split: option.splits)
qed

lemma continue_message_previous:
  assumes "continuity_ok ms st"
  shows "cn_previous (continue_message m st) = Some a \<longleftrightarrow> open_response (ms @ [m]) a"
proof (cases "breaks_response m \<or> msg_role m = RoleAssistant")
  case True
  then show ?thesis by (auto simp: continue_message_def open_response_snoc Let_def split: option.splits)
next
  case False
  then have "cn_previous (continue_message m st) = previous_in_session m st"
    by (simp add: continue_message_def Let_def)
  with False previous_in_session_open [OF assms, of m a] show ?thesis by (auto simp: open_response_snoc)
qed

lemma continue_message_continuations:
  assumes "continuity_ok ms st"
  shows "set (cn_continuations (continue_message m st)) = set (cn_continuations st)
    \<union> {k. k = msg_id m \<and> msg_role m = RoleAssistant \<and> (\<exists>a. open_response ms a \<and> msg_session_id a = msg_session_id m)}"
proof (cases "previous_in_session m st")
  case None
  then have "\<not> (\<exists>a. open_response ms a \<and> msg_session_id a = msg_session_id m)"
    using previous_in_session_open [OF assms, of m] by simp
  with None show ?thesis by (auto simp: continue_message_def Let_def)
next
  case (Some a)
  then have "\<exists>a. open_response ms a \<and> msg_session_id a = msg_session_id m"
    using previous_in_session_open [OF assms, of m] by blast
  with Some show ?thesis by (auto simp: continue_message_def Let_def)
qed

lemma continuity_step_ok:
  assumes "continuity_ok ms st"
  shows "continuity_ok (ms @ [m]) (continuity_step tools handles st m)"
proof -
  have "k \<in> set (cn_continuations (continue_message m st)) \<longleftrightarrow> (\<exists>as m' bs a. ms @ [m] = as @ m' # bs \<and> msg_id m' = k
      \<and> msg_role m' = RoleAssistant \<and> open_response as a \<and> msg_session_id a = msg_session_id m')" for k
    using assms unfolding continue_message_continuations [OF assms] split_snoc [of ms m "\<lambda>as m' a. msg_id m' = k
      \<and> msg_role m' = RoleAssistant \<and> open_response as a \<and> msg_session_id a = msg_session_id m'"] continuity_ok_def
    by blast
  with continue_message_previous [OF assms] show ?thesis
    unfolding continuity_ok_def continue_message_fields by blast
qed

lemma continuity_ok_all:
  "continuity_ok ms st \<Longrightarrow> continuity_ok (ms @ ns) (foldl (continuity_step tools handles) st ns)"
proof (induction ns arbitrary: ms st)
  case (Cons n ns)
  from Cons.IH [OF continuity_step_ok [OF Cons.prems]] show ?case by simp
qed simp

text \<open>
  A response continues another exactly when it should: a message is among the continuations
  if and only if it is a response, and before it stands a response of its session with nothing
  between them but messages of that session that carry harness injections only.
\<close>
lemma continuations_are_exact:
  "k \<in> set (snd (conversationResponseContinuity messages tools processes)) \<longleftrightarrow>
     (\<exists>as m bs a. messages = as @ m # bs \<and> msg_id m = k \<and> msg_role m = RoleAssistant
        \<and> open_response as a \<and> msg_session_id a = msg_session_id m)"
proof -
  have "continuity_ok [] \<lparr>cn_previous = None, cn_continued = [], cn_continuations = []\<rparr>"
    by (simp add: continuity_ok_def)
  from continuity_ok_all [OF this, of messages tools "running_handles processes"] show ?thesis
    by (simp add: continuity_ok_def conversationResponseContinuity_def Let_def)
qed

section \<open>Lemmas: projections\<close>

lemma relabel_id [simp]: "blk_id (relabel l b) = blk_id b"
  by (simp add: relabel_def split: block_body.splits)

text \<open>Naming the choices of a person changes no identity and nothing but the text of such messages.\<close>

lemma action_projection_keeps_the_rest:
  "map msg_id (projectA2UIActionMessages e ms) = map msg_id (filter (\<lambda>m. \<not> action_receipt m) ms)"
  "m \<in> set ms \<Longrightarrow> \<not> action_receipt m \<Longrightarrow> \<not> action_message m \<Longrightarrow> m \<in> set (projectA2UIActionMessages e ms)"
  "map (map blk_id \<circ> msg_blocks) (projectA2UIActionMessages e ms) = map (map blk_id \<circ> msg_blocks) (filter (\<lambda>m. \<not> action_receipt m) ms)"
  by (auto simp: projectA2UIActionMessages_def comp_def image_iff)

text \<open>An App response names an App of the transcript and the message that carried it.\<close>

definition owned_responses :: "app_table \<Rightarrow> (string \<times> app_response) list \<Rightarrow> bool" where
  "owned_responses apps rs \<longleftrightarrow> (\<forall>k r. map_of rs k = Some r \<longrightarrow>
     ar_messageId r = k \<and> map_of apps (ar_appInstanceId r) = Some (ar_sourceServer r, ar_toolName r))"

lemma owned_responses_add:
  "owned_responses apps rs \<Longrightarrow> owned_responses apps
     (case mcpAppResponseForMessage m apps of Some r \<Rightarrow> map_set rs (msg_id m) r | None \<Rightarrow> rs)"
proof (cases "mcpAppResponseForMessage m apps")
  case (Some r)
  then have "ar_messageId r = msg_id m \<and> map_of apps (ar_appInstanceId r) = Some (ar_sourceServer r, ar_toolName r)"
    by (auto simp: mcpAppResponseForMessage_def split: if_splits option.splits js_value.splits)
  moreover assume "owned_responses apps rs"
  ultimately show ?thesis unfolding owned_responses_def Some option.case map_of_map_set by (metis option.inject)
qed simp

lemma app_responses_are_owned: "owned_responses (transcript_apps ms) (mcpAppResponsesForMessages ms)"
proof -
  have "owned_responses apps rs \<Longrightarrow> owned_responses apps (foldl (\<lambda>rs m. case mcpAppResponseForMessage m apps of
       Some r \<Rightarrow> map_set rs (msg_id m) r | None \<Rightarrow> rs) rs ns)" for apps rs ns
    by (induction ns arbitrary: rs) (simp_all only: foldl.simps owned_responses_add)
  moreover have "owned_responses (transcript_apps ms) []" by (simp add: owned_responses_def)
  ultimately show ?thesis unfolding mcpAppResponsesForMessages_def by blast
qed

end
