(* ===== verification/Js_Multiset.thy ===== *)
theory Js_Multiset
  imports Js_Object "HOL-Library.Multiset"
begin

text \<open>What sorting and grouping keep: the elements, however often each occurs.\<close>

lemma mset_insert_by [simp]: "mset (insert_by cmp x xs) = add_mset x (mset xs)"
  by (induction xs) auto

lemma mset_js_sort [simp]: "mset (js_sort cmp xs) = mset xs"
  by (induction xs) auto

text \<open>An element added to the group of its key; the map of groups is a language \<open>Map\<close> of arrays.\<close>

lemma mset_concat_map_set:
  "mset (concat (map snd (map_set g k v))) + mset (coalesce (map_of g k) []) = mset (concat (map snd g)) + mset v"
  by (induction g k v rule: map_set.induct) (auto simp: coalesce_def)

lemma mset_group_add:
  "mset (concat (map snd (map_set g k (coalesce (map_of g k) [] @ [x])))) = add_mset x (mset (concat (map snd g)))"
proof -
  have "mset (concat (map snd (map_set g k (coalesce (map_of g k) [] @ [x])))) + mset (coalesce (map_of g k) [])
      = add_mset x (mset (concat (map snd g))) + mset (coalesce (map_of g k) [])"
    using mset_concat_map_set [of g k "coalesce (map_of g k) [] @ [x]"] by simp
  then show ?thesis by simp
qed

end
