(* ===== verification/Conversation_Page.thy ===== *)
theory Conversation_Page
  imports Message_Projection Js_Multiset
begin

text \<open>
  The page of a conversation (\<open>web/src/components/clio/conversation.tsx\<close>): the placement of the
  feedback a person gave while a turn ran (\<open>conversation-feedback.ts\<close>), of standalone harness
  entries (\<open>conversation-injection-placement.ts\<close>), of running compactions
  (\<open>conversation-compaction-placement.ts\<close>) and of model changes
  (\<open>conversation-model-boundaries.ts\<close>), and their composition with the projections and the
  turn views.
\<close>

section \<open>Feedback\<close>

text \<open>The response and the part a server receipt names.\<close>

definition steer_delivery :: "message \<Rightarrow> (string \<times> string) option" where
  "steer_delivery m = (case metadata_field m ''steer_delivery'' of
       Some (JObj d) \<Rightarrow> (case (obj_get d ''assistant_message_id'', obj_get d ''after_part_id'') of
           (Some (JStr owner), Some (JStr part)) \<Rightarrow> Some (owner, part) | _ \<Rightarrow> None)
     | _ \<Rightarrow> None)"

definition message_owners :: "message list \<Rightarrow> (string \<times> message) list" where
  "message_owners ms = foldl (\<lambda>m x. map_set m (msg_id x) x) [] ms"

definition feedback_owner :: "(string \<times> message) list \<Rightarrow> message \<Rightarrow> message option" where
  "feedback_owner owners m =
     (if msg_role m \<noteq> RoleUser then None
      else case steer_delivery m of
        None \<Rightarrow> None
      | Some (k, part) \<Rightarrow> (case map_of owners k of
          None \<Rightarrow> None
        | Some own \<Rightarrow> if msg_role own \<noteq> RoleAssistant \<or> (part \<noteq> [] \<and> \<not> list_ex (\<lambda>b. blk_id b = part) (msg_blocks own))
            then None else Some own))"

definition place_feedback_row ::
  "(string \<times> message) list \<Rightarrow> (string \<times> message list) list \<times> string list \<Rightarrow> message \<Rightarrow> (string \<times> message list) list \<times> string list" where
  "place_feedback_row owners = (\<lambda>(feedback, placed) m. case feedback_owner owners m of
       None \<Rightarrow> (feedback, placed)
     | Some own \<Rightarrow> (map_set feedback (msg_id own) (coalesce (map_of feedback (msg_id own)) [] @ [m]), msg_id m # placed))"

definition placeDeliveredFeedback :: "message list \<Rightarrow> message list \<times> (string \<times> message list) list" where
  "placeDeliveredFeedback ms =
     (case foldl (place_feedback_row (message_owners ms)) ([], []) ms of (feedback, placed) \<Rightarrow>
        (filter (\<lambda>m. msg_id m \<notin> set placed) ms, feedback))"

section \<open>Standalone harness entries\<close>

definition harness_entry :: "message \<Rightarrow> bool" where
  "harness_entry m \<longleftrightarrow> msg_role m = RoleSystem \<and> msg_blocks m \<noteq> [] \<and> \<not> list_ex isParentDelegation (msg_blocks m)
     \<and> list_all (\<lambda>b. injection_source (blk_body b) \<noteq> None) (msg_blocks m)"

fun place_injections :: "message list \<Rightarrow> message list \<Rightarrow> (string \<times> message list) list \<times> string list \<Rightarrow> (string \<times> message list) list \<times> string list" where
  "place_injections waiting [] acc = acc"
| "place_injections waiting (m # ms) (before, grouped) =
     (let pending = (case waiting of w # _ \<Rightarrow> if msg_session_id w \<noteq> msg_session_id m then [] else waiting | [] \<Rightarrow> [])
      in if harness_entry m then place_injections (pending @ [m]) ms (before, grouped)
         else if msg_role m = RoleAssistant \<and> pending \<noteq> []
         then place_injections [] ms (map_set before (msg_id m) pending, rev (map msg_id pending) @ grouped)
         else place_injections [] ms (before, grouped))"

definition placeHarnessInjections :: "message list \<Rightarrow> (string \<times> message list) list \<times> string list" where
  "placeHarnessInjections ms = place_injections [] ms ([], [])"

section \<open>Running compactions\<close>

definition recorded_outcomes :: "message list \<Rightarrow> string list" where
  "recorded_outcomes ms = concat (map (\<lambda>b. case blk_body b of
       InjectionBlock source _ _ _ compaction _ _ \<Rightarrow>
         if source = ''summarization'' \<and> truthy_str compaction then [coalesce compaction []] else []
     | NoticeBlock source _ _ _ compaction _ \<Rightarrow>
         if source = ''compaction_failed'' \<and> truthy_str compaction then [coalesce compaction []] else []
     | _ \<Rightarrow> []) (concat (map msg_blocks ms)))"

definition part_resident :: "message list \<Rightarrow> pending_compaction \<Rightarrow> bool" where
  "part_resident ms c = (if truthy_str (pc_part_id c)
     then (if truthy_str (pc_message_id c)
       then coalesce (pc_message_id c) [] @ nul @ coalesce (pc_part_id c) []
         \<in> set (concat (map (\<lambda>m. map (\<lambda>b. msg_id m @ nul @ blk_id b) (msg_blocks m)) ms))
       else coalesce (pc_part_id c) [] \<in> set (map blk_id (concat (map msg_blocks ms))))
     else False)"

definition compaction_shown :: "message list \<Rightarrow> pending_compaction \<Rightarrow> bool" where
  "compaction_shown ms c \<longleftrightarrow> pc_compaction_id c \<notin> set (recorded_outcomes ms) \<and> \<not> part_resident ms c"

definition place_compaction ::
  "message list \<Rightarrow> (string \<times> pending_compaction list) list \<times> pending_compaction list \<Rightarrow> pending_compaction \<Rightarrow>
     (string \<times> pending_compaction list) list \<times> pending_compaction list" where
  "place_compaction ms = (\<lambda>(byMessage, trailing) c.
     if \<not> compaction_shown ms c then (byMessage, trailing)
     else let anchor = coalesce (pc_anchor_message_id c) []
       in if anchor \<noteq> [] \<and> anchor \<in> set (map msg_id ms)
          then (map_set byMessage anchor (coalesce (map_of byMessage anchor) [] @ [c]), trailing)
          else (byMessage, trailing @ [c]))"

text \<open>The comparison of the start times is the locale's.\<close>

definition placeCompactions ::
  "(string \<Rightarrow> string \<Rightarrow> int) \<Rightarrow> pending_compaction list \<Rightarrow> message list \<Rightarrow> (string \<times> pending_compaction list) list \<times> pending_compaction list" where
  "placeCompactions compare compactions ms = foldl (place_compaction ms) ([], [])
     (js_sort (\<lambda>a b. compare (pc_started_at a) (pc_started_at b)) compactions)"

section \<open>Model changes\<close>

type_synonym model_name = "(string \<times> string) option"

definition transport_record :: "message \<Rightarrow> bool" where
  "transport_record m \<longleftrightarrow> msg_role m = RoleSystem \<or> msg_role m = RoleUnknown
     \<or> js_truthy (metadata_field m ''ask_user_resume'') \<or> js_truthy (metadata_field m ''plan_exit_resume'')
     \<or> js_truthy (metadata_field m ''mcp_app_response'')"

definition model_boundary_step ::
  "(string \<times> model_name \<times> model_name) list \<times> model_name \<Rightarrow> message \<Rightarrow> (string \<times> model_name \<times> model_name) list \<times> model_name" where
  "model_boundary_step = (\<lambda>(boundaries, previous) m.
     if transport_record m \<or> (msg_role m = RoleAssistant \<and> msg_model m = None) \<or> msg_model m = previous
     then (boundaries, previous)
     else (map_set boundaries (msg_id m) (msg_model m, previous), msg_model m))"

definition conversationModelBoundaries :: "message list \<Rightarrow> (string \<times> model_name \<times> model_name) list" where
  "conversationModelBoundaries ms = fst (foldl model_boundary_step ([], None) ms)"

type_synonym model_boundary = "model_name \<times> model_name"

definition modelBoundariesEqual :: "model_boundary option \<Rightarrow> model_boundary option \<Rightarrow> bool" where
  "modelBoundariesEqual left right \<longleftrightarrow>
     (left \<noteq> None \<longleftrightarrow> right \<noteq> None)
     \<and> map_option fst (Option.bind left fst) = map_option fst (Option.bind right fst)
     \<and> map_option snd (Option.bind left fst) = map_option snd (Option.bind right fst)
     \<and> map_option fst (Option.bind left snd) = map_option fst (Option.bind right snd)
     \<and> map_option snd (Option.bind left snd) = map_option snd (Option.bind right snd)"

lemma model_names_equal: "map_option fst a = map_option fst b \<Longrightarrow> map_option snd a = map_option snd b \<Longrightarrow> a = b"
  by (cases a; cases b) (auto simp: prod_eq_iff)

lemma modelBoundariesEqual_iff: "modelBoundariesEqual left right \<longleftrightarrow> left = right"
proof
  assume e: "modelBoundariesEqual left right"
  show "left = right"
  proof (cases left)
    case (Some l)
    with e obtain r where r: "right = Some r" by (auto simp: modelBoundariesEqual_def)
    with e Some model_names_equal [of "fst l" "fst r"] model_names_equal [of "snd l" "snd r"] show ?thesis
      by (auto simp: modelBoundariesEqual_def prod_eq_iff)
  next
    case None
    with e show ?thesis by (cases right) (auto simp: modelBoundariesEqual_def)
  qed
qed (simp add: modelBoundariesEqual_def)

section \<open>The page\<close>

record page_context =
  pg_text :: text_env
  pg_label :: label_env
  pg_compare :: "string \<Rightarrow> string \<Rightarrow> int"
  pg_tools :: "tool_invocation obj"
  pg_tasks :: "task obj"
  pg_processes :: "async_process list"
  pg_interactions :: "pending_interaction list option"
  pg_compactions :: "pending_compaction list"
  pg_fullTurns :: "string list"

definition projected_messages :: "page_context \<Rightarrow> message list \<Rightarrow> message list" where
  "projected_messages g source = foldSubagentReturns (foldA2UIRevisionBlocks (projectA2UIActionMessages (pg_label g)
     (filter (\<lambda>m. \<not> isProjectionOnlyA2UIMessage m \<and> \<not> isProjectedQuestionResumeEnvelope m (pg_interactions g)) source)))"

definition page_messages :: "page_context \<Rightarrow> message list \<Rightarrow> message list" where
  "page_messages g source = fst (placeDeliveredFeedback (projected_messages g source))"

definition page_placement :: "page_context \<Rightarrow> message list \<Rightarrow> placement_context" where
  "page_placement g source =
     (let messages = page_messages g source
      in \<lparr>pl_env = pg_text g, pl_tools = pg_tools g, pl_tasks = pg_tasks g,
          pl_feedback = snd (placeDeliveredFeedback (projected_messages g source)),
          pl_injections = fst (placeHarnessInjections messages),
          pl_continuations = snd (conversationResponseContinuity messages (pg_tools g) (pg_processes g)),
          pl_boundaries = map fst (conversationModelBoundaries messages) @ pg_fullTurns g
            @ map fst (fst (placeCompactions (pg_compare g) (pg_compactions g) messages))\<rparr>)"

definition activity_placement :: "page_context \<Rightarrow> message list \<Rightarrow> (string \<times> turn_presentation) list" where
  "activity_placement g source = placeContinuedActivity (page_placement g source) (page_messages g source)"

text \<open>What the responses of the page show, from first to last.\<close>

definition page_entries :: "page_context \<Rightarrow> message list \<Rightarrow> turn_entry list" where
  "page_entries g source = concat (map (placed_entries (page_placement g source) (activity_placement g source))
     (filter is_assistant (page_messages g source)))"

section \<open>Lemmas: feedback\<close>

lemma message_owners_in:
  "map_of (message_owners ms) k = Some own \<Longrightarrow> own \<in> set ms \<and> msg_id own = k"
proof -
  have "map_of (foldl (\<lambda>m x. map_set m (msg_id x) x) o1 ms) k = Some own \<Longrightarrow>
      map_of o1 k = Some own \<or> (own \<in> set ms \<and> msg_id own = k)" for o1
    by (induction ms arbitrary: o1) (fastforce simp: map_of_map_set split: if_splits)+
  from this [of "[]"] show "map_of (message_owners ms) k = Some own \<Longrightarrow> ?thesis" by (simp add: message_owners_def)
qed

lemma feedback_rows:
  "foldl (place_feedback_row owners) ([], []) ms = (feedback, placed) \<Longrightarrow>
     set placed = msg_id ` {m \<in> set ms. feedback_owner owners m \<noteq> None}
     \<and> (\<forall>k. coalesce (map_of feedback k) [] = filter (\<lambda>m. map_option msg_id (feedback_owner owners m) = Some k) ms)"
proof (induction ms arbitrary: feedback placed rule: rev_induct)
  case (snoc m ms)
  obtain f p where fp: "foldl (place_feedback_row owners) ([], []) ms = (f, p)" by force
  note ih = snoc.IH [OF fp]
  show ?case
  proof (cases "feedback_owner owners m")
    case None
    with snoc.prems fp ih show ?thesis by (auto simp: place_feedback_row_def)
  next
    case (Some own)
    with snoc.prems fp have "feedback = map_set f (msg_id own) (coalesce (map_of f (msg_id own)) [] @ [m])" "placed = msg_id m # p"
      by (auto simp: place_feedback_row_def)
    with Some ih show ?thesis by (auto simp: map_of_map_set)
  qed
qed simp

lemma feedback_owner_part:
  "feedback_owner owners m = Some own \<Longrightarrow> msg_role m = RoleUser \<and> msg_role own = RoleAssistant
     \<and> (\<exists>part. after_part_id m = Some part \<and> (part = [] \<or> part \<in> blk_id ` set (msg_blocks own))) \<and> (\<exists>k. map_of owners k = Some own)"
  by (auto simp: feedback_owner_def steer_delivery_def metadata_field_def after_part_id_def list_ex_iff Option.bind_eq_Some_conv
      split: if_splits option.splits js_value.splits)

lemma own_entries_feedback:
  assumes "r \<in> set (coalesce (map_of (pl_feedback p) (msg_id own)) [])" "after_part_id r = Some part"
    and "part = [] \<or> part \<in> blk_id ` set (msg_blocks own)"
  shows "FeedbackEntry r \<in> set (own_entries p own)"
proof -
  let ?c = "\<lparr>cx_env = pl_env p, cx_message = own, cx_tools = pl_tools p, cx_tasks = pl_tasks p,
    cx_feedback = coalesce (map_of (pl_feedback p) (msg_id own)) []\<rparr>"
  let ?inj = "coalesce (map_of (pl_injections p) (msg_id own)) []"
  have "part \<in> set ([] # map blk_id (ordered_parts (cx_message ?c) ?inj))"
    using assms(3) by (auto simp: ordered_parts_def message_parts_def)
  moreover have "FeedbackEntry r \<in> set (feedback_entries ?c part)"
    using assms(1,2) by (simp add: feedback_entries_def)
  ultimately have "FeedbackEntry r \<in> set (concat (map (feedback_entries ?c) ([] # map blk_id (ordered_parts (cx_message ?c) ?inj))))"
    by auto
  then have "FeedbackEntry r \<in> set (filter is_feedback (own_entries p own))"
    unfolding own_entries_def own_presentation_def view_feedback .
  then show ?thesis by simp
qed

section \<open>Lemmas: harness entries\<close>

text \<open>What a part of a harness entry shows.\<close>

definition injection_entries :: "message_block \<Rightarrow> turn_entry list" where
  "injection_entries b =
     (if transport_only b then []
      else if injection_source (blk_body b) = Some PLUGIN_CHANGE_INJECTION_SOURCE then [BlockEntry b]
      else [LaneEntry KInjection (blk_id b)])"

lemma harness_block:
  assumes "harness_entry m" "b \<in> set (msg_blocks m)"
  obtains source tx c1 trigger c2 variants n where "blk_body b = InjectionBlock source tx c1 trigger c2 variants n"
    "\<And>c. block_entries c b = injection_entries b"
proof -
  from assms have i: "injection_source (blk_body b) \<noteq> None" and d: "\<not> isParentDelegation b"
    by (auto simp: harness_entry_def list_all_iff list_ex_iff)
  from i obtain source tx c1 trigger c2 variants n where "blk_body b = InjectionBlock source tx c1 trigger c2 variants n"
    by (cases "blk_body b") auto
  with that d show thesis by (simp add: block_entries_def injection_entries_def)
qed

text \<open>
  The row \<open>r\<close> is grouped with the response \<open>own\<close>: between the two stand only harness entries,
  all of them of the response's session, and the row is one of those noted for the response.
\<close>

definition grouped_with :: "(string \<times> message list) list \<Rightarrow> message list \<Rightarrow> message \<Rightarrow> message \<Rightarrow> bool" where
  "grouped_with before ms r own \<longleftrightarrow>
     (\<exists>as hs bs. ms = as @ r # hs @ own # bs \<and> list_all harness_entry (r # hs)
        \<and> list_all (\<lambda>h. msg_session_id h = msg_session_id own) (r # hs)) \<and> is_assistant own
     \<and> r \<in> set (coalesce (map_of before (msg_id own)) [])"

lemma grouped_with_later: "grouped_with before ms r own \<Longrightarrow> grouped_with before (pre @ ms) r own"
  unfolding grouped_with_def by (metis append.assoc)

lemma place_injections_other_keys:
  "place_injections waiting ms (before, grouped) = (before', grouped') \<Longrightarrow> k \<notin> msg_id ` set ms \<Longrightarrow> map_of before' k = map_of before k"
  by (induction waiting ms "(before, grouped)" arbitrary: before grouped rule: place_injections.induct)
    (auto simp: Let_def map_of_map_set split: if_splits)

definition waits_together :: "message list \<Rightarrow> bool" where
  "waits_together waiting \<longleftrightarrow> list_all harness_entry waiting
     \<and> list_all (\<lambda>h. msg_session_id h = msg_session_id (hd waiting)) waiting"

lemma place_injections_grouped:
  assumes "place_injections waiting ms (before, grouped) = (before', grouped')" "distinct (map msg_id ms)"
    and "waits_together waiting" and "k \<in> set grouped'"
  shows "k \<in> set grouped \<or> (\<exists>r own. msg_id r = k \<and> grouped_with before' (waiting @ ms) r own)"
  using assms
proof (induction waiting ms "(before, grouped)" arbitrary: before grouped rule: place_injections.induct)
  case (2 waiting m ms before grouped)
  define pending where "pending = (case waiting of w # _ \<Rightarrow> if msg_session_id w \<noteq> msg_session_id m then [] else waiting | [] \<Rightarrow> [])"
  have pend: "pending = [] \<or> (pending = waiting \<and> waiting \<noteq> [] \<and> msg_session_id (hd waiting) = msg_session_id m)"
    by (auto simp: pending_def split: list.splits)
  have split: "\<exists>pre. waiting @ m # ms = pre @ (pending @ [m]) @ ms" "\<exists>pre. waiting @ m # ms = pre @ [] @ ms"
    using pend by (auto intro: exI [of _ waiting] exI [of _ "waiting @ [m]"])
  note eq = 2(4) [unfolded place_injections.simps Let_def pending_def [symmetric]]
  consider (entry) "harness_entry m" | (owner) "\<not> harness_entry m" "is_assistant m" "pending \<noteq> []"
    | (other) "\<not> harness_entry m" "\<not> (is_assistant m \<and> pending \<noteq> [])" by blast
  then show ?case
  proof cases
    case entry
    with eq have r: "place_injections (pending @ [m]) ms (before, grouped) = (before', grouped')" by simp
    have w: "waits_together (pending @ [m])"
      using pend 2(6) entry by (auto simp: waits_together_def list_all_iff)
    have "k \<in> set grouped \<or> (\<exists>r own. msg_id r = k \<and> grouped_with before' ((pending @ [m]) @ ms) r own)"
      using 2(1) [OF pending_def entry r _ w 2(7)] 2(5) by simp
    then show ?thesis using split(1) grouped_with_later by metis
  next
    case owner
    then have r: "place_injections [] ms (map_set before (msg_id m) pending, rev (map msg_id pending) @ grouped) = (before', grouped')"
      using eq by (simp add: is_assistant_def)
    have noted: "map_of before' (msg_id m) = Some pending"
      using place_injections_other_keys [OF r, of "msg_id m"] 2(5) by (simp add: map_of_map_set)
    have here: "grouped_with before' (waiting @ m # ms) x m" if x: "x \<in> set pending" for x
    proof -
      from x obtain as hs where w: "pending = as @ x # hs" by (meson split_list)
      moreover have "pending = waiting" "msg_session_id (hd waiting) = msg_session_id m" using pend owner(3) by auto
      ultimately have "waiting @ m # ms = as @ x # hs @ m # ms \<and> list_all harness_entry (x # hs)
          \<and> list_all (\<lambda>h. msg_session_id h = msg_session_id m) (x # hs)"
        using 2(6) unfolding waits_together_def by (auto simp: list_all_iff)
      then show ?thesis using owner(2) noted x unfolding grouped_with_def by auto
    qed
    have "k \<in> set (rev (map msg_id pending) @ grouped) \<or> (\<exists>r own. msg_id r = k \<and> grouped_with before' ([] @ ms) r own)"
      using 2(2) [OF pending_def owner(1) _ r] owner 2(5,7) by (simp add: is_assistant_def waits_together_def)
    then consider "k \<in> set grouped" | x where "x \<in> set pending" "msg_id x = k"
      | r own where "msg_id r = k" "grouped_with before' ([] @ ms) r own" by auto
    then show ?thesis
    proof cases
      case 2
      with here show ?thesis by blast
    next
      case 3
      with split(2) grouped_with_later show ?thesis by metis
    qed blast
  next
    case other
    then have r: "place_injections [] ms (before, grouped) = (before', grouped')"
      using eq by (auto simp: is_assistant_def)
    have "k \<in> set grouped \<or> (\<exists>r own. msg_id r = k \<and> grouped_with before' ([] @ ms) r own)"
      using 2(3) [OF pending_def other(1) _ r] other 2(5,7) by (simp add: is_assistant_def waits_together_def)
    then show ?thesis using split(2) grouped_with_later by metis
  qed
qed simp

lemma own_entries_injection:
  assumes "r \<in> set (coalesce (map_of (pl_injections p) (msg_id own)) [])" "harness_entry r" "b \<in> set (msg_blocks r)"
  shows "set (injection_entries b) \<subseteq> set (own_entries p own)"
proof -
  let ?c = "\<lparr>cx_env = pl_env p, cx_message = own, cx_tools = pl_tools p, cx_tasks = pl_tasks p,
    cx_feedback = coalesce (map_of (pl_feedback p) (msg_id own)) []\<rparr>"
  let ?inj = "coalesce (map_of (pl_injections p) (msg_id own)) []"
  obtain source tx c1 trigger c2 variants n where b: "blk_body b = InjectionBlock source tx c1 trigger c2 variants n"
    and e: "block_entries ?c b = injection_entries b" using harness_block [OF assms(2,3)] by metis
  have "b \<in> set (ordered_parts (cx_message ?c) ?inj)" using assms(1,3) by (auto simp: ordered_parts_def)
  from view_shows_injection [OF b this] show ?thesis by (simp add: own_entries_def own_presentation_def e)
qed

section \<open>Lemmas: compactions and models\<close>

text \<open>Every running compaction without a recorded outcome is shown once; those of one place keep their order.\<close>

lemma compactions_are_placed_once:
  assumes "placeCompactions compare cs ms = (byMessage, trailing)"
  shows "mset (concat (map snd byMessage) @ trailing) = mset (filter (compaction_shown ms) cs)"
proof -
  have "distinct (map fst b) \<Longrightarrow> foldl (place_compaction ms) (b, t) cs = (b', t') \<Longrightarrow>
      mset (concat (map snd b') @ t') = mset (concat (map snd b) @ t) + mset (filter (compaction_shown ms) cs)" for b t b' t' cs
  proof (induction cs arbitrary: b t)
    case (Cons c cs)
    obtain b1 t1 where 1: "place_compaction ms (b, t) c = (b1, t1)" by force
    then have "distinct (map fst b1)"
      and "mset (concat (map snd b1) @ t1) = mset (concat (map snd b) @ t) + (if compaction_shown ms c then {#c#} else {#})"
      using Cons.prems(1) by (auto simp: place_compaction_def Let_def mset_group_add distinct_map_set split: if_splits)
    with Cons 1 show ?case by simp
  qed simp
  from this [of "[]" "[]"] assms show ?thesis
    by (simp add: placeCompactions_def mset_filter)
qed

text \<open>A boundary stands only where the model changes.\<close>

lemma model_boundaries_are_changes:
  assumes "map_of (conversationModelBoundaries ms) k = Some (model, previous)"
  shows "model \<noteq> previous \<and> (\<exists>m \<in> set ms. msg_id m = k \<and> msg_model m = model)"
proof -
  have "map_of (fst (foldl model_boundary_step (b, p) ms)) k = Some (model, previous) \<Longrightarrow>
      map_of b k = Some (model, previous) \<or> (model \<noteq> previous \<and> (\<exists>m \<in> set ms. msg_id m = k \<and> msg_model m = model))" for b p
  proof (induction ms arbitrary: b p)
    case (Cons m ms)
    obtain b1 p1 where 1: "model_boundary_step (b, p) m = (b1, p1)" by force
    then have "map_of b1 k = Some (model, previous) \<Longrightarrow>
        map_of b k = Some (model, previous) \<or> (model \<noteq> previous \<and> msg_id m = k \<and> msg_model m = model)"
      by (auto simp: model_boundary_step_def map_of_map_set split: if_splits)
    with Cons.IH [of b1 p1] Cons.prems 1 show ?case by auto
  qed simp
  from this [of "[]"] assms show ?thesis by (simp add: conversationModelBoundaries_def)
qed

section \<open>Properties\<close>

lemma projected_ids:
  "distinct (map msg_id source) \<Longrightarrow> distinct (map msg_id (projected_messages g source))"
  by (simp add: projected_messages_def folded_ids action_projection_keeps_the_rest(1) distinct_map_filter)

lemma page_messages_distinct: "distinct (map msg_id source) \<Longrightarrow> distinct (map msg_id (page_messages g source))"
  by (auto simp: page_messages_def placeDeliveredFeedback_def projected_ids distinct_map_filter split: prod.splits)

text \<open>Where an entry of a response stands on the page.\<close>

definition stands_on_page :: "page_context \<Rightarrow> message list \<Rightarrow> message \<Rightarrow> turn_entry \<Rightarrow> bool" where
  "stands_on_page g source own e \<longleftrightarrow>
     stands_with (page_placement g source) (activity_placement g source)
       (filter is_assistant (page_messages g source)) own e"

lemma own_entry_on_page:
  assumes "distinct (map msg_id source)" "own \<in> set (page_messages g source)" "is_assistant own"
    and "e \<in> set (own_entries (page_placement g source) own)"
  shows "stands_on_page g source own e"
proof -
  have "distinct (map msg_id (filter is_assistant (page_messages g source)))"
    using page_messages_distinct [OF assms(1)] by (simp add: distinct_map_filter)
  from entries_stand_with_their_response [OF this, of "page_placement g source"] assms(2-4) show ?thesis
    by (simp add: stands_on_page_def all_stand_def activity_placement_def)
qed

text \<open>A response with feedback is never joined to an earlier one.\<close>

lemma stands_with_feedback:
  assumes "stands_with p ps ms own e" "map_of (pl_feedback p) (msg_id own) \<noteq> None"
  shows "e \<in> set (placed_entries p ps own)"
proof (rule ccontr)
  assume "\<not> ?thesis"
  with assms(1) obtain x mid where "successively (continues_previous p) ((x # mid) @ [own])"
    by (auto simp: stands_with_def)
  then have "continues_previous p (last (x # mid)) own" by (auto simp only: successively_append_iff list.sel)
  with assms(2) show False by (simp add: continues_previous_def)
qed

lemma delivered_feedback_on_page:
  assumes d: "distinct (map msg_id source)" and m: "m \<in> set (projected_messages g source)" "m \<notin> set (page_messages g source)"
  shows "\<exists>own part. own \<in> set (page_messages g source) \<and> is_assistant own \<and> steer_delivery m = Some (msg_id own, part)
    \<and> FeedbackEntry m \<in> set (placed_entries (page_placement g source) (activity_placement g source) own)"
proof -
  let ?ms = "projected_messages g source"
  obtain feedback placed where f: "foldl (place_feedback_row (message_owners ?ms)) ([], []) ?ms = (feedback, placed)" by force
  have page: "page_messages g source = filter (\<lambda>m. msg_id m \<notin> set placed) ?ms" and fb: "pl_feedback (page_placement g source) = feedback"
    by (simp_all add: page_messages_def page_placement_def placeDeliveredFeedback_def f Let_def)
  note rows = feedback_rows [OF f]
  from m page have "msg_id m \<in> set placed" by auto
  with rows obtain m' where "m' \<in> set ?ms" "msg_id m' = msg_id m" "feedback_owner (message_owners ?ms) m' \<noteq> None" by auto
  with distinct_map_inj [OF projected_ids [OF d] _ m(1)] obtain own where own: "feedback_owner (message_owners ?ms) m = Some own" by auto
  from feedback_owner_part [OF own] obtain part where part: "after_part_id m = Some part" "part = [] \<or> part \<in> blk_id ` set (msg_blocks own)"
    and role: "msg_role own = RoleAssistant" by auto
  from own obtain k after where k: "steer_delivery m = Some (k, after)" "map_of (message_owners ?ms) k = Some own"
    by (auto simp: feedback_owner_def split: if_splits option.splits)
  have "own \<in> set ?ms" "msg_id own = k" using message_owners_in [OF k(2)] by simp_all
  moreover have "msg_id own \<notin> set placed"
  proof
    assume "msg_id own \<in> set placed"
    with rows obtain x where "x \<in> set ?ms" "msg_id x = msg_id own" "feedback_owner (message_owners ?ms) x \<noteq> None" by auto
    with distinct_map_inj [OF projected_ids [OF d] _ \<open>own \<in> set ?ms\<close>] have "feedback_owner (message_owners ?ms) own \<noteq> None" by metis
    with role show False by (simp add: feedback_owner_def)
  qed
  ultimately have o: "own \<in> set (page_messages g source)" "is_assistant own" using role by (simp_all add: page is_assistant_def)
  have row: "m \<in> set (coalesce (map_of (pl_feedback (page_placement g source)) (msg_id own)) [])"
    using rows m(1) own by (simp add: fb)
  then have "map_of (pl_feedback (page_placement g source)) (msg_id own) \<noteq> None"
    by (cases "map_of (pl_feedback (page_placement g source)) (msg_id own)") (simp_all add: coalesce_def)
  moreover have "stands_on_page g source own (FeedbackEntry m)"
    using own_entry_on_page [OF d o] own_entries_feedback [OF row part] by blast
  ultimately show ?thesis
    using o k(1) \<open>msg_id own = k\<close> stands_with_feedback unfolding stands_on_page_def by blast
qed

lemma grouped_entry_on_page:
  assumes d: "distinct (map msg_id source)" and m: "m \<in> set (page_messages g source)"
    and g: "msg_id m \<in> set (snd (placeHarnessInjections (page_messages g source)))"
  shows "\<exists>as hs own bs. page_messages g source = as @ m # hs @ own # bs \<and> list_all harness_entry (m # hs)
    \<and> list_all (\<lambda>h. msg_session_id h = msg_session_id own) (m # hs) \<and> is_assistant own
    \<and> (\<forall>b\<in>set (msg_blocks m). \<forall>e\<in>set (injection_entries b). stands_on_page g source own e)"
proof -
  let ?ms = "page_messages g source"
  obtain before grouped where b: "place_injections [] ?ms ([], []) = (before, grouped)" by force
  obtain r own where r: "msg_id r = msg_id m" "grouped_with before ?ms r own"
    using place_injections_grouped [OF b page_messages_distinct [OF d], of "msg_id m"] g
    by (auto simp: placeHarnessInjections_def b waits_together_def)
  from r(2) obtain as hs bs where split: "?ms = as @ r # hs @ own # bs" "list_all harness_entry (r # hs)"
    "list_all (\<lambda>h. msg_session_id h = msg_session_id own) (r # hs)" "is_assistant own"
    and noted: "r \<in> set (coalesce (map_of before (msg_id own)) [])"
    unfolding grouped_with_def by blast
  have "r \<in> set ?ms" "own \<in> set ?ms" by (simp_all add: split(1))
  with distinct_map_inj [OF page_messages_distinct [OF d] _ m r(1)] have "r = m" by simp
  have "r \<in> set (coalesce (map_of (pl_injections (page_placement g source)) (msg_id own)) [])"
    using noted by (simp add: page_placement_def placeHarnessInjections_def b Let_def)
  with own_entries_injection [of r "page_placement g source" own] split(2) own_entry_on_page [OF d \<open>own \<in> set ?ms\<close> split(4)]
  have "\<forall>b\<in>set (msg_blocks r). \<forall>e\<in>set (injection_entries b). stands_on_page g source own e" by auto
  with split show ?thesis unfolding \<open>r = m\<close> by blast
qed

text \<open>
  C5. The page loses no message. When the messages of a session have ids of their own, a message of
  the projected transcript that has no row of its own on the page is shown as feedback inside the
  very response its delivery receipt names. And a harness entry that is grouped stands right
  before a response of its own session, with nothing but other harness entries of that session
  between them, and every part of it that shows anything is shown with that response: inside its
  view or, when the response continues an earlier one and its leading activity has been joined
  there, inside the view of that earlier response, all responses between the two being
  continuations that have nothing left of their own to show.
\<close>
theorem page_loses_no_message:
  assumes "distinct (map msg_id source)" "m \<in> set (projected_messages g source)"
  shows "(m \<notin> set (page_messages g source) \<longrightarrow>
        (\<exists>own part. own \<in> set (page_messages g source) \<and> is_assistant own \<and> steer_delivery m = Some (msg_id own, part)
          \<and> FeedbackEntry m \<in> set (placed_entries (page_placement g source) (activity_placement g source) own)))
    \<and> (m \<in> set (page_messages g source) \<and> msg_id m \<in> set (snd (placeHarnessInjections (page_messages g source))) \<longrightarrow>
        (\<exists>as hs own bs. page_messages g source = as @ m # hs @ own # bs \<and> list_all harness_entry (m # hs)
          \<and> list_all (\<lambda>h. msg_session_id h = msg_session_id own) (m # hs) \<and> is_assistant own
          \<and> (\<forall>b\<in>set (msg_blocks m). \<forall>e\<in>set (injection_entries b). stands_on_page g source own e)))"
  using delivered_feedback_on_page [OF assms] grouped_entry_on_page [OF assms(1)] by blast

definition ex_page :: page_context where
  "ex_page = \<lparr>pg_text = \<lparr>te_lower = id, te_ellipsis = []\<rparr>,
     pg_label = \<lparr>le_parse = (\<lambda>_. Inr JNull), le_showNumber = (\<lambda>_. []), le_upper = (\<lambda>c. [c])\<rparr>,
     pg_compare = (\<lambda>_ _. 0), pg_tools = [], pg_tasks = cx_tasks ex_turn, pg_processes = [], pg_interactions = None,
     pg_compactions = [], pg_fullTurns = []\<rparr>"

lemma ex_projected: "projected_messages ex_page [ex_turn_message, ex_steer] = [ex_turn_message, ex_steer]"
  by (simp add: projected_messages_def ex_page_def ex_steer_def ex_turn_message_def isProjectionOnlyA2UIMessage_def
      isProjectedQuestionResumeEnvelope_def metadata_field_def obj_get_def projectA2UIActionMessages_def action_receipt_def
      action_message_def js_truthy_def message_text_def foldA2UIRevisionBlocks_def foldSubagentReturns_def surface_key_def return_key_def)

theorem page_loses_no_message_witness:
  "FeedbackEntry ex_steer \<in> set (placed_entries (page_placement ex_page [ex_turn_message, ex_steer])
     (activity_placement ex_page [ex_turn_message, ex_steer]) ex_turn_message)"
proof -
  have d: "distinct (map msg_id [ex_turn_message, ex_steer])" by (simp add: ex_turn_message_def ex_steer_def)
  have rows: "page_messages ex_page [ex_turn_message, ex_steer] = [ex_turn_message]"
    unfolding page_messages_def ex_projected
    by (simp add: placeDeliveredFeedback_def message_owners_def place_feedback_row_def feedback_owner_def
        steer_delivery_def metadata_field_def obj_get_def ex_steer_def ex_turn_message_def)
  moreover have "ex_steer \<noteq> ex_turn_message" by (simp add: ex_steer_def ex_turn_message_def)
  ultimately show ?thesis
    using page_loses_no_message [OF d, of ex_steer ex_page] by (auto simp: ex_projected)
qed

end
