(* ===== verification/Session_Reload.thy ===== *)
theory Session_Reload
  imports Session_Cache Entity_State "HOL-Library.Sublist"
begin

text \<open>
  \<open>web/src/lib/session-reload-cache.ts\<close>: what a browser tab keeps over a reload. The lists of
  workspaces and sessions, and of an open session a bounded tail of its transcript with the
  entities the tail refers to.

  The storage of the tab is a list of items that may be unavailable and may refuse a write.
  \<open>encodeURIComponent\<close>, \<open>JSON.stringify\<close>, the reading of a number and the schemas are arguments;
  a schema answers that a text is no JSON, that it is not of the schema, or its value.
\<close>

section \<open>Storage\<close>

record tab_storage =
  ts_window :: bool
  ts_available :: bool
  ts_accepts :: "(string \<times> string) list \<Rightarrow> string \<Rightarrow> string \<Rightarrow> bool"
  ts_items :: "(string \<times> string) list"

datatype 'a decoded = Malformed | Invalid | Valid 'a

record 'a codec =
  cd_stringify :: "'a \<Rightarrow> string"
  cd_decode :: "string \<Rightarrow> 'a decoded"

definition set_item :: "string \<Rightarrow> string \<Rightarrow> tab_storage \<Rightarrow> tab_storage option" where
  "set_item k v st = (if ts_window st \<and> ts_available st \<and> ts_accepts st (ts_items st) k v
     then Some (st\<lparr>ts_items := map_set (ts_items st) k v\<rparr>) else None)"

definition get_item :: "string \<Rightarrow> tab_storage \<Rightarrow> string option option" where
  "get_item k st = (if ts_window st \<and> ts_available st then Some (map_of (ts_items st) k) else None)"

definition remove_item :: "string \<Rightarrow> tab_storage \<Rightarrow> tab_storage" where
  "remove_item k st = (if ts_window st \<and> ts_available st then st\<lparr>ts_items := map_delete (ts_items st) k\<rparr> else st)"

section \<open>Keys and entries\<close>

definition cacheKey :: "(string \<Rightarrow> string) \<Rightarrow> string \<Rightarrow> string \<Rightarrow> string \<Rightarrow> string" where
  "cacheKey encodeURI endpoint kind k = ''clio.reload.v1:'' @ encodeURI endpoint @ '':'' @ kind @ '':'' @ encodeURI k"

definition readCache :: "string \<Rightarrow> 'a codec \<Rightarrow> tab_storage \<Rightarrow> 'a option \<times> tab_storage" where
  "readCache key c st = (case get_item key st of
       None \<Rightarrow> (None, st)
     | Some v \<Rightarrow> if \<not> truthy_str v then (None, st)
         else (case cd_decode c (coalesce v []) of
             Malformed \<Rightarrow> (None, st)
           | Valid x \<Rightarrow> (Some x, st)
           | Invalid \<Rightarrow> (None, remove_item key st)))"

definition writeCache :: "string \<Rightarrow> string \<Rightarrow> tab_storage \<Rightarrow> bool \<times> tab_storage" where
  "writeCache key v st = (case set_item key v st of Some st1 \<Rightarrow> (True, st1) | None \<Rightarrow> (False, st))"

section \<open>Lists of workspaces and sessions\<close>

definition readReloadWorkspaces :: "(string \<Rightarrow> string) \<Rightarrow> workspace list codec \<Rightarrow> string \<Rightarrow> tab_storage \<Rightarrow> workspace list option \<times> tab_storage" where
  "readReloadWorkspaces u c endpoint st = readCache (cacheKey u endpoint ''workspaces'' []) c st"

definition writeReloadWorkspaces :: "(string \<Rightarrow> string) \<Rightarrow> workspace list codec \<Rightarrow> string \<Rightarrow> workspace list \<Rightarrow> tab_storage \<Rightarrow> tab_storage" where
  "writeReloadWorkspaces u c endpoint ws st = snd (writeCache (cacheKey u endpoint ''workspaces'' []) (cd_stringify c ws) st)"

definition readReloadSessions :: "(string \<Rightarrow> string) \<Rightarrow> session list codec \<Rightarrow> string \<Rightarrow> string \<Rightarrow> tab_storage \<Rightarrow> session list option \<times> tab_storage" where
  "readReloadSessions u c endpoint workspaceId st = readCache (cacheKey u endpoint ''sessions'' workspaceId) c st"

definition writeReloadSessions :: "(string \<Rightarrow> string) \<Rightarrow> session list codec \<Rightarrow> string \<Rightarrow> string \<Rightarrow> session list \<Rightarrow> tab_storage \<Rightarrow> tab_storage" where
  "writeReloadSessions u c endpoint workspaceId ss st =
     snd (writeCache (cacheKey u endpoint ''sessions'' workspaceId) (cd_stringify c ss) st)"

definition readReloadAllSessions :: "(string \<Rightarrow> string) \<Rightarrow> session list codec \<Rightarrow> string \<Rightarrow> tab_storage \<Rightarrow> session list option \<times> tab_storage" where
  "readReloadAllSessions u c endpoint st = readCache (cacheKey u endpoint ''all-sessions'' []) c st"

definition writeReloadAllSessions :: "(string \<Rightarrow> string) \<Rightarrow> session list codec \<Rightarrow> string \<Rightarrow> session list \<Rightarrow> tab_storage \<Rightarrow> tab_storage" where
  "writeReloadAllSessions u c endpoint ss st = snd (writeCache (cacheKey u endpoint ''all-sessions'' []) (cd_stringify c ss) st)"

section \<open>The tail of a transcript\<close>

record reload_transcript =
  rt_cursor :: "string option"
  rt_messages :: "message list"
  rt_tools :: "tool_invocation list"
  rt_tasks :: "task list"
  rt_subagents :: "subagent_run list"
  rt_artifacts :: "artifact list"
  rt_surfaces :: "a2ui_surface list"

definition MAX_TRANSCRIPT_MESSAGES :: nat where
  "MAX_TRANSCRIPT_MESSAGES = 16"

definition MAX_TRANSCRIPT_CACHE_CHARS :: nat where
  "MAX_TRANSCRIPT_CACHE_CHARS = 900000"

text \<open>The string properties of a block whose names end in \<open>_id\<close>.\<close>

definition listed :: "'a option \<Rightarrow> 'a list" where
  "listed a = (case a of Some x \<Rightarrow> [x] | None \<Rightarrow> [])"

fun body_references :: "block_body \<Rightarrow> string list" where
  "body_references (ToolBlock t _) = [t]"
| "body_references (InjectionBlock _ _ call _ compaction variants _) = listed call @ listed compaction @ listed variants"
| "body_references (NoticeBlock _ _ _ _ compaction _) = listed compaction"
| "body_references (TaskBlock t) = [t]"
| "body_references (SubagentBlock s _ _) = [s]"
| "body_references (AgentMessageBlock s _ _ _ _) = [s]"
| "body_references (ArtifactBlock a) = [a]"
| "body_references (ResourceBlock r _ w _ _ _) = [r, w]"
| "body_references (ContextReferenceBlock _ r _ _ _ _) = [r]"
| "body_references (A2uiBlock s) = [s]"
| "body_references (McpAppBlock a _ _ _ _ _ _) = [a]"
| "body_references _ = []"

definition block_references :: "message_block \<Rightarrow> string list" where
  "block_references b = listed (blk_agent_id b) @ body_references (blk_body b)"

definition referenced :: "message list \<Rightarrow> string list" where
  "referenced ms = concat (map (\<lambda>m. concat (map block_references (msg_blocks m))) ms)"

definition transcriptTail :: "reload_transcript \<Rightarrow> message list \<Rightarrow> reload_transcript" where
  "transcriptTail t ms =
     \<lparr>rt_cursor = rt_cursor t, rt_messages = ms,
      rt_tools = filter (\<lambda>x. tool_id x \<in> set (referenced ms)) (rt_tools t),
      rt_tasks = filter (\<lambda>x. task_id x \<in> set (referenced ms)) (rt_tasks t),
      rt_subagents = filter (\<lambda>x. sa_id x \<in> set (referenced ms)) (rt_subagents t),
      rt_artifacts = filter (\<lambda>x. art_id x \<in> set (referenced ms)) (rt_artifacts t),
      rt_surfaces = filter (\<lambda>x. sf_id x \<in> set (referenced ms)) (rt_surfaces t)\<rparr>"

definition too_long :: "reload_transcript codec \<Rightarrow> reload_transcript \<Rightarrow> message list \<Rightarrow> bool" where
  "too_long c t ms \<longleftrightarrow> MAX_TRANSCRIPT_CACHE_CHARS < length (cd_stringify c (transcriptTail t ms))"

fun fit_tail :: "reload_transcript codec \<Rightarrow> reload_transcript \<Rightarrow> message list \<Rightarrow> message list" where
  "fit_tail c t [] = []"
| "fit_tail c t (m # ms) = (if too_long c t (m # ms) then fit_tail c t ms else m # ms)"

record reload_env =
  re_encodeURI :: "string \<Rightarrow> string"
  re_number :: "string \<Rightarrow> rat option"
  re_codec :: "reload_transcript codec"
  re_policy :: session_cache_policy

definition transcript_key :: "reload_env \<Rightarrow> string \<Rightarrow> string \<Rightarrow> string" where
  "transcript_key e endpoint sessionId = cacheKey (re_encodeURI e) endpoint ''transcript'' sessionId"

definition used_at_key :: "reload_env \<Rightarrow> string \<Rightarrow> string \<Rightarrow> string" where
  "used_at_key e endpoint sessionId = transcript_key e endpoint sessionId @ '':used-at''"

definition touchReloadTranscript :: "reload_env \<Rightarrow> string \<Rightarrow> string \<Rightarrow> nat \<Rightarrow> tab_storage \<Rightarrow> tab_storage" where
  "touchReloadTranscript e endpoint sessionId now st = coalesce (set_item (used_at_key e endpoint sessionId) (show_nat now) st) st"

definition dropReloadTranscript :: "reload_env \<Rightarrow> string \<Rightarrow> string \<Rightarrow> tab_storage \<Rightarrow> tab_storage" where
  "dropReloadTranscript e endpoint sessionId st =
     remove_item (used_at_key e endpoint sessionId) (remove_item (transcript_key e endpoint sessionId) st)"

definition reload_tail :: "reload_env \<Rightarrow> reload_transcript \<Rightarrow> reload_transcript" where
  "reload_tail e t = transcriptTail t (fit_tail (re_codec e) t (take_last MAX_TRANSCRIPT_MESSAGES (rt_messages t)))"

definition writeReloadTranscript :: "reload_env \<Rightarrow> string \<Rightarrow> string \<Rightarrow> nat \<Rightarrow> reload_transcript \<Rightarrow> tab_storage \<Rightarrow> tab_storage" where
  "writeReloadTranscript e endpoint sessionId now t st =
     (case writeCache (transcript_key e endpoint sessionId) (cd_stringify (re_codec e) (reload_tail e t)) st of
        (True, st1) \<Rightarrow> touchReloadTranscript e endpoint sessionId now st1
      | (False, st1) \<Rightarrow> st1)"

text \<open>A time that is missing, is no number or is zero counts as none.\<close>

definition written_at :: "reload_env \<Rightarrow> string option \<Rightarrow> rat option" where
  "written_at e v = (if truthy_str v then (case re_number e (coalesce v []) of Some n \<Rightarrow> if n = 0 then None else Some n | None \<Rightarrow> None) else None)"

definition readReloadTranscript :: "reload_env \<Rightarrow> string \<Rightarrow> string \<Rightarrow> nat \<Rightarrow> tab_storage \<Rightarrow> reload_transcript option \<times> tab_storage" where
  "readReloadTranscript e endpoint sessionId now st = (case get_item (used_at_key e endpoint sessionId) st of
       None \<Rightarrow> (None, st)
     | Some v \<Rightarrow> (case written_at e v of
         None \<Rightarrow> (None, dropReloadTranscript e endpoint sessionId st)
       | Some t \<Rightarrow> if pol_idleMs (re_policy e) \<le> of_nat now - t then (None, dropReloadTranscript e endpoint sessionId st)
           else readCache (transcript_key e endpoint sessionId) (re_codec e) st))"

section \<open>Lemmas\<close>

lemma keys_differ [simp]: "used_at_key e endpoint s \<noteq> transcript_key e endpoint s" "transcript_key e endpoint s \<noteq> used_at_key e endpoint s"
  by (simp_all add: used_at_key_def)

lemma fit_tail_suffix: "suffix (fit_tail c t ms) ms"
  by (induction ms) (auto intro: suffix_ConsI)

lemma fit_tail_fits: "fit_tail c t ms = [] \<or> \<not> too_long c t (fit_tail c t ms)"
  by (induction ms) auto

lemma fit_tail_longest:
  "suffix xs ms \<Longrightarrow> length (fit_tail c t ms) < length xs \<Longrightarrow> too_long c t xs"
proof (induction ms)
  case (Cons m ms)
  show ?case
  proof (cases "xs = m # ms")
    case True
    with Cons.prems(2) show ?thesis by (auto split: if_splits)
  next
    case False
    with Cons.prems(1) have "suffix xs ms" by (auto simp: suffix_Cons)
    with Cons show ?thesis using suffix_length_le [OF \<open>suffix xs ms\<close>] by (auto split: if_splits)
  qed
qed simp

lemma suffix_take_last: "suffix (take_last n xs) xs"
  by (simp add: take_last_def suffix_drop)

lemma show_nat_not_empty [simp]: "show_nat n \<noteq> []"
  by (subst show_nat.simps) simp

text \<open>
  Which entities a tail takes along, read off its messages: a block refers to the agent it
  belongs to and to what its kind names, a tool call to its tool, a task to its task and so on.
\<close>

definition refers_to :: "message_block \<Rightarrow> string \<Rightarrow> bool" where
  "refers_to b k \<longleftrightarrow> blk_agent_id b = Some k \<or> (case blk_body b of
       ToolBlock tool _ \<Rightarrow> tool = k
     | InjectionBlock _ _ call _ compaction variants _ \<Rightarrow> call = Some k \<or> compaction = Some k \<or> variants = Some k
     | NoticeBlock _ _ _ _ compaction _ \<Rightarrow> compaction = Some k
     | TaskBlock task \<Rightarrow> task = k
     | SubagentBlock child _ _ \<Rightarrow> child = k
     | AgentMessageBlock child _ _ _ _ \<Rightarrow> child = k
     | ArtifactBlock artifact \<Rightarrow> artifact = k
     | ResourceBlock resource _ workspace _ _ _ \<Rightarrow> resource = k \<or> workspace = k
     | ContextReferenceBlock _ ref _ _ _ _ \<Rightarrow> ref = k
     | A2uiBlock surface \<Rightarrow> surface = k
     | McpAppBlock app _ _ _ _ _ _ \<Rightarrow> app = k
     | _ \<Rightarrow> False)"

definition mentioned :: "message list \<Rightarrow> string \<Rightarrow> bool" where
  "mentioned ms k \<longleftrightarrow> (\<exists>m\<in>set ms. \<exists>b\<in>set (msg_blocks m). refers_to b k)"

text \<open>
  A tail of a transcript: its last messages, and of each kind exactly the entities they mention,
  in the order of the transcript.
\<close>

definition tail_of :: "reload_transcript \<Rightarrow> reload_transcript \<Rightarrow> bool" where
  "tail_of t x \<longleftrightarrow> rt_cursor x = rt_cursor t \<and> suffix (rt_messages x) (rt_messages t)
     \<and> rt_tools x = filter (\<lambda>y. mentioned (rt_messages x) (tool_id y)) (rt_tools t)
     \<and> rt_tasks x = filter (\<lambda>y. mentioned (rt_messages x) (task_id y)) (rt_tasks t)
     \<and> rt_subagents x = filter (\<lambda>y. mentioned (rt_messages x) (sa_id y)) (rt_subagents t)
     \<and> rt_artifacts x = filter (\<lambda>y. mentioned (rt_messages x) (art_id y)) (rt_artifacts t)
     \<and> rt_surfaces x = filter (\<lambda>y. mentioned (rt_messages x) (sf_id y)) (rt_surfaces t)"

lemma refers_to_references: "refers_to b k \<longleftrightarrow> k \<in> set (block_references b)"
  by (cases "blk_body b") (auto simp: refers_to_def block_references_def listed_def split: option.splits)

lemma mentioned_referenced: "mentioned ms k \<longleftrightarrow> k \<in> set (referenced ms)"
  by (simp add: mentioned_def refers_to_references referenced_def)

lemma tail_of_transcriptTail: "tail_of t x \<longleftrightarrow> suffix (rt_messages x) (rt_messages t) \<and> x = transcriptTail t (rt_messages x)"
  by (cases x) (auto simp: tail_of_def transcriptTail_def mentioned_referenced)

section \<open>Properties\<close>

text \<open>
  C31. What a reload reads back. When the tab's storage can be used and accepts writes, writing a
  transcript stores the longest tail of at most sixteen messages whose text has at most 900,000
  characters, or the tail with no messages when not even the last message fits: the last
  messages, of each kind of entity exactly those a block of these messages refers to, and the
  cursor. Within the idle interval the reload reads that entry again and shows what the schema
  decodes from the text, and reading changes nothing; so the tail itself comes back whenever the
  schema reads it unchanged, and a text it refuses is shown as nothing and removed.
\<close>
theorem reload_reads_the_longest_tail:
  assumes "ts_window st" "ts_available st"
    and "ts_accepts st = (\<lambda>_ _ _. True)" "0 < written" "of_nat now - of_nat written < pol_idleMs (re_policy e)"
    and "re_number e (show_nat written) = Some (of_nat written)"
    and "\<forall>x. cd_stringify (re_codec e) x \<noteq> []"
  shows "\<exists>tail st1. writeReloadTranscript e endpoint s written t st = st1
    \<and> map_of (ts_items st1) (transcript_key e endpoint s) = Some (cd_stringify (re_codec e) tail)
    \<and> tail_of t tail \<and> length (rt_messages tail) \<le> 16
    \<and> (rt_messages tail = [] \<or> length (cd_stringify (re_codec e) tail) \<le> 900000)
    \<and> (\<forall>x. tail_of t x \<longrightarrow> length (rt_messages x) \<le> 16 \<longrightarrow> length (rt_messages tail) < length (rt_messages x) \<longrightarrow>
          900000 < length (cd_stringify (re_codec e) x))
    \<and> (\<forall>x. cd_decode (re_codec e) (cd_stringify (re_codec e) tail) = Valid x \<longrightarrow>
          readReloadTranscript e endpoint s now st1 = (Some x, st1))
    \<and> (cd_decode (re_codec e) (cd_stringify (re_codec e) tail) = Invalid \<longrightarrow>
          readReloadTranscript e endpoint s now st1 =
            (None, st1\<lparr>ts_items := map_delete (ts_items st1) (transcript_key e endpoint s)\<rparr>))"
proof -
  let ?last = "take_last MAX_TRANSCRIPT_MESSAGES (rt_messages t)"
  define ms where "ms = fit_tail (re_codec e) t ?last"
  let ?tail = "transcriptTail t ms"
  let ?st1 = "writeReloadTranscript e endpoint s written t st"
  have tail: "reload_tail e t = ?tail" by (simp add: reload_tail_def ms_def)
  have st1: "?st1 = st\<lparr>ts_items := map_set (map_set (ts_items st) (transcript_key e endpoint s) (cd_stringify (re_codec e) ?tail))
      (used_at_key e endpoint s) (show_nat written)\<rparr>"
    using assms(1-3) by (simp add: writeReloadTranscript_def writeCache_def set_item_def touchReloadTranscript_def tail)
  have stored: "map_of (ts_items ?st1) (transcript_key e endpoint s) = Some (cd_stringify (re_codec e) ?tail)"
    and used: "get_item (used_at_key e endpoint s) ?st1 = Some (Some (show_nat written))"
    and kept: "ts_window ?st1" "ts_available ?st1"
    unfolding st1 using assms(1,2) by (simp_all add: get_item_def map_of_map_set)
  have at: "written_at e (Some (show_nat written)) = Some (of_nat written)"
    using assms(4,6) by (simp add: written_at_def truthy_str_def)
  have "readReloadTranscript e endpoint s now ?st1 = readCache (transcript_key e endpoint s) (re_codec e) ?st1"
    unfolding readReloadTranscript_def used option.case at using assms(5) by simp
  also have "\<dots> = (case cd_decode (re_codec e) (cd_stringify (re_codec e) ?tail) of
      Malformed \<Rightarrow> (None, ?st1) | Valid x \<Rightarrow> (Some x, ?st1)
    | Invalid \<Rightarrow> (None, ?st1\<lparr>ts_items := map_delete (ts_items ?st1) (transcript_key e endpoint s)\<rparr>))"
    using kept stored assms(7) by (simp add: readCache_def get_item_def truthy_str_def remove_item_def split: decoded.split)
  finally have reading: "readReloadTranscript e endpoint s now ?st1 = \<dots>" .
  have suffixed: "suffix ms (rt_messages t)"
    using fit_tail_suffix suffix_take_last unfolding ms_def by (rule suffix_order.trans)
  then have shape: "tail_of t ?tail" "length (rt_messages ?tail) \<le> 16" "rt_messages ?tail = ms"
    using suffix_length_le [OF fit_tail_suffix [of "re_codec e" t ?last]]
    by (simp_all add: tail_of_transcriptTail ms_def MAX_TRANSCRIPT_MESSAGES_def) (simp_all add: transcriptTail_def)
  have fits: "ms = [] \<or> length (cd_stringify (re_codec e) ?tail) \<le> 900000"
    using fit_tail_fits [of "re_codec e" t ?last] by (auto simp: ms_def too_long_def MAX_TRANSCRIPT_CACHE_CHARS_def)
  have longest: "900000 < length (cd_stringify (re_codec e) x)"
    if x: "tail_of t x" "length (rt_messages x) \<le> 16" "length ms < length (rt_messages x)" for x
  proof -
    from x(1) have sx: "suffix (rt_messages x) (rt_messages t)" and tx: "x = transcriptTail t (rt_messages x)"
      by (simp_all add: tail_of_transcriptTail)
    have "suffix (rt_messages x) ?last"
      by (rule suffix_length_suffix [OF sx suffix_take_last])
        (use x(2) suffix_length_le [OF sx] in \<open>simp add: MAX_TRANSCRIPT_MESSAGES_def\<close>)
    from fit_tail_longest [OF this, of "re_codec e" t] x(3) have "too_long (re_codec e) t (rt_messages x)"
      by (simp add: ms_def)
    with tx show ?thesis by (simp add: too_long_def MAX_TRANSCRIPT_CACHE_CHARS_def)
  qed
  show ?thesis
    by (rule exI [of _ ?tail], rule exI [of _ ?st1])
      (use stored shape fits longest reading in simp)
qed

definition ex_artifact :: "string \<Rightarrow> artifact" where
  "ex_artifact i = \<lparr>art_id = i, art_session_id = ''s'', art_workspace_id = None, art_name = i, art_media_type = ''text/csv'',
     art_uri = [], art_fetch_path = None, art_custody = None, art_sha256 = None, art_size = None, art_version = None,
     art_created_at = None, art_used = None, art_producer = None\<rparr>"

definition ex_stored :: reload_transcript where
  "ex_stored = \<lparr>rt_cursor = Some ''9'', rt_messages = [\<lparr>msg_id = ''m'', msg_session_id = ''s'', msg_turn_id = None, msg_run_id = None,
     msg_role = RoleAssistant, msg_created_at = [], msg_completed_at = None,
     msg_blocks = [\<lparr>blk_id = ''b'', blk_agent_id = None, blk_sequence = None, blk_stream_source = None, blk_channel = None,
       blk_body = ArtifactBlock ''a1''\<rparr>],
     msg_model = None, msg_metadata = None, msg_usage = None, msg_cost_usd = None, msg_stop_reason = None, msg_error_info = None\<rparr>],
     rt_tools = [], rt_tasks = [], rt_subagents = [], rt_artifacts = [ex_artifact ''a1'', ex_artifact ''a2''], rt_surfaces = []\<rparr>"

definition ex_reloaded :: reload_transcript where
  "ex_reloaded = ex_stored\<lparr>rt_artifacts := [ex_artifact ''a1'']\<rparr>"

text \<open>A text that only names the artifacts.\<close>

definition ex_reload :: reload_env where
  "ex_reload = \<lparr>re_encodeURI = id, re_number = (\<lambda>s. Some (of_nat (digits_value s))),
     re_codec = \<lparr>cd_stringify = (\<lambda>x. ''{'' @ concat (map art_id (rt_artifacts x)) @ ''}''),
       cd_decode = (\<lambda>v. if v = ''{a1}'' then Valid ex_reloaded else Invalid)\<rparr>,
     re_policy = \<lparr>pol_idleMs = 300000, pol_maxRecent = 2, pol_maxBytes = 1000\<rparr>\<rparr>"

definition ex_tab :: tab_storage where
  "ex_tab = \<lparr>ts_window = True, ts_available = True, ts_accepts = (\<lambda>_ _ _. True), ts_items = []\<rparr>"

theorem reload_reads_the_longest_tail_witness:
  "\<exists>st1. writeReloadTranscript ex_reload ''http'' ''s'' 5 ex_stored ex_tab = st1
     \<and> map_of (ts_items st1) (transcript_key ex_reload ''http'' ''s'') = Some ''{a1}''
     \<and> readReloadTranscript ex_reload ''http'' ''s'' 9 st1 = (Some ex_reloaded, st1)"
proof -
  have five: "show_nat 5 = ''5''" by code_simp
  have n: "re_number ex_reload (show_nat 5) = Some (of_nat 5)"
    by (simp add: five ex_reload_def digits_value_def digit_value_def)
  have idle: "of_nat 9 - of_nat 5 < pol_idleMs (re_policy ex_reload)"
    and json: "\<forall>x. cd_stringify (re_codec ex_reload) x \<noteq> []" by (simp_all add: ex_reload_def)
  obtain tail where tail: "tail_of ex_stored tail"
      "\<forall>x. tail_of ex_stored x \<longrightarrow> length (rt_messages x) \<le> 16 \<longrightarrow> length (rt_messages tail) < length (rt_messages x) \<longrightarrow>
          900000 < length (cd_stringify (re_codec ex_reload) x)"
    and wr: "map_of (ts_items (writeReloadTranscript ex_reload ''http'' ''s'' 5 ex_stored ex_tab))
        (transcript_key ex_reload ''http'' ''s'') = Some (cd_stringify (re_codec ex_reload) tail)"
      "\<forall>x. cd_decode (re_codec ex_reload) (cd_stringify (re_codec ex_reload) tail) = Valid x \<longrightarrow>
        readReloadTranscript ex_reload ''http'' ''s'' 9 (writeReloadTranscript ex_reload ''http'' ''s'' 5 ex_stored ex_tab) =
          (Some x, writeReloadTranscript ex_reload ''http'' ''s'' 5 ex_stored ex_tab)"
    using reload_reads_the_longest_tail [of ex_tab 5 9 ex_reload "''http''" "''s''" ex_stored, OF _ _ _ _ idle n json]
    by (auto simp: ex_tab_def)
  have "tail_of ex_stored ex_reloaded" "length (rt_messages ex_reloaded) = 1"
    by (simp_all add: tail_of_def mentioned_def refers_to_def ex_reloaded_def ex_stored_def ex_artifact_def)
  with tail(2) have "rt_messages tail \<noteq> []" by (auto simp: ex_reload_def ex_reloaded_def ex_artifact_def)
  with tail(1) have "rt_messages tail = rt_messages ex_stored"
    by (auto simp: tail_of_def ex_stored_def suffix_Cons)
  with tail(1) have "cd_stringify (re_codec ex_reload) tail = ''{a1}''"
    by (simp add: tail_of_def mentioned_def refers_to_def ex_stored_def ex_artifact_def ex_reload_def)
  with wr show ?thesis by (simp add: ex_reload_def)
qed

text \<open>After the idle interval nothing is read and nothing of the session is left in the storage.\<close>

lemma expired_tail_is_dropped:
  assumes "ts_window st" "ts_available st" "map_of (ts_items st) (used_at_key e endpoint s) = Some v" "v \<noteq> []"
    and "re_number e v = Some t" "pol_idleMs (re_policy e) \<le> of_nat now - t"
  shows "\<exists>st1. readReloadTranscript e endpoint s now st = (None, st1)
    \<and> map_of (ts_items st1) (transcript_key e endpoint s) = None \<and> map_of (ts_items st1) (used_at_key e endpoint s) = None"
  using assms
  by (auto simp: readReloadTranscript_def get_item_def written_at_def truthy_str_def dropReloadTranscript_def remove_item_def map_of_map_delete)

text \<open>A storage that refuses everything stops nothing: writes change nothing and reads find nothing.\<close>

lemma unavailable_storage_is_ignored:
  assumes "\<not> ts_available st"
  shows "writeReloadTranscript e endpoint s now t st = st" "readReloadTranscript e endpoint s now st = (None, st)"
    "dropReloadTranscript e endpoint s st = st"
  using assms by (simp_all add: writeReloadTranscript_def writeCache_def set_item_def readReloadTranscript_def get_item_def
      dropReloadTranscript_def remove_item_def)

end
