(* ===== verification/Archive_Table.thy ===== *)
theory Archive_Table
  imports Js_Multiset Js_Number
begin

text \<open>
  \<open>web/src/lib/session-export/archive-table-query.ts\<close> and \<open>archive-table-downsample.ts\<close>: the tables
  of an exported session answer their queries from the rows in the archive, with the rules of
  the server: filters with the column's type, aggregation, thinning, sorting, paging.

  A row is an object with an identity of its own (its place in the source), because row keys are
  looked up by it. Arithmetic is rounded to binary64 as in \<open>Js_Number\<close>; \<open>None\<close> is \<open>NaN\<close>, and values
  beyond the finite range are outside the model. \<open>Date.parse\<close>, \<open>Number\<close> of a text, lower case,
  \<open>String\<close> and \<open>JSON.stringify\<close> are arguments. So is \<open>Array.prototype.sort\<close>: the comparators here are not
  always consistent, and then the language leaves the order open.
\<close>

section \<open>Cells, rows and queries\<close>

datatype tcell = CUndef | CNull | CBool bool | CNum rat | CStr string

record archive_row =
  aw_index :: nat
  aw_cells :: "tcell obj"

record archive_env =
  ae_number :: "string \<Rightarrow> rat option"
  ae_date :: "string \<Rightarrow> rat option"
  ae_sort :: "(archive_row \<Rightarrow> archive_row \<Rightarrow> int) \<Rightarrow> archive_row list \<Rightarrow> archive_row list"
  ae_lower :: "string \<Rightarrow> string"
  ae_show :: "tcell \<Rightarrow> string"
  ae_json :: "tcell list \<Rightarrow> string"

datatype table_filter =
    FEq string tcell
  | FIn string "tcell list"
  | FRange string tcell tcell
  | FIsNull string "bool option"
  | FContains string string

datatype metric_fn = MMean | MMin | MMax | MCount | MSum | MMedian

record table_metric =
  tm_column :: string
  tm_fn :: metric_fn

record table_aggregate =
  ta_groupBy :: "string list"
  ta_metrics :: "table_metric list"

datatype downsample_mode = DNone | DStride | DPerEntityLttb

record table_downsample =
  ds_mode :: "downsample_mode option"
  ds_entityColumn :: "string option"
  ds_x :: "string option"
  ds_y :: "string option"
  ds_maxPerEntity :: "nat option"

record table_sort =
  so_column :: string
  so_desc :: bool

record table_query =
  tq_columns :: "string list option"
  tq_filter :: "table_filter list"
  tq_aggregate :: "table_aggregate option"
  tq_downsample :: "table_downsample option"
  tq_sort :: "table_sort list"
  tq_offset :: "nat option"
  tq_limit :: nat

record downsample_info =
  di_mode :: downsample_mode
  di_overLimit :: bool
  di_inputRows :: "nat option"
  di_outputRows :: "nat option"
  di_target :: "nat option"
  di_cap :: "nat option"
  di_entityColumn :: "string option"
  di_entities :: "nat option"
  di_maxPerEntity :: "nat option"
  di_x :: "string option"
  di_y :: "string option"
  di_dropped :: "nat option"

record table_result =
  tb_schema :: "(string \<times> string) list"
  tb_columns :: "(string \<times> tcell list) list"
  tb_totalRows :: nat
  tb_matchedRows :: nat
  tb_returnedRows :: nat
  tb_truncated :: bool
  tb_offset :: nat
  tb_downsample :: "downsample_info option"
  tb_rowKey :: "(string \<times> tcell list) option"

definition cell_of :: "archive_row \<Rightarrow> string \<Rightarrow> tcell" where
  "cell_of row column = coalesce (obj_get (aw_cells row) column) CUndef"

definition nullish :: "tcell \<Rightarrow> bool" where
  "nullish c \<longleftrightarrow> c = CUndef \<or> c = CNull"

section \<open>Comparing cells\<close>

fun to_number :: "archive_env \<Rightarrow> tcell \<Rightarrow> rat option" where
  "to_number e CUndef = None"
| "to_number e CNull = Some 0"
| "to_number e (CBool b) = Some (if b then 1 else 0)"
| "to_number e (CNum n) = Some n"
| "to_number e (CStr s) = ae_number e s"

fun text_less :: "string \<Rightarrow> string \<Rightarrow> bool" where
  "text_less s [] = False"
| "text_less [] (c # t) = True"
| "text_less (c # s) (d # t) = ((of_char c :: nat) < of_char d \<or> (c = d \<and> text_less s t))"

definition js_less :: "archive_env \<Rightarrow> tcell \<Rightarrow> tcell \<Rightarrow> bool" where
  "js_less e a b = (case (a, b) of
       (CStr s, CStr t) \<Rightarrow> text_less s t
     | _ \<Rightarrow> (case (to_number e a, to_number e b) of (Some x, Some y) \<Rightarrow> x < y | _ \<Rightarrow> False))"

text \<open>\<open>a >= b\<close>, which is not the negation of \<open>a < b\<close> where a side is no number.\<close>

definition js_at_least :: "archive_env \<Rightarrow> tcell \<Rightarrow> tcell \<Rightarrow> bool" where
  "js_at_least e a b = (case (a, b) of
       (CStr s, CStr t) \<Rightarrow> \<not> text_less s t
     | _ \<Rightarrow> (case (to_number e a, to_number e b) of (Some x, Some y) \<Rightarrow> y \<le> x | _ \<Rightarrow> False))"

definition compareCells :: "archive_env \<Rightarrow> tcell \<Rightarrow> tcell \<Rightarrow> bool \<Rightarrow> int" where
  "compareCells e a b desc =
     (if a = b then 0 else if nullish a then 1 else if nullish b then - 1
      else (if js_less e a b then - 1 else 1) * (if desc then - 1 else 1))"

text \<open>On the numbers of \<open>epoch\<close>, where \<open>NaN\<close> equals nothing and is not null.\<close>

definition compareNumbers :: "rat option \<Rightarrow> rat option \<Rightarrow> int" where
  "compareNumbers a b = (case (a, b) of
       (Some x, Some y) \<Rightarrow> if x = y then 0 else if x < y then - 1 else 1
     | _ \<Rightarrow> 1)"

section \<open>Filters\<close>

definition digit_after :: "string \<Rightarrow> string \<Rightarrow> bool" where
  "digit_after pat s \<longleftrightarrow> starts_with pat s \<and> (case drop (length pat) s of c # _ \<Rightarrow> is_digit c | [] \<Rightarrow> False)"

definition int_type :: "string \<Rightarrow> bool" where
  "int_type t \<longleftrightarrow> starts_with ''int'' t \<or> starts_with ''uint'' t"

definition numeric_type :: "string \<Rightarrow> bool" where
  "numeric_type t \<longleftrightarrow> digit_after ''int'' t \<or> digit_after ''uint'' t \<or> digit_after ''float'' t
     \<or> starts_with ''double'' t \<or> starts_with ''decimal'' t"

definition time_type :: "string \<Rightarrow> bool" where
  "time_type t \<longleftrightarrow> starts_with ''timestamp'' t \<or> starts_with ''date'' t"

definition drop_sign :: "string \<Rightarrow> string" where
  "drop_sign s = (case s of c # cs \<Rightarrow> if c = CHR ''+'' \<or> c = CHR ''-'' then cs else s | [] \<Rightarrow> [])"

definition exponent_text :: "string \<Rightarrow> bool" where
  "exponent_text s = (case s of
       [] \<Rightarrow> True
     | c # cs \<Rightarrow> (c = CHR ''e'' \<or> c = CHR ''E'') \<and> drop_sign cs \<noteq> [] \<and> list_all is_digit (drop_sign cs))"

text \<open>\<open>/^[+-]?(?:\d+\.?\d*|\.\d+)(?:e[+-]?\d+)?$/iu\<close>.\<close>

definition numeric_text :: "string \<Rightarrow> bool" where
  "numeric_text s =
     (let r = drop_sign s; whole = takeWhile is_digit r; r1 = dropWhile is_digit r
      in case r1 of
           c # cs \<Rightarrow>
             if c = CHR ''.'' then (whole \<noteq> [] \<or> takeWhile is_digit cs \<noteq> []) \<and> exponent_text (dropWhile is_digit cs)
             else whole \<noteq> [] \<and> exponent_text r1
         | [] \<Rightarrow> whole \<noteq> [])"

text \<open>\<open>/(?:Z|[+-]\d\d:\d\d)$/u\<close>.\<close>

definition has_zone :: "string \<Rightarrow> bool" where
  "has_zone s = (case rev s of
       CHR ''Z'' # _ \<Rightarrow> True
     | d4 # d3 # c # d2 # d1 # sign # _ \<Rightarrow> list_all is_digit [d1, d2, d3, d4] \<and> c = CHR '':'' \<and> (sign = CHR ''+'' \<or> sign = CHR ''-'')
     | _ \<Rightarrow> False)"

definition cast_error :: "string \<Rightarrow> tcell result" where
  "cast_error t = Inl (PlainError (''This filter value cannot be cast to '' @ t @ ''.''))"

definition scalarFor :: "archive_env \<Rightarrow> tcell \<Rightarrow> string \<Rightarrow> tcell result" where
  "scalarFor e v t =
     (if nullish v then Inr v
      else if numeric_type t then (case v of
          CNum n \<Rightarrow> Inr v
        | CBool b \<Rightarrow> Inr (CNum (if b then 1 else 0))
        | CStr s \<Rightarrow>
            if numeric_text s then (case ae_number e s of
                Some n \<Rightarrow> if \<not> int_type t \<or> n \<in> \<int> then Inr (CNum n) else cast_error t
              | None \<Rightarrow> cast_error t)
            else cast_error t
        | _ \<Rightarrow> cast_error t)
      else if t = ''string'' \<or> t = ''large_string'' then Inr (CStr (ae_show e v))
      else if t = ''bool'' then
        (case v of CBool _ \<Rightarrow> Inr v
         | _ \<Rightarrow> if v = CStr ''true'' \<or> v = CStr ''1'' \<or> v = CNum 1 then Inr (CBool True)
               else if v = CStr ''false'' \<or> v = CStr ''0'' \<or> v = CNum 0 then Inr (CBool False)
               else cast_error t)
      else if time_type t then (case v of
          CStr s \<Rightarrow> (case ae_date e (if has_zone s then s else s @ ''Z'') of Some n \<Rightarrow> Inr (CNum n) | None \<Rightarrow> cast_error t)
        | _ \<Rightarrow> Inr v)
      else Inr v)"

definition contains_text :: "string \<Rightarrow> string \<Rightarrow> bool" where
  "contains_text pat s \<longleftrightarrow> pat = [] \<or> index_of pat s \<noteq> None"

fun filter_column :: "table_filter \<Rightarrow> string" where
  "filter_column (FEq c _) = c"
| "filter_column (FIn c _) = c"
| "filter_column (FRange c _ _) = c"
| "filter_column (FIsNull c _) = c"
| "filter_column (FContains c _) = c"

fun cell_matches :: "archive_env \<Rightarrow> table_filter \<Rightarrow> tcell \<Rightarrow> bool" where
  "cell_matches e (FEq _ v) cell = (cell = v)"
| "cell_matches e (FIn _ vs) cell = (cell \<in> set vs)"
| "cell_matches e (FContains _ s) cell = (case cell of CStr t \<Rightarrow> contains_text (ae_lower e s) (ae_lower e t) | _ \<Rightarrow> False)"
| "cell_matches e (FIsNull _ v) cell = (if v = Some False then \<not> nullish cell else nullish cell)"
| "cell_matches e (FRange _ lo hi) cell =
     (\<not> nullish cell \<and> (nullish lo \<or> js_at_least e cell lo) \<and> (nullish hi \<or> js_at_least e hi cell))"

definition table_predicate :: "archive_env \<Rightarrow> archive_row \<Rightarrow> table_filter \<Rightarrow> string \<Rightarrow> bool result" where
  "table_predicate e row f t = bindR (if time_type t then scalarFor e (cell_of row (filter_column f)) t else Inr (cell_of row (filter_column f)))
     (\<lambda>cell. Inr (cell_matches e f cell))"

fun map_result :: "('a \<Rightarrow> 'b result) \<Rightarrow> 'a list \<Rightarrow> 'b list result" where
  "map_result f [] = Inr []"
| "map_result f (x # xs) = bindR (f x) (\<lambda>y. bindR (map_result f xs) (\<lambda>ys. Inr (y # ys)))"

definition typed_filter :: "archive_env \<Rightarrow> (string \<times> string) list \<Rightarrow> table_filter \<Rightarrow> (table_filter \<times> string) result" where
  "typed_filter e schema f = (case map_of schema (filter_column f) of
       None \<Rightarrow> Inl (PlainError (''Unknown archived table column: '' @ filter_column f))
     | Some t \<Rightarrow> (case f of
           FIn c vs \<Rightarrow> bindR (map_result (\<lambda>v. scalarFor e v t) vs) (\<lambda>ws. Inr (FIn c ws, t))
         | FRange c lo hi \<Rightarrow> bindR (scalarFor e lo t) (\<lambda>l. bindR (scalarFor e hi t) (\<lambda>h. Inr (FRange c l h, t)))
         | FEq c v \<Rightarrow> bindR (scalarFor e v t) (\<lambda>w. Inr (FEq c w, t))
         | _ \<Rightarrow> Inr (f, t)))"

fun every_filter :: "archive_env \<Rightarrow> archive_row \<Rightarrow> (table_filter \<times> string) list \<Rightarrow> bool result" where
  "every_filter e row [] = Inr True"
| "every_filter e row ((f, t) # fs) = bindR (table_predicate e row f t) (\<lambda>b. if b then every_filter e row fs else Inr False)"

fun filter_rows :: "archive_env \<Rightarrow> (table_filter \<times> string) list \<Rightarrow> archive_row list \<Rightarrow> archive_row list result" where
  "filter_rows e fs [] = Inr []"
| "filter_rows e fs (r # rs) = bindR (every_filter e r fs) (\<lambda>b. bindR (filter_rows e fs rs) (\<lambda>rs'. Inr (if b then r # rs' else rs')))"

section \<open>Aggregation\<close>

definition js_sum :: "rat list \<Rightarrow> rat" where
  "js_sum xs = foldl js_add 0 xs"

fun number_cells :: "tcell \<Rightarrow> rat list" where
  "number_cells (CNum n) = [n]"
| "number_cells _ = []"

fun metric_name :: "metric_fn \<Rightarrow> string" where
  "metric_name MMean = ''mean''" | "metric_name MMin = ''min''" | "metric_name MMax = ''max''"
| "metric_name MCount = ''count''" | "metric_name MSum = ''sum''" | "metric_name MMedian = ''median''"

definition metric_value :: "archive_row list \<Rightarrow> table_metric \<Rightarrow> tcell" where
  "metric_value grp m =
     (let values = concat (map (\<lambda>r. number_cells (cell_of r (tm_column m))) grp); sorted = sort values
      in if tm_fn m = MCount then CNum (of_nat (length (filter (\<lambda>r. \<not> nullish (cell_of r (tm_column m))) grp)))
         else if values = [] then CNull
         else CNum (case tm_fn m of
             MSum \<Rightarrow> js_sum values
           | MMean \<Rightarrow> round_double (js_sum values / of_nat (length values))
           | MMin \<Rightarrow> hd sorted
           | MMax \<Rightarrow> last sorted
           | _ \<Rightarrow> round_double (js_add (sorted ! ((length sorted - 1) div 2)) (sorted ! (length sorted div 2)) / 2)))"

definition group_key :: "archive_env \<Rightarrow> string list \<Rightarrow> archive_row \<Rightarrow> string" where
  "group_key e keys row = ae_json e (map (cell_of row) keys)"

definition add_to_group :: "('k \<times> 'a list) list \<Rightarrow> 'k \<Rightarrow> 'a \<Rightarrow> ('k \<times> 'a list) list" where
  "add_to_group groups k row = map_set groups k (coalesce (map_of groups k) [] @ [row])"

definition aggregate_row :: "table_aggregate \<Rightarrow> nat \<Rightarrow> archive_row list \<Rightarrow> archive_row" where
  "aggregate_row a n grp =
     \<lparr>aw_index = n, aw_cells = foldl (\<lambda>cells m. obj_put cells (tm_column m @ ''_'' @ metric_name (tm_fn m)) (metric_value grp m))
        (obj_of_entries (map (\<lambda>k. (k, cell_of (hd grp) k)) (ta_groupBy a))) (ta_metrics a)\<rparr>"

definition aggregate_rows :: "archive_env \<Rightarrow> table_aggregate \<Rightarrow> archive_row list \<Rightarrow> archive_row list" where
  "aggregate_rows e a rows =
     (let groups = map snd (foldl (\<lambda>g r. add_to_group g (group_key e (ta_groupBy a) r) r) [] rows)
      in map (\<lambda>(n, grp). aggregate_row a n grp) (zip [0..<length groups] groups))"

section \<open>Thinning\<close>

text \<open>The row for the i-th of the kept places, rounded half to even on the quotient the language computes.\<close>

definition even_index :: "nat \<Rightarrow> nat \<Rightarrow> nat \<Rightarrow> nat" where
  "even_index n keep i =
     (let index = round_double (round_double (of_nat (i * (n - 1))) / of_nat (keep - 1)); low = \<lfloor>index\<rfloor>
      in nat (if round_double (index - of_int low) = 1 / 2 then low + low mod 2 else \<lfloor>index + 1 / 2\<rfloor>))"

definition evenRows :: "archive_row list \<Rightarrow> nat \<Rightarrow> archive_row list" where
  "evenRows rows keep =
     (if length rows \<le> keep then rows
      else if keep = 1 then [rows ! 0]
      else map (\<lambda>i. rows ! even_index (length rows) keep i) [0..<keep])"

definition naive_time :: "string \<Rightarrow> bool" where
  "naive_time s =
     (let digits = (\<lambda>a n. list_all is_digit (take n (drop a s)) \<and> a + n \<le> length s); here = (\<lambda>a c. a < length s \<and> s ! a = c);
          rest = drop 16 s
      in digits 0 4 \<and> here 4 (CHR ''-'') \<and> digits 5 2 \<and> here 7 (CHR ''-'') \<and> digits 8 2
         \<and> (here 10 (CHR ''T'') \<or> here 10 (CHR '' '')) \<and> digits 11 2 \<and> here 13 (CHR '':'') \<and> digits 14 2
         \<and> (rest = [] \<or> (here 16 (CHR '':'') \<and> digits 17 2
              \<and> (length s = 19 \<or> (here 19 (CHR ''.'') \<and> 20 < length s \<and> list_all is_digit (drop 20 s))))))"

definition epoch :: "archive_env \<Rightarrow> tcell \<Rightarrow> rat option" where
  "epoch e v = (case v of
       CNum n \<Rightarrow> Some n
     | CBool b \<Rightarrow> Some (if b then 1 else 0)
     | CStr s \<Rightarrow> map_option (\<lambda>n. round_double (n / 1000)) (ae_date e (if naive_time s then s @ ''Z'' else s))
     | _ \<Rightarrow> None)"

text \<open>Operations on numbers that may be \<open>NaN\<close>.\<close>

definition num_op :: "(rat \<Rightarrow> rat \<Rightarrow> rat) \<Rightarrow> rat option \<Rightarrow> rat option \<Rightarrow> rat option" where
  "num_op f a b = (case (a, b) of (Some x, Some y) \<Rightarrow> Some (round_double (f x y)) | _ \<Rightarrow> None)"

definition average_of :: "rat option list \<Rightarrow> rat option" where
  "average_of xs = (if xs = [] then None else num_op (/) (foldl (num_op (+)) (Some 0) xs) (Some (of_nat (length xs))))"

definition triangle :: "rat option \<Rightarrow> rat option \<Rightarrow> rat option \<Rightarrow> rat option \<Rightarrow> rat option \<Rightarrow> rat option \<Rightarrow> rat option" where
  "triangle ax ay avgX avgY x y = map_option abs
     (num_op (-) (num_op (*) (num_op (-) ax avgX) (num_op (-) y ay)) (num_op (*) (num_op (-) ax x) (num_op (-) avgY ay)))"

text \<open>\<open>Math.floor(bucket * every)\<close>.\<close>

definition bucket_start :: "nat \<Rightarrow> nat \<Rightarrow> nat \<Rightarrow> nat" where
  "bucket_start n keep b = nat \<lfloor>round_double (of_nat b * round_double (of_nat (n - 2) / of_nat (keep - 2)))\<rfloor>"

text \<open>The inner loop over the rows of a bucket: the largest area so far and its row.\<close>

fun pick_row :: "(nat \<Rightarrow> rat option) \<Rightarrow> nat list \<Rightarrow> rat \<Rightarrow> nat \<Rightarrow> nat" where
  "pick_row area [] best anchor = anchor"
| "pick_row area (i # is) best anchor = (case area i of
       Some a \<Rightarrow> if a > best then pick_row area is a i else pick_row area is best anchor
     | None \<Rightarrow> pick_row area is best anchor)"

definition lttb_bucket :: "archive_env \<Rightarrow> archive_row list \<Rightarrow> string \<Rightarrow> string \<Rightarrow> nat \<Rightarrow> nat \<Rightarrow> nat \<Rightarrow> nat" where
  "lttb_bucket e rows x y keep anchor b =
     (let n = length rows; X = (\<lambda>i. epoch e (cell_of (rows ! i) x)); Y = (\<lambda>i. to_number e (cell_of (rows ! i) y));
          avgStart0 = bucket_start n keep (b + 1) + 1; avgEnd0 = min (bucket_start n keep (b + 2) + 1) n;
          (avgStart, avgEnd) = (if avgEnd0 \<le> avgStart0 then (n - 1, n) else (avgStart0, avgEnd0));
          avgX = average_of (map X [avgStart..<avgEnd]); avgY = average_of (map Y [avgStart..<avgEnd]);
          start = bucket_start n keep b + 1; stop = max (start + 1) (min (bucket_start n keep (b + 1) + 1) (n - 1))
      in pick_row (\<lambda>i. triangle (X anchor) (Y anchor) avgX avgY (X i) (Y i)) [start..<stop] (- 1) anchor)"

fun lttb_buckets :: "archive_env \<Rightarrow> archive_row list \<Rightarrow> string \<Rightarrow> string \<Rightarrow> nat \<Rightarrow> nat \<Rightarrow> nat list \<Rightarrow> nat list" where
  "lttb_buckets e rows x y keep anchor [] = []"
| "lttb_buckets e rows x y keep anchor (b # bs) =
     (let a = lttb_bucket e rows x y keep anchor b in a # lttb_buckets e rows x y keep a bs)"

definition lttb :: "archive_env \<Rightarrow> archive_row list \<Rightarrow> string \<Rightarrow> string \<Rightarrow> nat \<Rightarrow> archive_row list" where
  "lttb e rows x y keep =
     (if length rows \<le> keep then rows
      else if keep = 1 then [rows ! 0]
      else if keep = 2 then [rows ! 0, last rows]
      else [rows ! 0] @ map (\<lambda>i. rows ! i) (lttb_buckets e rows x y keep 0 [0..<keep - 2]) @ [last rows])"

definition no_info :: "downsample_mode \<Rightarrow> downsample_info" where
  "no_info m = \<lparr>di_mode = m, di_overLimit = False, di_inputRows = None, di_outputRows = None, di_target = None, di_cap = None,
     di_entityColumn = None, di_entities = None, di_maxPerEntity = None, di_x = None, di_y = None, di_dropped = None\<rparr>"

definition usable_row :: "archive_env \<Rightarrow> string \<Rightarrow> string \<Rightarrow> archive_row \<Rightarrow> bool" where
  "usable_row e x y row \<longleftrightarrow> epoch e (cell_of row x) \<noteq> None
     \<and> (case cell_of row y of CNum _ \<Rightarrow> True | CBool _ \<Rightarrow> True | _ \<Rightarrow> False)"

definition entity_compare :: "archive_env \<Rightarrow> table_downsample \<Rightarrow> bool \<Rightarrow> archive_row \<Rightarrow> archive_row \<Rightarrow> int" where
  "entity_compare e spec byX a b =
     (let first = (case ds_entityColumn spec of Some c \<Rightarrow> if c = [] then 0 else compareCells e (cell_of a c) (cell_of b c) False | None \<Rightarrow> 0)
      in if first \<noteq> 0 then first
         else if byX then compareNumbers (epoch e (cell_of a (coalesce (ds_x spec) []))) (epoch e (cell_of b (coalesce (ds_x spec) []))) else 0)"

definition entity_key :: "table_downsample \<Rightarrow> archive_row \<Rightarrow> tcell" where
  "entity_key spec row = (if truthy_str (ds_entityColumn spec) then cell_of row (coalesce (ds_entityColumn spec) []) else CStr [])"

definition thin_group :: "archive_env \<Rightarrow> table_downsample \<Rightarrow> bool \<Rightarrow> archive_row list \<Rightarrow> archive_row list" where
  "thin_group e spec stride grp =
     (let cap = coalesce (ds_maxPerEntity spec) 500
      in if stride then evenRows grp cap
         else lttb e (filter (usable_row e (coalesce (ds_x spec) []) (coalesce (ds_y spec) [])) grp)
           (coalesce (ds_x spec) []) (coalesce (ds_y spec) []) cap)"

definition downsample_groups :: "archive_env \<Rightarrow> table_query \<Rightarrow> table_downsample \<Rightarrow> bool \<Rightarrow> archive_row list \<Rightarrow> archive_row list \<times> downsample_info" where
  "downsample_groups e q spec stride rows =
     (let sorted = ae_sort e (entity_compare e spec (\<not> stride)) rows;
          groups = map snd (foldl (\<lambda>g r. add_to_group g (entity_key spec r) r) [] sorted);
          reduced = map (thin_group e spec stride) groups;
          over = truthy_str (ds_entityColumn spec) \<and> tq_offset q = None \<and> tq_limit q < length (concat reduced);
          cap = max 1 (tq_limit q div length groups);
          final = concat (if over then map (\<lambda>g. evenRows g cap) reduced else reduced);
          dropped = length (concat groups) - length (concat (map (filter (usable_row e (coalesce (ds_x spec) []) (coalesce (ds_y spec) []))) groups))
      in (final, (no_info (if stride then DStride else DPerEntityLttb))\<lparr>di_inputRows := Some (length rows), di_outputRows := Some (length final),
          di_cap := (if over then Some cap else None), di_entityColumn := ds_entityColumn spec, di_entities := Some (length groups),
          di_maxPerEntity := Some (coalesce (ds_maxPerEntity spec) 500), di_x := (if stride then None else ds_x spec),
          di_y := (if stride then None else ds_y spec), di_dropped := (if stride then None else Some dropped)\<rparr>))"

definition downsampleArchiveRows :: "archive_env \<Rightarrow> archive_row list \<Rightarrow> table_query \<Rightarrow> (archive_row list \<times> downsample_info) result" where
  "downsampleArchiveRows e rows q = (case tq_downsample q of
       None \<Rightarrow>
         if tq_offset q = None \<and> tq_sort q = [] \<and> tq_limit q < length rows
         then Inr (evenRows rows (tq_limit q), (no_info DStride)\<lparr>di_overLimit := True, di_inputRows := Some (length rows), di_outputRows := Some (tq_limit q)\<rparr>)
         else Inr (rows, no_info DNone)
     | Some spec \<Rightarrow> (case coalesce (ds_mode spec) DNone of
           DNone \<Rightarrow> Inr (rows, (no_info DNone)\<lparr>di_inputRows := Some (length rows), di_outputRows := Some (length rows)\<rparr>)
         | DStride \<Rightarrow>
             if \<not> truthy_str (ds_entityColumn spec)
             then (let kept = evenRows rows (tq_limit q)
               in Inr (kept, (no_info DStride)\<lparr>di_inputRows := Some (length rows), di_target := Some (tq_limit q), di_outputRows := Some (length kept)\<rparr>))
             else Inr (downsample_groups e q spec True rows)
         | DPerEntityLttb \<Rightarrow>
             if \<not> truthy_str (ds_x spec) \<or> \<not> truthy_str (ds_y spec) then Inl (PlainError ''LTTB requires x and y columns.'')
             else Inr (downsample_groups e q spec False rows)))"

section \<open>The query\<close>

definition source_rows :: "table_result \<Rightarrow> archive_row list" where
  "source_rows source = map (\<lambda>i. \<lparr>aw_index = i, aw_cells = obj_of_entries
     (map (\<lambda>(c, vs). (c, if i < length vs then vs ! i else CUndef)) (tb_columns source))\<rparr>) [0..<tb_returnedRows source]"

definition sort_rows :: "archive_env \<Rightarrow> table_sort list \<Rightarrow> archive_row list \<Rightarrow> archive_row list" where
  "sort_rows e sorts rows = foldl (\<lambda>rs s. ae_sort e (\<lambda>a b. compareCells e (cell_of a (so_column s)) (cell_of b (so_column s)) (so_desc s)) rs)
     rows (rev sorts)"

definition answer_names :: "table_result \<Rightarrow> table_query \<Rightarrow> archive_row list \<Rightarrow> string list" where
  "answer_names source q rows = (case tq_columns q of
       Some (c # cs) \<Rightarrow> c # cs
     | _ \<Rightarrow> (case rows of r # _ \<Rightarrow> obj_keys (aw_cells r) | [] \<Rightarrow> obj_keys (tb_columns source)))"

definition shown_cell :: "tcell \<Rightarrow> tcell" where
  "shown_cell c = (if nullish c then CNull else c)"

definition key_at :: "tcell list \<Rightarrow> nat \<Rightarrow> tcell" where
  "key_at vs i = (if i < length vs then vs ! i else CUndef)"

definition table_answer :: "table_result \<Rightarrow> table_query \<Rightarrow> nat \<Rightarrow> downsample_info \<Rightarrow> archive_row list \<Rightarrow> table_result" where
  "table_answer source q matched info all =
     (let start = coalesce (tq_offset q) 0; rows = take (tq_limit q) (drop start all); names = answer_names source q rows
      in source\<lparr>tb_schema := map (\<lambda>n. (n, coalesce (map_of (tb_schema source) n) ''float64'')) names,
          tb_columns := obj_of_entries (map (\<lambda>n. (n, map (\<lambda>r. shown_cell (cell_of r n)) rows)) names),
          tb_matchedRows := matched, tb_returnedRows := length rows, tb_truncated := (tq_limit q < length all - start),
          tb_offset := start, tb_downsample := Some info,
          tb_rowKey := (if tq_aggregate q = None then map_option (\<lambda>(c, vs). (c, map (\<lambda>r. key_at vs (aw_index r)) rows))
            (tb_rowKey source) else None)\<rparr>)"

definition queryArchiveTable :: "archive_env \<Rightarrow> table_result \<Rightarrow> table_query \<Rightarrow> table_result result" where
  "queryArchiveTable e source q =
     bindR (map_result (typed_filter e (tb_schema source)) (tq_filter q)) (\<lambda>filters.
     bindR (filter_rows e filters (source_rows source)) (\<lambda>filtered.
       let rows = (case tq_aggregate q of Some a \<Rightarrow> aggregate_rows e a filtered | None \<Rightarrow> filtered)
       in bindR (downsampleArchiveRows e rows q) (\<lambda>(sampled, info).
            Inr (table_answer source q (length rows) info (sort_rows e (tq_sort q) sampled)))))"

end
