(* ===== verification/Js_Rounding.thy ===== *)
theory Js_Rounding
  imports Js_Number
begin

text \<open>
  Bounds on the rounding of \<open>Js_Number\<close>: a number between two integers is not rounded past
  them, and a number of moderate size is rounded by little. They carry the proofs about code
  that computes indices with the language's division.
\<close>

lemma pow2_powi: "pow2 e = 2 powi e"
  by (simp add: pow2_def power_int_def field_simps)

lemma pow2_pos [simp]: "0 < pow2 e"
  by (simp add: pow2_powi)

lemma pow2_le_iff [simp]: "pow2 a \<le> pow2 b \<longleftrightarrow> a \<le> b"
proof -
  have "pow2 a < pow2 b" if "a < b" for a b
    using that power_int_strict_increasing [of a b "2 :: rat"] by (simp add: pow2_powi)
  then show ?thesis by (metis linorder_not_less order_less_imp_le order_le_less)
qed

lemma pow2_less_iff [simp]: "pow2 a < pow2 b \<longleftrightarrow> a < b"
  by (metis linorder_not_less pow2_le_iff)

lemma pow2_diff: "pow2 (a - b) = pow2 a / pow2 b"
  by (simp add: pow2_powi power_int_diff)

lemma pow2_nat: "pow2 (int n) = 2 ^ n"
  by (simp add: pow2_def)

lemma floor_log2_le:
  assumes "0 < x"
  shows "pow2 (floor_log2 x) \<le> x"
proof -
  obtain p q where pq: "quotient_of x = (p, q)" by force
  have q: "0 < q" using quotient_of_denom_pos [OF pq] .
  have x: "x = of_int p / of_int q" using quotient_of_div [OF pq] .
  with assms q have p: "0 < p" by (simp add: zero_less_divide_iff)
  define k where "k = int (bitlen (nat p)) - int (bitlen (nat q))"
  have "2 ^ (bitlen (nat p) - 1) \<le> nat p" "nat q < 2 ^ bitlen (nat q)" "0 < bitlen (nat p)"
    using bitlen_bounds [of "nat p"] bitlen_bounds [of "nat q"] p q by auto
  then have "(2::rat) ^ (bitlen (nat p) - 1) \<le> of_int p" "of_int q \<le> (2::rat) ^ bitlen (nat q)"
    using p q by (metis of_int_of_nat_eq of_nat_le_iff of_nat_numeral of_nat_power zero_less_imp_eq_int nat_int)
      (metis order_less_imp_le q of_int_of_nat_eq of_nat_less_iff of_nat_numeral of_nat_power zero_less_imp_eq_int nat_int \<open>nat q < 2 ^ bitlen (nat q)\<close>)
  then have "pow2 (int (bitlen (nat p) - 1)) / pow2 (int (bitlen (nat q))) \<le> x"
    unfolding x pow2_nat using p q by (intro frac_le) auto
  then have "pow2 (k - 1) \<le> x"
    using \<open>0 < bitlen (nat p)\<close> by (simp add: k_def pow2_diff [symmetric] of_nat_diff algebra_simps)
  then show ?thesis by (simp add: floor_log2_def pq Let_def k_def [symmetric])
qed

lemma floor_log2_less: "0 < x \<Longrightarrow> x < 2 ^ n \<Longrightarrow> floor_log2 x < int n"
  using floor_log2_le [of x] by (metis le_less_trans pow2_less_iff pow2_nat)

lemma round_half_even_near: "\<bar>of_int (round_half_even y) - y\<bar> \<le> 1 / 2"
  unfolding round_half_even_def Let_def using floor_correct [of y] by (auto simp: abs_le_iff)

lemma round_half_even_ge: "of_int k \<le> y \<Longrightarrow> k \<le> round_half_even y"
proof -
  assume "of_int k \<le> y"
  then have "k \<le> \<lfloor>y\<rfloor>" by (simp add: le_floor_iff)
  then show ?thesis by (auto simp: round_half_even_def Let_def)
qed

lemma round_half_even_le:
  assumes "y \<le> of_int k"
  shows "round_half_even y \<le> k"
proof (cases "y = of_int k")
  case False
  with assms have "y < of_int k" by simp
  then have "\<lfloor>y\<rfloor> < k" by (simp add: floor_less_iff)
  then show ?thesis by (auto simp: round_half_even_def Let_def)
qed simp

text \<open>The unit of a positive number below \<open>2 ^ n\<close>.\<close>

definition unit_of :: "rat \<Rightarrow> int" where
  "unit_of x = max (floor_log2 \<bar>x\<bar> - 52) (- 1074)"

lemma round_double_unit: "x \<noteq> 0 \<Longrightarrow> round_double x = of_int (round_half_even (x / pow2 (unit_of x))) * pow2 (unit_of x)"
  by (simp add: round_double_def unit_of_def Let_def)

lemma unit_of_le: "0 < x \<Longrightarrow> x < 2 ^ n \<Longrightarrow> n \<le> 1000 \<Longrightarrow> unit_of x \<le> int n - 53"
  using floor_log2_less [of x n] by (simp add: unit_of_def)

lemma int_of_units:
  assumes "e \<le> 0"
  shows "of_int m / pow2 e = of_int (m * 2 ^ nat (- e))"
  using assms by (auto simp: pow2_def)

text \<open>A multiple of \<open>1 / 2 ^ k\<close> that is small enough is a double, and rounding does not cross it.\<close>

lemma grid_of_units:
  assumes "e + int k \<le> 0"
  shows "of_int m / 2 ^ k / pow2 e = of_int (m * 2 ^ nat (- e - int k))"
proof -
  have "pow2 e * 2 ^ k = pow2 (e + int k)" by (simp add: pow2_powi power_int_add)
  then have "of_int m / 2 ^ k / pow2 e = of_int m / pow2 (e + int k)" by (simp add: mult.commute)
  also have "\<dots> = of_int (m * 2 ^ nat (- e - int k))" using int_of_units [OF assms, of m] by (simp add: algebra_simps)
  finally show ?thesis .
qed

lemma round_double_grid_ge:
  assumes "of_int m / 2 ^ k \<le> x" "0 < x" "x < 2 ^ (53 - k)" "k \<le> 53"
  shows "of_int m / 2 ^ k \<le> round_double x"
proof -
  have e: "unit_of x + int k \<le> 0" using unit_of_le [OF assms(2,3)] assms(4) by linarith
  have "of_int (m * 2 ^ nat (- unit_of x - int k)) \<le> x / pow2 (unit_of x)"
    unfolding grid_of_units [OF e, symmetric] using assms(1) by (rule divide_right_mono) (simp add: less_imp_le)
  then have "of_int m / 2 ^ k / pow2 (unit_of x) \<le> of_int (round_half_even (x / pow2 (unit_of x)))"
    unfolding grid_of_units [OF e] of_int_le_iff by (rule round_half_even_ge)
  then show ?thesis unfolding pos_divide_le_eq [OF pow2_pos] using assms(2) by (simp add: round_double_unit)
qed

lemma round_double_grid_le:
  assumes "x \<le> of_int m / 2 ^ k" "0 < x" "x < 2 ^ (53 - k)" "k \<le> 53"
  shows "round_double x \<le> of_int m / 2 ^ k"
proof -
  have e: "unit_of x + int k \<le> 0" using unit_of_le [OF assms(2,3)] assms(4) by linarith
  have "x / pow2 (unit_of x) \<le> of_int (m * 2 ^ nat (- unit_of x - int k))"
    unfolding grid_of_units [OF e, symmetric] using assms(1) by (rule divide_right_mono) (simp add: less_imp_le)
  then have "of_int (round_half_even (x / pow2 (unit_of x))) \<le> of_int m / 2 ^ k / pow2 (unit_of x)"
    unfolding grid_of_units [OF e] of_int_le_iff by (rule round_half_even_le)
  then show ?thesis unfolding pos_le_divide_eq [OF pow2_pos] using assms(2) by (simp add: round_double_unit)
qed

lemmas round_double_ge = round_double_grid_ge [where k = 0, simplified]
lemmas round_double_le = round_double_grid_le [where k = 0, simplified]

lemma round_double_grid: "0 < m \<Longrightarrow> of_int m / 2 ^ k < (2 :: rat) ^ (53 - k) \<Longrightarrow> k \<le> 53 \<Longrightarrow> round_double (of_int m / 2 ^ k) = of_int m / 2 ^ k"
  by (intro antisym round_double_grid_ge round_double_grid_le) simp_all

lemma round_double_near:
  assumes "0 < x" "x < 2 ^ n" "n \<le> 1000"
  shows "\<bar>round_double x - x\<bar> \<le> pow2 (int n - 54)"
proof -
  let ?u = "pow2 (unit_of x)"
  have "\<bar>round_double x - x\<bar> = \<bar>of_int (round_half_even (x / ?u)) - x / ?u\<bar> * ?u"
  proof -
    have "round_double x - x = (of_int (round_half_even (x / ?u)) - x / ?u) * ?u"
      using assms(1) by (simp add: round_double_unit left_diff_distrib less_imp_neq [OF pow2_pos, symmetric])
    then show ?thesis by (simp add: abs_mult abs_of_pos)
  qed
  also have "\<dots> \<le> 1 / 2 * ?u" by (intro mult_right_mono round_half_even_near) (simp add: less_imp_le)
  also have "\<dots> \<le> 1 / 2 * pow2 (int n - 53)" using unit_of_le [OF assms] by simp
  also have "\<dots> = pow2 (int n - 54)" using pow2_diff [of "int n - 53" 1] by (simp add: pow2_def [of 1])
  finally show ?thesis .
qed

lemma round_double_above:
  assumes "0 < x" "x < 2 ^ 26"
  shows "round_double x \<le> x + 1 / 2 ^ 28 \<and> 0 \<le> round_double x"
proof -
  have "\<bar>round_double x - x\<bar> \<le> 1 / 2 ^ 28" using round_double_near [OF assms] by (simp add: pow2_def)
  then show ?thesis using round_double_ge [of 0 x] assms abs_ge_self [of "round_double x - x"] by simp
qed

lemma round_double_0 [simp]: "round_double 0 = 0"
  by (simp add: round_double_def)

lemma round_double_nat: "n < 2 ^ 53 \<Longrightarrow> round_double (of_nat n) = of_nat n"
  using round_double_int [of "int n"] by simp

text \<open>The comparison with one half that the code makes on the fraction of a computed index.\<close>

lemma round_double_half:
  assumes "0 < r" "r < 1" "round_double r = 1 / 2"
  shows "\<bar>r - 1 / 2\<bar> \<le> pow2 (- 54)"
  using round_double_near [of r 0] assms by (simp add: abs_minus_commute)

lemma round_half_even_strict: "x + 1 < y \<Longrightarrow> round_half_even x < round_half_even y"
proof -
  assume "x + 1 < y"
  moreover have "of_int (round_half_even x) \<le> x + 1 / 2" "y - 1 / 2 \<le> of_int (round_half_even y)"
    using round_half_even_near [of x] round_half_even_near [of y] by linarith+
  ultimately have "of_int (round_half_even x) < (of_int (round_half_even y) :: rat)" by linarith
  then show ?thesis by simp
qed

text \<open>
  The nearest integer of a quotient, as code writes it that wants a half to go to the even
  neighbour: an exact half is found by comparing the computed fraction with \<open>0.5\<close>. For quotients
  of moderate integers this is the exact rounding of the exact quotient.
\<close>

definition code_round :: "rat \<Rightarrow> int" where
  "code_round index = (let low = \<lfloor>index\<rfloor> in if round_double (index - of_int low) = 1 / 2 then low + low mod 2 else \<lfloor>index + 1 / 2\<rfloor>)"

lemma round_half_even_between:
  assumes "of_int j < 2 * x" "2 * x < of_int j + 1"
  shows "\<lfloor>x\<rfloor> = j div 2" and "round_half_even x = (j + 1) div 2" and "\<lfloor>x + 1 / 2\<rfloor> = (j + 1) div 2"
proof -
  have j: "j = 2 * (j div 2) + j mod 2" by simp
  have "of_int j = 2 * of_int (j div 2) + (of_int (j mod 2) :: rat)" by (metis j of_int_add of_int_mult of_int_numeral)
  moreover have "j mod 2 = 0 \<or> j mod 2 = 1" by auto
  ultimately have r: "(j mod 2 = 0 \<and> of_int (j div 2) < x \<and> x < of_int (j div 2) + 1 / 2)
      \<or> (j mod 2 = 1 \<and> of_int (j div 2) + 1 / 2 < x \<and> x < of_int (j div 2) + 1)"
    using assms by auto
  then show f: "\<lfloor>x\<rfloor> = j div 2" by (intro floor_unique) auto
  have d: "(j + 1) div 2 = j div 2 + j mod 2" by presburger
  show "\<lfloor>x + 1 / 2\<rfloor> = (j + 1) div 2" using r unfolding d by (intro floor_unique) auto
  show "round_half_even x = (j + 1) div 2"
    using r unfolding round_half_even_def Let_def f by (elim disjE) (auto, presburger+)
qed

lemma code_round_between:
  assumes "of_int j + 1 / 2 ^ 26 < 2 * y" "2 * y < of_int j + 1 - 1 / 2 ^ 26"
  shows "code_round y = (j + 1) div 2"
proof -
  have b: "of_int j < 2 * y" "2 * y < of_int j + 1" using assms by auto
  note f = round_half_even_between [OF b]
  have frac: "\<not> round_double (y - of_int \<lfloor>y\<rfloor>) = 1 / 2"
  proof
    assume h: "round_double (y - of_int \<lfloor>y\<rfloor>) = 1 / 2"
    then have "0 < y - of_int \<lfloor>y\<rfloor>" by (cases "y - of_int \<lfloor>y\<rfloor> = 0") (auto simp: less_le)
    then have "\<bar>y - of_int \<lfloor>y\<rfloor> - 1 / 2\<bar> \<le> pow2 (- 54)" using h by (intro round_double_half) (auto, linarith)
    then have near: "\<bar>2 * y - of_int (2 * \<lfloor>y\<rfloor> + 1)\<bar> \<le> 1 / 2 ^ 53" by (simp add: pow2_def abs_le_iff field_simps)
    have "2 * \<lfloor>y\<rfloor> + 1 \<le> j \<or> j + 1 \<le> 2 * \<lfloor>y\<rfloor> + 1" by auto
    then have "of_int (2 * \<lfloor>y\<rfloor> + 1) \<le> (of_int j :: rat) \<or> of_int (j + 1) \<le> (of_int (2 * \<lfloor>y\<rfloor> + 1) :: rat)"
      unfolding of_int_le_iff .
    then show False using assms near by (auto simp: abs_le_iff)
  qed
  then show ?thesis using frac f by (simp add: code_round_def)
qed

lemma code_round_exact:
  assumes "2 * x = of_int j" "0 < x" "x < 2 ^ 50"
  shows "code_round (round_double x) = round_half_even x"
proof -
  have "0 < j" using assms(1,2) by (metis mult_pos_pos of_int_0_less_iff zero_less_numeral)
  moreover have x: "x = of_int j / 2 ^ 1" using assms(1) by simp
  ultimately have "round_double x = x" unfolding x using assms(3) by (intro round_double_grid) (simp_all add: x)
  moreover have "code_round x = round_half_even x"
  proof -
    let ?r = "x - of_int \<lfloor>x\<rfloor>"
    have "2 * ?r = of_int (j - 2 * \<lfloor>x\<rfloor>)" using assms(1) by simp
    moreover have "0 \<le> 2 * ?r" "2 * ?r < 2" using floor_correct [of x] by simp_all
    ultimately have "of_int 0 \<le> (of_int (j - 2 * \<lfloor>x\<rfloor>) :: rat)" "of_int (j - 2 * \<lfloor>x\<rfloor>) < (of_int 2 :: rat)" by simp_all
    then have "j - 2 * \<lfloor>x\<rfloor> = 0 \<or> j - 2 * \<lfloor>x\<rfloor> = 1" unfolding of_int_le_iff of_int_less_iff by linarith
    then have r: "?r = 0 \<or> ?r = 1 / 2" using \<open>2 * ?r = _\<close> by auto
    have half: "round_double (1 / 2) = 1 / 2" using round_double_grid [of 1 1] by simp
    show ?thesis
    proof (cases "?r = 0")
      case True
      then have "\<lfloor>x + 1 / 2\<rfloor> = \<lfloor>x\<rfloor>" by (intro floor_unique) auto
      with True show ?thesis by (simp add: code_round_def round_half_even_def)
    next
      case False
      with r have h: "?r = 1 / 2" by simp
      then have "code_round x = \<lfloor>x\<rfloor> + \<lfloor>x\<rfloor> mod 2" unfolding code_round_def Let_def h half by simp
      also have "\<dots> = round_half_even x" unfolding round_half_even_def Let_def h by (simp add: odd_iff_mod_2_eq_one)
      finally show ?thesis .
    qed
  qed
  ultimately show ?thesis by simp
qed

text \<open>A quotient that is not a given integer is away from it by one part of the divisor.\<close>

lemma quotient_gap:
  fixes d p :: nat
  assumes "0 < d" "of_int j < 2 * (of_nat p / of_nat d :: rat)"
  shows "of_int j + 1 / of_nat d \<le> 2 * (of_nat p / of_nat d :: rat)"
proof -
  have "of_int (j * int d) < (of_int (2 * int p) :: rat)" using assms by (simp add: field_simps)
  then have "j * int d + 1 \<le> 2 * int p" unfolding of_int_less_iff by simp
  then have "of_int (j * int d + 1) \<le> (of_int (2 * int p) :: rat)" unfolding of_int_le_iff .
  then have "(of_int j * of_nat d + 1) / of_nat d \<le> (2 * of_nat p / of_nat d :: rat)" by (intro divide_right_mono) simp_all
  then show ?thesis using assms(1) by (simp add: add_divide_distrib)
qed

lemma quotient_gap':
  fixes d p :: nat
  assumes "0 < d" "2 * (of_nat p / of_nat d :: rat) < of_int j + 1"
  shows "2 * (of_nat p / of_nat d :: rat) + 1 / of_nat d \<le> of_int j + 1"
proof -
  have "of_int (2 * int p) < (of_int ((j + 1) * int d) :: rat)" using assms by (simp add: field_simps)
  then have "2 * int p + 1 \<le> (j + 1) * int d" unfolding of_int_less_iff by simp
  then have "of_int (2 * int p + 1) \<le> (of_int ((j + 1) * int d) :: rat)" unfolding of_int_le_iff .
  then have "(2 * of_nat p + 1) / of_nat d \<le> ((of_int j + 1) * of_nat d / of_nat d :: rat)" by (intro divide_right_mono) simp_all
  then show ?thesis using assms(1) by (simp add: add_divide_distrib)
qed

lemma code_round_quotient:
  fixes p d :: nat
  assumes "0 < d" "d < 2 ^ 25" "p < 2 ^ 25 * d"
  shows "code_round (round_double (of_nat p / of_nat d)) = round_half_even (of_nat p / of_nat d)"
proof (cases "p = 0")
  case True
  then show ?thesis by (simp add: code_round_def round_half_even_def floor_eq_iff)
next
  case False
  define x where "x = (of_nat p / of_nat d :: rat)"
  have x: "0 < x" "x < 2 ^ 25" using False assms by (auto simp: x_def divide_less_eq simp flip: of_nat_mult of_nat_power)
  define j where "j = \<lfloor>2 * x\<rfloor>"
  show ?thesis
  proof (cases "2 * x = of_int j")
    case True
    then show ?thesis using x code_round_exact unfolding x_def [symmetric] by fastforce
  next
    case False
    have "of_int j < 2 * x" "2 * x < of_int j + 1" using False floor_correct [of "2 * x"] by (auto simp: j_def less_le)
    then have b: "of_int j + 1 / of_nat d \<le> 2 * x" "2 * x + 1 / of_nat d \<le> of_int j + 1"
      using quotient_gap [of d j p] quotient_gap' [of d p j] assms(1) by (simp_all add: x_def)
    have "1 / 2 ^ 25 < (1 / of_nat d :: rat)" using assms(1,2) by (intro divide_strict_left_mono) (simp_all flip: of_nat_power add: of_nat_less_numeral_iff)
    moreover have "\<bar>round_double x - x\<bar> \<le> 1 / 2 ^ 29" using round_double_near [of x 25] x by (simp add: pow2_def)
    moreover define c where "c = (1 / 2 ^ 29 :: rat)"
    moreover have "0 < c" "1 / 2 ^ 25 = 16 * c" "1 / 2 ^ 26 = 8 * c" by (simp_all add: c_def)
    ultimately have "of_int j + 1 / 2 ^ 26 < 2 * round_double x" "2 * round_double x < of_int j + 1 - 1 / 2 ^ 26"
      using b unfolding c_def [symmetric] by (auto simp: abs_le_iff)
    then have "code_round (round_double x) = (j + 1) div 2" by (rule code_round_between)
    then show ?thesis using round_half_even_between(2) [of j x] \<open>of_int j < 2 * x\<close> \<open>2 * x < of_int j + 1\<close> by (simp add: x_def)
  qed
qed

end
