(* ===== verification/Archive_Query.thy ===== *)
theory Archive_Query
  imports Archive_Table Js_Rounding "HOL-Library.Sublist"
begin

text \<open>
  What the archive's table queries answer: thinning takes a subsequence of the rows and keeps the
  ends, although its places are computed with rounded divisions; the page of an answer holds rows
  of the source that pass the filters, each at most once, with columns and keys in step.
\<close>

section \<open>Even thinning\<close>

text \<open>The place the server takes: the exact quotient, rounded half to even.\<close>

definition even_place :: "nat \<Rightarrow> nat \<Rightarrow> nat \<Rightarrow> nat" where
  "even_place n keep i = nat (round_half_even (of_nat (i * (n - 1)) / of_nat (keep - 1)))"

lemma even_index_exact:
  assumes "2 \<le> keep" "keep < n" "n \<le> 2 ^ 25" "i < keep"
  shows "even_index n keep i = even_place n keep i"
proof -
  have le: "i * (n - 1) \<le> (keep - 1) * (n - 1)" using assms by (intro mult_right_mono) auto
  also have "\<dots> < (keep - 1) * 2 ^ 25" using assms by (intro mult_strict_left_mono) auto
  finally have p: "i * (n - 1) < 2 ^ 25 * (keep - 1)" by (simp add: mult.commute)
  have "2 ^ 25 * (keep - 1) \<le> 2 ^ 25 * 2 ^ 25" using assms by (intro mult_left_mono) auto
  then have exact: "round_double (of_nat (i * (n - 1))) = of_nat (i * (n - 1))"
    using p by (intro round_double_nat) (simp add: less_le_trans)
  have "even_index n keep i = nat (code_round (round_double (of_nat (i * (n - 1)) / of_nat (keep - 1))))"
    unfolding even_index_def code_round_def exact Let_def ..
  also have "\<dots> = even_place n keep i"
    unfolding even_place_def using assms by (subst code_round_quotient [OF _ _ p]) auto
  finally show ?thesis .
qed

lemma even_place_strict:
  assumes "2 \<le> keep" "keep < n" "i < j"
  shows "even_place n keep i < even_place n keep j"
proof -
  define step where "step = (of_nat (n - 1) / of_nat (keep - 1) :: rat)"
  have x: "of_nat (k * (n - 1)) / of_nat (keep - 1) = of_nat k * step" for k by (simp add: step_def)
  have "1 < step" using assms by (simp add: step_def divide_simps)
  then have "of_nat i * step + 1 < of_nat (i + 1) * step" by (simp add: algebra_simps)
  also have "\<dots> \<le> of_nat j * step" using assms \<open>1 < step\<close> by (intro mult_right_mono) auto
  finally have "of_nat (i * (n - 1)) / of_nat (keep - 1) + 1 < (of_nat (j * (n - 1)) / of_nat (keep - 1) :: rat)" unfolding x .
  then have "round_half_even (of_nat (i * (n - 1)) / of_nat (keep - 1)) < round_half_even (of_nat (j * (n - 1)) / of_nat (keep - 1))"
    by (rule round_half_even_strict)
  moreover have "0 \<le> round_half_even (of_nat (i * (n - 1)) / of_nat (keep - 1))" by (rule round_half_even_ge) simp
  ultimately show ?thesis by (simp add: even_place_def)
qed

lemma even_place_ends [simp]:
  "even_place n keep 0 = 0" "2 \<le> keep \<Longrightarrow> even_place n keep (keep - 1) = n - 1"
  using round_half_even_int [of 0] round_half_even_int [of "int (n - 1)"] by (auto simp: even_place_def)

text \<open>Increasing places pick a subsequence.\<close>

lemma subseq_nth:
  assumes "sorted_wrt (<) is" "\<forall>i\<in>set is. i < length xs"
  shows "subseq (map ((!) xs) is) xs"
proof -
  have "subseq is [0..<length xs]" using assms by (intro sorted_subset_imp_subseq) auto
  then have "subseq (map ((!) xs) is) (map ((!) xs) [0..<length xs])" by (rule subseq_map)
  then show ?thesis by (simp add: map_nth)
qed

lemma evenRows_places:
  assumes "2 \<le> keep" "keep < length rows" "length rows \<le> 2 ^ 25"
  shows "evenRows rows keep = map ((!) rows) (map (even_place (length rows) keep) [0..<keep])"
  using assms by (auto simp: evenRows_def even_index_exact)

lemma even_place_less: "2 \<le> keep \<Longrightarrow> keep < n \<Longrightarrow> i < keep \<Longrightarrow> even_place n keep i < n"
  using even_place_strict [of keep n i "keep - 1"] even_place_ends(2) [of keep n] by (cases "i < keep - 1") (auto simp: not_less le_less)

lemma evenRows_subseq:
  assumes "length rows \<le> 2 ^ 25"
  shows "subseq (evenRows rows keep) rows"
proof -
  consider "length rows \<le> keep" | "keep = 0" "keep < length rows" | "keep = 1" "keep < length rows" | "2 \<le> keep" "keep < length rows" by linarith
  then show ?thesis
  proof cases
    case 4
    have "sorted_wrt (<) (map (even_place (length rows) keep) [0..<keep])"
      using 4 by (auto simp: sorted_wrt_iff_nth_less intro: even_place_strict)
    then show ?thesis unfolding evenRows_places [OF 4 assms] using 4 by (intro subseq_nth) (auto intro: even_place_less)
  next
    case 3
    then have "rows ! 0 \<in> set rows" by (intro nth_mem) linarith
    with 3 show ?thesis by (simp add: evenRows_def subseq_singleton_left)
  qed (auto simp: evenRows_def)
qed

lemma length_evenRows [simp]: "length (evenRows rows keep) = min keep (length rows)"
  by (auto simp: evenRows_def)

lemma evenRows_ends:
  assumes "2 \<le> keep" "rows \<noteq> []" "length rows \<le> 2 ^ 25"
  shows "hd (evenRows rows keep) = hd rows" "last (evenRows rows keep) = last rows"
proof -
  have "hd (evenRows rows keep) = hd rows \<and> last (evenRows rows keep) = last rows"
  proof (cases "length rows \<le> keep")
    case False
    then have "evenRows rows keep = map ((!) rows) (map (even_place (length rows) keep) [0..<keep])"
      using assms by (intro evenRows_places) auto
    then show ?thesis using assms even_place_ends(2) [of keep "length rows"] by (simp add: hd_map last_map hd_conv_nth last_conv_nth)
  qed (simp add: evenRows_def)
  then show "hd (evenRows rows keep) = hd rows" "last (evenRows rows keep) = last rows" by auto
qed

section \<open>Buckets\<close>

text \<open>
  With \<open>3 \<le> keep < n \<le> 2 ^ 25\<close> rows the starts of the buckets, computed with rounded numbers, still
  increase, and the last bucket starts before the last row.
\<close>

definition bucket_step :: "nat \<Rightarrow> nat \<Rightarrow> rat" where
  "bucket_step n keep = round_double (of_nat (n - 2) / of_nat (keep - 2))"

lemma bucket_step_bounds:
  assumes "3 \<le> keep" "keep < n" "n \<le> 2 ^ 25"
  shows "1 + 15 / 2 ^ 29 \<le> bucket_step n keep"
    and "of_nat (keep - 2) * bucket_step n keep \<le> of_nat (n - 2) + 1 / 2 ^ 4"
proof -
  define x where "x = (of_nat (n - 2) / of_nat (keep - 2) :: rat)"
  have k: "0 < (of_nat (keep - 2) :: rat)" "(of_nat (keep - 2) :: rat) \<le> 2 ^ 25" using assms by (auto simp flip: of_nat_power)
  have "of_nat (keep - 2) + 1 \<le> (of_nat (n - 2) :: rat)" using assms by (simp flip: of_nat_Suc)
  then have "(of_nat (keep - 2) + 1) / of_nat (keep - 2) \<le> x" unfolding x_def using k by (intro divide_right_mono) auto
  then have lo: "1 + 1 / of_nat (keep - 2) \<le> x" unfolding add_divide_distrib divide_self [OF less_imp_neq [OF k(1), symmetric]] .
  moreover have "1 / 2 ^ 25 \<le> (1 / of_nat (keep - 2) :: rat)" using k by (intro divide_left_mono) auto
  moreover have "\<bar>bucket_step n keep - x\<bar> \<le> 1 / 2 ^ 29"
  proof -
    have "x \<le> of_nat (n - 2)" using assms by (simp add: x_def divide_le_eq)
    also have "\<dots> < 2 ^ 25" using assms by (simp flip: of_nat_power)
    finally have "x < 2 ^ 25" .
    moreover have "0 < x" using lo zero_less_divide_1_iff [of "of_nat (keep - 2) :: rat"] k(1) by linarith
    ultimately show ?thesis using round_double_near [of x 25] unfolding bucket_step_def x_def [symmetric] by (simp add: pow2_def)
  qed
  moreover define c where "c = (1 / 2 ^ 29 :: rat)"
  moreover have "1 / 2 ^ 25 = 16 * c" "15 / 2 ^ 29 = 15 * c" by (simp_all add: c_def)
  ultimately show "1 + 15 / 2 ^ 29 \<le> bucket_step n keep" unfolding c_def [symmetric] by (auto simp: abs_le_iff)
  have "of_nat (keep - 2) * bucket_step n keep \<le> of_nat (keep - 2) * (x + 1 / 2 ^ 29)"
    using order_trans [OF abs_ge_self \<open>\<bar>bucket_step n keep - x\<bar> \<le> _\<close>] k by (intro mult_left_mono) auto
  also have "\<dots> = of_nat (n - 2) + of_nat (keep - 2) / 2 ^ 29" using k by (simp add: x_def distrib_left)
  also have "\<dots> \<le> of_nat (n - 2) + 1 / 2 ^ 4" using k by (simp add: divide_simps)
  finally show "of_nat (keep - 2) * bucket_step n keep \<le> of_nat (n - 2) + 1 / 2 ^ 4" .
qed

lemma bucket_start_step: "bucket_start n keep b = nat \<lfloor>round_double (of_nat b * bucket_step n keep)\<rfloor>"
  by (simp add: bucket_start_def bucket_step_def)

lemma bucket_product:
  assumes "3 \<le> keep" "keep < n" "n \<le> 2 ^ 25" "b \<le> keep - 2"
  shows "of_nat b * bucket_step n keep \<le> of_nat (n - 2) + 1 / 2 ^ 4" "of_nat b * bucket_step n keep < 2 ^ 26"
proof -
  have "of_nat b * bucket_step n keep \<le> of_nat (keep - 2) * bucket_step n keep"
    using assms bucket_step_bounds(1) [OF assms(1-3)] by (intro mult_right_mono) (auto simp: less_le_trans)
  then show a: "of_nat b * bucket_step n keep \<le> of_nat (n - 2) + 1 / 2 ^ 4" using bucket_step_bounds(2) [OF assms(1-3)] by linarith
  have "(of_nat (n - 2) :: rat) \<le> 2 ^ 25" using assms by (simp flip: of_nat_power)
  with a show "of_nat b * bucket_step n keep < 2 ^ 26" by simp
qed

lemma bucket_start_mono:
  assumes "3 \<le> keep" "keep < n" "n \<le> 2 ^ 25" "b < keep - 2"
  shows "bucket_start n keep b + 1 \<le> bucket_start n keep (b + 1)"
proof -
  let ?e = "bucket_step n keep" and ?m = "\<lfloor>round_double (of_nat b * bucket_step n keep)\<rfloor>"
  have e: "1 + 15 / 2 ^ 29 \<le> ?e" by (rule bucket_step_bounds(1) [OF assms(1-3)])
  have p: "of_nat (b + 1) * ?e < 2 ^ 26" "of_nat b * ?e < 2 ^ 26" using assms(4) by (intro bucket_product(2) [OF assms(1-3)]; simp)+
  have "0 < ?e" by (rule less_le_trans [OF _ e]) simp
  then have "round_double (of_nat b * ?e) \<le> of_nat b * ?e + 1 / 2 ^ 28 \<and> 0 \<le> round_double (of_nat b * ?e)"
    using round_double_above [OF _ p(2)] by (cases "b = 0") auto
  then have m: "of_int ?m \<le> of_nat b * ?e + 1 / 2 ^ 28" "0 \<le> ?m" using order_trans [OF of_int_floor_le] by auto
  have "of_nat (b + 1) * ?e = of_nat b * ?e + ?e" by (simp add: algebra_simps)
  with m e have "of_int (?m + 1) \<le> of_nat (b + 1) * ?e" by simp
  moreover have "0 < of_nat (b + 1) * ?e" using \<open>0 < ?e\<close> by simp
  ultimately have "of_int (?m + 1) \<le> round_double (of_nat (b + 1) * ?e)" using p(1) by (intro round_double_ge) auto
  then have "?m + 1 \<le> \<lfloor>round_double (of_nat (b + 1) * ?e)\<rfloor>" unfolding le_floor_iff .
  then show ?thesis using m(2) unfolding bucket_start_step by linarith
qed

lemma bucket_start_last:
  assumes "3 \<le> keep" "keep < n" "n \<le> 2 ^ 25"
  shows "bucket_start n keep (keep - 2) \<le> n - 2"
proof -
  let ?x = "of_nat (keep - 2) * bucket_step n keep"
  have "0 < bucket_step n keep" by (rule less_le_trans [OF _ bucket_step_bounds(1) [OF assms]]) simp
  then have "0 < ?x" using assms by simp
  then have "round_double ?x \<le> ?x + 1 / 2 ^ 28" using round_double_above [OF _ bucket_product(2) [OF assms le_refl]] by blast
  then have "round_double ?x < of_nat (n - 2) + 1" using bucket_step_bounds(2) [OF assms] by simp
  then have "\<lfloor>round_double ?x\<rfloor> < int (n - 2) + 1" unfolding floor_less_iff by simp
  then show ?thesis unfolding bucket_start_step by simp
qed

lemma bucket_start_0 [simp]: "bucket_start n keep 0 = 0"
  by (simp add: bucket_start_def)

section \<open>Largest triangles\<close>

text \<open>A row whose two numbers are read; the areas between such rows are numbers that are not negative.\<close>

definition plotted :: "archive_env \<Rightarrow> string \<Rightarrow> string \<Rightarrow> archive_row \<Rightarrow> bool" where
  "plotted e x y row \<longleftrightarrow> epoch e (cell_of row x) \<noteq> None \<and> to_number e (cell_of row y) \<noteq> None"

lemma usable_plotted: "usable_row e x y row \<Longrightarrow> plotted e x y row"
  by (auto simp: usable_row_def plotted_def split: tcell.splits)

lemma num_op_Some: "a \<noteq> None \<Longrightarrow> b \<noteq> None \<Longrightarrow> num_op f a b \<noteq> None"
  by (auto simp: num_op_def)

lemma foldl_num_op_Some: "s \<noteq> None \<Longrightarrow> \<forall>v\<in>set vs. v \<noteq> None \<Longrightarrow> foldl (num_op f) s vs \<noteq> None"
proof (induction vs arbitrary: s)
  case (Cons v vs)
  then have "num_op f s v \<noteq> None" by (intro num_op_Some) auto
  with Cons show ?case by auto
qed simp

lemma average_of_Some:
  assumes "vs \<noteq> []" "\<forall>v\<in>set vs. v \<noteq> None"
  shows "average_of vs \<noteq> None"
proof -
  have "num_op (/) (foldl (num_op (+)) (Some 0) vs) (Some (of_nat (length vs))) \<noteq> None"
    using assms(2) by (intro num_op_Some foldl_num_op_Some) auto
  with assms(1) show ?thesis by (simp add: average_of_def)
qed

lemma triangle_Some:
  assumes "ax \<noteq> None" "ay \<noteq> None" "avgX \<noteq> None" "avgY \<noteq> None" "x \<noteq> None" "y \<noteq> None"
  shows "\<exists>a\<ge>0. triangle ax ay avgX avgY x y = Some a"
proof -
  have "num_op (-) (num_op (*) (num_op (-) ax avgX) (num_op (-) y ay)) (num_op (*) (num_op (-) ax x) (num_op (-) avgY ay)) \<noteq> None"
    by (intro num_op_Some assms)
  then show ?thesis by (auto simp: triangle_def)
qed

lemma pick_row_mem: "pick_row area is best anchor \<in> insert anchor (set is)"
  by (induction area "is" best anchor rule: pick_row.induct) (auto split: option.splits)

lemma pick_row_first:
  assumes "is \<noteq> []" "area (hd is) = Some a" "best < a"
  shows "pick_row area is best anchor \<in> set is"
  using assms pick_row_mem [of area "tl is" a "hd is"] by (cases "is") auto

text \<open>The row of a bucket lies in the bucket.\<close>

lemma bucket_starts_below:
  assumes "3 \<le> keep" "keep < n" "n \<le> 2 ^ 25" "b \<le> c" "c \<le> keep - 2"
  shows "bucket_start n keep b + (c - b) \<le> bucket_start n keep c" "bucket_start n keep c \<le> n - 2"
proof -
  have mono: "bucket_start n keep b + (c - b) \<le> bucket_start n keep c" if "b \<le> c" "c \<le> keep - 2" for b c
    using that
  proof (induction c)
    case (Suc c)
    then show ?case using bucket_start_mono [OF assms(1-3), of c] by (cases "b = Suc c") auto
  qed simp
  from mono assms show "bucket_start n keep b + (c - b) \<le> bucket_start n keep c" by blast
  show "bucket_start n keep c \<le> n - 2" using mono [OF assms(5)] bucket_start_last [OF assms(1-3)] by force
qed

lemma lttb_bucket_in:
  assumes "3 \<le> keep" "keep < length rows" "length rows \<le> 2 ^ 25" "b < keep - 2"
    and rows: "\<forall>row\<in>set rows. plotted e x y row" and "anchor < length rows"
  shows "lttb_bucket e rows x y keep anchor b \<in> {bucket_start (length rows) keep b + 1..bucket_start (length rows) keep (b + 1)}"
proof -
  let ?n = "length rows" and ?S = "bucket_start (length rows) keep"
  let ?X = "\<lambda>i. epoch e (cell_of (rows ! i) x)" and ?Y = "\<lambda>i. to_number e (cell_of (rows ! i) y)"
  have read: "?X i \<noteq> None" "?Y i \<noteq> None" if "i < ?n" for i using rows that by (auto simp: plotted_def)
  have next_start: "?S b + 1 \<le> ?S (b + 1)" "?S (b + 1) \<le> ?n - 2"
    using bucket_starts_below [OF assms(1-3), of b "b + 1"] assms(4) by auto
  define lo hi where "lo = (if min (?S (b + 2) + 1) ?n \<le> ?S (b + 1) + 1 then ?n - 1 else ?S (b + 1) + 1)"
    and "hi = (if min (?S (b + 2) + 1) ?n \<le> ?S (b + 1) + 1 then ?n else min (?S (b + 2) + 1) ?n)"
  have "lo < hi" "hi \<le> ?n" using assms by (auto simp: lo_def hi_def)
  then have avg: "average_of (map ?X [lo..<hi]) \<noteq> None" "average_of (map ?Y [lo..<hi]) \<noteq> None"
    using read by (intro average_of_Some; fastforce)+
  define stop where "stop = max (?S b + 1 + 1) (min (?S (b + 1) + 1) (?n - 1))"
  have stop: "?S b + 1 < stop" "stop \<le> ?S (b + 1) + 1" using next_start by (auto simp: stop_def)
  let ?area = "\<lambda>i. triangle (?X anchor) (?Y anchor) (average_of (map ?X [lo..<hi])) (average_of (map ?Y [lo..<hi])) (?X i) (?Y i)"
  have "?S b + 1 < ?n" using next_start assms by linarith
  then obtain a where "?area (?S b + 1) = Some a" "0 \<le> a" using triangle_Some [OF read(1) read(2) avg read(1) read(2)] assms(6) by blast
  then have "pick_row ?area [?S b + 1..<stop] (- 1) anchor \<in> set [?S b + 1..<stop]"
    using stop(1) by (intro pick_row_first) auto
  moreover have "lttb_bucket e rows x y keep anchor b = pick_row ?area [?S b + 1..<stop] (- 1) anchor"
    unfolding lttb_bucket_def Let_def stop_def lo_def hi_def by (simp split: prod.split)
  ultimately show ?thesis using stop by auto
qed

lemma lttb_buckets_places:
  assumes "3 \<le> keep" "keep < length rows" "length rows \<le> 2 ^ 25"
    and rows: "\<forall>row\<in>set rows. plotted e x y row" and "b \<le> keep - 2" "anchor < length rows"
  defines "picked \<equiv> lttb_buckets e rows x y keep anchor [b..<keep - 2]"
  shows "sorted_wrt (<) picked \<and> set picked \<subseteq> {bucket_start (length rows) keep b + 1..bucket_start (length rows) keep (keep - 2)}
    \<and> length picked = keep - 2 - b"
  using assms(5,6) unfolding picked_def
proof (induction "keep - 2 - b" arbitrary: b anchor)
  case (Suc d)
  let ?S = "bucket_start (length rows) keep" and ?a = "lttb_bucket e rows x y keep anchor b"
  have b: "b < keep - 2" "[b..<keep - 2] = b # [Suc b..<keep - 2]" using Suc.hyps(2) by (auto simp: upt_conv_Cons)
  have a: "?a \<in> {?S b + 1..?S (b + 1)}" using lttb_bucket_in [OF assms(1-3) b(1) rows] Suc.prems by blast
  have S: "?S b + 1 \<le> ?S (b + 1)" "?S (b + 1) \<le> ?S (keep - 2)" "?S (b + 1) \<le> length rows - 2"
    using bucket_starts_below [OF assms(1-3), of b "b + 1"] bucket_starts_below(1) [OF assms(1-3), of "b + 1" "keep - 2"] b(1) by auto
  have IH: "sorted_wrt (<) (lttb_buckets e rows x y keep ?a [Suc b..<keep - 2])
      \<and> set (lttb_buckets e rows x y keep ?a [Suc b..<keep - 2]) \<subseteq> {?S (Suc b) + 1..?S (keep - 2)}
      \<and> length (lttb_buckets e rows x y keep ?a [Suc b..<keep - 2]) = keep - 2 - Suc b"
    using Suc.hyps(2) b(1) a S(3) assms(1,2) by (intro Suc.hyps(1)) auto
  then show ?case using a S b(1) unfolding b(2) by (auto simp: Let_def)
qed simp

lemma lttb_places:
  assumes "3 \<le> keep" "keep < length rows" "length rows \<le> 2 ^ 25" "\<forall>row\<in>set rows. plotted e x y row"
  obtains places where "sorted_wrt (<) places" "\<forall>i\<in>set places. i < length rows" "length places = keep"
    "hd places = 0" "last places = length rows - 1" "lttb e rows x y keep = map ((!) rows) places"
proof
  let ?picked = "lttb_buckets e rows x y keep 0 [0..<keep - 2]"
  have p: "sorted_wrt (<) ?picked" "set ?picked \<subseteq> {1..bucket_start (length rows) keep (keep - 2)}" "length ?picked = keep - 2"
    using lttb_buckets_places [OF assms, of 0 0] less_imp_neq [OF le_less_trans [OF le0 assms(2)]] by auto
  have l: "bucket_start (length rows) keep (keep - 2) \<le> length rows - 2" by (rule bucket_start_last [OF assms(1-3)])
  have in_range: "0 < i \<and> i < length rows - 1" if "i \<in> set ?picked" for i using that p(2) l assms(1,2) by fastforce
  show "sorted_wrt (<) (0 # ?picked @ [length rows - 1])" using p(1) in_range assms(1,2) by (auto simp: sorted_wrt_append)
  show "\<forall>i\<in>set (0 # ?picked @ [length rows - 1]). i < length rows" using in_range assms(1,2) by fastforce
  show "length (0 # ?picked @ [length rows - 1]) = keep" using p(3) assms(1) by simp
  have "last rows = rows ! (length rows - 1)" using assms(2) by (intro last_conv_nth) auto
  then show "lttb e rows x y keep = map ((!) rows) (0 # ?picked @ [length rows - 1])" using assms(1,2) by (simp add: lttb_def)
qed simp_all

lemma lttb_subseq:
  assumes "length rows \<le> 2 ^ 25" "\<forall>row\<in>set rows. plotted e x y row" "1 \<le> keep"
  shows "subseq (lttb e rows x y keep) rows"
proof -
  consider "length rows \<le> keep" | "keep < 3" "keep < length rows" | "3 \<le> keep" "keep < length rows" by linarith
  then show ?thesis
  proof cases
    case 3
    then obtain places where "sorted_wrt (<) places" "\<forall>i\<in>set places. i < length rows" "lttb e rows x y keep = map ((!) rows) places"
      using lttb_places [OF 3 assms(1,2)] by metis
    then show ?thesis by (metis subseq_nth)
  next
    case 2
    with assms(3) have k: "keep = 1 \<or> keep = 2" by linarith
    have "last rows = rows ! (length rows - 1)" using 2 by (intro last_conv_nth) auto
    with k 2 have "lttb e rows x y keep = map ((!) rows) (if keep = 1 then [0] else [0, length rows - 1])" by (auto simp: lttb_def)
    moreover have "subseq (map ((!) rows) (if keep = 1 then [0] else [0, length rows - 1])) rows"
      using k 2 by (intro subseq_nth) auto
    ultimately show ?thesis by simp
  qed (simp add: lttb_def)
qed

section \<open>Groups\<close>

lemma mset_subseq: "subseq xs ys \<Longrightarrow> mset xs \<subseteq># mset ys"
  by (induction xs ys rule: list_emb.induct) (auto intro: subset_mset.order_trans)

lemma mset_add_to_group [simp]: "mset (concat (map snd (add_to_group g k r))) = add_mset r (mset (concat (map snd g)))"
  by (simp add: add_to_group_def mset_group_add del: mset_concat)

lemma mset_groups: "mset (concat (map snd (foldl (\<lambda>g r. add_to_group g (key r) r) g rows))) = mset (concat (map snd g)) + mset rows"
  by (induction rows arbitrary: g) (simp_all del: mset_concat)

lemma mset_concat_mono:
  assumes "\<forall>g\<in>set gs. mset (f g) \<subseteq># mset g"
  shows "mset (concat (map f gs)) \<subseteq># mset (concat gs)"
  using assms by (induction gs) (auto intro: subset_mset.add_mono simp del: mset_concat)

lemma evenRows_mset: "length rows \<le> 2 ^ 25 \<Longrightarrow> mset (evenRows rows keep) \<subseteq># mset rows"
  by (intro mset_subseq evenRows_subseq)

lemma thin_group_mset:
  assumes "length grp \<le> 2 ^ 25" "ds_maxPerEntity spec \<noteq> Some 0"
  shows "mset (thin_group e spec stride grp) \<subseteq># mset grp"
proof (cases stride)
  case True
  then show ?thesis using assms(1) by (simp add: thin_group_def evenRows_mset)
next
  case False
  let ?x = "coalesce (ds_x spec) []" and ?y = "coalesce (ds_y spec) []"
  let ?usable = "filter (usable_row e ?x ?y) grp" and ?cap = "coalesce (ds_maxPerEntity spec) 500"
  have "1 \<le> ?cap" using assms(2) by (cases "ds_maxPerEntity spec") (auto simp: coalesce_def)
  moreover have "length ?usable \<le> 2 ^ 25" using assms(1) by (rule order_trans [OF length_filter_le])
  ultimately have "subseq (lttb e ?usable ?x ?y ?cap) ?usable" by (intro lttb_subseq) (auto intro: usable_plotted)
  then have "mset (lttb e ?usable ?x ?y ?cap) \<subseteq># mset grp"
    by (intro mset_subseq) (rule subseq_order.trans [OF _ subseq_filter_left])
  with False show ?thesis by (simp add: thin_group_def)
qed

lemma length_in_concat: "g \<in> set gs \<Longrightarrow> length g \<le> length (concat gs)"
  by (induction gs) auto

lemma downsample_groups_mset:
  assumes "length rows \<le> 2 ^ 25" "ds_maxPerEntity spec \<noteq> Some 0" "\<And>cmp rs. mset (ae_sort e cmp rs) = mset rs"
  shows "mset (fst (downsample_groups e q spec stride rows)) \<subseteq># mset rows"
proof -
  define groups where "groups = map snd (foldl (\<lambda>g r. add_to_group g (entity_key spec r) r) [] (ae_sort e (entity_compare e spec (\<not> stride)) rows))"
  have m: "mset (concat groups) = mset rows" unfolding groups_def mset_groups by (simp add: assms(3))
  then have small: "length g \<le> 2 ^ 25" if "g \<in> set groups" for g
    using length_in_concat [OF that] assms(1) by (metis mset_eq_length order_trans)
  have thin: "mset (thin_group e spec stride g) \<subseteq># mset g" if "g \<in> set groups" for g by (rule thin_group_mset [OF small [OF that] assms(2)])
  have even_thin: "mset (evenRows (thin_group e spec stride g) cap) \<subseteq># mset g" if "g \<in> set groups" for g cap
    using evenRows_mset [OF order_trans [OF size_mset_mono [OF thin [OF that], simplified] small [OF that]]] thin [OF that]
    by (rule subset_mset.order_trans)
  show ?thesis
    using mset_concat_mono [of groups "thin_group e spec stride"] mset_concat_mono [of groups "\<lambda>g. evenRows (thin_group e spec stride g) _"] thin even_thin
    unfolding downsample_groups_def Let_def groups_def [symmetric] m [symmetric] by (auto simp: comp_def)
qed

section \<open>The answer\<close>

lemma downsampleArchiveRows_mset:
  assumes "downsampleArchiveRows e rows q = Inr (out, info)" "length rows \<le> 2 ^ 25"
    and "\<And>spec. tq_downsample q = Some spec \<Longrightarrow> ds_maxPerEntity spec \<noteq> Some 0" "\<And>cmp rs. mset (ae_sort e cmp rs) = mset rs"
  shows "mset out \<subseteq># mset rows"
proof (cases "tq_downsample q")
  case None
  then show ?thesis using assms(1,2) by (auto simp: downsampleArchiveRows_def evenRows_mset split: if_splits)
next
  case (Some spec)
  have "mset (fst (downsample_groups e q spec stride rows)) \<subseteq># mset rows" for stride
    by (rule downsample_groups_mset [OF assms(2) assms(3) [OF Some] assms(4)])
  then show ?thesis using assms(1,2) Some
    by (auto simp: downsampleArchiveRows_def Let_def evenRows_mset split: downsample_mode.splits if_splits) (metis fst_conv)+
qed

lemma mset_sort_rows: "(\<And>cmp rs. mset (ae_sort e cmp rs) = mset rs) \<Longrightarrow> mset (sort_rows e sorts rows) = mset rows"
proof -
  assume sort: "\<And>cmp rs. mset (ae_sort e cmp rs) = mset rs"
  have "mset (foldl (\<lambda>rs s. ae_sort e (cmp s) rs) rows ss) = mset rows" for cmp and ss :: "table_sort list"
    by (induction ss arbitrary: rows) (simp_all add: sort)
  then show ?thesis by (simp add: sort_rows_def)
qed

lemma filter_rows_eq: "filter_rows e fs rows = Inr out \<Longrightarrow> out = filter (\<lambda>row. every_filter e row fs = Inr True) rows"
  by (induction e fs rows arbitrary: out rule: filter_rows.induct) (auto simp: bindR_eq_Inr)

lemma obj_get_fromEntries: "n \<in> set names \<Longrightarrow> obj_get (obj_of_entries (map (\<lambda>n. (n, f n)) names)) n = Some (f n)"
proof -
  have "obj_get (obj_spread a (map (\<lambda>n. (n, f n)) names)) n = (if n \<in> set names then Some (f n) else obj_get a n)" for a
    by (induction names arbitrary: a) (auto simp: obj_spread_def obj_get_put)
  then show "n \<in> set names \<Longrightarrow> ?thesis" by (simp add: obj_of_entries_def)
qed

lemma length_source_rows [simp]: "length (source_rows source) = tb_returnedRows source"
  by (simp add: source_rows_def)

lemma mset_page: "mset xs \<subseteq># M \<Longrightarrow> mset (take n (drop m xs)) \<subseteq># M"
  by (meson mset_subseq subset_mset.order_trans subseq_order.trans sublist_imp_subseq sublist_take sublist_drop)

text \<open>An unreadable number comes after every other number and every other number after it.\<close>

lemma unreadable_x_has_no_order: "compareNumbers None (Some x) = 1" "compareNumbers (Some x) None = 1"
  by (simp_all add: compareNumbers_def)

section \<open>Properties\<close>

text \<open>
  C33. Thinning up to \<open>2 ^ 25\<close> rows to fewer, but at least three. Even thinning takes the places the server takes, the exact
  quotient rounded half to even, although the code divides and compares rounded numbers; it keeps
  the order and the first and the last row. Thinning by largest triangles of rows with readable
  numbers takes exactly the wanted number of rows, in their order and none twice, and keeps the
  first and the last.
\<close>
theorem thinning_is_exact:
  assumes "keep < length rows" "length rows \<le> 2 ^ 25" "3 \<le> keep" "\<forall>row\<in>set rows. plotted e x y row"
  shows "evenRows rows keep = map (\<lambda>i. rows ! even_place (length rows) keep i) [0..<keep]
    \<and> hd (evenRows rows keep) = hd rows \<and> last (evenRows rows keep) = last rows \<and> subseq (evenRows rows keep) rows
    \<and> subseq (lttb e rows x y keep) rows \<and> length (lttb e rows x y keep) = keep
    \<and> hd (lttb e rows x y keep) = hd rows \<and> last (lttb e rows x y keep) = last rows"
proof (intro conjI)
  have ne: "rows \<noteq> []" using assms(1) by auto
  show "evenRows rows keep = map (\<lambda>i. rows ! even_place (length rows) keep i) [0..<keep]"
    using evenRows_places [of keep rows] assms by (simp add: comp_def)
  show "hd (evenRows rows keep) = hd rows" "last (evenRows rows keep) = last rows" using evenRows_ends ne assms by auto
  show "subseq (evenRows rows keep) rows" "subseq (lttb e rows x y keep) rows"
    using evenRows_subseq lttb_subseq assms by auto
  obtain places where "length places = keep" "hd places = 0" "last places = length rows - 1" "lttb e rows x y keep = map ((!) rows) places"
    using lttb_places [OF assms(3,1,2,4)] by metis
  moreover from this have "places \<noteq> []" using assms(3) by auto
  ultimately show "length (lttb e rows x y keep) = keep" "hd (lttb e rows x y keep) = hd rows" "last (lttb e rows x y keep) = last rows"
    using hd_conv_nth [OF ne] last_conv_nth [OF ne] by (simp_all add: hd_map last_map)
qed

text \<open>
  C32. An answer without aggregation, from a source of up to \<open>2 ^ 25\<close> rows and with a sort that
  permutes: its page holds rows of the source that pass every filter, none twice and at most
  \<open>limit\<close>; every column and the row keys list that page in the same order; \<open>matchedRows\<close> counts the
  rows that pass. Where an offset is asked for and no thinning, the page is exactly that part of
  the sorted matching rows, so that pages follow one another without loss.
\<close>
theorem archive_page_is_sound:
  assumes "queryArchiveTable e source q = Inr r" "tq_aggregate q = None" "tb_returnedRows source \<le> 2 ^ 25"
    and "\<forall>spec. tq_downsample q = Some spec \<longrightarrow> ds_maxPerEntity spec \<noteq> Some 0" and "\<forall>cmp rs. mset (ae_sort e cmp rs) = mset rs"
  shows "\<exists>fs matching page. map_result (typed_filter e (tb_schema source)) (tq_filter q) = Inr fs
    \<and> matching = filter (\<lambda>row. every_filter e row fs = Inr True) (source_rows source)
    \<and> mset page \<subseteq># mset matching \<and> length page \<le> tq_limit q
    \<and> tb_returnedRows r = length page \<and> tb_matchedRows r = length matching
    \<and> (\<forall>name\<in>set (answer_names source q page). obj_get (tb_columns r) name = Some (map (\<lambda>row. shown_cell (cell_of row name)) page))
    \<and> tb_rowKey r = map_option (\<lambda>(c, vs). (c, map (\<lambda>row. key_at vs (aw_index row)) page)) (tb_rowKey source)
    \<and> (\<forall>k. tq_downsample q = None \<and> tq_offset q = Some k \<longrightarrow> page = take (tq_limit q) (drop k (sort_rows e (tq_sort q) matching)))"
proof -
  obtain fs rows out info where fs: "map_result (typed_filter e (tb_schema source)) (tq_filter q) = Inr fs"
    and rows: "filter_rows e fs (source_rows source) = Inr rows" and out: "downsampleArchiveRows e rows q = Inr (out, info)"
    and r: "r = table_answer source q (length rows) info (sort_rows e (tq_sort q) out)"
    using assms(1,2) by (auto simp: queryArchiveTable_def bindR_eq_Inr)
  note filtered = filter_rows_eq [OF rows]
  define page where "page = take (tq_limit q) (drop (coalesce (tq_offset q) 0) (sort_rows e (tq_sort q) out))"
  have "length rows \<le> 2 ^ 25"
    using filtered assms(3) length_filter_le [of "\<lambda>row. every_filter e row fs = Inr True" "source_rows source"] by simp
  then have "mset out \<subseteq># mset rows" by (rule downsampleArchiveRows_mset [OF out]) (use assms(4,5) in auto)
  then have m: "mset page \<subseteq># mset rows" unfolding page_def using assms(5) by (intro mset_page) (simp add: mset_sort_rows)
  show ?thesis
    by (rule exI [of _ fs], rule exI [of _ rows], rule exI [of _ page])
      (use fs filtered m r assms(2) out in \<open>auto simp: table_answer_def Let_def page_def obj_get_fromEntries coalesce_def downsampleArchiveRows_def\<close>)
qed

text \<open>A table of five rows, read through a filter that casts a text to a number, in descending order.\<close>

definition example_env :: archive_env where
  "example_env = \<lparr>ae_number = (\<lambda>s. if s = ''2'' then Some 2 else None), ae_date = (\<lambda>_. None), ae_sort = js_sort,
     ae_lower = (\<lambda>s. s), ae_show = (\<lambda>_. []), ae_json = (\<lambda>_. [])\<rparr>"

definition example_table :: table_result where
  "example_table = \<lparr>tb_schema = [(''x'', ''float64''), (''y'', ''float64'')],
     tb_columns = [(''x'', map CNum [0, 1, 2, 3, 4]), (''y'', map CNum [5, 1, 7, 2, 3])], tb_totalRows = 5, tb_matchedRows = 5,
     tb_returnedRows = 5, tb_truncated = False, tb_offset = 0, tb_downsample = None, tb_rowKey = Some (''id'', map CNum [10, 11, 12, 13, 14])\<rparr>"

definition example_query :: table_query where
  "example_query = \<lparr>tq_columns = Some [''x''], tq_filter = [FRange ''y'' (CStr ''2'') CNull], tq_aggregate = None, tq_downsample = None,
     tq_sort = [\<lparr>so_column = ''y'', so_desc = True\<rparr>], tq_offset = Some 1, tq_limit = 2\<rparr>"

theorem thinning_is_exact_witness:
  "subseq (evenRows (source_rows example_table) 3) (source_rows example_table)
   \<and> subseq (lttb example_env (source_rows example_table) ''x'' ''y'' 3) (source_rows example_table)
   \<and> length (lttb example_env (source_rows example_table) ''x'' ''y'' 3) = 3"
proof -
  have n: "3 < length (source_rows example_table)" "length (source_rows example_table) \<le> 2 ^ 25" by (simp_all add: example_table_def)
  have "\<forall>row\<in>set (source_rows example_table). plotted example_env ''x'' ''y'' row" by code_simp
  from thinning_is_exact [OF n order_refl this] show ?thesis by blast
qed

theorem archive_page_is_sound_witness:
  "\<exists>r page. queryArchiveTable example_env example_table example_query = Inr r \<and> tb_returnedRows r = length page
     \<and> mset page \<subseteq># mset (source_rows example_table) \<and> page \<noteq> []
     \<and> tb_rowKey r = Some (''id'', map (\<lambda>row. key_at (map CNum [10, 11, 12, 13, 14]) (aw_index row)) page)"
proof -
  have "(case queryArchiveTable example_env example_table example_query of Inr r \<Rightarrow> tb_returnedRows r = 2 | Inl _ \<Rightarrow> False)" by code_simp
  then obtain r where r: "queryArchiveTable example_env example_table example_query = Inr r" "tb_returnedRows r = 2"
    by (auto split: sum.splits)
  have sort: "\<forall>cmp rs. mset (ae_sort example_env cmp rs) = mset rs" by (simp add: example_env_def mset_js_sort)
  have q: "tq_aggregate example_query = None" "tb_returnedRows example_table \<le> 2 ^ 25"
      "\<forall>spec. tq_downsample example_query = Some spec \<longrightarrow> ds_maxPerEntity spec \<noteq> Some 0"
      "tb_rowKey example_table = Some (''id'', map CNum [10, 11, 12, 13, 14])"
    by (simp_all add: example_query_def example_table_def)
  from archive_page_is_sound [OF r(1) q(1-3) sort] obtain fs matching page
    where "matching = filter (\<lambda>row. every_filter example_env row fs = Inr True) (source_rows example_table)"
      "mset page \<subseteq># mset matching" "tb_returnedRows r = length page"
      "tb_rowKey r = map_option (\<lambda>(c, vs). (c, map (\<lambda>row. key_at vs (aw_index row)) page)) (tb_rowKey example_table)" by blast
  moreover from this have "mset page \<subseteq># mset (source_rows example_table)"
    using subset_mset.order_trans [OF _ multiset_filter_subset] by (metis mset_filter)
  moreover have "page \<noteq> []" using r(2) \<open>tb_returnedRows r = length page\<close> by auto
  ultimately show ?thesis using r(1) q(4) by auto
qed

end
