(* ===== verification/Flow_Shape.thy ===== *)
theory Flow_Shape
  imports Js_Object
begin

text \<open>
  \<open>components/clio/flow-diagram-source.ts\<close>: the shape of a workflow. A workflow's steps wait on one
  another; \<open>seriesParallel\<close> finds the nested sequences and parallels that the railroad draws, where
  there are such. A language \<open>Set\<close> is the list of its elements in the order they were added.
\<close>

section \<open>Definitions\<close>

definition set_add :: "'a list \<Rightarrow> 'a \<Rightarrow> 'a list" where
  "set_add xs x = (if x \<in> set xs then xs else xs @ [x])"

definition js_set :: "'a list \<Rightarrow> 'a list" where
  "js_set xs = foldl set_add [] xs"

record flow_node =
  fn_id :: string
  fn_after :: "string list"

datatype series_parallel = SpStep string | SpSeq "series_parallel list" | SpPar "series_parallel list"

definition MAX_RAILROAD_STEPS :: nat where
  "MAX_RAILROAD_STEPS = 24"

type_synonym parent_map = "(string \<times> string list) list"

definition parents_of :: "parent_map \<Rightarrow> string \<Rightarrow> string list" where
  "parents_of ps i = coalesce (map_of ps i) []"

text \<open>
  \<open>ancestorSets\<close>. The set \<open>visiting\<close> is an argument: a visit that returns has taken its own id out of it
  again, and a visit that answers null ends all the others.
\<close>

function visit_step :: "parent_map \<Rightarrow> string list \<Rightarrow> parent_map \<Rightarrow> string \<Rightarrow> (string list \<times> parent_map) option"
  and visit_parents :: "parent_map \<Rightarrow> string list \<Rightarrow> parent_map \<Rightarrow> string list \<Rightarrow> string list \<Rightarrow> (string list \<times> parent_map) option" where
  "visit_step ps visiting result i = (case map_of result i of
       Some over \<Rightarrow> Some (over, result)
     | None \<Rightarrow>
         if i \<in> set visiting then None
         else (case visit_parents ps (i # visiting) result (parents_of ps i) [] of
             None \<Rightarrow> None
           | Some (over, result') \<Rightarrow> Some (over, map_set result' i over)))"
| "visit_parents ps visiting result [] acc = Some (acc, result)"
| "visit_parents ps visiting result (p # rest) acc = (case visit_step ps visiting result p of
       None \<Rightarrow> None
     | Some (over, result') \<Rightarrow> visit_parents ps visiting result' rest (foldl set_add (set_add acc p) over))"
  by pat_completeness auto
termination
proof (relation "(\<lambda>x. case x of Inl (ps, visiting, result, i) \<Rightarrow> card (fst ` set ps - set visiting)
      | Inr (ps, visiting, result, ids, acc) \<Rightarrow> card (fst ` set ps - set visiting))
    <*mlex*> measure (\<lambda>x. case x of Inl _ \<Rightarrow> 1 | Inr (ps, visiting, result, ids, acc) \<Rightarrow> 2 * length ids)", goal_cases)
  case (2 ps visiting result i)
  show ?case
  proof (cases "i \<in> fst ` set ps")
    case True
    then have "fst ` set ps - set (i # visiting) \<subset> fst ` set ps - set visiting" using 2 by auto
    then have "card (fst ` set ps - set (i # visiting)) < card (fst ` set ps - set visiting)" by (intro psubset_card_mono) auto
    then show ?thesis by (simp add: mlex_prod_def)
  next
    case False
    then have "fst ` set ps - set (i # visiting) = fst ` set ps - set visiting" by auto
    moreover from False have "parents_of ps i = []" using map_of_eq_None_iff [of ps i] by (simp add: parents_of_def)
    ultimately show ?thesis by (simp add: mlex_prod_def)
  qed
qed (auto simp: mlex_prod_def intro: wf_mlex)

definition parent_map :: "flow_node list \<Rightarrow> parent_map" where
  "parent_map steps = foldl (\<lambda>m s. map_set m (fn_id s) (filter (\<lambda>i. i \<in> fn_id ` set steps) (fn_after s))) [] steps"

fun visit_ids :: "parent_map \<Rightarrow> parent_map \<Rightarrow> string list \<Rightarrow> parent_map option" where
  "visit_ids ps result [] = Some result"
| "visit_ids ps result (i # ids) = (case visit_step ps [] result i of None \<Rightarrow> None | Some (_, result') \<Rightarrow> visit_ids ps result' ids)"

definition ancestorSets :: "string list \<Rightarrow> parent_map \<Rightarrow> parent_map option" where
  "ancestorSets ids ps = visit_ids ps [] ids"

text \<open>\<open>connectedComponents\<close>: the component grows while its elements are gone through in order.\<close>

function grow :: "(string \<Rightarrow> string \<Rightarrow> bool) \<Rightarrow> string list \<Rightarrow> string list \<Rightarrow> string list \<times> string list" where
  "grow related [] left = ([], left)"
| "grow related (c # queue) left =
     (let (component, left') = grow related (queue @ filter (related c) left) (filter (\<lambda>x. \<not> related c x) left)
      in (c # component, left'))"
  by pat_completeness auto
termination
  by (relation "measure (\<lambda>(related, queue, left). length queue + length left)")
    (auto simp: sum_length_filter_compl)

fun components_from :: "(string \<Rightarrow> string \<Rightarrow> bool) \<Rightarrow> string list \<Rightarrow> string list \<Rightarrow> string list list" where
  "components_from related [] left = []"
| "components_from related (start # rest) left =
     (if start \<notin> set left then components_from related rest left
      else let (component, left') = grow related [start] (filter (\<lambda>x. x \<noteq> start) left)
           in component # components_from related rest left')"

definition connectedComponents :: "string list \<Rightarrow> (string \<Rightarrow> string \<Rightarrow> bool) \<Rightarrow> string list list" where
  "connectedComponents ids related = components_from related ids (js_set ids)"

definition is_ancestor :: "parent_map \<Rightarrow> string \<Rightarrow> string \<Rightarrow> bool" where
  "is_ancestor anc a b \<longleftrightarrow> a \<in> set (parents_of anc b)"

definition related :: "parent_map \<Rightarrow> string \<Rightarrow> string \<Rightarrow> bool" where
  "related anc a b \<longleftrightarrow> is_ancestor anc b a \<or> is_ancestor anc a b"

definition cut_ok :: "parent_map \<Rightarrow> string list \<Rightarrow> nat \<Rightarrow> bool" where
  "cut_ok anc ordered k \<longleftrightarrow> (\<forall>b\<in>set (drop k ordered). \<forall>a\<in>set (take k ordered). is_ancestor anc a b)"

definition seq_items :: "series_parallel \<Rightarrow> series_parallel list" where
  "seq_items part = (case part of SpSeq items \<Rightarrow> items | _ \<Rightarrow> [part])"

text \<open>
  \<open>decompose\<close>, on fuel for its depth: the outer \<open>None\<close> is fuel that ran out, the inner one is null.
\<close>

fun all_some :: "'a option list \<Rightarrow> 'a list option" where
  "all_some [] = Some []"
| "all_some (None # xs) = None"
| "all_some (Some x # xs) = map_option ((#) x) (all_some xs)"

fun decompose :: "parent_map \<Rightarrow> string list \<Rightarrow> nat \<Rightarrow> string list \<Rightarrow> series_parallel option option" where
  "decompose anc order 0 ids = None"
| "decompose anc order (Suc n) ids =
     (if length ids = 1 then Some (Some (SpStep (ids ! 0)))
      else let components = connectedComponents ids (related anc)
      in if 1 < length components
         then map_option (\<lambda>items. map_option SpPar (all_some items)) (all_some (map (decompose anc order n) components))
         else let ordered = filter (\<lambda>i. i \<in> set ids) order
         in case find (cut_ok anc ordered) [1..<length ordered] of
              None \<Rightarrow> Some None
            | Some k \<Rightarrow> (case (decompose anc order n (take k ordered), decompose anc order n (drop k ordered)) of
                  (Some first, Some rest) \<Rightarrow> Some (case (first, rest) of
                      (Some f, Some r) \<Rightarrow> Some (SpSeq (seq_items f @ seq_items r))
                    | _ \<Rightarrow> None)
                | _ \<Rightarrow> None))"

definition topological :: "parent_map \<Rightarrow> string list \<Rightarrow> string list" where
  "topological anc ids = js_sort (by_key (\<lambda>i. int (length (parents_of anc i)))) ids"

definition seriesParallel :: "flow_node list \<Rightarrow> series_parallel option" where
  "seriesParallel steps =
     (if steps = [] \<or> MAX_RAILROAD_STEPS < length steps then None
      else let ids = map fn_id steps
      in case ancestorSets ids (parent_map steps) of
           None \<Rightarrow> None
         | Some anc \<Rightarrow> coalesce (decompose anc (topological anc ids) (length ids) ids) None)"

text \<open>
  \<open>directParents\<close>. The search shares its set \<open>seen\<close> between the branches and adds to it before it goes on,
  so that its depth is at most the number of steps and one more: the fuel.
\<close>

fun reachable_parent :: "parent_map \<Rightarrow> string \<Rightarrow> nat \<Rightarrow> string list \<Rightarrow> string list \<Rightarrow> bool \<times> string list" where
  "reachable_parent ps target n [] seen = (False, seen)"
| "reachable_parent ps target 0 (p # rest) seen = (False, seen)"
| "reachable_parent ps target (Suc n) (p # rest) seen =
     (if p = target then (True, seen)
      else if p \<in> set seen then reachable_parent ps target (Suc n) rest seen
      else let (found, seen') = reachable_parent ps target n (parents_of ps p) (seen @ [p])
           in if found then (True, seen') else reachable_parent ps target (Suc n) rest seen')"

definition directParents :: "parent_map \<Rightarrow> string \<Rightarrow> string list" where
  "directParents ps i =
     (let own = parents_of ps i
      in filter (\<lambda>c. \<not> (\<exists>other\<in>set own. other \<noteq> c \<and> fst (reachable_parent ps c (Suc (length ps)) (parents_of ps other) []))) own)"

end
