(* ===== verification/Flow_Order.thy ===== *)
theory Flow_Order
  imports Flow_Shape Js_Multiset
begin

text \<open>
  The shape a workflow is drawn with is exactly its order: what \<open>seriesParallel\<close> answers denotes the
  transitive waits between the steps, and it answers null only where no shape does.
\<close>

section \<open>Ancestors\<close>

lemma set_set_add [simp]: "set (set_add xs x) = insert x (set xs)"
  by (auto simp: set_add_def)

lemma distinct_set_add [simp]: "distinct (set_add xs x) \<longleftrightarrow> distinct xs"
  by (simp add: set_add_def)

lemma set_foldl_set_add [simp]: "set (foldl set_add xs ys) = set xs \<union> set ys"
  by (induction ys arbitrary: xs) auto

lemma distinct_foldl_set_add [simp]: "distinct (foldl set_add xs ys) \<longleftrightarrow> distinct xs"
  by (induction ys arbitrary: xs) auto

lemma foldl_set_add_distinct: "distinct (xs @ ys) \<Longrightarrow> foldl set_add xs ys = xs @ ys"
  by (induction ys arbitrary: xs) (auto simp: set_add_def)

lemma js_set_facts [simp]: "set (js_set xs) = set xs" "distinct (js_set xs)"
  by (simp_all add: js_set_def)

lemma js_set_distinct: "distinct xs \<Longrightarrow> js_set xs = xs"
  by (simp add: js_set_def foldl_set_add_distinct)

definition waits :: "parent_map \<Rightarrow> (string \<times> string) set" where
  "waits ps = {(p, i). p \<in> set (parents_of ps i)}"

definition ancestors_ok :: "parent_map \<Rightarrow> parent_map \<Rightarrow> bool" where
  "ancestors_ok ps result \<longleftrightarrow> (\<forall>i over. map_of result i = Some over \<longrightarrow>
     set over = {a. (a, i) \<in> (waits ps)\<^sup>+} \<and> distinct over \<and> (i, i) \<notin> (waits ps)\<^sup>+)"

lemma ancestors_okD:
  "ancestors_ok ps result \<Longrightarrow> map_of result i = Some over \<Longrightarrow>
     set over = {a. (a, i) \<in> (waits ps)\<^sup>+} \<and> distinct over \<and> (i, i) \<notin> (waits ps)\<^sup>+"
  unfolding ancestors_ok_def by metis

lemma ancestors_unfold:
  "{a. (a, i) \<in> (waits ps)\<^sup>+} = set (parents_of ps i) \<union> {a. \<exists>p\<in>set (parents_of ps i). (a, p) \<in> (waits ps)\<^sup>+}"
  by (auto simp: waits_def dest: tranclD2 intro: trancl_into_trancl) (metis (mono_tags, lifting) case_prodD mem_Collect_eq rtranclD tranclD2)

lemma visit_sound:
  "visit_step ps visiting result i = Some (over, result') \<Longrightarrow> ancestors_ok ps result \<Longrightarrow>
     set over = {a. (a, i) \<in> (waits ps)\<^sup>+} \<and> distinct over \<and> (i, i) \<notin> (waits ps)\<^sup>+ \<and> ancestors_ok ps result'
     \<and> insert i (dom (map_of result)) \<subseteq> dom (map_of result')"
  "visit_parents ps visiting result ids acc = Some (over, result') \<Longrightarrow> ancestors_ok ps result \<Longrightarrow> distinct acc \<Longrightarrow>
     set over = set acc \<union> set ids \<union> {a. \<exists>p\<in>set ids. (a, p) \<in> (waits ps)\<^sup>+} \<and> distinct over
     \<and> (\<forall>p\<in>set ids. (p, p) \<notin> (waits ps)\<^sup>+) \<and> ancestors_ok ps result' \<and> dom (map_of result) \<subseteq> dom (map_of result')"
proof (induction ps visiting result i and ps visiting result ids acc arbitrary: over result' and over result' rule: visit_step_visit_parents.induct)
  case (1 ps visiting result i)
  show ?case
  proof (cases "map_of result i")
    case None
    with 1(2) obtain r where r: "visit_parents ps (i # visiting) result (parents_of ps i) [] = Some (over, r)" "result' = map_set r i over"
      and i: "i \<notin> set visiting" by (auto split: if_splits option.splits)
    from 1(1) [OF None i r(1) 1(3)] have IH: "set over = set (parents_of ps i) \<union> {a. \<exists>p\<in>set (parents_of ps i). (a, p) \<in> (waits ps)\<^sup>+}"
      "distinct over" "\<forall>p\<in>set (parents_of ps i). (p, p) \<notin> (waits ps)\<^sup>+" "ancestors_ok ps r" "dom (map_of result) \<subseteq> dom (map_of r)" by auto
    have acyclic: "(i, i) \<notin> (waits ps)\<^sup>+"
    proof
      assume c: "(i, i) \<in> (waits ps)\<^sup>+"
      then obtain p where p: "p \<in> set (parents_of ps i)" "(i, p) \<in> (waits ps)\<^sup>*" by (auto simp: waits_def dest: tranclD2)
      then have "(p, p) \<in> (waits ps)\<^sup>+" using rtrancl_into_trancl2 [of p i "waits ps" p] by (auto simp: waits_def)
      with IH(3) p(1) show False by blast
    qed
    have over: "set over = {a. (a, i) \<in> (waits ps)\<^sup>+}" unfolding IH(1) ancestors_unfold [of i ps] ..
    have "ancestors_ok ps result'" unfolding ancestors_ok_def
    proof (intro allI impI)
      fix j up assume "map_of result' j = Some up"
      then have "if j = i then up = over else map_of r j = Some up" unfolding r(2) map_of_map_set by (cases "j = i") simp_all
      then consider "j = i" "up = over" | "map_of r j = Some up" by (metis (full_types))
      then show "set up = {a. (a, j) \<in> (waits ps)\<^sup>+} \<and> distinct up \<and> (j, j) \<notin> (waits ps)\<^sup>+"
      proof cases
        case 1
        with over acyclic IH(2) show ?thesis by metis
      next
        case 2
        with IH(4) show ?thesis by (rule ancestors_okD)
      qed
    qed
    moreover have "insert i (dom (map_of result)) \<subseteq> dom (map_of result')" using IH(5) unfolding r(2) map_of_map_set by auto
    ultimately show ?thesis using IH(2) over acyclic by blast
  next
    case (Some a)
    with 1(2) have "over = a" "result' = result" by simp_all
    with ancestors_okD [OF 1(3) Some] 1(3) Some show ?thesis by blast
  qed
next
  case (3 ps visiting result p rest acc)
  from 3(3) obtain up r where r: "visit_step ps visiting result p = Some (up, r)"
      "visit_parents ps visiting r rest (foldl set_add (set_add acc p) up) = Some (over, result')" by (auto split: option.splits)
  from 3(1) [OF r(1) 3(4)] have A: "set up = {a. (a, p) \<in> (waits ps)\<^sup>+}" "(p, p) \<notin> (waits ps)\<^sup>+" "ancestors_ok ps r"
    "dom (map_of result) \<subseteq> dom (map_of r)" by auto
  from 3(2) [OF r(1) refl r(2) A(3)] 3(5) have B: "set over = insert p (set acc \<union> set up) \<union> set rest \<union> {a. \<exists>p\<in>set rest. (a, p) \<in> (waits ps)\<^sup>+}"
    "distinct over" "\<forall>p\<in>set rest. (p, p) \<notin> (waits ps)\<^sup>+" "ancestors_ok ps result'" "dom (map_of r) \<subseteq> dom (map_of result')" by auto
  have "dom (map_of result) \<subseteq> dom (map_of result')" using A(4) B(5) by (rule order_trans)
  with A B show ?case by auto
qed auto

lemma visit_complete:
  "visit_step ps visiting result i = None \<Longrightarrow> \<forall>v\<in>set visiting. (i, v) \<in> (waits ps)\<^sup>+ \<Longrightarrow> \<exists>c. (c, c) \<in> (waits ps)\<^sup>+"
  "visit_parents ps visiting result ids acc = None \<Longrightarrow> \<forall>v\<in>set visiting. \<forall>p\<in>set ids. (p, v) \<in> (waits ps)\<^sup>+ \<Longrightarrow> \<exists>c. (c, c) \<in> (waits ps)\<^sup>+"
proof (induction ps visiting result i and ps visiting result ids acc rule: visit_step_visit_parents.induct)
  case (1 ps visiting result i)
  show ?case
  proof (cases "i \<in> set visiting")
    case False
    have "\<forall>v\<in>set (i # visiting). \<forall>p\<in>set (parents_of ps i). (p, v) \<in> (waits ps)\<^sup>+"
      using 1(3) by (auto simp: waits_def intro: trancl_into_trancl2)
    with False 1 show ?thesis by (auto split: option.splits)
  next
    case True
    with 1(3) show ?thesis by blast
  qed
next
  case (3 ps visiting result p rest acc)
  then show ?case by (auto split: option.splits)
qed auto

lemma visit_ids_sound:
  "visit_ids ps result ids = Some anc \<Longrightarrow> ancestors_ok ps result \<Longrightarrow> ancestors_ok ps anc \<and> dom (map_of result) \<union> set ids \<subseteq> dom (map_of anc)"
proof (induction ps result ids rule: visit_ids.induct)
  case (2 ps result i ids)
  then obtain over r where r: "visit_step ps [] result i = Some (over, r)" "visit_ids ps r ids = Some anc" by (auto simp del: visit_step.simps split: option.splits)
  from visit_sound(1) [OF r(1) 2(3)] have s: "ancestors_ok ps r" "insert i (dom (map_of result)) \<subseteq> dom (map_of r)" by auto
  from 2(1) [OF r(1) refl r(2) s(1)] s(2) show ?case by auto
qed simp

lemma visit_ids_complete: "visit_ids ps result ids = None \<Longrightarrow> \<exists>c. (c, c) \<in> (waits ps)\<^sup>+"
  by (induction ps result ids rule: visit_ids.induct) (auto simp del: visit_step.simps split: option.splits intro: visit_complete(1) [where visiting = "[]"])

lemma ancestorSets_sound:
  assumes "ancestorSets ids ps = Some anc" "i \<in> set ids"
  shows "set (parents_of anc i) = {a. (a, i) \<in> (waits ps)\<^sup>+}" "distinct (parents_of anc i)" "(i, i) \<notin> (waits ps)\<^sup>+"
proof -
  have "ancestors_ok ps []" by (simp add: ancestors_ok_def)
  then have ok: "ancestors_ok ps anc" "set ids \<subseteq> dom (map_of anc)"
    using visit_ids_sound [OF assms(1) [unfolded ancestorSets_def]] by blast+
  then obtain over where over: "map_of anc i = Some over" using assms(2) by auto
  then have "parents_of anc i = over" by (simp add: parents_of_def)
  with ancestors_okD [OF ok(1) over] show "set (parents_of anc i) = {a. (a, i) \<in> (waits ps)\<^sup>+}" "distinct (parents_of anc i)" "(i, i) \<notin> (waits ps)\<^sup>+" by simp_all
qed

text \<open>The map of parents: with ids of their own, a step's known waits.\<close>

lemma parents_of_parent_map:
  assumes "distinct (map fn_id steps)" "s \<in> set steps"
  shows "parents_of (parent_map steps) (fn_id s) = filter (\<lambda>i. i \<in> fn_id ` set steps) (fn_after s)"
proof -
  have fold: "map_of (foldl (\<lambda>m s. map_set m (fn_id s) (f s)) m xs) i = (case find (\<lambda>s. fn_id s = i) xs of Some s \<Rightarrow> Some (f s) | None \<Rightarrow> map_of m i)"
    if "distinct (map fn_id xs)" for f m i and xs :: "flow_node list"
    using that
  proof (induction xs arbitrary: m)
    case (Cons x xs)
    have "fn_id x = i \<Longrightarrow> find (\<lambda>s. fn_id s = i) xs = None"
      using Cons.prems by (auto simp: find_None_iff) (metis rev_image_eqI)
    with Cons show ?case by (auto simp: map_of_map_set split: option.splits)
  qed simp
  have "find (\<lambda>t. fn_id t = fn_id s) steps = Some s"
    using assms by (induction steps) (auto simp: rev_image_eqI)
  with fold [OF assms(1), of "\<lambda>s. filter (\<lambda>i. i \<in> fn_id ` set steps) (fn_after s)" "[]" "fn_id s"] show ?thesis
    by (simp add: parents_of_def parent_map_def)
qed

lemma waits_known: "(p, i) \<in> waits (parent_map steps) \<Longrightarrow> p \<in> fn_id ` set steps \<and> i \<in> fn_id ` set steps"
proof -
  have *: "map_of (foldl (\<lambda>m s. map_set m (fn_id s) (filter P (fn_after s))) m xs) i = Some over \<Longrightarrow>
      (\<forall>p\<in>set over. P p) \<and> i \<in> fn_id ` set xs \<or> map_of m i = Some over" for m P over and xs :: "flow_node list"
  proof (induction xs arbitrary: m)
    case (Cons x xs)
    from Cons.IH [of "map_set m (fn_id x) (filter P (fn_after x))"] Cons.prems show ?case
      by (cases "i = fn_id x") (auto simp: map_of_map_set)
  qed simp
  assume "(p, i) \<in> waits (parent_map steps)"
  then obtain over where "map_of (parent_map steps) i = Some over" "p \<in> set over"
    by (cases "map_of (parent_map steps) i") (auto simp: waits_def parents_of_def)
  with * show ?thesis unfolding parent_map_def by fastforce
qed

section \<open>What a shape denotes\<close>

fun leaves :: "series_parallel \<Rightarrow> string list" where
  "leaves (SpStep i) = [i]"
| "leaves (SpSeq ts) = concat (map leaves ts)"
| "leaves (SpPar ts) = concat (map leaves ts)"

fun crosses :: "'a list list \<Rightarrow> 'a \<Rightarrow> 'a \<Rightarrow> bool" where
  "crosses [] a b = False"
| "crosses (l # ls) a b = ((a \<in> set l \<and> b \<in> set (concat ls)) \<or> crosses ls a b)"

fun precedes :: "series_parallel \<Rightarrow> string \<Rightarrow> string \<Rightarrow> bool" where
  "precedes (SpStep i) a b = False"
| "precedes (SpSeq ts) a b = ((\<exists>t\<in>set ts. precedes t a b) \<or> crosses (map leaves ts) a b)"
| "precedes (SpPar ts) a b = (\<exists>t\<in>set ts. precedes t a b)"

definition denotes :: "series_parallel \<Rightarrow> (string \<Rightarrow> string \<Rightarrow> bool) \<Rightarrow> string list \<Rightarrow> bool" where
  "denotes t before ids \<longleftrightarrow> mset (leaves t) = mset ids \<and> (\<forall>a\<in>set ids. \<forall>b\<in>set ids. precedes t a b \<longleftrightarrow> before a b)"

lemma crosses_mem: "crosses ls a b \<Longrightarrow> a \<in> set (concat ls) \<and> b \<in> set (concat ls)"
  by (induction ls) auto

lemma precedes_mem: "precedes t a b \<Longrightarrow> a \<in> set (leaves t) \<and> b \<in> set (leaves t)"
  by (induction t) (auto dest: crosses_mem)

lemma crosses_append: "crosses (ks @ ls) a b \<longleftrightarrow> crosses ks a b \<or> crosses ls a b \<or> (a \<in> set (concat ks) \<and> b \<in> set (concat ls))"
  by (induction ks) auto

lemma crosses_irrefl: "distinct (concat ls) \<Longrightarrow> \<not> crosses ls a a"
  by (induction ls) auto

lemma distinct_concat_part: "distinct (concat (map f ts)) \<Longrightarrow> t \<in> set ts \<Longrightarrow> distinct (f t)"
  by (induction ts) auto

lemma precedes_irrefl: "distinct (leaves t) \<Longrightarrow> \<not> precedes t a a"
proof (induction t)
  case (SpSeq ts)
  then show ?case by (auto simp: crosses_irrefl dest: distinct_concat_part)
next
  case (SpPar ts)
  then show ?case by (auto dest: distinct_concat_part)
qed simp

lemma leaves_seq_items [simp]: "concat (map leaves (seq_items t)) = leaves t"
  by (cases t) (simp_all add: seq_items_def)

lemma precedes_seq_items: "precedes (SpSeq (seq_items t)) a b \<longleftrightarrow> precedes t a b"
  by (cases t) (simp_all add: seq_items_def)

lemma precedes_seq_join:
  "precedes (SpSeq (seq_items f @ seq_items r)) a b \<longleftrightarrow> precedes f a b \<or> precedes r a b \<or> (a \<in> set (leaves f) \<and> b \<in> set (leaves r))"
  using precedes_seq_items [of f a b] precedes_seq_items [of r a b]
  by (auto simp: crosses_append bex_Un simp flip: set_concat)

text \<open>The part of a shape over some of its steps.\<close>

fun prune_shape :: "(string \<Rightarrow> bool) \<Rightarrow> series_parallel \<Rightarrow> series_parallel" where
  "prune_shape P (SpStep i) = (if P i then SpStep i else SpPar [])"
| "prune_shape P (SpSeq ts) = SpSeq (map (prune_shape P) ts)"
| "prune_shape P (SpPar ts) = SpPar (map (prune_shape P) ts)"

lemma leaves_prune: "leaves (prune_shape P t) = filter P (leaves t)"
proof (induction t)
  case (SpSeq ts)
  then show ?case by (simp add: filter_concat comp_def cong: map_cong)
next
  case (SpPar ts)
  then show ?case by (simp add: filter_concat comp_def cong: map_cong)
qed simp

lemma crosses_filter: "P a \<Longrightarrow> P b \<Longrightarrow> crosses (map (filter P) ls) a b \<longleftrightarrow> crosses ls a b"
  by (induction ls) auto

lemma precedes_prune: "P a \<Longrightarrow> P b \<Longrightarrow> precedes (prune_shape P t) a b \<longleftrightarrow> precedes t a b"
proof (induction t)
  case (SpSeq ts)
  have "crosses (map leaves (map (prune_shape P) ts)) a b \<longleftrightarrow> crosses (map leaves ts) a b"
    using crosses_filter [of P a b "map leaves ts"] SpSeq(2,3) by (simp add: leaves_prune comp_def)
  with SpSeq show ?case by auto
qed auto

lemma denotes_part:
  assumes "denotes t before ids" "distinct ids" "distinct part" "set part \<subseteq> set ids"
  shows "\<exists>u. denotes u before part"
proof -
  have "mset (filter (\<lambda>i. i \<in> set part) (leaves t)) = mset (filter (\<lambda>i. i \<in> set part) ids)"
    using assms(1) by (simp add: denotes_def mset_filter)
  also have "\<dots> = mset part" using assms(2-4) by (intro set_eq_iff_mset_eq_distinct [THEN iffD1]) auto
  finally have "denotes (prune_shape (\<lambda>i. i \<in> set part) t) before part"
    using assms(1,4) by (auto simp: denotes_def leaves_prune precedes_prune)
  then show ?thesis ..
qed

section \<open>Components\<close>

lemma grow_mset: "grow rel queue left = (component, left') \<Longrightarrow> mset component + mset left' = mset queue + mset left"
proof (induction rel queue left arbitrary: component left' rule: grow.induct)
  case (2 rel c queue left)
  obtain component' where g: "grow rel (queue @ filter (rel c) left) (filter (\<lambda>x. \<not> rel c x) left) = (component', left')"
    and c: "component = c # component'" using 2(2) by (auto split: prod.splits)
  from 2(1) [OF g] show ?case by (simp add: c multiset_partition [of "mset left" "rel c", symmetric])
qed simp

lemma grow_left: "set (snd (grow rel queue left)) \<subseteq> set left"
  by (induction rel queue left rule: grow.induct) (auto split: prod.splits)

lemma grow_left_distinct: "distinct left \<Longrightarrow> distinct (snd (grow rel queue left))"
  by (induction rel queue left rule: grow.induct) (auto split: prod.splits)

lemma grow_separated: "grow rel queue left = (component, left') \<Longrightarrow> x \<in> set component \<Longrightarrow> y \<in> set left' \<Longrightarrow> \<not> rel x y"
proof (induction rel queue left arbitrary: component left' rule: grow.induct)
  case (2 rel c queue left)
  obtain component' where g: "grow rel (queue @ filter (rel c) left) (filter (\<lambda>x. \<not> rel c x) left) = (component', left')"
    and c: "component = c # component'" using 2(2) by (auto split: prod.splits)
  have "\<not> rel c y" using grow_left [of rel "queue @ filter (rel c) left" "filter (\<lambda>x. \<not> rel c x) left"] 2(4) by (auto simp: g)
  with 2(1) [OF g _ 2(4)] 2(3) show ?case by (auto simp: c)
qed simp

lemma grow_closed:
  "grow rel queue left = (component, left') \<Longrightarrow> set queue \<subseteq> A \<Longrightarrow> \<forall>a\<in>A. \<forall>x\<in>set left. rel a x \<longrightarrow> x \<in> A \<Longrightarrow> set component \<subseteq> A"
proof (induction rel queue left arbitrary: component left' rule: grow.induct)
  case (2 rel c queue left)
  obtain component' where g: "grow rel (queue @ filter (rel c) left) (filter (\<lambda>x. \<not> rel c x) left) = (component', left')"
    and c: "component = c # component'" using 2(2) by (auto split: prod.splits)
  from 2(1) [OF g] 2(3,4) show ?case by (auto simp: c)
qed simp

lemma grow_start: "grow rel (c # queue) left = (component, left') \<Longrightarrow> c \<in> set component"
  by (auto split: prod.splits)

text \<open>
  The components partition the steps; steps of different components are not related, and a
  component lies in every set that holds its first step and is closed under the relation.
\<close>

definition kept_apart :: "('a \<Rightarrow> 'a \<Rightarrow> bool) \<Rightarrow> 'a list \<Rightarrow> 'a list \<Rightarrow> bool" where
  "kept_apart rel xs ys \<longleftrightarrow> (\<forall>x\<in>set xs. \<forall>y\<in>set ys. \<not> rel x y)"

lemma mset_without: "distinct xs \<Longrightarrow> x \<in> set xs \<Longrightarrow> add_mset x (mset (filter (\<lambda>y. y \<noteq> x) xs)) = mset xs"
proof (induction xs)
  case (Cons z xs)
  show ?case
  proof (cases "z = x")
    case True
    then have "filter (\<lambda>y. y \<noteq> x) xs = xs" using Cons.prems by (intro filter_True) auto
    with True show ?thesis by (simp del: mset_filter)
  qed (use Cons in \<open>auto simp del: mset_filter\<close>)
qed simp

lemma components_step:
  assumes "set left \<subseteq> set (start # rest)" "distinct left" "start \<in> set left"
  obtains component left' where "components_from rel (start # rest) left = component # components_from rel rest left'"
    "grow rel [start] (filter (\<lambda>x. x \<noteq> start) left) = (component, left')" "mset component + mset left' = mset left"
    "set left' \<subseteq> set rest" "distinct left'"
proof -
  obtain component left' where g: "grow rel [start] (filter (\<lambda>x. x \<noteq> start) left) = (component, left')" by force
  have "set left' \<subseteq> set (filter (\<lambda>x. x \<noteq> start) left)" "distinct left'"
    using grow_left [of rel "[start]" "filter (\<lambda>x. x \<noteq> start) left"] grow_left_distinct [of "filter (\<lambda>x. x \<noteq> start) left" rel "[start]"] assms(2)
    by (simp_all only: g snd_conv distinct_filter)
  moreover have "mset component + mset left' = mset left" using grow_mset [OF g] mset_without [OF assms(2,3)] by simp
  moreover have "components_from rel (start # rest) left = component # components_from rel rest left'" using assms(3) by (simp add: g del: grow.simps)
  ultimately show thesis using that g assms(1) by auto
qed

lemma components_from_partition:
  assumes "set left \<subseteq> set ids" "distinct left"
  shows "mset (concat (components_from rel ids left)) = mset left \<and> [] \<notin> set (components_from rel ids left)
    \<and> sorted_wrt (kept_apart rel) (components_from rel ids left)"
  using assms
proof (induction rel ids left rule: components_from.induct)
  case (2 rel start rest left)
  show ?case
  proof (cases "start \<in> set left")
    case True
    obtain component left' where c: "components_from rel (start # rest) left = component # components_from rel rest left'"
      "grow rel [start] (filter (\<lambda>x. x \<noteq> start) left) = (component, left')" "mset component + mset left' = mset left"
      "set left' \<subseteq> set rest" "distinct left'" by (rule components_step [OF 2(3,4) True])
    have IH: "mset (concat (components_from rel rest left')) = mset left' \<and> [] \<notin> set (components_from rel rest left')
        \<and> sorted_wrt (kept_apart rel) (components_from rel rest left')"
      using 2(2) [OF _ c(2) [symmetric] refl c(4,5)] True by simp
    then have "set (concat (components_from rel rest left')) = set left'" by (metis mset_eq_setD)
    then have "\<forall>d\<in>set (components_from rel rest left'). kept_apart rel component d"
      using grow_separated [OF c(2)] by (fastforce simp: kept_apart_def)
    moreover have "component \<noteq> []" using grow_start [OF c(2)] by auto
    ultimately show ?thesis using IH c(1,3) by simp
  next
    case False
    with 2 show ?thesis by auto
  qed
qed simp

text \<open>A single component is connected: no part of it is unrelated to the rest.\<close>

lemma components_single:
  assumes "length (connectedComponents ids rel) \<le> 1" "distinct ids" "ids \<noteq> []" "\<And>a b. rel a b \<longleftrightarrow> rel b a"
    and "A \<subset> set ids" "A \<noteq> {}"
  shows "\<exists>a\<in>A. \<exists>b\<in>set ids - A. rel a b"
proof (rule ccontr)
  assume none: "\<not> (\<exists>a\<in>A. \<exists>b\<in>set ids - A. rel a b)"
  obtain start rest where ids: "ids = start # rest" using assms(3) by (cases ids) auto
  obtain component left' where c: "components_from rel (start # rest) ids = component # components_from rel rest left'"
    "grow rel [start] (filter (\<lambda>x. x \<noteq> start) ids) = (component, left')"
    by (rule components_step [of ids start rest rel]) (use ids assms(2) in auto)
  have "components_from rel ids ids = [component]"
    using assms(1,2) c(1) by (auto simp: connectedComponents_def js_set_distinct ids)
  then have all: "set component = set ids"
    using components_from_partition [of ids ids rel] assms(2) by (metis concat.simps mset_eq_setD order_refl self_append_conv)
  have "set component \<subseteq> (if start \<in> A then A else set ids - A)"
    using none assms(4,5) ids by (intro grow_closed [OF c(2)]) (auto split: if_splits)
  then show False using all assms(5,6) by (auto split: if_splits)
qed

section \<open>Decomposition\<close>

lemma all_some_eq_Some: "all_some xs = Some ys \<longleftrightarrow> xs = map Some ys"
  by (induction xs arbitrary: ys rule: all_some.induct) auto

lemma all_some_eq_None: "all_some xs = None \<longleftrightarrow> None \<in> set xs"
  by (induction xs rule: all_some.induct) auto

lemma connected_partition:
  "mset (concat (connectedComponents ids rel)) = mset (js_set ids)" "[] \<notin> set (connectedComponents ids rel)"
  "sorted_wrt (kept_apart rel) (connectedComponents ids rel)" "c \<in> set (connectedComponents ids rel) \<Longrightarrow> set c \<subseteq> set ids \<and> distinct c"
proof -
  have p: "mset (concat (connectedComponents ids rel)) = mset (js_set ids)" "[] \<notin> set (connectedComponents ids rel)"
    "sorted_wrt (kept_apart rel) (connectedComponents ids rel)"
    using components_from_partition [of "js_set ids" ids rel] unfolding connectedComponents_def by (simp_all del: mset_concat)
  then show "mset (concat (connectedComponents ids rel)) = mset (js_set ids)" "[] \<notin> set (connectedComponents ids rel)"
    "sorted_wrt (kept_apart rel) (connectedComponents ids rel)" by auto
  assume "c \<in> set (connectedComponents ids rel)"
  then show "set c \<subseteq> set ids \<and> distinct c"
    using mset_eq_setD [OF p(1)] mset_eq_imp_distinct_iff [OF p(1)] by (auto simp: distinct_concat_iff)
qed

lemma component_smaller:
  assumes "1 < length (connectedComponents ids rel)" "c \<in> set (connectedComponents ids rel)"
  shows "card (set c) < card (set ids)"
proof -
  let ?cs = "connectedComponents ids rel"
  obtain xs ys where cs: "?cs = xs @ c # ys" using split_list [OF assms(2)] by blast
  then obtain d where d: "d \<in> set xs \<union> set ys" using assms(1) by (cases xs; cases ys) auto
  have "distinct (concat ?cs)" using mset_eq_imp_distinct_iff [OF connected_partition(1)] by simp
  then have "set c \<inter> set d = {}" using d unfolding cs by auto
  moreover have "d \<noteq> []" "set d \<subseteq> set ids" using d connected_partition(2,4) [where ids = ids and rel = rel] by (auto simp: cs)
  moreover have "set c \<subseteq> set ids" using connected_partition(4) [OF assms(2)] by simp
  ultimately have "set c \<subset> set ids" by (cases d) auto
  then show ?thesis by (intro psubset_card_mono) auto
qed

text \<open>A cut splits the steps into two smaller sets.\<close>

lemma cut_parts:
  assumes "find (cut_ok anc ordered) [1..<length ordered] = Some k" "\<forall>a\<in>set ordered. \<not> is_ancestor anc a a"
  shows "set (take k ordered) \<union> set (drop k ordered) = set ordered" "set (take k ordered) \<inter> set (drop k ordered) = {}"
    "take k ordered \<noteq> []" "drop k ordered \<noteq> []" "cut_ok anc ordered k"
proof -
  from assms(1) have k: "cut_ok anc ordered k" "1 \<le> k" "k < length ordered" by (auto simp: find_Some_iff)
  then show "cut_ok anc ordered k" "take k ordered \<noteq> []" "drop k ordered \<noteq> []" by auto
  show "set (take k ordered) \<union> set (drop k ordered) = set ordered" by (metis append_take_drop_id set_append)
  show "set (take k ordered) \<inter> set (drop k ordered) = {}"
    using k(1) assms(2) by (auto simp: cut_ok_def dest: in_set_takeD)
qed

lemma split_psubset: "A \<union> B = C \<Longrightarrow> A \<inter> B = {} \<Longrightarrow> A \<noteq> {} \<Longrightarrow> B \<noteq> {} \<Longrightarrow> A \<subset> C \<and> B \<subset> C"
  by blast

lemma cut_smaller:
  assumes "find (cut_ok anc ordered) [1..<length ordered] = Some k" "\<forall>a\<in>set ordered. \<not> is_ancestor anc a a"
  shows "card (set (take k ordered)) < card (set ordered)" "card (set (drop k ordered)) < card (set ordered)"
proof -
  note p = cut_parts [OF assms]
  have "set (take k ordered) \<noteq> {}" "set (drop k ordered) \<noteq> {}" using p(3,4) by auto
  then have "set (take k ordered) \<subset> set ordered" "set (drop k ordered) \<subset> set ordered"
    using split_psubset [OF p(1,2)] by simp_all
  then show "card (set (take k ordered)) < card (set ordered)" "card (set (drop k ordered)) < card (set ordered)"
    by (auto intro: psubset_card_mono)
qed

text \<open>The fuel of \<open>seriesParallel\<close> is enough, whatever the steps.\<close>

lemma decompose_returns:
  assumes "\<forall>a\<in>set order. \<not> is_ancestor anc a a"
  shows "card (set ids) \<le> n \<Longrightarrow> 0 < n \<Longrightarrow> set ids \<subseteq> set order \<Longrightarrow> decompose anc order n ids \<noteq> None"
proof (induction n arbitrary: ids)
  case (Suc n)
  have smaller: "decompose anc order n part \<noteq> None" if "card (set part) < card (set ids)" "part \<noteq> []" "set part \<subseteq> set ids" for part
  proof (rule Suc.IH)
    have "0 < card (set part)" using that(2) by (simp add: card_gt_0_iff)
    then show "0 < n" "card (set part) \<le> n" using that(1) Suc.prems(1) by linarith+
    show "set part \<subseteq> set order" using that(3) Suc.prems(3) by blast
  qed
  let ?cs = "connectedComponents ids (related anc)" and ?o = "filter (\<lambda>i. i \<in> set ids) order"
  have o: "set ?o = set ids" "\<forall>a\<in>set ?o. \<not> is_ancestor anc a a" using Suc.prems(3) assms by auto
  show ?case
  proof (cases "1 < length ?cs")
    case True
    have "decompose anc order n c \<noteq> None" if "c \<in> set ?cs" for c
      using that connected_partition(2,4) [where ids = ids and rel = "related anc"] by (intro smaller component_smaller [OF True]) auto
    then have "None \<notin> set (map (decompose anc order n) ?cs)" by (metis imageE list.set_map)
    then have "all_some (map (decompose anc order n) ?cs) \<noteq> None" unfolding all_some_eq_None .
    with True show ?thesis by (auto simp: Let_def)
  next
    case False
    have "decompose anc order n (take k ?o) \<noteq> None" "decompose anc order n (drop k ?o) \<noteq> None"
      if "find (cut_ok anc ?o) [1..<length ?o] = Some k" for k
    proof -
      note p = cut_parts [OF that o(2), unfolded o(1)] and q = cut_smaller [OF that o(2), unfolded o(1)]
      show "decompose anc order n (take k ?o) \<noteq> None" using q(1) p(3) by (rule smaller) (use p(1) in blast)
      show "decompose anc order n (drop k ?o) \<noteq> None" using q(2) p(4) by (rule smaller) (use p(1) in blast)
    qed
    with False show ?thesis by (auto simp: Let_def simp del: not_None_eq split: option.splits)
  qed
qed simp

text \<open>What is answered denotes the ancestors.\<close>

lemma mset_filter_order:
  assumes "distinct order" "distinct ids" "set ids \<subseteq> set order"
  shows "mset (filter (\<lambda>i. i \<in> set ids) order) = mset ids" "distinct (filter (\<lambda>i. i \<in> set ids) order)"
  using assms by (auto intro!: set_eq_iff_mset_eq_distinct [THEN iffD1] simp del: mset_filter)

lemma related_sym: "related anc a b \<longleftrightarrow> related anc b a"
  by (auto simp: related_def)

lemma denotes_leaves: "denotes t before ids \<Longrightarrow> set (leaves t) = set ids"
  by (auto simp: denotes_def dest: mset_eq_setD)

lemma denotes_par:
  assumes "list_all2 (\<lambda>t c. denotes t before c) ts cs" "distinct (concat cs)"
    and "sorted_wrt (kept_apart (\<lambda>a b. before a b \<or> before b a)) cs"
  shows "denotes (SpPar ts) before (concat cs)"
  using assms
proof (induction rule: list_all2_induct)
  case (Cons t ts c cs)
  have IH: "denotes (SpPar ts) before (concat cs)" using Cons by simp
  have disjoint: "set c \<inter> set (concat cs) = {}" using Cons.prems(1) by auto
  have apart: "\<not> before a b" "\<not> before b a" if "a \<in> set c" "b \<in> set (concat cs)" for a b
    using Cons.prems(2) that by (auto simp: kept_apart_def)
  have l: "set (leaves t) = set c" "set (leaves (SpPar ts)) = set (concat cs)" using denotes_leaves Cons.hyps(1) IH by blast+
  have outside: "\<not> precedes (SpPar ts) a b" if "a \<in> set c \<or> b \<in> set c" for a b
    using precedes_mem [of "SpPar ts" a b] that disjoint l(2) by blast
  have inside: "\<not> precedes t a b" if "a \<in> set (concat cs) \<or> b \<in> set (concat cs)" for a b
    using precedes_mem [of t a b] that disjoint l(1) by blast
  have split: "precedes (SpPar (t # ts)) a b \<longleftrightarrow> precedes t a b \<or> precedes (SpPar ts) a b" for a b by simp
  have m: "mset (leaves (SpPar (t # ts))) = mset (concat (c # cs))"
    using Cons.hyps(1) IH by (simp add: denotes_def del: mset_concat)
  have "precedes (SpPar (t # ts)) a b \<longleftrightarrow> before a b" if "a \<in> set (concat (c # cs))" "b \<in> set (concat (c # cs))" for a b
  proof -
    have ab: "a \<in> set c \<or> a \<in> set (concat cs)" "b \<in> set c \<or> b \<in> set (concat cs)" using that by auto
    consider "a \<in> set c" "b \<in> set c" | "a \<in> set (concat cs)" "b \<in> set (concat cs)" | "a \<in> set c" "b \<in> set (concat cs)" | "a \<in> set (concat cs)" "b \<in> set c"
      using ab by blast
    then show ?thesis
    proof cases
      case 1 then show ?thesis unfolding split using outside Cons.hyps(1) by (auto simp: denotes_def)
    next
      case 2 then show ?thesis unfolding split using inside IH unfolding denotes_def by blast
    next
      case 3 then show ?thesis unfolding split using inside outside apart by blast
    next
      case 4 then show ?thesis unfolding split using inside outside apart by blast
    qed
  qed
  with m show ?case by (simp only: denotes_def) blast
qed (simp add: denotes_def)

lemma denotes_seq:
  assumes "denotes f before head" "denotes r before tail" "distinct (head @ tail)"
    and "\<forall>a\<in>set head. \<forall>b\<in>set tail. before a b \<and> \<not> before b a"
  shows "denotes (SpSeq (seq_items f @ seq_items r)) before (head @ tail)"
proof -
  have l: "set (leaves f) = set head" "set (leaves r) = set tail" using denotes_leaves assms(1,2) by blast+
  have "precedes (SpSeq (seq_items f @ seq_items r)) a b \<longleftrightarrow> before a b" if "a \<in> set (head @ tail)" "b \<in> set (head @ tail)" for a b
    using that assms precedes_mem [of f a b] precedes_mem [of r a b] unfolding precedes_seq_join denotes_def l by auto
  moreover have "mset (leaves (SpSeq (seq_items f @ seq_items r))) = mset (head @ tail)"
    using assms(1,2) by (simp add: denotes_def del: mset_concat)
  ultimately show ?thesis by (simp add: denotes_def del: precedes.simps leaves.simps)
qed

lemma denotes_mset: "mset xs = mset ys \<Longrightarrow> denotes t before xs \<Longrightarrow> denotes t before ys"
  using mset_eq_setD [of xs ys] by (simp add: denotes_def)

definition depth :: "parent_map \<Rightarrow> string \<Rightarrow> nat" where
  "depth anc i = length (parents_of anc i)"

definition order_ok :: "parent_map \<Rightarrow> string list \<Rightarrow> bool" where
  "order_ok anc order \<longleftrightarrow> distinct order \<and> sorted (map (depth anc) order)
     \<and> (\<forall>a\<in>set order. \<forall>b\<in>set order. is_ancestor anc a b \<longrightarrow> depth anc a < depth anc b)"

lemma order_ok_asym: "order_ok anc order \<Longrightarrow> a \<in> set order \<Longrightarrow> b \<in> set order \<Longrightarrow> is_ancestor anc a b \<Longrightarrow> \<not> is_ancestor anc b a"
  unfolding order_ok_def by (metis less_asym)

lemma order_ok_irrefl: "order_ok anc order \<Longrightarrow> \<forall>a\<in>set order. \<not> is_ancestor anc a a"
  by (auto simp: order_ok_def)

lemma decompose_sound:
  assumes ok: "order_ok anc order"
  shows "decompose anc order n ids = Some (Some t) \<Longrightarrow> distinct ids \<Longrightarrow> set ids \<subseteq> set order \<Longrightarrow> denotes t (is_ancestor anc) ids"
proof (induction n arbitrary: ids t)
  case (Suc n)
  let ?cs = "connectedComponents ids (related anc)" and ?o = "filter (\<lambda>i. i \<in> set ids) order"
  consider "length ids = 1" | "length ids \<noteq> 1" "1 < length ?cs" | "length ids \<noteq> 1" "\<not> 1 < length ?cs" by blast
  then show ?case
  proof cases
    case 1
    then obtain i where "ids = [i]" by (auto simp: length_Suc_conv)
    with Suc.prems order_ok_irrefl [OF ok] show ?thesis by (auto simp: denotes_def)
  next
    case 2
    then obtain ts where ts: "map (decompose anc order n) ?cs = map Some (map Some ts)" "t = SpPar ts"
      using Suc.prems(1) by (auto simp: Let_def all_some_eq_Some)
    have part: "distinct c" "set c \<subseteq> set order" if "c \<in> set ?cs" for c
      using connected_partition(4) [OF that] Suc.prems(3) by auto
    have "list_all2 (\<lambda>t c. denotes t (is_ancestor anc) c) ts ?cs"
    proof (rule list_all2_all_nthI)
      show "length ts = length ?cs" using arg_cong [OF ts(1), of length] by simp
      fix i assume i: "i < length ts"
      have "decompose anc order n (?cs ! i) = Some (Some (ts ! i))"
        using arg_cong [OF ts(1), of "\<lambda>xs. xs ! i"] i \<open>length ts = length ?cs\<close> by simp
      then show "denotes (ts ! i) (is_ancestor anc) (?cs ! i)"
        using i \<open>length ts = length ?cs\<close> by (intro Suc.IH part) auto
    qed
    moreover have "mset (concat ?cs) = mset ids" using connected_partition(1) [of ids "related anc"] Suc.prems(2) by (simp add: js_set_distinct del: mset_concat)
    moreover from this have "distinct (concat ?cs)" using Suc.prems(2) mset_eq_imp_distinct_iff by blast
    moreover have "sorted_wrt (kept_apart (\<lambda>a b. is_ancestor anc a b \<or> is_ancestor anc b a)) ?cs"
      using connected_partition(3) [of "related anc" ids] by (rule sorted_wrt_mono_rel [rotated]) (auto simp: kept_apart_def related_def)
    ultimately show ?thesis unfolding ts(2) by (intro denotes_mset [OF _ denotes_par]) auto
  next
    case 3
    then obtain k f r where k: "find (cut_ok anc ?o) [1..<length ?o] = Some k" "decompose anc order n (take k ?o) = Some (Some f)"
      "decompose anc order n (drop k ?o) = Some (Some r)" "t = SpSeq (seq_items f @ seq_items r)"
      using Suc.prems(1) by (auto simp: Let_def split: option.splits)
    have o: "mset ?o = mset ids" "distinct ?o" using mset_filter_order ok Suc.prems(2,3) unfolding order_ok_def by blast+
    have sub: "set (take k ?o) \<subseteq> set order" "set (drop k ?o) \<subseteq> set order" using set_take_subset [of k ?o] set_drop_subset [of k ?o] by auto
    have "denotes f (is_ancestor anc) (take k ?o)" "denotes r (is_ancestor anc) (drop k ?o)"
      using Suc.IH [OF k(2)] Suc.IH [OF k(3)] o(2) sub by auto
    moreover have "\<forall>a\<in>set (take k ?o). \<forall>b\<in>set (drop k ?o). is_ancestor anc a b \<and> \<not> is_ancestor anc b a"
    proof (intro ballI)
      fix a b assume ab: "a \<in> set (take k ?o)" "b \<in> set (drop k ?o)"
      then have "is_ancestor anc a b" using find_Some_iff [of "cut_ok anc ?o" "[1..<length ?o]" k] k(1) unfolding cut_ok_def by blast
      with order_ok_asym [OF ok subsetD [OF sub(1) ab(1)] subsetD [OF sub(2) ab(2)]] show "is_ancestor anc a b \<and> \<not> is_ancestor anc b a" by blast
    qed
    ultimately have "denotes t (is_ancestor anc) (take k ?o @ drop k ?o)" unfolding k(4) using o(2) by (intro denotes_seq) auto
    then show ?thesis unfolding append_take_drop_id using denotes_mset [OF o(1)] by blast
  qed
qed simp

section \<open>A shape is found where there is one\<close>

lemma part_unique: "distinct (concat (map f ts)) \<Longrightarrow> u \<in> set ts \<Longrightarrow> t \<in> set ts \<Longrightarrow> a \<in> set (f u) \<Longrightarrow> a \<in> set (f t) \<Longrightarrow> u = t"
  by (induction ts) auto

lemma crosses_apart: "crosses ls a b \<Longrightarrow> distinct (concat ls) \<Longrightarrow> l \<in> set ls \<Longrightarrow> a \<in> set l \<Longrightarrow> b \<notin> set l"
proof (induction ls)
  case (Cons k ls)
  then show ?case using crosses_mem [of ls a b] by auto
qed simp

text \<open>A part that holds every step denotes the whole order.\<close>

lemma denotes_whole_part:
  assumes "denotes s before ids" "distinct ids" "s = SpSeq ts \<or> s = SpPar ts" "t \<in> set ts" "set (leaves t) = set ids"
  shows "denotes t before ids"
proof -
  have m: "mset (concat (map leaves ts)) = mset ids" using assms(1,3) by (auto simp: denotes_def simp del: mset_concat)
  then have d: "distinct (concat (map leaves ts))" using assms(2) mset_eq_imp_distinct_iff by blast
  have dt: "distinct (leaves t)" by (rule distinct_concat_part [OF d assms(4)])
  have "mset (leaves t) = mset ids" using set_eq_iff_mset_eq_distinct [OF dt assms(2)] assms(5) by blast
  moreover have "precedes s a b \<longleftrightarrow> precedes t a b" if ab: "a \<in> set ids" "b \<in> set ids" for a b
  proof -
    have "precedes u a b \<Longrightarrow> u = t" if "u \<in> set ts" for u
      using precedes_mem [of u a b] part_unique [OF d that assms(4), of a] ab assms(5) by blast
    moreover have "\<not> crosses (map leaves ts) a b"
      using crosses_apart [of "map leaves ts" a b "leaves t"] d ab assms(4,5) by auto
    ultimately show ?thesis using assms(3,4) by auto
  qed
  ultimately show ?thesis using assms(1) by (simp add: denotes_def)
qed

text \<open>A connected order that a shape denotes has a cut.\<close>

lemma denotes_cut:
  assumes "denotes t before ids" "distinct ids" "2 \<le> length ids"
    and connected: "\<And>A. A \<subset> set ids \<Longrightarrow> A \<noteq> {} \<Longrightarrow> \<exists>a\<in>A. \<exists>b\<in>set ids - A. before a b \<or> before b a"
  shows "\<exists>A\<subset>set ids. A \<noteq> {} \<and> (\<forall>a\<in>A. \<forall>b\<in>set ids - A. before a b)"
  using assms(1)
proof (induction t)
  case (SpStep i)
  then have "length ids = 1" by (metis denotes_def leaves.simps(1) length_Cons list.size(3) One_nat_def mset_eq_length)
  with assms(3) show ?case by simp
next
  case (SpSeq ts)
  show ?case
  proof (cases "\<exists>t\<in>set ts. set (leaves t) = set ids")
    case True
    then show ?thesis using SpSeq denotes_whole_part [OF SpSeq.prems assms(2)] by blast
  next
    case False
    have l: "set (concat (map leaves ts)) = set ids" using denotes_leaves [OF SpSeq.prems] by simp
    moreover have "ids \<noteq> []" using assms(3) by auto
    ultimately have "\<not> (\<forall>t\<in>set ts. leaves t = [])" by (metis concat_eq_Nil_conv set_empty set_map imageE)
    then have "\<exists>t\<in>set ts. leaves t \<noteq> []" by blast
    then obtain pre t post where ts: "ts = pre @ t # post" "leaves t \<noteq> []" "\<forall>u\<in>set pre. leaves u = []"
      using split_list_first_prop [of ts "\<lambda>t. leaves t \<noteq> []"] by blast
    have rest: "set ids = set (leaves t) \<union> set (concat (map leaves post))" using l ts(3) unfolding ts(1) by auto
    have "before a b" if "a \<in> set (leaves t)" "b \<in> set ids - set (leaves t)" for a b
    proof -
      have "crosses (map leaves ts) a b" using that rest unfolding ts(1) by (auto simp: crosses_append)
      then show ?thesis using SpSeq.prems that rest unfolding denotes_def by auto
    qed
    moreover have "set (leaves t) \<subset> set ids" "set (leaves t) \<noteq> {}" using False ts(1,2) rest by auto
    ultimately show ?thesis by blast
  qed
next
  case (SpPar ts)
  show ?case
  proof (cases "\<exists>t\<in>set ts. set (leaves t) = set ids")
    case True
    then show ?thesis using SpPar denotes_whole_part [OF SpPar.prems assms(2)] by blast
  next
    case False
    have m: "mset (concat (map leaves ts)) = mset ids" using SpPar.prems by (simp add: denotes_def del: mset_concat)
    then have d: "distinct (concat (map leaves ts))" using assms(2) mset_eq_imp_distinct_iff by blast
    have l: "set (concat (map leaves ts)) = set ids" using m by (rule mset_eq_setD)
    moreover have "ids \<noteq> []" using assms(3) by auto
    ultimately have "\<not> (\<forall>t\<in>set ts. leaves t = [])" by (metis concat_eq_Nil_conv set_empty set_map imageE)
    then obtain t where t: "t \<in> set ts" "leaves t \<noteq> []" by blast
    then have "set (leaves t) \<subset> set ids" "set (leaves t) \<noteq> {}" using False l by auto
    then obtain a b where ab: "a \<in> set (leaves t)" "b \<in> set ids - set (leaves t)" "before a b \<or> before b a" using connected by metis
    then have "precedes (SpPar ts) a b \<or> precedes (SpPar ts) b a"
      using SpPar.prems \<open>set (leaves t) \<subset> set ids\<close> unfolding denotes_def by blast
    then obtain u where u: "u \<in> set ts" "a \<in> set (leaves u)" "b \<in> set (leaves u)" by (auto dest: precedes_mem)
    then show ?thesis using part_unique [OF d u(1) t(1) u(2) ab(1)] ab(2) by blast
  qed
qed

text \<open>Sorted by depth, the steps before a cut come first.\<close>

lemma sorted_split:
  assumes "sorted (map d xs)" "\<forall>a\<in>set xs. \<forall>b\<in>set xs. P a \<longrightarrow> \<not> P b \<longrightarrow> d a < (d b :: nat)"
  shows "xs = filter P xs @ filter (\<lambda>x. \<not> P x) xs"
  using assms
proof (induction xs)
  case (Cons x xs)
  show ?case
  proof (cases "P x")
    case False
    have "\<not> P y" if "y \<in> set xs" for y
    proof
      assume "P y"
      then have "d y < d x" using Cons.prems(2) that False by auto
      moreover have "d x \<le> d y" using Cons.prems(1) that by auto
      ultimately show False by simp
    qed
    then have "filter P xs = []" "filter (\<lambda>x. \<not> P x) xs = xs" by (auto simp: filter_empty_conv intro: filter_True)
    with False show ?thesis by simp
  qed (use Cons in auto)
qed simp

lemma cut_found:
  assumes "order_ok anc order" "set ids \<subseteq> set order" "A \<subset> set ids" "A \<noteq> {}" "\<forall>a\<in>A. \<forall>b\<in>set ids - A. is_ancestor anc a b"
  shows "find (cut_ok anc (filter (\<lambda>i. i \<in> set ids) order)) [1..<length (filter (\<lambda>i. i \<in> set ids) order)] \<noteq> None"
proof -
  let ?o = "filter (\<lambda>i. i \<in> set ids) order" and ?P = "\<lambda>i. i \<in> A"
  have o: "set ?o = set ids" using assms(2) by auto
  have "sorted (map (depth anc) ?o)" using assms(1) by (simp add: order_ok_def sorted_filter)
  moreover have "\<forall>a\<in>set ?o. \<forall>b\<in>set ?o. ?P a \<longrightarrow> \<not> ?P b \<longrightarrow> depth anc a < depth anc b"
    using assms(1,2,5) unfolding o order_ok_def by (metis Diff_iff subset_iff)
  ultimately have split: "?o = filter ?P ?o @ filter (\<lambda>i. \<not> ?P i) ?o" by (rule sorted_split)
  let ?k = "length (filter ?P ?o)"
  have tk: "take ?k ?o = filter ?P ?o" "drop ?k ?o = filter (\<lambda>i. \<not> ?P i) ?o" by (subst split, simp)+
  have "cut_ok anc ?o ?k" unfolding cut_ok_def tk using assms(5) o by auto
  moreover have "1 \<le> ?k" "?k < length ?o"
  proof -
    obtain a b where "a \<in> A" "a \<in> set ids" "b \<in> set ids" "b \<notin> A" using assms(3,4) by blast
    then have "a \<in> set (filter ?P ?o)" "b \<in> set (filter (\<lambda>i. \<not> ?P i) ?o)" unfolding set_filter [of ?P] set_filter [of "\<lambda>i. \<not> ?P i"] o by simp_all
    then have "0 < ?k" "0 < length (filter (\<lambda>i. \<not> ?P i) ?o)" by (metis length_pos_if_in_set)+
    moreover have "length ?o = ?k + length (filter (\<lambda>i. \<not> ?P i) ?o)" by (rule sum_length_filter_compl [symmetric])
    ultimately show "1 \<le> ?k" "?k < length ?o" by linarith+
  qed
  ultimately have "\<exists>k\<in>set [1..<length ?o]. cut_ok anc ?o k" by (intro bexI [of _ ?k]) auto
  then show ?thesis unfolding find_None_iff by blast
qed

lemma decompose_complete:
  assumes ok: "order_ok anc order"
  shows "denotes t (is_ancestor anc) ids \<Longrightarrow> distinct ids \<Longrightarrow> ids \<noteq> [] \<Longrightarrow> set ids \<subseteq> set order \<Longrightarrow> decompose anc order n ids \<noteq> Some None"
proof (induction n arbitrary: ids t)
  case (Suc n)
  let ?cs = "connectedComponents ids (related anc)" and ?o = "filter (\<lambda>i. i \<in> set ids) order"
  have part: "decompose anc order n p \<noteq> Some None" if p: "set p \<subseteq> set ids" "distinct p" "p \<noteq> []" for p
  proof -
    obtain u where "denotes u (is_ancestor anc) p" using denotes_part [OF Suc.prems(1,2) p(2,1)] by blast
    then show ?thesis using p Suc.prems(4) by (intro Suc.IH) auto
  qed
  consider "length ids = 1" | "length ids \<noteq> 1" "1 < length ?cs" | "length ids \<noteq> 1" "\<not> 1 < length ?cs" by blast
  then show ?case
  proof cases
    case 2
    have "Some None \<notin> set (map (decompose anc order n) ?cs)"
    proof
      assume "Some None \<in> set (map (decompose anc order n) ?cs)"
      then obtain c where "c \<in> set ?cs" "decompose anc order n c = Some None" by auto
      with part connected_partition(2,4) [where ids = ids and rel = "related anc"] show False by metis
    qed
    then have "None \<notin> set ys" if "map (decompose anc order n) ?cs = map Some ys" for ys using that by auto
    with 2 show ?thesis by (auto simp: Let_def all_some_eq_Some all_some_eq_None)
  next
    case 3
    have o: "set ?o = set ids" "distinct ?o" using Suc.prems(4) ok by (auto simp: order_ok_def)
    have "2 \<le> length ids" using 3(1) Suc.prems(3) by (cases ids; cases "tl ids") auto
    moreover have "\<exists>a\<in>A. \<exists>b\<in>set ids - A. is_ancestor anc a b \<or> is_ancestor anc b a" if "A \<subset> set ids" "A \<noteq> {}" for A
      using components_single [of ids "related anc" A] 3(2) Suc.prems(2,3) related_sym that unfolding related_def by (auto; blast)
    ultimately obtain A where "A \<subset> set ids" "A \<noteq> {}" "\<forall>a\<in>A. \<forall>b\<in>set ids - A. is_ancestor anc a b"
      using denotes_cut [OF Suc.prems(1,2)] by metis
    then obtain k where k: "find (cut_ok anc ?o) [1..<length ?o] = Some k" using cut_found [OF ok Suc.prems(4)] by blast
    have "\<forall>a\<in>set ?o. \<not> is_ancestor anc a a" using order_ok_irrefl [OF ok] by simp
    note p = cut_parts [OF k this, unfolded o(1)]
    have "decompose anc order n (take k ?o) \<noteq> Some None" using p(1) by (intro part p(3) distinct_take o(2)) blast
    moreover have "decompose anc order n (drop k ?o) \<noteq> Some None" using p(1) by (intro part p(4) distinct_drop o(2)) blast
    ultimately show ?thesis using 3 k by (auto simp: Let_def split: option.splits)
  qed (auto simp: Let_def)
qed simp

section \<open>The shape of a workflow\<close>

text \<open>The waits between the steps of a workflow; waits on steps it does not have are left out.\<close>

definition step_waits :: "flow_node list \<Rightarrow> (string \<times> string) set" where
  "step_waits steps = {(p, fn_id s) |p s. s \<in> set steps \<and> p \<in> set (fn_after s) \<and> p \<in> fn_id ` set steps}"

lemma waits_parent_map: "distinct (map fn_id steps) \<Longrightarrow> waits (parent_map steps) = step_waits steps"
proof -
  assume d: "distinct (map fn_id steps)"
  have "(p, i) \<in> waits (parent_map steps) \<longleftrightarrow> (p, i) \<in> step_waits steps" for p i
  proof
    assume w: "(p, i) \<in> waits (parent_map steps)"
    then obtain s where s: "s \<in> set steps" "i = fn_id s" using waits_known by blast
    with w parents_of_parent_map [OF d s(1)] show "(p, i) \<in> step_waits steps" by (auto simp: waits_def step_waits_def)
  next
    assume "(p, i) \<in> step_waits steps"
    then obtain s where "s \<in> set steps" "i = fn_id s" "p \<in> set (fn_after s)" "p \<in> fn_id ` set steps" by (auto simp: step_waits_def)
    then show "(p, i) \<in> waits (parent_map steps)" using parents_of_parent_map [OF d] by (auto simp: waits_def)
  qed
  then show ?thesis by auto
qed

lemma topological_ok:
  assumes "ancestorSets ids ps = Some anc" "distinct ids"
  shows "order_ok anc (topological anc ids)" "set (topological anc ids) = set ids"
proof -
  show s: "set (topological anc ids) = set ids" by (simp add: topological_def)
  have "sorted (map (\<lambda>i. int (depth anc i)) (topological anc ids))" unfolding topological_def depth_def by (rule sorted_js_sort)
  then have "sorted (map (depth anc) (topological anc ids))" by (simp add: sorted_map)
  moreover have "depth anc a < depth anc b" if ab: "a \<in> set ids" "b \<in> set ids" "is_ancestor anc a b" for a b
  proof -
    note A = ancestorSets_sound [OF assms(1) ab(1)] and B = ancestorSets_sound [OF assms(1) ab(2)]
    have "(a, b) \<in> (waits ps)\<^sup>+" using ab(3) B(1) by (simp add: is_ancestor_def)
    then have "set (parents_of anc a) \<subset> set (parents_of anc b)" unfolding A(1) B(1) using A(3) by (auto intro: trancl_trans)
    then have "card (set (parents_of anc a)) < card (set (parents_of anc b))" by (intro psubset_card_mono) auto
    then show ?thesis by (simp add: depth_def distinct_card A(2) B(2))
  qed
  moreover have "distinct (topological anc ids)" using distinct_js_sort [of "\<lambda>x. x" _ ids] assms(2) by (simp add: topological_def)
  ultimately show "order_ok anc (topological anc ids)" by (simp add: order_ok_def s)
qed

text \<open>A shape draws a workflow when its order is the order of the waits.\<close>

definition draws :: "series_parallel \<Rightarrow> flow_node list \<Rightarrow> bool" where
  "draws t steps \<longleftrightarrow> denotes t (\<lambda>a b. (a, b) \<in> (step_waits steps)\<^sup>+) (map fn_id steps)"

lemma draws_ancestors:
  assumes "ancestorSets (map fn_id steps) (parent_map steps) = Some anc" "distinct (map fn_id steps)"
  shows "draws t steps \<longleftrightarrow> denotes t (is_ancestor anc) (map fn_id steps)"
  using ancestorSets_sound(1) [OF assms(1)] unfolding draws_def denotes_def is_ancestor_def waits_parent_map [OF assms(2)] by simp

lemma waits_cycle_known: "(c, c) \<in> (step_waits steps)\<^sup>+ \<Longrightarrow> c \<in> set (map fn_id steps)"
  by (auto simp: step_waits_def dest!: tranclD2)

lemma shape_exact:
  assumes "distinct (map fn_id steps)"
  shows "(\<forall>t. seriesParallel steps = Some t \<longrightarrow> draws t steps)
    \<and> (seriesParallel steps \<noteq> None \<longleftrightarrow> steps \<noteq> [] \<and> length steps \<le> MAX_RAILROAD_STEPS \<and> (\<exists>t. draws t steps))"
proof (cases "steps = [] \<or> MAX_RAILROAD_STEPS < length steps")
  case True
  then show ?thesis by (auto simp: seriesParallel_def)
next
  case small: False
  let ?ids = "map fn_id steps"
  show ?thesis
  proof (cases "ancestorSets ?ids (parent_map steps)")
    case None
    then obtain c where "(c, c) \<in> (step_waits steps)\<^sup>+"
      using visit_ids_complete waits_parent_map [OF assms] unfolding ancestorSets_def by metis
    then have "\<not> draws t steps" for t
      using precedes_irrefl [of t c] waits_cycle_known assms unfolding draws_def denotes_def by (metis mset_eq_imp_distinct_iff)
    then show ?thesis using small None by (auto simp: seriesParallel_def)
  next
    case (Some anc)
    note ok = topological_ok [OF Some assms] and draws = draws_ancestors [OF Some assms]
    have s: "seriesParallel steps = coalesce (decompose anc (topological anc ?ids) (length ?ids) ?ids) None"
      using small Some by (simp add: seriesParallel_def Let_def)
    have "decompose anc (topological anc ?ids) (length ?ids) ?ids \<noteq> None"
      by (rule decompose_returns [OF order_ok_irrefl [OF ok(1)]]) (use small ok(2) card_length [of ?ids] in auto)
    moreover have "denotes t (is_ancestor anc) ?ids \<Longrightarrow> decompose anc (topological anc ?ids) (length ?ids) ?ids \<noteq> Some None" for t
      by (rule decompose_complete [OF ok(1) _ assms]) (use small ok(2) in auto)
    moreover have "decompose anc (topological anc ?ids) (length ?ids) ?ids = Some (Some t) \<Longrightarrow> denotes t (is_ancestor anc) ?ids" for t
      by (rule decompose_sound [OF ok(1) _ assms]) (use ok(2) in auto)
    ultimately show ?thesis using small s unfolding draws by (auto simp: coalesce_def split: option.splits)
  qed
qed

lemma shape_draws: "distinct (map fn_id steps) \<Longrightarrow> seriesParallel steps = Some t \<Longrightarrow> draws t steps"
  using shape_exact by blast

text \<open>
  C14. The shape of a workflow. With at most 24 steps and an id for each, \<open>seriesParallel\<close> answers a shape
  exactly when some nesting of sequences and parallels has the order of the waits, and the shape
  it answers is one: it has every step once, and one step precedes another in it exactly when the
  second waits on the first, directly or through others. So a workflow with a cycle or an
  N-shaped dependency gets none, and no drawn railroad invents or drops a dependency.
\<close>
theorem railroad_shape_is_exact:
  assumes "distinct (map fn_id steps)"
  shows "(\<forall>t. seriesParallel steps = Some t \<longrightarrow> draws t steps)
    \<and> (seriesParallel steps \<noteq> None \<longleftrightarrow> steps \<noteq> [] \<and> length steps \<le> MAX_RAILROAD_STEPS \<and> (\<exists>t. draws t steps))"
  by (rule shape_exact [OF assms])

definition ex_nodes :: "flow_node list" where
  "ex_nodes = [\<lparr>fn_id = ''a'', fn_after = []\<rparr>, \<lparr>fn_id = ''b'', fn_after = []\<rparr>, \<lparr>fn_id = ''c'', fn_after = [''a'']\<rparr>,
     \<lparr>fn_id = ''d'', fn_after = [''a'', ''b'']\<rparr>]"

text \<open>The N: no nesting of sequences and parallels has this order.\<close>

theorem railroad_shape_is_exact_witness: "seriesParallel ex_nodes = None \<and> (\<nexists>t. draws t ex_nodes)"
proof -
  have n: "seriesParallel ex_nodes = None" by code_simp
  have "distinct (map fn_id ex_nodes)" by code_simp
  from railroad_shape_is_exact [OF this] n show ?thesis by (simp add: ex_nodes_def MAX_RAILROAD_STEPS_def)
qed

end
