(* ===== verification/Flow_Graph.thy ===== *)
theory Flow_Graph
  imports Flow_Order
begin

text \<open>
  The graph of a workflow that is no railroad draws the direct waits only: \<open>directParents\<close> is the
  transitive reduction, and loses no dependency.
\<close>

section \<open>The search through the waits\<close>

lemma reachable_parent_seen: "set seen \<subseteq> set (snd (reachable_parent ps target n todo seen))"
proof (induction ps target n todo seen rule: reachable_parent.induct)
  case (3 ps target n p rest seen)
  obtain found mid where r: "reachable_parent ps target n (parents_of ps p) (seen @ [p]) = (found, mid)" by force
  show ?case
  proof (cases "p = target \<or> p \<in> set seen \<or> found")
    case True
    then show ?thesis using 3(1,2) r by (auto simp: Let_def)
  next
    case False
    have "set (seen @ [p]) \<subseteq> set mid" using 3(2) False r by auto
    moreover have "set mid \<subseteq> set (snd (reachable_parent ps target (Suc n) rest mid))" using 3(3) False r by auto
    ultimately show ?thesis using False r by (auto simp: Let_def)
  qed
qed auto

lemma reachable_parent_sound:
  "fst (reachable_parent ps target n todo seen) \<Longrightarrow> \<exists>p\<in>set todo. p = target \<or> (target, p) \<in> (waits ps)\<^sup>+"
proof (induction ps target n todo seen rule: reachable_parent.induct)
  case (3 ps target n p rest seen)
  obtain found seen' where r: "reachable_parent ps target n (parents_of ps p) (seen @ [p]) = (found, seen')" by force
  consider "p = target" | "p \<noteq> target" "p \<in> set seen" | "p \<noteq> target" "p \<notin> set seen" "found" | "p \<noteq> target" "p \<notin> set seen" "\<not> found" by blast
  then show ?case
  proof cases
    case 3
    then obtain q where "q \<in> set (parents_of ps p)" "q = target \<or> (target, q) \<in> (waits ps)\<^sup>+"
      using "3.IH"(2) r by auto
    then have "(target, p) \<in> (waits ps)\<^sup>+" by (auto simp: waits_def intro: trancl_into_trancl)
    then show ?thesis by auto
  qed (use 3 r in \<open>auto simp: Let_def\<close>)
qed auto

text \<open>With enough fuel a search that does not find the target has been through everything above.\<close>

lemma reachable_parent_closed:
  "reachable_parent ps target n todo seen = (False, seen') \<Longrightarrow> todo = [] \<or> card (fst ` set ps - set seen) < n \<Longrightarrow>
    set todo \<subseteq> set seen' \<and> target \<notin> set todo
    \<and> (\<forall>x\<in>set seen' - set seen. set (parents_of ps x) \<subseteq> set seen' \<and> target \<notin> set (parents_of ps x))"
proof (induction ps target n todo seen arbitrary: seen' rule: reachable_parent.induct)
  case (3 ps target n p rest seen)
  have p: "p \<noteq> target" using 3(4) by auto
  show ?case
  proof (cases "p \<in> set seen")
    case True
    have "set seen \<subseteq> set seen'" using reachable_parent_seen [of seen ps target "Suc n" "p # rest"] 3(4) by simp
    with True 3(1) [OF p True] 3(4,5) p show ?thesis by auto
  next
    case False
    obtain found mid where r: "reachable_parent ps target n (parents_of ps p) (seen @ [p]) = (found, mid)" by force
    with 3(4) p False have nf: "\<not> found" and rest: "reachable_parent ps target (Suc n) rest mid = (False, seen')"
      by (auto simp: Let_def split: if_splits)
    have mid: "set seen \<union> {p} \<subseteq> set mid" using reachable_parent_seen [of "seen @ [p]" ps target n "parents_of ps p"] r by auto
    have up: "set mid \<subseteq> set seen'" using reachable_parent_seen [of mid ps target "Suc n" rest] rest by simp
    have fuel: "parents_of ps p = [] \<or> card (fst ` set ps - set (seen @ [p])) < n"
    proof (cases "p \<in> fst ` set ps")
      case True
      then have "fst ` set ps - set (seen @ [p]) \<subset> fst ` set ps - set seen" using False by auto
      then have "card (fst ` set ps - set (seen @ [p])) < card (fst ` set ps - set seen)" by (intro psubset_card_mono) auto
      then show ?thesis using 3(5) by auto
    next
      case False
      then have "map_of ps p = None" by (metis map_of_eq_None_iff)
      then show ?thesis by (simp add: parents_of_def)
    qed
    have A: "set (parents_of ps p) \<subseteq> set mid \<and> target \<notin> set (parents_of ps p)
        \<and> (\<forall>x\<in>set mid - set (seen @ [p]). set (parents_of ps x) \<subseteq> set mid \<and> target \<notin> set (parents_of ps x))"
      using 3(2) [OF p False _ fuel] r nf by auto
    have "card (fst ` set ps - set mid) \<le> card (fst ` set ps - set seen)" using mid by (intro card_mono) auto
    then have "rest = [] \<or> card (fst ` set ps - set mid) < Suc n" using 3(5) by auto
    with 3(3) [OF p False r [symmetric] refl nf rest] have B: "set rest \<subseteq> set seen' \<and> target \<notin> set rest
        \<and> (\<forall>x\<in>set seen' - set mid. set (parents_of ps x) \<subseteq> set seen' \<and> target \<notin> set (parents_of ps x))" by auto
    have "set (parents_of ps x) \<subseteq> set seen' \<and> target \<notin> set (parents_of ps x)" if x: "x \<in> set seen' - set seen" for x
    proof (cases "x \<in> set mid")
      case True
      then show ?thesis using A x up by (cases "x = p") auto
    qed (use B x in blast)
    then show ?thesis using B p mid up by auto
  qed
qed auto

lemma reachable_parent_exact:
  "fst (reachable_parent ps target (Suc (length ps)) (parents_of ps from) []) \<longleftrightarrow> (target, from) \<in> (waits ps)\<^sup>+"
proof
  assume "fst (reachable_parent ps target (Suc (length ps)) (parents_of ps from) [])"
  then show "(target, from) \<in> (waits ps)\<^sup>+" by (auto dest!: reachable_parent_sound simp: waits_def intro: trancl_into_trancl)
next
  assume r: "(target, from) \<in> (waits ps)\<^sup>+"
  obtain found seen where s: "reachable_parent ps target (Suc (length ps)) (parents_of ps from) [] = (found, seen)" by force
  have "found"
  proof (rule ccontr)
    assume "\<not> found"
    have "card (fst ` set ps - set []) < Suc (length ps)" using card_length [of "map fst ps"] by (simp add: le_imp_less_Suc)
    with reachable_parent_closed [of ps target _ "parents_of ps from" "[]" seen] s \<open>\<not> found\<close>
    have c: "set (parents_of ps from) \<subseteq> set seen" "target \<notin> set (parents_of ps from)"
      "\<And>x. x \<in> set seen \<Longrightarrow> set (parents_of ps x) \<subseteq> set seen \<and> target \<notin> set (parents_of ps x)" by auto
    have "a \<in> set seen \<and> target \<noteq> a" if "(a, from) \<in> (waits ps)\<^sup>+" for a
      using that
    proof (induction rule: converse_trancl_induct)
      case (base a)
      with c show ?case by (auto simp: waits_def)
    next
      case (step a b)
      with c(3) [of b] show ?case by (auto simp: waits_def)
    qed
    with r show False by blast
  qed
  with s show "fst (reachable_parent ps target (Suc (length ps)) (parents_of ps from) [])" by simp
qed

section \<open>The transitive reduction\<close>

definition direct_waits :: "parent_map \<Rightarrow> (string \<times> string) set" where
  "direct_waits ps = {(p, i). p \<in> set (directParents ps i)}"

lemma direct_waits_eq:
  "(p, i) \<in> direct_waits ps \<longleftrightarrow> (p, i) \<in> waits ps \<and> \<not> (\<exists>q. (q, i) \<in> waits ps \<and> q \<noteq> p \<and> (p, q) \<in> (waits ps)\<^sup>+)"
  by (auto simp: direct_waits_def directParents_def Let_def reachable_parent_exact waits_def)

lemma finite_waits: "finite (waits ps)"
proof -
  have "waits ps \<subseteq> (\<lambda>(i, p). (p, i)) ` (Sigma (fst ` set ps) (\<lambda>i. set (parents_of ps i)))"
  proof
    fix e assume "e \<in> waits ps"
    then obtain p i where e: "e = (p, i)" "p \<in> set (parents_of ps i)" by (auto simp: waits_def)
    then have "map_of ps i \<noteq> None" by (cases "map_of ps i") (auto simp: parents_of_def)
    then have "i \<in> fst ` set ps" by (metis map_of_eq_None_iff)
    with e show "e \<in> (\<lambda>(i, p). (p, i)) ` (Sigma (fst ` set ps) (\<lambda>i. set (parents_of ps i)))" by force
  qed
  then show ?thesis by (rule finite_subset) auto
qed

lemma direct_waits_closure:
  assumes "acyclic (waits ps)"
  shows "(direct_waits ps)\<^sup>+ = (waits ps)\<^sup>+"
proof
  show "(direct_waits ps)\<^sup>+ \<subseteq> (waits ps)\<^sup>+" by (rule trancl_mono_subset) (auto simp: direct_waits_eq)
  have wf: "wf ((waits ps)\<^sup>+)" "wf (((waits ps)\<^sup>+)\<inverse>)"
    using finite_acyclic_wf [OF finite_waits assms] finite_acyclic_wf_converse [OF finite_waits assms] by (auto simp: wf_trancl simp flip: trancl_converse)
  have "(p, i) \<in> (waits ps)\<^sup>+ \<Longrightarrow> (p, i) \<in> (direct_waits ps)\<^sup>+" for p i
  proof (induction i arbitrary: p rule: wf_induct_rule [OF wf(1)])
    case (1 i)
    let ?Q = "{q. (q, i) \<in> waits ps \<and> (p = q \<or> (p, q) \<in> (waits ps)\<^sup>+)}"
    obtain q0 where "q0 \<in> ?Q" using tranclD2 [OF 1(2)] by (auto simp: rtrancl_eq_or_trancl)
    then obtain q where q: "q \<in> ?Q" "\<And>r. (r, q) \<in> ((waits ps)\<^sup>+)\<inverse> \<Longrightarrow> r \<notin> ?Q" by (rule wfE_min [OF wf(2)]) blast
    have "\<not> (\<exists>r. (r, i) \<in> waits ps \<and> r \<noteq> q \<and> (q, r) \<in> (waits ps)\<^sup>+)"
    proof
      assume "\<exists>r. (r, i) \<in> waits ps \<and> r \<noteq> q \<and> (q, r) \<in> (waits ps)\<^sup>+"
      then obtain r where r: "(r, i) \<in> waits ps" "(q, r) \<in> (waits ps)\<^sup>+" by blast
      have "(p, r) \<in> (waits ps)\<^sup>+" using q(1) r(2) trancl_trans [of p q "waits ps" r] by blast
      with r(1) have "r \<in> ?Q" by blast
      moreover have "(r, q) \<in> ((waits ps)\<^sup>+)\<inverse>" using r(2) by (rule converseI)
      ultimately show False using q(2) by blast
    qed
    then have "(q, i) \<in> direct_waits ps" unfolding direct_waits_eq using q(1) by blast
    moreover have "p = q \<or> (p, q) \<in> (direct_waits ps)\<^sup>+" using 1(1) [of q p] q(1) by auto
    ultimately show ?case by (auto intro: trancl_into_trancl)
  qed
  then show "(waits ps)\<^sup>+ \<subseteq> (direct_waits ps)\<^sup>+" by auto
qed

end
