(* ===== verification/Flow_Run.thy ===== *)
theory Flow_Run
  imports Domain Flow_Shape
begin

text \<open>
  \<open>packages/core/src/v3/flow-run-domain.ts\<close>, \<open>components/clio/flow-run-presentation.ts\<close> and
  \<open>flow-run-edits.ts\<close>: the record of a flow's run, the steps and members a person sees of it, and how
  the workflow changed while it ran. Fields a schema lets through without naming them keep their
  JSON value.
\<close>

section \<open>The record of a run\<close>

record workflow_step =
  ws_id :: string
  ws_target :: string
  ws_input :: js_value
  ws_after :: "string list"
  ws_description :: "string option"
  ws_status :: string
  ws_handle :: "string option"
  ws_invocation :: "string option"
  ws_fork_of :: js_value
  ws_note :: js_value

record workflow_proposal =
  wp_id :: string
  wp_target :: string
  wp_input :: js_value
  wp_after :: "string list"
  wp_by :: string
  wp_reason :: string

record workflow_view =
  wv_steps :: "workflow_step list"
  wv_awaiting_approval :: "workflow_proposal list"
  wv_editors :: "string list"
  wv_forks :: js_value
  wv_approve_edits :: bool

record flow_call =
  fc_invocation :: string
  fc_kind :: string
  fc_target :: string
  fc_handle :: string
  fc_status :: string
  fc_together :: string
  fc_recovered :: bool

record flow_event =
  fe_event :: string
  fe_step :: "string option"
  fe_rest :: "(string \<times> js_value) list"

record execution_stage =
  ex_id :: string
  ex_label :: string
  ex_status :: string
  ex_after :: "string list"
  ex_kind :: string
  ex_target :: string
  ex_handle :: string
  ex_detail :: string

record flow_run =
  fl_flow :: string
  fl_status :: string
  fl_view :: "workflow_view option"
  fl_calls :: "flow_call list"
  fl_execution :: "execution_stage list option"
  fl_events :: "flow_event list"
  fl_result :: js_value

definition flowRunActive :: "flow_run \<Rightarrow> bool" where
  "flowRunActive run \<longleftrightarrow> fl_status run = ''running''"

section \<open>States in words\<close>

datatype flow_tone = ToneDone | ToneRunning | ToneWaiting | ToneFailed | ToneCancelled | ToneProposed | ToneUnknown

record flow_state =
  st_value :: string
  st_label :: string
  st_word :: string
  st_tone :: flow_tone

definition flow_state :: "string \<Rightarrow> string \<Rightarrow> string \<Rightarrow> flow_tone \<Rightarrow> flow_state" where
  "flow_state v l w t = \<lparr>st_value = v, st_label = l, st_word = w, st_tone = t\<rparr>"

definition spaced :: "string \<Rightarrow> string" where
  "spaced s = map (\<lambda>c. if c = CHR ''_'' then CHR '' '' else c) s"

definition flowRunStatus :: "flow_run \<Rightarrow> string \<times> string" where
  "flowRunStatus run =
     (let s = fl_status run
      in if s = ''running'' then (''running'', ''Running'')
         else if s = ''completed'' then (''completed'', ''Completed'')
         else if s = ''flow_stall'' then (''failed'', ''Stalled'')
         else if s = ''task_state_uncertain'' then (''task_state_uncertain'', ''Needs inspection'')
         else if s = ''cancelled'' then (''cancelled'', ''Cancelled'')
         else (''failed'', ''Stopped: '' @ spaced s))"

definition flowTaskHistoryUnavailable :: "flow_run \<Rightarrow> nat \<Rightarrow> bool" where
  "flowTaskHistoryUnavailable run taskCount =
     (if taskCount \<noteq> 0 then False
      else let status = fst (flowRunStatus run) in status \<noteq> ''running'' \<and> status \<noteq> ''completed'' \<and> status \<noteq> ''cancelled'')"

definition workflowStepStatus :: "string \<Rightarrow> bool \<Rightarrow> flow_state" where
  "workflowStepStatus status skipped =
     (if status = ''pending'' then flow_state ''queued'' ''Waiting'' ''waiting'' ToneWaiting
      else if status = ''running'' then flow_state ''running'' ''Running'' ''running'' ToneRunning
      else if status = ''completed'' then flow_state ''completed'' ''Completed'' ''done'' ToneDone
      else if status = ''failed'' then flow_state ''failed'' ''Failed'' ''failed'' ToneFailed
      else if status = ''cancelled'' then
        (if skipped then flow_state ''cancelled'' ''Skipped'' ''skipped'' ToneCancelled
         else flow_state ''cancelled'' ''Cancelled'' ''cancelled'' ToneCancelled)
      else if status = ''repaired'' then flow_state ''recovering'' ''Repaired'' ''repaired'' ToneDone
      else flow_state ''unknown'' ''State not recognized'' ''state unknown'' ToneUnknown)"

definition flowCallStatus :: "string \<Rightarrow> flow_state" where
  "flowCallStatus status =
     (if status = ''returned_after_stop'' then flow_state ''completed'' ''Returned after flow stopped'' ''returned after stop'' ToneDone
      else if status = ''unknown'' then flow_state ''unknown'' ''Not confirmed'' ''not confirmed'' ToneUnknown
      else if status = ''returned'' then flow_state ''completed'' ''Returned'' ''returned'' ToneDone
      else if status = ''not_run'' \<or> status = ''not_accepted'' then flow_state ''cancelled'' ''Did not run'' ''did not run'' ToneCancelled
      else if status = ''rejected'' then flow_state ''failed'' ''Rejected'' ''rejected'' ToneFailed
      else if status = ''output_rejected'' then flow_state ''failed'' ''Output rejected'' ''output rejected'' ToneFailed
      else if status = ''dispatching'' \<or> status = ''accepted'' then flow_state ''running'' ''Started'' ''started'' ToneRunning
      else if status = ''pending'' \<or> status = ''queued'' then flow_state ''queued'' ''Waiting'' ''waiting'' ToneWaiting
      else if status = ''running'' then flow_state ''running'' ''Running'' ''running'' ToneRunning
      else if status = ''completed'' then flow_state ''completed'' ''Completed'' ''done'' ToneDone
      else if status = ''failed'' then flow_state ''failed'' ''Failed'' ''failed'' ToneFailed
      else if status = ''cancelled'' then flow_state ''cancelled'' ''Cancelled'' ''cancelled'' ToneCancelled
      else if status = ''task_state_uncertain'' then flow_state ''task_state_uncertain'' ''Needs inspection'' ''needs inspection'' ToneFailed
      else if status = [] then flow_state ''unknown'' ''Not reported'' ''not reported'' ToneUnknown
      else flow_state ''unknown'' (spaced status) (spaced status) ToneUnknown)"

definition PROPOSED :: flow_state where
  "PROPOSED = flow_state ''waiting_user'' ''Awaiting approval'' ''awaiting approval'' ToneProposed"

definition flowTargetLabel :: "string \<Rightarrow> string \<Rightarrow> string" where
  "flowTargetLabel target agentRef =
     (if target = [] then ''Target not reported''
      else if target = ''self'' \<or> (agentRef \<noteq> [] \<and> target = agentRef) then ''this agent'' else target)"

section \<open>The steps of a workflow\<close>

datatype step_kind = KAgent | KFlow | KEditor | KProposal | KAction

record flow_step =
  fs_id :: string
  fs_target :: string
  fs_targetLabel :: string
  fs_input :: js_value
  fs_after :: "string list"
  fs_status :: flow_state
  fs_handle :: "string option"
  fs_kind :: step_kind
  fs_label :: "string option"
  fs_addedBy :: "string option"
  fs_note :: "string option"
  fs_attempts :: nat
  fs_forkOf :: "string option"
  fs_alsoWaitsOn :: "string list option"

text \<open>\<open>x ? { k: x } : {}\<close> for a text.\<close>

definition if_text :: "string \<Rightarrow> string option" where
  "if_text s = (if s = [] then None else Some s)"

text \<open>A text where the value is one, else the empty text.\<close>

fun text_of :: "js_value \<Rightarrow> string" where
  "text_of (JStr s) = s"
| "text_of _ = []"

definition as_record :: "js_value \<Rightarrow> (string \<times> js_value) list option" where
  "as_record v = (case v of JObj o1 \<Rightarrow> Some o1 | _ \<Rightarrow> None)"

definition record_field :: "(string \<times> js_value) list option \<Rightarrow> string \<Rightarrow> js_value" where
  "record_field r k = (case r of Some o1 \<Rightarrow> coalesce (map_of o1 k) JUndef | None \<Rightarrow> JUndef)"

definition execution_step :: "string \<Rightarrow> execution_stage list \<Rightarrow> string list \<Rightarrow> execution_stage \<Rightarrow> flow_step" where
  "execution_step agentRef rows before row =
     \<lparr>fs_id = ex_id row, fs_target = ex_target row,
      fs_targetLabel = (if ex_target row = [] then [] else flowTargetLabel (ex_target row) agentRef),
      fs_input = JUndef, fs_after = ex_after row, fs_status = flowCallStatus (ex_status row), fs_handle = if_text (ex_handle row),
      fs_kind = (if ex_kind row = ''flow'' then KFlow else if ex_kind row = ''action'' then KAction else KAgent),
      fs_label = Some (if 1 < length (filter (\<lambda>r. ex_label r = ex_label row) rows)
        then ex_label row @ '' '' @ show_nat (length (filter (\<lambda>l. l = ex_label row) before) + 1) else ex_label row),
      fs_addedBy = None, fs_note = if_text (ex_detail row), fs_attempts = (if ex_status row = ''not_run'' then 0 else 1),
      fs_forkOf = None, fs_alsoWaitsOn = None\<rparr>"

fun execution_steps :: "string \<Rightarrow> execution_stage list \<Rightarrow> string list \<Rightarrow> execution_stage list \<Rightarrow> flow_step list" where
  "execution_steps agentRef rows before [] = []"
| "execution_steps agentRef rows before (row # rest) =
     execution_step agentRef rows before row # execution_steps agentRef rows (before @ [ex_label row]) rest"

definition text_includes :: "string \<Rightarrow> string \<Rightarrow> bool" where
  "text_includes pat s \<longleftrightarrow> index_of pat s \<noteq> None"

definition keyed_to :: "string \<Rightarrow> string \<Rightarrow> bool" where
  "keyed_to step invocation \<longleftrightarrow> text_includes (''=step:'' @ step @ '':'') invocation \<or> text_includes ('':step:'' @ step @ '':'') invocation"

definition stepAttempts :: "flow_run \<Rightarrow> workflow_step \<Rightarrow> nat" where
  "stepAttempts run step =
     (let keyed = js_set (filter (keyed_to (ws_id step)) (map fc_invocation (fl_calls run)));
          invocations = (case ws_invocation step of Some i \<Rightarrow> if i = [] then keyed else set_add keyed i | None \<Rightarrow> keyed);
          handles = js_set (filter (\<lambda>h. h \<noteq> []) (map (\<lambda>e. text_of (record_field (Some (fe_rest e)) ''handle''))
            (filter (\<lambda>e. fe_step e = Some (ws_id step)) (fl_events run))));
          seen = max (length invocations) (length handles)
      in if ws_status step = ''repaired'' then max 2 seen else seen)"

definition step_events :: "flow_run \<Rightarrow> string \<Rightarrow> flow_event list" where
  "step_events run name = filter (\<lambda>e. fe_event e = name \<and> truthy_str (fe_step e)) (fl_events run)"

definition skipped_steps :: "flow_run \<Rightarrow> string list" where
  "skipped_steps run = map (\<lambda>e. coalesce (fe_step e) []) (step_events run ''step_skipped'')"

definition added_by :: "flow_run \<Rightarrow> string \<Rightarrow> string option" where
  "added_by run i = map_of (rev (map (\<lambda>e. (coalesce (fe_step e) [], text_of (record_field (Some (fe_rest e)) ''by''))) (step_events run ''step_added''))) i"

definition call_kind :: "flow_run \<Rightarrow> string \<Rightarrow> string option" where
  "call_kind run i = map_of (rev (map (\<lambda>c. (fc_invocation c, fc_kind c)) (fl_calls run))) i"

definition runs_flow :: "flow_run \<Rightarrow> string option \<Rightarrow> bool" where
  "runs_flow run invocation = (case invocation of
       Some i \<Rightarrow> (i \<noteq> [] \<and> call_kind run i = Some ''flow'') \<or> text_includes '':flow:'' i
     | None \<Rightarrow> False)"

text \<open>\<open>forkFields\<close>: the step a fork copies, and its own note.\<close>

definition fork_of :: "workflow_step \<Rightarrow> string option" where
  "fork_of step = if_text (text_of (ws_fork_of step))"

definition step_note :: "workflow_step \<Rightarrow> string option" where
  "step_note step =
     (let described = (case ws_description step of Some d \<Rightarrow> if_text d | None \<Rightarrow> None)
      in if fork_of step = None then described else or_else (if_text (text_of (ws_note step))) described)"

definition view_step :: "flow_run \<Rightarrow> workflow_view \<Rightarrow> string \<Rightarrow> workflow_step \<Rightarrow> flow_step" where
  "view_step run view agentRef step =
     \<lparr>fs_id = ws_id step, fs_target = ws_target step, fs_targetLabel = flowTargetLabel (ws_target step) agentRef,
      fs_input = ws_input step, fs_after = ws_after step,
      fs_status = (if ws_status step = ''pending'' \<and> fl_status run \<noteq> ''running'' then flowCallStatus ''not_run''
        else workflowStepStatus (ws_status step) (ws_id step \<in> set (skipped_steps run))),
      fs_handle = (case ws_handle step of Some h \<Rightarrow> if_text h | None \<Rightarrow> None),
      fs_kind = (if ws_target step \<in> set (wv_editors view) then KEditor else if runs_flow run (ws_invocation step) then KFlow else KAgent),
      fs_label = None, fs_addedBy = map_option (\<lambda>by. str_or by ''an editor'') (added_by run (ws_id step)),
      fs_note = step_note step, fs_attempts = stepAttempts run step, fs_forkOf = fork_of step, fs_alsoWaitsOn = None\<rparr>"

section \<open>Forks\<close>

definition find_step :: "flow_step list \<Rightarrow> string \<Rightarrow> (nat \<times> flow_step) option" where
  "find_step steps i = (case find_index (\<lambda>s. fs_id s = i) steps of Some n \<Rightarrow> Some (n, steps ! n) | None \<Rightarrow> None)"

definition fork_status :: "flow_run \<Rightarrow> string \<Rightarrow> flow_state" where
  "fork_status run status = (if status = [] \<and> fl_status run = ''running'' then workflowStepStatus ''running'' False else flowCallStatus status)"

definition listed_fork :: "flow_run \<Rightarrow> string \<Rightarrow> (string \<times> js_value) list \<Rightarrow> flow_step \<Rightarrow> flow_step" where
  "listed_fork run agentRef row original =
     \<lparr>fs_id = text_of (record_field (Some row) ''id''), fs_target = fs_target original, fs_targetLabel = flowTargetLabel (fs_target original) agentRef,
      fs_input = fs_input original, fs_after = fs_after original, fs_status = fork_status run (text_of (record_field (Some row) ''status'')),
      fs_handle = if_text (text_of (record_field (Some row) ''handle'')),
      fs_kind = (if fs_kind original = KEditor then KAgent else fs_kind original), fs_label = None, fs_addedBy = None,
      fs_note = if_text (text_of (record_field (Some row) ''note'')), fs_attempts = 1,
      fs_forkOf = Some (text_of (record_field (Some row) ''fork_of'')), fs_alsoWaitsOn = None\<rparr>"

definition insert_fork :: "flow_step list \<Rightarrow> nat \<Rightarrow> flow_step \<Rightarrow> flow_step list" where
  "insert_fork steps n fork =
     (let beside = takeWhile (\<lambda>s. fs_forkOf s = fs_forkOf fork) (drop (Suc n) steps)
      in take (Suc n) steps @ beside @ [fork] @ drop (Suc n + length beside) steps)"

definition place_fork :: "flow_run \<Rightarrow> string \<Rightarrow> flow_step list \<times> string list \<Rightarrow> js_value \<Rightarrow> flow_step list \<times> string list" where
  "place_fork run agentRef acc raw =
     (let (steps, known) = acc; row = as_record raw; i = text_of (record_field row ''id'');
          original = find_step steps (text_of (record_field row ''fork_of''))
      in case (row, original) of
           (Some r, Some (n, o1)) \<Rightarrow>
             if i = [] \<or> i \<in> set known then acc else (insert_fork steps n (listed_fork run agentRef r o1), set_add known i)
         | _ \<Rightarrow> acc)"

definition forks_of :: "flow_step list \<Rightarrow> string \<Rightarrow> string list" where
  "forks_of steps i = map fs_id (filter (\<lambda>s. truthy_str (fs_forkOf s) \<and> fs_forkOf s = Some i) steps)"

definition wait_on_forks :: "flow_step list \<Rightarrow> flow_step \<Rightarrow> flow_step" where
  "wait_on_forks steps step =
     (let extra = filter (\<lambda>i. i \<noteq> fs_id step) (concat (map (forks_of steps) (fs_after step)))
      in if truthy_str (fs_forkOf step) \<or> extra = [] then step
         else step\<lparr>fs_after := js_set (fs_after step @ extra), fs_alsoWaitsOn := Some extra\<rparr>)"

definition withForks :: "flow_step list \<Rightarrow> workflow_view \<Rightarrow> flow_run \<Rightarrow> string \<Rightarrow> flow_step list \<times> string list" where
  "withForks steps view run agentRef =
     (let (placed, known) = foldl (place_fork run agentRef) (steps, js_set (map fs_id steps)) (case wv_forks view of JArr rows \<Rightarrow> rows | _ \<Rightarrow> [])
      in (map (wait_on_forks placed) placed, known))"

definition proposal_step :: "string \<Rightarrow> workflow_proposal \<Rightarrow> flow_step" where
  "proposal_step agentRef p =
     \<lparr>fs_id = wp_id p, fs_target = wp_target p, fs_targetLabel = flowTargetLabel (wp_target p) agentRef, fs_input = wp_input p,
      fs_after = wp_after p, fs_status = PROPOSED, fs_handle = None, fs_kind = KProposal, fs_label = None,
      fs_addedBy = Some (str_or (wp_by p) ''an editor''), fs_note = if_text (wp_reason p), fs_attempts = 0, fs_forkOf = None, fs_alsoWaitsOn = None\<rparr>"

definition workflowSteps :: "flow_run \<Rightarrow> string \<Rightarrow> flow_step list" where
  "workflowSteps run agentRef =
     (if coalesce (fl_execution run) [] \<noteq> [] then execution_steps agentRef (coalesce (fl_execution run) []) [] (coalesce (fl_execution run) [])
      else case fl_view run of
        None \<Rightarrow> []
      | Some view \<Rightarrow>
          let (steps, known) = withForks (map (view_step run view agentRef) (wv_steps view)) view run agentRef
          in steps @ map (proposal_step agentRef) (filter (\<lambda>p. wp_id p \<notin> set known) (wv_awaiting_approval view)))"

section \<open>The members of a flow without a workflow\<close>

record flow_verdict =
  fv_winner :: "rat option"
  fv_rationale :: "string option"
  fv_answer :: "string option"

record flow_member =
  me_key :: string
  me_label :: string
  me_target :: string
  me_targetLabel :: string
  me_status :: flow_state
  me_handle :: "string option"
  me_chosen :: bool
  me_perspective :: "string option"
  me_together :: "string option"

fun text_option :: "js_value \<Rightarrow> string option" where
  "text_option (JStr s) = Some s"
| "text_option _ = None"

definition flowVerdict :: "flow_run \<Rightarrow> flow_verdict" where
  "flowVerdict run = (case as_record (fl_result run) of
       None \<Rightarrow> \<lparr>fv_winner = None, fv_rationale = None, fv_answer = text_option (fl_result run)\<rparr>
     | Some r \<Rightarrow> \<lparr>fv_winner = (case record_field (Some r) ''winner'' of JNum n \<Rightarrow> Some n | _ \<Rightarrow> None),
         fv_rationale = text_option (record_field (Some r) ''rationale''), fv_answer = text_option (record_field (Some r) ''answer'')\<rparr>)"

fun texts_of :: "js_value \<Rightarrow> string list" where
  "texts_of (JArr vs) = concat (map (\<lambda>v. case v of JStr s \<Rightarrow> [s] | _ \<Rightarrow> []) vs)"
| "texts_of _ = []"

definition memberCalls :: "flow_run \<Rightarrow> flow_call list \<Rightarrow> flow_call list" where
  "memberCalls run calls =
     (if fl_flow run \<noteq> ''council'' \<and> fl_flow run \<noteq> ''arena'' then calls
      else let listed = record_field (as_record (fl_result run)) (if fl_flow run = ''council'' then ''members'' else ''entries'')
      in if (case listed of JArr (_ # _) \<Rightarrow> True | _ \<Rightarrow> False) then filter (\<lambda>c. fc_handle c \<in> set (texts_of listed)) calls
         else (case calls of
             c # _ \<Rightarrow> if fc_together c = [] then calls else filter (\<lambda>d. fc_together d = fc_together c) calls
           | [] \<Rightarrow> calls))"

definition named_call :: "string \<Rightarrow> flow_call \<Rightarrow> bool" where
  "named_call agentRef call \<longleftrightarrow> fc_target call \<noteq> [] \<and> fc_target call \<noteq> ''self'' \<and> fc_target call \<noteq> agentRef"

definition member_label :: "flow_run \<Rightarrow> string \<Rightarrow> flow_call list \<Rightarrow> nat \<Rightarrow> flow_call \<Rightarrow> string" where
  "member_label run agentRef calls n call =
     (let same = (\<lambda>cs. length (filter (\<lambda>c. fc_target c = fc_target call) cs))
      in if fl_flow run = ''council'' then ''Member '' @ show_nat (n + 1)
         else if fl_flow run = ''arena'' then ''Entry '' @ show_nat (n + 1)
         else if named_call agentRef call then
           (if 1 < same calls then fc_target call @ '' '' @ show_nat (same (take n calls) + 1) else fc_target call)
         else ''Call '' @ show_nat (n + 1))"

definition flow_member :: "flow_run \<Rightarrow> string \<Rightarrow> string list \<Rightarrow> flow_call list \<Rightarrow> nat \<Rightarrow> flow_call \<Rightarrow> flow_member" where
  "flow_member run agentRef perspectives calls n call =
     \<lparr>me_key = str_or (fc_invocation call) (show_nat n), me_label = member_label run agentRef calls n call, me_target = fc_target call,
      me_targetLabel = flowTargetLabel (fc_target call) agentRef, me_status = flowCallStatus (fc_status call), me_handle = if_text (fc_handle call),
      me_chosen = (fl_flow run = ''arena'' \<and> fv_winner (flowVerdict run) = Some (of_nat (n + 1))),
      me_perspective = (if fl_flow run = ''council'' \<and> perspectives \<noteq> [] then if_text (perspectives ! (n mod length perspectives)) else None),
      me_together = if_text (fc_together call)\<rparr>"

definition flowMembers :: "flow_run \<Rightarrow> string \<Rightarrow> js_value \<Rightarrow> flow_member list" where
  "flowMembers run agentRef args =
     (let perspectives = texts_of (record_field (as_record (record_field (as_record args) ''options'')) ''perspectives'');
          calls = memberCalls run (filter (\<lambda>c. fc_kind c \<noteq> ''ask'') (fl_calls run))
      in map (\<lambda>(n, call). flow_member run agentRef perspectives calls n call) (zip [0..<length calls] calls))"

definition stepTally :: "flow_state list \<Rightarrow> string" where
  "stepTally states = join_with '', '' (map (\<lambda>(word, count). show_nat count @ '' '' @ word)
     (foldl (\<lambda>m s. map_set m (st_word s) (coalesce (map_of m (st_word s)) 0 + 1)) [] states))"

section \<open>Changes while it ran\<close>

datatype edit_outcome = OProposed | OAwaiting | OAdded | OApproved | ODeclined | ORejected | OCancelled | OCancelRefused

record workflow_edit =
  ed_step :: string
  ed_by :: string
  ed_target :: string
  ed_after :: "string list"
  ed_outcome :: edit_outcome
  ed_reason :: "string option"
  ed_note :: "string option"

definition editOrigin :: "string \<Rightarrow> string" where
  "editOrigin by = (if starts_with ''repair:'' by then drop 7 by else by)"

definition event_field :: "flow_event \<Rightarrow> string \<Rightarrow> js_value" where
  "event_field e k = record_field (Some (fe_rest e)) k"

definition new_edit :: "flow_event \<Rightarrow> string \<Rightarrow> edit_outcome \<Rightarrow> workflow_edit" where
  "new_edit e step outcome = \<lparr>ed_step = step, ed_by = text_of (event_field e ''by''), ed_target = text_of (event_field e ''target''),
     ed_after = texts_of (event_field e ''after''), ed_outcome = outcome, ed_reason = None, ed_note = None\<rparr>"

definition settle_edit :: "flow_event \<Rightarrow> workflow_edit \<Rightarrow> workflow_edit" where
  "settle_edit e row =
     (if fe_event e = ''step_added'' then row\<lparr>ed_outcome := (if event_field e ''approved'' = JBool True then OApproved else OAdded)\<rparr>
      else if event_field e ''reason'' = JStr ''not_approved'' then row\<lparr>ed_outcome := ODeclined\<rparr>
      else row\<lparr>ed_outcome := ORejected, ed_reason := Some (text_of (event_field e ''reason''))\<rparr>)"

text \<open>The rows, and the place among them of the proposal of each step that is still open.\<close>

type_synonym edit_log = "workflow_edit list \<times> (string \<times> nat) list"

definition edit_event :: "edit_log \<Rightarrow> flow_event \<Rightarrow> edit_log" where
  "edit_event acc e =
     (let (rows, opened) = acc; step = coalesce (fe_step e) []; name = fe_event e
      in if step = [] then acc
         else if name = ''step_proposed'' then (rows @ [new_edit e step OProposed], map_set opened step (length rows))
         else if name = ''step_rejected'' \<or> name = ''step_added'' then
           (case map_of opened step of
              Some n \<Rightarrow> (rows[n := settle_edit e (rows ! n)], map_delete opened step)
            | None \<Rightarrow> (rows @ [settle_edit e (new_edit e step OProposed)], opened))
         else if name = ''step_cancelled'' then
           (rows @ [(new_edit e step OCancelled)\<lparr>ed_target := [], ed_after := []\<rparr>], opened)
         else if name = ''cancel_rejected'' then
           (rows @ [(new_edit e step OCancelRefused)\<lparr>ed_target := [], ed_after := [], ed_reason := Some (text_of (event_field e ''reason''))\<rparr>], opened)
         else acc)"

definition await_edit :: "(string \<times> nat) list \<Rightarrow> workflow_edit list \<Rightarrow> workflow_proposal \<Rightarrow> workflow_edit list" where
  "await_edit opened rows p = (case map_of opened (wp_id p) of
       Some n \<Rightarrow> rows[n := (rows ! n)\<lparr>ed_outcome := OAwaiting, ed_note := or_else (if_text (wp_reason p)) (ed_note (rows ! n))\<rparr>]
     | None \<Rightarrow> rows @ [\<lparr>ed_step = wp_id p, ed_by = wp_by p, ed_target = wp_target p, ed_after = wp_after p, ed_outcome = OAwaiting,
         ed_reason = None, ed_note = if_text (wp_reason p)\<rparr>])"

definition step_notes :: "workflow_view option \<Rightarrow> string \<Rightarrow> string option" where
  "step_notes view i = map_of (rev (concat (map (\<lambda>s. if truthy_str (ws_description s) then [(ws_id s, coalesce (ws_description s) [])] else [])
     (case view of Some v \<Rightarrow> wv_steps v | None \<Rightarrow> [])))) i"

definition with_note :: "workflow_view option \<Rightarrow> workflow_edit \<Rightarrow> workflow_edit" where
  "with_note view row = (if \<not> truthy_str (ed_note row) \<and> step_notes view (ed_step row) \<noteq> None
     then row\<lparr>ed_note := step_notes view (ed_step row)\<rparr> else row)"

definition workflowEdits :: "flow_run \<Rightarrow> workflow_edit list" where
  "workflowEdits run =
     (let (rows, opened) = foldl edit_event ([], []) (fl_events run);
          awaiting = (case fl_view run of Some v \<Rightarrow> wv_awaiting_approval v | None \<Rightarrow> [])
      in map (with_note (fl_view run)) (foldl (await_edit opened) rows awaiting))"

definition rejectionText :: "string \<Rightarrow> string" where
  "rejectionText reason =
     (if reason = ''max_added_reached'' then ''the workflow reached its limit of added steps''
      else if reason = ''target_not_allowed'' then ''the workflow does not allow that agent''
      else if reason = ''step_exists'' then ''a step with that name already exists''
      else if reason = ''not_pending'' then ''the step had already started''
      else if starts_with ''invalid:'' reason then ''the step was invalid ('' @ trim (drop 8 reason) @ '')''
      else if reason = [] then ''no reason was recorded'' else spaced reason)"

definition editOutcomeText :: "workflow_edit \<Rightarrow> string" where
  "editOutcomeText edit = (case ed_outcome edit of
       OProposed \<Rightarrow> ''proposed''
     | OAwaiting \<Rightarrow> ''awaiting your approval''
     | OAdded \<Rightarrow> ''added''
     | OApproved \<Rightarrow> ''added after you approved it''
     | ODeclined \<Rightarrow> ''not added: you declined it''
     | ORejected \<Rightarrow> ''not added: '' @ rejectionText (coalesce (ed_reason edit) [])
     | OCancelled \<Rightarrow> ''cancelled before it ran''
     | OCancelRefused \<Rightarrow> ''cancel refused: '' @ rejectionText (coalesce (ed_reason edit) []))"

end
