(* ===== verification/Flow_Railroad.thy ===== *)
theory Flow_Railroad
  imports Flow_Graph Flow_Run
begin

text \<open>
  \<open>components/clio/flow-railroad.ts\<close>, the graph half of \<open>flow-diagram-source.ts\<close> and \<open>flowDiagrams\<close> of
  \<open>hooks/use-flow-presentation.ts\<close>: how a run is drawn, as a railroad of its shape or as a graph, with
  one mark for each drawn node. The lower case of a text is an argument.
\<close>

section \<open>The grammar of a railroad\<close>

datatype flow_pick = PickStep flow_step | PickMember flow_member | PickClosing string flow_state string flow_verdict

record railroad_mark =
  rm_tone :: flow_tone
  rm_title :: string
  rm_key :: string
  rm_pick :: flow_pick
  rm_chosen :: bool
  rm_fork :: bool

datatype railroad_expr =
    RTerminal string railroad_mark
  | RNonterminal string railroad_mark
  | RSequence "railroad_expr list"
  | RParallel "railroad_expr list"
  | ROptional railroad_expr
  | RRepeat railroad_expr
  | RFlow string railroad_mark railroad_expr

record railroad_box =
  bx_label :: string
  bx_mark :: railroad_mark
  bx_from :: nat
  bx_to :: nat

record railroad_group =
  gp_from :: nat
  gp_to :: nat
  gp_count :: nat

record railroad_drawing =
  dr_marks :: "railroad_mark list"
  dr_parallels :: "railroad_group list"
  dr_boxes :: "railroad_box list"

definition quoteSafe :: "string \<Rightarrow> string" where
  "quoteSafe s = trim (collapse_spaces False (map (\<lambda>c. if c = CHR 0x22 \<or> c = CHR 0x5C then CHR 0x27 else c) s))"

fun boxed :: "railroad_expr \<Rightarrow> bool" where
  "boxed (RTerminal l m) = False"
| "boxed (RNonterminal l m) = False"
| "boxed (RSequence es) = list_ex boxed es"
| "boxed (RParallel es) = list_ex boxed es"
| "boxed (ROptional e) = boxed e"
| "boxed (RRepeat e) = boxed e"
| "boxed (RFlow l m e) = True"

definition BOXED_CONFIG :: "string list" where
  "BOXED_CONFIG = [''---'', ''config:'', ''  railroad:'', ''    verticalSeparation: 44'', ''---'']"

definition called :: "string \<Rightarrow> string \<Rightarrow> string" where
  "called f body = f @ ''('' @ body @ '')''"

fun write_expr :: "railroad_expr \<Rightarrow> railroad_drawing \<Rightarrow> string \<times> railroad_drawing"
  and write_all :: "railroad_expr list \<Rightarrow> railroad_drawing \<Rightarrow> string list \<times> railroad_drawing" where
  "write_expr (RTerminal l m) d = (called ''terminal'' (quoted (quoteSafe l)), d\<lparr>dr_marks := dr_marks d @ [m]\<rparr>)"
| "write_expr (RNonterminal l m) d = (called ''nonterminal'' (quoted (quoteSafe l)), d\<lparr>dr_marks := dr_marks d @ [m]\<rparr>)"
| "write_expr (RSequence es) d =
     (let (texts, d') = write_all es d
      in (if length es = 1 then texts ! 0 else called ''sequence'' (join_with '', '' texts), d'))"
| "write_expr (RParallel es) d =
     (let (texts, d') = write_all es d
      in if length es = 1 then (texts ! 0, d')
         else (called ''choice'' (join_with '', '' texts),
           if list_ex boxed es then d'
           else d'\<lparr>dr_parallels := dr_parallels d' @ [\<lparr>gp_from = length (dr_marks d), gp_to = length (dr_marks d'), gp_count = length es\<rparr>]\<rparr>))"
| "write_expr (ROptional e) d = (let (text1, d') = write_expr e d in (called ''optional'' text1, d'))"
| "write_expr (RRepeat e) d = (let (text1, d') = write_expr e d in (called ''oneOrMore'' text1, d'))"
| "write_expr (RFlow l m e) d =
     (let (text1, d') = write_expr e d
      in (text1, d'\<lparr>dr_boxes := dr_boxes d' @ [\<lparr>bx_label = l, bx_mark = m, bx_from = length (dr_marks d), bx_to = length (dr_marks d')\<rparr>]\<rparr>))"
| "write_all [] d = ([], d)"
| "write_all (e # es) d = (let (text1, d1) = write_expr e d; (texts, d2) = write_all es d1 in (text1 # texts, d2))"

definition name_char :: "char \<Rightarrow> bool" where
  "name_char c \<longleftrightarrow> c \<in> set ''ABCDEFGHIJKLMNOPQRSTUVWXYZabcdefghijklmnopqrstuvwxyz0123456789_''"

definition ruleName :: "string \<Rightarrow> string" where
  "ruleName i =
     (let base = str_or (map (\<lambda>c. if name_char c then c else CHR ''_'') i) ''flow''
      in if hd base \<in> set ''0123456789'' then ''f_'' @ base else base)"

record railroad_diagram =
  rd_source :: string
  rd_drawing :: railroad_drawing

definition railroadDiagram :: "string \<Rightarrow> railroad_expr \<Rightarrow> railroad_diagram" where
  "railroadDiagram name expr =
     (let (body, d) = write_expr expr \<lparr>dr_marks = [], dr_parallels = [], dr_boxes = []\<rparr>;
          rule = ''  '' @ ruleName name @ '' = '' @ body @ '';''; room = (if dr_boxes d = [] then [] else BOXED_CONFIG)
      in \<lparr>rd_source = join_with [CHR 0x0A] (room @ [''railroad-beta'', rule]), rd_drawing = d\<rparr>)"

section \<open>The railroad of a workflow\<close>

definition stepName :: "flow_step \<Rightarrow> string" where
  "stepName step =
     (let name = coalesce (fs_label step) (fs_id step)
      in if truthy_str (fs_forkOf step) then name @ '' (fork of '' @ coalesce (fs_forkOf step) [] @ '')'' else name)"

definition drop_end :: "(char \<Rightarrow> bool) \<Rightarrow> string \<Rightarrow> string" where
  "drop_end P s = rev (dropWhile P (rev s))"

definition forkWords :: "flow_step \<Rightarrow> string" where
  "forkWords step =
     (let fork = coalesce (fs_forkOf step) []; note = coalesce (fs_note step) []; others = coalesce (fs_alsoWaitsOn step) []
      in (if fork = [] then []
          else if note \<noteq> [] then '' Fork of '' @ fork @ '': '' @ drop_end (\<lambda>c. c = CHR ''.'' \<or> js_whitespace c) (trim note) @ ''.''
          else '' Fork of '' @ fork @ ''.'')
         @ (if others = [] then []
            else '' Also waits on the fork'' @ (if 1 < length others then ''s'' else []) @ '' '' @ join_with '', '' others @ ''.''))"

definition step_mark :: "flow_step \<Rightarrow> railroad_mark" where
  "step_mark step =
     \<lparr>rm_tone = st_tone (fs_status step),
      rm_title = stepName step @ '': '' @ st_label (fs_status step)
        @ (if 1 < fs_attempts step then '', '' @ show_nat (fs_attempts step) @ '' attempts'' else []) @ ''.''
        @ (if fs_targetLabel step = [] then [] else '' Runs '' @ fs_targetLabel step @ ''.'') @ forkWords step,
      rm_key = fs_id step, rm_pick = PickStep step, rm_chosen = False, rm_fork = truthy_str (fs_forkOf step)\<rparr>"

definition prefix_mark :: "string \<Rightarrow> railroad_mark \<Rightarrow> railroad_mark" where
  "prefix_mark p m = m\<lparr>rm_key := p @ rm_key m\<rparr>"

fun prefixKeys :: "string \<Rightarrow> railroad_expr \<Rightarrow> railroad_expr" where
  "prefixKeys p (RTerminal l m) = RTerminal l (prefix_mark p m)"
| "prefixKeys p (RNonterminal l m) = RNonterminal l (prefix_mark p m)"
| "prefixKeys p (RFlow l m e) = RFlow l (prefix_mark p m) (prefixKeys p e)"
| "prefixKeys p (RSequence es) = RSequence (map (prefixKeys p) es)"
| "prefixKeys p (RParallel es) = RParallel (map (prefixKeys p) es)"
| "prefixKeys p (ROptional e) = ROptional (prefixKeys p e)"
| "prefixKeys p (RRepeat e) = RRepeat (prefixKeys p e)"

definition step_node :: "(string \<times> railroad_expr) list \<Rightarrow> flow_step \<Rightarrow> railroad_expr" where
  "step_node subflows step =
     (let name = stepName step; mark = step_mark step;
          inner = (if fs_kind step = KFlow then map_of subflows (fs_id step) else None);
          node = (case inner of
              Some e \<Rightarrow> RFlow name mark (prefixKeys (fs_id step @ ''/'') e)
            | None \<Rightarrow> if fs_kind step = KFlow then RNonterminal name mark else RTerminal name mark);
          node' = (if 1 < fs_attempts step then RRepeat node else node)
      in if fs_kind step = KProposal then ROptional node' else node')"

text \<open>\<open>byId.get(part.id)!\<close>: \<open>None\<close> stands for the type error of a shape over a step that is not there.\<close>

fun build :: "(string \<Rightarrow> flow_step option) \<Rightarrow> (string \<times> railroad_expr) list \<Rightarrow> series_parallel \<Rightarrow> railroad_expr option" where
  "build byId subflows (SpSeq parts) = map_option RSequence (all_some (map (build byId subflows) parts))"
| "build byId subflows (SpPar parts) = map_option RParallel (all_some (map (build byId subflows) parts))"
| "build byId subflows (SpStep i) = map_option (step_node subflows) (byId i)"

definition workflowRailroadExpr :: "flow_step list \<Rightarrow> series_parallel \<Rightarrow> (string \<times> railroad_expr) list \<Rightarrow> railroad_expr option" where
  "workflowRailroadExpr steps shape subflows = build (\<lambda>i. map_of (rev (map (\<lambda>s. (fs_id s, s)) steps)) i) subflows shape"

section \<open>The railroad of other flows\<close>

definition memberTerminal :: "(string \<Rightarrow> string) \<Rightarrow> flow_member \<Rightarrow> railroad_expr" where
  "memberTerminal lower m = RTerminal (lower (me_label m))
     \<lparr>rm_tone = st_tone (me_status m),
      rm_title = me_label m @ '': '' @ st_label (me_status m) @ (if me_chosen m then '', the judge'' @ [CHR 0x27] @ ''s choice'' else [])
        @ ''. Runs '' @ me_targetLabel m @ ''.'',
      rm_key = me_key m, rm_pick = PickMember m, rm_chosen = me_chosen m, rm_fork = False\<rparr>"

definition closingStep :: "string \<Rightarrow> string \<Rightarrow> flow_member list \<Rightarrow> flow_verdict \<Rightarrow> (rat \<Rightarrow> string) \<Rightarrow> string \<times> flow_state" where
  "closingStep flow runStatus members verdict show_number =
     (let label = (if flow = ''arena'' then ''judge'' else ''synthesis'')
      in if runStatus = ''completed'' then
           (label, flow_state ''completed'' ''Completed''
             (case fv_winner verdict of Some w \<Rightarrow> if flow = ''arena'' then ''picked entry '' @ show_number w else ''done'' | None \<Rightarrow> ''done'') ToneDone)
         else if runStatus \<noteq> ''running'' then (label, flow_state ''cancelled'' ''Did not run'' ''did not run'' ToneCancelled)
         else if members \<noteq> [] \<and> (\<forall>m\<in>set members. st_tone (me_status m) = ToneDone) then (label, flow_state ''running'' ''Running'' ''running'' ToneRunning)
         else (label, flow_state ''queued'' ''Waiting'' ''waiting'' ToneWaiting))"

definition membersRailroadExpr :: "(string \<Rightarrow> string) \<Rightarrow> flow_member list \<Rightarrow> string \<times> flow_state \<Rightarrow> string \<Rightarrow> flow_verdict \<Rightarrow> railroad_expr" where
  "membersRailroadExpr lower members closing flow verdict =
     RSequence [RParallel (map (memberTerminal lower) members),
       RTerminal (fst closing) \<lparr>rm_tone = st_tone (snd closing), rm_title = ''The '' @ fst closing @ '': '' @ st_word (snd closing) @ ''.'',
         rm_key = ''closing'', rm_pick = PickClosing (fst closing) (snd closing) flow verdict, rm_chosen = False, rm_fork = False\<rparr>]"

definition batch_member :: "flow_member list list \<Rightarrow> flow_member \<Rightarrow> flow_member list list" where
  "batch_member batches m =
     (if truthy_str (me_together m) \<and> batches \<noteq> [] \<and> me_together (hd (last batches)) = me_together m
      then butlast batches @ [last batches @ [m]] else batches @ [[m]])"

definition callsRailroadExpr :: "(string \<Rightarrow> string) \<Rightarrow> flow_member list \<Rightarrow> railroad_expr option" where
  "callsRailroadExpr lower members =
     (let items = map (\<lambda>batch. if 1 < length batch then RParallel (map (memberTerminal lower) batch) else memberTerminal lower (hd batch))
        (foldl batch_member [] members)
      in if items = [] then None else if length items = 1 then Some (items ! 0) else Some (RSequence items))"

section \<open>The graph of a workflow\<close>

text \<open>\<open>formatDuration\<close> in the compact style, of milliseconds.\<close>

definition compact_duration :: "nat \<Rightarrow> string" where
  "compact_duration ms = (if ms < 60000 then show_nat (max 1 ((ms + 500) div 1000)) @ ''s'' else show_nat ((ms + 30000) div 60000) @ ''m'')"

definition stepWord :: "flow_state \<Rightarrow> nat option \<Rightarrow> string" where
  "stepWord state elapsedMs = (case elapsedMs of None \<Rightarrow> st_word state | Some ms \<Rightarrow> st_word state @ '' '' @ compact_duration ms)"

definition node_shape :: "step_kind \<Rightarrow> string \<Rightarrow> string" where
  "node_shape kind label =
     (if kind = KFlow then ''{{'' @ quoted label @ ''}}'' else if kind = KEditor then ''[['' @ quoted label @ '']]'' else ''['' @ quoted label @ '']'')"

definition tone_name :: "flow_tone \<Rightarrow> string" where
  "tone_name t = (case t of ToneDone \<Rightarrow> ''done'' | ToneRunning \<Rightarrow> ''running'' | ToneWaiting \<Rightarrow> ''waiting'' | ToneFailed \<Rightarrow> ''failed''
     | ToneCancelled \<Rightarrow> ''cancelled'' | ToneProposed \<Rightarrow> ''proposed'' | ToneUnknown \<Rightarrow> ''unknown'')"

definition node_of :: "flow_step \<Rightarrow> flow_node" where
  "node_of s = \<lparr>fn_id = fs_id s, fn_after = fs_after s\<rparr>"

definition graph_id :: "flow_step list \<Rightarrow> string \<Rightarrow> string" where
  "graph_id steps i = coalesce (map_of (rev (map (\<lambda>(n, s). (fs_id s, ''s'' @ show_nat n)) (zip [0..<length steps] steps))) i) []"

definition node_lines :: "flow_step list \<Rightarrow> (string \<times> nat) list \<Rightarrow> flow_step \<Rightarrow> string list" where
  "node_lines steps elapsed step =
     (let second = join_with '', '' (filter (\<lambda>t. t \<noteq> []) [stepWord (fs_status step) (map_of elapsed (fs_id step)),
            if fs_targetLabel step = ''this agent'' then [] else fs_targetLabel step]);
          third = (if truthy_str (fs_addedBy step) \<and> fs_kind step \<noteq> KProposal then ''added by '' @ coalesce (fs_addedBy step) [] else []);
          label = join_with [CHR 0x5C, CHR ''n''] (map quoteSafe (filter (\<lambda>t. t \<noteq> []) [stepName step, second, third]))
      in (''  '' @ graph_id steps (fs_id step) @ node_shape (fs_kind step) label @ '':::st-'' @ tone_name (st_tone (fs_status step)))
         # (if truthy_str (fs_addedBy step) then [''  class '' @ graph_id steps (fs_id step) @ '' st-added''] else []))"

text \<open>The edges of the graph, each to its step.\<close>

definition graph_edges :: "flow_step list \<Rightarrow> (string \<times> flow_step) list" where
  "graph_edges steps = concat (map (\<lambda>s. map (\<lambda>p. (p, s)) (directParents (parent_map (map node_of steps)) (fs_id s))) steps)"

definition edge_line :: "flow_step list \<Rightarrow> string \<times> flow_step \<Rightarrow> string" where
  "edge_line steps e = ''  '' @ graph_id steps (fst e) @ (if fs_kind (snd e) = KProposal then '' -.- '' else '' --> '') @ graph_id steps (fs_id (snd e))"

definition workflowAgentflowSource :: "flow_step list \<Rightarrow> (string \<times> nat) list \<Rightarrow> string" where
  "workflowAgentflowSource steps elapsed =
     join_with [CHR 0x0A] (''agentflow-beta LR'' # concat (map (node_lines steps elapsed) steps) @ map (edge_line steps) (graph_edges steps))"

section \<open>The diagram of a run\<close>

datatype flow_diagram = Railroad railroad_diagram string | Graph string string string

definition NOT_SERIES_PARALLEL_NOTE :: string where
  "NOT_SERIES_PARALLEL_NOTE = ''Drawn as a graph: some steps wait on only part of a parallel group, so the workflow can'' @ [CHR 0x27]
     @ ''t be laid out as one track of sequences and parallel branches.''"

definition has_steps :: "flow_run \<Rightarrow> bool" where
  "has_steps run \<longleftrightarrow> fl_view run \<noteq> None \<or> coalesce (fl_execution run) [] \<noteq> []"

record drawing_env =
  de_lower :: "string \<Rightarrow> string"
  de_number :: "rat \<Rightarrow> string"

definition nestedFlowExpr :: "drawing_env \<Rightarrow> flow_run \<Rightarrow> string \<Rightarrow> railroad_expr option" where
  "nestedFlowExpr env run agentRef =
     (if has_steps run then
        (let steps = map (\<lambda>s. if fs_kind s = KFlow then s\<lparr>fs_kind := KAgent\<rparr> else s) (workflowSteps run agentRef)
         in case seriesParallel (map node_of steps) of Some shape \<Rightarrow> workflowRailroadExpr steps shape [] | None \<Rightarrow> None)
      else let members = flowMembers run agentRef JUndef
        in if members = [] then None
           else if fl_flow run \<notin> {''council'', ''arena''} then callsRailroadExpr (de_lower env) members
           else let verdict = flowVerdict run
             in Some (membersRailroadExpr (de_lower env) members (closingStep (fl_flow run) (fl_status run) members verdict (de_number env))
                  (fl_flow run) verdict))"

definition subflow_exprs :: "drawing_env \<Rightarrow> (string \<times> flow_run) list \<Rightarrow> string \<Rightarrow> (string \<times> railroad_expr) list" where
  "subflow_exprs env nested agentRef = concat (map (\<lambda>(i, run). case nestedFlowExpr env run agentRef of Some e \<Rightarrow> [(i, e)] | None \<Rightarrow> []) nested)"

definition step_words :: "flow_step list \<Rightarrow> string" where
  "step_words steps = join_with ''; '' (map (\<lambda>s. fs_id s @ '', '' @ st_word (fs_status s)) steps)"

definition workflow_diagram :: "drawing_env \<Rightarrow> flow_step list \<Rightarrow> (string \<times> flow_run) list \<Rightarrow> string \<Rightarrow> bool \<Rightarrow> flow_diagram option" where
  "workflow_diagram env steps nested agentRef recovered = (case seriesParallel (map node_of steps) of
       None \<Rightarrow> Some (Graph (workflowAgentflowSource steps [])
         (''Workflow graph of '' @ show_nat (length steps) @ '' steps and what each waits on'') NOT_SERIES_PARALLEL_NOTE)
     | Some shape \<Rightarrow> map_option (\<lambda>expr.
         let d = railroadDiagram ''workflow'' expr; d' = (if recovered then d\<lparr>rd_drawing := (rd_drawing d)\<lparr>dr_parallels := []\<rparr>\<rparr> else d)
         in Railroad d' (''The workflow'' @ [CHR 0x27] @ ''s '' @ show_nat (length steps) @ '' steps in order: '' @ step_words steps))
         (workflowRailroadExpr steps shape (subflow_exprs env nested agentRef)))"

definition member_words :: "(flow_member \<Rightarrow> string) \<Rightarrow> flow_member list \<Rightarrow> string" where
  "member_words word members = join_with ''; '' (map (\<lambda>m. me_label m @ '', '' @ word m) members)"

definition flowDiagrams :: "drawing_env \<Rightarrow> flow_run option \<Rightarrow> flow_step list \<Rightarrow> flow_member list \<Rightarrow> flow_verdict \<Rightarrow> (string \<times> flow_run) list \<Rightarrow> string
    \<Rightarrow> flow_diagram option \<times> (string \<times> flow_state) option" where
  "flowDiagrams env run steps members verdict nested agentRef = (case run of
       None \<Rightarrow> (None, None)
     | Some r \<Rightarrow>
         if has_steps r then (if steps = [] then None else workflow_diagram env steps nested agentRef (list_ex fc_recovered (fl_calls r)), None)
         else if members = [] then (None, None)
         else if fl_flow r \<notin> {''council'', ''arena''} then
           (map_option (\<lambda>expr. Railroad (railroadDiagram (fl_flow r) expr)
              (''The '' @ fl_flow r @ '' flow'' @ [CHR 0x27] @ ''s '' @ show_nat (length members) @ '' calls as they ran: '' @ member_words (\<lambda>m. st_word (me_status m)) members))
              (callsRailroadExpr (de_lower env) members), None)
         else let closing = closingStep (fl_flow r) (fl_status r) members verdict (de_number env)
           in (Some (Railroad (railroadDiagram (fl_flow r) (membersRailroadExpr (de_lower env) members closing (fl_flow r) verdict))
                (member_words (\<lambda>m. if me_chosen m then st_word (me_status m) @ '', chosen'' else st_word (me_status m)) members
                 @ ''; then the '' @ fst closing @ '', '' @ st_word (snd closing))), Some closing))"

end
