(* ===== verification/Flow_Drawing.thy ===== *)
theory Flow_Drawing
  imports Flow_Railroad
begin

text \<open>
  What the railroad of a workflow draws: every step once, in the order of its shape, each boxed
  flow framing exactly its own nodes, and no dependency lost or invented.
\<close>

section \<open>What an expression draws\<close>

fun marks_of :: "railroad_expr \<Rightarrow> railroad_mark list" where
  "marks_of (RTerminal l m) = [m]"
| "marks_of (RNonterminal l m) = [m]"
| "marks_of (RSequence es) = concat (map marks_of es)"
| "marks_of (RParallel es) = concat (map marks_of es)"
| "marks_of (ROptional e) = marks_of e"
| "marks_of (RRepeat e) = marks_of e"
| "marks_of (RFlow l m e) = marks_of e"

text \<open>The boxed flows of an expression, the inner ones first.\<close>

fun flows_in :: "railroad_expr \<Rightarrow> (string \<times> railroad_mark \<times> railroad_expr) list" where
  "flows_in (RTerminal l m) = []"
| "flows_in (RNonterminal l m) = []"
| "flows_in (RSequence es) = concat (map flows_in es)"
| "flows_in (RParallel es) = concat (map flows_in es)"
| "flows_in (ROptional e) = flows_in e"
| "flows_in (RRepeat e) = flows_in e"
| "flows_in (RFlow l m e) = flows_in e @ [(l, m, e)]"

text \<open>The range \<open>[a, b)\<close> of a list that starts at \<open>n\<close>.\<close>

definition frames :: "nat \<Rightarrow> 'a list \<Rightarrow> nat \<Rightarrow> nat \<Rightarrow> 'a list \<Rightarrow> bool" where
  "frames n xs a b ys \<longleftrightarrow> (\<exists>us vs. xs = us @ ys @ vs \<and> a = n + length us \<and> b = a + length ys)"

lemma frames_append: "frames n xs a b ys \<Longrightarrow> frames n (xs @ zs) a b ys"
  unfolding frames_def by (metis append.assoc)

lemma frames_prepend: "frames (n + length ws) xs a b ys \<Longrightarrow> frames n (ws @ xs) a b ys"
  unfolding frames_def by (metis add.assoc append.assoc length_append)

definition box_frames :: "nat \<Rightarrow> railroad_mark list \<Rightarrow> railroad_box \<Rightarrow> string \<times> railroad_mark \<times> railroad_expr \<Rightarrow> bool" where
  "box_frames n ms b f \<longleftrightarrow> bx_label b = fst f \<and> bx_mark b = fst (snd f) \<and> frames n ms (bx_from b) (bx_to b) (marks_of (snd (snd f)))"

lemma box_frames_append: "list_all2 (box_frames n ms) bs fs \<Longrightarrow> list_all2 (box_frames n (ms @ ns)) bs fs"
  by (erule list_all2_mono) (auto simp: box_frames_def frames_append)

lemma box_frames_prepend: "list_all2 (box_frames (n + length ws) ms) bs fs \<Longrightarrow> list_all2 (box_frames n (ws @ ms)) bs fs"
  by (erule list_all2_mono) (auto simp: box_frames_def frames_prepend)

text \<open>Writing appends the marks of the expression, and a box for each boxed flow around its marks.\<close>

lemma write_marks:
  "dr_marks (snd (write_expr e d)) = dr_marks d @ marks_of e"
  "dr_marks (snd (write_all es d)) = dr_marks d @ concat (map marks_of es)"
  by (induction e d and es d rule: write_expr_write_all.induct) (auto simp: Let_def split: prod.splits)

lemma write_boxes:
  "\<exists>bs. dr_boxes (snd (write_expr e d)) = dr_boxes d @ bs \<and> list_all2 (box_frames (length (dr_marks d)) (marks_of e)) bs (flows_in e)"
  "\<exists>bs. dr_boxes (snd (write_all es d)) = dr_boxes d @ bs
    \<and> list_all2 (box_frames (length (dr_marks d)) (concat (map marks_of es))) bs (concat (map flows_in es))"
proof (induction e d and es d rule: write_expr_write_all.induct)
  case (7 l m e d)
  obtain t d' where w: "write_expr e d = (t, d')" by force
  with 7 obtain bs where bs: "dr_boxes d' = dr_boxes d @ bs" "list_all2 (box_frames (length (dr_marks d)) (marks_of e)) bs (flows_in e)" by auto
  have "dr_marks d' = dr_marks d @ marks_of e" using write_marks(1) [of e d] w by simp
  then have "box_frames (length (dr_marks d)) (marks_of e)
      \<lparr>bx_label = l, bx_mark = m, bx_from = length (dr_marks d), bx_to = length (dr_marks d')\<rparr> (l, m, e)"
    by (auto simp: box_frames_def frames_def)
  with bs w show ?case by (auto intro: list_all2_appendI)
next
  case (9 e es d)
  obtain t d1 where w: "write_expr e d = (t, d1)" by force
  obtain ts d2 where ws: "write_all es d1 = (ts, d2)" by force
  have m: "dr_marks d1 = dr_marks d @ marks_of e" using write_marks(1) [of e d] w by simp
  obtain bs where bs: "dr_boxes d1 = dr_boxes d @ bs" "list_all2 (box_frames (length (dr_marks d)) (marks_of e)) bs (flows_in e)"
    using 9(1) w by auto
  obtain cs where cs: "dr_boxes d2 = dr_boxes d1 @ cs"
      "list_all2 (box_frames (length (dr_marks d1)) (concat (map marks_of es))) cs (concat (map flows_in es))"
    using 9(2) [OF w [symmetric] refl] ws by auto
  have "list_all2 (box_frames (length (dr_marks d)) (marks_of e @ concat (map marks_of es))) (bs @ cs) (flows_in e @ concat (map flows_in es))"
    using box_frames_append [OF bs(2)] box_frames_prepend [of "length (dr_marks d)" "marks_of e"] cs(2) m by (auto intro: list_all2_appendI)
  then show ?case using w ws bs(1) cs(1) by (auto simp: Let_def)
qed (auto simp: Let_def split: prod.splits)

section \<open>The nodes of a workflow's steps\<close>

definition inner_flow :: "(string \<times> railroad_expr) list \<Rightarrow> flow_step \<Rightarrow> railroad_expr option" where
  "inner_flow subflows step = (if fs_kind step = KFlow then map_of subflows (fs_id step) else None)"

text \<open>The marks of a step: its own, or those of the flow it runs, under its id.\<close>

definition step_marks :: "(string \<times> railroad_expr) list \<Rightarrow> flow_step \<Rightarrow> railroad_mark list" where
  "step_marks subflows step = (case inner_flow subflows step of
       None \<Rightarrow> [step_mark step]
     | Some e \<Rightarrow> map (prefix_mark (fs_id step @ ''/'')) (marks_of e))"

lemma marks_of_prefixKeys [simp]: "marks_of (prefixKeys p e) = map (prefix_mark p) (marks_of e)"
  by (induction e) (simp_all add: map_concat comp_def cong: map_cong)

lemma marks_of_step_node: "marks_of (step_node subflows step) = step_marks subflows step"
  by (auto simp: step_node_def step_marks_def inner_flow_def Let_def split: option.splits)

lemma all_some_map: "(\<And>x. x \<in> set xs \<Longrightarrow> \<exists>y. f x = Some y \<and> P x y) \<Longrightarrow> \<exists>ys. all_some (map f xs) = Some ys \<and> list_all2 P xs ys"
proof (induction xs)
  case (Cons x xs)
  then obtain y ys where "f x = Some y" "P x y" "all_some (map f xs) = Some ys" "list_all2 P xs ys" by fastforce
  then show ?case by auto
qed simp

text \<open>
  What a built expression contains, for anything that is collected part by part: that of the nodes
  of the steps, in the order of the shape.
\<close>

lemma collected_parts:
  "list_all2 (\<lambda>t e. f e = concat (map g (leaves t))) ts es \<Longrightarrow> concat (map f es) = concat (map g (concat (map leaves ts)))"
  by (induction rule: list_all2_induct) auto

lemma build_collects:
  assumes seq: "\<And>es. f (RSequence es) = concat (map f es)" and par: "\<And>es. f (RParallel es) = concat (map f es)"
  shows "\<forall>i\<in>set (leaves shape). byId i \<noteq> None \<Longrightarrow>
     \<exists>e. build byId subflows shape = Some e \<and> f e = concat (map (\<lambda>i. f (step_node subflows (the (byId i)))) (leaves shape))"
proof (induction shape)
  case (SpStep i)
  then show ?case by auto
next
  case (SpSeq parts)
  then obtain es where es: "all_some (map (build byId subflows) parts) = Some es"
      "list_all2 (\<lambda>t e. f e = concat (map (\<lambda>i. f (step_node subflows (the (byId i)))) (leaves t))) parts es"
    using all_some_map [of parts "build byId subflows" "\<lambda>t e. f e = concat (map (\<lambda>i. f (step_node subflows (the (byId i)))) (leaves t))"] by auto
  show ?case using es(1) collected_parts [OF es(2)] by (simp add: seq)
next
  case (SpPar parts)
  then obtain es where es: "all_some (map (build byId subflows) parts) = Some es"
      "list_all2 (\<lambda>t e. f e = concat (map (\<lambda>i. f (step_node subflows (the (byId i)))) (leaves t))) parts es"
    using all_some_map [of parts "build byId subflows" "\<lambda>t e. f e = concat (map (\<lambda>i. f (step_node subflows (the (byId i)))) (leaves t))"] by auto
  show ?case using es(1) collected_parts [OF es(2)] by (simp add: par)
qed

text \<open>
  A boxed flow with the nodes it frames; and the boxes of a step: those of the flow it runs, under
  the step's id, and one for the flow itself with the step's name and mark.
\<close>

definition framed :: "string \<times> railroad_mark \<times> railroad_expr \<Rightarrow> string \<times> railroad_mark \<times> railroad_mark list" where
  "framed f = (fst f, fst (snd f), marks_of (snd (snd f)))"

definition step_boxes :: "(string \<times> railroad_expr) list \<Rightarrow> flow_step \<Rightarrow> (string \<times> railroad_mark \<times> railroad_mark list) list" where
  "step_boxes subflows step = (case inner_flow subflows step of
       None \<Rightarrow> []
     | Some e \<Rightarrow> map (\<lambda>(l, m, e). (l, prefix_mark (fs_id step @ ''/'') m, map (prefix_mark (fs_id step @ ''/'')) (marks_of e))) (flows_in e)
         @ [(stepName step, step_mark step, map (prefix_mark (fs_id step @ ''/'')) (marks_of e))])"

lemma flows_in_prefixKeys: "flows_in (prefixKeys p e) = map (\<lambda>(l, m, e). (l, prefix_mark p m, prefixKeys p e)) (flows_in e)"
  by (induction e) (simp_all add: map_concat comp_def cong: map_cong)

lemma flows_of_step_node: "map framed (flows_in (step_node subflows step)) = step_boxes subflows step"
  by (auto simp: step_node_def step_boxes_def inner_flow_def framed_def flows_in_prefixKeys Let_def split: option.splits)

text \<open>What a drawn box shows: its label, its mark and the marks from its first to its last node.\<close>

definition box_shows :: "railroad_mark list \<Rightarrow> railroad_box \<Rightarrow> string \<times> railroad_mark \<times> railroad_mark list" where
  "box_shows ms b = (bx_label b, bx_mark b, take (bx_to b - bx_from b) (drop (bx_from b) ms))"

lemma box_frames_shows: "box_frames 0 ms b f \<Longrightarrow> box_shows ms b = framed f"
  by (auto simp: box_frames_def box_shows_def framed_def frames_def)

lemma boxes_show: "list_all2 (box_frames 0 ms) bs fs \<Longrightarrow> map (box_shows ms) bs = map framed fs"
  by (induction rule: list_all2_induct) (simp_all add: box_frames_shows)

lemma by_id:
  assumes "distinct (map fs_id steps)" "s \<in> set steps"
  shows "map_of (rev (map (\<lambda>s. (fs_id s, s)) steps)) (fs_id s) = Some s"
proof (rule map_of_is_SomeI)
  have "map fst (rev (map (\<lambda>s. (fs_id s, s)) steps)) = rev (map fs_id steps)" by (induction steps) simp_all
  then show "distinct (map fst (rev (map (\<lambda>s. (fs_id s, s)) steps)))" using assms(1) by (simp only: distinct_rev)
qed (use assms(2) in auto)

section \<open>Keys of the nodes\<close>

lemma keys_of_step_marks:
  "map rm_key (step_marks subflows s) = (case inner_flow subflows s of
     None \<Rightarrow> [fs_id s] | Some e \<Rightarrow> map (\<lambda>k. fs_id s @ ''/'' @ k) (map rm_key (marks_of e)))"
  by (auto simp: step_marks_def step_mark_def prefix_mark_def split: option.splits)

text \<open>The id of the step a key belongs to, for ids without a slash.\<close>

lemma before_slash:
  assumes "CHR ''/'' \<notin> set i"
  shows "takeWhile (\<lambda>c. c \<noteq> CHR ''/'') i = i" "takeWhile (\<lambda>c. c \<noteq> CHR ''/'') (i @ ''/'' @ k) = i"
  using assms by (induction i) auto

lemma step_of_key:
  assumes "k \<in> set (map rm_key (step_marks subflows s))" "CHR ''/'' \<notin> set (fs_id s)"
  shows "takeWhile (\<lambda>c. c \<noteq> CHR ''/'') k = fs_id s"
proof (cases "inner_flow subflows s")
  case None
  with assms(1) have "k = fs_id s" unfolding keys_of_step_marks by simp
  then show ?thesis using before_slash(1) [OF assms(2)] by simp
next
  case (Some e)
  with assms(1) obtain k' where "k = fs_id s @ ''/'' @ k'" unfolding keys_of_step_marks by auto
  then show ?thesis using before_slash(2) [OF assms(2)] by simp
qed

lemma distinct_step_keys:
  assumes "distinct (map fs_id steps)" "\<forall>s\<in>set steps. CHR ''/'' \<notin> set (fs_id s)"
    and "\<forall>s\<in>set steps. \<forall>e. inner_flow subflows s = Some e \<longrightarrow> distinct (map rm_key (marks_of e))"
  shows "distinct (map rm_key (concat (map (step_marks subflows) steps)))"
  using assms
proof (induction steps)
  case (Cons s steps)
  have "distinct (map rm_key (step_marks subflows s))"
    using Cons.prems(3) unfolding keys_of_step_marks by (auto simp: distinct_map inj_on_def split: option.splits)
  moreover have "k \<notin> set (map rm_key (concat (map (step_marks subflows) steps)))" if k: "k \<in> set (map rm_key (step_marks subflows s))" for k
  proof
    assume "k \<in> set (map rm_key (concat (map (step_marks subflows) steps)))"
    then obtain t where t: "t \<in> set steps" "k \<in> set (map rm_key (step_marks subflows t))" by auto
    have "fs_id s = fs_id t" using step_of_key [OF k] step_of_key [OF t(2)] Cons.prems(2) t(1) by simp
    then show False using Cons.prems(1) t(1) by auto
  qed
  ultimately show ?case using Cons by (auto simp: disjoint_iff)
qed simp

section \<open>Properties\<close>

definition ex_step :: "string \<Rightarrow> string list \<Rightarrow> step_kind \<Rightarrow> flow_step" where
  "ex_step i after kind = \<lparr>fs_id = i, fs_target = ''self'', fs_targetLabel = ''this agent'', fs_input = JUndef, fs_after = after,
     fs_status = workflowStepStatus ''running'' False, fs_handle = None, fs_kind = kind, fs_label = None, fs_addedBy = None, fs_note = None,
     fs_attempts = 1, fs_forkOf = None, fs_alsoWaitsOn = None\<rparr>"

text \<open>Two steps wait on the first; one of them runs a flow that has started, with two calls.\<close>

definition ex_steps :: "flow_step list" where
  "ex_steps = [ex_step ''plan'' [] KAgent, ex_step ''read'' [''plan''] KAgent, ex_step ''test'' [''plan''] KFlow]"

definition ex_subflows :: "(string \<times> railroad_expr) list" where
  "ex_subflows = [(''test'', RParallel [RTerminal ''a'' (step_mark (ex_step ''a'' [] KAgent)), RTerminal ''b'' (step_mark (ex_step ''b'' [] KAgent))])]"

lemma ids_of_nodes: "map fn_id (map node_of steps) = map fs_id steps"
  by (simp add: node_of_def)

lemma mset_over_shape:
  assumes "distinct (map fs_id steps)" "mset ids = mset (map fs_id steps)"
  shows "mset (concat (map (\<lambda>i. f (the (map_of (rev (map (\<lambda>s. (fs_id s, s)) steps)) i))) ids)) = mset (concat (map f steps))"
proof -
  let ?byId = "map_of (rev (map (\<lambda>s. (fs_id s, s)) steps))"
  have "mset (concat (map (\<lambda>i. f (the (?byId i))) ids)) = \<Sum>\<^sub># (image_mset (\<lambda>i. mset (f (the (?byId i)))) (mset ids))"
    by (simp add: mset_concat comp_def sum_mset_sum_list [symmetric] flip: mset_map)
  also have "\<dots> = \<Sum>\<^sub># (image_mset (\<lambda>s. mset (f s)) (mset steps))"
    unfolding assms(2) mset_map multiset.map_comp comp_def
    by (rule arg_cong [where f = sum_mset], rule image_mset_cong) (simp add: by_id [OF assms(1)])
  also have "\<dots> = mset (concat (map f steps))"
    by (simp add: mset_concat comp_def sum_mset_sum_list [symmetric] flip: mset_map)
  finally show ?thesis .
qed

lemma drawn_marks:
  assumes "distinct (map fs_id steps)" "seriesParallel (map node_of steps) = Some shape"
  shows "\<exists>expr. workflowRailroadExpr steps shape subflows = Some expr
    \<and> mset (marks_of expr) = mset (concat (map (step_marks subflows) steps))
    \<and> mset (map framed (flows_in expr)) = mset (concat (map (step_boxes subflows) steps))"
proof -
  let ?byId = "map_of (rev (map (\<lambda>s. (fs_id s, s)) steps))"
  have "draws shape (map node_of steps)" by (rule shape_draws) (simp_all only: ids_of_nodes assms)
  then have m: "mset (leaves shape) = mset (map fs_id steps)" by (simp add: draws_def denotes_def comp_def node_of_def)
  have known: "\<forall>i\<in>set (leaves shape). ?byId i \<noteq> None" using by_id [OF assms(1)] mset_eq_setD [OF m] by auto
  obtain e where e: "workflowRailroadExpr steps shape subflows = Some e"
      "marks_of e = concat (map (\<lambda>i. step_marks subflows (the (?byId i))) (leaves shape))"
    using build_collects [of marks_of shape ?byId subflows, OF _ _ known] by (auto simp: workflowRailroadExpr_def marks_of_step_node)
  obtain e' where e': "workflowRailroadExpr steps shape subflows = Some e'"
      "map framed (flows_in e') = concat (map (\<lambda>i. step_boxes subflows (the (?byId i))) (leaves shape))"
    using build_collects [of "\<lambda>e. map framed (flows_in e)" shape ?byId subflows, OF _ _ known]
    by (auto simp: workflowRailroadExpr_def flows_of_step_node map_concat comp_def)
  have "e' = e" using e(1) e'(1) by simp
  moreover have "mset (marks_of e) = mset (concat (map (step_marks subflows) steps))"
    unfolding e(2) by (rule mset_over_shape [OF assms(1) m])
  moreover have "mset (map framed (flows_in e')) = mset (concat (map (step_boxes subflows) steps))"
    unfolding e'(2) by (rule mset_over_shape [OF assms(1) m])
  ultimately show ?thesis using e(1) by blast
qed

text \<open>
  C34. What the railroad of a workflow draws. Where a shape was found and ids are distinct, the
  railroad exists and draws every step exactly once: a step as one node with its own id, state and
  selection, or, where it runs a flow that has started, as the nodes of that flow under the step's
  id. Every such step has its box, with the step's name and mark, around exactly the nodes of its
  flow; a flow that runs flows itself keeps their boxes, under the step's id, around the same
  nodes; and there are no other boxes. Moreover, when no id has a slash and the nodes of each inner
  flow have keys of their own, the keys of the drawn nodes are unique.
\<close>
theorem railroad_draws_every_step:
  assumes "distinct (map fs_id steps)" "seriesParallel (map node_of steps) = Some shape"
  shows "\<exists>expr d. workflowRailroadExpr steps shape subflows = Some expr \<and> d = rd_drawing (railroadDiagram name expr)
    \<and> mset (dr_marks d) = mset (concat (map (step_marks subflows) steps))
    \<and> mset (map (box_shows (dr_marks d)) (dr_boxes d)) = mset (concat (map (step_boxes subflows) steps))
    \<and> (\<forall>s\<in>set steps. rm_key (step_mark s) = fs_id s \<and> rm_tone (step_mark s) = st_tone (fs_status s) \<and> rm_pick (step_mark s) = PickStep s)
    \<and> ((\<forall>s\<in>set steps. CHR ''/'' \<notin> set (fs_id s))
        \<and> (\<forall>s\<in>set steps. \<forall>e. inner_flow subflows s = Some e \<longrightarrow> distinct (map rm_key (marks_of e)))
        \<longrightarrow> distinct (map rm_key (dr_marks d)))"
proof -
  obtain e where e: "workflowRailroadExpr steps shape subflows = Some e"
      "mset (marks_of e) = mset (concat (map (step_marks subflows) steps))"
      "mset (map framed (flows_in e)) = mset (concat (map (step_boxes subflows) steps))"
    using drawn_marks [OF assms] by blast
  let ?empty = "\<lparr>dr_marks = [], dr_parallels = [], dr_boxes = []\<rparr>"
  let ?d = "rd_drawing (railroadDiagram name e)"
  have d: "?d = snd (write_expr e ?empty)"
    by (simp add: railroadDiagram_def split: prod.split)
  have marks: "dr_marks ?d = marks_of e" unfolding d using write_marks(1) [of e ?empty] by simp
  have "list_all2 (box_frames 0 (marks_of e)) (dr_boxes ?d) (flows_in e)"
    unfolding d using write_boxes(1) [of e ?empty] by auto
  then have boxes: "map (box_shows (dr_marks ?d)) (dr_boxes ?d) = map framed (flows_in e)"
    unfolding marks by (rule boxes_show)
  have keys: "mset (map rm_key (marks_of e)) = mset (map rm_key (concat (map (step_marks subflows) steps)))" using e(2) by (metis mset_map)
  have distinct: "distinct (map rm_key (dr_marks ?d))"
    if "\<forall>s\<in>set steps. CHR ''/'' \<notin> set (fs_id s)"
      "\<forall>s\<in>set steps. \<forall>e. inner_flow subflows s = Some e \<longrightarrow> distinct (map rm_key (marks_of e))"
    unfolding marks using distinct_step_keys [OF assms(1) that] keys mset_eq_imp_distinct_iff by blast
  show ?thesis
    by (intro exI [of _ e] exI [of _ ?d] conjI impI distinct refl e(1) ballI)
      (simp_all only: marks boxes [unfolded marks] e(2,3), simp_all add: step_mark_def)
qed

lemma ex_shape: "seriesParallel (map node_of ex_steps) = Some (SpSeq [SpStep ''plan'', SpPar [SpStep ''read'', SpStep ''test'']])"
  by code_simp

theorem railroad_draws_every_step_witness:
  "\<exists>expr d. workflowRailroadExpr ex_steps (SpSeq [SpStep ''plan'', SpPar [SpStep ''read'', SpStep ''test'']]) ex_subflows = Some expr
    \<and> d = rd_drawing (railroadDiagram ''workflow'' expr)
    \<and> mset (map rm_key (dr_marks d)) = {#''plan'', ''read'', ''test/a'', ''test/b''#}
    \<and> map (\<lambda>(l, m, ms). (l, rm_key m, map rm_key ms)) (map (box_shows (dr_marks d)) (dr_boxes d)) = [(''test'', ''test'', [''test/a'', ''test/b''])]
    \<and> distinct (map rm_key (dr_marks d))"
proof -
  have ids: "distinct (map fs_id ex_steps)" by code_simp
  have slash: "\<forall>s\<in>set ex_steps. CHR ''/'' \<notin> set (fs_id s)" by code_simp
  have inner: "\<forall>s\<in>set ex_steps. \<forall>e. inner_flow ex_subflows s = Some e \<longrightarrow> distinct (map rm_key (marks_of e))"
    by (simp add: ex_steps_def ex_subflows_def ex_step_def inner_flow_def step_mark_def)
  obtain expr d where r: "workflowRailroadExpr ex_steps (SpSeq [SpStep ''plan'', SpPar [SpStep ''read'', SpStep ''test'']]) ex_subflows = Some expr"
      "d = rd_drawing (railroadDiagram ''workflow'' expr)"
      "mset (dr_marks d) = mset (concat (map (step_marks ex_subflows) ex_steps))"
      "mset (map (box_shows (dr_marks d)) (dr_boxes d)) = mset (concat (map (step_boxes ex_subflows) ex_steps))"
      "distinct (map rm_key (dr_marks d))"
    using railroad_draws_every_step [OF ids ex_shape, of ex_subflows "''workflow''"] slash inner by blast
  have marks: "map rm_key (concat (map (step_marks ex_subflows) ex_steps)) = [''plan'', ''read'', ''test/a'', ''test/b'']"
    by (simp add: ex_steps_def ex_subflows_def ex_step_def step_marks_def inner_flow_def step_mark_def prefix_mark_def)
  have keys: "mset (map rm_key (dr_marks d)) = mset [''plan'', ''read'', ''test/a'', ''test/b'']"
    unfolding marks [symmetric] using r(3) by (simp only: mset_map)
  have boxes: "map (\<lambda>(l, m, ms). (l, rm_key m, map rm_key ms)) (concat (map (step_boxes ex_subflows) ex_steps)) =
      [(''test'', ''test'', [''test/a'', ''test/b''])]"
    by (simp add: ex_steps_def ex_subflows_def ex_step_def step_boxes_def inner_flow_def step_mark_def prefix_mark_def stepName_def
        truthy_str_def coalesce_def)
  have "mset (map (\<lambda>(l, m, ms). (l, rm_key m, map rm_key ms)) (map (box_shows (dr_marks d)) (dr_boxes d))) =
      mset [(''test'', ''test'', [''test/a'', ''test/b''])]"
    unfolding boxes [symmetric] using r(4) by (simp only: mset_map)
  then have "map (\<lambda>(l, m, ms). (l, rm_key m, map rm_key ms)) (map (box_shows (dr_marks d)) (dr_boxes d)) =
      [(''test'', ''test'', [''test/a'', ''test/b''])]"
    by (simp only: mset.simps add_mset_add_single [symmetric] mset_single_iff)
  with keys r(1,2,5) show ?thesis by (intro exI [of _ expr] exI [of _ d]) (simp only: mset.simps simp_thms)
qed

text \<open>
  C35. The graph of a workflow without a cycle. Its edges are waits of the steps, none follows from
  two others, and they lose nothing: following edges leads from one step to another exactly when
  the second waits on the first, directly or through others.
\<close>
theorem graph_keeps_every_dependency:
  assumes "distinct (map fs_id steps)" "acyclic (step_waits (map node_of steps))"
  defines "edges \<equiv> {(p, fs_id s) |p s. (p, s) \<in> set (graph_edges steps)}"
  shows "edges \<subseteq> step_waits (map node_of steps) \<and> edges\<^sup>+ = (step_waits (map node_of steps))\<^sup>+
    \<and> (\<forall>p q i. (p, i) \<in> edges \<and> (q, i) \<in> edges \<and> p \<noteq> q \<longrightarrow> (p, q) \<notin> edges\<^sup>+)"
proof -
  let ?ps = "parent_map (map node_of steps)"
  have w: "waits ?ps = step_waits (map node_of steps)" by (rule waits_parent_map) (simp only: ids_of_nodes assms(1))
  have "edges = direct_waits ?ps"
  proof -
    have "i \<in> fs_id ` set steps" if "(p, i) \<in> direct_waits ?ps" for p i
      using waits_known [of p i "map node_of steps"] that unfolding direct_waits_eq by (auto simp: node_of_def)
    then show ?thesis unfolding edges_def graph_edges_def direct_waits_def by fastforce
  qed
  moreover have "(direct_waits ?ps)\<^sup>+ = (waits ?ps)\<^sup>+" by (rule direct_waits_closure) (simp only: w assms(2))
  moreover have "direct_waits ?ps \<subseteq> waits ?ps" by (auto simp: direct_waits_eq)
  moreover have "(p, q) \<notin> (waits ?ps)\<^sup>+" if "(p, i) \<in> direct_waits ?ps" "(q, i) \<in> direct_waits ?ps" "p \<noteq> q" for p q i
    using that unfolding direct_waits_eq by metis
  ultimately show ?thesis unfolding w by blast
qed

text \<open>Three steps, and a wait that follows from two others.\<close>

definition ex_graph :: "flow_step list" where
  "ex_graph = [ex_step ''a'' [] KAgent, ex_step ''b'' [''a''] KAgent, ex_step ''c'' [''b'', ''a''] KAgent]"

lemma ex_graph_waits: "step_waits (map node_of ex_graph) \<subseteq> {(''a'', ''b''), (''b'', ''c''), (''a'', ''c'')}"
  by (auto simp: step_waits_def ex_graph_def ex_step_def node_of_def)

theorem graph_keeps_every_dependency_witness:
  "{(p, fs_id s) |p s. (p, s) \<in> set (graph_edges ex_graph)}\<^sup>+ = (step_waits (map node_of ex_graph))\<^sup>+"
proof -
  have "acyclic ({(''a'', ''b''), (''b'', ''c''), (''a'', ''c'')} :: (string \<times> string) set)"
    by (simp add: acyclic_insert rtrancl_insert wf_acyclic)
  then have "acyclic (step_waits (map node_of ex_graph))" using ex_graph_waits by (rule acyclic_subset)
  moreover have "distinct (map fs_id ex_graph)" by code_simp
  ultimately show ?thesis using graph_keeps_every_dependency [of ex_graph] by blast
qed

end
