(* ===== verification/Flow_Steps.thy ===== *)
theory Flow_Steps
  imports Flow_Drawing "HOL-Library.Sublist"
begin

text \<open>
  The steps a workflow is presented with (\<open>workflowSteps\<close>, \<open>withForks\<close>): the recorded steps in their
  order, the forks among them, the proposals after them. They are the steps of the diagram, so
  every workflow is drawn.
\<close>

section \<open>Placing the forks\<close>

text \<open>
  A fork is inserted behind the step at \<open>n\<close> and the forks of the same step that follow it there.
\<close>

lemma insert_fork_position:
  assumes "n < length steps"
  shows "\<exists>c. n < c \<and> c \<le> length steps \<and> insert_fork steps n fork = take c steps @ fork # drop c steps
    \<and> (\<forall>j. n < j \<and> j < c \<longrightarrow> fs_forkOf (steps ! j) = fs_forkOf fork)
    \<and> (c < length steps \<longrightarrow> fs_forkOf (steps ! c) \<noteq> fs_forkOf fork)"
proof -
  let ?P = "\<lambda>s. fs_forkOf s = fs_forkOf fork"
  let ?rest = "drop (Suc n) steps"
  let ?k = "length (takeWhile ?P ?rest)"
  let ?c = "Suc n + ?k"
  have k: "?k \<le> length ?rest" by (rule length_takeWhile_le)
  have "takeWhile ?P ?rest = take ?k ?rest" by (rule takeWhile_eq_take)
  then have "take (Suc n) steps @ takeWhile ?P ?rest = take ?c steps" using take_add [of "Suc n" ?k steps] by metis
  then have "insert_fork steps n fork = take ?c steps @ fork # drop ?c steps"
    unfolding insert_fork_def Let_def by (metis append.assoc append_Cons append_Nil)
  moreover have "?P (steps ! j)" if "n < j" "j < ?c" for j
  proof -
    have "j - Suc n < ?k" using that by simp
    from nth_mem [OF this] have "?P (takeWhile ?P ?rest ! (j - Suc n))" by (rule conjunct2 [OF set_takeWhileD])
    then have "?P (?rest ! (j - Suc n))" using takeWhile_nth [OF \<open>j - Suc n < ?k\<close>] by simp
    with that assms k show ?thesis by simp
  qed
  moreover have "\<not> ?P (steps ! ?c)" if "?c < length steps"
  proof -
    have "?k < length ?rest" using that by simp
    from nth_length_takeWhile [OF this] show ?thesis using that by simp
  qed
  ultimately show ?thesis using k assms by (intro exI [of _ ?c]) auto
qed

lemma insert_fork_at: "\<exists>before behind. steps = before @ behind \<and> insert_fork steps n fork = before @ fork # behind"
proof -
  let ?beside = "takeWhile (\<lambda>s. fs_forkOf s = fs_forkOf fork) (drop (Suc n) steps)"
  have "?beside = take (length ?beside) (drop (Suc n) steps)" by (rule takeWhile_eq_take)
  then have "take (Suc n) steps @ ?beside = take (Suc n + length ?beside) steps" using take_add [of "Suc n" _ steps] by metis
  then have "insert_fork steps n fork = take (Suc n + length ?beside) steps @ fork # drop (Suc n + length ?beside) steps"
    unfolding insert_fork_def Let_def by (metis append.assoc append_Cons append_Nil)
  then show ?thesis using append_take_drop_id by metis
qed

lemma insert_fork_facts:
  "set (insert_fork steps n fork) = insert fork (set steps)" "subseq steps (insert_fork steps n fork)"
  "fs_id fork \<notin> fs_id ` set steps \<Longrightarrow> distinct (map fs_id steps) \<Longrightarrow> distinct (map fs_id (insert_fork steps n fork))"
proof -
  obtain before behind where s: "steps = before @ behind" and m: "insert_fork steps n fork = before @ fork # behind" using insert_fork_at by blast
  show "set (insert_fork steps n fork) = insert fork (set steps)" unfolding m by (simp add: s)
  have "subseq (before @ behind) (before @ fork # behind)" by (simp only: subseq_append') (rule list_emb_Cons, rule subseq_order.refl)
  then show "subseq steps (insert_fork steps n fork)" using s m by metis
  show "fs_id fork \<notin> fs_id ` set steps \<Longrightarrow> distinct (map fs_id steps) \<Longrightarrow> distinct (map fs_id (insert_fork steps n fork))"
    unfolding m by (auto simp: s)
qed

lemma listed_fork_id [simp]: "fs_id (listed_fork run agentRef row original) = text_of (record_field (Some row) ''id'')"
  by (simp add: listed_fork_def)

lemma find_step_None: "find_step steps i = None \<longleftrightarrow> i \<notin> fs_id ` set steps"
proof -
  have "find_step steps i = None \<longleftrightarrow> find_index (\<lambda>s. fs_id s = i) steps = None" by (simp add: find_step_def split: option.splits)
  then show ?thesis unfolding find_index_None by auto
qed

text \<open>The rows of the list of forks that name themselves and a step.\<close>

definition names_fork :: "string set \<Rightarrow> js_value \<Rightarrow> bool" where
  "names_fork ids raw \<longleftrightarrow> as_record raw \<noteq> None \<and> text_of (record_field (as_record raw) ''id'') \<noteq> []
     \<and> text_of (record_field (as_record raw) ''fork_of'') \<in> ids"

definition fork_id :: "js_value \<Rightarrow> string" where
  "fork_id raw = text_of (record_field (as_record raw) ''id'')"

definition forks_inv :: "flow_step list \<Rightarrow> flow_step list \<times> string list \<Rightarrow> bool" where
  "forks_inv steps0 acc \<longleftrightarrow> subseq steps0 (fst acc) \<and> distinct (map fs_id (fst acc)) \<and> set (snd acc) = fs_id ` set (fst acc)"

lemma place_fork_inv:
  assumes inv: "forks_inv steps0 acc"
  shows "forks_inv steps0 (place_fork run agentRef acc raw) \<and> set (fst acc) \<subseteq> set (fst (place_fork run agentRef acc raw))
    \<and> (names_fork (fs_id ` set (fst acc)) raw \<longrightarrow> fork_id raw \<in> fs_id ` set (fst (place_fork run agentRef acc raw)))"
proof -
  obtain steps known where acc: "acc = (steps, known)" by force
  have known: "set known = fs_id ` set steps" using inv by (simp add: forks_inv_def acc)
  show ?thesis
  proof (cases "names_fork (fs_id ` set steps) raw \<and> fork_id raw \<notin> set known")
    case False
    have "place_fork run agentRef acc raw = acc"
      using False unfolding acc place_fork_def names_fork_def fork_id_def
      by (auto simp: Let_def find_step_None [symmetric] split: option.splits prod.splits)
    then show ?thesis using inv False known by (auto simp: acc)
  next
    case True
    then have "find_step steps (text_of (record_field (as_record raw) ''fork_of'')) \<noteq> None" "as_record raw \<noteq> None"
      using True unfolding names_fork_def by (auto simp: find_step_None)
    then obtain r n o1 where r: "as_record raw = Some r" "find_step steps (text_of (record_field (as_record raw) ''fork_of'')) = Some (n, o1)"
      by auto
    have new: "fork_id raw \<notin> fs_id ` set steps" using True known by blast
    have p: "place_fork run agentRef acc raw = (insert_fork steps n (listed_fork run agentRef r o1), set_add known (fork_id raw))"
      using r True by (simp add: acc place_fork_def Let_def names_fork_def fork_id_def)
    have i: "fs_id (listed_fork run agentRef r o1) = fork_id raw" using r by (simp add: fork_id_def)
    show ?thesis unfolding p using inv new i known insert_fork_facts [where steps = steps and n = n and fork = "listed_fork run agentRef r o1"]
      by (auto simp: forks_inv_def acc intro: subseq_order.trans)
  qed
qed

lemma place_forks_inv:
  assumes "forks_inv steps0 acc"
  shows "forks_inv steps0 (foldl (place_fork run agentRef) acc rows) \<and> set (fst acc) \<subseteq> set (fst (foldl (place_fork run agentRef) acc rows))
    \<and> (\<forall>raw\<in>set rows. names_fork (fs_id ` set (fst acc)) raw \<longrightarrow> fork_id raw \<in> fs_id ` set (fst (foldl (place_fork run agentRef) acc rows)))"
  using assms
proof (induction rows arbitrary: acc)
  case (Cons raw rows)
  let ?acc = "place_fork run agentRef acc raw"
  note p = place_fork_inv [OF Cons.prems, of run agentRef raw]
  have ih: "forks_inv steps0 (foldl (place_fork run agentRef) ?acc rows)" "set (fst ?acc) \<subseteq> set (fst (foldl (place_fork run agentRef) ?acc rows))"
      "\<forall>raw\<in>set rows. names_fork (fs_id ` set (fst ?acc)) raw \<longrightarrow> fork_id raw \<in> fs_id ` set (fst (foldl (place_fork run agentRef) ?acc rows))"
    using Cons.IH [of ?acc] p by blast+
  have "names_fork (fs_id ` set (fst acc)) x \<Longrightarrow> names_fork (fs_id ` set (fst ?acc)) x" for x using p unfolding names_fork_def by blast
  then show ?case using ih p by auto
qed simp

section \<open>Forks stand beside their steps\<close>

definition fork_origin :: "js_value \<Rightarrow> string" where
  "fork_origin raw = text_of (record_field (as_record raw) ''fork_of'')"

text \<open>The fork \<open>k\<close> stands behind the step \<open>i\<close> it forks, and what stands between them satisfies \<open>P\<close>.\<close>

definition stands_beside :: "(flow_step \<Rightarrow> bool) \<Rightarrow> flow_step list \<Rightarrow> string \<Rightarrow> string \<Rightarrow> bool" where
  "stands_beside P steps i k \<longleftrightarrow> (\<exists>a b. a < b \<and> b < length steps \<and> fs_id (steps ! a) = i \<and> fs_id (steps ! b) = k
     \<and> fs_forkOf (steps ! b) = Some i \<and> (\<forall>c. a < c \<and> c < b \<longrightarrow> P (steps ! c)))"

lemma insert_nth:
  assumes "c \<le> length xs"
  shows "j < c \<Longrightarrow> (take c xs @ x # drop c xs) ! j = xs ! j" "(take c xs @ x # drop c xs) ! c = x"
    "c \<le> j \<Longrightarrow> j < length xs \<Longrightarrow> (take c xs @ x # drop c xs) ! Suc j = xs ! j"
  using assms by (auto simp: nth_append min_def)

text \<open>
  Another fork does not come between a step and its fork, unless it may stand there.
\<close>

lemma stands_beside_insert:
  assumes "c \<le> length steps" "a < b" "b < length steps" "fs_id (steps ! a) = i" "fs_id (steps ! b) = k"
    and "fs_forkOf (steps ! b) = Some i" "\<forall>j. a < j \<and> j < b \<longrightarrow> P (steps ! j)"
    and "a < c \<and> c \<le> b \<longrightarrow> P x"
  shows "stands_beside P (take c steps @ x # drop c steps) i k"
proof -
  let ?xs = "take c steps @ x # drop c steps"
  let ?a = "if a < c then a else Suc a" and ?b = "if b < c then b else Suc b"
  note at = insert_nth [OF assms(1), where x = x]
  have "P (?xs ! j)" if j: "?a < j" "j < ?b" for j
  proof -
    consider "j < c" | "j = c" | "c < j" by linarith
    then show ?thesis
    proof cases
      case 1
      then have "a < j" "j < b" using j by (auto split: if_splits)
      with 1 at(1) assms(7) show ?thesis by simp
    next
      case 2
      with j have "a < c" "c \<le> b" by (auto split: if_splits)
      with 2 at(2) assms(8) show ?thesis by simp
    next
      case 3
      then obtain j' where j': "j = Suc j'" "c \<le> j'" by (cases j) auto
      with j have "a < j'" "j' < b" by (auto split: if_splits)
      with j' at(3) [of j'] assms(3,7) show ?thesis by simp
    qed
  qed
  moreover have "?xs ! ?a = steps ! a" "?xs ! ?b = steps ! b" using at(1,3) assms(2,3) by auto
  ultimately show ?thesis
    using assms unfolding stands_beside_def by (intro exI [of _ ?a] exI [of _ ?b]) (auto split: if_splits)
qed

lemma stands_beside_own:
  assumes "n < c" "c \<le> length steps" "fs_id (steps ! n) = i" "fs_id x = k" "fs_forkOf x = Some i"
    and "\<forall>j. n < j \<and> j < c \<longrightarrow> P (steps ! j)"
  shows "stands_beside P (take c steps @ x # drop c steps) i k"
  unfolding stands_beside_def using assms insert_nth(1,2) [OF assms(2), where x = x]
  by (intro exI [of _ n] exI [of _ c]) (auto simp del: nth_append)

text \<open>Whether any listed fork is one of a step that is a fork itself.\<close>

definition forks_steps_only :: "js_value list \<Rightarrow> flow_step list \<Rightarrow> bool" where
  "forks_steps_only rows steps \<longleftrightarrow> (\<forall>raw\<in>set rows. \<forall>s\<in>set steps. fs_id s = fork_origin raw \<longrightarrow> fs_forkOf s = None)"

text \<open>What may stand between: any fork, or only forks of the same step when no fork is forked.\<close>

definition besides :: "js_value list \<Rightarrow> flow_step list \<Rightarrow> string \<Rightarrow> string \<Rightarrow> bool" where
  "besides rows steps i k \<longleftrightarrow> stands_beside (\<lambda>s. fs_forkOf s \<noteq> None) steps i k
     \<and> (forks_steps_only rows steps \<longrightarrow> stands_beside (\<lambda>s. fs_forkOf s = Some i) steps i k)"

lemma place_fork_cases:
  assumes "set (snd acc) = fs_id ` set (fst acc)"
  obtains (keep) "place_fork run agentRef acc raw = acc" "\<not> names_fork (fs_id ` set (fst acc)) raw \<or> fork_id raw \<in> set (snd acc)"
  | (insert) n fork where "n < length (fst acc)" "fs_id (fst acc ! n) = fork_origin raw" "fs_id fork = fork_id raw"
      "fs_forkOf fork = Some (fork_origin raw)" "fork_id raw \<notin> fs_id ` set (fst acc)"
      "place_fork run agentRef acc raw = (insert_fork (fst acc) n fork, set_add (snd acc) (fork_id raw))"
proof (cases "names_fork (fs_id ` set (fst acc)) raw \<and> fork_id raw \<notin> set (snd acc)")
  case False
  have "place_fork run agentRef acc raw = acc"
    using False unfolding place_fork_def names_fork_def fork_id_def
    by (auto simp: Let_def find_step_None [symmetric] split: option.splits prod.splits)
  with False keep show ?thesis by blast
next
  case True
  then have "find_step (fst acc) (fork_origin raw) \<noteq> None" "as_record raw \<noteq> None"
    unfolding names_fork_def fork_origin_def by (auto simp: find_step_None)
  then obtain r n o1 where r: "as_record raw = Some r" "find_step (fst acc) (fork_origin raw) = Some (n, o1)" by auto
  have n: "n < length (fst acc)" "fs_id (fst acc ! n) = fork_origin raw"
    using r(2) find_index_Some [of "\<lambda>s. fs_id s = fork_origin raw" "fst acc"] by (auto simp: find_step_def split: option.splits)
  have "place_fork run agentRef acc raw = (insert_fork (fst acc) n (listed_fork run agentRef r o1), set_add (snd acc) (fork_id raw))"
    using r True by (cases acc) (simp add: place_fork_def Let_def names_fork_def fork_id_def fork_origin_def)
  moreover have "fs_id (listed_fork run agentRef r o1) = fork_id raw" "fs_forkOf (listed_fork run agentRef r o1) = Some (fork_origin raw)"
    using r by (simp_all add: fork_id_def fork_origin_def listed_fork_def)
  ultimately show ?thesis using insert [OF n] True assms by blast
qed

lemma besides_insert:
  assumes old: "besides rows steps i k" and n: "n < length steps" "fs_id (steps ! n) = fork_origin raw"
    and fork: "fs_forkOf fork = Some (fork_origin raw)" and rows: "raw \<in> set rows" "i \<in> fork_origin ` set rows"
  shows "besides rows (insert_fork steps n fork) i k"
proof -
  obtain c where c: "n < c" "c \<le> length steps" "insert_fork steps n fork = take c steps @ fork # drop c steps"
      "\<forall>j. n < j \<and> j < c \<longrightarrow> fs_forkOf (steps ! j) = fs_forkOf fork" "c < length steps \<longrightarrow> fs_forkOf (steps ! c) \<noteq> fs_forkOf fork"
    using insert_fork_position [OF n(1)] by blast
  have any: "stands_beside (\<lambda>s. fs_forkOf s \<noteq> None) (insert_fork steps n fork) i k"
    using old stands_beside_insert [OF c(2), where P = "\<lambda>s. fs_forkOf s \<noteq> None" and x = fork] fork
    unfolding besides_def stands_beside_def [of _ steps] c(3) by auto
  have same: "stands_beside (\<lambda>s. fs_forkOf s = Some i) (insert_fork steps n fork) i k"
    if flat: "forks_steps_only rows (insert_fork steps n fork)"
  proof -
    have "set steps \<subseteq> set (insert_fork steps n fork)" using insert_fork_facts(1) by blast
    with flat have flat0: "forks_steps_only rows steps" unfolding forks_steps_only_def by blast
    then obtain a b where ab: "a < b" "b < length steps" "fs_id (steps ! a) = i" "fs_id (steps ! b) = k"
        "fs_forkOf (steps ! b) = Some i" "\<forall>j. a < j \<and> j < b \<longrightarrow> fs_forkOf (steps ! j) = Some i"
      using old unfolding besides_def stands_beside_def by blast
    have own: "fs_forkOf (steps ! n) = None" "fs_forkOf (steps ! a) = None"
      using flat0 n ab(1-3) rows unfolding forks_steps_only_def by (auto dest: nth_mem)
    have "\<not> (a < c \<and> c \<le> b)"
    proof
      assume between: "a < c \<and> c \<le> b"
      consider "n < a" | "n = a" | "a < n" "n < b" using between c(1) by linarith
      then show False
      proof cases
        case 1
        with c(4) between fork own(2) show False by auto
      next
        case 2
        with n(2) ab(3) fork have "fs_forkOf fork = Some i" by simp
        with c(5) ab(2,5,6) between show False by (cases "c = b") auto
      next
        case 3
        with ab(6) own(1) show False by auto
      qed
    qed
    then show ?thesis
      using stands_beside_insert [OF c(2) ab, of fork] unfolding c(3) by blast
  qed
  from any same show ?thesis by (simp add: besides_def)
qed

lemma place_forks_beside:
  assumes "set (snd acc) = fs_id ` set (fst acc)" "set rows \<subseteq> set all"
    and "\<forall>raw\<in>D. fork_origin raw \<in> fork_origin ` set all \<and> besides all (fst acc) (fork_origin raw) (fork_id raw)"
  shows "(\<forall>raw\<in>D. besides all (fst (foldl (place_fork run agentRef) acc rows)) (fork_origin raw) (fork_id raw))
    \<and> (\<forall>xs raw ys. rows = xs @ raw # ys \<and> names_fork (fs_id ` set (fst acc)) raw \<and> fork_id raw \<notin> fs_id ` set (fst acc) \<union> fork_id ` set xs \<longrightarrow>
        besides all (fst (foldl (place_fork run agentRef) acc rows)) (fork_origin raw) (fork_id raw))"
  using assms
proof (induction rows arbitrary: acc D)
  case (Cons r rows)
  let ?acc = "place_fork run agentRef acc r"
  let ?D = "D \<union> {raw. raw = r \<and> names_fork (fs_id ` set (fst acc)) r \<and> fork_id r \<notin> fs_id ` set (fst acc)}"
  have step: "set (snd ?acc) = fs_id ` set (fst ?acc) \<and> fs_id ` set (fst ?acc) \<subseteq> insert (fork_id r) (fs_id ` set (fst acc))
      \<and> fs_id ` set (fst acc) \<subseteq> fs_id ` set (fst ?acc)
      \<and> (\<forall>raw\<in>?D. fork_origin raw \<in> fork_origin ` set all \<and> besides all (fst ?acc) (fork_origin raw) (fork_id raw))"
    using Cons.prems(1)
  proof (cases rule: place_fork_cases [where run = run and agentRef = agentRef and raw = r])
    case keep
    then have "?D = D" using Cons.prems(1) by auto
    with keep(1) Cons.prems show ?thesis by auto
  next
    case (insert n fork)
    have r: "r \<in> set all" using Cons.prems(2) by simp
    have new: "besides all (insert_fork (fst acc) n fork) (fork_origin r) (fork_id r)"
    proof -
      obtain c where c: "n < c" "c \<le> length (fst acc)" "insert_fork (fst acc) n fork = take c (fst acc) @ fork # drop c (fst acc)"
          "\<forall>j. n < j \<and> j < c \<longrightarrow> fs_forkOf (fst acc ! j) = fs_forkOf fork"
        using insert_fork_position [OF insert(1)] by blast
      show ?thesis unfolding besides_def c(3)
        using stands_beside_own [OF c(1,2) insert(2,3,4)] c(4) insert(4) by simp
    qed
    have "besides all (insert_fork (fst acc) n fork) (fork_origin raw) (fork_id raw)" if "raw \<in> D" for raw
      using besides_insert [OF _ insert(1,2,4) r] Cons.prems(3) that by blast
    with new insert Cons.prems(1,3) r show ?thesis by (auto simp: insert_fork_facts(1))
  qed
  then have ih: "(\<forall>raw\<in>?D. besides all (fst (foldl (place_fork run agentRef) ?acc rows)) (fork_origin raw) (fork_id raw))
    \<and> (\<forall>xs raw ys. rows = xs @ raw # ys \<and> names_fork (fs_id ` set (fst ?acc)) raw \<and> fork_id raw \<notin> fs_id ` set (fst ?acc) \<union> fork_id ` set xs \<longrightarrow>
        besides all (fst (foldl (place_fork run agentRef) ?acc rows)) (fork_origin raw) (fork_id raw))"
    using Cons.prems(2) by (intro Cons.IH) auto
  have "besides all (fst (foldl (place_fork run agentRef) ?acc rows)) (fork_origin raw) (fork_id raw)"
    if raw: "r # rows = xs @ raw # ys" "names_fork (fs_id ` set (fst acc)) raw"
      "fork_id raw \<notin> fs_id ` set (fst acc) \<union> fork_id ` set xs" for xs raw ys
  proof (cases xs)
    case Nil
    with raw ih show ?thesis by simp
  next
    case (Cons x xs')
    with raw(1) have x: "x = r" "rows = xs' @ raw # ys" by simp_all
    have "names_fork (fs_id ` set (fst ?acc)) raw" using raw(2) step unfolding names_fork_def by blast
    moreover have "fork_id raw \<notin> fs_id ` set (fst ?acc) \<union> fork_id ` set xs'" using raw(3) step Cons x(1) by auto
    ultimately show ?thesis using ih x(2) by blast
  qed
  moreover from ih have "\<forall>raw\<in>D. besides all (fst (foldl (place_fork run agentRef) ?acc rows)) (fork_origin raw) (fork_id raw)"
    by blast
  ultimately show ?case unfolding foldl_Cons by blast
qed simp

lemma wait_on_forks_fields [simp]:
  "fs_id (wait_on_forks placed s) = fs_id s" "fs_forkOf (wait_on_forks placed s) = fs_forkOf s"
  "set (fs_after s) \<subseteq> set (fs_after (wait_on_forks placed s))"
  by (auto simp: wait_on_forks_def Let_def)

lemma waits_on_forks:
  assumes "\<not> truthy_str (fs_forkOf s)" "i \<in> set (fs_after s)" "t \<in> set placed" "fs_forkOf t = Some i" "i \<noteq> []" "fs_id t \<noteq> fs_id s"
  shows "fs_id t \<in> set (fs_after (wait_on_forks placed s))"
proof -
  let ?extra = "filter (\<lambda>i. i \<noteq> fs_id s) (concat (map (forks_of placed) (fs_after s)))"
  have "fs_id t \<in> set (forks_of placed i)" using assms by (auto simp: forks_of_def truthy_str_def)
  then have extra: "fs_id t \<in> set ?extra" using assms(2,6) by auto
  then have "?extra \<noteq> []" by (metis empty_iff list.set(1))
  then have "wait_on_forks placed s = s\<lparr>fs_after := js_set (fs_after s @ ?extra), fs_alsoWaitsOn := Some ?extra\<rparr>"
    using assms(1) unfolding wait_on_forks_def Let_def by presburger
  moreover have "set (fs_after (s\<lparr>fs_after := js_set (fs_after s @ others), fs_alsoWaitsOn := Some others\<rparr>)) = set (fs_after s) \<union> set others" for others
    by simp
  ultimately show ?thesis using extra by (metis UnI2)
qed

section \<open>Properties\<close>

lemma view_step_fields [simp]:
  "fs_id (view_step run view agentRef w) = ws_id w" "fs_after (view_step run view agentRef w) = ws_after w"
  "fs_forkOf (view_step run view agentRef w) = fork_of w"
  by (simp_all add: view_step_def)

lemma subseq_members: "subseq xs ys \<Longrightarrow> set xs \<subseteq> set ys"
  by (auto simp flip: subseq_singleton_left intro: subseq_order.trans)

lemma workflow_is_drawn:
  assumes "distinct (map fs_id steps)" "steps \<noteq> []" "has_steps run"
  shows "\<exists>d. fst (flowDiagrams env (Some run) steps members verdict nested agentRef) = Some d
    \<and> ((\<exists>r label. d = Railroad r label) \<longleftrightarrow> seriesParallel (map node_of steps) \<noteq> None)"
proof (cases "seriesParallel (map node_of steps)")
  case None
  then show ?thesis using assms by (simp add: flowDiagrams_def workflow_diagram_def)
next
  case (Some shape)
  obtain e where "workflowRailroadExpr steps shape (subflow_exprs env nested agentRef) = Some e" using drawn_marks [OF assms(1) Some] by blast
  then show ?thesis using assms Some by (simp add: flowDiagrams_def workflow_diagram_def Let_def)
qed

definition view_forks :: "workflow_view \<Rightarrow> js_value list" where
  "view_forks view = (case wv_forks view of JArr rows \<Rightarrow> rows | _ \<Rightarrow> [])"

lemma stands_beside_mono:
  assumes "stands_beside P steps i k" "\<And>s. P s \<Longrightarrow> Q (f s)" "\<And>s. fs_id (f s) = fs_id s \<and> fs_forkOf (f s) = fs_forkOf s"
  shows "stands_beside Q (map f steps @ more_steps) i k"
proof -
  from assms(1) obtain a b where ab: "a < b" "b < length steps" "fs_id (steps ! a) = i" "fs_id (steps ! b) = k"
      "fs_forkOf (steps ! b) = Some i" "\<forall>c. a < c \<and> c < b \<longrightarrow> P (steps ! c)"
    unfolding stands_beside_def by blast
  have "(map f steps @ more_steps) ! c = f (steps ! c)" if "c \<le> b" for c using that ab(2) by (simp add: nth_append)
  with ab assms(2,3) show ?thesis unfolding stands_beside_def by (intro exI [of _ a] exI [of _ b]) auto
qed

text \<open>The ids of the recorded steps: of the stages of an execution, or of the steps of the view.\<close>

definition recorded_ids :: "flow_run \<Rightarrow> string list" where
  "recorded_ids run = (case coalesce (fl_execution run) [] of
       [] \<Rightarrow> (case fl_view run of Some view \<Rightarrow> map ws_id (wv_steps view) | None \<Rightarrow> [])
     | stages \<Rightarrow> map ex_id stages)"

lemma execution_steps_fields:
  "map fs_id (execution_steps agentRef rows before stages) = map ex_id stages"
  "map fs_after (execution_steps agentRef rows before stages) = map ex_after stages"
  by (induction stages arbitrary: before) (simp_all add: execution_step_def)

text \<open>
  What is presented of a view: every listed fork of a recorded step and every awaited approval;
  each fork listed for the first time, under an id no recorded step has, beside its step; and
  the steps that are no fork waiting on what was recorded and on every fork of it.
\<close>

definition presents_view :: "workflow_view \<Rightarrow> flow_step list \<Rightarrow> bool" where
  "presents_view view steps \<longleftrightarrow>
     (\<forall>raw\<in>set (view_forks view). names_fork (ws_id ` set (wv_steps view)) raw \<longrightarrow> fork_id raw \<in> fs_id ` set steps)
     \<and> (\<forall>xs raw ys. view_forks view = xs @ raw # ys \<and> names_fork (ws_id ` set (wv_steps view)) raw
         \<and> fork_id raw \<notin> ws_id ` set (wv_steps view) \<union> fork_id ` set xs \<longrightarrow>
           stands_beside (\<lambda>s. fs_forkOf s \<noteq> None) steps (fork_origin raw) (fork_id raw)
           \<and> (forks_steps_only (view_forks view) steps \<longrightarrow>
               stands_beside (\<lambda>s. fs_forkOf s = Some (fork_origin raw)) steps (fork_origin raw) (fork_id raw)))
     \<and> wp_id ` set (wv_awaiting_approval view) \<subseteq> fs_id ` set steps
     \<and> (\<forall>w\<in>set (wv_steps view). fork_of w = None \<longrightarrow> (\<exists>s\<in>set steps. fs_id s = ws_id w \<and> set (ws_after w) \<subseteq> set (fs_after s)
         \<and> (\<forall>t\<in>set steps. \<forall>i\<in>set (ws_after w). fs_forkOf t = Some i \<and> i \<noteq> [] \<and> fs_id t \<noteq> ws_id w \<longrightarrow> fs_id t \<in> set (fs_after s))))"

text \<open>The presented steps of a view: its forks placed, its proposals behind them.\<close>

lemma view_steps_facts:
  assumes view: "fl_view run = Some view" "coalesce (fl_execution run) [] = []"
    and ids: "distinct (map ws_id (wv_steps view))" "distinct (map wp_id (wv_awaiting_approval view))"
    and steps: "steps = workflowSteps run agentRef"
  shows "distinct (map fs_id steps)" "subseq (map ws_id (wv_steps view)) (map fs_id steps)"
    and "presents_view view steps"
proof -
  let ?own = "map (view_step run view agentRef) (wv_steps view)"
  let ?acc = "(?own, js_set (map fs_id ?own))"
  obtain placed known where pk: "foldl (place_fork run agentRef) ?acc (view_forks view) = (placed, known)" by force
  let ?shown = "map (wait_on_forks placed) placed"
  let ?proposals = "map (proposal_step agentRef) (filter (\<lambda>p. wp_id p \<notin> set known) (wv_awaiting_approval view))"
  have eq: "steps = ?shown @ ?proposals"
    using view pk by (simp add: steps workflowSteps_def withForks_def view_forks_def)
  have own: "map fs_id ?own = map ws_id (wv_steps view)" by simp
  have "forks_inv ?own ?acc" using ids(1) by (simp add: forks_inv_def comp_def image_image)
  from place_forks_inv [OF this, of run agentRef "view_forks view"] pk
  have inv: "subseq ?own placed" "distinct (map fs_id placed)" "set known = fs_id ` set placed" "set ?own \<subseteq> set placed"
      "\<forall>raw\<in>set (view_forks view). names_fork (ws_id ` set (wv_steps view)) raw \<longrightarrow> fork_id raw \<in> fs_id ` set placed"
    by (auto simp: forks_inv_def image_image)
  have shown: "map fs_id ?shown = map fs_id placed" by simp
  have pids: "map fs_id ?proposals = filter (\<lambda>i. i \<notin> set known) (map wp_id (wv_awaiting_approval view))"
    by (simp add: proposal_step_def filter_map comp_def)
  show "distinct (map fs_id steps)"
    unfolding eq map_append shown pids using inv(2,3) ids(2) by (auto simp: distinct_filter)
  show "subseq (map ws_id (wv_steps view)) (map fs_id steps)"
    unfolding eq map_append shown using subseq_map [OF inv(1), of fs_id] own by (simp add: subseq_rev_drop_many comp_def)
  have all: "fs_id ` set steps = fs_id ` set placed \<union> {i \<in> wp_id ` set (wv_awaiting_approval view). i \<notin> set known}"
  proof -
    have "set (map fs_id steps) = set (map fs_id placed) \<union> {i \<in> wp_id ` set (wv_awaiting_approval view). i \<notin> set known}"
      unfolding eq map_append shown pids set_append by simp
    then show ?thesis by simp
  qed
  have listed: "\<forall>raw\<in>set (view_forks view). names_fork (ws_id ` set (wv_steps view)) raw \<longrightarrow> fork_id raw \<in> fs_id ` set steps"
    and awaited: "wp_id ` set (wv_awaiting_approval view) \<subseteq> fs_id ` set steps"
    using inv(3,5) by (auto simp: all)
  have beside: "besides (view_forks view) placed (fork_origin raw) (fork_id raw)"
    if "view_forks view = xs @ raw # ys" "names_fork (ws_id ` set (wv_steps view)) raw"
      "fork_id raw \<notin> ws_id ` set (wv_steps view) \<union> fork_id ` set xs" for xs raw ys
  proof -
    have "fs_id ` set (fst ?acc) = ws_id ` set (wv_steps view)" by (simp only: set_map [symmetric] fst_conv own)
    moreover have "set (snd ?acc) = fs_id ` set (fst ?acc)" by (simp only: fst_conv snd_conv js_set_facts(1) set_map)
    moreover have "\<forall>raw\<in>{}. fork_origin raw \<in> fork_origin ` set (view_forks view)
        \<and> besides (view_forks view) (fst ?acc) (fork_origin raw) (fork_id raw)" by simp
    ultimately have "besides (view_forks view) (fst (foldl (place_fork run agentRef) ?acc (view_forks view))) (fork_origin raw) (fork_id raw)"
      using place_forks_beside [of ?acc "view_forks view" "view_forks view" "{}" run agentRef, THEN conjunct2] that
      by (simp only: subset_refl simp_thms)
    then show ?thesis by (simp only: pk fst_conv)
  qed
  have flat: "forks_steps_only (view_forks view) placed" if "forks_steps_only (view_forks view) steps"
    unfolding forks_steps_only_def
  proof (intro ballI impI)
    fix raw s
    assume raw: "raw \<in> set (view_forks view)" and s: "s \<in> set placed" "fs_id s = fork_origin raw"
    from s(1) have "wait_on_forks placed s \<in> set steps" by (simp add: eq)
    moreover have "fs_id (wait_on_forks placed s) = fork_origin raw" using s(2) by simp
    ultimately have "fs_forkOf (wait_on_forks placed s) = None" using that raw unfolding forks_steps_only_def by blast
    then show "fs_forkOf s = None" by simp
  qed
  have placed_beside: "besides (view_forks view) steps (fork_origin raw) (fork_id raw)"
    if "view_forks view = xs @ raw # ys" "names_fork (ws_id ` set (wv_steps view)) raw"
      "fork_id raw \<notin> ws_id ` set (wv_steps view) \<union> fork_id ` set xs" for xs raw ys
  proof -
    have shifted: "stands_beside P steps i k" if "stands_beside P placed i k" "\<And>s. P s \<Longrightarrow> P (wait_on_forks placed s)" for P i k
      unfolding eq by (rule stands_beside_mono [OF that(1)]) (simp_all add: that(2))
    from beside [OF that] show ?thesis
      using shifted [of "\<lambda>s. fs_forkOf s \<noteq> None"] shifted [of "\<lambda>s. fs_forkOf s = Some (fork_origin raw)"] flat
      unfolding besides_def by simp
  qed
  have waited: "\<exists>s\<in>set steps. fs_id s = ws_id w \<and> set (ws_after w) \<subseteq> set (fs_after s)
      \<and> (\<forall>t\<in>set steps. \<forall>i\<in>set (ws_after w). fs_forkOf t = Some i \<and> i \<noteq> [] \<and> fs_id t \<noteq> ws_id w \<longrightarrow> fs_id t \<in> set (fs_after s))"
    if w: "w \<in> set (wv_steps view)" "fork_of w = None" for w
  proof
    let ?s = "view_step run view agentRef w"
    show "wait_on_forks placed ?s \<in> set steps" using w inv(4) by (auto simp: eq)
    have "fs_id t \<in> set (fs_after (wait_on_forks placed ?s))" if t: "t \<in> set steps" "i \<in> set (ws_after w)" "fs_forkOf t = Some i" "i \<noteq> []" "fs_id t \<noteq> ws_id w" for t i
    proof -
      obtain t0 where "t0 \<in> set placed" "t = wait_on_forks placed t0" using t(1,3) by (auto simp: eq proposal_step_def)
      then show ?thesis using waits_on_forks [of ?s i t0 placed] t w(2) by (simp add: truthy_str_def)
    qed
    then show "fs_id (wait_on_forks placed ?s) = ws_id w \<and> set (ws_after w) \<subseteq> set (fs_after (wait_on_forks placed ?s))
      \<and> (\<forall>t\<in>set steps. \<forall>i\<in>set (ws_after w). fs_forkOf t = Some i \<and> i \<noteq> [] \<and> fs_id t \<noteq> ws_id w \<longrightarrow> fs_id t \<in> set (fs_after (wait_on_forks placed ?s)))"
      using wait_on_forks_fields(3) [of ?s placed] by simp
  qed
  show "presents_view view steps"
    unfolding presents_view_def
    by (intro conjI listed awaited ballI impI waited allI) (use placed_beside in \<open>auto simp: besides_def\<close>)
qed

text \<open>
  C15. The steps a workflow is presented with, where the recorded steps and the awaited approvals
  have ids of their own. The presented ids are distinct and the recorded steps stand in their
  order. When the run records the stages of an execution, these are the steps, with their waits
  and nothing else. Otherwise the steps are those of its view: every listed fork of a recorded
  step and every awaited approval is among them; a fork that is listed for the first time, under an
  id no recorded step has, stands behind the step it forks with only forks between the two, and
  with only forks of that same step where no listed fork is one of a fork; and a step that is no
  fork waits on what was recorded and on every fork of it. They are drawn in both cases: the
  diagram exists, and is a railroad exactly when the waits have a shape.
\<close>
theorem every_workflow_is_drawn:
  assumes "distinct (recorded_ids run)" "recorded_ids run \<noteq> []"
    and "\<forall>view. fl_view run = Some view \<longrightarrow> distinct (map wp_id (wv_awaiting_approval view))"
    and "steps = workflowSteps run agentRef"
  shows "distinct (map fs_id steps) \<and> subseq (recorded_ids run) (map fs_id steps)
    \<and> (\<forall>stages. fl_execution run = Some stages \<and> stages \<noteq> [] \<longrightarrow>
          map fs_id steps = map ex_id stages \<and> map fs_after steps = map ex_after stages)
    \<and> (\<forall>view. fl_view run = Some view \<and> coalesce (fl_execution run) [] = [] \<longrightarrow> presents_view view steps)
    \<and> (\<exists>d. fst (flowDiagrams env (Some run) steps members verdict nested agentRef) = Some d
        \<and> ((\<exists>r label. d = Railroad r label) \<longleftrightarrow> seriesParallel (map node_of steps) \<noteq> None))"
proof -
  have run: "has_steps run" using assms(2) by (auto simp: recorded_ids_def has_steps_def split: list.splits option.splits)
  have basic: "distinct (map fs_id steps) \<and> subseq (recorded_ids run) (map fs_id steps)"
  proof (cases "coalesce (fl_execution run) []")
    case Nil
    with assms(2) obtain view where v: "fl_view run = Some view" "recorded_ids run = map ws_id (wv_steps view)"
      by (auto simp: recorded_ids_def split: option.splits)
    with assms(1,3) have "distinct (map ws_id (wv_steps view))" "distinct (map wp_id (wv_awaiting_approval view))" by auto
    from view_steps_facts(1,2) [OF v(1) Nil this assms(4)] v(2) show ?thesis by simp
  next
    case (Cons stage stages)
    then have "map fs_id steps = recorded_ids run"
      by (simp add: assms(4) workflowSteps_def recorded_ids_def execution_steps_fields del: execution_steps.simps)
    with assms(1) show ?thesis by simp
  qed
  have executed: "map fs_id steps = map ex_id stages \<and> map fs_after steps = map ex_after stages"
    if "fl_execution run = Some stages \<and> stages \<noteq> []" for stages
    using that by (simp add: assms(4) workflowSteps_def coalesce_def execution_steps_fields)
  have "steps \<noteq> []" using basic assms(2) by auto
  from workflow_is_drawn [OF conjunct1 [OF basic] this run]
  have drawn: "\<exists>d. fst (flowDiagrams env (Some run) steps members verdict nested agentRef) = Some d
      \<and> ((\<exists>r label. d = Railroad r label) \<longleftrightarrow> seriesParallel (map node_of steps) \<noteq> None)" .
  have ids: "distinct (map ws_id (wv_steps view))" "distinct (map wp_id (wv_awaiting_approval view))"
    if "fl_view run = Some view" "coalesce (fl_execution run) [] = []" for view
    using assms(1,3) that by (auto simp: recorded_ids_def)
  have "presents_view view steps" if "fl_view run = Some view" "coalesce (fl_execution run) [] = []" for view
    by (rule view_steps_facts(3) [OF that ids [OF that] assms(4)])
  with basic executed drawn show ?thesis by blast
qed

definition ex_flow_view :: workflow_view where
  "ex_flow_view = \<lparr>wv_steps = [\<lparr>ws_id = ''draft'', ws_target = ''self'', ws_input = JUndef, ws_after = [], ws_description = None, ws_status = ''completed'',
       ws_handle = None, ws_invocation = None, ws_fork_of = JUndef, ws_note = JUndef\<rparr>,
     \<lparr>ws_id = ''check'', ws_target = ''self'', ws_input = JUndef, ws_after = [''draft''], ws_description = None, ws_status = ''pending'',
       ws_handle = None, ws_invocation = None, ws_fork_of = JUndef, ws_note = JUndef\<rparr>],
     wv_awaiting_approval = [\<lparr>wp_id = ''more'', wp_target = ''self'', wp_input = JUndef, wp_after = [''check''], wp_by = ''ed'', wp_reason = []\<rparr>],
     wv_editors = [], wv_forks = JArr [JObj [(''id'', JStr ''draft~1''), (''fork_of'', JStr ''draft'')]], wv_approve_edits = True\<rparr>"

definition ex_flow_run :: flow_run where
  "ex_flow_run = \<lparr>fl_flow = ''workflow'', fl_status = ''running'', fl_view = Some ex_flow_view, fl_calls = [], fl_execution = None, fl_events = [], fl_result = JUndef\<rparr>"

theorem every_workflow_is_drawn_witness:
  "{''draft'', ''draft~1'', ''check'', ''more''} \<subseteq> fs_id ` set (workflowSteps ex_flow_run [])
    \<and> stands_beside (\<lambda>s. fs_forkOf s \<noteq> None) (workflowSteps ex_flow_run []) ''draft'' ''draft~1''"
proof -
  have v: "fl_view ex_flow_run = Some ex_flow_view" "coalesce (fl_execution ex_flow_run) [] = []" "recorded_ids ex_flow_run = [''draft'', ''check'']"
    by code_simp+
  have d: "distinct (map wp_id (wv_awaiting_approval ex_flow_view))" by code_simp
  have forks: "view_forks ex_flow_view = [] @ JObj [(''id'', JStr ''draft~1''), (''fork_of'', JStr ''draft'')] # []"
    by (simp add: view_forks_def ex_flow_view_def)
  have row: "names_fork (ws_id ` set (wv_steps ex_flow_view)) (JObj [(''id'', JStr ''draft~1''), (''fork_of'', JStr ''draft'')])"
      "fork_id (JObj [(''id'', JStr ''draft~1''), (''fork_of'', JStr ''draft'')]) = ''draft~1''"
      "fork_origin (JObj [(''id'', JStr ''draft~1''), (''fork_of'', JStr ''draft'')]) = ''draft''"
      "''draft~1'' \<notin> ws_id ` set (wv_steps ex_flow_view)"
    by (simp_all add: names_fork_def fork_id_def fork_origin_def as_record_def record_field_def ex_flow_view_def coalesce_def)
  have sub: "subseq (recorded_ids ex_flow_run) (map fs_id (workflowSteps ex_flow_run []))"
    and presents: "presents_view ex_flow_view (workflowSteps ex_flow_run [])"
    using every_workflow_is_drawn [of ex_flow_run "workflowSteps ex_flow_run []" "[]"] v d by auto
  note view = presents [unfolded presents_view_def]
  have "set [''draft'', ''check''] \<subseteq> set (map fs_id (workflowSteps ex_flow_run []))"
    using subseq_members [OF sub] by (simp only: v(3))
  then have own: "''draft'' \<in> fs_id ` set (workflowSteps ex_flow_run [])" "''check'' \<in> fs_id ` set (workflowSteps ex_flow_run [])"
    by (simp_all only: set_map list.set insert_subset)
  have "JObj [(''id'', JStr ''draft~1''), (''fork_of'', JStr ''draft'')] \<in> set (view_forks ex_flow_view)" by (simp add: forks)
  from bspec [OF conjunct1 [OF view] this] row(1,2) have "''draft~1'' \<in> fs_id ` set (workflowSteps ex_flow_run [])" by (simp only: simp_thms)
  moreover have "stands_beside (\<lambda>s. fs_forkOf s \<noteq> None) (workflowSteps ex_flow_run []) ''draft'' ''draft~1''"
    using conjunct1 [OF conjunct2 [OF view], rule_format, OF conjI [OF forks conjI [OF row(1)]]] row(2-4) by simp
  moreover have "wp_id ` set (wv_awaiting_approval ex_flow_view) \<subseteq> fs_id ` set (workflowSteps ex_flow_run [])"
    by (rule conjunct1 [OF conjunct2 [OF conjunct2 [OF view]]])
  moreover have "''more'' \<in> wp_id ` set (wv_awaiting_approval ex_flow_view)" by (simp add: ex_flow_view_def)
  ultimately show ?thesis using own by blast
qed

end
