(* ===== verification/Flow_Edits.thy ===== *)
theory Flow_Edits
  imports Flow_Run
begin

text \<open>
  The changes of a running workflow (\<open>workflowEdits\<close> of \<open>flow-run-edits.ts\<close>). The code keeps a map of
  the proposals that are open while it replays the record; read against the record as a whole,
  what became of a proposal is what the next decision about its step says.
\<close>

section \<open>The record as a whole\<close>

text \<open>An event that decides about a step: it is proposed, added or rejected.\<close>

definition decision :: "string \<Rightarrow> flow_event \<Rightarrow> bool" where
  "decision s e \<longleftrightarrow> s \<noteq> [] \<and> fe_step e = Some s \<and> fe_event e \<in> {''step_proposed'', ''step_added'', ''step_rejected''}"

text \<open>After these events the last word about the step is a proposal.\<close>

definition open_after :: "flow_event list \<Rightarrow> string \<Rightarrow> bool" where
  "open_after earlier s = (case find (decision s) (rev earlier) of Some d \<Rightarrow> fe_event d = ''step_proposed'' | None \<Rightarrow> False)"

text \<open>An event that gives a row: a proposal, a cancel, or an addition or rejection nobody proposed.\<close>

definition gives_row :: "flow_event list \<Rightarrow> flow_event \<Rightarrow> bool" where
  "gives_row earlier e = (case fe_step e of
       None \<Rightarrow> False
     | Some s \<Rightarrow> s \<noteq> [] \<and> (fe_event e \<in> {''step_proposed'', ''step_cancelled'', ''cancel_rejected''}
         \<or> fe_event e \<in> {''step_added'', ''step_rejected''} \<and> \<not> open_after earlier s))"

definition await_row :: "workflow_edit \<Rightarrow> workflow_proposal \<Rightarrow> workflow_edit" where
  "await_row row p = row\<lparr>ed_outcome := OAwaiting, ed_note := or_else (if_text (wp_reason p)) (ed_note row)\<rparr>"

text \<open>What became of a proposal: the next decision about its step, or the approvals still awaited.\<close>

definition settled :: "workflow_proposal list \<Rightarrow> flow_event list \<Rightarrow> workflow_edit \<Rightarrow> workflow_edit" where
  "settled awaiting later row = (case find (decision (ed_step row)) later of
       Some d \<Rightarrow> if fe_event d = ''step_proposed'' then row else settle_edit d row
     | None \<Rightarrow> foldl await_row row (filter (\<lambda>p. wp_id p = ed_step row) awaiting))"

definition row_of :: "workflow_proposal list \<Rightarrow> flow_event \<Rightarrow> flow_event list \<Rightarrow> workflow_edit" where
  "row_of awaiting e later =
     (let s = coalesce (fe_step e) []; row = new_edit e s OProposed
      in if fe_event e = ''step_proposed'' then settled awaiting later row
         else if fe_event e = ''step_cancelled'' then row\<lparr>ed_target := [], ed_after := [], ed_outcome := OCancelled\<rparr>
         else if fe_event e = ''cancel_rejected'' then
           row\<lparr>ed_target := [], ed_after := [], ed_outcome := OCancelRefused, ed_reason := Some (text_of (event_field e ''reason''))\<rparr>
         else settle_edit e row)"

fun history :: "workflow_proposal list \<Rightarrow> flow_event list \<Rightarrow> flow_event list \<Rightarrow> workflow_edit list" where
  "history awaiting earlier [] = []"
| "history awaiting earlier (e # later) =
     (if gives_row earlier e then [row_of awaiting e later] else []) @ history awaiting (earlier @ [e]) later"

definition unrecorded :: "workflow_proposal \<Rightarrow> workflow_edit" where
  "unrecorded p = \<lparr>ed_step = wp_id p, ed_by = wp_by p, ed_target = wp_target p, ed_after = wp_after p, ed_outcome = OAwaiting,
     ed_reason = None, ed_note = if_text (wp_reason p)\<rparr>"

section \<open>The replay\<close>

definition log_inv :: "flow_event list \<Rightarrow> workflow_edit list \<Rightarrow> (string \<times> nat) list \<Rightarrow> bool" where
  "log_inv earlier rows opened \<longleftrightarrow> (\<forall>s. case map_of opened s of
       Some n \<Rightarrow> n < length rows \<and> ed_step (rows ! n) = s \<and> open_after earlier s
     | None \<Rightarrow> \<not> open_after earlier s)"

lemma log_invD:
  "log_inv earlier rows opened \<Longrightarrow> map_of opened s = Some n \<Longrightarrow> n < length rows \<and> ed_step (rows ! n) = s \<and> open_after earlier s"
  "log_inv earlier rows opened \<Longrightarrow> map_of opened s = None \<longleftrightarrow> \<not> open_after earlier s"
  unfolding log_inv_def by ((drule spec [of _ s], simp)+) (drule spec [of _ s], cases "map_of opened s"; simp)

lemma log_invI:
  assumes "\<And>s n. map_of opened s = Some n \<Longrightarrow> n < length rows \<and> ed_step (rows ! n) = s"
    and "\<And>s. map_of opened s = None \<longleftrightarrow> \<not> open_after earlier s"
  shows "log_inv earlier rows opened"
  unfolding log_inv_def
proof (intro allI)
  fix s
  show "case map_of opened s of Some n \<Rightarrow> n < length rows \<and> ed_step (rows ! n) = s \<and> open_after earlier s | None \<Rightarrow> \<not> open_after earlier s"
    using assms(1) [of s] assms(2) [of s] by (cases "map_of opened s") auto
qed

text \<open>A change of the open rows only.\<close>

definition at_open :: "workflow_edit list \<Rightarrow> (string \<times> nat) list \<Rightarrow> (workflow_edit \<Rightarrow> workflow_edit) \<Rightarrow> workflow_edit list" where
  "at_open rows opened f = map (\<lambda>n. if map_of opened (ed_step (rows ! n)) = Some n then f (rows ! n) else rows ! n) [0..<length rows]"

lemma at_open_Nil [simp]: "at_open [] opened f = []"
  by (simp add: at_open_def)

lemma at_open_id [simp]: "at_open rows opened (\<lambda>r. r) = rows"
  by (simp add: at_open_def map_nth)

lemma at_open_snoc:
  "at_open (rows @ [r]) opened f = at_open rows opened f @ [if map_of opened (ed_step r) = Some (length rows) then f r else r]"
  by (simp add: at_open_def nth_append)

lemma at_open_cong:
  assumes "\<And>n. n < length rows \<Longrightarrow> map_of opened (ed_step (rows ! n)) = Some n \<Longrightarrow> f (rows ! n) = g (rows ! n)"
  shows "at_open rows opened f = at_open rows opened g"
  unfolding at_open_def using assms by simp

text \<open>Changing one open row first.\<close>

lemma at_open_update:
  assumes "map_of opened s = Some n" "n < length rows" "ed_step (rows ! n) = s" "\<And>r. ed_step (g r) = ed_step r"
  shows "at_open (rows[n := g (rows ! n)]) opened f = at_open rows opened (\<lambda>r. if ed_step r = s then f (g r) else f r)"
  unfolding at_open_def using assms by (auto simp: nth_list_update)

lemma at_open_close:
  assumes "map_of opened s = Some n" "n < length rows" "ed_step (rows ! n) = s" "\<And>r. ed_step (g r) = ed_step r"
  shows "at_open (rows[n := g (rows ! n)]) (map_delete opened s) f = at_open rows opened (\<lambda>r. if ed_step r = s then g r else f r)"
  unfolding at_open_def using assms by (auto simp: nth_list_update map_of_map_delete)

lemma ed_step_kept [simp]: "ed_step (settle_edit e r) = ed_step r" "ed_step (await_row r p) = ed_step r" "ed_step (new_edit e s out) = s"
  by (simp_all add: settle_edit_def await_row_def new_edit_def)

section \<open>The approvals still awaited\<close>

lemma await_edit_cases:
  "await_edit opened rows p = (case map_of opened (wp_id p) of Some n \<Rightarrow> rows[n := await_row (rows ! n) p] | None \<Rightarrow> rows @ [unrecorded p])"
  by (simp add: await_edit_def await_row_def unrecorded_def split: option.splits)

lemma await_all:
  assumes "\<forall>s n. map_of opened s = Some n \<longrightarrow> n < length rows \<and> ed_step (rows ! n) = s"
  shows "foldl (await_edit opened) (rows @ extra) awaiting
    = at_open rows opened (\<lambda>r. foldl await_row r (filter (\<lambda>p. wp_id p = ed_step r) awaiting)) @ extra
      @ map unrecorded (filter (\<lambda>p. map_of opened (wp_id p) = None) awaiting)"
  using assms
proof (induction awaiting arbitrary: rows extra)
  case Nil
  then show ?case by simp
next
  case (Cons p awaiting)
  show ?case
  proof (cases "map_of opened (wp_id p)")
    case None
    have "at_open rows opened (\<lambda>r. foldl await_row r (filter (\<lambda>p. wp_id p = ed_step r) awaiting))
        = at_open rows opened (\<lambda>r. foldl await_row r (filter (\<lambda>p. wp_id p = ed_step r) (p # awaiting)))"
      by (rule at_open_cong) (use None in auto)
    then show ?thesis using None Cons.IH [OF Cons.prems, of "extra @ [unrecorded p]"] by (simp add: await_edit_cases)
  next
    case (Some n)
    then have n: "n < length rows" "ed_step (rows ! n) = wp_id p" using Cons.prems by auto
    let ?rows = "rows[n := await_row (rows ! n) p]"
    have "\<forall>s m. map_of opened s = Some m \<longrightarrow> m < length ?rows \<and> ed_step (?rows ! m) = s"
      using Cons.prems n by (auto simp: nth_list_update)
    note IH = Cons.IH [OF this, of extra]
    have "at_open ?rows opened (\<lambda>r. foldl await_row r (filter (\<lambda>q. wp_id q = ed_step r) awaiting))
        = at_open rows opened (\<lambda>r. foldl await_row r (filter (\<lambda>q. wp_id q = ed_step r) (p # awaiting)))"
      by (subst at_open_update [OF Some n]) (auto intro!: at_open_cong)
    then show ?thesis using Some n IH by (simp add: await_edit_cases list_update_append nth_append)
  qed
qed

section \<open>The events\<close>

lemma open_after_snoc: "open_after (earlier @ [e]) s = (if decision s e then fe_event e = ''step_proposed'' else open_after earlier s)"
  by (simp add: open_after_def)

lemma settled_skip: "\<not> decision (ed_step row) e \<Longrightarrow> settled awaiting (e # later) row = settled awaiting later row"
  by (simp add: settled_def)

lemma settled_by:
  "decision (ed_step row) e \<Longrightarrow> settled awaiting (e # later) row = (if fe_event e = ''step_proposed'' then row else settle_edit e row)"
  by (simp add: settled_def)

text \<open>What an event that is skipped, or gives a row of its own, leaves of the rows before it.\<close>

lemma at_open_skip:
  assumes "log_inv earlier rows opened" "\<And>s. open_after earlier s \<Longrightarrow> \<not> decision s e"
  shows "at_open rows opened (settled awaiting (e # later)) = at_open rows opened (settled awaiting later)"
proof (rule at_open_cong)
  fix n
  assume "map_of opened (ed_step (rows ! n)) = Some n"
  then have "open_after earlier (ed_step (rows ! n))" using log_invD(1) [OF assms(1)] by blast
  then show "settled awaiting (e # later) (rows ! n) = settled awaiting later (rows ! n)" using assms(2) settled_skip by blast
qed

lemma log_inv_skip:
  assumes "log_inv earlier rows opened" "\<And>s. decision s e \<Longrightarrow> fe_event e \<noteq> ''step_proposed'' \<and> \<not> open_after earlier s"
  shows "log_inv (earlier @ [e]) (rows @ extra) opened"
proof (rule log_invI)
  show "n < length (rows @ extra) \<and> ed_step ((rows @ extra) ! n) = s" if "map_of opened s = Some n" for s n
    using log_invD(1) [OF assms(1) that] by (simp add: nth_append)
  show "map_of opened s = None \<longleftrightarrow> \<not> open_after (earlier @ [e]) s" for s
    using log_invD(2) [OF assms(1), of s] assms(2) [of s] by (auto simp: open_after_snoc)
qed

text \<open>A proposal: it opens a row, and the row of the step's proposal before it stays as it is.\<close>

lemma propose_rows:
  assumes inv: "log_inv earlier rows opened" and e: "fe_step e = Some s" "s \<noteq> []" "fe_event e = ''step_proposed''"
  defines "row \<equiv> new_edit e s OProposed"
  shows "log_inv (earlier @ [e]) (rows @ [row]) (map_set opened s (length rows))
    \<and> at_open (rows @ [row]) (map_set opened s (length rows)) (settled awaiting later)
      = at_open rows opened (settled awaiting (e # later)) @ [settled awaiting later row]"
proof
  have d: "decision t e \<longleftrightarrow> t = s" for t using e by (auto simp: decision_def)
  show "log_inv (earlier @ [e]) (rows @ [row]) (map_set opened s (length rows))"
    by (rule log_invI)
      (use log_invD [OF inv] e(3) in \<open>auto simp: open_after_snoc d row_def map_of_map_set nth_append split: if_splits\<close>)
  have "at_open rows (map_set opened s (length rows)) (settled awaiting later) = at_open rows opened (settled awaiting (e # later))"
    unfolding at_open_def using d e(3) by (auto simp: map_of_map_set settled_skip settled_by)
  then show "at_open (rows @ [row]) (map_set opened s (length rows)) (settled awaiting later)
      = at_open rows opened (settled awaiting (e # later)) @ [settled awaiting later row]"
    by (simp add: at_open_snoc map_of_map_set row_def)
qed

text \<open>An addition or rejection: it closes the open proposal of its step.\<close>

lemma close_rows:
  assumes inv: "log_inv earlier rows opened" and e: "fe_step e = Some s" "s \<noteq> []" "fe_event e = ''step_added'' \<or> fe_event e = ''step_rejected''"
    and n: "map_of opened s = Some n"
  shows "log_inv (earlier @ [e]) (rows[n := settle_edit e (rows ! n)]) (map_delete opened s)
    \<and> at_open (rows[n := settle_edit e (rows ! n)]) (map_delete opened s) (settled awaiting later) = at_open rows opened (settled awaiting (e # later))"
proof
  have d: "decision t e \<longleftrightarrow> t = s" for t using e by (auto simp: decision_def)
  note bounds = log_invD(1) [OF inv n]
  show "log_inv (earlier @ [e]) (rows[n := settle_edit e (rows ! n)]) (map_delete opened s)"
    by (rule log_invI)
      (use log_invD [OF inv] e(3) bounds in \<open>auto simp: open_after_snoc d map_of_map_delete nth_list_update split: if_splits\<close>)
  have "at_open (rows[n := settle_edit e (rows ! n)]) (map_delete opened s) (settled awaiting later)
      = at_open rows opened (\<lambda>r. if ed_step r = s then settle_edit e r else settled awaiting later r)"
    using at_open_close [OF n, of rows "settle_edit e"] bounds by simp
  also have "\<dots> = at_open rows opened (settled awaiting (e # later))"
  proof (rule at_open_cong)
    fix m
    have "fe_event e \<noteq> ''step_proposed''" using e(3) by auto
    then show "(if ed_step (rows ! m) = s then settle_edit e (rows ! m) else settled awaiting later (rows ! m))
        = settled awaiting (e # later) (rows ! m)"
      using settled_skip [of "rows ! m" e] settled_by [of "rows ! m" e] d [of "ed_step (rows ! m)"] by simp
  qed
  finally show "at_open (rows[n := settle_edit e (rows ! n)]) (map_delete opened s) (settled awaiting later)
      = at_open rows opened (settled awaiting (e # later))" .
qed

text \<open>An event that gives a row of its own and opens nothing.\<close>

lemma own_row:
  assumes inv: "log_inv earlier rows opened" and "\<And>s. decision s e \<Longrightarrow> fe_event e \<noteq> ''step_proposed'' \<and> \<not> open_after earlier s"
  shows "log_inv (earlier @ [e]) (rows @ [row]) opened
    \<and> at_open (rows @ [row]) opened (settled awaiting later) = at_open rows opened (settled awaiting (e # later)) @ [row]"
proof
  show "log_inv (earlier @ [e]) (rows @ [row]) opened" by (rule log_inv_skip [OF assms])
  have "map_of opened (ed_step row) \<noteq> Some (length rows)" using log_invD(1) [OF inv] by blast
  moreover have "at_open rows opened (settled awaiting (e # later)) = at_open rows opened (settled awaiting later)"
    by (rule at_open_skip [OF inv]) (use assms(2) in blast)
  ultimately show "at_open (rows @ [row]) opened (settled awaiting later) = at_open rows opened (settled awaiting (e # later)) @ [row]"
    by (simp add: at_open_snoc)
qed

text \<open>The rows after an event, seen from the end of the record.\<close>

lemma edit_event_rows:
  assumes inv: "log_inv earlier rows opened" and step: "edit_event (rows, opened) e = (rows', opened')"
  shows "log_inv (earlier @ [e]) rows' opened'
    \<and> at_open rows' opened' (settled awaiting later)
      = at_open rows opened (settled awaiting (e # later)) @ (if gives_row earlier e then [row_of awaiting e later] else [])"
proof -
  consider (skip) "fe_step e = None \<or> fe_step e = Some [] \<or> fe_event e \<notin> {''step_proposed'', ''step_added'', ''step_rejected'', ''step_cancelled'', ''cancel_rejected''}"
    | (propose) s where "fe_step e = Some s" "s \<noteq> []" "fe_event e = ''step_proposed''"
    | (decide) s where "fe_step e = Some s" "s \<noteq> []" "fe_event e = ''step_added'' \<or> fe_event e = ''step_rejected''"
    | (cancel) s where "fe_step e = Some s" "s \<noteq> []" "fe_event e = ''step_cancelled'' \<or> fe_event e = ''cancel_rejected''"
    by (cases "fe_step e") auto
  then show ?thesis
  proof cases
    case skip
    then have d: "\<not> decision s e" for s by (auto simp: decision_def)
    have "rows' = rows" "opened' = opened" "\<not> gives_row earlier e"
      using skip step by (auto simp: edit_event_def gives_row_def Let_def split: if_splits option.splits)
    then show ?thesis using log_inv_skip [OF inv, of e "[]"] at_open_skip [OF inv] d by simp
  next
    case propose
    then have "rows' = rows @ [new_edit e s OProposed]" "opened' = map_set opened s (length rows)"
        "gives_row earlier e" "row_of awaiting e later = settled awaiting later (new_edit e s OProposed)"
      using step by (auto simp: edit_event_def gives_row_def row_of_def Let_def)
    then show ?thesis using propose_rows [OF inv propose] by simp
  next
    case decide
    show ?thesis
    proof (cases "map_of opened s")
      case None
      then have o: "\<not> open_after earlier s" using log_invD(2) [OF inv] by blast
      then have "rows' = rows @ [settle_edit e (new_edit e s OProposed)]" "opened' = opened"
          "gives_row earlier e" "row_of awaiting e later = settle_edit e (new_edit e s OProposed)"
        using step decide None by (auto simp: edit_event_def gives_row_def row_of_def Let_def)
      moreover have "fe_event e \<noteq> ''step_proposed'' \<and> \<not> open_after earlier t" if "decision t e" for t
        using that o decide by (auto simp: decision_def)
      ultimately show ?thesis using own_row [OF inv] by simp
    next
      case (Some n)
      then have "open_after earlier s" using log_invD(1) [OF inv] by blast
      then have "rows' = rows[n := settle_edit e (rows ! n)]" "opened' = map_delete opened s" "\<not> gives_row earlier e"
        using step decide Some by (auto simp: edit_event_def gives_row_def Let_def)
      then show ?thesis using close_rows [OF inv decide Some] by simp
    qed
  next
    case cancel
    then have "rows' = rows @ [row_of awaiting e later]" "opened' = opened" "gives_row earlier e"
      using step by (auto simp: edit_event_def gives_row_def row_of_def Let_def new_edit_def)
    moreover have "fe_event e \<noteq> ''step_proposed'' \<and> \<not> open_after earlier t" if "decision t e" for t
      using that cancel by (auto simp: decision_def)
    ultimately show ?thesis using own_row [OF inv] by simp
  qed
qed

lemma replay:
  assumes "log_inv earlier rows opened" "foldl edit_event (rows, opened) events = (rows', opened')"
  shows "foldl (await_edit opened') rows' awaiting
    = at_open rows opened (settled awaiting events) @ history awaiting earlier events
      @ map unrecorded (filter (\<lambda>p. \<not> open_after (earlier @ events) (wp_id p)) awaiting)"
  using assms
proof (induction events arbitrary: earlier rows opened)
  case Nil
  have "foldl (await_edit opened) (rows @ []) awaiting
    = at_open rows opened (\<lambda>r. foldl await_row r (filter (\<lambda>p. wp_id p = ed_step r) awaiting)) @ []
      @ map unrecorded (filter (\<lambda>p. map_of opened (wp_id p) = None) awaiting)"
    by (rule await_all) (use log_invD(1) [OF Nil(1)] in blast)
  moreover have "settled awaiting [] = (\<lambda>r. foldl await_row r (filter (\<lambda>p. wp_id p = ed_step r) awaiting))"
    by (simp add: settled_def fun_eq_iff)
  ultimately show ?case using Nil log_invD(2) [OF Nil(1)] by simp
next
  case (Cons e events)
  obtain mid opened1 where m: "edit_event (rows, opened) e = (mid, opened1)" by force
  have "foldl edit_event (mid, opened1) events = (rows', opened')" using Cons.prems(2) m by simp
  from Cons.IH [OF _ this, of "earlier @ [e]"] edit_event_rows [OF Cons.prems(1) m, of awaiting events]
  show ?case by (auto split: if_splits)
qed

section \<open>Properties\<close>

text \<open>
  C36. The changes of a running workflow are those of its record. There is one row for each proposal,
  cancel, refused cancel, and addition or rejection that nobody proposed, in the order recorded. A
  proposal reads as the next decision about its step does: added, approved, declined or rejected with
  the recorded reason; it stays proposed when the step is proposed again; with no decision yet it is
  awaiting approval if the run says so. An awaited approval without an open proposal gets a row at the
  end. The map of open proposals the code keeps is not visible in the answer.
\<close>
theorem edits_follow_the_record:
  "workflowEdits run =
     (let awaiting = (case fl_view run of Some v \<Rightarrow> wv_awaiting_approval v | None \<Rightarrow> [])
      in map (with_note (fl_view run)) (history awaiting [] (fl_events run)
           @ map unrecorded (filter (\<lambda>p. \<not> open_after (fl_events run) (wp_id p)) awaiting)))"
proof -
  obtain rows opened where f: "foldl edit_event ([], []) (fl_events run) = (rows, opened)" by force
  have "log_inv [] [] []" by (simp add: log_inv_def open_after_def)
  from replay [OF this f] f show ?thesis by (simp add: workflowEdits_def Let_def)
qed

end
