(* ===== verification/Variant_View.thy ===== *)
theory Variant_View
  imports Variant_Runs Message_Projection
begin

text \<open>
  \<open>lib/variant-runs.ts\<close>: where the block of a variant run stands in a conversation, and what its tabs
  show: the drafts, their state, the pick the user is asked for. The schema of the question, the
  locale's comparison of times and the dash of a label are arguments.
\<close>

section \<open>The pick a run waits for\<close>

definition DRAFT_ALTERNATIVES_TOOL :: string where
  "DRAFT_ALTERNATIVES_TOOL = ''draft_alternatives''"

text \<open>The fields of a \<open>PendingInteraction\<close> that a pick reads.\<close>

record pick_interaction =
  pk_id :: string
  pk_kind :: interaction_kind
  pk_status :: interaction_status
  pk_tool_name :: "string option"
  pk_prompt :: "string option"
  pk_created_at :: string
  pk_metadata :: "js_value option"
  pk_expires_at :: "string option"
  pk_actions :: "string list option"

record variant_candidate =
  cd_id :: string
  cd_try_index :: nat
  cd_text :: string

record pick_metadata =
  pm_variants_id :: string
  pm_rubric :: "string option"
  pm_refinable :: bool
  pm_candidates :: "variant_candidate list"

record pick_question =
  pq_interaction :: pick_interaction
  pq_variantsId :: string
  pq_prompt :: "string option"
  pq_rubric :: "string option"
  pq_refinable :: bool
  pq_candidates :: "variant_candidate list"
  pq_expiresAt :: "string option"

record pick_env =
  pe_metadata :: "js_value option \<Rightarrow> pick_metadata option"
  pe_locale :: "string \<Rightarrow> string \<Rightarrow> int"
  pe_dash :: string

definition isVariantPickInteraction :: "pick_interaction \<Rightarrow> bool" where
  "isVariantPickInteraction i \<longleftrightarrow> pk_kind i = IkQuestion \<and> pk_tool_name i = Some DRAFT_ALTERNATIVES_TOOL"

definition text_or_none :: "string option \<Rightarrow> string option" where
  "text_or_none s = (if truthy_str s then s else None)"

definition variantPickQuestion :: "pick_env \<Rightarrow> pick_interaction \<Rightarrow> pick_question option" where
  "variantPickQuestion env i =
     (if pk_kind i \<noteq> IkQuestion then None
      else map_option (\<lambda>m. \<lparr>pq_interaction = i, pq_variantsId = pm_variants_id m, pq_prompt = pk_prompt i, pq_rubric = pm_rubric m,
        pq_refinable = pm_refinable m, pq_candidates = pm_candidates m, pq_expiresAt = text_or_none (pk_expires_at i)\<rparr>)
        (pe_metadata env (pk_metadata i)))"

definition answerable :: "pick_interaction \<Rightarrow> bool" where
  "answerable i \<longleftrightarrow> pk_status i = IsPending \<and> ''answer'' \<in> set (coalesce (pk_actions i) [])"

definition waitingPick :: "pick_env \<Rightarrow> variant_run \<Rightarrow> pick_interaction list \<Rightarrow> pick_question option" where
  "waitingPick env run interactions =
     (let sorted = js_sort (\<lambda>l r. pe_locale env (pk_created_at l) (pk_created_at r)) (filter answerable interactions)
      in find (\<lambda>q. pq_variantsId q = vr_variants_id run) (rev (List.map_filter (variantPickQuestion env) sorted)))"

section \<open>The message a run's block belongs to\<close>

definition own_or_try :: "string option \<Rightarrow> (variant_try \<Rightarrow> string option) \<Rightarrow> variant_run \<Rightarrow> string option" where
  "own_or_try own field run = or_else own (Option.bind (find (\<lambda>t. truthy_str (field t)) (vr_tries run)) field)"

definition carries_turn :: "string \<Rightarrow> message \<Rightarrow> bool" where
  "carries_turn turn m \<longleftrightarrow> msg_role m = RoleAssistant \<and> (msg_turn_id m = Some turn \<or> msg_run_id m = Some turn)"

definition turn_anchor :: "message list \<Rightarrow> string \<Rightarrow> string option" where
  "turn_anchor session turn = (case find (carries_turn turn) session of
       Some answer \<Rightarrow> Some (msg_id answer)
     | None \<Rightarrow> (case find_index (\<lambda>m. msg_id m = turn) session of
           None \<Rightarrow> None
         | Some asked \<Rightarrow> map_option msg_id (find (\<lambda>m. msg_role m = RoleAssistant) (drop (Suc asked) session))))"

definition variantRunAnchorId :: "variant_run \<Rightarrow> message list \<Rightarrow> string option" where
  "variantRunAnchorId run messages =
     (let session = filter (\<lambda>m. msg_session_id m = vr_session_id run) messages;
          anchor = own_or_try (vr_anchor_message_id run) vt_anchor_message_id run;
          turn = own_or_try (vr_run_id run) vt_run_id run
      in if truthy_str anchor \<and> (\<exists>m\<in>set session. Some (msg_id m) = anchor) then anchor
         else if truthy_str turn then turn_anchor session (coalesce turn [])
         else map_option msg_id (find (\<lambda>m. msg_role m = RoleAssistant) (rev session)))"

definition variantRunsForMessage :: "variant_run list \<Rightarrow> message \<Rightarrow> message list \<Rightarrow> variant_run list" where
  "variantRunsForMessage runs message messages =
     (if msg_role message \<noteq> RoleAssistant then []
      else let known = (if \<exists>c\<in>set messages. msg_id c = msg_id message then messages else messages @ [message])
      in filter (\<lambda>run. vr_session_id run = msg_session_id message \<and> vr_tries run \<noteq> []
           \<and> variantRunAnchorId run known = Some (msg_id message)) runs)"

section \<open>The tabs of a run\<close>

definition received_block :: "string \<Rightarrow> (int \<times> message_block list) list \<Rightarrow> message_block \<Rightarrow> (int \<times> message_block list) list" where
  "received_block variantsId byTry block = (case blk_body block of
       InjectionBlock _ _ _ _ _ variants (Some i) \<Rightarrow>
         if variants \<noteq> Some variantsId then byTry else map_set byTry i (coalesce (map_of byTry i) [] @ [block])
     | _ \<Rightarrow> byTry)"

definition variantInjections :: "message list \<Rightarrow> string \<Rightarrow> (int \<times> message_block list) list" where
  "variantInjections messages variantsId = foldl (received_block variantsId) [] (concat (map msg_blocks messages))"

record variant_tab =
  tb_tryIndex :: nat
  tb_label :: string
  tb_state :: try_state
  tb_text :: string
  tb_thinking :: string
  tb_score :: "rat option"
  tb_tokens :: "int option"
  tb_error :: "string option"
  tb_forkedFromLabel :: "string option"
  tb_advice :: "string option"
  tb_injections :: "message_block list"
  tb_activity :: "try_activity list"
  tb_steps :: "try_step list"
  tb_selected :: bool
  tb_userPick :: bool
  tb_comment :: "string option"
  tb_candidateId :: "string option"

record closed_view =
  cv_status :: closed_status
  cv_label :: string
  cv_notice :: string
  cv_supersededByMessageId :: "string option"

record run_view =
  rv_variantsId :: string
  rv_sessionId :: string
  rv_title :: string
  rv_method :: string
  rv_rubric :: "string option"
  rv_judge :: variant_judge
  rv_status :: string
  rv_tabs :: "variant_tab list"
  rv_defaultTab :: nat
  rv_pick :: "pick_question option"
  rv_closed :: "closed_view option"
  rv_refinable :: bool

definition tryNoun :: "variant_run \<Rightarrow> string" where
  "tryNoun run = (if vr_origin run = OriginDraftAlternatives then ''Draft'' else ''Try'')"

definition methodLabel :: "string \<Rightarrow> variant_run \<Rightarrow> string" where
  "methodLabel dash run =
     (let strategy = (if vr_strategy run = StrategyRefine then ''Refine, up to '' @ show_nat (vr_n run) @ '' tries''
            else if 0 < vr_n run then ''Best of '' @ show_nat (vr_n run) else ''Best of several'')
      in case vr_judge run of
           JudgeUser \<Rightarrow> strategy @ '' '' @ dash @ '' you pick''
         | JudgeLm \<Rightarrow> strategy @ '' '' @ dash @ '' judged by the model''
         | JudgeUnknown \<Rightarrow> strategy)"

definition closed_as :: "closed_status \<Rightarrow> string \<Rightarrow> string \<Rightarrow> string option \<Rightarrow> closed_view" where
  "closed_as status label notice by = \<lparr>cv_status = status, cv_label = label, cv_notice = notice @ '' None of these drafts was used.'',
     cv_supersededByMessageId = by\<rparr>"

definition variantClosedView :: "variant_closure \<Rightarrow> closed_view" where
  "variantClosedView closure = (case vc_status closure of
       ClosedSuperseded \<Rightarrow> closed_as ClosedSuperseded ''Superseded by your next message'' ''You sent a new message instead of picking.''
         (vc_superseded_by_message_id closure)
     | ClosedCancelled \<Rightarrow> closed_as ClosedCancelled ''Cancelled'' ''The pick was cancelled.'' None
     | ClosedExpired \<Rightarrow> closed_as ClosedExpired ''Expired'' ''The time to pick ran out.'' None
     | ClosedUnknown \<Rightarrow> closed_as ClosedUnknown ''Closed'' ''The pick closed.'' None)"

definition statusLabel :: "variant_run \<Rightarrow> string \<Rightarrow> bool \<Rightarrow> string" where
  "statusLabel run noun waiting =
     (let running = length (filter (\<lambda>t. vt_state t = TryRunning) (vr_tries run))
      in case (vr_selection run, vr_closure run) of
           (Some s, _) \<Rightarrow> noun @ '' '' @ show_nat (vs_selected_index s + 1) @ '' selected''
         | (None, Some c) \<Rightarrow> cv_label (variantClosedView c)
         | (None, None) \<Rightarrow>
             if waiting then ''Waiting for your pick''
             else if vr_status run = Some VrFailed then ''The run failed''
             else if 0 < running then show_nat running @ '' of '' @ show_nat (length (vr_tries run)) @ '' running''
             else if \<forall>t\<in>set (vr_tries run). vt_state t = TryFailed then ''Every try failed''
             else if vr_status run = Some VrAwaitingPick then ''Waiting for your pick''
             else if vr_judge run = JudgeUser then ''Waiting for the drafts'' else ''Judging the tries'')"

text \<open>The tries a user picked to refine, with the comment.\<close>

definition refined_from :: "variant_run \<Rightarrow> (nat \<times> string option) list" where
  "refined_from run = (if vr_judge run = JudgeUser
     then concat (map (\<lambda>t. case vt_forked_from t of None \<Rightarrow> [] | Some n \<Rightarrow> [(n, vt_advice t)]) (vr_tries run)) else [])"

definition advice_block :: "variant_run \<Rightarrow> variant_try \<Rightarrow> string \<Rightarrow> message_block" where
  "advice_block run t advice = \<lparr>blk_id = vt_id t @ '':advice'', blk_agent_id = None, blk_sequence = None, blk_stream_source = None, blk_channel = None,
     blk_body = InjectionBlock ''variant_advice'' advice None None None (Some (vr_variants_id run)) (Some (int (vt_try_index t)))\<rparr>"

definition injected_text :: "message_block \<Rightarrow> string option" where
  "injected_text b = (case blk_body b of InjectionBlock _ t _ _ _ _ _ \<Rightarrow> Some t | _ \<Rightarrow> None)"

definition tab_injections :: "variant_run \<Rightarrow> (int \<times> message_block list) list \<Rightarrow> variant_try \<Rightarrow> message_block list" where
  "tab_injections run injections t =
     (let given = coalesce (map_of injections (int (vt_try_index t))) []
      in (if truthy_str (vt_advice t) \<and> \<not> (\<exists>b\<in>set given. injected_text b = vt_advice t)
          then [advice_block run t (coalesce (vt_advice t) [])] else []) @ given)"

definition final_pick :: "variant_run \<Rightarrow> nat \<Rightarrow> bool" where
  "final_pick run i \<longleftrightarrow> Option.bind (vr_selection run) vs_pick = Some i"

definition tab_comment :: "variant_run \<Rightarrow> nat \<Rightarrow> string option" where
  "tab_comment run i =
     (let final = (if final_pick run i then Option.bind (vr_selection run) vs_comment else None);
          advice = coalesce (map_of (rev (refined_from run)) i) None
      in if truthy_str final then final else text_or_none advice)"

definition candidate_at :: "pick_question option \<Rightarrow> nat \<Rightarrow> variant_candidate option" where
  "candidate_at pick i = (case pick of None \<Rightarrow> None | Some q \<Rightarrow> find (\<lambda>c. cd_try_index c = i) (pq_candidates q))"

definition tab_of :: "variant_run \<Rightarrow> pick_question option \<Rightarrow> (int \<times> message_block list) list \<Rightarrow> variant_try \<Rightarrow> variant_tab" where
  "tab_of run pick injections t =
     (let i = vt_try_index t; noun = tryNoun run
      in \<lparr>tb_tryIndex = i, tb_label = noun @ '' '' @ show_nat (i + 1), tb_state = vt_state t, tb_text = vt_text t, tb_thinking = vt_thinking t,
        tb_score = vt_score t, tb_tokens = map_option tt_total (vt_tokens t), tb_error = vt_error t,
        tb_forkedFromLabel = map_option (\<lambda>n. noun @ '' '' @ show_nat (n + 1)) (vt_forked_from t), tb_advice = vt_advice t,
        tb_injections = tab_injections run injections t, tb_activity = vt_activity t, tb_steps = vt_steps t,
        tb_selected = (map_option vs_selected_index (vr_selection run) = Some i),
        tb_userPick = (final_pick run i \<or> i \<in> fst ` set (refined_from run)),
        tb_comment = tab_comment run i, tb_candidateId = map_option cd_id (candidate_at pick i)\<rparr>)"

definition refined_candidate :: "variant_run \<Rightarrow> variant_candidate \<Rightarrow> bool" where
  "refined_candidate run c = (case find (\<lambda>t. vt_try_index t = cd_try_index c) (vr_tries run) of
       Some t \<Rightarrow> vt_forked_from t \<noteq> None | None \<Rightarrow> False)"

text \<open>\<open>xs.at(-1)\<close> and \<open>xs[0]\<close>.\<close>

definition last_of :: "'a list \<Rightarrow> 'a option" where
  "last_of xs = (if xs = [] then None else Some (last xs))"

definition head_of :: "'a list \<Rightarrow> 'a option" where
  "head_of xs = (case xs of [] \<Rightarrow> None | x # _ \<Rightarrow> Some x)"

definition default_tab :: "variant_run \<Rightarrow> pick_question option \<Rightarrow> nat" where
  "default_tab run pick =
     (let candidates = (case pick of None \<Rightarrow> [] | Some q \<Rightarrow> pq_candidates q)
      in coalesce (or_else (map_option vs_selected_index (vr_selection run))
           (or_else (map_option cd_try_index (or_else (last_of (filter (refined_candidate run) candidates)) (head_of candidates)))
             (or_else (map_option vt_try_index (find (\<lambda>t. vt_state t = TryRunning) (vr_tries run)))
               (map_option vt_try_index (head_of (vr_tries run)))))) 0)"

definition offered_pick :: "pick_env \<Rightarrow> variant_run \<Rightarrow> pick_interaction list \<Rightarrow> pick_question option" where
  "offered_pick env run interactions = (if vr_selection run \<noteq> None \<or> vr_closure run \<noteq> None then None else waitingPick env run interactions)"

definition variantRunView :: "pick_env \<Rightarrow> variant_run \<Rightarrow> pick_interaction list \<Rightarrow> message list \<Rightarrow> run_view" where
  "variantRunView env run interactions messages =
     (let pick = offered_pick env run interactions
      in \<lparr>rv_variantsId = vr_variants_id run, rv_sessionId = vr_session_id run,
        rv_title = (if vr_origin run = OriginDraftAlternatives then ''Alternative drafts'' else str_or (vr_agent_id run) ''Agent'' @ '' tries''),
        rv_method = methodLabel (pe_dash env) run, rv_rubric = or_else (vr_rubric run) (Option.bind pick pq_rubric), rv_judge = vr_judge run,
        rv_status = statusLabel run (tryNoun run) (pick \<noteq> None),
        rv_tabs = map (tab_of run pick (variantInjections messages (vr_variants_id run))) (vr_tries run),
        rv_defaultTab = default_tab run pick, rv_pick = pick, rv_closed = map_option variantClosedView (vr_closure run),
        rv_refinable = coalesce (map_option pq_refinable pick) False\<rparr>)"

section \<open>Lemmas: where a block stands\<close>

lemma find_message: "find P xs = Some x \<Longrightarrow> x \<in> set xs \<and> P x"
  by (auto simp: find_Some_iff)

lemma turn_anchor_Some: "turn_anchor session turn = Some a \<Longrightarrow> \<exists>m\<in>set session. msg_id m = a \<and> msg_role m = RoleAssistant"
  by (auto simp: turn_anchor_def carries_turn_def dest!: find_message dest: in_set_dropD split: option.splits)

lemma anchor_Some:
  assumes "variantRunAnchorId run messages = Some a"
  shows "\<exists>m\<in>set messages. msg_id m = a \<and> msg_session_id m = vr_session_id run
    \<and> (own_or_try (vr_anchor_message_id run) vt_anchor_message_id run \<noteq> Some a \<longrightarrow> msg_role m = RoleAssistant)"
proof -
  let ?session = "filter (\<lambda>m. msg_session_id m = vr_session_id run) messages"
  let ?anchor = "own_or_try (vr_anchor_message_id run) vt_anchor_message_id run"
  let ?turn = "own_or_try (vr_run_id run) vt_run_id run"
  consider (served) "?anchor = Some a" "\<exists>m\<in>set ?session. msg_id m = a"
    | (turn) "turn_anchor ?session (coalesce ?turn []) = Some a"
    | (latest) "map_option msg_id (find (\<lambda>m. msg_role m = RoleAssistant) (rev ?session)) = Some a"
    using assms unfolding variantRunAnchorId_def Let_def by (fastforce split: if_splits)
  then show ?thesis
  proof cases
    case served
    then show ?thesis by auto
  next
    case turn
    then show ?thesis using turn_anchor_Some [OF turn] by auto
  next
    case latest
    then show ?thesis by (auto dest!: find_message)
  qed
qed

text \<open>A run outside any turn goes to the latest assistant message of its session.\<close>

lemma anchor_outside_turns:
  assumes "own_or_try (vr_run_id run) vt_run_id run = None"
    and "m \<in> set messages" "msg_role m = RoleAssistant" "msg_session_id m = vr_session_id run"
  shows "variantRunAnchorId run messages \<noteq> None"
proof -
  have "find (\<lambda>m. msg_role m = RoleAssistant) (rev (filter (\<lambda>m. msg_session_id m = vr_session_id run) messages)) \<noteq> None"
    using assms(2-) by (auto simp: find_None_iff)
  then show ?thesis using assms(1) by (auto simp: variantRunAnchorId_def Let_def truthy_str_def)
qed

lemma shown_at:
  assumes "distinct (map msg_id messages)" "m \<in> set messages" "vr_tries run \<noteq> []"
  shows "run \<in> set (variantRunsForMessage runs m messages) \<longleftrightarrow>
    run \<in> set runs \<and> msg_role m = RoleAssistant \<and> variantRunAnchorId run messages = Some (msg_id m)"
proof -
  have "msg_session_id m = vr_session_id run" if "variantRunAnchorId run messages = Some (msg_id m)"
    using anchor_Some [OF that] assms(1,2) by (metis (no_types, lifting) distinct_map inj_onD)
  then show ?thesis using assms(2,3) by (auto simp: variantRunsForMessage_def)
qed

section \<open>Lemmas: the pick\<close>

definition total_order_on_times :: "(string \<Rightarrow> string \<Rightarrow> int) \<Rightarrow> bool" where
  "total_order_on_times cmp \<longleftrightarrow> (\<forall>a b. cmp a b \<le> 0 \<or> cmp b a \<le> 0) \<and> (\<forall>a b c. cmp a b \<le> 0 \<and> cmp b c \<le> 0 \<longrightarrow> cmp a c \<le> 0)"

lemma sorted_insert_by:
  assumes "\<And>a b. cmp a b \<le> 0 \<or> cmp b a \<le> 0" "\<And>a b c. cmp a b \<le> 0 \<Longrightarrow> cmp b c \<le> 0 \<Longrightarrow> cmp a c \<le> 0"
  shows "sorted_wrt (\<lambda>a b. cmp a b \<le> 0) ys \<Longrightarrow> sorted_wrt (\<lambda>a b. cmp a b \<le> 0) (insert_by cmp x ys)"
proof (induction ys)
  case (Cons y ys)
  have "set (insert_by cmp x ys) = insert x (set ys)" by (induction ys) auto
  then show ?case using Cons assms(1) [of x y] assms(2) [of x y] by auto
qed simp

lemma sorted_wrt_js_sort:
  assumes "\<And>a b. cmp a b \<le> 0 \<or> cmp b a \<le> 0" "\<And>a b c. cmp a b \<le> 0 \<Longrightarrow> cmp b c \<le> 0 \<Longrightarrow> cmp a c \<le> 0"
  shows "sorted_wrt (\<lambda>a b. cmp a b \<le> 0) (js_sort cmp xs)"
  by (induction xs) (simp_all add: sorted_insert_by [of cmp, OF assms])

lemma pick_question_fields: "variantPickQuestion env i = Some q \<Longrightarrow> pq_interaction q = i"
  by (auto simp: variantPickQuestion_def split: if_splits)

lemma sorted_map_filter:
  assumes "\<And>x y. f x = Some y \<Longrightarrow> g y = x"
  shows "sorted_wrt R xs \<Longrightarrow> sorted_wrt (\<lambda>a b. R (g a) (g b)) (List.map_filter f xs)"
proof (induction xs)
  case (Cons x xs)
  have "R x (g y)" if "y \<in> set (List.map_filter f xs)" for y
    using Cons.prems that assms by (auto simp: List.map_filter_def)
  then show ?case using Cons assms by (auto simp: map_filter_simps split: option.splits)
qed (simp add: map_filter_simps)

lemma map_filter_members: "set (List.map_filter f xs) = {y. \<exists>x\<in>set xs. f x = Some y}"
  by (induction xs) (auto simp: map_filter_simps split: option.splits)

lemma find_rev_last: "find P (rev ys) = Some q \<Longrightarrow> \<exists>us vs. ys = us @ q # vs \<and> P q \<and> (\<forall>y\<in>set vs. \<not> P y)"
proof (induction ys rule: rev_induct)
  case (snoc y ys)
  show ?case
  proof (cases "P y")
    case False
    then obtain us vs where "ys = us @ q # vs" "P q" "\<forall>y\<in>set vs. \<not> P y" using snoc by auto
    with False have "ys @ [y] = us @ q # (vs @ [y]) \<and> P q \<and> (\<forall>y\<in>set (vs @ [y]). \<not> P y)" by auto
    then show ?thesis by blast
  next
    case True
    with snoc(2) have "ys @ [y] = ys @ q # [] \<and> P q \<and> (\<forall>y\<in>set []. \<not> P y)" by simp
    then show ?thesis by blast
  qed
qed simp

text \<open>The questions an answerable interaction asks about a run.\<close>

definition asks_about :: "pick_env \<Rightarrow> variant_run \<Rightarrow> pick_interaction \<Rightarrow> bool" where
  "asks_about env run i \<longleftrightarrow> answerable i \<and> (\<exists>q. variantPickQuestion env i = Some q \<and> pq_variantsId q = vr_variants_id run)"

lemma waitingPick_newest:
  assumes "total_order_on_times (pe_locale env)" "waitingPick env run interactions = Some q"
  shows "pq_interaction q \<in> set interactions \<and> asks_about env run (pq_interaction q) \<and> variantPickQuestion env (pq_interaction q) = Some q
    \<and> (\<forall>j\<in>set interactions. asks_about env run j \<longrightarrow> pe_locale env (pk_created_at j) (pk_created_at (pq_interaction q)) \<le> 0)"
proof -
  let ?cmp = "\<lambda>l r. pe_locale env (pk_created_at l) (pk_created_at r)"
  let ?sorted = "js_sort ?cmp (filter answerable interactions)"
  let ?qs = "List.map_filter (variantPickQuestion env) ?sorted"
  obtain us vs where q: "?qs = us @ q # vs" "pq_variantsId q = vr_variants_id run" "\<forall>y\<in>set vs. pq_variantsId y \<noteq> vr_variants_id run"
    using find_rev_last [OF assms(2) [unfolded waitingPick_def Let_def]] by (elim exE conjE) (rule that)
  have mem: "y \<in> set ?qs \<longleftrightarrow> (\<exists>i\<in>set interactions. answerable i \<and> variantPickQuestion env i = Some y)" for y
    unfolding map_filter_members set_js_sort by auto
  have "q \<in> set ?qs" using q(1) by simp
  then obtain i where i: "i \<in> set interactions" "answerable i" "variantPickQuestion env i = Some q" using mem by blast
  have iq: "pq_interaction q = i" using pick_question_fields [OF i(3)] .
  note order = assms(1) [unfolded total_order_on_times_def]
  have tot: "pe_locale env a b \<le> 0 \<or> pe_locale env b a \<le> 0" for a b by (rule order [THEN conjunct1, rule_format])
  have trans: "pe_locale env a b \<le> 0 \<Longrightarrow> pe_locale env b c \<le> 0 \<Longrightarrow> pe_locale env a c \<le> 0" for a b c
    by (rule order [THEN conjunct2, rule_format, OF conjI])
  have "sorted_wrt (\<lambda>a b. ?cmp a b \<le> 0) ?sorted"
    by (rule sorted_wrt_js_sort) (rule tot, rule trans)
  then have "sorted_wrt (\<lambda>a b. ?cmp (pq_interaction a) (pq_interaction b) \<le> 0) ?qs"
    by (rule sorted_map_filter [of "variantPickQuestion env" pq_interaction, rotated]) (rule pick_question_fields)
  then have before: "?cmp (pq_interaction y) i \<le> 0" if "y \<in> set us" for y using that q(1) iq by (auto simp: sorted_wrt_append)
  have "?cmp j i \<le> 0" if j: "j \<in> set interactions" "asks_about env run j" for j
  proof -
    obtain y where y: "variantPickQuestion env j = Some y" "pq_variantsId y = vr_variants_id run" "answerable j" using j(2) by (auto simp: asks_about_def)
    then have "y \<in> set us \<or> y = q" using mem [of y] j(1) q by auto
    then show ?thesis
    proof
      assume "y \<in> set us"
      from before [OF this] show ?thesis unfolding pick_question_fields [OF y(1)] .
    next
      assume "y = q"
      then have "j = i" using pick_question_fields [OF y(1)] iq by simp
      then show ?thesis using tot [of "pk_created_at i" "pk_created_at i"] by simp
    qed
  qed
  then show ?thesis using i iq q(2) by (auto simp: asks_about_def)
qed

lemma waitingPick_none: "waitingPick env run interactions = None \<longleftrightarrow> (\<forall>i\<in>set interactions. \<not> asks_about env run i)"
proof -
  let ?sorted = "js_sort (\<lambda>l r. pe_locale env (pk_created_at l) (pk_created_at r)) (filter answerable interactions)"
  have "waitingPick env run interactions = None \<longleftrightarrow>
      (\<forall>q\<in>set (List.map_filter (variantPickQuestion env) ?sorted). pq_variantsId q \<noteq> vr_variants_id run)"
    by (simp add: waitingPick_def find_None_iff Ball_def)
  also have "\<dots> \<longleftrightarrow> (\<forall>i\<in>set interactions. \<not> asks_about env run i)" unfolding map_filter_members set_js_sort asks_about_def by auto
  finally show ?thesis .
qed

section \<open>Lemmas: the tabs\<close>

lemma tab_fields [simp]:
  "tb_tryIndex (tab_of run pick injections t) = vt_try_index t" "tb_candidateId (tab_of run pick injections t) = map_option cd_id (candidate_at pick (vt_try_index t))"
  "tb_selected (tab_of run pick injections t) \<longleftrightarrow> map_option vs_selected_index (vr_selection run) = Some (vt_try_index t)"
  by (simp_all add: tab_of_def Let_def)

lemma one_at_index: "distinct (map f ts) \<Longrightarrow> length (filter (\<lambda>t. k = Some (f t)) ts) \<le> 1"
proof (induction ts)
  case (Cons t ts)
  show ?case
  proof (cases "k = Some (f t)")
    case True
    then have "filter (\<lambda>t. k = Some (f t)) ts = []" using Cons.prems by (auto simp: filter_empty_conv image_iff)
    then show ?thesis using True by simp
  next
    case False
    then show ?thesis using Cons.IH Cons.prems by simp
  qed
qed simp

lemma or_else_None_iff: "or_else a b = None \<longleftrightarrow> a = None \<and> b = None"
  by (cases a) auto

lemma or_else_cases: "or_else a b = Some x \<Longrightarrow> a = Some x \<or> (a = None \<and> b = Some x)"
  by (cases a) auto

lemma default_tab_exists:
  assumes "vr_tries run \<noteq> []" "\<forall>s. vr_selection run = Some s \<longrightarrow> vs_selected_index s \<in> vt_try_index ` set (vr_tries run)"
    and "\<forall>q. pick = Some q \<longrightarrow> cd_try_index ` set (pq_candidates q) \<subseteq> vt_try_index ` set (vr_tries run)"
  shows "default_tab run pick \<in> vt_try_index ` set (vr_tries run)"
proof -
  define candidates where "candidates = (case pick of None \<Rightarrow> [] | Some q \<Rightarrow> pq_candidates q)"
  let ?selected = "map_option vs_selected_index (vr_selection run)"
  let ?offered = "map_option cd_try_index (or_else (last_of (filter (refined_candidate run) candidates)) (head_of candidates))"
  let ?running = "map_option vt_try_index (find (\<lambda>t. vt_state t = TryRunning) (vr_tries run))"
  let ?first = "map_option vt_try_index (head_of (vr_tries run))"
  obtain i where i: "or_else ?selected (or_else ?offered (or_else ?running ?first)) = Some i"
  proof -
    have "?first \<noteq> None" using assms(1) by (cases "vr_tries run") (auto simp: head_of_def)
    then have "or_else ?selected (or_else ?offered (or_else ?running ?first)) \<noteq> None" unfolding or_else_None_iff by blast
    then show ?thesis using that by blast
  qed
  have d: "default_tab run pick = i" using i by (simp add: default_tab_def candidates_def Let_def)
  have c: "cd_try_index ` set candidates \<subseteq> vt_try_index ` set (vr_tries run)" using assms(3) by (auto simp: candidates_def split: option.splits)
  from i consider "?selected = Some i" | "?offered = Some i" | "?running = Some i" | "?first = Some i" by (auto dest!: or_else_cases)
  then show ?thesis
  proof cases
    case 1
    then show ?thesis using assms(2) d by auto
  next
    case 2
    then obtain x where x: "or_else (last_of (filter (refined_candidate run) candidates)) (head_of candidates) = Some x" "i = cd_try_index x" by auto
    have "last (filter (refined_candidate run) candidates) \<in> set candidates" if "filter (refined_candidate run) candidates \<noteq> []"
      using last_in_set [OF that] by simp
    then have "x \<in> set candidates"
      using or_else_cases [OF x(1)] by (auto simp: last_of_def head_of_def split: if_splits list.splits)
    then show ?thesis using c x(2) d by auto
  next
    case 3
    then obtain t where "t \<in> set (vr_tries run)" "i = vt_try_index t" by (auto dest!: find_message)
    then show ?thesis using d by simp
  next
    case 4
    then show ?thesis using d by (auto simp: head_of_def split: list.splits)
  qed
qed

section \<open>Properties\<close>

text \<open>A run with one draft, the response of its session, and the question it waits with.\<close>

definition ex_draft_run :: variant_run where
  "ex_draft_run = the (obj_get ex_runs ''v1'')"

definition ex_response :: message where
  "ex_response = \<lparr>msg_id = ''m1'', msg_session_id = ''s1'', msg_turn_id = None, msg_run_id = None, msg_role = RoleAssistant, msg_created_at = ''t'',
     msg_completed_at = None, msg_blocks = [], msg_model = None, msg_metadata = None, msg_usage = None, msg_cost_usd = None,
     msg_stop_reason = None, msg_error_info = None\<rparr>"

definition ex_question :: pick_interaction where
  "ex_question = \<lparr>pk_id = ''q'', pk_kind = IkQuestion, pk_status = IsPending, pk_tool_name = Some DRAFT_ALTERNATIVES_TOOL, pk_prompt = None,
     pk_created_at = ''t'', pk_metadata = None, pk_expires_at = None, pk_actions = Some [''answer'']\<rparr>"

definition ex_pick_env :: pick_env where
  "ex_pick_env = \<lparr>pe_metadata = (\<lambda>_. Some \<lparr>pm_variants_id = ''v1'', pm_rubric = None, pm_refinable = True,
       pm_candidates = [\<lparr>cd_id = ''a#run0'', cd_try_index = 0, cd_text = ''draft''\<rparr>]\<rparr>),
     pe_locale = (\<lambda>a b. int (length a) - int (length b)), pe_dash = ''-''\<rparr>"

lemma ex_draft_run_facts:
  "wf_run ex_draft_run" "vr_tries ex_draft_run \<noteq> []" "vr_selection ex_draft_run = None" "vr_closure ex_draft_run = None" "vr_variants_id ex_draft_run = ''v1''"
  "variantRunAnchorId ex_draft_run [ex_response] = Some ''m1''"
proof -
  have "\<not> Option.is_none (obj_get ex_runs ''v1'')" by code_simp
  then obtain r where "obj_get ex_runs ''v1'' = Some r" by (auto simp: Option.is_none_def)
  then show "wf_run ex_draft_run" using wf_ex_runs by (auto simp: ex_draft_run_def wf_runs_def)
  have "length (vr_tries ex_draft_run) = 1" by code_simp
  then show "vr_tries ex_draft_run \<noteq> []" by auto
  have "Option.is_none (vr_selection ex_draft_run)" "Option.is_none (vr_closure ex_draft_run)" by code_simp+
  then show "vr_selection ex_draft_run = None" "vr_closure ex_draft_run = None" by (simp_all add: Option.is_none_def split: option.splits)
  show "vr_variants_id ex_draft_run = ''v1''" "variantRunAnchorId ex_draft_run [ex_response] = Some ''m1''" by code_simp+
qed

text \<open>
  C37. A block of drafts stands at one message. Where messages have ids of their own, the block of a run
  with tries is shown at exactly the assistant message its anchor names, so at most once; an anchor
  is a message of the run's own session, and an assistant message unless the server named it; and
  a run recorded outside any turn finds one as soon as its session has an assistant message.
\<close>
theorem run_block_stands_once:
  assumes "distinct (map msg_id messages)" "vr_tries run \<noteq> []"
  shows "(\<forall>m\<in>set messages. run \<in> set (variantRunsForMessage runs m messages) \<longleftrightarrow>
        run \<in> set runs \<and> msg_role m = RoleAssistant \<and> variantRunAnchorId run messages = Some (msg_id m))
    \<and> (\<forall>m\<in>set messages. \<forall>n\<in>set messages. run \<in> set (variantRunsForMessage runs m messages)
        \<and> run \<in> set (variantRunsForMessage runs n messages) \<longrightarrow> m = n)
    \<and> (\<forall>a. variantRunAnchorId run messages = Some a \<longrightarrow> (\<exists>m\<in>set messages. msg_id m = a \<and> msg_session_id m = vr_session_id run
        \<and> (own_or_try (vr_anchor_message_id run) vt_anchor_message_id run \<noteq> Some a \<longrightarrow> msg_role m = RoleAssistant)))
    \<and> (own_or_try (vr_run_id run) vt_run_id run = None
        \<and> (\<exists>m\<in>set messages. msg_role m = RoleAssistant \<and> msg_session_id m = vr_session_id run) \<longrightarrow> variantRunAnchorId run messages \<noteq> None)"
proof (intro conjI ballI allI impI)
  show "run \<in> set (variantRunsForMessage runs m messages) \<longleftrightarrow>
      run \<in> set runs \<and> msg_role m = RoleAssistant \<and> variantRunAnchorId run messages = Some (msg_id m)" if "m \<in> set messages" for m
    by (rule shown_at [OF assms(1) that assms(2)])
  show "m = n" if "m \<in> set messages" "n \<in> set messages"
      "run \<in> set (variantRunsForMessage runs m messages) \<and> run \<in> set (variantRunsForMessage runs n messages)" for m n
    using shown_at [OF assms(1) that(1) assms(2)] shown_at [OF assms(1) that(2) assms(2)] that assms(1)
    by (auto simp: distinct_map dest: inj_onD)
qed (use anchor_Some anchor_outside_turns in blast)+

theorem run_block_stands_once_witness: "ex_draft_run \<in> set (variantRunsForMessage [ex_draft_run] ex_response [ex_response])"
proof -
  have "distinct (map msg_id [ex_response])" by simp
  note all = run_block_stands_once [OF this ex_draft_run_facts(2), of "[ex_draft_run]"]
  have "msg_role ex_response = RoleAssistant" "msg_id ex_response = ''m1''" by (simp_all add: ex_response_def)
  then show ?thesis using all [THEN conjunct1] ex_draft_run_facts(6) by simp
qed

text \<open>
  C38. What the tabs of a run show. There is one tab for each try, in order, each index once. A run that is
  decided or closed offers no pick. Otherwise the pick is the newest answerable question about the
  run, and there is none only if no question is open. At most one tab is selected. The tab shown first is a
  tab of the run, where the selection and the offered drafts name tries of it.
\<close>
theorem variant_tabs_are_consistent:
  assumes "wf_run run" "total_order_on_times (pe_locale env)"
    and "view = variantRunView env run interactions messages"
  shows "map tb_tryIndex (rv_tabs view) = map vt_try_index (vr_tries run) \<and> distinct (map tb_tryIndex (rv_tabs view))
    \<and> (vr_selection run \<noteq> None \<or> vr_closure run \<noteq> None \<longrightarrow> rv_pick view = None \<and> (\<forall>tab\<in>set (rv_tabs view). tb_candidateId tab = None))
    \<and> (vr_selection run = None \<and> vr_closure run = None \<longrightarrow>
        (rv_pick view = None \<longleftrightarrow> (\<forall>i\<in>set interactions. \<not> asks_about env run i)))
    \<and> (\<forall>q. rv_pick view = Some q \<longrightarrow> pq_interaction q \<in> set interactions \<and> asks_about env run (pq_interaction q)
        \<and> (\<forall>j\<in>set interactions. asks_about env run j \<longrightarrow> pe_locale env (pk_created_at j) (pk_created_at (pq_interaction q)) \<le> 0))
    \<and> length (filter tb_selected (rv_tabs view)) \<le> 1
    \<and> (vr_tries run \<noteq> [] \<and> (\<forall>s. vr_selection run = Some s \<longrightarrow> vs_selected_index s \<in> vt_try_index ` set (vr_tries run))
        \<and> (\<forall>q. rv_pick view = Some q \<longrightarrow> cd_try_index ` set (pq_candidates q) \<subseteq> vt_try_index ` set (vr_tries run))
        \<longrightarrow> rv_defaultTab view \<in> tb_tryIndex ` set (rv_tabs view))"
proof -
  let ?pick = "offered_pick env run interactions"
  have pick: "rv_pick view = ?pick" and default: "rv_defaultTab view = default_tab run ?pick"
    and tabs: "rv_tabs view = map (tab_of run ?pick (variantInjections messages (vr_variants_id run))) (vr_tries run)"
    by (simp_all add: assms(3) variantRunView_def Let_def)
  have index: "map tb_tryIndex (rv_tabs view) = map vt_try_index (vr_tries run)" by (simp add: tabs)
  have d: "distinct (map vt_try_index (vr_tries run))" using assms(1) strict_sorted_iff by (simp add: wf_run_def)
  have one: "length (filter tb_selected (rv_tabs view)) \<le> 1"
    using one_at_index [OF d, of "map_option vs_selected_index (vr_selection run)"] by (simp add: tabs filter_map comp_def)
  have over: "rv_pick view = None \<and> (\<forall>tab\<in>set (rv_tabs view). tb_candidateId tab = None)" if "vr_selection run \<noteq> None \<or> vr_closure run \<noteq> None"
    using that by (auto simp: pick tabs offered_pick_def candidate_at_def)
  have none: "rv_pick view = None \<longleftrightarrow> (\<forall>i\<in>set interactions. \<not> asks_about env run i)" if "vr_selection run = None \<and> vr_closure run = None"
    using that waitingPick_none by (simp add: pick offered_pick_def)
  have newest: "pq_interaction q \<in> set interactions \<and> asks_about env run (pq_interaction q)
      \<and> (\<forall>j\<in>set interactions. asks_about env run j \<longrightarrow> pe_locale env (pk_created_at j) (pk_created_at (pq_interaction q)) \<le> 0)"
    if "rv_pick view = Some q" for q
    using waitingPick_newest [OF assms(2), of run interactions q] that by (auto simp: pick offered_pick_def split: if_splits)
  have first: "rv_defaultTab view \<in> tb_tryIndex ` set (rv_tabs view)"
    if "vr_tries run \<noteq> [] \<and> (\<forall>s. vr_selection run = Some s \<longrightarrow> vs_selected_index s \<in> vt_try_index ` set (vr_tries run))
        \<and> (\<forall>q. rv_pick view = Some q \<longrightarrow> cd_try_index ` set (pq_candidates q) \<subseteq> vt_try_index ` set (vr_tries run))"
    using default_tab_exists [of run ?pick] that by (simp add: default pick tabs image_image)
  show ?thesis using index d one over none newest first by simp
qed

theorem variant_tabs_are_consistent_witness: "rv_pick (variantRunView ex_pick_env ex_draft_run [ex_question] []) \<noteq> None"
proof -
  have order: "total_order_on_times (pe_locale ex_pick_env)" by (auto simp: total_order_on_times_def ex_pick_env_def)
  have "asks_about ex_pick_env ex_draft_run ex_question"
    by (simp add: asks_about_def answerable_def variantPickQuestion_def ex_question_def ex_pick_env_def ex_draft_run_facts(5) coalesce_def)
  then show ?thesis
    using variant_tabs_are_consistent [OF ex_draft_run_facts(1) order refl, of "[ex_question]" "[]"] ex_draft_run_facts(3,4) by simp
qed

end
