(* ===== verification/Archive_Sessions.thy ===== *)
theory Archive_Sessions
  imports Entity_State Archive_Table
begin

text \<open>
  \<open>lib/session-export/archive-orchestration-model.ts\<close>: the sessions of an archive. Which call of which
  session started a child, in what order the sessions are read, what a session was asked and what
  it answered. The schemas, \<open>JSON.parse\<close>, the reading of a date and the comparison of the locale are
  arguments.
\<close>

section \<open>The calls that start a session\<close>

record transcript_view =
  tv_messages :: "js_value list"
  tv_tools :: "js_value list"

record sessions_env =
  se_message :: "js_value \<Rightarrow> message option"
  se_tool :: "js_value \<Rightarrow> tool_invocation option"
  se_model :: "js_value \<Rightarrow> model_choice option"
  se_parse :: "string \<Rightarrow> js_value option"
  se_locale :: "string \<Rightarrow> string \<Rightarrow> int"
  se_date :: "string \<Rightarrow> rat option"

definition decodedMessages :: "sessions_env \<Rightarrow> transcript_view option \<Rightarrow> message list" where
  "decodedMessages env view = (case view of None \<Rightarrow> [] | Some v \<Rightarrow> List.map_filter (se_message env) (tv_messages v))"

definition decodedTools :: "sessions_env \<Rightarrow> transcript_view option \<Rightarrow> tool_invocation list" where
  "decodedTools env view = (case view of None \<Rightarrow> [] | Some v \<Rightarrow> List.map_filter (se_tool env) (tv_tools v))"

record spawn_call =
  sp_sessionId :: string
  sp_callId :: string
  sp_messageId :: "string option"
  sp_childSessionId :: string
  sp_forked :: bool
  sp_flow :: "string option"
  sp_agent :: "string option"
  sp_model :: "model_choice option"
  sp_assignment :: "string option"
  sp_startedAt :: "string option"

definition SPAWN_TOOLS :: "string list" where
  "SPAWN_TOOLS = [''spawn_agent_task'', ''spawn_skill_task'', ''spawn_agents_parallel'', ''run_flow'', ''run_workflow'']"

text \<open>
  \<open>record\<close>: an object, or a text that reads as one. A text that begins with a brace or a bracket
  parses to an object or an array or throws, so the call on the parsed value does not parse again.
\<close>

definition looks_like_json :: "string \<Rightarrow> bool" where
  "looks_like_json s \<longleftrightarrow> (case dropWhile js_whitespace s of [] \<Rightarrow> False | c # _ \<Rightarrow> c = CHR 0x7B \<or> c = CHR 0x5B)"

definition json_record :: "sessions_env \<Rightarrow> js_value \<Rightarrow> js_value obj option" where
  "json_record env v = (case v of
       JObj o1 \<Rightarrow> Some o1
     | JStr s \<Rightarrow> if looks_like_json s then (case se_parse env s of Some (JObj o1) \<Rightarrow> Some o1 | _ \<Rightarrow> None) else None
     | _ \<Rightarrow> None)"

definition json_field :: "js_value obj \<Rightarrow> string \<Rightarrow> js_value" where
  "json_field o1 k = coalesce (obj_get o1 k) JUndef"

fun written_text :: "js_value \<Rightarrow> string option" where
  "written_text (JStr s) = (if trim s = [] then None else Some s)"
| "written_text _ = None"

definition flow_of_call :: "string \<Rightarrow> js_value obj \<Rightarrow> js_value obj \<Rightarrow> string option" where
  "flow_of_call name entry input =
     (if name = ''run_workflow'' then Some ''workflow''
      else if name = ''run_flow'' then
        or_else (or_else (written_text (json_field entry ''flow'')) (written_text (json_field input ''flow''))) (Some ''flow'')
      else None)"

definition assignment_of_call :: "string \<Rightarrow> js_value obj \<Rightarrow> js_value obj \<Rightarrow> js_value obj \<Rightarrow> string option" where
  "assignment_of_call name entry input request =
     (if name = ''fork'' then or_else (written_text (json_field entry ''note'')) (written_text (json_field input ''note''))
      else if name = ''run_workflow'' then or_else (written_text (json_field input ''task'')) (written_text (json_field entry ''assignment''))
      else or_else (written_text (json_field entry ''assignment'')) (written_text (json_field request ''task'')))"

definition spawn_entry :: "sessions_env \<Rightarrow> string \<Rightarrow> tool_invocation \<Rightarrow> js_value obj \<Rightarrow> js_value obj \<Rightarrow> js_value \<Rightarrow> spawn_call list" where
  "spawn_entry env sessionId tool input request entry_value = (case json_record env entry_value of
       None \<Rightarrow> []
     | Some entry \<Rightarrow> (case written_text (json_field entry ''session_id'') of
           None \<Rightarrow> []
         | Some child \<Rightarrow>
             if child = sessionId then []
             else [\<lparr>sp_sessionId = sessionId, sp_callId = tool_id tool, sp_messageId = None, sp_childSessionId = child,
               sp_forked = (tool_name tool = ''fork''), sp_flow = flow_of_call (tool_name tool) entry input,
               sp_agent = or_else (or_else (written_text (json_field entry ''agent'')) (written_text (json_field request ''agent''))) (written_text (json_field request ''skill'')),
               sp_model = se_model env (json_field entry ''model''),
               sp_assignment = assignment_of_call (tool_name tool) entry input request, sp_startedAt = slot_val (tool_started_at tool)\<rparr>]))"

text \<open>\<open>x ?? y\<close> on values, and the items of an array.\<close>

definition or_value :: "js_value \<Rightarrow> js_value \<Rightarrow> js_value" where
  "or_value a b = (case a of JUndef \<Rightarrow> b | JNull \<Rightarrow> b | _ \<Rightarrow> a)"

fun array_items :: "js_value \<Rightarrow> js_value list" where
  "array_items (JArr vs) = vs"
| "array_items _ = []"

definition spawnCalls :: "sessions_env \<Rightarrow> string \<Rightarrow> tool_invocation \<Rightarrow> spawn_call list" where
  "spawnCalls env sessionId tool =
     (if tool_name tool \<noteq> ''fork'' \<and> tool_name tool \<notin> set SPAWN_TOOLS then []
      else let input = coalesce (Option.bind (slot_val (tool_input tool)) (json_record env)) []
      in case Option.bind (slot_val (tool_output tool)) (json_record env) of
           None \<Rightarrow> []
         | Some output \<Rightarrow>
             if tool_name tool = ''spawn_agents_parallel'' then
               (let requests = array_items (json_field input ''spawns'');
                    entries = array_items (or_value (json_field output ''spawned'') (json_field output ''outcomes''))
                in concat (map (\<lambda>(n, entry). spawn_entry env sessionId tool input
                     (if n < length requests then coalesce (json_record env (requests ! n)) [] else []) entry) (zip [0..<length entries] entries)))
             else spawn_entry env sessionId tool input input (JObj output))"

definition shows_call :: "tool_invocation \<Rightarrow> message \<Rightarrow> bool" where
  "shows_call tool m \<longleftrightarrow> list_ex (\<lambda>b. case blk_body b of ToolBlock i _ \<Rightarrow> i = tool_id tool | _ \<Rightarrow> False) (msg_blocks m)"

definition started_text :: "spawn_call \<Rightarrow> string" where
  "started_text call = coalesce (sp_startedAt call) []"

definition keep_earliest :: "(string \<times> spawn_call) list \<Rightarrow> spawn_call \<Rightarrow> (string \<times> spawn_call) list" where
  "keep_earliest calls call = (case map_of calls (sp_childSessionId call) of
       Some known \<Rightarrow> if \<not> text_less (started_text call) (started_text known) then calls else map_set calls (sp_childSessionId call) call
     | None \<Rightarrow> map_set calls (sp_childSessionId call) call)"

definition view_calls :: "sessions_env \<Rightarrow> string \<times> transcript_view \<Rightarrow> spawn_call list" where
  "view_calls env sv = concat (map (\<lambda>tool. map (\<lambda>call. call\<lparr>sp_messageId := map_option msg_id (find (shows_call tool) (decodedMessages env (Some (snd sv))))\<rparr>)
     (spawnCalls env (fst sv) tool)) (decodedTools env (Some (snd sv))))"

definition archiveSpawnCalls :: "sessions_env \<Rightarrow> (string \<times> transcript_view) list \<Rightarrow> (string \<times> spawn_call) list" where
  "archiveSpawnCalls env views = foldl keep_earliest [] (concat (map (view_calls env) views))"

section \<open>The sessions in reading order\<close>

record archive_session =
  rw_id :: string
  rw_created_at :: "string option"
  rw_parent :: "string option"

definition parent_session :: "archive_session list \<Rightarrow> (string \<times> spawn_call) list \<Rightarrow> archive_session \<Rightarrow> string option" where
  "parent_session rows calls row =
     (let ids = rw_id ` set rows; caller = map_option sp_sessionId (map_of calls (rw_id row));
          parent = (if truthy_str caller \<and> the caller \<in> ids then caller else rw_parent row)
      in if truthy_str parent \<and> the parent \<in> ids \<and> parent \<noteq> Some (rw_id row) then parent else None)"

definition children_of :: "archive_session list \<Rightarrow> (string \<times> spawn_call) list \<Rightarrow> string option \<Rightarrow> archive_session list" where
  "children_of rows calls p = filter (\<lambda>row. parent_session rows calls row = p) rows"

definition session_start :: "(string \<times> spawn_call) list \<Rightarrow> archive_session \<Rightarrow> string" where
  "session_start calls row = coalesce (or_else (Option.bind (map_of calls (rw_id row)) sp_startedAt) (rw_created_at row)) []"

definition kids_of :: "sessions_env \<Rightarrow> archive_session list \<Rightarrow> (string \<times> spawn_call) list \<Rightarrow> archive_session \<Rightarrow> archive_session list" where
  "kids_of env rows calls row =
     js_sort (\<lambda>a b. se_locale env (session_start calls a) (session_start calls b)) (children_of rows calls (Some (rw_id row)))"

lemma parent_session_known: "parent_session rows calls row = Some p \<Longrightarrow> p \<in> rw_id ` set rows"
  by (auto simp: parent_session_def Let_def split: if_splits)

lemma kids_of_unknown: "rw_id row \<notin> rw_id ` set rows \<Longrightarrow> kids_of env rows calls row = []"
  using parent_session_known [of rows calls _ "rw_id row"] by (auto simp: kids_of_def children_of_def filter_empty_conv)

text \<open>
  \<open>visit\<close>, with the rows still to be visited as a list: the children of a row are visited before
  what comes after it, and the set of visited rows is shared.
\<close>

function visit_rows :: "sessions_env \<Rightarrow> archive_session list \<Rightarrow> (string \<times> spawn_call) list \<Rightarrow> archive_session list \<Rightarrow> string list \<Rightarrow> archive_session list" where
  "visit_rows env rows calls [] seen = []"
| "visit_rows env rows calls (row # todo) seen =
     (if rw_id row \<in> set seen then visit_rows env rows calls todo seen
      else row # visit_rows env rows calls (kids_of env rows calls row @ todo) (rw_id row # seen))"
  by pat_completeness auto

termination
proof (relation "(\<lambda>(env, rows, calls, todo, seen). card (rw_id ` set rows - set seen)) <*mlex*> measure (\<lambda>(env, rows, calls, todo, seen). length todo)", goal_cases)
  case (3 env rows calls row todo seen)
  show ?case
  proof (cases "rw_id row \<in> rw_id ` set rows")
    case True
    then have "rw_id ` set rows - set (rw_id row # seen) \<subset> rw_id ` set rows - set seen" using 3 by auto
    then have "card (rw_id ` set rows - set (rw_id row # seen)) < card (rw_id ` set rows - set seen)" by (intro psubset_card_mono) auto
    then show ?thesis by (simp add: mlex_prod_def)
  next
    case False
    then have "rw_id ` set rows - set (rw_id row # seen) = rw_id ` set rows - set seen" by auto
    then show ?thesis using kids_of_unknown [OF False] by (simp add: mlex_prod_def)
  qed
qed (auto simp: mlex_prod_def intro: wf_mlex)

definition archiveSessionOrder :: "sessions_env \<Rightarrow> archive_session list \<Rightarrow> (string \<times> spawn_call) list \<Rightarrow> archive_session list" where
  "archiveSessionOrder env rows calls = visit_rows env rows calls (children_of rows calls None @ rows) []"

section \<open>What a session was asked and answered\<close>

definition delegated_text :: "message_block \<Rightarrow> string option" where
  "delegated_text b = (case blk_body b of
       InjectionBlock source t _ _ _ _ _ \<Rightarrow> if source = ''delegation'' \<and> trim t \<noteq> [] then Some (trim t) else None
     | _ \<Rightarrow> None)"

definition archiveDelegatedAssignment :: "sessions_env \<Rightarrow> transcript_view option \<Rightarrow> string option" where
  "archiveDelegatedAssignment env view =
     (case List.map_filter delegated_text (concat (map msg_blocks (decodedMessages env view))) of [] \<Rightarrow> None | t # _ \<Rightarrow> Some t)"

definition answer_text :: "message_block \<Rightarrow> string option" where
  "answer_text b = (case blk_body b of
       TextBlock t _ \<Rightarrow> if (\<not> truthy_str (blk_channel b) \<or> blk_channel b = Some ''answer'') \<and> trim t \<noteq> [] then Some (trim t) else None
     | _ \<Rightarrow> None)"

definition last_answer :: "message \<Rightarrow> string option" where
  "last_answer m = (if msg_role m \<noteq> RoleAssistant then None
     else case rev (List.map_filter answer_text (msg_blocks m)) of [] \<Rightarrow> None | t # _ \<Rightarrow> Some t)"

definition archiveFinalAnswer :: "sessions_env \<Rightarrow> transcript_view option \<Rightarrow> string option" where
  "archiveFinalAnswer env view =
     (case List.map_filter last_answer (rev (decodedMessages env view)) of [] \<Rightarrow> None | t # _ \<Rightarrow> Some t)"

text \<open>The link from a fork to its session, and the call a question was asked in.\<close>

definition fork_target :: "tool_invocation \<Rightarrow> string option" where
  "fork_target tool = (if tool_name tool \<noteq> ''fork'' then None
     else case slot_val (tool_output tool) of
         Some (JObj o1) \<Rightarrow> (case obj_get o1 ''session_id'' of Some (JStr s) \<Rightarrow> if s = [] then None else Some s | _ \<Rightarrow> None)
       | _ \<Rightarrow> None)"

definition session_link :: "string \<Rightarrow> string \<Rightarrow> presentation_block \<Rightarrow> presentation_block" where
  "session_link subject child b = (if pb_id b = subject \<and> pb_type b = ''text''
     then b\<lparr>pb_type := ''link'', pb_target := Some ''session'', pb_uri := Some child\<rparr> else b)"

definition withForkSessionLink :: "tool_invocation \<Rightarrow> tool_invocation" where
  "withForkSessionLink tool = (case (fork_target tool, slot_val (tool_presentation tool)) of
       (Some child, Some p) \<Rightarrow> (case tp_subject p of
           Some subject \<Rightarrow> if subject = [] then tool
             else tool\<lparr>tool_presentation := Val (p\<lparr>tp_blocks := map (session_link subject child) (tp_blocks p)\<rparr>)\<rparr>
         | None \<Rightarrow> tool)
     | _ \<Rightarrow> tool)"

record asked_question =
  aq_owner_session_id :: string
  aq_tool_name :: "string option"
  aq_invocation_id :: "string option"
  aq_created_at :: string

definition running_at :: "sessions_env \<Rightarrow> string \<Rightarrow> string \<Rightarrow> string \<Rightarrow> tool_invocation \<Rightarrow> bool" where
  "running_at env name sessionId time tool \<longleftrightarrow> tool_name tool = name \<and> tool_session_id tool = sessionId
     \<and> (case (se_date env (coalesce (slot_val (tool_started_at tool)) []), se_date env time) of
         (Some started, Some asked) \<Rightarrow> started \<le> asked
           \<and> (case se_date env (coalesce (slot_val (tool_completed_at tool)) []) of Some ended \<Rightarrow> asked \<le> ended | None \<Rightarrow> True)
       | _ \<Rightarrow> False)"

definition with_asking_call :: "sessions_env \<Rightarrow> tool_invocation list \<Rightarrow> string \<Rightarrow> asked_question \<Rightarrow> asked_question" where
  "with_asking_call env tools sessionId q =
     (if truthy_str (aq_invocation_id q) \<or> \<not> truthy_str (aq_tool_name q) \<or> aq_owner_session_id q \<noteq> sessionId then q
      else case filter (running_at env (coalesce (aq_tool_name q) []) sessionId (aq_created_at q)) tools of
          [tool] \<Rightarrow> q\<lparr>aq_invocation_id := Some (tool_id tool)\<rparr>
        | _ \<Rightarrow> q)"

definition withAskingCall :: "sessions_env \<Rightarrow> asked_question list \<Rightarrow> tool_invocation list \<Rightarrow> string \<Rightarrow> asked_question list" where
  "withAskingCall env interactions tools sessionId = map (with_asking_call env tools sessionId) interactions"

section \<open>Lemmas: the earliest call\<close>

lemma text_less_facts:
  "\<not> text_less s s" "text_less s t \<Longrightarrow> text_less t u \<Longrightarrow> text_less s u" "\<not> text_less s t \<Longrightarrow> \<not> text_less t u \<Longrightarrow> \<not> text_less s u"
proof -
  show "\<not> text_less s s" by (induction s) auto
  show "text_less s t \<Longrightarrow> text_less t u \<Longrightarrow> text_less s u"
  proof (induction s arbitrary: t u)
    case Nil
    then show ?case by (cases u; cases t) auto
  next
    case (Cons c s)
    then show ?case by (cases t; cases u) auto
  qed
  show "\<not> text_less s t \<Longrightarrow> \<not> text_less t u \<Longrightarrow> \<not> text_less s u"
  proof (induction s arbitrary: t u)
    case Nil
    then show ?case by (cases u; cases t) auto
  next
    case (Cons c s)
    then show ?case by (cases t; cases u) (auto simp: not_less dest: le_antisym)
  qed
qed

text \<open>The known call of each child is one of the calls, and none of its calls started before it.\<close>

definition earliest_inv :: "spawn_call list \<Rightarrow> (string \<times> spawn_call) list \<Rightarrow> bool" where
  "earliest_inv done_calls calls \<longleftrightarrow> (\<forall>c. case map_of calls c of
       Some call \<Rightarrow> call \<in> set done_calls \<and> sp_childSessionId call = c
         \<and> (\<forall>other\<in>set done_calls. sp_childSessionId other = c \<longrightarrow> \<not> text_less (started_text other) (started_text call))
     | None \<Rightarrow> \<forall>other\<in>set done_calls. sp_childSessionId other \<noteq> c)"

lemma keep_earliest_inv:
  assumes "earliest_inv old calls"
  shows "earliest_inv (old @ [call]) (keep_earliest calls call)"
  unfolding earliest_inv_def
proof
  fix c
  note inv = assms [unfolded earliest_inv_def, rule_format, of c]
  show "case map_of (keep_earliest calls call) c of
      Some found \<Rightarrow> found \<in> set (old @ [call]) \<and> sp_childSessionId found = c
        \<and> (\<forall>other\<in>set (old @ [call]). sp_childSessionId other = c \<longrightarrow> \<not> text_less (started_text other) (started_text found))
    | None \<Rightarrow> \<forall>other\<in>set (old @ [call]). sp_childSessionId other \<noteq> c"
  proof (cases "sp_childSessionId call = c")
    case False
    then have "map_of (keep_earliest calls call) c = map_of calls c"
      by (auto simp: keep_earliest_def map_of_map_set split: option.splits)
    then show ?thesis using inv False by (auto split: option.splits)
  next
    case True
    show ?thesis
    proof (cases "map_of calls c")
      case None
      then show ?thesis using inv True text_less_facts(1) by (auto simp: keep_earliest_def map_of_map_set)
    next
      case (Some known)
      then have known: "known \<in> set old" "sp_childSessionId known = c"
          "\<forall>other\<in>set old. sp_childSessionId other = c \<longrightarrow> \<not> text_less (started_text other) (started_text known)"
        using inv by auto
      show ?thesis
      proof (cases "text_less (started_text call) (started_text known)")
        case False
        then show ?thesis using known Some True by (simp add: keep_earliest_def)
      next
        case less: True
        have "\<not> text_less (started_text other) (started_text call)" if "other \<in> set old" "sp_childSessionId other = c" for other
          using known(3) that less text_less_facts(2) by blast
        then show ?thesis using known Some True less text_less_facts(1) by (auto simp: keep_earliest_def map_of_map_set)
      qed
    qed
  qed
qed

lemma earliest_all: "earliest_inv old calls \<Longrightarrow> earliest_inv (old @ later) (foldl keep_earliest calls later)"
proof (induction later arbitrary: old calls)
  case (Cons call later)
  from Cons.IH [OF keep_earliest_inv [OF Cons.prems, of call]] show ?case by simp
qed simp

section \<open>Lemmas: the reading order\<close>

lemma kids_are_rows: "k \<in> set (kids_of env rows calls row) \<Longrightarrow> k \<in> set rows \<and> parent_session rows calls k = Some (rw_id row)"
  by (simp add: kids_of_def children_of_def)

lemma visit_rows_sound:
  "set todo \<subseteq> set rows \<Longrightarrow> set (visit_rows env rows calls todo seen) \<subseteq> set rows
    \<and> distinct (map rw_id (visit_rows env rows calls todo seen)) \<and> set seen \<inter> rw_id ` set (visit_rows env rows calls todo seen) = {}"
proof (induction env rows calls todo seen rule: visit_rows.induct)
  case (2 env rows calls row todo seen)
  show ?case
  proof (cases "rw_id row \<in> set seen")
    case True
    then show ?thesis using 2(1,3) by simp
  next
    case False
    have "set (kids_of env rows calls row @ todo) \<subseteq> set rows" using 2(3) kids_are_rows by fastforce
    from 2(2) [OF False this] show ?thesis using False 2(3) by auto
  qed
qed simp

lemma visit_rows_append:
  "visit_rows env rows calls (xs @ ys) seen = visit_rows env rows calls xs seen
    @ visit_rows env rows calls ys (rev (map rw_id (visit_rows env rows calls xs seen)) @ seen)"
proof (induction env rows calls xs seen rule: visit_rows.induct)
  case (2 env rows calls row todo seen)
  then show ?case by simp
qed simp

lemma visit_rows_complete: "rw_id ` set todo \<subseteq> set seen \<union> rw_id ` set (visit_rows env rows calls todo seen)"
proof (induction env rows calls todo seen rule: visit_rows.induct)
  case (2 env rows calls row todo seen)
  then show ?case by auto
qed simp

text \<open>A row that was not in the list to begin with comes after the row it is a child of.\<close>

lemma visit_rows_parent:
  "visit_rows env rows calls todo seen = us @ row # vs \<Longrightarrow> row \<in> set todo \<or> (\<exists>p\<in>set us. row \<in> set (kids_of env rows calls p))"
proof (induction env rows calls todo seen arbitrary: us rule: visit_rows.induct)
  case (2 env rows calls first todo seen)
  show ?case
  proof (cases "rw_id first \<in> set seen")
    case True
    then show ?thesis using 2(1) 2(3) by auto
  next
    case False
    show ?thesis
    proof (cases us)
      case Nil
      then show ?thesis using 2(3) False by simp
    next
      case (Cons u us')
      then have "u = first" "visit_rows env rows calls (kids_of env rows calls first @ todo) (rw_id first # seen) = us' @ row # vs"
        using 2(3) False by auto
      then show ?thesis using 2(2) [OF False, of us'] Cons by auto
    qed
  qed
qed simp

text \<open>The children of a visited row are visited too.\<close>

lemma visit_rows_kids:
  "row \<in> set (visit_rows env rows calls todo seen) \<Longrightarrow>
    rw_id ` set (kids_of env rows calls row) \<subseteq> set seen \<union> rw_id ` set (visit_rows env rows calls todo seen)"
proof (induction env rows calls todo seen rule: visit_rows.induct)
  case (2 env rows calls first todo seen)
  show ?case
  proof (cases "rw_id first \<in> set seen")
    case True
    then show ?thesis using 2(1) 2(3) by simp
  next
    case False
    show ?thesis
    proof (cases "row = first")
      case True
      then show ?thesis using visit_rows_complete [of "kids_of env rows calls first @ todo" "rw_id first # seen" env rows calls] False by auto
    next
      case other: False
      then show ?thesis using 2(2) [OF False] 2(3) False by auto
    qed
  qed
qed simp

section \<open>Properties\<close>

text \<open>The rows whose recorded parents end at a row without one.\<close>

inductive rooted :: "archive_session list \<Rightarrow> (string \<times> spawn_call) list \<Rightarrow> archive_session \<Rightarrow> bool"
  for rows :: "archive_session list" and calls :: "(string \<times> spawn_call) list" where
  rooted_top: "row \<in> set rows \<Longrightarrow> parent_session rows calls row = None \<Longrightarrow> rooted rows calls row"
| rooted_child: "rooted rows calls p \<Longrightarrow> row \<in> set rows \<Longrightarrow> parent_session rows calls row = Some (rw_id p) \<Longrightarrow> rooted rows calls row"

text \<open>
  C40. The sections of an archive. Whatever the recorded parents claim, cycles included, every session
  has exactly one section; and a session whose parents end somewhere comes after the session it
  belongs under, unless it belongs under none.
\<close>
theorem archive_sections_are_complete:
  assumes "distinct (map rw_id rows)"
  shows "mset (archiveSessionOrder env rows calls) = mset rows
    \<and> (\<forall>us row vs. archiveSessionOrder env rows calls = us @ row # vs \<and> rooted rows calls row \<longrightarrow>
        parent_session rows calls row = None \<or> (\<exists>p\<in>set us. parent_session rows calls row = Some (rw_id p)))"
proof
  let ?roots = "children_of rows calls None"
  have roots: "set ?roots \<subseteq> set rows" by (auto simp: children_of_def)
  let ?order = "archiveSessionOrder env rows calls"
  have sound: "set ?order \<subseteq> set rows" "distinct (map rw_id ?order)"
    using visit_rows_sound [of "?roots @ rows" rows env calls "[]"] roots by (auto simp: archiveSessionOrder_def)
  have "rw_id ` set rows \<subseteq> rw_id ` set ?order"
    using visit_rows_complete [of "?roots @ rows" "[]" env rows calls] by (auto simp: archiveSessionOrder_def)
  then have "set ?order = set rows" using sound(1) assms by (auto simp: distinct_map dest: inj_onD)
  then show "mset ?order = mset rows" using sound(2) assms by (metis distinct_map set_eq_iff_mset_eq_distinct)
  let ?tree = "visit_rows env rows calls ?roots []"
  have split: "?order = ?tree @ visit_rows env rows calls rows (rev (map rw_id ?tree))"
    unfolding archiveSessionOrder_def by (subst visit_rows_append) simp
  have tree: "rw_id row \<in> rw_id ` set ?tree" if "rooted rows calls row" for row using that
  proof (induction rule: rooted.induct)
    case (rooted_top row)
    then show ?case using visit_rows_complete [of ?roots "[]" env rows calls] by (auto simp: children_of_def)
  next
    case (rooted_child p row)
    then obtain p' where p': "p' \<in> set ?tree" "rw_id p' = rw_id p" by auto
    have "row \<in> set (kids_of env rows calls p')" using rooted_child p'(2) by (simp add: kids_of_def children_of_def)
    then show ?case using visit_rows_kids [OF p'(1)] by auto
  qed
  show "\<forall>us row vs. ?order = us @ row # vs \<and> rooted rows calls row \<longrightarrow>
      parent_session rows calls row = None \<or> (\<exists>p\<in>set us. parent_session rows calls row = Some (rw_id p))"
  proof (intro allI impI, elim conjE)
    fix us row vs
    assume o: "?order = us @ row # vs" and r: "rooted rows calls row"
    obtain ws where ws: "?tree = us @ row # ws"
    proof (cases "length us < length ?tree")
      case True
      then have "take (length us) ?tree = us" "?tree ! length us = row" using split o
        by (metis append_eq_append_conv_if nat_less_le, metis nth_append nth_append_length)
      then show ?thesis using that [of "drop (Suc (length us)) ?tree"] True by (metis id_take_nth_drop)
    next
      case False
      have "take (length ?tree) (us @ row # vs) = ?tree" using split o by (metis append_eq_conv_conj)
      then have "us = ?tree @ drop (length ?tree) us" using False by (metis append_take_drop_id diff_is_0_eq' not_less take0 take_append append_Nil2)
      then obtain zs where "us = ?tree @ zs" by blast
      then show ?thesis using tree [OF r] sound(2) o by auto
    qed
    show "parent_session rows calls row = None \<or> (\<exists>p\<in>set us. parent_session rows calls row = Some (rw_id p))"
      using visit_rows_parent [OF ws] kids_are_rows by (fastforce simp: children_of_def)
  qed
qed

text \<open>A session, its fork with a copy of the call, and two sessions that claim each other as parent.\<close>

definition ex_fork_call :: "string \<Rightarrow> tool_invocation" where
  "ex_fork_call time = \<lparr>tool_id = ''call'', tool_session_id = ''main'', tool_run_id = Absent, tool_name = ''fork'', tool_title = Absent,
     tool_state = ToolSucceeded, tool_input = Absent, tool_output = Val (JObj [(''session_id'', JStr ''copy'')]), tool_presentation = Absent,
     tool_output_stream = Absent, tool_progress_message = Absent, tool_progress = Absent, tool_progress_total = Absent,
     tool_started_at = Val time, tool_completed_at = Absent, tool_duration_ms = Absent, tool_error = Absent, tool_submission = Absent,
     tool_execution_task = Absent, tool_execution_problem = Absent\<rparr>"

definition ex_sessions_env :: sessions_env where
  "ex_sessions_env = \<lparr>se_message = (\<lambda>_. None), se_tool = (\<lambda>v. case v of JStr t \<Rightarrow> Some (ex_fork_call t) | _ \<Rightarrow> None), se_model = (\<lambda>_. None),
     se_parse = (\<lambda>_. None), se_locale = (\<lambda>a b. int (length a) - int (length b)), se_date = (\<lambda>_. None)\<rparr>"

definition ex_archive_views :: "(string \<times> transcript_view) list" where
  "ex_archive_views = [(''other'', \<lparr>tv_messages = [], tv_tools = [JStr ''2'']\<rparr>), (''main'', \<lparr>tv_messages = [], tv_tools = [JStr ''1'']\<rparr>)]"

definition ex_rows :: "archive_session list" where
  "ex_rows = map (\<lambda>(i, p). \<lparr>rw_id = i, rw_created_at = None, rw_parent = p\<rparr>)
     [(''copy'', None), (''a'', Some ''b''), (''b'', Some ''a''), (''main'', None)]"

theorem archive_sections_are_complete_witness:
  "mset (archiveSessionOrder ex_sessions_env ex_rows (archiveSpawnCalls ex_sessions_env ex_archive_views)) = mset ex_rows"
proof -
  have "distinct (map rw_id ex_rows)" by code_simp
  from archive_sections_are_complete [OF this] show ?thesis by blast
qed

text \<open>
  Which call started a session. A session has a starting call exactly when some call of the
  archive names it as its child; that call is one of them, and none of them started earlier, so a
  fork's copy of its caller's calls never takes a session from the caller.
\<close>
lemma earliest_call_is_kept:
  "case map_of (archiveSpawnCalls env views) c of
     Some call \<Rightarrow> call \<in> set (concat (map (view_calls env) views)) \<and> sp_childSessionId call = c
       \<and> (\<forall>other\<in>set (concat (map (view_calls env) views)). sp_childSessionId other = c \<longrightarrow> \<not> text_less (started_text other) (started_text call))
   | None \<Rightarrow> \<forall>other\<in>set (concat (map (view_calls env) views)). sp_childSessionId other \<noteq> c"
proof -
  have "earliest_inv [] []" by (simp add: earliest_inv_def)
  from earliest_all [OF this, of "concat (map (view_calls env) views)"] show ?thesis
    by (simp add: archiveSpawnCalls_def earliest_inv_def)
qed

end
