(* ===== verification/Archive_Capture.thy ===== *)
theory Archive_Capture
  imports Flow_Run
begin

text \<open>
  \<open>session-export-orchestration.ts\<close>: what an export reads of how a session ran. The service is an
  argument (what a path answers), and so is the encoding of a part of a path. A read is named by
  what it reads; \<open>path_of\<close> is its path.
\<close>

section \<open>Reads\<close>

datatype capture_read =
    ReadSession | ReadWork | ReadStudy | ReadTransform string | ReadTaskRows "string option" | ReadFlow string | ReadTask string | ReadQuestions

datatype read_answer = Answered js_value | NotFound | Refused string

record capture_env =
  ce_read :: "string \<Rightarrow> read_answer"
  ce_encode :: "string \<Rightarrow> string"
  ce_query :: "string \<Rightarrow> string"

definition MAX_FLOW_DEPTH :: nat where
  "MAX_FLOW_DEPTH = 8"

definition session_prefix :: "capture_env \<Rightarrow> string \<Rightarrow> string" where
  "session_prefix env sessionId = ''/v1/sessions/'' @ ce_encode env sessionId"

definition sessionTaskRowsPath :: "capture_env \<Rightarrow> string \<Rightarrow> string option \<Rightarrow> string" where
  "sessionTaskRowsPath env sessionId cursor = session_prefix env sessionId @ ''/async-processes?''
     @ (if truthy_str cursor then ''cursor='' @ ce_query env (the cursor) @ ''&'' else []) @ ''include_descendants=false''"

definition transformRecordPath :: "capture_env \<Rightarrow> string \<Rightarrow> string" where
  "transformRecordPath env callId = ''/v1/transforms/'' @ ce_encode env callId"

definition flowQuestionsPath :: "capture_env \<Rightarrow> string \<Rightarrow> string" where
  "flowQuestionsPath env sessionId =
     session_prefix env sessionId @ ''/interactions?include_children=true&include_recent_resolved=true&resolved_limit=100''"

definition path_of :: "capture_env \<Rightarrow> string \<Rightarrow> capture_read \<Rightarrow> string" where
  "path_of env sessionId r = (case r of
       ReadSession \<Rightarrow> session_prefix env sessionId
     | ReadWork \<Rightarrow> session_prefix env sessionId @ ''/work?cursor=0''
     | ReadStudy \<Rightarrow> session_prefix env sessionId @ ''/science-log''
     | ReadTransform call \<Rightarrow> transformRecordPath env call
     | ReadTaskRows cursor \<Rightarrow> sessionTaskRowsPath env sessionId cursor
     | ReadFlow handle \<Rightarrow> session_prefix env sessionId @ ''/tasks/'' @ ce_encode env handle @ ''/flow''
     | ReadTask task \<Rightarrow> ''/v1/agent-tasks/'' @ ce_encode env task
     | ReadQuestions \<Rightarrow> flowQuestionsPath env sessionId)"

text \<open>
  What an export has captured (\<open>studies\<close>, \<open>transforms\<close>, shared by its sessions), and what it did: the
  reads in order, the failures it reported and the aliases it recorded.
\<close>

record capture =
  cp_studies :: "(string \<times> string) list"
  cp_transforms :: "string list"
  cp_reads :: "capture_read list"
  cp_failures :: "(string \<times> string) list"
  cp_aliases :: "(string \<times> string) list"

definition attempt :: "capture_env \<Rightarrow> string \<Rightarrow> capture_read \<Rightarrow> capture \<Rightarrow> js_value \<times> capture" where
  "attempt env sessionId r st =
     (let path = path_of env sessionId r; st1 = st\<lparr>cp_reads := cp_reads st @ [r]\<rparr>
      in case ce_read env path of
           Answered v \<Rightarrow> (v, st1)
         | NotFound \<Rightarrow> (JUndef, st1)
         | Refused message \<Rightarrow> (JUndef, st1\<lparr>cp_failures := cp_failures st1 @ [(path, message)]\<rparr>))"

definition value_field :: "js_value \<Rightarrow> string \<Rightarrow> js_value" where
  "value_field v k = record_field (as_record v) k"

fun items_of :: "js_value \<Rightarrow> js_value list" where
  "items_of (JArr vs) = vs"
| "items_of _ = []"

definition text_field :: "js_value \<Rightarrow> string \<Rightarrow> string" where
  "text_field v k = text_of (value_field v k)"

section \<open>The calls a study cites\<close>

definition parseCallReference :: "string \<Rightarrow> string \<times> string" where
  "parseCallReference reference =
     (let t = trim reference; rest = (if starts_with ''call:'' t then drop 5 t else t)
      in if CHR ''/'' \<notin> set rest then ([], rest)
         else (butlast (rev (dropWhile (\<lambda>c. c \<noteq> CHR ''/'') (rev rest))), rev (takeWhile (\<lambda>c. c \<noteq> CHR ''/'') (rev rest))))"

definition add_call :: "string list \<Rightarrow> js_value \<Rightarrow> string list" where
  "add_call calls v = (case v of
       JStr s \<Rightarrow> if trim s = [] \<or> snd (parseCallReference s) = [] then calls else set_add calls (snd (parseCallReference s))
     | _ \<Rightarrow> calls)"

definition entry_calls :: "js_value \<Rightarrow> js_value list" where
  "entry_calls entry =
     (let fields = value_field entry ''fields''
      in if as_record fields = None then []
         else map (\<lambda>row. value_field row ''call_id'') (items_of (value_field fields ''lineage''))
           @ [value_field fields ''analysis_call'']
           @ map (\<lambda>claim. value_field claim ''analysis_call'') (items_of (value_field fields ''claims'')))"

definition studyCitedCalls :: "js_value list \<Rightarrow> string list" where
  "studyCitedCalls entries = foldl add_call [] (concat (map entry_calls entries))"

section \<open>The study\<close>

definition cover_branch :: "string \<Rightarrow> string \<Rightarrow> (string \<times> string) list \<Rightarrow> js_value \<Rightarrow> (string \<times> string) list" where
  "cover_branch sessionId path studies branch =
     (let i = text_field branch ''session_id''
      in if i \<noteq> [] \<and> i \<noteq> sessionId \<and> map_of studies i = None then map_set studies i path else studies)"

definition read_transform :: "capture_env \<Rightarrow> string \<Rightarrow> capture \<Rightarrow> string \<Rightarrow> capture" where
  "read_transform env sessionId st call =
     (if call \<in> set (cp_transforms st) then st
      else snd (attempt env sessionId (ReadTransform call) (st\<lparr>cp_transforms := cp_transforms st @ [call]\<rparr>)))"

definition in_study :: "js_value \<Rightarrow> bool" where
  "in_study study \<longleftrightarrow> value_field study ''in_study'' = JBool True"

definition capture_study :: "capture_env \<Rightarrow> string \<Rightarrow> capture \<Rightarrow> capture" where
  "capture_study env sessionId st =
     (let path = path_of env sessionId ReadStudy; covered = map_of (cp_studies st) sessionId
      in if truthy_str covered then st\<lparr>cp_aliases := cp_aliases st @ [(path, the covered)]\<rparr>
         else let (study, st1) = attempt env sessionId ReadStudy st
         in if \<not> in_study study then st1
            else foldl (read_transform env sessionId)
              (st1\<lparr>cp_studies := foldl (cover_branch sessionId path) (cp_studies st1) (items_of (value_field study ''branches''))\<rparr>)
              (studyCitedCalls (items_of (value_field study ''entries''))))"

section \<open>The task rows and the flows\<close>

definition flow_handle :: "js_value \<Rightarrow> string list" where
  "flow_handle row =
     (let handle = str_or (text_field row ''handle'') (str_or (text_field row ''handle_id'') (text_field row ''id'')); flow = value_field row ''flow''
      in if handle \<noteq> [] \<and> as_record flow \<noteq> None \<and> text_field flow ''id'' \<noteq> ''react'' then [handle] else [])"

text \<open>The pages of task rows: \<open>None\<close> is a reading that never ends.\<close>

partial_function (option) task_pages ::
  "capture_env \<Rightarrow> string \<Rightarrow> string list \<Rightarrow> string list \<Rightarrow> string option \<Rightarrow> capture \<Rightarrow> (string list \<times> capture) option" where
  "task_pages env sessionId seen flows cursor st =
     (let (page, st1) = attempt env sessionId (ReadTaskRows cursor) st;
          flows1 = flows @ concat (map flow_handle (items_of (value_field page ''processes''))); next_cursor = text_field page ''cursor''
      in if next_cursor = [] \<or> next_cursor \<in> set seen then Some (flows1, st1)
         else task_pages env sessionId (next_cursor # seen) flows1 (Some next_cursor) st1)"

record flow_capture =
  fw_visited :: "string list"
  fw_tasks :: "string list"
  fw_capture :: capture

definition nested_flows :: "js_value \<Rightarrow> string list" where
  "nested_flows run = concat (map (\<lambda>c. if text_field c ''kind'' = ''flow'' \<and> text_field c ''handle'' \<noteq> [] then [text_field c ''handle''] else [])
     (items_of (value_field run ''calls'')))"

definition run_handles :: "string \<Rightarrow> js_value \<Rightarrow> string list" where
  "run_handles handle run =
     (let view = value_field run ''view''
      in js_set ([handle, text_field run ''root_handle'']
        @ map (\<lambda>r. text_field r ''handle'') (items_of (value_field run ''calls'') @ items_of (value_field view ''steps'')
            @ items_of (value_field view ''forks'') @ items_of (value_field run ''execution''))))"

definition read_task :: "capture_env \<Rightarrow> string \<Rightarrow> flow_capture \<Rightarrow> string \<Rightarrow> flow_capture" where
  "read_task env sessionId st task =
     (if task = [] \<or> task \<in> set (fw_tasks st) then st
      else st\<lparr>fw_tasks := fw_tasks st @ [task], fw_capture := snd (attempt env sessionId (ReadTask task) (fw_capture st))\<rparr>)"

text \<open>The number is how much depth is left: one more than the deepest level at the start, none past it.\<close>

fun capture_flow :: "capture_env \<Rightarrow> string \<Rightarrow> nat \<Rightarrow> flow_capture \<Rightarrow> string \<Rightarrow> flow_capture" where
  "capture_flow env sessionId 0 st handle = st"
| "capture_flow env sessionId (Suc n) st handle =
     (if handle \<in> set (fw_visited st) then st
      else let (run, c) = attempt env sessionId (ReadFlow handle) (fw_capture st);
               st1 = st\<lparr>fw_visited := fw_visited st @ [handle], fw_capture := c\<rparr>
           in if as_record run = None then st1
              else foldl (capture_flow env sessionId n) (foldl (read_task env sessionId) st1 (run_handles handle run)) (nested_flows run))"

declare capture_flow.simps(2) [simp del]

definition captureSessionOrchestration :: "capture_env \<Rightarrow> string \<Rightarrow> capture \<Rightarrow> capture option" where
  "captureSessionOrchestration env sessionId st =
     (let st1 = snd (attempt env sessionId ReadWork (snd (attempt env sessionId ReadSession st)))
      in map_option (\<lambda>(flows, st2).
           let st3 = fw_capture (foldl (capture_flow env sessionId (Suc MAX_FLOW_DEPTH)) \<lparr>fw_visited = [], fw_tasks = [], fw_capture = st2\<rparr> flows)
           in if flows = [] then st3 else snd (attempt env sessionId ReadQuestions st3))
         (task_pages env sessionId [] [] None (capture_study env sessionId st1)))"

section \<open>Lemmas: what was read\<close>

definition failure_of :: "capture_env \<Rightarrow> string \<Rightarrow> capture_read \<Rightarrow> (string \<times> string) list" where
  "failure_of env sessionId r = (case ce_read env (path_of env sessionId r) of Refused m \<Rightarrow> [(path_of env sessionId r, m)] | _ \<Rightarrow> [])"

definition answer_of :: "capture_env \<Rightarrow> string \<Rightarrow> capture_read \<Rightarrow> js_value" where
  "answer_of env sessionId r = (case ce_read env (path_of env sessionId r) of Answered v \<Rightarrow> v | _ \<Rightarrow> JUndef)"

text \<open>From one state to another with these reads: all of them are recorded, and exactly the refused ones reported.\<close>

definition grew :: "capture_env \<Rightarrow> string \<Rightarrow> capture \<Rightarrow> capture_read list \<Rightarrow> capture \<Rightarrow> bool" where
  "grew env sessionId st rs st' \<longleftrightarrow> cp_reads st' = cp_reads st @ rs
     \<and> cp_failures st' = cp_failures st @ concat (map (failure_of env sessionId) rs)"

lemma grew_Nil [simp]: "grew env sessionId st [] st"
  by (simp add: grew_def)

lemma grew_trans: "grew env sessionId st rs st1 \<Longrightarrow> grew env sessionId st1 qs st2 \<Longrightarrow> grew env sessionId st (rs @ qs) st2"
  by (simp add: grew_def)

definition after_read :: "capture_env \<Rightarrow> string \<Rightarrow> capture_read \<Rightarrow> capture \<Rightarrow> capture" where
  "after_read env sessionId r st = snd (attempt env sessionId r st)"

lemma attempt_eq: "attempt env sessionId r st = (answer_of env sessionId r, after_read env sessionId r st)"
  by (simp add: attempt_def after_read_def answer_of_def Let_def split: read_answer.splits)

lemma after_read_grew: "grew env sessionId st [r] (after_read env sessionId r st)"
  by (simp add: attempt_def after_read_def grew_def failure_of_def Let_def split: read_answer.splits)

lemma after_read_transforms [simp]: "cp_transforms (after_read env sessionId r st) = cp_transforms st"
  by (simp add: attempt_def after_read_def Let_def split: read_answer.splits)

section \<open>Lemmas: the study\<close>

definition transform_reads :: "capture \<Rightarrow> capture_read list \<Rightarrow> capture \<Rightarrow> bool" where
  "transform_reads st rs st' \<longleftrightarrow> distinct rs \<and> set rs \<subseteq> insert ReadStudy (range ReadTransform)
     \<and> (\<forall>c. ReadTransform c \<in> set rs \<longrightarrow> c \<notin> set (cp_transforms st))
     \<and> set (cp_transforms st') = set (cp_transforms st) \<union> {c. ReadTransform c \<in> set rs}"

lemma read_transforms:
  "\<exists>rs. grew env sessionId st rs (foldl (read_transform env sessionId) st calls)
    \<and> transform_reads st rs (foldl (read_transform env sessionId) st calls) \<and> ReadStudy \<notin> set rs"
proof (induction calls arbitrary: st)
  case Nil
  have "grew env sessionId st [] st \<and> transform_reads st [] st" by (simp add: transform_reads_def)
  then show ?case by (auto intro: exI [of _ "[]"])
next
  case (Cons call calls)
  show ?case
  proof (cases "call \<in> set (cp_transforms st)")
    case True
    then show ?thesis using Cons.IH [of st] by (simp add: read_transform_def)
  next
    case False
    let ?mid = "st\<lparr>cp_transforms := cp_transforms st @ [call]\<rparr>"
    let ?st1 = "after_read env sessionId (ReadTransform call) ?mid"
    have st1: "read_transform env sessionId st call = ?st1" using False by (simp add: read_transform_def attempt_eq)
    have g: "grew env sessionId st [ReadTransform call] ?st1"
      using after_read_grew [of env sessionId ?mid "ReadTransform call"] by (simp add: grew_def)
    obtain rs where rs: "grew env sessionId ?st1 rs (foldl (read_transform env sessionId) ?st1 calls)"
        "transform_reads ?st1 rs (foldl (read_transform env sessionId) ?st1 calls)" "ReadStudy \<notin> set rs"
      using Cons.IH by blast
    have "transform_reads st (ReadTransform call # rs) (foldl (read_transform env sessionId) ?st1 calls)"
      using rs(2) False unfolding transform_reads_def after_read_transforms by auto
    moreover have "grew env sessionId st (ReadTransform call # rs) (foldl (read_transform env sessionId) ?st1 calls)"
      using grew_trans [OF g rs(1)] by simp
    ultimately show ?thesis using rs(3) st1 by (auto intro!: exI [of _ "ReadTransform call # rs"])
  qed
qed

lemma capture_study_reads:
  "\<exists>rs. grew env sessionId st rs (capture_study env sessionId st) \<and> transform_reads st rs (capture_study env sessionId st)"
proof (cases "truthy_str (map_of (cp_studies st) sessionId)")
  case True
  then have "grew env sessionId st [] (capture_study env sessionId st) \<and> transform_reads st [] (capture_study env sessionId st)"
    by (simp add: capture_study_def Let_def grew_def transform_reads_def)
  then show ?thesis by blast
next
  case False
  let ?st1 = "after_read env sessionId ReadStudy st"
  have g: "grew env sessionId st [ReadStudy] ?st1" by (rule after_read_grew)
  show ?thesis
  proof (cases "in_study (answer_of env sessionId ReadStudy)")
    case out: False
    then have "capture_study env sessionId st = ?st1" using False by (simp add: capture_study_def Let_def attempt_eq)
    then show ?thesis using g by (auto simp: transform_reads_def intro!: exI [of _ "[ReadStudy]"])
  next
    case True
    let ?study = "answer_of env sessionId ReadStudy"
    let ?st2 = "?st1\<lparr>cp_studies := foldl (cover_branch sessionId (path_of env sessionId ReadStudy)) (cp_studies ?st1) (items_of (value_field ?study ''branches''))\<rparr>"
    let ?st3 = "foldl (read_transform env sessionId) ?st2 (studyCitedCalls (items_of (value_field ?study ''entries'')))"
    have st3: "capture_study env sessionId st = ?st3" using False True by (simp add: capture_study_def Let_def attempt_eq)
    obtain rs where rs: "grew env sessionId ?st2 rs ?st3" "transform_reads ?st2 rs ?st3" "ReadStudy \<notin> set rs" using read_transforms by blast
    have "grew env sessionId st [ReadStudy] ?st2" using g by (simp add: grew_def)
    from grew_trans [OF this rs(1)] have "grew env sessionId st (ReadStudy # rs) ?st3" by simp
    moreover have "transform_reads st (ReadStudy # rs) ?st3"
      using rs(2,3) unfolding transform_reads_def by auto
    ultimately show ?thesis unfolding st3 by blast
  qed
qed

section \<open>Lemmas: the pages\<close>

definition next_page :: "capture_env \<Rightarrow> string \<Rightarrow> string option \<Rightarrow> string" where
  "next_page env sessionId cursor = text_field (answer_of env sessionId (ReadTaskRows cursor)) ''cursor''"

definition page_flows :: "capture_env \<Rightarrow> string \<Rightarrow> string option \<Rightarrow> string list" where
  "page_flows env sessionId cursor = concat (map flow_handle (items_of (value_field (answer_of env sessionId (ReadTaskRows cursor)) ''processes'')))"

lemma task_pages_step:
  "task_pages env sessionId seen flows cursor st =
     (let flows1 = flows @ page_flows env sessionId cursor;
          st1 = after_read env sessionId (ReadTaskRows cursor) st; c = next_page env sessionId cursor
      in if c = [] \<or> c \<in> set seen then Some (flows1, st1) else task_pages env sessionId (c # seen) flows1 (Some c) st1)"
  by (subst task_pages.simps) (simp add: attempt_eq next_page_def page_flows_def Let_def)

lemma task_pages_return:
  assumes "finite C" "\<And>c. next_page env sessionId c \<noteq> [] \<Longrightarrow> next_page env sessionId c \<in> C"
  shows "\<exists>flows' st' cs. task_pages env sessionId seen flows cursor st = Some (flows', st') \<and> distinct cs \<and> set cs \<inter> set seen = {}
    \<and> grew env sessionId st (map ReadTaskRows (cursor # map Some cs)) st' \<and> cp_transforms st' = cp_transforms st
    \<and> flows' = flows @ concat (map (page_flows env sessionId) (cursor # map Some cs))
    \<and> (\<forall>c\<in>set (cursor # map Some cs). next_page env sessionId c = [] \<or> next_page env sessionId c \<in> set seen \<union> set cs)"
proof (induction "card (C - set seen)" arbitrary: seen flows cursor st rule: less_induct)
  case less
  let ?c = "next_page env sessionId cursor"
  let ?st1 = "after_read env sessionId (ReadTaskRows cursor) st"
  have one: "grew env sessionId st [ReadTaskRows cursor] ?st1" "cp_transforms ?st1 = cp_transforms st" by (rule after_read_grew) simp
  show ?case
  proof (cases "?c = [] \<or> ?c \<in> set seen")
    case True
    then show ?thesis using one by (subst task_pages_step) (auto simp: Let_def intro!: exI [of _ "[]"])
  next
    case False
    then have "C - set (?c # seen) \<subset> C - set seen" using assms(2) [of cursor] by auto
    then have "card (C - set (?c # seen)) < card (C - set seen)" using assms(1) by (intro psubset_card_mono) auto
    from less(1) [OF this] obtain flows' st' cs where r:
        "task_pages env sessionId (?c # seen) (flows @ page_flows env sessionId cursor) (Some ?c) ?st1 = Some (flows', st')"
        "distinct cs" "set cs \<inter> set (?c # seen) = {}" "grew env sessionId ?st1 (map ReadTaskRows (Some ?c # map Some cs)) st'" "cp_transforms st' = cp_transforms ?st1"
        "flows' = (flows @ page_flows env sessionId cursor) @ concat (map (page_flows env sessionId) (Some ?c # map Some cs))"
        "\<forall>c\<in>set (Some ?c # map Some cs). next_page env sessionId c = [] \<or> next_page env sessionId c \<in> set (?c # seen) \<union> set cs"
      by blast
    have "task_pages env sessionId seen flows cursor st = Some (flows', st')" using False r(1) by (subst task_pages_step) (simp add: Let_def)
    moreover have "grew env sessionId st (map ReadTaskRows (cursor # map Some (?c # cs))) st'" using grew_trans [OF one(1) r(4)] by simp
    ultimately show ?thesis using r(2,3,5,6,7) one(2) False by (intro exI [of _ flows'] exI [of _ st'] exI [of _ "?c # cs"]) auto
  qed
qed

section \<open>Lemmas: the flows\<close>

definition flow_reads :: "capture_env \<Rightarrow> string \<Rightarrow> flow_capture \<Rightarrow> capture_read list \<Rightarrow> flow_capture \<Rightarrow> bool" where
  "flow_reads env sessionId st rs st' \<longleftrightarrow> grew env sessionId (fw_capture st) rs (fw_capture st') \<and> cp_transforms (fw_capture st') = cp_transforms (fw_capture st)
     \<and> distinct rs \<and> set rs = ReadFlow ` (set (fw_visited st') - set (fw_visited st)) \<union> ReadTask ` (set (fw_tasks st') - set (fw_tasks st))
     \<and> set (fw_visited st) \<subseteq> set (fw_visited st') \<and> set (fw_tasks st) \<subseteq> set (fw_tasks st')"

lemma flow_reads_Nil: "flow_reads env sessionId st [] st"
  by (simp add: flow_reads_def)

lemma flow_reads_trans:
  assumes "flow_reads env sessionId st rs st1" "flow_reads env sessionId st1 qs st2"
  shows "flow_reads env sessionId st (rs @ qs) st2"
  using assms unfolding flow_reads_def by (auto intro: grew_trans)

lemma read_task_reads: "\<exists>rs. flow_reads env sessionId st rs (read_task env sessionId st task) \<and> fw_visited (read_task env sessionId st task) = fw_visited st"
proof (cases "task = [] \<or> task \<in> set (fw_tasks st)")
  case True
  then show ?thesis using flow_reads_Nil by (auto simp: read_task_def)
next
  case False
  then have "flow_reads env sessionId st [ReadTask task] (read_task env sessionId st task)"
    using after_read_grew [of env sessionId "fw_capture st" "ReadTask task"] by (auto simp: read_task_def flow_reads_def attempt_eq)
  then show ?thesis using False by (auto simp: read_task_def)
qed

lemma read_tasks_reads:
  "\<exists>rs. flow_reads env sessionId st rs (foldl (read_task env sessionId) st tasks) \<and> fw_visited (foldl (read_task env sessionId) st tasks) = fw_visited st"
proof (induction tasks arbitrary: st)
  case (Cons task tasks)
  obtain rs where rs: "flow_reads env sessionId st rs (read_task env sessionId st task)" "fw_visited (read_task env sessionId st task) = fw_visited st"
    using read_task_reads by blast
  obtain qs where qs: "flow_reads env sessionId (read_task env sessionId st task) qs (foldl (read_task env sessionId) (read_task env sessionId st task) tasks)"
      "fw_visited (foldl (read_task env sessionId) (read_task env sessionId st task) tasks) = fw_visited (read_task env sessionId st task)"
    using Cons.IH by blast
  show ?case using flow_reads_trans [OF rs(1) qs(1)] rs(2) qs(2) by auto
qed (use flow_reads_Nil in auto)

text \<open>One flow: it is marked and read, then its tasks, then the flows it calls.\<close>

definition enter_flow :: "capture_env \<Rightarrow> string \<Rightarrow> flow_capture \<Rightarrow> string \<Rightarrow> flow_capture" where
  "enter_flow env sessionId st handle =
     (let run = answer_of env sessionId (ReadFlow handle);
          st1 = st\<lparr>fw_visited := fw_visited st @ [handle], fw_capture := after_read env sessionId (ReadFlow handle) (fw_capture st)\<rparr>
      in if as_record run = None then st1 else foldl (read_task env sessionId) st1 (run_handles handle run))"

definition called_flows :: "capture_env \<Rightarrow> string \<Rightarrow> string \<Rightarrow> string list" where
  "called_flows env sessionId handle = nested_flows (answer_of env sessionId (ReadFlow handle))"

lemma nested_flows_none: "as_record run = None \<Longrightarrow> nested_flows run = []"
  by (simp add: nested_flows_def value_field_def record_field_def)

lemma capture_flow_Suc:
  "capture_flow env sessionId (Suc n) st handle =
     (if handle \<in> set (fw_visited st) then st
      else foldl (capture_flow env sessionId n) (enter_flow env sessionId st handle) (called_flows env sessionId handle))"
  by (simp add: capture_flow.simps(2) attempt_eq enter_flow_def called_flows_def Let_def nested_flows_none)

lemma enter_flow_reads:
  assumes "handle \<notin> set (fw_visited st)"
  shows "\<exists>rs. flow_reads env sessionId st rs (enter_flow env sessionId st handle)
    \<and> set (fw_visited (enter_flow env sessionId st handle)) = insert handle (set (fw_visited st))"
proof -
  let ?st1 = "st\<lparr>fw_visited := fw_visited st @ [handle], fw_capture := after_read env sessionId (ReadFlow handle) (fw_capture st)\<rparr>"
  have one: "flow_reads env sessionId st [ReadFlow handle] ?st1"
    using assms after_read_grew [of env sessionId "fw_capture st" "ReadFlow handle"] by (auto simp: flow_reads_def)
  obtain rs where rs: "flow_reads env sessionId ?st1 rs (foldl (read_task env sessionId) ?st1 (run_handles handle (answer_of env sessionId (ReadFlow handle))))"
      "fw_visited (foldl (read_task env sessionId) ?st1 (run_handles handle (answer_of env sessionId (ReadFlow handle)))) = fw_visited ?st1"
    using read_tasks_reads by blast
  show ?thesis
  proof (cases "as_record (answer_of env sessionId (ReadFlow handle)) = None")
    case True
    then show ?thesis using one by (auto simp: enter_flow_def)
  next
    case False
    then show ?thesis using flow_reads_trans [OF one rs(1)] rs(2) by (auto simp: enter_flow_def)
  qed
qed

text \<open>The flows that flows call, from one to the next.\<close>

definition calls_flow :: "capture_env \<Rightarrow> string \<Rightarrow> (string \<times> string) set" where
  "calls_flow env sessionId = {(h, k). k \<in> set (called_flows env sessionId h)}"

definition closed_but :: "(string \<times> string) set \<Rightarrow> string set \<Rightarrow> string set \<Rightarrow> bool" where
  "closed_but r open_set visited \<longleftrightarrow> (\<forall>v\<in>visited - open_set. r `` {v} \<subseteq> visited)"

lemma capture_flow_reads:
  "\<exists>rs. flow_reads env sessionId st rs (capture_flow env sessionId n st handle)
    \<and> set (fw_visited (capture_flow env sessionId n st handle)) \<subseteq> set (fw_visited st) \<union> (calls_flow env sessionId)\<^sup>* `` {handle}"
proof (induction n arbitrary: st handle)
  case 0
  then show ?case using flow_reads_Nil by auto
next
  case (Suc n)
  let ?r = "calls_flow env sessionId"
  have many: "\<exists>rs. flow_reads env sessionId st rs (foldl (capture_flow env sessionId n) st hs)
      \<and> set (fw_visited (foldl (capture_flow env sessionId n) st hs)) \<subseteq> set (fw_visited st) \<union> ?r\<^sup>* `` set hs" for st hs
  proof (induction hs arbitrary: st)
    case (Cons h hs)
    obtain rs where rs: "flow_reads env sessionId st rs (capture_flow env sessionId n st h)"
        "set (fw_visited (capture_flow env sessionId n st h)) \<subseteq> set (fw_visited st) \<union> ?r\<^sup>* `` {h}" using Suc.IH by blast
    obtain qs where qs: "flow_reads env sessionId (capture_flow env sessionId n st h) qs (foldl (capture_flow env sessionId n) (capture_flow env sessionId n st h) hs)"
        "set (fw_visited (foldl (capture_flow env sessionId n) (capture_flow env sessionId n st h) hs)) \<subseteq> set (fw_visited (capture_flow env sessionId n st h)) \<union> ?r\<^sup>* `` set hs"
      using Cons.IH by blast
    have "?r\<^sup>* `` set (h # hs) = ?r\<^sup>* `` {h} \<union> ?r\<^sup>* `` set hs" by auto
    then show ?case using flow_reads_trans [OF rs(1) qs(1)] rs(2) qs(2) by auto
  qed (use flow_reads_Nil in auto)
  show ?case
  proof (cases "handle \<in> set (fw_visited st)")
    case True
    then show ?thesis using flow_reads_Nil by (auto simp: capture_flow_Suc)
  next
    case False
    obtain rs where rs: "flow_reads env sessionId st rs (enter_flow env sessionId st handle)"
        "set (fw_visited (enter_flow env sessionId st handle)) = insert handle (set (fw_visited st))" using enter_flow_reads [OF False] by blast
    obtain qs where qs: "flow_reads env sessionId (enter_flow env sessionId st handle) qs (capture_flow env sessionId (Suc n) st handle)"
        "set (fw_visited (capture_flow env sessionId (Suc n) st handle)) \<subseteq> set (fw_visited (enter_flow env sessionId st handle)) \<union> ?r\<^sup>* `` set (called_flows env sessionId handle)"
      using many [of "enter_flow env sessionId st handle" "called_flows env sessionId handle"] False by (auto simp: capture_flow_Suc)
    have "?r\<^sup>* `` set (called_flows env sessionId handle) \<subseteq> ?r\<^sup>* `` {handle}"
      by (auto simp: calls_flow_def intro: converse_rtrancl_into_rtrancl)
    then have "set (fw_visited (capture_flow env sessionId (Suc n) st handle)) \<subseteq> set (fw_visited st) \<union> ?r\<^sup>* `` {handle}"
      using qs(2) unfolding rs(2) by blast
    then show ?thesis using flow_reads_trans [OF rs(1) qs(1)] by blast
  qed
qed

lemma capture_flow_grows: "set (fw_visited st) \<subseteq> set (fw_visited (capture_flow env sessionId n st handle))"
  using capture_flow_reads unfolding flow_reads_def by blast

lemma capture_flows_grow: "set (fw_visited st) \<subseteq> set (fw_visited (foldl (capture_flow env sessionId n) st hs))"
proof (induction hs arbitrary: st)
  case (Cons h hs)
  show ?case using capture_flow_grows Cons.IH by simp (meson subset_trans)
qed simp

text \<open>Where no chain of calls is longer than the depth that is left, everything called is visited.\<close>

lemma capture_flow_closed:
  assumes "\<And>k x. (handle, x) \<in> calls_flow env sessionId ^^ k \<Longrightarrow> k < n"
    and "closed_but (calls_flow env sessionId) A (set (fw_visited st))"
  shows "handle \<in> set (fw_visited (capture_flow env sessionId n st handle))
    \<and> closed_but (calls_flow env sessionId) A (set (fw_visited (capture_flow env sessionId n st handle)))"
  using assms
proof (induction n arbitrary: st handle A)
  case 0
  have "(handle, handle) \<in> calls_flow env sessionId ^^ 0" by simp
  from 0(1) [OF this] show ?case by simp
next
  case (Suc n)
  let ?r = "calls_flow env sessionId"
  show ?case
  proof (cases "handle \<in> set (fw_visited st)")
    case True
    then show ?thesis using Suc.prems(2) by (simp add: capture_flow_Suc)
  next
    case False
    have many: "set hs \<subseteq> set (fw_visited (foldl (capture_flow env sessionId n) st hs))
        \<and> closed_but ?r B (set (fw_visited (foldl (capture_flow env sessionId n) st hs)))"
      if "set hs \<subseteq> set (called_flows env sessionId handle)" "closed_but ?r B (set (fw_visited st))" for st hs B
      using that
    proof (induction hs arbitrary: st)
      case (Cons h hs)
      have "k < n" if "(h, x) \<in> ?r ^^ k" for k x
      proof -
        have "(handle, h) \<in> ?r" using Cons.prems(1) by (simp add: calls_flow_def)
        then have "(handle, x) \<in> ?r ^^ Suc k" using that by (rule relpow_Suc_I2)
        then show ?thesis using Suc.prems(1) by blast
      qed
      then have h: "h \<in> set (fw_visited (capture_flow env sessionId n st h))"
          "closed_but ?r B (set (fw_visited (capture_flow env sessionId n st h)))"
        using Suc.IH [where handle = h and A = B and st = st] Cons.prems(2) by blast+
      from Cons.IH [OF _ h(2)] Cons.prems(1) h(1) capture_flows_grow [of "capture_flow env sessionId n st h" env sessionId n hs]
      show ?case by auto
    qed simp
    let ?st1 = "enter_flow env sessionId st handle"
    let ?st2 = "capture_flow env sessionId (Suc n) st handle"
    have v1: "set (fw_visited ?st1) = insert handle (set (fw_visited st))" using enter_flow_reads [OF False] by blast
    have "closed_but ?r (insert handle A) (set (fw_visited ?st1))" using Suc.prems(2) unfolding v1 closed_but_def by auto
    from many [OF subset_refl this] False
    have m: "set (called_flows env sessionId handle) \<subseteq> set (fw_visited ?st2)" "closed_but ?r (insert handle A) (set (fw_visited ?st2))"
      by (simp_all add: capture_flow_Suc)
    have "set (fw_visited ?st1) \<subseteq> set (fw_visited ?st2)"
      using capture_flows_grow False by (simp add: capture_flow_Suc)
    moreover have "?r `` {handle} \<subseteq> set (fw_visited ?st2)" using m(1) by (auto simp: calls_flow_def)
    moreover have "?r `` {v} \<subseteq> set (fw_visited ?st2)" if "v \<in> set (fw_visited ?st2) - A" for v
      using m(2) calculation(2) that unfolding closed_but_def by (cases "v = handle") blast+
    ultimately show ?thesis using v1 unfolding closed_but_def by blast
  qed
qed

text \<open>The task of every handle that a flow's run names is read.\<close>

definition tasks_ok :: "capture_env \<Rightarrow> string \<Rightarrow> flow_capture \<Rightarrow> bool" where
  "tasks_ok env sessionId st \<longleftrightarrow> (\<forall>h\<in>set (fw_visited st). as_record (answer_of env sessionId (ReadFlow h)) \<noteq> None \<longrightarrow>
     set (run_handles h (answer_of env sessionId (ReadFlow h))) - {[]} \<subseteq> set (fw_tasks st))"

lemma read_tasks_cover: "set tasks - {[]} \<union> set (fw_tasks st) \<subseteq> set (fw_tasks (foldl (read_task env sessionId) st tasks))"
proof (induction tasks arbitrary: st)
  case (Cons task tasks)
  have "set (fw_tasks st) \<union> ({task} - {[]}) \<subseteq> set (fw_tasks (read_task env sessionId st task))" by (auto simp: read_task_def)
  then show ?case using Cons.IH [of "read_task env sessionId st task"] by auto
qed simp

lemma enter_flow_tasks:
  assumes "tasks_ok env sessionId st" "handle \<notin> set (fw_visited st)"
  shows "tasks_ok env sessionId (enter_flow env sessionId st handle)"
proof -
  have v: "set (fw_visited (enter_flow env sessionId st handle)) = insert handle (set (fw_visited st))" using enter_flow_reads [OF assms(2)] by blast
  have t: "set (fw_tasks st) \<subseteq> set (fw_tasks (enter_flow env sessionId st handle))
      \<and> (as_record (answer_of env sessionId (ReadFlow handle)) \<noteq> None \<longrightarrow>
         set (run_handles handle (answer_of env sessionId (ReadFlow handle))) - {[]} \<subseteq> set (fw_tasks (enter_flow env sessionId st handle)))"
    using read_tasks_cover [of "run_handles handle (answer_of env sessionId (ReadFlow handle))"
        "st\<lparr>fw_visited := fw_visited st @ [handle], fw_capture := after_read env sessionId (ReadFlow handle) (fw_capture st)\<rparr>" env sessionId]
    by (auto simp: enter_flow_def Let_def)
  show ?thesis using assms(1) t unfolding tasks_ok_def v by blast
qed

lemma capture_flow_tasks: "tasks_ok env sessionId st \<Longrightarrow> tasks_ok env sessionId (capture_flow env sessionId n st handle)"
proof (induction n arbitrary: st handle)
  case (Suc n)
  have many: "tasks_ok env sessionId st \<Longrightarrow> tasks_ok env sessionId (foldl (capture_flow env sessionId n) st hs)" for st hs
    by (induction hs arbitrary: st) (simp_all add: Suc.IH)
  show ?case
    using many [OF enter_flow_tasks [OF Suc.prems]] Suc.prems by (simp add: capture_flow_Suc)
qed simp

lemma capture_flows:
  assumes "st = \<lparr>fw_visited = [], fw_tasks = [], fw_capture = c\<rparr>"
    and "st' = foldl (capture_flow env sessionId (Suc MAX_FLOW_DEPTH)) st hs"
  shows "\<exists>rs. grew env sessionId c rs (fw_capture st') \<and> cp_transforms (fw_capture st') = cp_transforms c \<and> distinct rs
    \<and> set rs = ReadFlow ` set (fw_visited st') \<union> ReadTask ` set (fw_tasks st') \<and> tasks_ok env sessionId st'
    \<and> ((\<forall>h k x. (h, x) \<in> calls_flow env sessionId ^^ k \<longrightarrow> k \<le> MAX_FLOW_DEPTH) \<longrightarrow>
         set hs \<subseteq> set (fw_visited st') \<and> calls_flow env sessionId `` set (fw_visited st') \<subseteq> set (fw_visited st'))"
proof -
  let ?f = "capture_flow env sessionId (Suc MAX_FLOW_DEPTH)"
  have reads: "\<exists>rs. flow_reads env sessionId st rs (foldl ?f st hs)" for st hs
  proof (induction hs arbitrary: st)
    case (Cons h hs)
    obtain rs qs where "flow_reads env sessionId st rs (?f st h)" "flow_reads env sessionId (?f st h) qs (foldl ?f (?f st h) hs)"
      using capture_flow_reads Cons.IH by blast
    then show ?case using flow_reads_trans by simp blast
  qed (use flow_reads_Nil in auto)
  have tasks: "tasks_ok env sessionId st \<Longrightarrow> tasks_ok env sessionId (foldl ?f st hs)" for st hs
    by (induction hs arbitrary: st) (simp_all add: capture_flow_tasks)
  have closed: "set hs \<subseteq> set (fw_visited (foldl ?f st hs)) \<and> closed_but (calls_flow env sessionId) {} (set (fw_visited (foldl ?f st hs)))"
    if short: "\<forall>h k x. (h, x) \<in> calls_flow env sessionId ^^ k \<longrightarrow> k \<le> MAX_FLOW_DEPTH" and "closed_but (calls_flow env sessionId) {} (set (fw_visited st))" for st hs
    using that(2)
  proof (induction hs arbitrary: st)
    case (Cons h hs)
    have "k < Suc MAX_FLOW_DEPTH" if "(h, x) \<in> calls_flow env sessionId ^^ k" for k x using short that by (meson le_imp_less_Suc)
    then have h: "h \<in> set (fw_visited (?f st h))" "closed_but (calls_flow env sessionId) {} (set (fw_visited (?f st h)))"
      using capture_flow_closed [of h env sessionId "Suc MAX_FLOW_DEPTH" "{}" st] Cons.prems by blast+
    show ?case using Cons.IH [OF h(2)] h(1) capture_flows_grow [of "?f st h" env sessionId "Suc MAX_FLOW_DEPTH" hs] by auto
  qed simp
  obtain rs where "flow_reads env sessionId st rs st'" using reads unfolding assms(2) by blast
  moreover have "tasks_ok env sessionId st'" unfolding assms(2) by (rule tasks) (simp add: tasks_ok_def assms(1))
  moreover have "set hs \<subseteq> set (fw_visited st') \<and> calls_flow env sessionId `` set (fw_visited st') \<subseteq> set (fw_visited st')"
    if "\<forall>h k x. (h, x) \<in> calls_flow env sessionId ^^ k \<longrightarrow> k \<le> MAX_FLOW_DEPTH"
    using closed [OF that, of st hs] unfolding assms(2) by (auto simp: closed_but_def assms(1))
  ultimately show ?thesis by (auto simp: flow_reads_def assms(1))
qed

section \<open>Properties\<close>

text \<open>Flows that call one another in a chain, and the service that answers for them.\<close>

definition ex_flow_answer :: "string \<Rightarrow> read_answer" where
  "ex_flow_answer nested = Answered (JObj [(''calls'', JArr [JObj [(''kind'', JStr ''flow''), (''handle'', JStr nested)]])])"

definition ex_capture_env :: capture_env where
  "ex_capture_env = \<lparr>ce_read = (\<lambda>path. case map_of
       (map (\<lambda>(h, k). (''/v1/sessions/s/tasks/'' @ h @ ''/flow'', ex_flow_answer k))
          [(''a'', ''b''), (''b'', ''c''), (''c'', ''d''), (''d'', ''e''), (''e'', ''f''), (''f'', ''g''), (''g'', ''h''), (''h'', ''i''), (''i'', ''j'')]) path of
       Some answer \<Rightarrow> answer | None \<Rightarrow> NotFound), ce_encode = (\<lambda>t. t), ce_query = (\<lambda>t. t)\<rparr>"

definition ex_capture :: capture where
  "ex_capture = \<lparr>cp_studies = [], cp_transforms = [], cp_reads = [], cp_failures = [], cp_aliases = []\<rparr>"

text \<open>
  The depth is counted along the way a flow was first reached, and a flow is entered once: a flow that was
  reached at the last level is not followed further, although it is listed itself.
\<close>

lemma late_flow_is_cut_short:
  "let reads = cp_reads (fw_capture (foldl (capture_flow ex_capture_env ''s'' (Suc MAX_FLOW_DEPTH))
      \<lparr>fw_visited = [], fw_tasks = [], fw_capture = ex_capture\<rparr> [''a'', ''i'']))
   in ReadFlow ''i'' \<in> set reads \<and> ''j'' \<in> set (called_flows ex_capture_env ''s'' ''i'') \<and> ReadFlow ''j'' \<notin> set reads"
  by code_simp

text \<open>
  C39. What an export reads of one session. Where the service has finitely many pages the capture ends, and
  it reads no path twice, nor the record of a call that an earlier session of the export read. Every read is
  recorded and exactly the refused ones are reported. It reads every page that a page names and the
  task of every handle a run names; and, where flows call each other at most eight levels deep,
  the run of every flow a page lists and of every flow a flow calls.
\<close>
theorem capture_reads_everything_once:
  assumes "finite C" "\<forall>c. next_page env sessionId c \<noteq> [] \<longrightarrow> next_page env sessionId c \<in> C"
  shows "\<exists>st' rs. captureSessionOrchestration env sessionId st = Some st' \<and> grew env sessionId st rs st' \<and> distinct rs
    \<and> (\<forall>c. ReadTransform c \<in> set rs \<longrightarrow> c \<notin> set (cp_transforms st)) \<and> set (cp_transforms st') = set (cp_transforms st) \<union> {c. ReadTransform c \<in> set rs}
    \<and> ReadTaskRows None \<in> set rs
    \<and> (\<forall>c. ReadTaskRows c \<in> set rs \<and> next_page env sessionId c \<noteq> [] \<longrightarrow> ReadTaskRows (Some (next_page env sessionId c)) \<in> set rs)
    \<and> (\<forall>h. ReadFlow h \<in> set rs \<and> as_record (answer_of env sessionId (ReadFlow h)) \<noteq> None \<longrightarrow>
        (\<forall>t\<in>set (run_handles h (answer_of env sessionId (ReadFlow h))). t \<noteq> [] \<longrightarrow> ReadTask t \<in> set rs))
    \<and> ((\<forall>h k x. (h, x) \<in> calls_flow env sessionId ^^ k \<longrightarrow> k \<le> MAX_FLOW_DEPTH) \<longrightarrow>
        (\<forall>c h. ReadTaskRows c \<in> set rs \<and> h \<in> set (page_flows env sessionId c) \<longrightarrow> ReadFlow h \<in> set rs)
        \<and> (\<forall>h k. ReadFlow h \<in> set rs \<and> (h, k) \<in> calls_flow env sessionId \<longrightarrow> ReadFlow k \<in> set rs))"
proof -
  let ?st1 = "after_read env sessionId ReadWork (after_read env sessionId ReadSession st)"
  let ?st2 = "capture_study env sessionId ?st1"
  have g1: "grew env sessionId st [ReadSession, ReadWork] ?st1" using grew_trans [OF after_read_grew after_read_grew] by simp
  obtain rs where study: "grew env sessionId ?st1 rs ?st2" "transform_reads ?st1 rs ?st2" using capture_study_reads by blast
  obtain flows st3 cs where pages: "task_pages env sessionId [] [] None ?st2 = Some (flows, st3)" "distinct cs"
      "grew env sessionId ?st2 (map ReadTaskRows (None # map Some cs)) st3" "cp_transforms st3 = cp_transforms ?st2"
      "flows = concat (map (page_flows env sessionId) (None # map Some cs))"
      "\<forall>c\<in>set (None # map Some cs). next_page env sessionId c = [] \<or> next_page env sessionId c \<in> set cs"
    using task_pages_return [OF assms(1), of env sessionId "[]" "[]" None ?st2] assms(2) by auto
  let ?fw = "foldl (capture_flow env sessionId (Suc MAX_FLOW_DEPTH)) \<lparr>fw_visited = [], fw_tasks = [], fw_capture = st3\<rparr> flows"
  obtain qs where fl: "grew env sessionId st3 qs (fw_capture ?fw)" "cp_transforms (fw_capture ?fw) = cp_transforms st3" "distinct qs"
      "set qs = ReadFlow ` set (fw_visited ?fw) \<union> ReadTask ` set (fw_tasks ?fw)" "tasks_ok env sessionId ?fw"
      "(\<forall>h k x. (h, x) \<in> calls_flow env sessionId ^^ k \<longrightarrow> k \<le> MAX_FLOW_DEPTH) \<longrightarrow>
         set flows \<subseteq> set (fw_visited ?fw) \<and> calls_flow env sessionId `` set (fw_visited ?fw) \<subseteq> set (fw_visited ?fw)"
    using capture_flows [OF refl refl] by blast
  define end_reads where "end_reads = (if flows = [] then [] else [ReadQuestions])"
  define st' where "st' = (if flows = [] then fw_capture ?fw else after_read env sessionId ReadQuestions (fw_capture ?fw))"
  have last: "grew env sessionId (fw_capture ?fw) end_reads st'" "cp_transforms st' = cp_transforms (fw_capture ?fw)"
    by (simp_all add: st'_def end_reads_def after_read_grew)
  have run: "captureSessionOrchestration env sessionId st = Some st'"
    using pages(1) by (simp add: captureSessionOrchestration_def attempt_eq st'_def Let_def)
  let ?all = "[ReadSession, ReadWork] @ rs @ map ReadTaskRows (None # map Some cs) @ qs @ end_reads"
  have grown: "grew env sessionId st ?all st'"
    using grew_trans [OF g1 grew_trans [OF study(1) grew_trans [OF pages(3) grew_trans [OF fl(1) last(1)]]]] by simp
  note tr = study(2) [unfolded transform_reads_def]
  have transforms: "ReadTransform c \<in> set ?all \<longleftrightarrow> ReadTransform c \<in> set rs" for c using fl(4) by (auto simp: end_reads_def)
  have pages_read: "ReadTaskRows c \<in> set ?all \<longleftrightarrow> c \<in> set (None # map Some cs)" for c using fl(4) tr by (auto simp: end_reads_def)
  have flows_read: "ReadFlow h \<in> set ?all \<longleftrightarrow> h \<in> set (fw_visited ?fw)" for h using fl(4) tr by (auto simp: end_reads_def)
  have tasks_read: "ReadTask t \<in> set ?all \<longleftrightarrow> t \<in> set (fw_tasks ?fw)" for t using fl(4) tr by (auto simp: end_reads_def)
  have d: "distinct ?all"
  proof -
    have "distinct (map ReadTaskRows (None # map Some cs))" using pages(2) by (auto simp: distinct_map inj_on_def)
    moreover have "set (map ReadTaskRows (None # map Some cs)) \<subseteq> range ReadTaskRows" by auto
    moreover have "set qs \<subseteq> range ReadFlow \<union> range ReadTask" using fl(4) by auto
    ultimately show ?thesis using tr fl(3) by (auto simp: end_reads_def)
  qed
  have t1: "\<forall>c. ReadTransform c \<in> set ?all \<longrightarrow> c \<notin> set (cp_transforms st)" unfolding transforms using tr by simp
  have t2: "set (cp_transforms st') = set (cp_transforms st) \<union> {c. ReadTransform c \<in> set ?all}"
    unfolding transforms last(2) fl(2) pages(4) using tr by simp
  have p1: "ReadTaskRows None \<in> set ?all" unfolding pages_read by simp
  have p2: "\<forall>c. ReadTaskRows c \<in> set ?all \<and> next_page env sessionId c \<noteq> [] \<longrightarrow> ReadTaskRows (Some (next_page env sessionId c)) \<in> set ?all"
    unfolding pages_read using pages(6) by auto
  have k: "\<forall>h. ReadFlow h \<in> set ?all \<and> as_record (answer_of env sessionId (ReadFlow h)) \<noteq> None \<longrightarrow>
      (\<forall>t\<in>set (run_handles h (answer_of env sessionId (ReadFlow h))). t \<noteq> [] \<longrightarrow> ReadTask t \<in> set ?all)"
    unfolding flows_read tasks_read using fl(5) unfolding tasks_ok_def by blast
  have f: "(\<forall>c h. ReadTaskRows c \<in> set ?all \<and> h \<in> set (page_flows env sessionId c) \<longrightarrow> ReadFlow h \<in> set ?all)
      \<and> (\<forall>h k. ReadFlow h \<in> set ?all \<and> (h, k) \<in> calls_flow env sessionId \<longrightarrow> ReadFlow k \<in> set ?all)"
    if "\<forall>h k x. (h, x) \<in> calls_flow env sessionId ^^ k \<longrightarrow> k \<le> MAX_FLOW_DEPTH"
  proof -
    have "set flows = (\<Union>c\<in>set (None # map Some cs). set (page_flows env sessionId c))" unfolding pages(5) by auto
    then show ?thesis unfolding pages_read flows_read using fl(6) that by blast
  qed
  show ?thesis using run grown d t1 t2 p1 p2 k f by (intro exI [of _ st'] exI [of _ ?all]) blast
qed

theorem capture_reads_everything_once_witness: "captureSessionOrchestration ex_capture_env ''s'' ex_capture \<noteq> None"
proof -
  have "next_page ex_capture_env ''s'' c = []" for c
    by (auto simp: next_page_def answer_of_def ex_capture_env_def ex_flow_answer_def text_field_def value_field_def as_record_def record_field_def coalesce_def
      dest!: map_of_SomeD split: read_answer.splits option.splits)
  then have "\<forall>c. next_page ex_capture_env ''s'' c \<noteq> [] \<longrightarrow> next_page ex_capture_env ''s'' c \<in> {}" by simp
  from capture_reads_everything_once [OF finite.emptyI this] show ?thesis by blast
qed

end
