(* ===== verification/Spec2Isabelle.thy ===== *)
theory Spec2Isabelle
  imports Formula A2ui_Surface Update_Flow Cursor_Pages Session_Cache Catalog_Registry Session_Stream Study_Tree
    Resource_Upload Conversation_Page Session_Reload Archive_Query Flow_Steps Flow_Edits Variant_View
    Archive_Sessions Archive_Capture
begin

text \<open>
  A verification of the client core of Agent Workspace (\<open>packages/core/src/v3\<close> and
  \<open>web/src\<close>): how what a server sends becomes the state a person sees, and the components that
  keep, bound and present that state.

  \<^bold>\<open>The program's parts and how they interact.\<close> A transport opens an event stream and turns its
  text (browser) or the messages of the native bridge (desktop) into frames. The loop of the
  open session consumes the frames, batches them to display frames, and reconnects with a
  backoff after it has reconciled the store with snapshots. A batch is reduced frame by frame
  into a normalized store of entities by a pure reducer, one arm per event type; a frame the
  reducer refuses becomes a typed gap. The live store holds the reduced entities and merges the
  snapshots that REST reads bring. Beside this path stand the paged reads, the retention of
  cached sessions, the registry of interactive catalogs and the reconciliation of an interactive
  surface with its processor, the formula language of tables, the study tree of the science log
  and the flow of a product update. The messages of a session become a page: repeated parts are
  folded, feedback and harness entries are placed, every turn gets a view of its parts, and the
  activity of continued responses is joined. The run of a flow is drawn as a diagram of its steps.

  \<^bold>\<open>Theories and sources.\<close> One theory models one part; definitions keep the source's names.
  \<^item> \<open>Clio_Prelude\<close>, \<open>Js_Object\<close>, \<open>Js_Number\<close>, \<open>Js_Multiset\<close>: results with thrown errors, the operators on optional
    values, stable sorting, bounded histories; objects with the language's key order behind the
    interface \<open>keyed_store\<close>; sums of binary64 numbers; what sorting and grouping keep.
  \<^item> \<open>Domain\<close>, \<open>Entity_State\<close>: the entities of \<open>domain.ts\<close> and of the domain files, the frames and the
    store.
  \<^item> \<open>Tool_Execution\<close> (\<open>tool-execution.ts\<close>), \<open>Variant_Runs\<close> (\<open>variant-reducer.ts\<close>), \<open>Compactions\<close>
    (\<open>compaction-reducer.ts\<close>), \<open>Message_Ops\<close> and \<open>Reducer\<close> (\<open>reducer.ts\<close>): the pure projections.
  \<^item> \<open>Reducer_Laws\<close>: the contract \<open>frame_handler\<close> every arm meets, interpreted on the table of arms;
    \<open>Reducer_Properties\<close>: what follows for frames and sequences of frames.
  \<^item> \<open>Frame_Reduction\<close> (\<open>frame-reduction.ts\<close>, \<open>frame-batcher.ts\<close>): contained reduction, over the interface
    \<open>contained_reducer\<close>; the batcher.
  \<^item> \<open>Live_Store\<close> (\<open>live-store.ts\<close>, \<open>session-entity-retention.ts\<close>, \<open>session-model-state.ts\<close>): the store and
    all its actions, as a step relation.
  \<^item> \<open>Event_Stream\<close> (\<open>browser-transport.ts\<close>, \<open>tauri-transport.ts\<close>): framing of the stream, the bridge queue,
    the outcome of a response.
  \<^item> \<open>Session_Stream\<close> (\<open>use-session-live-stream.ts\<close>, \<open>reconnect.ts\<close>, \<open>stream-notices.ts\<close>,
    \<open>task-updates.ts\<close>): the loop as a state machine.
  \<^item> \<open>Science_Log\<close> (\<open>science-log-updates.ts\<close>), \<open>Study_Tree\<close> (\<open>science-log-model.ts\<close>).
  \<^item> \<open>Catalog_Registry\<close> (\<open>catalog-registry.ts\<close>, \<open>capabilities.ts\<close>, \<open>registry-failure.ts\<close>),
    \<open>A2ui_Surface\<close> (the surface half of \<open>processor-store.ts\<close>).
  \<^item> \<open>Resource_Upload\<close> (\<open>upload-workspace-resources.ts\<close>): resumable uploads into the custody of the
    service, which is an argument.
  \<^item> \<open>Conversation_Turn\<close> (\<open>conversation-turn-model.ts\<close>), \<open>Conversation_Placement\<close>
    (\<open>conversation-activity-placement.ts\<close>), \<open>Message_Projection\<close> (\<open>conversation-message-projection.ts\<close>),
    \<open>Conversation_Page\<close> (the feedback, injection, compaction and model placements, and their
    composition in \<open>conversation.tsx\<close>).
  \<^item> \<open>Cursor_Pages\<close> (\<open>transport.ts\<close>), \<open>Session_Cache\<close> (\<open>session-cache-retention.ts\<close>),
    \<open>Session_Reload\<close> (\<open>session-reload-cache.ts\<close>), \<open>Update_Flow\<close>
    (\<open>update-flow-store.ts\<close>), \<open>Formula\<close> (\<open>formula-expression.ts\<close>).
  \<^item> \<open>Archive_Table\<close> (\<open>archive-table-query.ts\<close>, \<open>archive-table-downsample.ts\<close>): the queries on the tables
    of an archived session; \<open>Js_Rounding\<close> bounds the rounding of numbers, \<open>Archive_Query\<close> proves what a
    query answers.
  \<^item> \<open>Flow_Shape\<close> (the shape half of \<open>flow-diagram-source.ts\<close>), \<open>Flow_Run\<close> (\<open>flow-run-domain.ts\<close>,
    \<open>flow-run-presentation.ts\<close>, \<open>flow-run-edits.ts\<close>), \<open>Flow_Railroad\<close> (\<open>flow-railroad.ts\<close>, the graph half
    of \<open>flow-diagram-source.ts\<close>, \<open>flowDiagrams\<close> of \<open>use-flow-presentation.ts\<close>): the run of a flow and its
    diagram. \<open>Flow_Order\<close> and \<open>Flow_Graph\<close> prove what a shape and the direct waits denote, \<open>Flow_Drawing\<close>
    and \<open>Flow_Steps\<close> what is drawn, \<open>Flow_Edits\<close> what is told of the changes while it ran.
  \<^item> \<open>Archive_Capture\<close> (\<open>session-export-orchestration.ts\<close>, \<open>transform-record.ts\<close>): what an export reads;
    \<open>Archive_Sessions\<close> (\<open>archive-orchestration-model.ts\<close>): the sessions of an archive.
  \<^item> \<open>Variant_View\<close> (\<open>variant-runs.ts\<close>): where the drafts of a variant run are shown, and the pick.

  \<^bold>\<open>How code becomes definitions.\<close> A record of the source is a \<open>record\<close>, a tagged union a \<open>datatype\<close>;
  an absent and an undefined property are told apart (\<open>slot\<close>) only where a spread copies them.
  Everything that throws returns \<open>js_error + 'a\<close>. State is passed explicitly; where operations
  interleave (store actions, the bridge, the loop of the session, an update run) they are step
  functions or relations over sequences of inputs. Code outside the repository is an argument
  of the definitions that call it: the validation schemas (fields of \<open>env\<close>), \<open>JSON.parse\<close>, the
  locale's comparison and the parsing of dates, the interactive-surface package (\<open>web_core\<close>), the
  number operations of the formula evaluator, the answers of a page reader. Counters and
  revisions are integers; lengths and delays are naturals; no arithmetic here can leave the
  range in which the language's numbers are exact, except the sums of usage and the places and
  areas of thinned rows, which are rounded.

  \<^bold>\<open>Loops and bounds.\<close> Loops over lists are folds or structural recursion. The cutting of the
  stream (\<open>drain\<close>) terminates because a block is never empty. The formula parser runs on fuel of
  ten steps per token and ten more (\<open>parser_fuel\<close>), proved to be always enough. The walk of the
  study tree runs on the number of branches as depth, proved to be enough. So do the decomposition of a workflow,
  on its number of steps, and the search for direct waits, on one more. The walk to the ancestors
  of a step terminates because the steps it is inside of are never entered twice. The size estimate
  stops after its own bound of 100000 visits, as the source does. Reading pages is a partial
  function, proved to return when the reader has finitely many cursors; so is the reading of the task
  rows of an export, whose flows are followed to the depth the source sets. The walk of the archived
  sessions keeps the rows still to be visited in a list and terminates because none is entered twice.

  \<^bold>\<open>What the theorems show.\<close>
  \<^item> \<^emph>\<open>The path of a frame.\<close> Any chunking of a stream gives the same events, and events written to the
    wire are read back; the bridge delivers in order and loses nothing on a normal end; both
    transports agree on a response. The loop gives every frame to the store once and in order
    across reconnects, backs off exponentially within its bounds, reopens only after a
    reconcile, and is a client of the store's contract; batches make no difference. The last
    theorem of this file joins them from the wire to the store.
  \<^item> \<^emph>\<open>The reducer.\<close> A replayed or stale frame changes nothing; every reachable store is well formed
    with bounded histories; live text is the earlier text followed by its deltas, whether or not the
    frames carry revisions, and nothing else changes with it; completed messages
    are settled; usage is the sum of the turns; a recorded outcome survives late frames. A batch
    contains what its frames refuse.
  \<^item> \<^emph>\<open>The store.\<close> Every sequence of actions keeps it well formed; snapshots never roll back rows the
    stream owns, except a session's terminal state; a reconcile forgets the lost thread; dropping a
    session removes exactly its rows.
  \<^item> \<^emph>\<open>The page.\<close> The view of a turn is lossless and in order, and well formed whatever the parts;
    joining responses moves nothing past anything else; folds keep one part per key at its
    place; continuations are exact; and no message of the projected transcript is missing from
    the page: feedback stands in the response it names, a grouped harness entry with the response
    it stands before, or with the earlier one that response continues.
  \<^item> \<^emph>\<open>Around it.\<close> Variant and compaction projections are exact and keep their invariants; a surface
    applies exactly the slots stamped after the revision it has applied; the catalog registry gives one answer per
    catalog; cached sessions are pruned within the policy; pages are read to the last; formulas
    parse to sound programs or a typed error; every update run is accounted for; the study tree
    shows every branch; a finished upload leaves in custody what was held up to the size the service
    reported and the rest of the file, so the whole file unless the upload was resumed from other
    bytes; a reload finds stored the longest tail of the transcript that fits, with the entities
    it mentions, and shows what the schema decodes of it; a page of an archived table holds matching rows, none
    twice, and thinning takes the places exact arithmetic would, up to \<open>2 ^ 25\<close> rows.
  \<^item> \<^emph>\<open>The diagram of a flow.\<close> A workflow gets a shape exactly when some nesting of sequences and
    parallels has the order of its waits; its railroad has every step once and a box for every inner
    flow that started, its graph loses no dependency and draws none that follows from others; every
    workflow is drawn, from its view with the forks behind their steps and the proposals after them
    or from the stages of its execution; the list of
    changes says of each proposal what the record says. The drafts of a run stand at one message, and
    a run that is decided or closed asks for nothing.
  \<^item> \<^emph>\<open>An archive.\<close> The capture of a session ends, reads nothing twice and every page and task that is
    named, and all flows where they call each other at most eight levels deep; every session of the archive has one section,
    below the session it belongs to; the call that started it is the earliest one (\<open>earliest_call_is_kept\<close>).

  \<^bold>\<open>What modelling showed.\<close> Where the code and a comment differ the theorem states the code: frames
  queued in the batcher cross a reconcile (\<open>queued_delta_lands_on_the_snapshot\<close>), branches whose
  parents loop are shown more than once (\<open>looping_branches_are_shown_twice\<close>), two files that differ
  only in the middle name the same upload (\<open>middle_is_not_fingerprinted\<close>), the desktop loses a
  nested error envelope (\<open>nested_envelope_is_lost_on_desktop\<close>), a name without a value is not always
  undefined under a power, lifecycles are never dropped with their session, rows without a
  readable number make the sort before thinning inconsistent (\<open>unreadable_x_has_no_order\<close>), and the note
  under a graph blames the waits also when there are only too many steps, and an export may miss the
  flows of a flow it first reached at the deepest level (\<open>late_flow_is_cut_short\<close>).

  \<^bold>\<open>Not modelled.\<close> Rendering (React components, styles, scrolling, the gantt, cascader and editor
  widgets) and the hooks that only wire queries to views: they have no state of their own that another part
  relies on. The validation schemas and generated models: they belong to the validation
  package's language; where a value is decoded a second time, as by a reload, the theorem speaks of what the
  schema decodes, since an unknown block is then wrapped again. The repositories that only name a route and a schema. The session half of
  the processor store, which is a set of query subscriptions. Of a flow's run, the questions it
  asked, its timings and the copy of its script. Of an archive, the transcript snapshot and the file. Byte encodings of the desktop
  bridge. The desktop shell (Rust), the terminal client and the adapters (Go, Python), which
  are other programs that speak the same protocol.
\<close>

section \<open>From the wire to the store\<close>

lemma stream_frames_fields:
  "map fr_cursor (stream_frames now es) = map se_cursor es" "map fr_eventName (stream_frames now es) = map se_eventName es"
  "map fr_data (stream_frames now es) = map se_data es"
proof -
  have "map (\<lambda>x. f (snd x)) (zip [0..<length es] es) = map f es" for f :: "stream_event \<Rightarrow> string"
    by (simp add: map_map [of f snd, unfolded comp_def, symmetric] del: map_map)
  then show "map fr_cursor (stream_frames now es) = map se_cursor es" "map fr_eventName (stream_frames now es) = map se_eventName es"
    by (simp_all add: stream_frames_def stamped_frame_def split_beta comp_def)
  have "map (\<lambda>x. se_data (snd x)) (zip [0..<length es] es) = map se_data es"
    by (simp add: map_map [of se_data snd, unfolded comp_def, symmetric] del: map_map)
  then show "map fr_data (stream_frames now es) = map se_data es"
    by (simp add: stream_frames_def stamped_frame_def split_beta comp_def)
qed

lemma wire_values_fields:
  "map (wire_value parse) ws = map Inr es \<Longrightarrow> map se_cursor es = map fst ws \<and> map se_eventName es = map (fst \<circ> snd) ws"
proof (induction ws arbitrary: es)
  case (Cons w ws)
  then obtain e es' where "es = e # es'" "wire_value parse w = Inr e" "map (wire_value parse) ws = map Inr es'"
    by (cases es) auto
  moreover from this(2) have "se_cursor e = fst w \<and> se_eventName e = fst (snd w)"
    by (cases w) (auto simp: wire_value_def bindR_eq_Inr)
  ultimately show ?case using Cons.IH by auto
qed simp

text \<open>
  C3. From the wire to the store. When the server writes events as single-line fields with JSON
  data, the network cuts the text into any chunks, and the session's stream loop consumes the
  frames the browser transport makes of it, over display frames, microtasks and the waits of
  its own, then after the clean-up the store has been given exactly those events, once each
  and in the server's order, with their cursors and names.
\<close>
theorem wire_events_reach_the_store:
  assumes "list_all wf_wire ws" "map (wire_value parse) ws = map Inr es"
    and "concat chunks = concat (map wire_event ws) @ partial" "eventBoundary partial = None"
    and "stream_run c (start_stream cur st) is = Some s"
    and "received is = stream_frames now (fst (stream_chunks parse [] chunks))"
  shows "map fr_cursor (applied (clean_up c s)) = map fst ws
    \<and> map fr_eventName (applied (clean_up c s)) = map (fst \<circ> snd) ws
    \<and> map fr_data (applied (clean_up c s)) = map se_data es"
proof -
  have "stream_chunks parse [] chunks = drain parse (concat (map wire_event ws) @ partial)"
    using stream_chunks_drain [of "[]" parse chunks] assms(3) by (simp add: eventBoundary_scan)
  then have "fst (stream_chunks parse [] chunks) = es"
    using drain_wires [OF assms(1,2), of partial] drain_nothing [OF assms(4), of parse] by simp
  then have "applied (clean_up c s) = stream_frames now es"
    using frames_inv_clean_up [OF assms(5)] assms(6) by simp
  with wire_values_fields [OF assms(2)] show ?thesis by (simp add: stream_frames_fields)
qed

theorem wire_events_reach_the_store_witness:
  "\<exists>s. stream_run ex_setting (start_stream None initial_store)
      [GotFrame 1 (stamped_frame ''t'' \<lparr>se_cursor = ''7'', se_eventName = ''run.started'', se_data = JObj []\<rparr>), ConnectionEnded] = Some s
    \<and> map fr_cursor (applied (clean_up ex_setting s)) = [''7'']"
proof -
  let ?e = "\<lparr>se_cursor = ''7'', se_eventName = ''run.started'', se_data = JObj []\<rparr>"
  let ?is = "[GotFrame 1 (stamped_frame ''t'' ?e), ConnectionEnded]"
  have n: "streamNoticeForFrame (stamped_frame ''t'' ?e) = Inr None"
    by (simp add: streamNoticeForFrame_def stamped_frame_def)
  obtain s where s: "stream_run ex_setting (start_stream None initial_store) ?is = Some s"
    using receive_phase [OF n] by (simp add: ex_run)
  have w: "list_all wf_wire [ex_wire]" "map (wire_value ex_parse) [ex_wire] = map Inr [?e]"
    by (simp_all add: wf_wire_def ex_wire_def one_line_def wire_value_def ex_parse_def)
  have c: "concat ex_chunks = concat (map wire_event [ex_wire]) @ '': keep''" "eventBoundary '': keep'' = None"
    by (simp_all add: ex_chunks_def ex_wire_def wire_event_def wire_lines_def eventBoundary_scan separator_length_def)
  have "stream_chunks ex_parse [] ex_chunks = drain ex_parse (concat (map wire_event [ex_wire]) @ '': keep'')"
    using stream_chunks_drain [of "[]" ex_parse ex_chunks] c(1) by (simp add: eventBoundary_scan)
  also have "\<dots> = ([?e], Inr '': keep'')"
    using drain_wires [OF w, of "'': keep''"] drain_nothing [OF c(2), of ex_parse] by simp
  finally have "received ?is = stream_frames (\<lambda>_. ''t'') (fst (stream_chunks ex_parse [] ex_chunks))"
    by (simp add: received_def stream_frames_def)
  from wire_events_reach_the_store [OF w c s this] s show ?thesis by (simp add: ex_wire_def)
qed

end
